(* ===== verification/Prelude.thy ===== *)
theory Prelude
  imports Complex_Main "HOL-Library.Sublist" "HOL-Library.AList" "HOL-Library.List_Lexorder"
    "HOL-Library.Char_ord"
begin

text \<open>
  What the components share: JavaScript values as the request handlers see them (\<open>js\<close>),
  the property accesses and guards the source writes on them (\<open>o?.k\<close>, \<open>{...o, k: v}\<close>,
  \<open>delete o.k\<close>, \<open>Array.isArray\<close>, \<open>typeof\<close>, truthiness), the string methods of the
  JavaScript library the code calls, insertion-ordered sets and maps, and the generic
  lemmas on them.

  Conventions. A string is a \<open>char list\<close>, one \<open>char\<close> per UTF-16 code unit below 256. An
  object is an association list in insertion order, as \<open>JSON.parse\<close> builds it; a \<open>Map\<close> is
  an association list too, and \<open>AList.update\<close> has the order semantics of \<open>Map.set\<close> (an
  existing key keeps its place, a new one goes last). A JSON number is a rational.
\<close>

named_theorems js_simps \<open>equations for property access on JavaScript values\<close>
named_theorems order_simps \<open>sets and distinctness of insertion-ordered collections\<close>

section \<open>JavaScript values\<close>

datatype js =
    JUndef
  | JNull
  | JBool bool
  | JNum rat
  | JStr string
  | JArr "js list"
  | JObj "(string \<times> js) list"

text \<open>\<open>o?.k\<close>: \<open>undefined\<close> on anything that is not an object holding \<open>k\<close>.\<close>

fun jget :: "js \<Rightarrow> string \<Rightarrow> js" where
  "jget (JObj kvs) k = (case map_of kvs k of None \<Rightarrow> JUndef | Some v \<Rightarrow> v)"
| "jget _ k = JUndef"

text \<open>\<open>o?.k1?.k2\<dots>\<close>\<close>

definition jpath :: "js \<Rightarrow> string list \<Rightarrow> js" where
  "jpath ob ks = foldl jget ob ks"

fun jfields :: "js \<Rightarrow> (string \<times> js) list" where
  "jfields (JObj kvs) = kvs"
| "jfields _ = []"

text \<open>\<open>{...o}\<close>, \<open>{...o, k: v}\<close> and \<open>delete\<close> on such a copy.\<close>

definition jcopy :: "js \<Rightarrow> js" where
  "jcopy ob = JObj (jfields ob)"

definition jset :: "string \<Rightarrow> js \<Rightarrow> js \<Rightarrow> js" where
  "jset k v ob = JObj (AList.update k v (jfields ob))"

definition jdel :: "string \<Rightarrow> js \<Rightarrow> js" where
  "jdel k ob = JObj (AList.delete k (jfields ob))"

fun is_arr :: "js \<Rightarrow> bool" where
  "is_arr (JArr _) = True"
| "is_arr _ = False"

fun is_obj :: "js \<Rightarrow> bool" where
  "is_obj (JObj _) = True"
| "is_obj _ = False"

fun is_str :: "js \<Rightarrow> bool" where
  "is_str (JStr _) = True"
| "is_str _ = False"

text \<open>\<open>v && typeof v === 'object'\<close>: a non-null object or array.\<close>

fun is_objectish :: "js \<Rightarrow> bool" where
  "is_objectish (JObj _) = True"
| "is_objectish (JArr _) = True"
| "is_objectish _ = False"

fun truthy :: "js \<Rightarrow> bool" where
  "truthy JUndef = False"
| "truthy JNull = False"
| "truthy (JBool b) = b"
| "truthy (JNum n) = (n \<noteq> 0)"
| "truthy (JStr s) = (s \<noteq> [])"
| "truthy (JArr _) = True"
| "truthy (JObj _) = True"

text \<open>The string value of a \<open>js\<close>, when it is a string (\<open>typeof v === 'string'\<close>).\<close>

fun jstring :: "js \<Rightarrow> string option" where
  "jstring (JStr s) = Some s"
| "jstring _ = None"

text \<open>\<open>v ?? d\<close>\<close>

definition nullish :: "js \<Rightarrow> js \<Rightarrow> js" where
  "nullish v d = (if v = JUndef \<or> v = JNull then d else v)"

lemma jget_not_obj [js_simps]: "\<not> is_obj ob \<Longrightarrow> jget ob k = JUndef"
  by (cases ob) auto

lemma jget_jset [simp, js_simps]: "jget (jset k v ob) k' = (if k = k' then v else jget ob k')"
  by (cases ob) (auto simp: jset_def update_conv')

lemma jget_jdel [simp, js_simps]: "jget (jdel k ob) k' = (if k = k' then JUndef else jget ob k')"
  by (cases ob) (auto simp: jdel_def delete_conv')

lemma jget_jcopy [simp, js_simps]: "jget (jcopy ob) k = jget ob k"
  by (cases ob) (auto simp: jcopy_def)

lemma jfields_jcopy [simp]: "jfields (jcopy ob) = jfields ob"
  by (simp add: jcopy_def)

lemma is_obj_copies [simp, js_simps]:
  "is_obj (jcopy ob)" "is_obj (jset k v ob)" "is_obj (jdel k ob)"
  by (simp_all add: jcopy_def jset_def jdel_def)

lemma jpath_simps [simp, js_simps]:
  "jpath ob [] = ob" "jpath ob (k # ks) = jpath (jget ob k) ks"
  by (simp_all add: jpath_def)

lemma jget_member: "jget ob k = v \<Longrightarrow> v \<noteq> JUndef \<Longrightarrow> (k, v) \<in> set (jfields ob)"
  by (cases ob) (auto split: option.splits dest: map_of_SomeD)

section \<open>Strings\<close>

text \<open>\<open>startsWith\<close>, \<open>endsWith\<close> and \<open>includes\<close> are \<open>prefix\<close>, \<open>suffix\<close> and \<open>sublist\<close> of
  \<open>HOL-Library.Sublist\<close>. The rest of the string methods:\<close>

text \<open>The line terminators a regular expression's \<open>.\<close> does not match, and the white space
  of \<open>\s\<close> and \<open>trim()\<close>, among the code units below 256.\<close>

definition is_newline :: "char \<Rightarrow> bool" where
  "is_newline c = (c = CHR 0x0A \<or> c = CHR 0x0D)"

definition is_space :: "char \<Rightarrow> bool" where
  "is_space c = (c \<in> {CHR 0x09, CHR 0x0A, CHR 0x0B, CHR 0x0C, CHR 0x0D, CHR 0x20, CHR 0xA0})"

definition is_digit :: "char \<Rightarrow> bool" where
  "is_digit c = (CHR ''0'' \<le> c \<and> c \<le> CHR ''9'')"

definition is_upper :: "char \<Rightarrow> bool" where
  "is_upper c = (CHR ''A'' \<le> c \<and> c \<le> CHR ''Z'')"

definition is_lower :: "char \<Rightarrow> bool" where
  "is_lower c = (CHR ''a'' \<le> c \<and> c \<le> CHR ''z'')"

text \<open>\<open>[A-Za-z0-9_]\<close>\<close>

definition is_word :: "char \<Rightarrow> bool" where
  "is_word c = (is_upper c \<or> is_lower c \<or> is_digit c \<or> c = CHR ''_'')"

definition trim_left :: "string \<Rightarrow> string" where
  "trim_left s = dropWhile is_space s"

definition trim :: "string \<Rightarrow> string" where
  "trim s = rev (trim_left (rev (trim_left s)))"

text \<open>\<open>toLowerCase\<close> on the code units below 256.\<close>

definition lower_char :: "char \<Rightarrow> char" where
  "lower_char c = (let n = of_char c :: nat in
     if 65 \<le> n \<and> n \<le> 90 \<or> 192 \<le> n \<and> n \<le> 222 \<and> n \<noteq> 215 then char_of (n + 32) else c)"

definition lower :: "string \<Rightarrow> string" where
  "lower s = map lower_char s"

text \<open>\<open>xs.join(sep)\<close> and \<open>s.split(c)\<close> for a one-character separator.\<close>

fun join :: "string \<Rightarrow> string list \<Rightarrow> string" where
  "join sep [] = []"
| "join sep [x] = x"
| "join sep (x # y # ys) = x @ sep @ join sep (y # ys)"

fun split_char :: "char \<Rightarrow> string \<Rightarrow> string list" where
  "split_char c [] = [[]]"
| "split_char c (x # xs) =
     (if x = c then [] # split_char c xs
      else (case split_char c xs of [] \<Rightarrow> [[x]] | w # ws \<Rightarrow> (x # w) # ws))"

text \<open>\<open>String(n)\<close> for a natural number.\<close>

fun show_nat :: "nat \<Rightarrow> string" where
  "show_nat n = (if n < 10 then [char_of (48 + n)] else show_nat (n div 10) @ [char_of (48 + n mod 10)])"

declare show_nat.simps [simp del]

lemma split_char_nonempty [simp]: "split_char c s \<noteq> []"
  by (induction s) (auto split: list.splits)

lemma join_split_char: "join [c] (split_char c s) = s"
proof (induction s)
  case Nil
  show ?case by simp
next
  case (Cons x xs)
  obtain w ws where ws: "split_char c xs = w # ws"
    by (cases "split_char c xs") auto
  with Cons.IH show ?case by (cases ws) auto
qed

lemma split_char_append:
  "split_char c (s @ c # t) = split_char c s @ split_char c t"
  by (induction s) (auto split: list.splits)

lemma split_char_plain: "c \<notin> set s \<Longrightarrow> split_char c s = [s]"
  by (induction s) auto

lemma split_char_join:
  "ws \<noteq> [] \<Longrightarrow> list_all (\<lambda>w. c \<notin> set w) ws \<Longrightarrow> split_char c (join [c] ws) = ws"
proof (induction ws)
  case (Cons x xs)
  have sep: "split_char c (x @ c # r) = x # split_char c r" if "c \<notin> set x" for r
    using that by (induction x) auto
  have alone: "split_char c x = [x]" if "c \<notin> set x"
    using that by (induction x) auto
  show ?case using Cons sep alone by (cases xs) simp_all
qed simp

lemma set_join: "set (join sep ws) \<subseteq> set sep \<union> \<Union> (set ` set ws)"
  by (induction sep ws rule: join.induct) auto

lemma prefix_dropD: "prefix p s \<Longrightarrow> p @ drop (length p) s = s"
  by (auto simp: prefix_def)

section \<open>Insertion-ordered sets\<close>

text \<open>\<open>[...new Set(xs)]\<close>: the first occurrence of each element, in order.\<close>

fun uniq :: "'a list \<Rightarrow> 'a list" where
  "uniq [] = []"
| "uniq (x # xs) = x # filter (\<lambda>y. y \<noteq> x) (uniq xs)"

text \<open>\<open>if (!xs.includes(x)) xs.push(x)\<close>, once and for each element of a list.\<close>

definition push_new :: "'a \<Rightarrow> 'a list \<Rightarrow> 'a list" where
  "push_new x xs = (if x \<in> set xs then xs else xs @ [x])"

definition push_all_new :: "'a list \<Rightarrow> 'a list \<Rightarrow> 'a list" where
  "push_all_new ys xs = fold push_new ys xs"

lemma set_uniq [simp, order_simps]: "set (uniq xs) = set xs"
  by (induction xs) auto

lemma distinct_uniq [simp, order_simps]: "distinct (uniq xs)"
  by (induction xs) auto

lemma uniq_distinct [order_simps]: "distinct xs \<Longrightarrow> uniq xs = xs"
proof (induction xs)
  case (Cons x xs)
  then show ?case by (auto intro: filter_True)
qed simp

lemma uniq_Nil_iff [simp]: "uniq xs = [] \<longleftrightarrow> xs = []"
  by (cases xs) auto

lemma set_push_new [simp, order_simps]: "set (push_new x xs) = insert x (set xs)"
  by (auto simp: push_new_def)

lemma distinct_push_new [simp, order_simps]: "distinct (push_new x xs) \<longleftrightarrow> distinct xs"
  by (auto simp: push_new_def)

lemma set_push_all_new [simp, order_simps]: "set (push_all_new ys xs) = set ys \<union> set xs"
  by (induction ys arbitrary: xs) (auto simp: push_all_new_def)

lemma distinct_push_all_new [simp, order_simps]:
  "distinct (push_all_new ys xs) \<longleftrightarrow> distinct xs"
  by (induction ys arbitrary: xs) (auto simp: push_all_new_def)

section \<open>Insertion-ordered maps\<close>

lemma map_of_update [simp]:
  "map_of (AList.update k v al) k' = (if k = k' then Some v else map_of al k')"
  by (simp add: update_conv')

lemma map_of_delete [simp]:
  "map_of (AList.delete k al) k' = (if k = k' then None else map_of al k')"
  by (simp add: delete_conv')

lemma distinct_update_keys [simp]:
  "distinct (map fst al) \<Longrightarrow> distinct (map fst (AList.update k v al))"
  by (rule distinct_update)

lemma distinct_delete_keys [simp]:
  "distinct (map fst al) \<Longrightarrow> distinct (map fst (AList.delete k al))"
  by (rule distinct_delete)

text \<open>\<open>xs.flatMap(f)\<close> for an \<open>f\<close> with at most one result: the \<open>if (n) out.push(n)\<close> loop.\<close>

definition collect_some :: "('a \<Rightarrow> 'b option) \<Rightarrow> 'a list \<Rightarrow> 'b list" where
  "collect_some f xs = concat (map (\<lambda>x. case f x of None \<Rightarrow> [] | Some y \<Rightarrow> [y]) xs)"

lemma collect_some_simps [simp]:
  "collect_some f [] = []"
  "collect_some f (x # xs) = (case f x of None \<Rightarrow> collect_some f xs | Some y \<Rightarrow> y # collect_some f xs)"
  by (auto simp: collect_some_def split: option.splits)

lemma collect_some_append [simp]: "collect_some f (xs @ ys) = collect_some f xs @ collect_some f ys"
  by (simp add: collect_some_def)

lemma set_collect_some: "set (collect_some f xs) = {y. \<exists>x \<in> set xs. f x = Some y}"
  by (induction xs) (auto split: option.splits)

lemma collect_some_filter:
  "collect_some f (filter P xs) = collect_some (\<lambda>x. if P x then f x else None) xs"
  by (induction xs) (auto split: option.splits)

end
