(* ===== verification/Tool_Identity.thy ===== *)
theory Tool_Identity
  imports Prelude
begin

text \<open>
  Tool identities and pattern matching (\<open>toolGovernance/identity.ts\<close>) and the spelling of the
  MCP tools a client hosts itself (\<open>toolGovernance/mcpNaming.ts\<close>). Every tool is reduced to one
  string, \<open>namespace:name\<close>; a policy pattern is such a string, optionally ending in \<open>*\<close>.

  Each fixed regular expression of the source is a function that returns its groups. The
  configurable ones (\<open>namePattern\<close>, \<open>nestedCallPattern\<close>) are fields of the naming record that
  hold the compiled expression as a function; the presets' expressions are written out.
\<close>

section \<open>Identities\<close>

type_synonym tool_identity = string

datatype decision = Allowed | Monitored | Stripped | Rejected | Unlisted | Detected

datatype policy_mode = Monitor | Strip | Reject

datatype decision_reason = By_Policy | By_Trust_Chain

text \<open>\<open>sensitive\<close> and \<open>untrusted\<close> are optional in the wire format: \<open>None\<close> is a field that is
  absent or not an array.\<close>

record tool_policy_block =
  policy_id :: string
  policy_name :: string
  policy_mode :: policy_mode
  allow :: "string list"
  deny :: "string list"
  sensitive :: "string list option"
  untrusted :: "string list option"

definition UNKNOWN_SOURCE :: tool_identity where
  "UNKNOWN_SOURCE = ''function:<unknown>''"

primrec mode_rank :: "policy_mode \<Rightarrow> nat" where
  "mode_rank Monitor = 0"
| "mode_rank Strip = 1"
| "mode_rank Reject = 2"

text \<open>The rank orders the modes: a stricter mode is a greater one.\<close>

instantiation policy_mode :: linorder
begin

definition less_eq_policy_mode :: "policy_mode \<Rightarrow> policy_mode \<Rightarrow> bool" where
  "less_eq_policy_mode m n = (mode_rank m \<le> mode_rank n)"

definition less_policy_mode :: "policy_mode \<Rightarrow> policy_mode \<Rightarrow> bool" where
  "less_policy_mode m n = (mode_rank m < mode_rank n)"

instance
proof
  fix m n k :: policy_mode
  show "m < n \<longleftrightarrow> m \<le> n \<and> \<not> n \<le> m"
    by (auto simp: less_eq_policy_mode_def less_policy_mode_def)
  show "m \<le> m"
    by (simp add: less_eq_policy_mode_def)
  show "m \<le> n \<Longrightarrow> n \<le> k \<Longrightarrow> m \<le> k"
    by (simp add: less_eq_policy_mode_def)
  show "m \<le> n \<Longrightarrow> n \<le> m \<Longrightarrow> m = n"
    by (cases m; cases n) (simp_all add: less_eq_policy_mode_def)
  show "m \<le> n \<or> n \<le> m"
    by (auto simp: less_eq_policy_mode_def)
qed

end

text \<open>The constructors of identities.\<close>

definition function_tool :: "string \<Rightarrow> tool_identity" where
  "function_tool name = ''function:'' @ name"

text \<open>\<open>type.replace(/_\d{8}$/, '')\<close>: a date suffix is dropped.\<close>

definition drop_date_suffix :: "string \<Rightarrow> string" where
  "drop_date_suffix t =
     (let n = length t in
      if 9 \<le> n \<and> t ! (n - 9) = CHR ''_'' \<and> list_all is_digit (drop (n - 8) t)
      then take (n - 9) t else t)"

definition hosted_tool :: "string \<Rightarrow> tool_identity" where
  "hosted_tool type = ''hosted:'' @ drop_date_suffix type"

definition mcp_server :: "string \<Rightarrow> tool_identity" where
  "mcp_server label = ''mcp:'' @ label"

definition mcp_tool :: "string \<Rightarrow> string \<Rightarrow> tool_identity" where
  "mcp_tool label tool = ''mcp:'' @ label @ ''/'' @ tool"

definition hosted_named_tool :: "string \<Rightarrow> string \<Rightarrow> tool_identity" where
  "hosted_named_tool type name = hosted_tool type @ ''/'' @ name"

text \<open>The tool's own name: after the last \<open>/\<close> of what follows the first colon.\<close>

definition after_namespace :: "tool_identity \<Rightarrow> string" where
  "after_namespace i =
     (case dropWhile (\<lambda>c. c \<noteq> CHR '':'') i of [] \<Rightarrow> i | _ # rest \<Rightarrow> rest)"

definition tool_name :: "tool_identity \<Rightarrow> string" where
  "tool_name i = rev (takeWhile (\<lambda>c. c \<noteq> CHR ''/'') (rev (after_namespace i)))"

text \<open>The text before and after the first \<open>/\<close>, when there is one.\<close>

fun split_slash :: "string \<Rightarrow> (string \<times> string) option" where
  "split_slash [] = None"
| "split_slash (c # s) =
     (if c = CHR ''/'' then Some ([], s) else map_option (\<lambda>(x, y). (c # x, y)) (split_slash s))"

text \<open>\<open>/^mcp:([^/]+)\/.+$/\<close>: the tool part is not empty and has no line terminator.\<close>

definition mcp_tool_server :: "tool_identity \<Rightarrow> string option" where
  "mcp_tool_server i =
     (if prefix ''mcp:'' i then
        (case split_slash (drop 4 i) of
           None \<Rightarrow> None
         | Some (server, tool) \<Rightarrow>
             if server \<noteq> [] \<and> tool \<noteq> [] \<and> list_all (\<lambda>c. \<not> is_newline c) tool then Some server else None)
      else None)"

text \<open>\<open>/^mcp:([^/]+)$/\<close>\<close>

definition mcp_server_only :: "tool_identity \<Rightarrow> string option" where
  "mcp_server_only i =
     (if prefix ''mcp:'' i \<and> drop 4 i \<noteq> [] \<and> CHR ''/'' \<notin> set (drop 4 i) then Some (drop 4 i) else None)"

text \<open>\<open>/^mcp:([^/*\s]+)\/\S+$/\<close>: the server a scoped allow pattern limits.\<close>

definition scoped_server_of :: "string \<Rightarrow> string option" where
  "scoped_server_of p =
     (if prefix ''mcp:'' p then
        (case split_slash (drop 4 p) of
           None \<Rightarrow> None
         | Some (server, tool) \<Rightarrow>
             if server \<noteq> [] \<and> list_all (\<lambda>c. c \<noteq> CHR ''*'' \<and> \<not> is_space c) server
                \<and> tool \<noteq> [] \<and> list_all (\<lambda>c. \<not> is_space c) tool
             then Some server else None)
      else None)"

text \<open>The identity an invoked tool is recorded under, given what the request declared.\<close>

definition resolve_invoked :: "tool_identity \<Rightarrow> tool_identity list \<Rightarrow> tool_identity" where
  "resolve_invoked invoked declared =
     (if invoked \<in> set declared then invoked
      else if \<not> prefix ''function:'' invoked then invoked
      else let name = tool_name invoked in
        if name = [] then invoked
        else case uniq (filter (\<lambda>i. tool_name i = name) declared) of
               [c] \<Rightarrow> c
             | _ \<Rightarrow> invoked)"

definition matches :: "string \<Rightarrow> tool_identity \<Rightarrow> bool" where
  "matches pattern identity =
     (if suffix ''*'' pattern then prefix (butlast pattern) identity else pattern = identity)"

definition matches_any :: "string list \<Rightarrow> tool_identity \<Rightarrow> bool" where
  "matches_any patterns identity = list_ex (\<lambda>p. matches p identity) patterns"

subsection \<open>Lemmas on identities\<close>

lemma matches_any_iff: "matches_any ps i \<longleftrightarrow> (\<exists>p \<in> set ps. matches p i)"
  by (auto simp: matches_any_def list_ex_iff)

lemma matches_any_mono: "set ps \<subseteq> set qs \<Longrightarrow> matches_any ps i \<Longrightarrow> matches_any qs i"
  by (auto simp: matches_any_iff)

lemma matches_any_append [simp]: "matches_any (ps @ qs) i \<longleftrightarrow> matches_any ps i \<or> matches_any qs i"
  by (auto simp: matches_any_iff)

lemma split_slash_join: "CHR ''/'' \<notin> set a \<Longrightarrow> split_slash (a @ CHR ''/'' # b) = Some (a, b)"
  by (induction a) auto

lemma split_slash_SomeD:
  "split_slash s = Some (a, b) \<Longrightarrow> s = a @ CHR ''/'' # b \<and> CHR ''/'' \<notin> set a"
  by (induction s arbitrary: a) (auto split: if_splits)

lemma mcp_tool_server_mcp_tool [simp]:
  "server \<noteq> [] \<Longrightarrow> CHR ''/'' \<notin> set server \<Longrightarrow> tool \<noteq> [] \<Longrightarrow> list_all (\<lambda>c. \<not> is_newline c) tool
   \<Longrightarrow> mcp_tool_server (mcp_tool server tool) = Some server"
  by (simp add: mcp_tool_server_def mcp_tool_def split_slash_join)

lemma mcp_server_only_SomeD: "mcp_server_only i = Some s \<Longrightarrow> i = mcp_server s"
  by (auto simp: mcp_server_only_def mcp_server_def prefix_def split: if_splits)

lemma mcp_server_inj [simp]: "mcp_server s = mcp_server t \<longleftrightarrow> s = t"
  by (simp add: mcp_server_def)

lemma mcp_tool_inj [simp]: "mcp_tool s t = mcp_tool s u \<longleftrightarrow> t = u"
  by (simp add: mcp_tool_def)

lemma function_tool_inj [simp]: "function_tool s = function_tool t \<longleftrightarrow> s = t"
  by (simp add: function_tool_def)

lemma namespaces_distinct [simp]:
  "function_tool n \<noteq> mcp_server s" "function_tool n \<noteq> mcp_tool s t" "function_tool n \<noteq> hosted_tool h"
  "mcp_server s \<noteq> function_tool n" "mcp_tool s t \<noteq> function_tool n" "hosted_tool h \<noteq> function_tool n"
  "mcp_server s \<noteq> hosted_tool h" "hosted_tool h \<noteq> mcp_server s"
  "mcp_tool s t \<noteq> hosted_tool h" "hosted_tool h \<noteq> mcp_tool s t"
  by (simp_all add: function_tool_def mcp_server_def mcp_tool_def hosted_tool_def)

section \<open>How clients spell their MCP tools\<close>

text \<open>A compiled \<open>namePattern\<close>: groups 1 and 2 of a match (the empty string for an unset
  group), \<open>None\<close> when the expression is invalid, empty or does not match.\<close>

type_synonym name_matcher = "string \<Rightarrow> (string \<times> string) option"

text \<open>A compiled \<open>nestedCallPattern\<close>: group 1 of every match in a text.\<close>

type_synonym call_scanner = "string \<Rightarrow> string list"

record mcp_client_convention =
  client_name :: string
  user_agent :: string
  container_tools :: "string list"
  nested_call_pattern :: "call_scanner option"
  client_name_pattern :: "name_matcher option"
  server_names :: "string list option"

record mcp_naming =
  name_pattern :: name_matcher
  clients :: "mcp_client_convention list"

record resolved_convention =
  conv_name :: string
  conv_user_agent :: string
  conv_container_tools :: "string list"
  conv_nested_call_pattern :: "call_scanner option"
  conv_server_names :: "string list"
  conv_name_pattern :: name_matcher

text \<open>The shared preset \<open>^mcp__(.+?)__(.+)$\<close>: the shortest server that leaves a tool, no line
  terminator anywhere.\<close>

fun split_dunder :: "string \<Rightarrow> string \<Rightarrow> (string \<times> string) option" where
  "split_dunder server [] = None"
| "split_dunder server (c # cs) =
     (if server \<noteq> [] \<and> prefix ''__'' (c # cs) \<and> drop 2 (c # cs) \<noteq> []
      then Some (server, drop 2 (c # cs))
      else split_dunder (server @ [c]) cs)"

definition default_name_pattern :: name_matcher where
  "default_name_pattern name =
     (if prefix ''mcp__'' name \<and> list_all (\<lambda>c. \<not> is_newline c) name
      then split_dunder [] (drop 5 name) else None)"

text \<open>Codex's \<open>tools\.([A-Za-z0-9_]+)\<close> with the \<open>g\<close> flag.\<close>

function default_tools_scan :: call_scanner where
  "default_tools_scan [] = []"
| "default_tools_scan (c # cs) =
     (if prefix ''tools.'' (c # cs)
      then let w = takeWhile is_word (drop 6 (c # cs)) in
           if w = [] then default_tools_scan cs
           else w # default_tools_scan (drop (6 + length w) (c # cs))
      else default_tools_scan cs)"
  by pat_completeness auto
termination
  by (relation "measure length") auto

definition DEFAULT_MCP_NAMING :: mcp_naming where
  "DEFAULT_MCP_NAMING = \<lparr>
     name_pattern = default_name_pattern,
     clients = [
       \<lparr> client_name = ''claude-code'', user_agent = ''claude-cli'', container_tools = [],
         nested_call_pattern = None, client_name_pattern = None, server_names = None \<rparr>,
       \<lparr> client_name = ''codex'', user_agent = ''codex-tui'', container_tools = [''exec''],
         nested_call_pattern = Some default_tools_scan, client_name_pattern = None, server_names = None \<rparr>,
       \<lparr> client_name = ''opencode'', user_agent = ''opencode'', container_tools = [],
         nested_call_pattern = None, client_name_pattern = None, server_names = Some [] \<rparr>,
       \<lparr> client_name = ''pi'', user_agent = ''OpenAI/JS'', container_tools = [],
         nested_call_pattern = None, client_name_pattern = None, server_names = None \<rparr>] \<rparr>"

text \<open>The \<open>for (const server of serverNames)\<close> loop of \<open>mcpIdentity\<close>.\<close>

fun by_server_name :: "string \<Rightarrow> string list \<Rightarrow> tool_identity option" where
  "by_server_name name [] = None"
| "by_server_name name (server # rest) =
     (let p = server @ ''_'' in
      if server \<noteq> [] \<and> prefix p name \<and> length p < length name
      then Some (mcp_tool server (drop (length p) name))
      else by_server_name name rest)"

definition mcp_identity :: "string \<Rightarrow> resolved_convention \<Rightarrow> tool_identity option" where
  "mcp_identity name naming =
     (if name = [] then None
      else case conv_name_pattern naming name of
             Some (server, tool) \<Rightarrow>
               if server \<noteq> [] \<and> tool \<noteq> [] then Some (mcp_tool server tool)
               else by_server_name name (conv_server_names naming)
           | None \<Rightarrow> by_server_name name (conv_server_names naming))"

definition normalise_identity :: "tool_identity \<Rightarrow> resolved_convention \<Rightarrow> tool_identity" where
  "normalise_identity identity naming =
     (if \<not> prefix ''function:'' identity then identity
      else case mcp_identity (drop 9 identity) naming of None \<Rightarrow> identity | Some i \<Rightarrow> i)"

definition convention_for :: "string option \<Rightarrow> mcp_naming \<Rightarrow> resolved_convention" where
  "convention_for agent naming =
     (let a = (case agent of None \<Rightarrow> [] | Some s \<Rightarrow> lower s);
          m = (if a = [] then None
               else find (\<lambda>c. user_agent c \<noteq> [] \<and> sublist (lower (user_agent c)) a) (clients naming))
      in case m of
           None \<Rightarrow> \<lparr> conv_name = ''unknown'', conv_user_agent = [], conv_container_tools = [],
                     conv_nested_call_pattern = None, conv_server_names = [],
                     conv_name_pattern = name_pattern naming \<rparr>
         | Some c \<Rightarrow> \<lparr> conv_name = client_name c, conv_user_agent = user_agent c,
                       conv_container_tools = container_tools c,
                       conv_nested_call_pattern = nested_call_pattern c,
                       conv_server_names = (case server_names c of None \<Rightarrow> [] | Some ns \<Rightarrow> ns),
                       conv_name_pattern =
                         (case client_name_pattern c of None \<Rightarrow> name_pattern naming | Some p \<Rightarrow> p) \<rparr>)"

definition is_container_tool :: "string option \<Rightarrow> resolved_convention \<Rightarrow> bool" where
  "is_container_tool name conv =
     (case name of None \<Rightarrow> False | Some n \<Rightarrow> n \<in> set (conv_container_tools conv))"

definition nested_calls_in :: "string \<Rightarrow> resolved_convention \<Rightarrow> tool_identity list" where
  "nested_calls_in body conv =
     (if body = [] then []
      else case conv_nested_call_pattern conv of
             None \<Rightarrow> []
           | Some scan \<Rightarrow>
               push_all_new (collect_some (\<lambda>n. mcp_identity n conv) (scan body)) [])"

subsection \<open>Lemmas on the naming convention\<close>

lemma normalise_not_function [simp]:
  "\<not> prefix ''function:'' i \<Longrightarrow> normalise_identity i conv = i"
  by (simp add: normalise_identity_def)

lemma by_server_name_mcp: "by_server_name name ss = Some i \<Longrightarrow> prefix ''mcp:'' i"
  by (induction ss) (auto simp: Let_def mcp_tool_def split: if_splits)

lemma mcp_identity_mcp: "mcp_identity name conv = Some i \<Longrightarrow> prefix ''mcp:'' i"
  by (auto simp: mcp_identity_def mcp_tool_def split: if_splits option.splits dest: by_server_name_mcp)

text \<open>Normalising moves an identity into the \<open>mcp:\<close> namespace or leaves it as it is; so a
  second pass changes nothing.\<close>

lemma normalise_identity_cases:
  "normalise_identity i conv = i \<or>
   prefix ''function:'' i \<and> prefix ''mcp:'' (normalise_identity i conv)"
  by (auto simp: normalise_identity_def split: option.splits dest: mcp_identity_mcp)

lemma normalise_idem [simp]:
  "normalise_identity (normalise_identity i conv) conv = normalise_identity i conv"
proof -
  have "\<not> prefix ''function:'' j" if "prefix ''mcp:'' j" for j
    using that by (auto simp: prefix_def)
  then show ?thesis
    using normalise_identity_cases [of i conv] normalise_not_function by metis
qed

lemma distinct_nested_calls_in: "distinct (nested_calls_in body conv)"
  by (auto simp: nested_calls_in_def split: option.splits)

lemma split_dunder_joins:
  "split_dunder acc s = Some (server, tool) \<Longrightarrow> acc @ s = server @ ''__'' @ tool \<and> tool \<noteq> []"
  by (induction acc s rule: split_dunder.induct) (auto simp: prefix_def split: if_splits)

end
