(* ===== verification/Tool_Policy.thy ===== *)
theory Tool_Policy
  imports Tool_Identity
begin

text \<open>
  The policy evaluation of \<open>toolGovernance/evaluate.ts\<close>: what one policy block denies, how
  blocks merge ("most restrictive wins"), the narrowing of a bare MCP server declaration and
  the trust chain. The loops over the declared identities are folds over the state they
  update (the denied list, the narrowing map, the reasons).
\<close>

section \<open>One block\<close>

definition scoped_for :: "tool_policy_block \<Rightarrow> string \<Rightarrow> string list" where
  "scoped_for block server = filter (\<lambda>p. scoped_server_of p = Some server) (allow block)"

definition global_allow :: "tool_policy_block \<Rightarrow> string list" where
  "global_allow block = filter (\<lambda>p. scoped_server_of p = None) (allow block)"

definition denied_globally :: "tool_policy_block \<Rightarrow> tool_identity \<Rightarrow> bool" where
  "denied_globally block identity =
     (global_allow block \<noteq> [] \<and> \<not> matches_any (global_allow block) identity)"

definition denied_by :: "tool_policy_block \<Rightarrow> tool_identity \<Rightarrow> bool" where
  "denied_by block identity =
     (if matches_any (deny block) identity then True
      else case mcp_tool_server identity of
             Some server \<Rightarrow>
               (let scoped = scoped_for block server in
                if scoped \<noteq> [] then \<not> matches_any scoped identity
                else denied_globally block identity)
           | None \<Rightarrow> denied_globally block identity)"

text \<open>What \<open>serverLimit\<close> returns when it is not \<open>null\<close>.\<close>

datatype server_limit_kind = Prefix_Limit | Names_Limit "string list"

definition server_limit :: "tool_policy_block \<Rightarrow> string \<Rightarrow> server_limit_kind option" where
  "server_limit block server =
     (let scoped = scoped_for block server in
      if scoped = [] \<or> (''mcp:'' @ server @ ''/*'') \<in> set scoped then None
      else if list_ex (\<lambda>p. suffix ''*'' p) scoped then Some Prefix_Limit
      else Some (Names_Limit (map (drop (length (''mcp:'' @ server @ ''/''))) scoped)))"

definition names_server :: "string \<Rightarrow> string \<Rightarrow> bool" where
  "names_server pattern server =
     (let tools = ''mcp:'' @ server @ ''/'' in
      matches pattern (''mcp:'' @ server) \<or> prefix tools pattern
      \<or> suffix ''*'' pattern \<and> prefix (butlast pattern) tools)"

definition sensitive_labels :: "tool_policy_block list \<Rightarrow> string list" where
  "sensitive_labels blocks =
     concat (map (\<lambda>b. case sensitive b of None \<Rightarrow> [] | Some ps \<Rightarrow> ps) blocks)"

definition untrusted_labels :: "tool_policy_block list \<Rightarrow> string list" where
  "untrusted_labels blocks =
     concat (map (\<lambda>b. case untrusted b of None \<Rightarrow> [] | Some ps \<Rightarrow> ps) blocks)"

section \<open>The merge\<close>

record evaluation_result =
  er_mode :: policy_mode
  er_decisions :: "(tool_identity \<times> decision) list"
  er_blocked :: "tool_identity list"
  er_reject :: bool
  er_reason :: "string option"
  er_policy_names :: "string list"
  er_policy_id :: "string option"
  er_narrow :: "(string \<times> string list) list"
  er_reasons :: "(tool_identity \<times> decision_reason) list"
  er_tainted_by :: "tool_identity list"

definition merged_mode :: "tool_policy_block list \<Rightarrow> policy_mode" where
  "merged_mode blocks =
     foldl (\<lambda>m b. if mode_rank (policy_mode b) > mode_rank m then policy_mode b else m) Monitor blocks"

text \<open>\<open>lists.reduce((acc, list) => acc.filter((name) => list.includes(name)))\<close>\<close>

fun intersect_names :: "string list list \<Rightarrow> string list" where
  "intersect_names [] = []"
| "intersect_names (l # ls) = foldl (\<lambda>acc list. filter (\<lambda>n. n \<in> set list) acc) l ls"

definition server_limits :: "tool_policy_block list \<Rightarrow> string \<Rightarrow> server_limit_kind list" where
  "server_limits blocks server = collect_some (\<lambda>b. server_limit b server) blocks"

definition limit_names :: "server_limit_kind list \<Rightarrow> string list" where
  "limit_names ls = intersect_names (collect_some (\<lambda>l. case l of Names_Limit ns \<Rightarrow> Some ns | Prefix_Limit \<Rightarrow> None) ls)"

text \<open>The first loop's state: the denied list, \<open>narrow\<close> and \<open>monitoredServers\<close>.\<close>

record narrowing =
  n_denied :: "tool_identity list"
  n_narrow :: "(string \<times> string list) list"
  n_monitored :: "tool_identity list"

definition narrow_step :: "policy_mode \<Rightarrow> tool_policy_block list \<Rightarrow> tool_identity \<Rightarrow> narrowing \<Rightarrow> narrowing" where
  "narrow_step mode blocks i st =
     (if i \<in> set (n_denied st) then st
      else case mcp_server_only i of
             None \<Rightarrow> st
           | Some server \<Rightarrow>
               (let limits = server_limits blocks server in
                if limits = [] then st
                else if mode = Reject then st\<lparr>n_denied := n_denied st @ [i]\<rparr>
                else if mode = Monitor \<or> Prefix_Limit \<in> set limits
                     then st\<lparr>n_monitored := push_new i (n_monitored st)\<rparr>
                else st\<lparr>n_narrow := AList.update server (limit_names limits) (n_narrow st)\<rparr>))"

text \<open>The trust chain's loops: over the declared identities, then over the narrowed servers.\<close>

record tainting =
  t_denied :: "tool_identity list"
  t_narrow :: "(string \<times> string list) list"
  t_reasons :: "(tool_identity \<times> decision_reason) list"

definition exposes :: "string list \<Rightarrow> (string \<times> string list) list \<Rightarrow> tool_identity \<Rightarrow> bool" where
  "exposes sens narrow i =
     (case mcp_server_only i of
        None \<Rightarrow> False
      | Some server \<Rightarrow> map_of narrow server = None \<and> list_ex (\<lambda>p. names_server p server) sens)"

definition taint_step :: "string list \<Rightarrow> tool_identity \<Rightarrow> tainting \<Rightarrow> tainting" where
  "taint_step sens i st =
     (if i \<in> set (t_denied st) then st
      else if \<not> matches_any sens i \<and> \<not> exposes sens (t_narrow st) i then st
      else \<lparr> t_denied = t_denied st @ [i],
             t_narrow = (case mcp_server_only i of None \<Rightarrow> t_narrow st
                         | Some server \<Rightarrow> AList.delete server (t_narrow st)),
             t_reasons = AList.update i By_Trust_Chain (t_reasons st) \<rparr>)"

definition taint_narrow_step :: "string list \<Rightarrow> string \<times> string list \<Rightarrow> tainting \<Rightarrow> tainting" where
  "taint_narrow_step sens sn st =
     (case sn of (server, names) \<Rightarrow>
        let kept = filter (\<lambda>n. \<not> matches_any sens (mcp_tool server n)) names in
        if length kept = length names then st
        else st\<lparr> t_narrow := AList.update server kept (t_narrow st),
                 t_reasons := AList.update (mcp_server server) By_Trust_Chain (t_reasons st) \<rparr>)"

definition taint_all :: "string list \<Rightarrow> tool_identity list \<Rightarrow> tainting \<Rightarrow> tainting" where
  "taint_all sens ids st =
     (let st' = fold (taint_step sens) ids st
      in fold (taint_narrow_step sens) (t_narrow st') st')"

definition denied_decision :: "policy_mode \<Rightarrow> decision" where
  "denied_decision mode = (case mode of Monitor \<Rightarrow> Monitored | Strip \<Rightarrow> Stripped | Reject \<Rightarrow> Rejected)"

definition decide ::
  "policy_mode \<Rightarrow> tool_identity list \<Rightarrow> tool_identity list \<Rightarrow> (string \<times> string list) list \<Rightarrow> tool_identity \<Rightarrow> decision" where
  "decide mode denied monitored narrow i =
     (if i \<in> set denied then denied_decision mode
      else if i \<in> set monitored then Monitored
      else case mcp_server_only i of
             None \<Rightarrow> Allowed
           | Some server \<Rightarrow> if map_of narrow server \<noteq> None then Stripped else Allowed)"

definition reject_reason :: "tool_identity list \<Rightarrow> tool_identity list \<Rightarrow> string \<Rightarrow> string" where
  "reject_reason by_policy by_trust from =
     join ''; '' (filter (\<lambda>s. s \<noteq> [])
       [ if by_policy \<noteq> [] then ''tools not permitted by policy: '' @ join '', '' by_policy else [],
         if by_trust \<noteq> []
         then ''tools not permitted while the conversation contains content from '' @ from @ '': ''
              @ join '', '' by_trust else [] ])"

definition forced_reason :: "decision_reason option \<Rightarrow> tool_identity \<Rightarrow> string \<Rightarrow> string" where
  "forced_reason r forced from =
     (if r = Some By_Trust_Chain
      then ''tool_choice names '' @ forced @ '', which is withheld while the conversation contains content from '' @ from
      else ''tool_choice names '' @ forced @ '', which the policy strips'')"

text \<open>The tail of \<open>evaluateBlocks\<close>: the decisions and the two ways to refuse the request.\<close>

definition conclude ::
  "policy_mode \<Rightarrow> tool_policy_block list \<Rightarrow> tool_identity list \<Rightarrow> tool_identity list \<Rightarrow> tool_identity option
   \<Rightarrow> tool_identity list \<Rightarrow> tainting \<Rightarrow> evaluation_result" where
  "conclude mode blocks unique monitored forced tainted_by st =
     (let denied = t_denied st;
          reason_of = map_of (t_reasons st);
          decisions = map (\<lambda>i. (i, decide mode denied monitored (t_narrow st) i)) unique;
          by_policy = filter (\<lambda>i. reason_of i = Some By_Policy) denied;
          by_trust = filter (\<lambda>i. reason_of i = Some By_Trust_Chain) denied;
          from = join '', '' tainted_by;
          result = \<lparr> er_mode = mode, er_decisions = decisions,
                     er_blocked = (if mode = Strip then denied else []), er_reject = False, er_reason = None,
                     er_policy_names = map policy_name blocks, er_policy_id = Some (policy_id (hd blocks)),
                     er_narrow = t_narrow st, er_reasons = t_reasons st, er_tainted_by = tainted_by \<rparr>
      in if mode = Reject \<and> denied \<noteq> []
         then result\<lparr> er_reject := True, er_reason := Some (reject_reason by_policy by_trust from) \<rparr>
         else case forced of
                None \<Rightarrow> result
              | Some f \<Rightarrow>
                  if mode = Strip \<and> f \<noteq> [] \<and> f \<in> set denied
                  then result\<lparr> er_reject := True, er_reason := Some (forced_reason (reason_of f) f from),
                               er_decisions := AList.update f Rejected decisions \<rparr>
                  else result)"

definition evaluate_blocks ::
  "tool_identity list \<Rightarrow> tool_policy_block list \<Rightarrow> tool_identity option \<Rightarrow> tool_identity list \<Rightarrow> evaluation_result" where
  "evaluate_blocks declared blocks forced sources =
     (let unique = uniq declared in
      if blocks = [] then
        \<lparr> er_mode = Monitor, er_decisions = map (\<lambda>i. (i, Allowed)) unique, er_blocked = [], er_reject = False,
          er_reason = None, er_policy_names = [], er_policy_id = None, er_narrow = [], er_reasons = [],
          er_tainted_by = [] \<rparr>
      else
        let mode = merged_mode blocks;
            denied = filter (\<lambda>i. list_ex (\<lambda>b. denied_by b i) blocks) unique;
            st = fold (narrow_step mode blocks) unique \<lparr> n_denied = denied, n_narrow = [], n_monitored = [] \<rparr>;
            reasons = foldl (\<lambda>rs i. AList.update i By_Policy rs) [] (n_denied st);
            sens = sensitive_labels blocks;
            tainted_by = sort (filter (matches_any (untrusted_labels blocks)) (uniq sources));
            st0 = \<lparr> t_denied = n_denied st, t_narrow = n_narrow st, t_reasons = reasons \<rparr>;
            st1 = (if tainted_by \<noteq> [] then taint_all sens unique st0 else st0)
        in conclude mode blocks unique (n_monitored st) forced tainted_by st1)"

text \<open>\<open>evaluate\<close>: the user's block and the key's, in that order.\<close>

definition evaluate ::
  "tool_identity list \<Rightarrow> tool_policy_block option \<Rightarrow> tool_policy_block option \<Rightarrow> tool_identity option
   \<Rightarrow> tool_identity list \<Rightarrow> evaluation_result" where
  "evaluate declared user key forced sources =
     evaluate_blocks declared (collect_some id [user, key]) forced sources"

definition decide_invoked :: "evaluation_result \<Rightarrow> tool_identity \<Rightarrow> decision" where
  "decide_invoked result identity =
     (case map_of (er_decisions result) identity of None \<Rightarrow> Unlisted | Some d \<Rightarrow> d)"

section \<open>Lemmas\<close>

subsection \<open>The merged mode\<close>

lemma mode_rank_inj: "mode_rank m = mode_rank n \<Longrightarrow> m = n"
  by (cases m; cases n) simp_all

lemma foldl_mode_rank:
  "mode_rank (foldl (\<lambda>m b. if mode_rank (policy_mode b) > mode_rank m then policy_mode b else m) m0 bs)
   = Max (insert (mode_rank m0) (mode_rank ` policy_mode ` set bs))"
proof (induction bs arbitrary: m0)
  case (Cons b bs)
  let ?m = "if mode_rank (policy_mode b) > mode_rank m0 then policy_mode b else m0"
  have "mode_rank ?m = max (mode_rank m0) (mode_rank (policy_mode b))"
    by (auto simp: max_def)
  then show ?case
    by (simp only: foldl_Cons Cons.IH) (cases "bs = []"; simp add: max.left_commute max.assoc)
qed simp

lemma merged_mode_rank: "mode_rank (merged_mode bs) = Max (insert 0 (mode_rank ` policy_mode ` set bs))"
  by (simp add: merged_mode_def foldl_mode_rank)

lemma merged_mode_ge: "b \<in> set bs \<Longrightarrow> policy_mode b \<le> merged_mode bs"
  by (simp add: less_eq_policy_mode_def merged_mode_rank)

lemma merged_mode_in: "merged_mode bs \<noteq> Monitor \<Longrightarrow> \<exists>b \<in> set bs. policy_mode b = merged_mode bs"
proof -
  assume ne: "merged_mode bs \<noteq> Monitor"
  let ?R = "insert 0 (mode_rank ` policy_mode ` set bs)"
  have "mode_rank (merged_mode bs) \<in> ?R"
    unfolding merged_mode_rank by (rule Max_in) auto
  moreover have "mode_rank (merged_mode bs) \<noteq> 0"
    using ne by (cases "merged_mode bs") auto
  ultimately show ?thesis
    using mode_rank_inj by fastforce
qed

lemma merged_mode_mono: "set bs \<subseteq> set cs \<Longrightarrow> merged_mode bs \<le> merged_mode cs"
  by (auto simp: less_eq_policy_mode_def merged_mode_rank intro!: Max_mono)

subsection \<open>The narrowing loop\<close>

definition limited :: "tool_policy_block list \<Rightarrow> tool_identity \<Rightarrow> bool" where
  "limited blocks i = (\<exists>s. mcp_server_only i = Some s \<and> server_limits blocks s \<noteq> [])"

definition limited_by_prefix :: "tool_policy_block list \<Rightarrow> tool_identity \<Rightarrow> bool" where
  "limited_by_prefix blocks i =
     (\<exists>s. mcp_server_only i = Some s \<and> Prefix_Limit \<in> set (server_limits blocks s))"

lemma mcp_server_only_iff: "mcp_server_only i = Some s \<longleftrightarrow> i = mcp_server s \<and> s \<noteq> [] \<and> CHR ''/'' \<notin> set s"
  by (auto simp: mcp_server_only_def mcp_server_def prefix_def split: if_splits)

lemma mcp_server_only_mcp_server [simp]:
  "mcp_server_only (mcp_server s) = (if s \<noteq> [] \<and> CHR ''/'' \<notin> set s then Some s else None)"
  by (simp add: mcp_server_only_def mcp_server_def)

lemma n_denied_step:
  "i \<in> set (n_denied (narrow_step mode bs x st)) \<longleftrightarrow>
   i \<in> set (n_denied st) \<or> i = x \<and> mode = Reject \<and> limited bs i"
  by (auto simp: narrow_step_def limited_def Let_def split: option.splits)

lemma n_denied_fold:
  "i \<in> set (n_denied (fold (narrow_step mode bs) xs st)) \<longleftrightarrow>
   i \<in> set (n_denied st) \<or> i \<in> set xs \<and> mode = Reject \<and> limited bs i"
  by (induction xs arbitrary: st) (auto simp: n_denied_step)

lemma n_denied_fold_distinct:
  "distinct (n_denied st) \<Longrightarrow> distinct (n_denied (fold (narrow_step mode bs) xs st))"
  by (induction xs arbitrary: st) (auto simp: narrow_step_def Let_def split: option.splits)

lemma n_denied_not_reject [simp]:
  "mode \<noteq> Reject \<Longrightarrow> n_denied (fold (narrow_step mode bs) xs st) = n_denied st"
  by (induction xs arbitrary: st) (auto simp: narrow_step_def Let_def split: option.splits)

lemma n_monitored_step:
  "mode \<noteq> Reject \<Longrightarrow>
   i \<in> set (n_monitored (narrow_step mode bs x st)) \<longleftrightarrow>
   i \<in> set (n_monitored st) \<or>
   i = x \<and> i \<notin> set (n_denied st) \<and> limited bs i \<and> (mode = Monitor \<or> limited_by_prefix bs i)"
  by (cases "mcp_server_only x") (auto simp: narrow_step_def Let_def limited_def limited_by_prefix_def)

lemma n_denied_step_not_reject [simp]:
  "mode \<noteq> Reject \<Longrightarrow> n_denied (narrow_step mode bs x st) = n_denied st"
  by (cases "mcp_server_only x") (auto simp: narrow_step_def Let_def)

lemma n_monitored_fold:
  "mode \<noteq> Reject \<Longrightarrow>
   i \<in> set (n_monitored (fold (narrow_step mode bs) xs st)) \<longleftrightarrow>
   i \<in> set (n_monitored st) \<or>
   i \<in> set xs \<and> i \<notin> set (n_denied st) \<and> limited bs i \<and> (mode = Monitor \<or> limited_by_prefix bs i)"
  by (induction xs arbitrary: st) (auto simp: n_monitored_step)

lemma n_monitored_reject [simp]:
  "n_monitored (fold (narrow_step Reject bs) xs st) = n_monitored st"
  by (induction xs arbitrary: st) (auto simp: narrow_step_def Let_def split: option.splits)

lemma n_narrow_step_not_strip [simp]:
  "mode \<noteq> Strip \<Longrightarrow> n_narrow (narrow_step mode bs x st) = n_narrow st"
  by (cases "mcp_server_only x"; cases mode) (auto simp: narrow_step_def Let_def)

lemma n_narrow_not_strip [simp]:
  "mode \<noteq> Strip \<Longrightarrow> n_narrow (fold (narrow_step mode bs) xs st) = n_narrow st"
  by (induction xs arbitrary: st) auto

lemma n_narrow_step:
  "map_of (n_narrow (narrow_step Strip bs x st)) s =
   (if mcp_server_only x = Some s \<and> x \<notin> set (n_denied st)
       \<and> server_limits bs s \<noteq> [] \<and> Prefix_Limit \<notin> set (server_limits bs s)
    then Some (limit_names (server_limits bs s)) else map_of (n_narrow st) s)"
  by (cases "mcp_server_only x") (auto simp: narrow_step_def Let_def)

lemma n_narrow_fold:
  "map_of (n_narrow (fold (narrow_step Strip bs) xs st)) s =
   (if s \<noteq> [] \<and> CHR ''/'' \<notin> set s \<and> mcp_server s \<in> set xs \<and> mcp_server s \<notin> set (n_denied st)
       \<and> server_limits bs s \<noteq> [] \<and> Prefix_Limit \<notin> set (server_limits bs s)
    then Some (limit_names (server_limits bs s)) else map_of (n_narrow st) s)"
  by (induction xs arbitrary: st) (auto simp: n_narrow_step mcp_server_only_iff)

subsection \<open>The trust chain\<close>

lemma exposes_delete:
  "mcp_server_only x = Some s \<Longrightarrow> i \<noteq> x \<Longrightarrow> exposes sens (AList.delete s n) i = exposes sens n i"
  by (cases "mcp_server_only i") (auto simp: exposes_def mcp_server_only_iff)

lemma t_denied_step:
  "i \<in> set (t_denied (taint_step sens x st)) \<longleftrightarrow>
   i \<in> set (t_denied st) \<or> i = x \<and> (matches_any sens i \<or> exposes sens (t_narrow st) i)"
  by (auto simp: taint_step_def)

lemma exposes_step:
  "i \<noteq> x \<Longrightarrow> exposes sens (t_narrow (taint_step sens x st)) i = exposes sens (t_narrow st) i"
  by (cases "mcp_server_only x") (auto simp: taint_step_def exposes_delete)

lemma t_denied_fold:
  "i \<in> set (t_denied (fold (taint_step sens) xs st)) \<longleftrightarrow>
   i \<in> set (t_denied st) \<or> i \<in> set xs \<and> (matches_any sens i \<or> exposes sens (t_narrow st) i)"
proof (induction xs arbitrary: i st)
  case (Cons x xs)
  have "x \<in> set (t_denied (taint_step sens x st)) \<or> taint_step sens x st = st"
    by (auto simp: taint_step_def)
  then have "i = x \<Longrightarrow> ?case"
    using t_denied_step [of x sens x st] by (auto simp: Cons.IH)
  moreover have "i \<noteq> x \<Longrightarrow> ?case"
    by (auto simp: Cons.IH t_denied_step exposes_step)
  ultimately show ?case by blast
qed simp

lemma t_denied_narrow_step [simp]: "t_denied (taint_narrow_step sens sn st) = t_denied st"
  by (cases sn) (simp add: taint_narrow_step_def Let_def)

lemma t_denied_narrow_fold [simp]: "t_denied (fold (taint_narrow_step sens) ns st) = t_denied st"
  by (induction ns arbitrary: st) simp_all

lemma t_denied_taint_all:
  "i \<in> set (t_denied (taint_all sens xs st)) \<longleftrightarrow>
   i \<in> set (t_denied st) \<or> i \<in> set xs \<and> (matches_any sens i \<or> exposes sens (t_narrow st) i)"
  by (simp add: taint_all_def Let_def t_denied_fold)

text \<open>No step of the trust chain adds a server to the narrowing map or a name to a server.\<close>

definition narrows :: "(string \<times> string list) list \<Rightarrow> (string \<times> string list) list \<Rightarrow> bool" where
  "narrows n' n = (\<forall>s names'. map_of n' s = Some names' \<longrightarrow>
                     (\<exists>names. map_of n s = Some names \<and> set names' \<subseteq> set names))"

lemma narrows_refl [simp]: "narrows n n"
  by (simp add: narrows_def)

lemma narrows_trans: "narrows a b \<Longrightarrow> narrows b c \<Longrightarrow> narrows a c"
  unfolding narrows_def by (meson subset_trans)

lemma narrows_delete: "narrows (AList.delete s n) n"
  by (simp add: narrows_def)

lemma narrows_taint_step: "narrows (t_narrow (taint_step sens x st)) (t_narrow st)"
  by (cases "mcp_server_only x") (auto simp: taint_step_def narrows_delete)

lemma narrows_taint_fold: "narrows (t_narrow (fold (taint_step sens) xs st)) (t_narrow st)"
proof (induction xs arbitrary: st)
  case (Cons x xs)
  show ?case
    using narrows_trans [OF Cons.IH narrows_taint_step] by simp
qed simp

lemma map_of_narrow_step:
  "map_of n s = Some names \<Longrightarrow> t_narrow st = n \<Longrightarrow>
   map_of (t_narrow (taint_narrow_step sens (s, names) st)) s' =
   (if s = s' then Some (filter (\<lambda>x. \<not> matches_any sens (mcp_tool s x)) names) else map_of n s')"
proof -
  assume a: "map_of n s = Some names" "t_narrow st = n"
  have "filter P names = names" if "length (filter P names) = length names" for P
    using that by (metis filter_True length_filter_less less_irrefl)
  from a this [of "\<lambda>x. \<not> matches_any sens (mcp_tool s x)"] show ?thesis
    by (auto simp: taint_narrow_step_def Let_def)
qed

lemma map_of_narrow_fold:
  assumes "distinct (map fst ns)" and "\<forall>s names. (s, names) \<in> set ns \<longrightarrow> map_of (t_narrow st) s = Some names"
  shows "map_of (t_narrow (fold (taint_narrow_step sens) ns st)) s =
         (case map_of ns s of
            None \<Rightarrow> map_of (t_narrow st) s
          | Some names \<Rightarrow> Some (filter (\<lambda>x. \<not> matches_any sens (mcp_tool s x)) names))"
  using assms
proof (induction ns arbitrary: st)
  case (Cons n ns)
  obtain t names where n: "n = (t, names)" by (cases n)
  let ?st = "taint_narrow_step sens (t, names) st"
  have t: "map_of (t_narrow st) t = Some names"
    using Cons.prems n by auto
  have keep: "\<forall>s nm. (s, nm) \<in> set ns \<longrightarrow> map_of (t_narrow ?st) s = Some nm"
    using Cons.prems map_of_narrow_step [OF t refl] n by force
  have "map_of ns t = None"
    using Cons.prems(1) n by (auto simp: map_of_eq_None_iff)
  then show ?case
    using Cons.IH [OF _ keep] Cons.prems(1) map_of_narrow_step [OF t refl]
    by (auto simp: n split: option.splits)
qed simp

lemma distinct_taint_fold:
  "distinct (map fst (t_narrow st)) \<Longrightarrow> distinct (map fst (t_narrow (fold (taint_step sens) xs st)))"
proof (induction xs arbitrary: st)
  case (Cons x xs)
  have "distinct (map fst (t_narrow (taint_step sens x st)))"
    using Cons.prems by (cases "mcp_server_only x") (auto simp: taint_step_def)
  then show ?case
    using Cons.IH by simp
qed simp

text \<open>After the trust chain, a narrowed server offers only names that are not sensitive.\<close>

lemma taint_all_names:
  assumes "distinct (map fst (t_narrow st))" and "map_of (t_narrow (taint_all sens xs st)) s = Some names"
  shows "\<exists>names0. map_of (t_narrow st) s = Some names0 \<and> set names \<subseteq> set names0
           \<and> (\<forall>n \<in> set names. \<not> matches_any sens (mcp_tool s n))"
proof -
  let ?f = "fold (taint_step sens) xs st"
  have d: "distinct (map fst (t_narrow ?f))"
    by (rule distinct_taint_fold [OF assms(1)])
  then have "map_of (t_narrow (taint_all sens xs st)) s =
        (case map_of (t_narrow ?f) s of None \<Rightarrow> None
         | Some nm \<Rightarrow> Some (filter (\<lambda>x. \<not> matches_any sens (mcp_tool s x)) nm))"
    unfolding taint_all_def Let_def
    by (subst map_of_narrow_fold) (auto split: option.splits)
  with assms(2) obtain nm where nm: "map_of (t_narrow ?f) s = Some nm"
      and names: "names = filter (\<lambda>x. \<not> matches_any sens (mcp_tool s x)) nm"
    by (auto split: option.splits)
  obtain names0 where "map_of (t_narrow st) s = Some names0" "set nm \<subseteq> set names0"
    using narrows_taint_fold [of sens xs st] nm unfolding narrows_def by blast
  with names show ?thesis by auto
qed

subsection \<open>The whole evaluation\<close>

text \<open>The state after the first loop, whether the trust chain applies, and the final state.\<close>

definition first_pass :: "tool_identity list \<Rightarrow> tool_policy_block list \<Rightarrow> narrowing" where
  "first_pass declared blocks =
     fold (narrow_step (merged_mode blocks) blocks) (uniq declared)
       \<lparr> n_denied = filter (\<lambda>i. list_ex (\<lambda>b. denied_by b i) blocks) (uniq declared),
         n_narrow = [], n_monitored = [] \<rparr>"

definition tainting_sources :: "tool_policy_block list \<Rightarrow> tool_identity list \<Rightarrow> tool_identity list" where
  "tainting_sources blocks sources = sort (filter (matches_any (untrusted_labels blocks)) (uniq sources))"

definition final_state ::
  "tool_identity list \<Rightarrow> tool_policy_block list \<Rightarrow> tool_identity list \<Rightarrow> tainting" where
  "final_state declared blocks sources =
     (let st = first_pass declared blocks;
          st0 = \<lparr> t_denied = n_denied st, t_narrow = n_narrow st,
                  t_reasons = foldl (\<lambda>rs i. AList.update i By_Policy rs) [] (n_denied st) \<rparr>
      in if tainting_sources blocks sources \<noteq> []
         then taint_all (sensitive_labels blocks) (uniq declared) st0 else st0)"

lemma evaluate_blocks_conclude:
  "blocks \<noteq> [] \<Longrightarrow>
   evaluate_blocks declared blocks forced sources =
   conclude (merged_mode blocks) blocks (uniq declared) (n_monitored (first_pass declared blocks)) forced
     (tainting_sources blocks sources) (final_state declared blocks sources)"
  by (simp add: evaluate_blocks_def final_state_def first_pass_def tainting_sources_def Let_def)

lemma evaluate_blocks_Nil:
  "map_of (er_decisions (evaluate_blocks declared [] forced sources)) i =
   (if i \<in> set declared then Some Allowed else None)"
  by (simp add: evaluate_blocks_def Let_def map_of_map_restrict o_def restrict_map_def)

text \<open>The specification of the denied set: denied by some block, a limited server in reject
  mode, or sensitive in a tainted conversation.\<close>

definition sensitive_exposure :: "tool_identity list \<Rightarrow> tool_policy_block list \<Rightarrow> tool_identity \<Rightarrow> bool" where
  "sensitive_exposure declared blocks i =
     (matches_any (sensitive_labels blocks) i
      \<or> exposes (sensitive_labels blocks) (n_narrow (first_pass declared blocks)) i)"

definition is_denied ::
  "tool_identity list \<Rightarrow> tool_policy_block list \<Rightarrow> tool_identity list \<Rightarrow> tool_identity \<Rightarrow> bool" where
  "is_denied declared blocks sources i =
     (i \<in> set declared
      \<and> ((\<exists>b \<in> set blocks. denied_by b i)
         \<or> merged_mode blocks = Reject \<and> limited blocks i
         \<or> tainting_sources blocks sources \<noteq> [] \<and> sensitive_exposure declared blocks i))"

lemma set_final_denied:
  "i \<in> set (t_denied (final_state declared blocks sources)) \<longleftrightarrow> is_denied declared blocks sources i"
  by (auto simp: final_state_def Let_def t_denied_taint_all first_pass_def n_denied_fold is_denied_def
      sensitive_exposure_def list_ex_iff)

lemma er_mode_conclude [simp]: "er_mode (conclude m bs u mo f tb st) = m"
  by (auto simp: conclude_def Let_def split: option.splits)

lemma er_blocked_conclude [simp]:
  "er_blocked (conclude m bs u mo f tb st) = (if m = Strip then t_denied st else [])"
  by (auto simp: conclude_def Let_def split: option.splits)

lemma er_narrow_conclude [simp]: "er_narrow (conclude m bs u mo f tb st) = t_narrow st"
  by (auto simp: conclude_def Let_def split: option.splits)

lemma er_reject_conclude:
  "er_reject (conclude m bs u mo f tb st) \<longleftrightarrow>
   (m = Reject \<and> t_denied st \<noteq> [])
   \<or> (m = Strip \<and> (\<exists>x. f = Some x \<and> x \<noteq> [] \<and> x \<in> set (t_denied st)))"
  by (auto simp: conclude_def Let_def split: option.splits)

lemma er_decisions_conclude:
  "map_of (er_decisions (conclude m bs u mo f tb st)) i =
   (if m = Strip \<and> f = Some i \<and> i \<noteq> [] \<and> i \<in> set (t_denied st) then Some Rejected
    else if i \<in> set u then Some (decide m (t_denied st) mo (t_narrow st) i) else None)"
  by (auto simp: conclude_def Let_def map_of_map_restrict o_def restrict_map_def split: option.splits)

lemma denied_decision_not_allowed [simp]: "denied_decision m \<noteq> Allowed"
  by (cases m) (simp_all add: denied_decision_def)

lemma er_narrow_evaluate:
  "blocks \<noteq> [] \<Longrightarrow> er_narrow (evaluate_blocks declared blocks forced sources) = t_narrow (final_state declared blocks sources)"
  by (simp add: evaluate_blocks_conclude)

text \<open>A limited server that no block denies is refused, recorded or narrowed, never plainly
  allowed; a server without a limit is never in the narrowing map.\<close>

lemma first_pass_narrow:
  "map_of (n_narrow (first_pass declared blocks)) s =
   (if merged_mode blocks = Strip \<and> s \<noteq> [] \<and> CHR ''/'' \<notin> set s \<and> mcp_server s \<in> set declared
       \<and> \<not> (\<exists>b \<in> set blocks. denied_by b (mcp_server s))
       \<and> server_limits blocks s \<noteq> [] \<and> Prefix_Limit \<notin> set (server_limits blocks s)
    then Some (limit_names (server_limits blocks s)) else None)"
proof (cases "merged_mode blocks = Strip")
  case True
  then show ?thesis
    by (auto simp: first_pass_def n_narrow_fold list_ex_iff)
qed (auto simp: first_pass_def)

lemma first_pass_monitored:
  "i \<in> set (n_monitored (first_pass declared blocks)) \<longleftrightarrow>
   merged_mode blocks \<noteq> Reject \<and> i \<in> set declared \<and> \<not> (\<exists>b \<in> set blocks. denied_by b i)
   \<and> limited blocks i \<and> (merged_mode blocks = Monitor \<or> limited_by_prefix blocks i)"
proof (cases "merged_mode blocks = Reject")
  case False
  then show ?thesis
    by (auto simp: first_pass_def n_monitored_fold list_ex_iff)
qed (simp add: first_pass_def)

lemma first_pass_distinct: "distinct (map fst (n_narrow (first_pass declared blocks)))"
proof -
  have "distinct (map fst (n_narrow (fold (narrow_step m blocks) xs st)))"
    if "distinct (map fst (n_narrow st))" for m xs st
    using that
  proof (induction xs arbitrary: st)
    case (Cons x xs)
    have "distinct (map fst (n_narrow (narrow_step m blocks x st)))"
      using Cons.prems by (cases "mcp_server_only x") (auto simp: narrow_step_def Let_def)
    then show ?case using Cons.IH by simp
  qed simp
  then show ?thesis by (simp add: first_pass_def)
qed

lemma final_narrow_None:
  assumes "map_of (n_narrow (first_pass declared blocks)) s = None"
  shows "map_of (t_narrow (final_state declared blocks sources)) s = None"
proof -
  let ?st = "\<lparr> t_denied = n_denied (first_pass declared blocks), t_narrow = n_narrow (first_pass declared blocks),
    t_reasons = foldl (\<lambda>rs i. AList.update i By_Policy rs) [] (n_denied (first_pass declared blocks)) \<rparr>"
  have "map_of (t_narrow (taint_all (sensitive_labels blocks) (uniq declared) ?st)) s = None"
    using taint_all_names [of ?st "sensitive_labels blocks" "uniq declared" s] assms first_pass_distinct
    by (cases "map_of (t_narrow (taint_all (sensitive_labels blocks) (uniq declared) ?st)) s") auto
  then show ?thesis
    using assms by (simp add: final_state_def Let_def)
qed

lemma taint_step_keeps:
  "mcp_server s \<notin> set (t_denied (taint_step sens x st)) \<Longrightarrow>
   map_of (t_narrow (taint_step sens x st)) s = map_of (t_narrow st) s"
  by (cases "mcp_server_only x") (auto simp: taint_step_def mcp_server_only_iff split: if_splits)

lemma taint_fold_keeps:
  "mcp_server s \<notin> set (t_denied (fold (taint_step sens) xs st)) \<Longrightarrow>
   map_of (t_narrow (fold (taint_step sens) xs st)) s = map_of (t_narrow st) s"
  by (induction xs arbitrary: st) (auto simp: t_denied_fold taint_step_keeps)

lemma final_narrow_kept:
  assumes "map_of (n_narrow (first_pass declared blocks)) s = Some names"
    and "\<not> is_denied declared blocks sources (mcp_server s)"
  shows "map_of (t_narrow (final_state declared blocks sources)) s \<noteq> None"
proof -
  let ?st = "\<lparr> t_denied = n_denied (first_pass declared blocks), t_narrow = n_narrow (first_pass declared blocks),
    t_reasons = foldl (\<lambda>rs i. AList.update i By_Policy rs) [] (n_denied (first_pass declared blocks)) \<rparr>"
  let ?f = "fold (taint_step (sensitive_labels blocks)) (uniq declared) ?st"
  have "map_of (t_narrow ?f) s = Some names" if t: "tainting_sources blocks sources \<noteq> []"
  proof -
    have "mcp_server s \<notin> set (t_denied (final_state declared blocks sources))"
      using assms(2) by (simp add: set_final_denied)
    with t have "mcp_server s \<notin> set (t_denied ?f)"
      by (simp add: final_state_def Let_def taint_all_def)
    from taint_fold_keeps [OF this] assms(1) show ?thesis by simp
  qed
  moreover have "distinct (map fst (t_narrow ?f))"
    by (rule distinct_taint_fold) (simp add: first_pass_distinct)
  ultimately have "map_of (t_narrow (taint_all (sensitive_labels blocks) (uniq declared) ?st)) s \<noteq> None"
    if "tainting_sources blocks sources \<noteq> []"
    using that unfolding taint_all_def Let_def by (subst map_of_narrow_fold) auto
  then show ?thesis
    using assms(1) by (simp add: final_state_def Let_def)
qed

lemma not_limited_no_narrow:
  "\<not> limited blocks (mcp_server s) \<Longrightarrow> map_of (n_narrow (first_pass declared blocks)) s = None"
  by (auto simp: first_pass_narrow limited_def)

lemma decide_allowed_iff:
  assumes "i \<in> set declared"
  shows "decide (merged_mode blocks) (t_denied (final_state declared blocks sources))
           (n_monitored (first_pass declared blocks)) (t_narrow (final_state declared blocks sources)) i = Allowed
         \<longleftrightarrow> \<not> is_denied declared blocks sources i \<and> \<not> limited blocks i"
proof (cases "is_denied declared blocks sources i")
  case True
  then show ?thesis
    by (simp add: decide_def set_final_denied)
next
  case nd: False
  show ?thesis
  proof (cases "limited blocks i")
    case True
    then obtain s where s: "mcp_server_only i = Some s" "server_limits blocks s \<noteq> []"
      by (auto simp: limited_def)
    then have i: "i = mcp_server s" "s \<noteq> []" "CHR ''/'' \<notin> set s"
      by (simp_all add: mcp_server_only_iff)
    have "merged_mode blocks \<noteq> Reject" and nb: "\<not> (\<exists>b \<in> set blocks. denied_by b i)"
      using nd True assms by (auto simp: is_denied_def)
    then show ?thesis
    proof (cases "merged_mode blocks = Monitor \<or> limited_by_prefix blocks i")
      case True
      then show ?thesis
        using nd nb \<open>limited blocks i\<close> assms \<open>merged_mode blocks \<noteq> Reject\<close>
        by (simp add: decide_def first_pass_monitored set_final_denied)
    next
      case False
      with \<open>merged_mode blocks \<noteq> Reject\<close> have "merged_mode blocks = Strip"
        by (cases "merged_mode blocks") auto
      with False have "map_of (n_narrow (first_pass declared blocks)) s = Some (limit_names (server_limits blocks s))"
        using i s nb assms by (simp add: first_pass_narrow limited_by_prefix_def)
      from final_narrow_kept [OF this] nd i show ?thesis
        using \<open>limited blocks i\<close> by (simp add: decide_def set_final_denied split: option.splits)
    qed
  next
    case nl: False
    have "map_of (t_narrow (final_state declared blocks sources)) s = None" if "mcp_server_only i = Some s" for s
      using that nl by (intro final_narrow_None not_limited_no_narrow) (simp add: mcp_server_only_iff)
    with nd nl show ?thesis
      by (simp add: decide_def set_final_denied first_pass_monitored split: option.splits)
  qed
qed

lemma decide_invoked_evaluate:
  "blocks \<noteq> [] \<Longrightarrow>
   decide_invoked (evaluate_blocks declared blocks forced sources) i =
   (if i \<notin> set declared then Unlisted
    else if merged_mode blocks = Strip \<and> forced = Some i \<and> i \<noteq> [] \<and> is_denied declared blocks sources i then Rejected
    else decide (merged_mode blocks) (t_denied (final_state declared blocks sources))
           (n_monitored (first_pass declared blocks)) (t_narrow (final_state declared blocks sources)) i)"
  by (auto simp: decide_invoked_def evaluate_blocks_conclude er_decisions_conclude set_final_denied is_denied_def)

lemma no_blocks_simps [simp]:
  "\<not> is_denied declared [] sources i" "\<not> limited [] i" "merged_mode [] = Monitor"
  by (simp_all add: is_denied_def limited_def merged_mode_def tainting_sources_def untrusted_labels_def
      matches_any_def server_limits_def)

lemma server_limits_mono: "set bs \<subseteq> set cs \<Longrightarrow> set (server_limits bs s) \<subseteq> set (server_limits cs s)"
  by (auto simp: server_limits_def set_collect_some)

lemma limited_mono: "set bs \<subseteq> set cs \<Longrightarrow> limited bs i \<Longrightarrow> limited cs i"
  using server_limits_mono [of bs cs] unfolding limited_def by (metis set_empty subset_empty)

lemma sensitive_labels_mono: "set bs \<subseteq> set cs \<Longrightarrow> set (sensitive_labels bs) \<subseteq> set (sensitive_labels cs)"
  by (auto simp: sensitive_labels_def)

lemma tainting_sources_mono:
  assumes "set bs \<subseteq> set cs" and "tainting_sources bs src \<noteq> []"
  shows "tainting_sources cs src \<noteq> []"
proof -
  have "set (untrusted_labels bs) \<subseteq> set (untrusted_labels cs)"
    using assms(1) by (auto simp: untrusted_labels_def)
  from matches_any_mono [OF this] assms(2) show ?thesis
    by (auto simp: tainting_sources_def filter_empty_conv simp flip: set_empty)
qed

lemma is_denied_mono:
  assumes "set bs \<subseteq> set cs" and "\<not> limited cs i" and d: "is_denied declared bs src i"
  shows "is_denied declared cs src i"
proof -
  have nl: "\<not> limited bs i"
    using assms limited_mono by blast
  have "exposes (sensitive_labels cs) (n_narrow (first_pass declared cs)) i"
    if "exposes (sensitive_labels bs) (n_narrow (first_pass declared bs)) i"
  proof -
    from that obtain s where s: "mcp_server_only i = Some s"
      "list_ex (\<lambda>p. names_server p s) (sensitive_labels bs)"
      by (auto simp: exposes_def split: option.splits)
    then have "i = mcp_server s" by (simp add: mcp_server_only_iff)
    with assms(2) have "map_of (n_narrow (first_pass declared cs)) s = None"
      by (simp add: not_limited_no_narrow)
    with s sensitive_labels_mono [OF assms(1)] show ?thesis
      by (auto simp: exposes_def list_ex_iff)
  qed
  moreover have "matches_any (sensitive_labels cs) i" if "matches_any (sensitive_labels bs) i"
    using that matches_any_mono sensitive_labels_mono [OF assms(1)] by blast
  ultimately have "sensitive_exposure declared bs i \<Longrightarrow> sensitive_exposure declared cs i"
    by (auto simp: sensitive_exposure_def)
  with d nl assms(1) tainting_sources_mono [OF assms(1)] show ?thesis
    by (auto simp: is_denied_def)
qed

subsection \<open>Names a narrowed server keeps\<close>

lemma scoped_server_of_prefix: "scoped_server_of p = Some s \<Longrightarrow> p = mcp_tool s (drop (length (mcp_tool s [])) p)"
  by (auto simp: scoped_server_of_def mcp_tool_def prefix_def dest!: split_slash_SomeD
      split: if_splits option.splits)

lemma intersect_names_subset: "l \<in> set ls \<Longrightarrow> set (intersect_names ls) \<subseteq> set l"
proof -
  have f: "set (foldl (\<lambda>acc list. filter (\<lambda>n. n \<in> set list) acc) l0 ls) = set l0 \<inter> \<Inter> (set ` set ls)"
    for l0 :: "string list" and ls
    by (induction ls arbitrary: l0) auto
  assume "l \<in> set ls"
  then show ?thesis by (cases ls) (auto simp: f)
qed

lemma matches_self: "matches p p"
  by (auto simp: matches_def suffix_def)

lemma limit_names_scoped:
  assumes "Prefix_Limit \<notin> set (server_limits bs s)" and "n \<in> set (limit_names (server_limits bs s))"
    and "b \<in> set bs" and "scoped_for b s \<noteq> []"
  shows "matches_any (scoped_for b s) (mcp_tool s n)"
proof (cases "server_limit b s")
  case None
  then have "mcp_tool s ''*'' \<in> set (scoped_for b s)"
    using assms(4) by (auto simp: server_limit_def Let_def mcp_tool_def split: if_splits)
  moreover have "matches (mcp_tool s ''*'') (mcp_tool s n)"
    by (simp add: matches_def mcp_tool_def suffix_def butlast_append)
  ultimately show ?thesis by (auto simp: matches_any_iff)
next
  case (Some l)
  then have "l \<in> set (server_limits bs s)"
    using assms(3) by (auto simp: server_limits_def set_collect_some)
  with assms(1) obtain ns where l: "l = Names_Limit ns" by (cases l) auto
  then have ns: "ns = map (drop (length (mcp_tool s []))) (scoped_for b s)"
    using Some by (auto simp: server_limit_def Let_def mcp_tool_def split: if_splits)
  have "ns \<in> set (collect_some (\<lambda>l. case l of Names_Limit ns \<Rightarrow> Some ns | Prefix_Limit \<Rightarrow> None) (server_limits bs s))"
    using \<open>l \<in> set (server_limits bs s)\<close> l by (force simp: set_collect_some)
  from intersect_names_subset [OF this] assms(2) have "n \<in> set ns"
    by (auto simp: limit_names_def)
  with ns obtain p where p: "p \<in> set (scoped_for b s)" and n: "n = drop (length (mcp_tool s [])) p"
    by auto
  have "scoped_server_of p = Some s"
    using p by (simp add: scoped_for_def)
  from scoped_server_of_prefix [OF this] have "p = mcp_tool s n"
    unfolding n .
  with matches_self [of p] have "matches p (mcp_tool s n)" by simp
  with p show ?thesis unfolding matches_any_iff by blast
qed

lemma decide_invoked_allowed:
  "decide_invoked (evaluate_blocks declared blocks forced sources) i = Allowed \<longleftrightarrow>
   i \<in> set declared \<and> \<not> is_denied declared blocks sources i \<and> \<not> limited blocks i"
proof (cases "blocks = []")
  case True
  then show ?thesis
    by (simp add: decide_invoked_def evaluate_blocks_Nil)
next
  case False
  then show ?thesis
    by (auto simp: decide_invoked_evaluate decide_allowed_iff)
qed

section \<open>Properties of the evaluation\<close>

text \<open>C2. A declared tool is allowed exactly when nothing denies it: no policy block denies it, the
  conversation's trust chain does not withhold it, and it is not a bare MCP server that a
  scoped allow limits. A tool the request did not declare is never allowed. This holds for any
  number of blocks, in every mode, with and without a forced tool.\<close>

theorem allowed_iff:
  "decide_invoked (evaluate_blocks declared blocks forced sources) i = Allowed \<longleftrightarrow>
   i \<in> set declared \<and> \<not> is_denied declared blocks sources i \<and> \<not> limited blocks i"
  by (rule decide_invoked_allowed)

text \<open>C3. Adding policy blocks never allows more: a tool that the merge of a larger set of blocks
  allows is allowed by every subset of them. So the key's policy cannot widen the user's.\<close>

theorem more_blocks_never_allow_more:
  assumes "set bs \<subseteq> set cs"
    and "decide_invoked (evaluate_blocks declared cs forced sources) i = Allowed"
  shows "decide_invoked (evaluate_blocks declared bs forced' sources) i = Allowed"
  using assms is_denied_mono [OF assms(1)] limited_mono [OF assms(1)]
  by (auto simp: decide_invoked_allowed)

definition block_of :: "policy_mode \<Rightarrow> string list \<Rightarrow> string list \<Rightarrow> tool_policy_block" where
  "block_of m al de = \<lparr> policy_id = ''p'', policy_name = ''p'', policy_mode = m, allow = al, deny = de,
     sensitive = None, untrusted = None \<rparr>"

theorem more_blocks_never_allow_more_witness:
  "decide_invoked (evaluate_blocks [''function:a'', ''function:b''] [block_of Strip [] [''function:b'']]
     None []) ''function:a'' = Allowed"
  by (rule more_blocks_never_allow_more
        [of "[block_of Strip [] [''function:b'']]"
            "[block_of Strip [] [''function:b''], block_of Monitor [''function:a''] []]" _ None])
     (simp, code_simp)

text \<open>What the request loses and when it is refused: in strip mode exactly the denied identities
  are blocked, in the other modes nothing is; the request is refused exactly in reject mode
  with a denied tool, or in strip mode when the tool it forces is denied; the mode is the
  strictest of the blocks.\<close>

theorem blocked_and_rejected:
  "set (er_blocked (evaluate_blocks declared blocks forced sources)) =
     {i. merged_mode blocks = Strip \<and> is_denied declared blocks sources i} \<and>
   (er_reject (evaluate_blocks declared blocks forced sources) \<longleftrightarrow>
     merged_mode blocks = Reject \<and> (\<exists>i. is_denied declared blocks sources i) \<or>
     merged_mode blocks = Strip \<and> (\<exists>f. forced = Some f \<and> f \<noteq> [] \<and> is_denied declared blocks sources f)) \<and>
   er_mode (evaluate_blocks declared blocks forced sources) = merged_mode blocks \<and>
   mode_rank (merged_mode blocks) = Max (insert 0 (mode_rank ` policy_mode ` set blocks))"
proof (cases "blocks = []")
  case True
  then show ?thesis
    by (simp add: evaluate_blocks_def Let_def)
next
  case False
  then show ?thesis
    by (auto simp: evaluate_blocks_conclude er_reject_conclude merged_mode_rank
        set_final_denied [symmetric] ex_in_conv)
qed

text \<open>The trust chain: once a source of the conversation matches an untrusted label, no declared
  tool that a sensitive label matches is allowed, whatever the blocks' allow lists say; it gets
  the denied decision of the merged mode (rejected, when it is the forced tool of strip mode).\<close>

theorem tainted_conversation_withholds:
  assumes "i \<in> set declared" and "s \<in> set sources" and "b \<in> set blocks" and "b' \<in> set blocks"
    and "untrusted b = Some us" and "matches_any us s" and "sensitive b' = Some ss" and "matches_any ss i"
  shows "decide_invoked (evaluate_blocks declared blocks forced sources) i \<in>
           {denied_decision (merged_mode blocks), Rejected} \<and>
         s \<in> set (er_tainted_by (evaluate_blocks declared blocks forced sources))"
proof -
  have "matches_any (untrusted_labels blocks) s"
    using assms(3,5,6) by (intro matches_any_mono [OF _ assms(6)]) (force simp: untrusted_labels_def)
  then have t: "s \<in> set (tainting_sources blocks sources)"
    using assms(2) by (simp add: tainting_sources_def)
  have "matches_any (sensitive_labels blocks) i"
    using assms(4,7) by (intro matches_any_mono [OF _ assms(8)]) (force simp: sensitive_labels_def)
  with t assms(1) have d: "is_denied declared blocks sources i"
    by (auto simp: is_denied_def sensitive_exposure_def)
  have ne: "blocks \<noteq> []" using assms(3) by auto
  have "er_tainted_by (evaluate_blocks declared blocks forced sources) = tainting_sources blocks sources"
    unfolding evaluate_blocks_conclude [OF ne]
    by (auto simp: conclude_def Let_def split: option.splits)
  with t d ne assms(1) show ?thesis
    by (simp add: decide_invoked_evaluate decide_def set_final_denied)
qed

definition trust_block :: tool_policy_block where
  "trust_block = \<lparr> policy_id = ''t'', policy_name = ''t'', policy_mode = Strip, allow = [], deny = [],
     sensitive = Some [''mcp:mail/*''], untrusted = Some [''mcp:web/*''] \<rparr>"

theorem tainted_conversation_withholds_witness:
  "decide_invoked (evaluate_blocks [''mcp:mail/send''] [trust_block] None [''mcp:web/fetch'']) ''mcp:mail/send''
     \<in> {denied_decision (merged_mode [trust_block]), Rejected} \<and>
   ''mcp:web/fetch'' \<in> set (er_tainted_by (evaluate_blocks [''mcp:mail/send''] [trust_block] None [''mcp:web/fetch'']))"
  by (rule tainted_conversation_withholds [of _ _ _ _ trust_block _ trust_block "[''mcp:web/*'']" "[''mcp:mail/*'']"])
     (code_simp | simp add: trust_block_def)+

text \<open>A narrowed server offers nothing beyond its limits: every tool name the narrowing map keeps
  for a server is matched by the scoped allow patterns of every block that has some for the
  server, and is not sensitive when the conversation is tainted.\<close>

theorem narrowed_names_within_limits:
  assumes "map_of (er_narrow (evaluate_blocks declared blocks forced sources)) s = Some names"
    and "n \<in> set names" and "b \<in> set blocks"
  shows "(scoped_for b s = [] \<or> matches_any (scoped_for b s) (mcp_tool s n)) \<and>
         (tainting_sources blocks sources = [] \<or> \<not> matches_any (sensitive_labels blocks) (mcp_tool s n))"
proof -
  have ne: "blocks \<noteq> []" using assms(3) by auto
  let ?st = "\<lparr> t_denied = n_denied (first_pass declared blocks), t_narrow = n_narrow (first_pass declared blocks),
    t_reasons = foldl (\<lambda>rs i. AList.update i By_Policy rs) [] (n_denied (first_pass declared blocks)) \<rparr>"
  have fin: "map_of (t_narrow (final_state declared blocks sources)) s = Some names"
    using assms(1) ne by (simp add: er_narrow_evaluate)
  have "\<exists>names0. map_of (n_narrow (first_pass declared blocks)) s = Some names0 \<and> set names \<subseteq> set names0 \<and>
         (tainting_sources blocks sources = [] \<or> (\<forall>n \<in> set names. \<not> matches_any (sensitive_labels blocks) (mcp_tool s n)))"
  proof (cases "tainting_sources blocks sources = []")
    case False
    then show ?thesis
      using fin taint_all_names [of ?st] first_pass_distinct by (simp add: final_state_def Let_def)
  qed (use fin in \<open>simp add: final_state_def Let_def\<close>)
  then obtain names0 where n0: "map_of (n_narrow (first_pass declared blocks)) s = Some names0"
      "n \<in> set names0"
      "tainting_sources blocks sources = [] \<or> \<not> matches_any (sensitive_labels blocks) (mcp_tool s n)"
    using assms(2) by blast
  then have "Prefix_Limit \<notin> set (server_limits blocks s)" "n \<in> set (limit_names (server_limits blocks s))"
    by (auto simp: first_pass_narrow split: if_splits)
  from limit_names_scoped [OF this assms(3)] n0(3) show ?thesis by blast
qed

theorem narrowed_names_within_limits_witness:
  "let b = (block_of Strip [''mcp:gh/get'', ''mcp:gh/del''] [])\<lparr> sensitive := Some [''mcp:gh/del''], untrusted := Some [''web''] \<rparr>;
       narrow = er_narrow (evaluate_blocks [''mcp:gh''] [b] None [''web''])
   in map_of narrow ''gh'' = Some [''get''] \<and>
      matches_any (scoped_for b ''gh'') (mcp_tool ''gh'' ''get'') \<and>
      \<not> matches_any (sensitive_labels [b]) (mcp_tool ''gh'' ''get'')"
proof -
  let ?b = "(block_of Strip [''mcp:gh/get'', ''mcp:gh/del''] [])\<lparr> sensitive := Some [''mcp:gh/del''], untrusted := Some [''web''] \<rparr>"
  have narrow: "map_of (er_narrow (evaluate_blocks [''mcp:gh''] [?b] None [''web''])) ''gh'' = Some [''get'']"
    by code_simp
  moreover have "scoped_for ?b ''gh'' \<noteq> []" "tainting_sources [?b] [''web''] \<noteq> []"
    by code_simp+
  ultimately show ?thesis
    using narrowed_names_within_limits [OF narrow, of "''get''" ?b] by (simp add: Let_def)
qed

text \<open>Monitor mode never interferes: nothing is blocked, narrowed or refused.\<close>

theorem monitor_mode_passive:
  assumes "merged_mode blocks = Monitor"
  shows "er_blocked (evaluate_blocks declared blocks forced sources) = [] \<and>
         \<not> er_reject (evaluate_blocks declared blocks forced sources) \<and>
         (\<forall>s. map_of (er_narrow (evaluate_blocks declared blocks forced sources)) s = None)"
proof (cases "blocks = []")
  case True
  then show ?thesis by (simp add: evaluate_blocks_def Let_def)
next
  case False
  then show ?thesis
    using assms
    by (auto simp: evaluate_blocks_conclude er_reject_conclude first_pass_narrow intro!: final_narrow_None)
qed

theorem monitor_mode_passive_witness:
  "er_blocked (evaluate_blocks [''function:a''] [block_of Monitor [] [''function:a'']] (Some ''function:a'') []) = [] \<and>
   \<not> er_reject (evaluate_blocks [''function:a''] [block_of Monitor [] [''function:a'']] (Some ''function:a'') []) \<and>
   (\<forall>s. map_of (er_narrow (evaluate_blocks [''function:a''] [block_of Monitor [] [''function:a'']] (Some ''function:a'') [])) s = None)"
  by (rule monitor_mode_passive) code_simp

text \<open>The narrowing of a bare server declaration looks at the allow lists only: a tool that a deny
  pattern of the very same block denies stays in the list of names the server is narrowed to,
  although the same tool declared on its own is stripped.\<close>

theorem narrowing_ignores_deny:
  "let b = block_of Strip [''mcp:gh/get'', ''mcp:gh/del''] [''mcp:gh/del''] in
   map_of (er_narrow (evaluate_blocks [''mcp:gh''] [b] None [])) ''gh'' = Some [''get'', ''del''] \<and>
   er_blocked (evaluate_blocks [''mcp:gh''] [b] None []) = [] \<and>
   er_blocked (evaluate_blocks [''mcp:gh/del''] [b] None []) = [''mcp:gh/del'']"
  by code_simp

text \<open>A deny pattern that names a whole MCP server without a wildcard denies the server's own
  declaration only: no tool of that server is denied by it.\<close>

theorem server_deny_spares_tools:
  assumes "\<not> suffix ''*'' s"
  shows "denied_by (block_of m [] [mcp_server s]) (mcp_server s) \<and>
         \<not> denied_by (block_of m [] [mcp_server s]) (mcp_tool s t)"
proof -
  have "\<not> suffix ''*'' (mcp_server s)"
    using assms by (cases s rule: rev_cases) (auto simp: mcp_server_def suffix_def)
  then show ?thesis
    by (auto simp: denied_by_def block_of_def matches_any_def matches_def denied_globally_def global_allow_def
        scoped_for_def mcp_server_def mcp_tool_def split: option.splits)
qed

theorem server_deny_spares_tools_witness:
  "denied_by (block_of Reject [] [mcp_server ''github'']) (mcp_server ''github'') \<and>
   \<not> denied_by (block_of Reject [] [mcp_server ''github'']) (mcp_tool ''github'' ''delete_repo'')"
  by (rule server_deny_spares_tools) code_simp

end
