(* ===== verification/Adapter_Types.thy ===== *)
theory Adapter_Types
  imports Tool_Identity
begin

text \<open>
  What the adapters of the API families share: the guards and the SSE walker of
  \<open>toolGovernance/adapters/types.ts\<close>, the note of \<open>toolGovernance/stripNotice.ts\<close>, and the
  contract of the interface \<open>ToolAdapter\<close> as the locale \<open>tool_adapter\<close>: what the middleware
  relies on when it strips a body and notes what it removed. Each adapter's theory interprets it.

  \<open>JSON.parse\<close> and \<open>JSON.stringify\<close> are the parameters \<open>parse\<close> (\<open>None\<close> where it throws) and
  \<open>stringify\<close>.
\<close>

section \<open>Guards and the SSE walker\<close>

fun arr :: "js \<Rightarrow> js list" where
  "arr (JArr xs) = xs"
| "arr _ = []"

text \<open>A non-empty string, or \<open>null\<close>.\<close>

fun str :: "js \<Rightarrow> string option" where
  "str (JStr s) = (if s = [] then None else Some s)"
| "str _ = None"

definition sse_chunks :: "(string \<Rightarrow> js option) \<Rightarrow> string \<Rightarrow> js list" where
  "sse_chunks parse text =
     collect_some
       (\<lambda>line. if \<not> prefix ''data:'' line then None
               else let payload = trim (drop 5 line) in
                    if payload = [] \<or> payload = ''[DONE]'' then None else parse payload)
       (split_char (CHR 0x0A) text)"

record result_source =
  rs_identity :: tool_identity
  rs_args :: string

definition unknown_source :: result_source where
  "unknown_source = \<lparr> rs_identity = UNKNOWN_SOURCE, rs_args = [] \<rparr>"

text \<open>\<open>(ref && calls.get(ref)) || { identity: UNKNOWN_SOURCE, args: '' }\<close>\<close>

definition call_for :: "(string \<times> result_source) list \<Rightarrow> string option \<Rightarrow> result_source" where
  "call_for calls ref =
     (case ref of None \<Rightarrow> unknown_source
      | Some r \<Rightarrow> (case map_of calls r of None \<Rightarrow> unknown_source | Some c \<Rightarrow> c))"

text \<open>\<open>xs.filter(x => \<not> n(x) \<or> \<not> blocked.has(identity(n(x))))\<close>: the entries whose identity, when they have
  one, is not blocked.\<close>

definition keep_unblocked ::
  "('a \<Rightarrow> tool_identity option) \<Rightarrow> tool_identity list \<Rightarrow> 'a list \<Rightarrow> 'a list" where
  "keep_unblocked ident blocked xs =
     filter (\<lambda>x. case ident x of None \<Rightarrow> True | Some i \<Rightarrow> i \<notin> set blocked) xs"

text \<open>\<open>if (xs.length > 0) out.k = xs; else delete out.k\<close>\<close>

definition set_or_delete :: "string \<Rightarrow> js list \<Rightarrow> js \<Rightarrow> js" where
  "set_or_delete k xs ob = (if xs \<noteq> [] then jset k (JArr xs) ob else jdel k ob)"

lemma collect_keep_unblocked:
  "i \<in> set (collect_some ident (keep_unblocked ident blocked xs)) \<Longrightarrow> i \<notin> set blocked"
  by (auto simp: set_collect_some keep_unblocked_def)

lemma keep_unblocked_all:
  "set (collect_some ident xs) \<inter> set blocked = {} \<Longrightarrow> keep_unblocked ident blocked xs = xs"
  unfolding keep_unblocked_def by (rule filter_True) (auto simp: set_collect_some split: option.splits)

lemma arr_set_or_delete [simp]:
  "arr (jget (set_or_delete k xs ob) k') = (if k = k' then xs else arr (jget ob k'))"
  by (simp add: set_or_delete_def)

lemma is_obj_set_or_delete [simp]: "is_obj (set_or_delete k xs ob)"
  by (simp add: set_or_delete_def)

lemma jget_set_or_delete:
  "jget (set_or_delete k xs ob) k' =
   (if k = k' then (if xs \<noteq> [] then JArr xs else JUndef) else jget ob k')"
  by (simp add: set_or_delete_def)

lemma is_arr_arr: "is_arr v \<Longrightarrow> v = JArr (arr v)"
  by (cases v) auto

lemma not_is_arr_arr [simp]: "\<not> is_arr v \<Longrightarrow> arr v = []"
  by (cases v) auto

section \<open>The note\<close>

definition STRIP_NOTICE_MARKER :: string where
  "STRIP_NOTICE_MARKER = ''[tool policy]''"

definition strip_notice :: "tool_identity list \<Rightarrow> tool_identity list \<Rightarrow> string" where
  "strip_notice blocked tainted_by =
     (let tools = join '', '' (sort (uniq blocked));
          sources = join '', '' (sort (uniq tainted_by));
          why = (if sources \<noteq> [] then '' This conversation contains content from '' @ sources
                                        @ '', so tools that act on it are withheld.'' else [])
      in STRIP_NOTICE_MARKER @ '' These tools are not permitted for this caller and have been removed''
         @ '' from this request: '' @ tools @ ''.'' @ why
         @ '' Do not attempt to call them or to reach the same capability another''
         @ '' way. If the task cannot be completed without them, say so plainly.'')"

fun carries_notice :: "js \<Rightarrow> bool" where
  "carries_notice (JStr text) = sublist STRIP_NOTICE_MARKER text"
| "carries_notice _ = False"

definition append_notice :: "js \<Rightarrow> tool_identity list \<Rightarrow> tool_identity list \<Rightarrow> string" where
  "append_notice text blocked tainted_by =
     (case text of
        JStr s \<Rightarrow> if s \<noteq> [] then s @ [CHR 0x0A, CHR 0x0A] @ strip_notice blocked tainted_by
                   else strip_notice blocked tainted_by
      | _ \<Rightarrow> strip_notice blocked tainted_by)"

lemma marker_in_strip_notice [simp]: "sublist STRIP_NOTICE_MARKER (strip_notice blocked tainted_by)"
proof -
  have "sublist p (p @ r)" for p r :: string
    unfolding sublist_def by (rule exI [of _ "[]"]) simp
  then show ?thesis by (simp add: strip_notice_def Let_def)
qed

lemma sublist_append_right: "sublist p s \<Longrightarrow> sublist p (q @ s)"
  by (auto simp: sublist_def) (metis append.assoc)

lemma append_notice_marked [simp]: "sublist STRIP_NOTICE_MARKER (append_notice v blocked tainted_by)"
proof -
  have "sublist STRIP_NOTICE_MARKER ((s @ [a, b]) @ strip_notice blocked tainted_by)" for s a and b :: char
    by (rule sublist_append_right) simp
  then show ?thesis by (cases v) (simp_all add: append_notice_def)
qed

text \<open>The text depends only on which tools were removed, not on their order or number.\<close>

lemma sort_uniq_set: "set xs = set ys \<Longrightarrow> sort (uniq xs) = sort (uniq ys)" for xs ys :: "string list"
proof -
  have "sort (uniq zs) = sorted_list_of_set (set zs)" for zs :: "string list"
    using sorted_list_of_set.idem_if_sorted_distinct [of "sort (uniq zs)"] by simp
  then show "set xs = set ys \<Longrightarrow> sort (uniq xs) = sort (uniq ys)" by simp
qed

lemma strip_notice_cong:
  "set bs = set cs \<Longrightarrow> set ss = set ts \<Longrightarrow> strip_notice bs ss = strip_notice cs ts"
  using sort_uniq_set [of bs cs] sort_uniq_set [of ss ts] by (simp add: strip_notice_def Let_def)

section \<open>The contract of an adapter\<close>

text \<open>The narrowed servers do not name a blocked tool.\<close>

definition compatible :: "tool_identity list \<Rightarrow> (string \<times> string list) list \<Rightarrow> bool" where
  "compatible blocked narrow =
     (\<forall>(server, names) \<in> set narrow. \<forall>n \<in> set names. mcp_tool server n \<notin> set blocked)"

lemma compatibleD:
  "compatible blocked narrow \<Longrightarrow> map_of narrow s = Some names \<Longrightarrow> n \<in> set names \<Longrightarrow> mcp_tool s n \<notin> set blocked"
  by (auto simp: compatible_def dest: map_of_SomeD)

lemma compatible_Nil [simp]: "compatible blocked []"
  by (simp add: compatible_def)

text \<open>\<open>declared\<close> lists the tools of a body, \<open>strip\<close> removes the blocked ones under a narrowing map and
  \<open>note\<close> tells the model which ones are gone.\<close>

locale tool_adapter =
  fixes declared :: "js \<Rightarrow> tool_identity list"
    and strip :: "js \<Rightarrow> tool_identity list \<Rightarrow> (string \<times> string list) list \<Rightarrow> js"
    and note_stripped :: "js \<Rightarrow> tool_identity list \<Rightarrow> tool_identity list \<Rightarrow> js"
  assumes strip_removes:
      "compatible blocked narrow \<Longrightarrow> i \<in> set (declared (strip body blocked narrow)) \<Longrightarrow> i \<notin> set blocked"
    and strip_transparent:
      "set (declared body) \<inter> set blocked = {} \<Longrightarrow> declared (strip body blocked []) = declared body"
    and note_declared: "declared (note_stripped body bl tb) = declared body"
    and note_idem: "note_stripped (note_stripped body bl tb) bl tb = note_stripped body bl tb"
begin

text \<open>The body the middleware forwards: stripped, then noted.\<close>

definition forwarded ::
  "js \<Rightarrow> tool_identity list \<Rightarrow> (string \<times> string list) list \<Rightarrow> tool_identity list \<Rightarrow> tool_identity list \<Rightarrow> js" where
  "forwarded body blocked narrow bl tb = note_stripped (strip body blocked narrow) bl tb"

lemma forwarded_removes:
  "compatible blocked narrow \<Longrightarrow> i \<in> set (declared (forwarded body blocked narrow bl tb)) \<Longrightarrow> i \<notin> set blocked"
  using strip_removes by (simp add: forwarded_def note_declared)

text \<open>Stripping twice declares what stripping once declares.\<close>

lemma strip_stable:
  assumes "compatible blocked narrow"
  shows "declared (strip (strip body blocked narrow) blocked []) = declared (strip body blocked narrow)"
proof -
  have "set (declared (strip body blocked narrow)) \<inter> set blocked = {}"
    using strip_removes [OF assms] by blast
  then show ?thesis by (rule strip_transparent)
qed

lemma forwarded_replay:
  assumes "compatible blocked narrow"
  shows "declared (forwarded (forwarded body blocked narrow bl tb) blocked [] bl tb) =
         declared (forwarded body blocked narrow bl tb)"
proof -
  have "set (declared (forwarded body blocked narrow bl tb)) \<inter> set blocked = {}"
    using forwarded_removes [OF assms] by blast
  from strip_transparent [OF this] show ?thesis
    by (simp add: forwarded_def note_declared)
qed

end

end
