(* ===== verification/Adapter_Gemini.thy ===== *)
theory Adapter_Gemini
  imports Adapter_Types
begin

text \<open>
  The adapter of the Gemini family (\<open>toolGovernance/adapters/gemini.ts\<close>): a tool entry groups
  function declarations; stripping also narrows the list of allowed function names a request may
  force.
\<close>

definition gemini_decl_id :: "js \<Rightarrow> tool_identity option" where
  "gemini_decl_id d = map_option function_tool (str (jget d ''name''))"

definition gemini_calls_in :: "js \<Rightarrow> tool_identity list" where
  "gemini_calls_in payload =
     concat (map (\<lambda>c. collect_some (\<lambda>p. gemini_decl_id (jget p ''functionCall''))
                        (arr (jpath c [''content'', ''parts''])))
       (arr (jget payload ''candidates'')))"

definition gemini_decls :: "js \<Rightarrow> js list" where
  "gemini_decls t = arr (jget t ''functionDeclarations'')"

definition gemini_declared :: "js \<Rightarrow> tool_identity list" where
  "gemini_declared body =
     concat (map (\<lambda>t. collect_some gemini_decl_id (gemini_decls t)) (arr (jget body ''tools'')))"

definition gemini_forced :: "js \<Rightarrow> tool_identity option" where
  "gemini_forced body =
     (let cfg = jpath body [''toolConfig'', ''functionCallingConfig''];
          names = arr (jget cfg ''allowedFunctionNames'')
      in if jget cfg ''mode'' = JStr ''ANY'' \<and> length names = 1
         then map_option function_tool (str (hd names)) else None)"

definition gemini_strip_tool :: "tool_identity list \<Rightarrow> js \<Rightarrow> js option" where
  "gemini_strip_tool blocked t =
     (if \<not> is_arr (jget t ''functionDeclarations'') then Some t
      else let decls = keep_unblocked gemini_decl_id blocked (gemini_decls t)
           in if decls \<noteq> [] then Some (jset ''functionDeclarations'' (JArr decls) t) else None)"

text \<open>The names the declarations left can be called by, and the names of a forced list among them.\<close>

definition gemini_surviving :: "js list \<Rightarrow> string list" where
  "gemini_surviving tools =
     uniq (concat (map (\<lambda>t. collect_some (\<lambda>d. str (jget d ''name'')) (gemini_decls t)) tools))"

definition gemini_kept_names :: "js list \<Rightarrow> js list \<Rightarrow> js list" where
  "gemini_kept_names tools names =
     filter (\<lambda>n. case n of JStr s \<Rightarrow> s \<in> set (gemini_surviving tools) | _ \<Rightarrow> False) names"

definition gemini_strip :: "js \<Rightarrow> tool_identity list \<Rightarrow> (string \<times> string list) list \<Rightarrow> js" where
  "gemini_strip body blocked narrow =
     (if \<not> is_arr (jget body ''tools'') then jcopy body
      else let tools = collect_some (gemini_strip_tool blocked) (arr (jget body ''tools''));
               out = set_or_delete ''tools'' tools (jcopy body);
               cfg = jpath out [''toolConfig'', ''functionCallingConfig'']
           in if \<not> is_arr (jget cfg ''allowedFunctionNames'') then out
              else let kept = gemini_kept_names tools (arr (jget cfg ''allowedFunctionNames''));
                       next_cfg = set_or_delete ''allowedFunctionNames'' kept (jcopy cfg)
                   in if kept = [] \<and> jget cfg ''mode'' = JStr ''ANY'' then jdel ''toolConfig'' out
                      else jset ''toolConfig''
                             (jset ''functionCallingConfig'' next_cfg (jget out ''toolConfig'')) out)"

definition gemini_note :: "js \<Rightarrow> tool_identity list \<Rightarrow> tool_identity list \<Rightarrow> js" where
  "gemini_note body blocked tainted_by =
     (if blocked = [] then body
      else let parts = arr (jpath body [''systemInstruction'', ''parts'']) in
        if list_ex (\<lambda>p. carries_notice (jget p ''text'')) parts then body
        else jset ''systemInstruction''
               (jset ''parts'' (JArr (parts @ [JObj [(''text'', JStr (strip_notice blocked tainted_by))]]))
                 (nullish (jget body ''systemInstruction'') (JObj []))) body)"

definition gemini_invoked :: "js \<Rightarrow> tool_identity list" where
  "gemini_invoked payload = gemini_calls_in payload"

definition gemini_invoked_chunk :: "js \<Rightarrow> tool_identity list" where
  "gemini_invoked_chunk chunk = gemini_calls_in chunk"

definition gemini_invoked_stream :: "(string \<Rightarrow> js option) \<Rightarrow> string \<Rightarrow> tool_identity list" where
  "gemini_invoked_stream parse text = concat (map gemini_calls_in (sse_chunks parse text))"

definition gemini_sources :: "js \<Rightarrow> result_source list" where
  "gemini_sources body =
     concat (map (\<lambda>c. collect_some
         (\<lambda>p. map_option (\<lambda>i. \<lparr> rs_identity = i, rs_args = [] \<rparr>) (gemini_decl_id (jget p ''functionResponse'')))
         (arr (jget c ''parts'')))
       (arr (jget body ''contents'')))"

definition gemini_rejection :: "string \<Rightarrow> js" where
  "gemini_rejection message =
     JObj [(''error'', JObj [(''code'', JNum 403), (''status'', JStr ''PERMISSION_DENIED''),
                             (''message'', JStr message)])]"

section \<open>Lemmas\<close>

lemma gemini_strip_tools_field:
  "arr (jget (gemini_strip body blocked narrow) ''tools'') =
   collect_some (gemini_strip_tool blocked) (arr (jget body ''tools''))"
  by (cases "is_arr (jget body ''tools'')") (simp_all add: gemini_strip_def Let_def)

lemma gemini_decls_jset [simp]: "gemini_decls (jset ''functionDeclarations'' (JArr ds) t) = ds"
  by (simp add: gemini_decls_def)

lemma gemini_strip_tool_removes:
  "gemini_strip_tool blocked t = Some t' \<Longrightarrow> i \<in> set (collect_some gemini_decl_id (gemini_decls t')) \<Longrightarrow>
   i \<notin> set blocked"
  by (cases "is_arr (jget t ''functionDeclarations'')")
     (auto simp: gemini_strip_tool_def gemini_decls_def Let_def dest: collect_keep_unblocked split: if_splits)

lemma gemini_strip_transparent:
  assumes "set (concat (map (\<lambda>t. collect_some gemini_decl_id (gemini_decls t)) ts)) \<inter> set blocked = {}"
  shows "concat (map (\<lambda>t. collect_some gemini_decl_id (gemini_decls t)) (collect_some (gemini_strip_tool blocked) ts)) =
         concat (map (\<lambda>t. collect_some gemini_decl_id (gemini_decls t)) ts)"
  using assms
proof (induction ts)
  case (Cons t ts)
  have "keep_unblocked gemini_decl_id blocked (gemini_decls t) = gemini_decls t"
    using Cons.prems by (intro keep_unblocked_all) auto
  moreover have "set (concat (map (\<lambda>t. collect_some gemini_decl_id (gemini_decls t)) ts)) \<inter> set blocked = {}"
    using Cons.prems by auto
  ultimately show ?case
    using Cons.IH by (auto simp: gemini_strip_tool_def Let_def split: option.splits)
qed simp

lemma gemini_note_parts:
  assumes "bl \<noteq> []"
  shows "list_ex (\<lambda>p. carries_notice (jget p ''text'')) (arr (jpath (gemini_note body bl tb) [''systemInstruction'', ''parts'']))"
  using assms by (simp add: gemini_note_def Let_def)

interpretation gemini: tool_adapter gemini_declared gemini_strip gemini_note
proof (unfold_locales, goal_cases)
  case (1 blocked narrow i body)
  then show ?case
    by (auto simp: gemini_declared_def gemini_strip_tools_field set_collect_some [of "gemini_strip_tool blocked"]
        dest: gemini_strip_tool_removes)
next
  case (2 body blocked)
  then show ?case
    using gemini_strip_transparent by (simp add: gemini_declared_def gemini_strip_tools_field)
next
  case (3 body bl tb)
  show ?case by (simp add: gemini_note_def Let_def gemini_declared_def)
next
  case (4 body bl tb)
  show ?case
  proof (cases "bl = []")
    case False
    from gemini_note_parts [OF this, of body tb] show ?thesis
      by (simp add: gemini_note_def [of "gemini_note body bl tb"] Let_def)
  qed (simp add: gemini_note_def)
qed

text \<open>The declared identities are exactly the surviving names.\<close>

lemma gemini_surviving_declared:
  "s \<in> set (gemini_surviving (arr (jget body ''tools''))) \<longleftrightarrow> function_tool s \<in> set (gemini_declared body)"
  by (auto simp: gemini_surviving_def gemini_declared_def set_collect_some gemini_decl_id_def)

end
