(* ===== verification/Adapter_OpenAI.thy ===== *)
theory Adapter_OpenAI
  imports Adapter_Types
begin

text \<open>
  The adapter of the OpenAI chat family (\<open>toolGovernance/adapters/openaiChat.ts\<close>): tools are
  declared in \<open>tools[].function.name\<close> or the older \<open>functions[].name\<close>.
\<close>

definition openai_tool_id :: "js \<Rightarrow> tool_identity option" where
  "openai_tool_id t = map_option function_tool (str (jpath t [''function'', ''name'']))"

definition openai_function_id :: "js \<Rightarrow> tool_identity option" where
  "openai_function_id f = map_option function_tool (str (jget f ''name''))"

definition openai_declared :: "js \<Rightarrow> tool_identity list" where
  "openai_declared body =
     collect_some openai_tool_id (arr (jget body ''tools''))
     @ collect_some openai_function_id (arr (jget body ''functions''))"

definition openai_forced :: "js \<Rightarrow> tool_identity option" where
  "openai_forced body =
     (let tc = jget body ''tool_choice''; fc = jget body ''function_call'' in
      if is_objectish tc \<and> str (jpath tc [''function'', ''name'']) \<noteq> None
      then openai_tool_id tc
      else if is_objectish fc \<and> str (jget fc ''name'') \<noteq> None
      then openai_function_id fc
      else None)"

definition forcing :: "js \<Rightarrow> bool" where
  "forcing v = (v = JStr ''required'' \<or> is_objectish v)"

definition openai_strip :: "js \<Rightarrow> tool_identity list \<Rightarrow> (string \<times> string list) list \<Rightarrow> js" where
  "openai_strip body blocked narrow =
     (let out0 = jcopy body;
          tools = jget body ''tools''; fns = jget body ''functions'';
          out1 = (if is_arr tools
                  then set_or_delete ''tools'' (keep_unblocked openai_tool_id blocked (arr tools)) out0 else out0);
          out2 = (if is_arr fns
                  then set_or_delete ''functions'' (keep_unblocked openai_function_id blocked (arr fns)) out1 else out1);
          out3 = (if is_arr tools \<and> jget out2 ''tools'' = JUndef \<and> forcing (jget out2 ''tool_choice'')
                  then jdel ''tool_choice'' out2 else out2)
      in if is_arr fns \<and> jget out3 ''functions'' = JUndef \<and> forcing (jget out3 ''function_call'')
         then jdel ''function_call'' out3 else out3)"

text \<open>The index of the first element with a property, as \<open>findIndex\<close>.\<close>

fun find_index :: "('a \<Rightarrow> bool) \<Rightarrow> 'a list \<Rightarrow> nat option" where
  "find_index P [] = None"
| "find_index P (x # xs) = (if P x then Some 0 else map_option Suc (find_index P xs))"

definition is_system :: "js \<Rightarrow> bool" where
  "is_system m = (jget m ''role'' = JStr ''system'')"

definition openai_note :: "js \<Rightarrow> tool_identity list \<Rightarrow> tool_identity list \<Rightarrow> js" where
  "openai_note body blocked tainted_by =
     (if blocked = [] then body
      else let messages = arr (jget body ''messages'') in
        if list_ex (\<lambda>m. is_system m \<and> carries_notice (jget m ''content'')) messages then body
        else case find_index (\<lambda>m. is_system m \<and> is_str (jget m ''content'')) messages of
               Some k \<Rightarrow>
                 (let m = messages ! k;
                      m' = jset ''content'' (JStr (append_notice (jget m ''content'') blocked tainted_by)) m
                  in jset ''messages'' (JArr (messages[k := m'])) body)
             | None \<Rightarrow>
                 jset ''messages''
                   (JArr (JObj [(''role'', JStr ''system''), (''content'', JStr (strip_notice blocked tainted_by))] # messages)) body)"

definition openai_invoked :: "js \<Rightarrow> tool_identity list" where
  "openai_invoked payload =
     concat (map (\<lambda>c.
       let message = jget c ''message'' in
       collect_some openai_tool_id (arr (jget message ''tool_calls''))
       @ (case openai_function_id (jget message ''function_call'') of None \<Rightarrow> [] | Some i \<Rightarrow> [i]))
       (arr (jget payload ''choices'')))"

definition openai_invoked_chunk :: "js \<Rightarrow> tool_identity list" where
  "openai_invoked_chunk chunk =
     concat (map (\<lambda>c. collect_some openai_tool_id (arr (jpath c [''delta'', ''tool_calls''])))
       (arr (jget chunk ''choices'')))"

definition openai_invoked_stream :: "(string \<Rightarrow> js option) \<Rightarrow> string \<Rightarrow> tool_identity list" where
  "openai_invoked_stream parse text = concat (map openai_invoked_chunk (sse_chunks parse text))"

text \<open>\<open>resultSources\<close>: the walk over the messages with the calls seen so far.\<close>

definition string_or_empty :: "js \<Rightarrow> string" where
  "string_or_empty v = (case v of JStr s \<Rightarrow> s | _ \<Rightarrow> [])"

definition openai_note_call :: "js \<Rightarrow> (string \<times> result_source) list \<Rightarrow> (string \<times> result_source) list" where
  "openai_note_call tc calls =
     (case (str (jget tc ''id''), str (jpath tc [''function'', ''name''])) of
        (Some i, Some name) \<Rightarrow>
          AList.update i \<lparr> rs_identity = function_tool name,
                           rs_args = string_or_empty (jpath tc [''function'', ''arguments'']) \<rparr> calls
      | _ \<Rightarrow> calls)"

fun openai_sources_from :: "(string \<times> result_source) list \<Rightarrow> js list \<Rightarrow> result_source list" where
  "openai_sources_from calls [] = []"
| "openai_sources_from calls (m # ms) =
     (if jget m ''role'' = JStr ''assistant'' then
        openai_sources_from (fold openai_note_call (arr (jget m ''tool_calls'')) calls) ms
      else if jget m ''role'' = JStr ''tool'' then
        call_for calls (str (jget m ''tool_call_id'')) # openai_sources_from calls ms
      else if jget m ''role'' = JStr ''function'' then
        (case openai_function_id m of
           Some i \<Rightarrow> \<lparr> rs_identity = i, rs_args = [] \<rparr>
         | None \<Rightarrow> unknown_source) # openai_sources_from calls ms
      else openai_sources_from calls ms)"

definition openai_sources :: "js \<Rightarrow> result_source list" where
  "openai_sources body = openai_sources_from [] (arr (jget body ''messages''))"

definition openai_rejection :: "string \<Rightarrow> js" where
  "openai_rejection message =
     JObj [(''error'', JObj [(''message'', JStr message), (''type'', JStr ''invalid_request_error''),
                             (''code'', JStr ''tool_not_entitled'')])]"

section \<open>Lemmas\<close>

lemma openai_strip_fields:
  assumes "k \<noteq> ''tool_choice''" and "k \<noteq> ''function_call''"
  shows "jget (openai_strip body blocked narrow) k =
         jget (let out1 = (if is_arr (jget body ''tools'')
                  then set_or_delete ''tools'' (keep_unblocked openai_tool_id blocked (arr (jget body ''tools''))) (jcopy body)
                  else jcopy body)
               in if is_arr (jget body ''functions'')
                  then set_or_delete ''functions''
                         (keep_unblocked openai_function_id blocked (arr (jget body ''functions''))) out1
                  else out1) k"
  using assms by (simp add: openai_strip_def Let_def del: jget_jcopy)

lemma jget_openai_strip:
  "arr (jget (openai_strip body blocked narrow) ''tools'') =
   keep_unblocked openai_tool_id blocked (arr (jget body ''tools''))"
  "arr (jget (openai_strip body blocked narrow) ''functions'') =
   keep_unblocked openai_function_id blocked (arr (jget body ''functions''))"
  by (simp_all add: openai_strip_fields keep_unblocked_def Let_def)

lemma openai_declared_strip:
  "openai_declared (openai_strip body blocked narrow) =
   filter (\<lambda>i. i \<notin> set blocked) (openai_declared body)"
proof -
  have "collect_some f (keep_unblocked f blocked xs) = filter (\<lambda>i. i \<notin> set blocked) (collect_some f xs)"
    for f :: "js \<Rightarrow> tool_identity option" and xs
    by (induction xs) (auto simp: keep_unblocked_def split: option.splits)
  then show ?thesis
    by (simp add: openai_declared_def jget_openai_strip)
qed

lemma find_index_SomeD: "find_index P xs = Some k \<Longrightarrow> k < length xs \<and> P (xs ! k)"
  by (induction xs arbitrary: k) (auto split: if_splits)

lemma openai_note_declared: "openai_declared (openai_note body bl tb) = openai_declared body"
  by (simp add: openai_note_def Let_def openai_declared_def split: option.splits)

lemma openai_note_carries:
  assumes "bl \<noteq> []"
  shows "list_ex (\<lambda>m. is_system m \<and> carries_notice (jget m ''content'')) (arr (jget (openai_note body bl tb) ''messages''))"
proof (cases "find_index (\<lambda>m. is_system m \<and> is_str (jget m ''content'')) (arr (jget body ''messages''))")
  case None
  with assms show ?thesis
    by (simp add: openai_note_def Let_def is_system_def)
next
  case (Some k)
  from find_index_SomeD [OF this] assms Some show ?thesis
    by (simp add: openai_note_def Let_def list_ex_iff is_system_def set_update_memI bexI)
       (force intro: set_update_memI bexI [where x = "jset ''content'' (JStr (append_notice (jget (arr (jget body ''messages'') ! k) ''content'') bl tb)) (arr (jget body ''messages'') ! k)"])
qed

interpretation openai: tool_adapter openai_declared openai_strip openai_note
proof (unfold_locales, goal_cases)
  case (1 blocked narrow i body)
  then show ?case by (simp add: openai_declared_strip)
next
  case (2 body blocked)
  then show ?case by (auto simp: openai_declared_strip intro!: filter_True)
next
  case (3 body bl tb)
  show ?case by (rule openai_note_declared)
next
  case (4 body bl tb)
  show ?case
  proof (cases "bl = []")
    case False
    from openai_note_carries [OF this, of body tb] False show ?thesis
      by (simp add: openai_note_def [of "openai_note body bl tb"] Let_def)
  qed (simp add: openai_note_def)
qed

end
