(* ===== verification/Adapter_Anthropic.thy ===== *)
theory Adapter_Anthropic
  imports Adapter_OpenAI
begin

text \<open>
  The adapter of the Anthropic family (\<open>toolGovernance/adapters/anthropic.ts\<close>). An MCP server
  is declared by an \<open>mcp_servers[]\<close> entry and by the \<open>mcp_toolset\<close> entry of \<open>tools[]\<close> that
  carries the per-tool configuration, and narrowing rewrites the latter.
\<close>

definition anthropic_tool_id :: "js \<Rightarrow> tool_identity option" where
  "anthropic_tool_id t =
     (case str (jget t ''type'') of
        Some ty \<Rightarrow> if ty \<noteq> ''custom'' then Some (hosted_tool ty)
                   else map_option function_tool (str (jget t ''name''))
      | None \<Rightarrow> map_option function_tool (str (jget t ''name'')))"

definition openai_shaped_calls :: "js \<Rightarrow> tool_identity list" where
  "openai_shaped_calls payload =
     concat (map (\<lambda>c. collect_some openai_tool_id (arr (jpath c [''message'', ''tool_calls''])))
       (arr (jget payload ''choices'')))"

definition block_identity :: "js \<Rightarrow> tool_identity option" where
  "block_identity b =
     (let ty = jget b ''type''; name = str (jget b ''name'') in
      if ty = JStr ''tool_use'' then map_option function_tool name
      else if ty = JStr ''server_tool_use'' then map_option hosted_tool name
      else if ty = JStr ''mcp_tool_use'' then
        (case (str (jget b ''server_name''), name) of (Some s, Some n) \<Rightarrow> Some (mcp_tool s n) | _ \<Rightarrow> None)
      else None)"

definition is_toolset :: "js \<Rightarrow> bool" where
  "is_toolset t = (str (jget t ''type'') = Some ''mcp_toolset'')"

definition mcp_toolset_for :: "js list \<Rightarrow> string \<Rightarrow> js option" where
  "mcp_toolset_for tools server =
     find (\<lambda>t. is_toolset t \<and> str (jget t ''mcp_server_name'') = Some server) tools"

definition anthropic_declared_tool :: "js \<Rightarrow> tool_identity option" where
  "anthropic_declared_tool t = (if is_toolset t then None else anthropic_tool_id t)"

definition anthropic_server_id :: "js \<Rightarrow> tool_identity option" where
  "anthropic_server_id s = map_option mcp_server (str (jget s ''name''))"

definition anthropic_declared :: "js \<Rightarrow> tool_identity list" where
  "anthropic_declared body =
     collect_some anthropic_declared_tool (arr (jget body ''tools''))
     @ collect_some anthropic_server_id (arr (jget body ''mcp_servers''))"

definition anthropic_forced :: "js \<Rightarrow> tool_identity option" where
  "anthropic_forced body =
     (let tc = jget body ''tool_choice'' in
      if jget tc ''type'' \<noteq> JStr ''tool'' then None
      else case str (jget tc ''name'') of
             None \<Rightarrow> None
           | Some name \<Rightarrow>
               (case find (\<lambda>t. str (jget t ''name'') = Some name) (arr (jget body ''tools'')) of
                  None \<Rightarrow> Some (function_tool name)
                | Some t \<Rightarrow> (case anthropic_tool_id t of None \<Rightarrow> Some (function_tool name) | Some i \<Rightarrow> Some i)))"

text \<open>The names a narrowed toolset keeps, and the toolset rewritten to enable just those.\<close>

definition toolset_configs :: "js \<Rightarrow> js" where
  "toolset_configs toolset = nullish (jget toolset ''configs'') (JObj [])"

definition allowed_names :: "js \<Rightarrow> string list \<Rightarrow> string list" where
  "allowed_names toolset limit =
     (let configs = toolset_configs toolset in
      if jpath toolset [''default_config'', ''enabled''] = JBool False
      then filter (\<lambda>n. jpath configs [n, ''enabled''] = JBool True \<and> n \<in> set limit) (map fst (jfields configs))
      else limit)"

definition rewrite_toolset :: "js \<Rightarrow> string list \<Rightarrow> js" where
  "rewrite_toolset toolset allowed =
     (let configs = toolset_configs toolset;
          base = foldl (\<lambda>nc n. AList.update n (jset ''enabled'' (JBool (n \<in> set allowed)) (jget configs n)) nc)
                   [] (map fst (jfields configs));
          new_configs = foldl (\<lambda>nc n. AList.update n (jset ''enabled'' (JBool True) (jget configs n)) nc) base allowed
      in jset ''configs'' (JObj new_configs)
           (jset ''default_config'' (jset ''enabled'' (JBool False) (jget toolset ''default_config'')) toolset))"

text \<open>The loop over the declared servers: the servers to drop and the rewritten toolsets.\<close>

record server_plan =
  drop_server :: "string list"
  rewritten :: "(string \<times> js) list"

definition plan_server ::
  "js list \<Rightarrow> tool_identity list \<Rightarrow> (string \<times> string list) list \<Rightarrow> js \<Rightarrow> server_plan \<Rightarrow> server_plan" where
  "plan_server tools blocked narrow s pl =
     (case str (jget s ''name'') of
        None \<Rightarrow> pl
      | Some name \<Rightarrow>
          if mcp_server name \<in> set blocked then pl\<lparr> drop_server := push_new name (drop_server pl) \<rparr>
          else (case map_of narrow name of
                 None \<Rightarrow> pl
               | Some limit \<Rightarrow>
                   (case mcp_toolset_for tools name of
                      None \<Rightarrow> pl
                    | Some toolset \<Rightarrow>
                        let allowed = allowed_names toolset limit in
                        if allowed = [] then pl\<lparr> drop_server := push_new name (drop_server pl) \<rparr>
                        else pl\<lparr> rewritten := AList.update name (rewrite_toolset toolset allowed) (rewritten pl) \<rparr>)))"

definition anthropic_strip_tool :: "server_plan \<Rightarrow> tool_identity list \<Rightarrow> js \<Rightarrow> js option" where
  "anthropic_strip_tool pl blocked t =
     (if is_toolset t then
        (case str (jget t ''mcp_server_name'') of
           None \<Rightarrow> Some t
         | Some name \<Rightarrow>
             if name \<in> set (drop_server pl) then None
             else (case map_of (rewritten pl) name of None \<Rightarrow> Some t | Some r \<Rightarrow> Some r))
      else case anthropic_tool_id t of
             None \<Rightarrow> Some t
           | Some i \<Rightarrow> if i \<in> set blocked then None else Some t)"

definition server_kept :: "server_plan \<Rightarrow> js \<Rightarrow> bool" where
  "server_kept pl s =
     (case str (jget s ''name'') of None \<Rightarrow> True | Some n \<Rightarrow> n \<notin> set (drop_server pl))"

definition anthropic_strip :: "js \<Rightarrow> tool_identity list \<Rightarrow> (string \<times> string list) list \<Rightarrow> js" where
  "anthropic_strip body blocked narrow =
     (let tools_in = arr (jget body ''tools'');
          servers_in = arr (jget body ''mcp_servers'');
          pl = fold (plan_server tools_in blocked narrow) servers_in \<lparr> drop_server = [], rewritten = [] \<rparr>;
          tools = collect_some (anthropic_strip_tool pl blocked) tools_in;
          servers = filter (server_kept pl) servers_in;
          out = (if is_arr (jget body ''tools'') then set_or_delete ''tools'' tools (jcopy body) else jcopy body)
      in if is_arr (jget body ''mcp_servers'') then set_or_delete ''mcp_servers'' servers out else out)"

definition anthropic_note :: "js \<Rightarrow> tool_identity list \<Rightarrow> tool_identity list \<Rightarrow> js" where
  "anthropic_note body blocked tainted_by =
     (if blocked = [] then body
      else let system = jget body ''system'' in
        if is_arr system then
          (if list_ex (\<lambda>b. carries_notice (jget b ''text'')) (arr system) then body
           else jset ''system''
                  (JArr (arr system @ [JObj [(''type'', JStr ''text''), (''text'', JStr (strip_notice blocked tainted_by))]])) body)
        else if carries_notice system then body
        else jset ''system'' (JStr (append_notice system blocked tainted_by)) body)"

definition anthropic_invoked :: "js \<Rightarrow> tool_identity list" where
  "anthropic_invoked payload =
     (if is_arr (jget payload ''choices'') then openai_shaped_calls payload
      else collect_some block_identity (arr (jget payload ''content'')))"

definition anthropic_invoked_chunk :: "js \<Rightarrow> tool_identity list" where
  "anthropic_invoked_chunk chunk =
     (if jget chunk ''type'' \<noteq> JStr ''content_block_start'' then []
      else case block_identity (jget chunk ''content_block'') of None \<Rightarrow> [] | Some i \<Rightarrow> [i])"

definition anthropic_invoked_stream :: "(string \<Rightarrow> js option) \<Rightarrow> string \<Rightarrow> tool_identity list" where
  "anthropic_invoked_stream parse text = concat (map anthropic_invoked_chunk (sse_chunks parse text))"

text \<open>\<open>resultSources\<close>: one content block with the calls seen so far.\<close>

definition anthropic_source_step ::
  "(js \<Rightarrow> string) \<Rightarrow> js \<Rightarrow> (string \<times> result_source) list \<times> result_source list
   \<Rightarrow> (string \<times> result_source) list \<times> result_source list" where
  "anthropic_source_step stringify b st =
     (case st of (calls, out) \<Rightarrow>
        (case str (jget b ''type'') of
           None \<Rightarrow> st
         | Some ty \<Rightarrow>
             (let cid = str (jget b ''id''); name = str (jget b ''name''); server = str (jget b ''server_name'');
                  args = stringify (nullish (jget b ''input'') (JObj []))
              in if ty = ''tool_use'' \<and> cid \<noteq> None \<and> name \<noteq> None
                 then (AList.update (the cid) \<lparr> rs_identity = function_tool (the name), rs_args = args \<rparr> calls, out)
                 else if ty = ''mcp_tool_use'' \<and> cid \<noteq> None \<and> server \<noteq> None \<and> name \<noteq> None
                 then (AList.update (the cid)
                         \<lparr> rs_identity = mcp_tool (the server) (the name), rs_args = args \<rparr> calls, out)
                 else if ty = ''tool_result'' \<or> ty = ''mcp_tool_result''
                 then (calls, out @ [call_for calls (str (jget b ''tool_use_id''))])
                 else if suffix ''_tool_result'' ty
                 then (calls, out @ [\<lparr> rs_identity = hosted_tool (take (length ty - length ''_tool_result'') ty),
                                      rs_args = [] \<rparr>])
                 else st)))"

definition anthropic_sources :: "(js \<Rightarrow> string) \<Rightarrow> js \<Rightarrow> result_source list" where
  "anthropic_sources stringify body =
     snd (fold (anthropic_source_step stringify)
            (concat (map (\<lambda>m. arr (jget m ''content'')) (arr (jget body ''messages'')))) ([], []))"

definition anthropic_rejection :: "string \<Rightarrow> js" where
  "anthropic_rejection message =
     JObj [(''type'', JStr ''error''),
           (''error'', JObj [(''type'', JStr ''permission_error''), (''message'', JStr message)])]"

section \<open>Lemmas\<close>

lemma plan_server_drop_mono: "n \<in> set (drop_server pl) \<Longrightarrow> n \<in> set (drop_server (plan_server ts bl nw s pl))"
  by (auto simp: plan_server_def Let_def split: option.splits)

lemma plan_servers_drop_mono:
  "n \<in> set (drop_server pl) \<Longrightarrow> n \<in> set (drop_server (fold (plan_server ts bl nw) ss pl))"
  by (induction ss arbitrary: pl) (auto intro: plan_server_drop_mono)

lemma plan_servers_drop_blocked:
  "s \<in> set ss \<Longrightarrow> str (jget s ''name'') = Some n \<Longrightarrow> mcp_server n \<in> set bl \<Longrightarrow>
   n \<in> set (drop_server (fold (plan_server ts bl nw) ss pl))"
proof (induction ss arbitrary: pl)
  case (Cons s' ss)
  show ?case
  proof (cases "s = s'")
    case True
    have "n \<in> set (drop_server (plan_server ts bl nw s pl))"
      using Cons.prems by (simp add: plan_server_def)
    with True show ?thesis by (simp add: plan_servers_drop_mono)
  qed (use Cons in auto)
qed simp

lemma mcp_toolset_for_is_toolset: "mcp_toolset_for ts n = Some t \<Longrightarrow> is_toolset t"
  unfolding mcp_toolset_for_def by (auto simp: find_Some_iff)

lemma is_toolset_rewrite [simp]: "is_toolset (rewrite_toolset t ns) = is_toolset t"
  by (simp add: is_toolset_def rewrite_toolset_def Let_def)

lemma plan_server_rewritten:
  "(\<And>n r. map_of (rewritten pl) n = Some r \<Longrightarrow> is_toolset r) \<Longrightarrow>
   map_of (rewritten (plan_server ts bl nw s pl)) n = Some r \<Longrightarrow> is_toolset r"
  by (auto simp: plan_server_def Let_def mcp_toolset_for_is_toolset split: option.splits if_splits)

lemma plan_servers_rewritten:
  "(\<And>n r. map_of (rewritten pl) n = Some r \<Longrightarrow> is_toolset r) \<Longrightarrow>
   map_of (rewritten (fold (plan_server ts bl nw) ss pl)) n = Some r \<Longrightarrow> is_toolset r"
proof (induction ss arbitrary: pl)
  case (Cons s ss)
  show ?case
    using Cons.prems(2) by (intro Cons.IH [of "plan_server ts bl nw s pl"])
      (auto intro: plan_server_rewritten [OF Cons.prems(1)])
qed simp

definition anthropic_plan :: "js \<Rightarrow> tool_identity list \<Rightarrow> (string \<times> string list) list \<Rightarrow> server_plan" where
  "anthropic_plan body blocked narrow =
     fold (plan_server (arr (jget body ''tools'')) blocked narrow) (arr (jget body ''mcp_servers''))
       \<lparr> drop_server = [], rewritten = [] \<rparr>"

lemma anthropic_plan_rewritten:
  "map_of (rewritten (anthropic_plan body bl nw)) n = Some r \<Longrightarrow> is_toolset r"
  unfolding anthropic_plan_def by (erule plan_servers_rewritten [rotated]) simp

lemma anthropic_strip_fields:
  "arr (jget (anthropic_strip body blocked narrow) ''tools'') =
   collect_some (anthropic_strip_tool (anthropic_plan body blocked narrow) blocked) (arr (jget body ''tools''))"
  "arr (jget (anthropic_strip body blocked narrow) ''mcp_servers'') =
   filter (server_kept (anthropic_plan body blocked narrow)) (arr (jget body ''mcp_servers''))"
  by (simp_all add: anthropic_strip_def Let_def anthropic_plan_def)

lemma anthropic_strip_tool_removes:
  assumes "anthropic_strip_tool (anthropic_plan body bl nw) bl t = Some t'"
    and "anthropic_declared_tool t' = Some i"
  shows "i \<notin> set bl"
  using assms
  by (auto simp: anthropic_strip_tool_def anthropic_declared_tool_def dest: anthropic_plan_rewritten
      split: if_splits option.splits)

lemma anthropic_strip_removes:
  assumes "i \<in> set (anthropic_declared (anthropic_strip body bl nw))"
  shows "i \<notin> set bl"
proof -
  consider t t' where "anthropic_strip_tool (anthropic_plan body bl nw) bl t = Some t'" "anthropic_declared_tool t' = Some i"
    | s n where "s \<in> set (arr (jget body ''mcp_servers''))" "str (jget s ''name'') = Some n"
        "n \<notin> set (drop_server (anthropic_plan body bl nw))" "i = mcp_server n"
    using assms
    by (auto simp: anthropic_declared_def anthropic_strip_fields set_collect_some anthropic_server_id_def server_kept_def)
  then show ?thesis
  proof cases
    case 1
    then show ?thesis by (rule anthropic_strip_tool_removes)
  next
    case 2
    then show ?thesis
      using plan_servers_drop_blocked unfolding anthropic_plan_def by blast
  qed
qed

lemma anthropic_plan_empty:
  assumes "set (collect_some anthropic_server_id ss) \<inter> set bl = {}"
  shows "fold (plan_server ts bl []) ss pl = pl"
  using assms
proof (induction ss arbitrary: pl)
  case (Cons s ss)
  have "plan_server ts bl [] s pl = pl"
    using Cons.prems by (auto simp: plan_server_def anthropic_server_id_def split: option.splits)
  moreover have "set (collect_some anthropic_server_id ss) \<inter> set bl = {}"
    using Cons.prems by (auto split: option.splits)
  ultimately show ?case using Cons.IH by simp
qed simp

lemma anthropic_strip_transparent:
  assumes "set (anthropic_declared body) \<inter> set bl = {}"
  shows "anthropic_declared (anthropic_strip body bl []) = anthropic_declared body"
proof -
  have p: "anthropic_plan body bl [] = \<lparr> drop_server = [], rewritten = [] \<rparr>"
    unfolding anthropic_plan_def
    by (rule anthropic_plan_empty) (use assms in \<open>auto simp: anthropic_declared_def\<close>)
  have "collect_some (anthropic_strip_tool \<lparr> drop_server = [], rewritten = [] \<rparr> bl) ts = ts"
    if "set (collect_some anthropic_declared_tool ts) \<inter> set bl = {}" for ts
    using that
    by (induction ts) (auto simp: anthropic_strip_tool_def anthropic_declared_tool_def split: option.splits if_splits)
  moreover have "set (collect_some anthropic_declared_tool (arr (jget body ''tools''))) \<inter> set bl = {}"
    using assms by (auto simp: anthropic_declared_def)
  moreover have "filter (server_kept \<lparr> drop_server = [], rewritten = [] \<rparr>) ss = ss" for ss
    by (rule filter_True) (simp add: server_kept_def split: option.splits)
  ultimately show ?thesis
    by (simp add: anthropic_declared_def anthropic_strip_fields p)
qed

lemma anthropic_note_declared: "anthropic_declared (anthropic_note body bl tb) = anthropic_declared body"
  by (simp add: anthropic_note_def Let_def anthropic_declared_def)

lemma anthropic_note_idem: "anthropic_note (anthropic_note body bl tb) bl tb = anthropic_note body bl tb"
proof (cases "is_arr (jget body ''system'')")
  case True
  then show ?thesis
    by (simp add: anthropic_note_def Let_def)
next
  case False
  then show ?thesis
    by (simp add: anthropic_note_def Let_def)
qed

interpretation anthropic: tool_adapter anthropic_declared anthropic_strip anthropic_note
  by unfold_locales
     (simp_all add: anthropic_strip_removes anthropic_strip_transparent anthropic_note_declared anthropic_note_idem)

end
