(* ===== verification/Adapter_Bedrock.thy ===== *)
theory Adapter_Bedrock
  imports Adapter_Anthropic
begin

text \<open>
  The adapter of the Bedrock family (\<open>toolGovernance/adapters/bedrock.ts\<close>): an Anthropic body
  goes to the Anthropic adapter, a Converse body declares its tools in \<open>toolConfig.tools\<close>.
\<close>

definition is_anthropic :: "js \<Rightarrow> bool" where
  "is_anthropic body = is_str (jget body ''anthropic_version'')"

definition PLACEHOLDER_TOOL :: string where
  "PLACEHOLDER_TOOL = ''auto_detected_tool''"

definition spec_name :: "js \<Rightarrow> string option" where
  "spec_name t = str (jpath t [''toolSpec'', ''name''])"

definition spec_id :: "js \<Rightarrow> tool_identity option" where
  "spec_id t = map_option function_tool (spec_name t)"

definition used_tools :: "js \<Rightarrow> bool" where
  "used_tools body =
     list_ex (\<lambda>m. list_ex (\<lambda>b. truthy (jget b ''toolUse'') \<or> truthy (jget b ''toolResult''))
                    (arr (jget m ''content'')))
       (arr (jget body ''messages''))"

definition converse_calls :: "js \<Rightarrow> tool_identity list" where
  "converse_calls message =
     collect_some
       (\<lambda>b. case str (jpath b [''toolUse'', ''name'']) of
              None \<Rightarrow> None
            | Some n \<Rightarrow> if n \<noteq> PLACEHOLDER_TOOL then Some (function_tool n) else None)
       (arr (jget message ''content''))"

definition chunk_tools :: "js \<Rightarrow> tool_identity list" where
  "chunk_tools chunk =
     (case str (jpath chunk [''contentBlockStart'', ''start'', ''toolUse'', ''name'']) of
        Some native \<Rightarrow> if native = PLACEHOLDER_TOOL then [] else [function_tool native]
      | None \<Rightarrow> filter (\<lambda>i. i \<noteq> function_tool PLACEHOLDER_TOOL) (anthropic_invoked_chunk chunk))"

definition bedrock_tools :: "js \<Rightarrow> js" where
  "bedrock_tools body = jpath body [''toolConfig'', ''tools'']"

definition bedrock_declared :: "js \<Rightarrow> tool_identity list" where
  "bedrock_declared body =
     (if is_anthropic body then anthropic_declared body
      else collect_some spec_id (arr (bedrock_tools body)))"

definition bedrock_forced :: "js \<Rightarrow> tool_identity option" where
  "bedrock_forced body =
     (if is_anthropic body then anthropic_forced body
      else map_option function_tool (str (jpath body [''toolConfig'', ''toolChoice'', ''tool'', ''name''])))"

text \<open>The \<open>toolConfig\<close> with the tools left; a choice that forces a tool no longer there goes.\<close>

definition bedrock_config :: "js \<Rightarrow> js list \<Rightarrow> js" where
  "bedrock_config config tools =
     (let cfg = jset ''tools'' (JArr tools) config in
      case str (jpath cfg [''toolChoice'', ''tool'', ''name'']) of
        None \<Rightarrow> cfg
      | Some forced \<Rightarrow> if list_ex (\<lambda>t. spec_name t = Some forced) tools then cfg else jdel ''toolChoice'' cfg)"

definition bedrock_strip :: "js \<Rightarrow> tool_identity list \<Rightarrow> (string \<times> string list) list \<Rightarrow> js" where
  "bedrock_strip body blocked narrow =
     (if is_anthropic body then anthropic_strip body blocked narrow
      else if \<not> is_arr (bedrock_tools body) then jcopy body
      else let tools = keep_unblocked spec_id blocked (arr (bedrock_tools body)) in
        if tools = [] then jdel ''toolConfig'' (jcopy body)
        else jset ''toolConfig'' (bedrock_config (jget body ''toolConfig'') tools) (jcopy body))"

definition STRIP_REFUSAL :: string where
  "STRIP_REFUSAL =
     ''every tool of this request is withheld, and Bedrock refuses a conversation that already used ''
     @ ''tools without any tool definitions''"

definition bedrock_strip_refusal :: "js \<Rightarrow> tool_identity list \<Rightarrow> string option" where
  "bedrock_strip_refusal body blocked =
     (if is_anthropic body \<or> \<not> is_arr (bedrock_tools body) \<or> \<not> used_tools body then None
      else if keep_unblocked spec_id blocked (arr (bedrock_tools body)) = [] then Some STRIP_REFUSAL else None)"

definition bedrock_note :: "js \<Rightarrow> tool_identity list \<Rightarrow> tool_identity list \<Rightarrow> js" where
  "bedrock_note body blocked tainted_by =
     (if is_anthropic body then anthropic_note body blocked tainted_by
      else if blocked = [] then body
      else let system = arr (jget body ''system'') in
        if list_ex (\<lambda>b. carries_notice (jget b ''text'')) system then body
        else jset ''system'' (JArr (system @ [JObj [(''text'', JStr (strip_notice blocked tainted_by))]])) body)"

definition bedrock_invoked :: "js \<Rightarrow> tool_identity list" where
  "bedrock_invoked payload =
     (if truthy (jpath payload [''output'', ''message'']) then converse_calls (jpath payload [''output'', ''message''])
      else filter (\<lambda>i. i \<noteq> function_tool PLACEHOLDER_TOOL) (anthropic_invoked payload))"

definition bedrock_invoked_chunk :: "js \<Rightarrow> tool_identity list" where
  "bedrock_invoked_chunk chunk = chunk_tools chunk"

definition bedrock_invoked_stream :: "(string \<Rightarrow> js option) \<Rightarrow> string \<Rightarrow> tool_identity list" where
  "bedrock_invoked_stream parse text =
     concat (map (\<lambda>line.
       let payload = trim (if prefix ''data:'' line then drop 5 line else line) in
       if \<not> prefix ''{'' payload then []
       else case parse payload of None \<Rightarrow> [] | Some c \<Rightarrow> chunk_tools c)
       (split_char (CHR 0x0A) text))"

definition bedrock_source_step ::
  "(js \<Rightarrow> string) \<Rightarrow> js \<Rightarrow> (string \<times> result_source) list \<times> result_source list
   \<Rightarrow> (string \<times> result_source) list \<times> result_source list" where
  "bedrock_source_step stringify b st =
     (case st of (calls, out) \<Rightarrow>
        let tool_use = jget b ''toolUse''; tool_result = jget b ''toolResult'';
            cid = str (jget tool_use ''toolUseId''); name = str (jget tool_use ''name'')
        in if truthy tool_use \<and> cid \<noteq> None \<and> name \<noteq> None
           then (AList.update (the cid)
                   \<lparr> rs_identity = function_tool (the name),
                     rs_args = stringify (nullish (jget tool_use ''input'') (JObj [])) \<rparr> calls, out)
           else if truthy tool_result
           then (calls, out @ [call_for calls (str (jget tool_result ''toolUseId''))])
           else st)"

definition bedrock_sources :: "(js \<Rightarrow> string) \<Rightarrow> js \<Rightarrow> result_source list" where
  "bedrock_sources stringify body =
     (if is_anthropic body then anthropic_sources stringify body
      else snd (fold (bedrock_source_step stringify)
                  (concat (map (\<lambda>m. arr (jget m ''content'')) (arr (jget body ''messages'')))) ([], [])))"

definition bedrock_rejection :: "string \<Rightarrow> js" where
  "bedrock_rejection message = JObj [(''message'', JStr message)]"

definition bedrock_rejection_headers :: "(string \<times> string) list" where
  "bedrock_rejection_headers = [(''x-amzn-ErrorType'', ''AccessDeniedException'')]"

section \<open>Lemmas\<close>

lemma anthropic_strip_other_field:
  "k \<noteq> ''tools'' \<Longrightarrow> k \<noteq> ''mcp_servers'' \<Longrightarrow> jget (anthropic_strip body blocked narrow) k = jget body k"
  by (simp add: anthropic_strip_def Let_def jget_set_or_delete)

lemma bedrock_config_tools [simp]: "jget (bedrock_config config tools) ''tools'' = JArr tools"
  by (simp add: bedrock_config_def Let_def split: option.splits)

lemma is_anthropic_strip [simp]: "is_anthropic (bedrock_strip body blocked narrow) = is_anthropic body"
  by (simp add: bedrock_strip_def is_anthropic_def anthropic_strip_other_field Let_def)

lemma is_anthropic_note [simp]: "is_anthropic (bedrock_note body bl tb) = is_anthropic body"
  by (simp add: bedrock_note_def is_anthropic_def anthropic_note_def Let_def)

lemma bedrock_tools_strip:
  "\<not> is_anthropic body \<Longrightarrow>
   arr (bedrock_tools (bedrock_strip body blocked narrow)) = keep_unblocked spec_id blocked (arr (bedrock_tools body))"
  by (cases "is_arr (bedrock_tools body)")
     (simp_all add: bedrock_strip_def Let_def bedrock_tools_def keep_unblocked_def)

lemma bedrock_declared_strip:
  "bedrock_declared (bedrock_strip body blocked narrow) =
   (if is_anthropic body then anthropic_declared (anthropic_strip body blocked narrow)
    else collect_some spec_id (keep_unblocked spec_id blocked (arr (bedrock_tools body))))"
  using is_anthropic_strip [of body blocked narrow]
  by (auto simp: bedrock_declared_def bedrock_tools_strip) (simp add: bedrock_strip_def)

lemma bedrock_note_declared: "bedrock_declared (bedrock_note body bl tb) = bedrock_declared body"
  using is_anthropic_note [of body bl tb]
  by (auto simp: bedrock_declared_def bedrock_note_def bedrock_tools_def Let_def anthropic_note_declared)

lemma bedrock_note_idem: "bedrock_note (bedrock_note body bl tb) bl tb = bedrock_note body bl tb"
proof (cases "is_anthropic body")
  case True
  then show ?thesis
    using is_anthropic_note [of body bl tb] by (simp add: bedrock_note_def anthropic_note_idem)
next
  case False
  then have "\<not> is_anthropic (bedrock_note body bl tb)" by simp
  with False show ?thesis
    by (simp add: bedrock_note_def [of "bedrock_note body bl tb"]) (simp add: bedrock_note_def Let_def)
qed

interpretation bedrock: tool_adapter bedrock_declared bedrock_strip bedrock_note
proof (unfold_locales, goal_cases)
  case (1 blocked narrow i body)
  then show ?case
    by (auto simp: bedrock_declared_strip dest: anthropic_strip_removes collect_keep_unblocked split: if_splits)
next
  case (2 body blocked)
  then show ?case
    by (cases "is_anthropic body")
       (simp_all add: bedrock_declared_strip bedrock_declared_def [of body] anthropic_strip_transparent keep_unblocked_all)
next
  case (3 body bl tb)
  show ?case by (rule bedrock_note_declared)
next
  case (4 body bl tb)
  show ?case by (rule bedrock_note_idem)
qed

end
