(* ===== verification/Adapter_Responses.thy ===== *)
theory Adapter_Responses
  imports Adapter_OpenAI
begin

text \<open>
  The adapter of the OpenAI Responses family (\<open>toolGovernance/adapters/responses.ts\<close>): function
  tools, hosted tools (named or not) and MCP servers with an optional list of allowed tools, and
  the container calls that reach MCP tools from inside a program.
\<close>

definition allowed_tool_names :: "js \<Rightarrow> string list" where
  "allowed_tool_names t =
     (let a = jget t ''allowed_tools'' in
      if is_arr a then collect_some jstring (arr a)
      else collect_some jstring (arr (jget a ''tool_names'')))"

definition declared_of :: "js \<Rightarrow> tool_identity list" where
  "declared_of t =
     (case str (jget t ''type'') of
        None \<Rightarrow> []
      | Some ty \<Rightarrow>
          if ty = ''function'' then
            (case str (jget t ''name'') of None \<Rightarrow> [] | Some n \<Rightarrow> [function_tool n])
          else if ty = ''mcp'' then
            (case str (jget t ''server_label'') of
               None \<Rightarrow> []
             | Some label \<Rightarrow> mcp_server label # map (mcp_tool label) (allowed_tool_names t))
          else (case str (jget t ''name'') of
                  None \<Rightarrow> [hosted_tool ty]
                | Some n \<Rightarrow> [hosted_tool ty, hosted_named_tool ty n]))"

text \<open>\<open>HOSTED_CALL_TYPES[type] ?? type.slice(0, -'_call'.length)\<close>\<close>

definition HOSTED_CALL_TYPES :: "(string \<times> string) list" where
  "HOSTED_CALL_TYPES = [(''computer_call'', ''computer_use_preview'')]"

definition hosted_call_type :: "string \<Rightarrow> string" where
  "hosted_call_type ty =
     (case map_of HOSTED_CALL_TYPES ty of Some t \<Rightarrow> t | None \<Rightarrow> take (length ty - 5) ty)"

definition output_item_identity :: "js \<Rightarrow> tool_identity option" where
  "output_item_identity item =
     (case str (jget item ''type'') of
        None \<Rightarrow> None
      | Some ty \<Rightarrow>
          (let name = str (jget item ''name'') in
           if ty = ''function_call'' then map_option function_tool name
           else if ty = ''mcp_call'' then
             (case (str (jget item ''server_label''), name) of (Some s, Some n) \<Rightarrow> Some (mcp_tool s n) | _ \<Rightarrow> None)
           else if ty = ''custom_tool_call'' then
             (case name of Some n \<Rightarrow> Some (hosted_named_tool ''custom'' n) | None \<Rightarrow> Some (hosted_tool ''custom''))
           else if suffix ''_call'' ty then Some (hosted_tool (hosted_call_type ty))
           else None))"

definition responses_declared :: "js \<Rightarrow> tool_identity list" where
  "responses_declared body = concat (map declared_of (arr (jget body ''tools'')))"

definition responses_forced :: "js \<Rightarrow> tool_identity option" where
  "responses_forced body =
     (let tc = jget body ''tool_choice''; name = str (jget tc ''name'') in
      if \<not> is_objectish tc then None
      else if jget tc ''type'' = JStr ''function'' \<and> name \<noteq> None then map_option function_tool name
      else if jget tc ''type'' = JStr ''mcp'' then
        (case str (jget tc ''server_label'') of
           None \<Rightarrow> None
         | Some label \<Rightarrow> (case name of None \<Rightarrow> Some (mcp_server label) | Some n \<Rightarrow> Some (mcp_tool label n)))
      else None)"

text \<open>One declared tool under \<open>stripTools\<close>: \<open>None\<close> when it is dropped.\<close>

definition strip_mcp_tool ::
  "tool_identity list \<Rightarrow> (string \<times> string list) list \<Rightarrow> string \<Rightarrow> js \<Rightarrow> js option" where
  "strip_mcp_tool blocked narrow label t =
     (if mcp_server label \<in> set blocked then None
      else let names = allowed_tool_names t;
               kept = filter (\<lambda>n. mcp_tool label n \<notin> set blocked) names;
               strip_names =
                 (if length kept = length names then t
                  else if is_arr (jget t ''allowed_tools'')
                  then jset ''allowed_tools'' (JArr (map JStr kept)) t
                  else jset ''allowed_tools''
                         (jset ''tool_names'' (JArr (map JStr kept)) (jget t ''allowed_tools'')) t)
           in case map_of narrow label of
                None \<Rightarrow> Some strip_names
              | Some limit \<Rightarrow>
                  if names \<noteq> [] then Some strip_names
                  else if limit \<noteq> [] then Some (jset ''allowed_tools'' (JArr (map JStr limit)) t)
                  else None)"

definition responses_strip_tool ::
  "tool_identity list \<Rightarrow> (string \<times> string list) list \<Rightarrow> js \<Rightarrow> js option" where
  "responses_strip_tool blocked narrow t =
     (case (str (jget t ''type''), str (jget t ''server_label'')) of
        (Some ty, Some label) \<Rightarrow>
          if ty = ''mcp'' then strip_mcp_tool blocked narrow label t
          else if list_ex (\<lambda>i. i \<in> set blocked) (declared_of t) then None else Some t
      | _ \<Rightarrow> if list_ex (\<lambda>i. i \<in> set blocked) (declared_of t) then None else Some t)"

text \<open>The \<open>tool_choice\<close> left dangling by a strip.\<close>

definition fix_tool_choice :: "js list \<Rightarrow> js \<Rightarrow> js" where
  "fix_tool_choice tools out =
     (let tc = jget out ''tool_choice'' in
      if jget out ''tools'' = JUndef then
        (if tc = JStr ''required'' \<or> is_objectish tc then jdel ''tool_choice'' out else out)
      else if is_objectish tc \<and> str (jget tc ''type'') = Some ''allowed_tools'' \<and> is_arr (jget tc ''tools'') then
        (let surviving = concat (map declared_of tools);
             kept = filter (\<lambda>t. list_ex (\<lambda>i. i \<in> set surviving) (declared_of t)) (arr (jget tc ''tools''))
         in if kept \<noteq> [] then jset ''tool_choice'' (jset ''tools'' (JArr kept) tc) out
            else jdel ''tool_choice'' out)
      else out)"

definition responses_strip :: "js \<Rightarrow> tool_identity list \<Rightarrow> (string \<times> string list) list \<Rightarrow> js" where
  "responses_strip body blocked narrow =
     (if \<not> is_arr (jget body ''tools'') then jcopy body
      else let tools = collect_some (responses_strip_tool blocked narrow) (arr (jget body ''tools''))
           in fix_tool_choice tools (set_or_delete ''tools'' tools (jcopy body)))"

definition responses_note :: "js \<Rightarrow> tool_identity list \<Rightarrow> tool_identity list \<Rightarrow> js" where
  "responses_note body blocked tainted_by =
     (if blocked = [] \<or> carries_notice (jget body ''instructions'') then body
      else jset ''instructions'' (JStr (append_notice (jget body ''instructions'') blocked tainted_by)) body)"

definition responses_invoked :: "js \<Rightarrow> tool_identity list" where
  "responses_invoked payload = collect_some output_item_identity (arr (jget payload ''output''))"

text \<open>The payload of \<open>nestedInvokedTools\<close> is a response or the raw text of a stream.\<close>

datatype payload = Whole js | Raw string

definition payload_items :: "(string \<Rightarrow> js option) \<Rightarrow> payload \<Rightarrow> js list" where
  "payload_items parse p =
     (case p of
        Raw sse \<Rightarrow>
          map (\<lambda>c. jget c ''item'')
            (filter (\<lambda>c. jget c ''type'' = JStr ''response.output_item.done'') (sse_chunks parse sse))
      | Whole v \<Rightarrow> arr (jget v ''output''))"

definition call_body :: "js \<Rightarrow> string" where
  "call_body item =
     (case jget item ''arguments'' of JStr s \<Rightarrow> s
      | _ \<Rightarrow> (case jget item ''input'' of JStr s \<Rightarrow> s | _ \<Rightarrow> []))"

definition responses_nested ::
  "(string \<Rightarrow> js option) \<Rightarrow> payload \<Rightarrow> resolved_convention \<Rightarrow> tool_identity list" where
  "responses_nested parse p conv =
     (if conv_container_tools conv = [] then []
      else fold (\<lambda>item out. if is_container_tool (str (jget item ''name'')) conv
                            then push_all_new (nested_calls_in (call_body item) conv) out else out)
             (payload_items parse p) [])"

definition responses_invoked_chunk :: "js \<Rightarrow> tool_identity list" where
  "responses_invoked_chunk chunk =
     (if jget chunk ''type'' \<noteq> JStr ''response.output_item.done'' then []
      else case output_item_identity (jget chunk ''item'') of None \<Rightarrow> [] | Some i \<Rightarrow> [i])"

definition responses_invoked_stream :: "(string \<Rightarrow> js option) \<Rightarrow> string \<Rightarrow> tool_identity list" where
  "responses_invoked_stream parse text = concat (map responses_invoked_chunk (sse_chunks parse text))"

definition responses_source_step ::
  "js \<Rightarrow> (string \<times> result_source) list \<times> result_source list
   \<Rightarrow> (string \<times> result_source) list \<times> result_source list" where
  "responses_source_step item st =
     (case st of (calls, out) \<Rightarrow>
        (case str (jget item ''type'') of
           None \<Rightarrow> st
         | Some ty \<Rightarrow>
             (let call_id = str (jget item ''call_id''); name = str (jget item ''name'');
                  server = str (jget item ''server_label'')
              in if ty = ''function_call'' then
                   (if call_id \<noteq> None \<and> name \<noteq> None
                    then (AList.update (the call_id)
                            \<lparr> rs_identity = function_tool (the name),
                              rs_args = string_or_empty (jget item ''arguments'') \<rparr> calls, out)
                    else st)
                 else if ty = ''custom_tool_call'' then
                   (if call_id \<noteq> None \<and> name \<noteq> None
                    then (AList.update (the call_id)
                            \<lparr> rs_identity = hosted_named_tool ''custom'' (the name),
                              rs_args = string_or_empty (jget item ''input'') \<rparr> calls, out)
                    else st)
                 else if ty = ''function_call_output'' \<or> ty = ''custom_tool_call_output''
                 then (calls, out @ [call_for calls call_id])
                 else if ty = ''mcp_call'' then
                   (if server \<noteq> None \<and> name \<noteq> None \<and> jget item ''output'' \<noteq> JUndef \<and> jget item ''output'' \<noteq> JNull
                    then (calls, out @ [\<lparr> rs_identity = mcp_tool (the server) (the name), rs_args = [] \<rparr>])
                    else st)
                 else if suffix ''_call'' ty
                 then (calls, out @ [\<lparr> rs_identity = hosted_tool (hosted_call_type ty), rs_args = [] \<rparr>])
                 else st)))"

definition responses_sources :: "js \<Rightarrow> result_source list" where
  "responses_sources body = snd (fold responses_source_step (arr (jget body ''input'')) ([], []))"

definition responses_rejection :: "string \<Rightarrow> js" where
  "responses_rejection message =
     JObj [(''error'', JObj [(''message'', JStr message), (''type'', JStr ''invalid_request_error''),
                             (''code'', JStr ''tool_not_entitled'')])]"

section \<open>Lemmas\<close>

lemma collect_jstring [simp]: "collect_some jstring (map JStr ns) = ns"
  by (induction ns) auto

lemma allowed_tool_names_set [simp]:
  "allowed_tool_names (jset ''allowed_tools'' (JArr (map JStr ns)) t) = ns"
  "allowed_tool_names (jset ''allowed_tools'' (jset ''tool_names'' (JArr (map JStr ns)) a) t) = ns"
  by (simp_all add: allowed_tool_names_def Let_def jset_def)

lemma declared_of_mcp:
  "str (jget t ''type'') = Some ''mcp'' \<Longrightarrow> str (jget t ''server_label'') = Some label \<Longrightarrow>
   declared_of t = mcp_server label # map (mcp_tool label) (allowed_tool_names t)"
  by (simp add: declared_of_def)

lemma strip_mcp_tool_declared:
  assumes ty: "str (jget t ''type'') = Some ''mcp''" and lab: "str (jget t ''server_label'') = Some label"
    and s: "strip_mcp_tool blocked narrow label t = Some t'"
  shows "mcp_server label \<notin> set blocked \<and>
         declared_of t' = mcp_server label # map (mcp_tool label)
           (if allowed_tool_names t = [] then (case map_of narrow label of None \<Rightarrow> [] | Some limit \<Rightarrow> limit)
            else filter (\<lambda>n. mcp_tool label n \<notin> set blocked) (allowed_tool_names t))"
proof -
  have len: "length (filter P ns) = length ns \<Longrightarrow> filter P ns = ns" for P and ns :: "string list"
    by (metis filter_True length_filter_less less_irrefl)
  let ?names = "allowed_tool_names t"
  let ?kept = "filter (\<lambda>n. mcp_tool label n \<notin> set blocked) ?names"
  let ?st = "if length ?kept = length ?names then t
     else if is_arr (jget t ''allowed_tools'') then jset ''allowed_tools'' (JArr (map JStr ?kept)) t
     else jset ''allowed_tools'' (jset ''tool_names'' (JArr (map JStr ?kept)) (jget t ''allowed_tools'')) t"
  have st: "declared_of ?st = mcp_server label # map (mcp_tool label) ?kept"
    using ty lab len [of "\<lambda>n. mcp_tool label n \<notin> set blocked" ?names] by (auto simp: declared_of_mcp)
  have nb: "mcp_server label \<notin> set blocked"
    using s by (auto simp: strip_mcp_tool_def split: if_splits)
  show ?thesis
  proof (cases "map_of narrow label")
    case None
    then have "t' = ?st" using s nb by (simp add: strip_mcp_tool_def Let_def)
    with st nb None show ?thesis by auto
  next
    case (Some limit)
    show ?thesis
    proof (cases "?names = []")
      case True
      then have "limit \<noteq> []" "t' = jset ''allowed_tools'' (JArr (map JStr limit)) t"
        using s nb Some by (auto simp: strip_mcp_tool_def Let_def split: if_splits)
      with True Some nb ty lab show ?thesis by (simp add: declared_of_mcp)
    next
      case False
      then have "t' = ?st" using s nb Some by (simp add: strip_mcp_tool_def Let_def)
      with st nb False show ?thesis by simp
    qed
  qed
qed

lemma responses_strip_tool_cases:
  assumes "responses_strip_tool blocked narrow t = Some t'"
  obtains (mcp) label where "str (jget t ''type'') = Some ''mcp''" "str (jget t ''server_label'') = Some label"
      "strip_mcp_tool blocked narrow label t = Some t'"
    | (keep) "t' = t" "set (declared_of t) \<inter> set blocked = {}"
  using assms by (auto simp: responses_strip_tool_def list_ex_iff split: option.splits if_splits)

lemma responses_strip_tool_removes:
  assumes "responses_strip_tool blocked narrow t = Some t'" and "compatible blocked narrow"
    and "i \<in> set (declared_of t')"
  shows "i \<notin> set blocked"
  using assms(1)
proof (cases rule: responses_strip_tool_cases)
  case (mcp label)
  from strip_mcp_tool_declared [OF this] assms(2,3) show ?thesis
    by (auto dest: compatibleD split: if_splits option.splits)
qed (use assms(3) in blast)

lemma responses_strip_tool_same:
  assumes "set (declared_of t) \<inter> set blocked = {}"
  shows "responses_strip_tool blocked [] t = Some t"
proof -
  have "strip_mcp_tool blocked [] label t = Some t"
    if "str (jget t ''type'') = Some ''mcp''" "str (jget t ''server_label'') = Some label" for label
  proof -
    have "filter (\<lambda>n. mcp_tool label n \<notin> set blocked) (allowed_tool_names t) = allowed_tool_names t"
      by (rule filter_True) (use assms that in \<open>auto simp: declared_of_mcp\<close>)
    then show ?thesis
      using assms that by (simp add: strip_mcp_tool_def Let_def declared_of_mcp)
  qed
  then show ?thesis
    using assms by (auto simp: responses_strip_tool_def list_ex_iff split: option.splits)
qed

lemma fix_tool_choice_field:
  "k \<noteq> ''tool_choice'' \<Longrightarrow> jget (fix_tool_choice tools out) k = jget out k"
  by (simp add: fix_tool_choice_def Let_def)

lemma responses_strip_tools_field:
  "arr (jget (responses_strip body blocked narrow) ''tools'') =
   collect_some (responses_strip_tool blocked narrow) (arr (jget body ''tools''))"
  by (simp add: responses_strip_def Let_def fix_tool_choice_field)

interpretation responses: tool_adapter responses_declared responses_strip responses_note
proof (unfold_locales, goal_cases)
  case (1 blocked narrow i body)
  then show ?case
    by (auto simp: responses_declared_def responses_strip_tools_field
        set_collect_some dest: responses_strip_tool_removes)
next
  case (2 body blocked)
  have "collect_some (responses_strip_tool blocked []) ts = ts"
    if "set (concat (map declared_of ts)) \<inter> set blocked = {}" for ts
    using that
  proof (induction ts)
    case (Cons t ts)
    then have "responses_strip_tool blocked [] t = Some t"
      by (intro responses_strip_tool_same) auto
    moreover have "collect_some (responses_strip_tool blocked []) ts = ts"
      using Cons by auto
    ultimately show ?case by simp
  qed simp
  with 2 show ?case
    by (simp add: responses_declared_def responses_strip_tools_field)
next
  case (3 body bl tb)
  show ?case by (simp add: responses_note_def responses_declared_def)
next
  case (4 body bl tb)
  show ?case by (simp add: responses_note_def)
qed

end
