(* ===== verification/Governance.thy ===== *)
theory Governance
  imports Tool_Policy Adapter_Gemini Adapter_Bedrock Adapter_Responses
begin

text \<open>
  The governance middleware (\<open>toolGovernance/middleware.ts\<close>), the choice of the adapter
  (\<open>toolGovernance/adapters/index.ts\<close>) and the request-scoped record of the tools a response
  invoked (\<open>toolGovernance/record.ts\<close>).

  The middleware is a function from the request to its outcome: the governance state it leaves
  on the request, the body it forwards, the security event it emits and the 403 it sends. The
  event's transport metadata (client address, request id, the log lines) are not part of it. The
  entries of \<open>allow\<close> and \<open>deny\<close> are strings, as the admin service validates them; on such blocks
  no step of the evaluation throws, so the fail-open branch has no counterpart.
\<close>

section \<open>The adapters by family\<close>

datatype family = Anthropic | OpenAI_Chat | Responses | Gemini | Bedrock

record adapter =
  ad_family :: family
  ad_declared :: "js \<Rightarrow> tool_identity list"
  ad_forced :: "js \<Rightarrow> tool_identity option"
  ad_strip :: "js \<Rightarrow> tool_identity list \<Rightarrow> (string \<times> string list) list \<Rightarrow> js"
  ad_note :: "js \<Rightarrow> tool_identity list \<Rightarrow> tool_identity list \<Rightarrow> js"
  ad_refusal :: "js \<Rightarrow> tool_identity list \<Rightarrow> string option"
  ad_sources :: "js \<Rightarrow> result_source list"
  ad_rejection :: "string \<Rightarrow> js"
  ad_headers :: "(string \<times> string) list"

definition no_refusal :: "js \<Rightarrow> tool_identity list \<Rightarrow> string option" where
  "no_refusal body blocked = None"

definition adapter_for :: "(js \<Rightarrow> string) \<Rightarrow> family \<Rightarrow> adapter" where
  "adapter_for stringify fam =
     (case fam of
        Anthropic \<Rightarrow>
          \<lparr> ad_family = Anthropic, ad_declared = anthropic_declared, ad_forced = anthropic_forced,
            ad_strip = anthropic_strip, ad_note = anthropic_note, ad_refusal = no_refusal,
            ad_sources = anthropic_sources stringify, ad_rejection = anthropic_rejection, ad_headers = [] \<rparr>
      | OpenAI_Chat \<Rightarrow>
          \<lparr> ad_family = OpenAI_Chat, ad_declared = openai_declared, ad_forced = openai_forced,
            ad_strip = openai_strip, ad_note = openai_note, ad_refusal = no_refusal,
            ad_sources = openai_sources, ad_rejection = openai_rejection, ad_headers = [] \<rparr>
      | Responses \<Rightarrow>
          \<lparr> ad_family = Responses, ad_declared = responses_declared, ad_forced = responses_forced,
            ad_strip = responses_strip, ad_note = responses_note, ad_refusal = no_refusal,
            ad_sources = responses_sources, ad_rejection = responses_rejection, ad_headers = [] \<rparr>
      | Gemini \<Rightarrow>
          \<lparr> ad_family = Gemini, ad_declared = gemini_declared, ad_forced = gemini_forced,
            ad_strip = gemini_strip, ad_note = gemini_note, ad_refusal = no_refusal,
            ad_sources = gemini_sources, ad_rejection = gemini_rejection, ad_headers = [] \<rparr>
      | Bedrock \<Rightarrow>
          \<lparr> ad_family = Bedrock, ad_declared = bedrock_declared, ad_forced = bedrock_forced,
            ad_strip = bedrock_strip, ad_note = bedrock_note, ad_refusal = bedrock_strip_refusal,
            ad_sources = bedrock_sources stringify, ad_rejection = bedrock_rejection,
            ad_headers = bedrock_rejection_headers \<rparr>)"

section \<open>The caller's policy blocks\<close>

definition mode_of :: "js \<Rightarrow> policy_mode option" where
  "mode_of v =
     (if v = JStr ''monitor'' then Some Monitor else if v = JStr ''strip'' then Some Strip
      else if v = JStr ''reject'' then Some Reject else None)"

definition is_block :: "js \<Rightarrow> bool" where
  "is_block b =
     (is_obj b \<and> is_str (jget b ''policyId'') \<and> is_str (jget b ''policyName'') \<and> mode_of (jget b ''mode'') \<noteq> None
      \<and> is_arr (jget b ''allow'') \<and> is_arr (jget b ''deny''))"

definition string_list :: "js \<Rightarrow> string list" where
  "string_list v = collect_some jstring (arr v)"

definition with_labels :: "js \<Rightarrow> tool_policy_block" where
  "with_labels b =
     \<lparr> policy_id = the (jstring (jget b ''policyId'')), policy_name = the (jstring (jget b ''policyName'')),
       policy_mode = the (mode_of (jget b ''mode'')),
       allow = string_list (jget b ''allow''), deny = string_list (jget b ''deny''),
       sensitive = Some (string_list (jget b ''sensitive'')), untrusted = Some (string_list (jget b ''untrusted'')) \<rparr>"

definition block_from :: "js \<Rightarrow> string \<Rightarrow> tool_policy_block option" where
  "block_from data k = (if is_block (jget data k) then Some (with_labels (jget data k)) else None)"

text \<open>The blocks in the order the middleware merges them: the user's, the key's, the team's.\<close>

definition policy_blocks :: "js \<Rightarrow> tool_policy_block list" where
  "policy_blocks data = collect_some (block_from data) [''toolPolicy'', ''keyToolPolicy'', ''teamToolPolicy'']"

section \<open>The middleware\<close>

record governance_state =
  gs_result :: evaluation_result
  gs_declared :: "tool_identity list"
  gs_invoked :: "(tool_identity \<times> nat) list"
  gs_family :: family
  gs_convention :: "resolved_convention option"
  gs_blocks :: "tool_policy_block list"
  gs_nested :: "(tool_identity \<times> nat \<times> bool) list"
  gs_sources :: "tool_identity list"

datatype event_reason = Reason_Policy | Reason_Trust_Chain | Reason_Mixed

datatype event_mode = Event_Strip | Event_Reject

record policy_event =
  ev_identities :: "tool_identity list"
  ev_policy :: string
  ev_policy_id :: "string option"
  ev_mode :: event_mode
  ev_tools :: "(tool_identity \<times> decision_reason) list option"
  ev_reason :: event_reason
  ev_sources :: "tool_identity list option"

definition reason_of :: "evaluation_result \<Rightarrow> tool_identity \<Rightarrow> decision_reason" where
  "reason_of result i = (case map_of (er_reasons result) i of None \<Rightarrow> By_Policy | Some r \<Rightarrow> r)"

definition tool_policy_event ::
  "evaluation_result \<Rightarrow> tool_identity list \<Rightarrow> event_mode \<Rightarrow> policy_event" where
  "tool_policy_event result ids mode =
     (let kinds = uniq (map (reason_of result) ids) in
      \<lparr> ev_identities = ids, ev_policy = join '' + '' (er_policy_names result), ev_policy_id = er_policy_id result,
        ev_mode = mode,
        ev_tools = (if mode = Event_Reject then Some (map (\<lambda>i. (i, reason_of result i)) ids) else None),
        ev_reason = (if length kinds > 1 then Reason_Mixed
                     else if By_Trust_Chain \<in> set kinds then Reason_Trust_Chain else Reason_Policy),
        ev_sources = (if er_tainted_by result \<noteq> [] then Some (er_tainted_by result) else None) \<rparr>)"

text \<open>The spelling map: the identity of a declared tool to the spelling the body has. A later
  declaration with the same identity replaces an earlier one.\<close>

definition spelling_of :: "resolved_convention \<Rightarrow> tool_identity list \<Rightarrow> (tool_identity \<times> tool_identity) list" where
  "spelling_of conv raws =
     fold (\<lambda>raw sp. let i = normalise_identity raw conv in if i \<noteq> raw then AList.update i raw sp else sp) raws []"

definition as_declared :: "(tool_identity \<times> tool_identity) list \<Rightarrow> tool_identity list \<Rightarrow> tool_identity list" where
  "as_declared spelling ids = map (\<lambda>i. case map_of spelling i of None \<Rightarrow> i | Some raw \<Rightarrow> raw) ids"

definition request_sources :: "resolved_convention \<Rightarrow> result_source list \<Rightarrow> tool_identity list" where
  "request_sources conv srcs =
     concat (map (\<lambda>s. let normalised = normalise_identity (rs_identity s) conv in
       if is_container_tool (Some (tool_name (rs_identity s))) conv
       then normalised # nested_calls_in (rs_args s) conv else [normalised]) srcs)"

text \<open>What the middleware evaluates for a body.\<close>

definition evaluate_request ::
  "adapter \<Rightarrow> resolved_convention \<Rightarrow> tool_policy_block list \<Rightarrow> js \<Rightarrow> evaluation_result" where
  "evaluate_request ad conv blocks body =
     evaluate_blocks (map (\<lambda>raw. normalise_identity raw conv) (ad_declared ad body)) blocks
       (map_option (\<lambda>f. normalise_identity f conv) (ad_forced ad body))
       (request_sources conv (ad_sources ad body))"

datatype disposition =
    Forward js
  | Refuse "(string \<times> string) list" js

record governance_outcome =
  go_disposition :: disposition
  go_state :: governance_state
  go_event :: "policy_event option"

definition rejected_message :: "string \<Rightarrow> string \<Rightarrow> tool_identity list \<Rightarrow> string" where
  "rejected_message reason policy_names ids =
     reason @ ''. Tool policy '' @ [CHR 0x22] @ policy_names @ [CHR 0x22] @ '' does not permit: '' @ join '', '' ids"

definition govern ::
  "adapter \<Rightarrow> mcp_naming \<Rightarrow> string option \<Rightarrow> js \<Rightarrow> js \<Rightarrow> governance_outcome" where
  "govern ad naming agent data body =
     (let blocks = policy_blocks data;
          conv = convention_for agent naming;
          raws = ad_declared ad body;
          spelling = spelling_of conv raws;
          result = evaluate_request ad conv blocks body;
          state = \<lparr> gs_result = result, gs_declared = map (\<lambda>raw. normalise_identity raw conv) raws, gs_invoked = [],
                    gs_family = ad_family ad, gs_convention = Some conv, gs_blocks = blocks, gs_nested = [],
                    gs_sources = request_sources conv (ad_sources ad body) \<rparr>;
          policy = join '' + '' (er_policy_names result);
          refuse = (\<lambda>message. Refuse (ad_headers ad) (ad_rejection ad message))
      in if er_reject result then
           (let denied = map fst (filter (\<lambda>(i, d). d = Rejected) (er_decisions result)) in
            \<lparr> go_disposition =
                refuse (rejected_message (case er_reason result of None \<Rightarrow> ''undefined'' | Some r \<Rightarrow> r) policy denied),
              go_state = state, go_event = Some (tool_policy_event result denied Event_Reject) \<rparr>)
         else if er_blocked result \<noteq> [] \<or> er_narrow result \<noteq> [] then
           (let blocked = as_declared spelling (er_blocked result) in
            case ad_refusal ad body blocked of
              Some refusal \<Rightarrow>
                \<lparr> go_disposition = refuse (rejected_message refusal policy (er_blocked result)),
                  go_state = state, go_event = Some (tool_policy_event result (er_blocked result) Event_Reject) \<rparr>
            | None \<Rightarrow>
                \<lparr> go_disposition =
                    Forward (ad_note ad (ad_strip ad body blocked (er_narrow result)) (er_blocked result) (er_tainted_by result)),
                  go_state = state,
                  go_event = Some (tool_policy_event result
                    (er_blocked result @ map (\<lambda>(s, _). ''mcp:'' @ s) (er_narrow result)) Event_Strip) \<rparr>)
         else \<lparr> go_disposition = Forward body, go_state = state, go_event = None \<rparr>)"

section \<open>The record of invoked tools\<close>

text \<open>The synthetic block that carries the trust chain into the response-side checks.\<close>

definition trust_chain_block :: "governance_state \<Rightarrow> tool_policy_block" where
  "trust_chain_block s =
     \<lparr> policy_id = (case er_policy_id (gs_result s) of None \<Rightarrow> ''trust-chain'' | Some p \<Rightarrow> p),
       policy_name = ''trust chain'', policy_mode = er_mode (gs_result s), allow = [],
       deny = sensitive_labels (gs_blocks s), sensitive = None, untrusted = None \<rparr>"

definition effective_blocks :: "governance_state \<Rightarrow> tool_policy_block list" where
  "effective_blocks s =
     (let blocks = gs_blocks s in
      if blocks = [] \<or> er_tainted_by (gs_result s) = [] then blocks
      else if sensitive_labels blocks = [] then blocks
      else blocks @ [trust_chain_block s])"

definition record_nested :: "tool_identity list \<Rightarrow> governance_state \<Rightarrow> governance_state" where
  "record_nested ids s =
     fold (\<lambda>i st.
       let denied = list_ex (\<lambda>b. denied_by b i) (effective_blocks st) in
       st\<lparr> gs_nested := AList.update i
             (case map_of (gs_nested st) i of None \<Rightarrow> (1, denied) | Some (n, d) \<Rightarrow> (n + 1, d \<or> denied))
             (gs_nested st) \<rparr>) ids s"

definition bump :: "tool_identity \<Rightarrow> (tool_identity \<times> nat) list \<Rightarrow> (tool_identity \<times> nat) list" where
  "bump i m = AList.update i ((case map_of m i of None \<Rightarrow> 0 | Some n \<Rightarrow> n) + 1) m"

definition record_invoked :: "tool_identity list \<Rightarrow> governance_state \<Rightarrow> governance_state" where
  "record_invoked ids s =
     fold (\<lambda>i st.
       let named = (case gs_convention st of None \<Rightarrow> i | Some conv \<Rightarrow> normalise_identity i conv)
       in st\<lparr> gs_invoked := bump (resolve_invoked named (gs_declared st)) (gs_invoked st) \<rparr>) ids s"

datatype facet = Declared | Invoked | Source

record usage_entry =
  ue_identity :: tool_identity
  ue_facet :: facet
  ue_count :: nat
  ue_decision :: decision
  ue_reason :: "decision_reason option"

definition reason_for :: "evaluation_result \<Rightarrow> tool_identity \<Rightarrow> decision \<Rightarrow> decision_reason option" where
  "reason_for result i d = (if d = Allowed \<or> d = Unlisted then None else map_of (er_reasons result) i)"

definition tools_for_event :: "governance_state \<Rightarrow> usage_entry list option" where
  "tools_for_event s =
     (let r = gs_result s;
          declared = map (\<lambda>(i, n). let d = (case map_of (er_decisions r) i of None \<Rightarrow> Allowed | Some d \<Rightarrow> d) in
            \<lparr> ue_identity = i, ue_facet = Declared, ue_count = n, ue_decision = d, ue_reason = reason_for r i d \<rparr>)
            (fold bump (gs_declared s) []);
          invoked = map (\<lambda>(i, n). let d = decide_invoked r i in
            \<lparr> ue_identity = i, ue_facet = Invoked, ue_count = n, ue_decision = d, ue_reason = reason_for r i d \<rparr>)
            (gs_invoked s);
          nested = map (\<lambda>(i, n, denied).
            \<lparr> ue_identity = i, ue_facet = Invoked, ue_count = n,
              ue_decision = (if denied then Detected else Unlisted), ue_reason = None \<rparr>) (gs_nested s);
          sources = map (\<lambda>(i, n).
            \<lparr> ue_identity = i, ue_facet = Source, ue_count = n, ue_decision = Allowed, ue_reason = None \<rparr>)
            (fold bump (gs_sources s) []);
          out = declared @ invoked @ nested @ sources
      in if out \<noteq> [] then Some out else None)"

record gate_context =
  gc_convention :: resolved_convention
  gc_blocks :: "tool_policy_block list"

definition gate_context_of :: "governance_state \<Rightarrow> gate_context option" where
  "gate_context_of s =
     (case gs_convention s of
        None \<Rightarrow> None
      | Some conv \<Rightarrow>
          if gs_blocks s = [] then None
          else Some \<lparr> gc_convention = conv,
                      gc_blocks = (if er_mode (gs_result s) = Monitor then [] else effective_blocks s) \<rparr>)"

section \<open>Lemmas\<close>

text \<open>The spelling map is faithful for a declared tool as long as no other declared spelling has
  the same identity.\<close>

lemma spelling_of_other:
  "(\<forall>raw \<in> set raws. normalise_identity raw conv \<noteq> i \<or> raw = i) \<Longrightarrow>
   map_of (fold (\<lambda>raw sp. let i = normalise_identity raw conv in if i \<noteq> raw then AList.update i raw sp else sp) raws sp) i
   = map_of sp i"
  by (induction raws arbitrary: sp) (auto simp: Let_def)

lemma spelling_of_unique:
  assumes "raw \<in> set raws" and "\<forall>raw' \<in> set raws. normalise_identity raw' conv = normalise_identity raw conv \<longrightarrow> raw' = raw"
  shows "(case map_of (spelling_of conv raws) (normalise_identity raw conv) of
            None \<Rightarrow> normalise_identity raw conv | Some r \<Rightarrow> r) = raw"
proof -
  let ?f = "\<lambda>raw sp. let i = normalise_identity raw conv in if i \<noteq> raw then AList.update i raw sp else sp"
  have gen: "map_of (fold ?f xs sp) (normalise_identity raw conv) =
      (if raw \<in> set xs \<and> normalise_identity raw conv \<noteq> raw then Some raw else map_of sp (normalise_identity raw conv))"
    if "set xs \<subseteq> set raws" for xs sp
    using that
  proof (induction xs arbitrary: sp)
    case (Cons x xs)
    then have "normalise_identity x conv = normalise_identity raw conv \<Longrightarrow> x = raw"
      using assms(2) by simp
    with Cons show ?case by (auto simp: Let_def)
  qed simp
  from gen [of raws "[]"] assms(1) show ?thesis
    by (auto simp: spelling_of_def)
qed

lemma denied_by_trust_chain [simp]:
  "denied_by (trust_chain_block s) i = matches_any (sensitive_labels (gs_blocks s)) i"
  by (simp add: denied_by_def trust_chain_block_def scoped_for_def denied_globally_def global_allow_def
      Let_def split: option.splits)

text \<open>Every adapter meets the contract of \<open>tool_adapter\<close>.\<close>

lemma adapter_removes:
  assumes "compatible blocked narrow"
    and "i \<in> set (ad_declared (adapter_for stringify fam)
               (ad_note (adapter_for stringify fam) (ad_strip (adapter_for stringify fam) body blocked narrow) bl tb))"
  shows "i \<notin> set blocked"
  using assms
  by (cases fam)
     (auto simp: adapter_for_def anthropic.note_declared openai.note_declared responses.note_declared
        gemini.note_declared bedrock.note_declared
        dest: anthropic.strip_removes openai.strip_removes responses.strip_removes gemini.strip_removes
          bedrock.strip_removes)

lemma adapter_transparent:
  "set (ad_declared (adapter_for stringify fam) body) \<inter> set blocked = {} \<Longrightarrow>
   ad_declared (adapter_for stringify fam) (ad_strip (adapter_for stringify fam) body blocked []) =
   ad_declared (adapter_for stringify fam) body"
  by (cases fam)
     (simp_all add: adapter_for_def anthropic.strip_transparent openai.strip_transparent
        responses.strip_transparent gemini.strip_transparent bedrock.strip_transparent)

lemma set_er_blocked:
  "set (er_blocked (evaluate_blocks declared blocks forced sources)) =
     {i. merged_mode blocks = Strip \<and> is_denied declared blocks sources i}"
  by (cases "blocks = []")
     (auto simp: evaluate_blocks_conclude set_final_denied evaluate_blocks_def [of _ "[]"] Let_def)

lemma govern_strip:
  assumes "go_disposition (govern (adapter_for stringify fam) naming agent data body) = Forward body'"
    and "er_blocked (evaluate_request (adapter_for stringify fam) (convention_for agent naming) (policy_blocks data) body) \<noteq> []"
  shows "body' = ad_note (adapter_for stringify fam)
           (ad_strip (adapter_for stringify fam) body
             (as_declared (spelling_of (convention_for agent naming) (ad_declared (adapter_for stringify fam) body))
               (er_blocked (evaluate_request (adapter_for stringify fam) (convention_for agent naming) (policy_blocks data) body)))
             (er_narrow (evaluate_request (adapter_for stringify fam) (convention_for agent naming) (policy_blocks data) body)))
           (er_blocked (evaluate_request (adapter_for stringify fam) (convention_for agent naming) (policy_blocks data) body))
           (er_tainted_by (evaluate_request (adapter_for stringify fam) (convention_for agent naming) (policy_blocks data) body))"
  using assms by (simp add: govern_def Let_def split: if_splits option.splits)

lemma sum_bump: "sum_list (map snd (bump i m)) = Suc (sum_list (map snd m))"
proof -
  have "sum_list (map snd (AList.update i (n + 1) m)) = Suc (sum_list (map snd m))"
    if "n = (case map_of m i of None \<Rightarrow> 0 | Some n \<Rightarrow> n)" for n
    using that by (induction m) auto
  then show ?thesis by (simp add: bump_def)
qed

lemma map_of_bump: "map_of (bump i m) j = (if i = j then Some (case map_of m i of None \<Rightarrow> 1 | Some n \<Rightarrow> n + 1) else map_of m j)"
  by (simp add: bump_def split: option.splits)

lemma monitor_passes_through:
  assumes "merged_mode (policy_blocks data) = Monitor"
  shows "er_blocked (evaluate_request ad conv (policy_blocks data) body) = []"
    and "\<not> er_reject (evaluate_request ad conv (policy_blocks data) body)"
    and "er_narrow (evaluate_request ad conv (policy_blocks data) body) = []"
proof -
  have none: "map_of n s = None \<Longrightarrow> \<forall>s. map_of n s = None \<Longrightarrow> n = []" for n :: "(string \<times> string list) list" and s
    by (cases n) (auto split: if_splits)
  show "er_blocked (evaluate_request ad conv (policy_blocks data) body) = []"
    unfolding evaluate_request_def set_empty [symmetric] set_er_blocked using assms by simp
  show "\<not> er_reject (evaluate_request ad conv (policy_blocks data) body)"
    unfolding evaluate_request_def using assms
    by (cases "policy_blocks data = []")
       (simp_all add: evaluate_blocks_conclude er_reject_conclude evaluate_blocks_def [of _ "[]"] Let_def)
  have "\<forall>s. map_of (er_narrow (evaluate_request ad conv (policy_blocks data) body)) s = None"
    unfolding evaluate_request_def using assms
    by (cases "policy_blocks data = []")
       (auto simp: er_narrow_evaluate first_pass_narrow evaluate_blocks_def [of _ "[]"] Let_def
          intro!: final_narrow_None)
  then show "er_narrow (evaluate_request ad conv (policy_blocks data) body) = []"
    using none by blast
qed

section \<open>Properties of the middleware\<close>


definition strip_exec_data :: js where
  "strip_exec_data = JObj [(''toolPolicy'', JObj [(''policyId'', JStr ''1''), (''policyName'', JStr ''p''),
     (''mode'', JStr ''strip''), (''allow'', JArr []), (''deny'', JArr [JStr ''mcp:gh/del''])])]"

definition gh_tool :: "string \<Rightarrow> js" where
  "gh_tool n = JObj [(''type'', JStr ''function''), (''function'', JObj [(''name'', JStr (''mcp__gh__'' @ n))])]"


text \<open>The premise of C9 on the spelling is needed: a Responses request that declares the tool
  \<open>t\<close> of a server \<open>s\<close> once as a hosted MCP tool and once as the client's function tool
  \<open>mcp__s__t\<close> gets only the function tool removed; the hosted one, denied by the policy, is
  forwarded although the request's state and event say it was stripped.\<close>

theorem double_spelling_escapes:
  "let body = JObj [(''tools'', JArr [
         JObj [(''type'', JStr ''mcp''), (''server_label'', JStr ''gh''), (''allowed_tools'', JArr [JStr ''del''])],
         JObj [(''type'', JStr ''function''), (''name'', JStr ''mcp__gh__del'')]])];
       out = govern (adapter_for (\<lambda>_. []) Responses) DEFAULT_MCP_NAMING None strip_exec_data body
   in decide_invoked (gs_result (go_state out)) ''mcp:gh/del'' = Stripped \<and>
      (case go_disposition out of
         Forward body' \<Rightarrow> responses_declared body' = [''mcp:gh'', ''mcp:gh/del'']
       | Refuse _ _ \<Rightarrow> False)"
  by code_simp

text \<open>Monitor mode forwards the request as it came, with no event, for every family.\<close>

theorem monitor_forwards_unchanged:
  assumes "merged_mode (policy_blocks data) = Monitor"
  shows "go_disposition (govern ad naming agent data body) = Forward body \<and>
         go_event (govern ad naming agent data body) = None"
  using monitor_passes_through [OF assms] by (simp add: govern_def Let_def)

theorem monitor_forwards_unchanged_witness:
  "go_disposition (govern (adapter_for (\<lambda>_. []) Gemini) DEFAULT_MCP_NAMING None (JObj []) (JObj [])) = Forward (JObj []) \<and>
   go_event (govern (adapter_for (\<lambda>_. []) Gemini) DEFAULT_MCP_NAMING None (JObj []) (JObj [])) = None"
  by (rule monitor_forwards_unchanged) code_simp

text \<open>The request is refused exactly when the evaluation rejects it, or when it strips tools and
  the family cannot carry the stripped body; every refusal emits a reject event, and the body of
  a refused request is never forwarded.\<close>

theorem refused_iff:
  "(\<exists>h b. go_disposition (govern ad naming agent data body) = Refuse h b) \<longleftrightarrow>
     er_reject (evaluate_request ad (convention_for agent naming) (policy_blocks data) body) \<or>
     \<not> (er_blocked (evaluate_request ad (convention_for agent naming) (policy_blocks data) body) = [] \<and>
        er_narrow (evaluate_request ad (convention_for agent naming) (policy_blocks data) body) = []) \<and>
     ad_refusal ad body (as_declared (spelling_of (convention_for agent naming) (ad_declared ad body))
        (er_blocked (evaluate_request ad (convention_for agent naming) (policy_blocks data) body))) \<noteq> None"
  by (simp add: govern_def Let_def split: option.splits)

text \<open>The response-side checks apply the trust chain: some effective block denies a tool exactly
  when a policy block denies it or, in a tainted conversation, a sensitive label matches it.\<close>

theorem effective_blocks_trust_chain:
  "(\<exists>b \<in> set (effective_blocks s). denied_by b i) \<longleftrightarrow>
   (\<exists>b \<in> set (gs_blocks s). denied_by b i) \<or>
   gs_blocks s \<noteq> [] \<and> er_tainted_by (gs_result s) \<noteq> [] \<and> matches_any (sensitive_labels (gs_blocks s)) i"
  by (auto simp: effective_blocks_def Let_def) (simp_all add: matches_any_def)

text \<open>Invoked tools are counted: recording a response's calls adds exactly their number to the
  counts, under the identities the declared tools carry, and changes nothing else of the state.\<close>

theorem record_invoked_counts:
  "sum_list (map snd (gs_invoked (record_invoked ids s))) = sum_list (map snd (gs_invoked s)) + length ids \<and>
   gs_result (record_invoked ids s) = gs_result s \<and> gs_declared (record_invoked ids s) = gs_declared s \<and>
   gs_nested (record_invoked ids s) = gs_nested s"
proof (induction ids arbitrary: s)
  case (Cons i ids)
  have "record_invoked (i # ids) s = record_invoked ids (record_invoked [i] s)"
    by (simp add: record_invoked_def)
  moreover have "sum_list (map snd (gs_invoked (record_invoked [i] s))) = Suc (sum_list (map snd (gs_invoked s)))"
      "gs_result (record_invoked [i] s) = gs_result s" "gs_declared (record_invoked [i] s) = gs_declared s"
      "gs_nested (record_invoked [i] s) = gs_nested s"
    by (simp_all add: record_invoked_def Let_def sum_bump)
  ultimately show ?case using Cons.IH by simp
qed (simp add: record_invoked_def)

end
