(* ===== verification/Call_Gate.thy ===== *)
theory Call_Gate
  imports Governance
begin

text \<open>
  The call gate (\<open>toolGovernance/callGate.ts\<close>): the filter between the upstream's bytes and the
  client that holds the frames of a container call until its arguments are complete and then
  forwards or refuses it. \<open>out\<close> is kept as the list of the pieces the code concatenates.
  \<open>parse\<close> and \<open>stringify\<close> stand for \<open>JSON.parse\<close> and \<open>JSON.stringify\<close>.
\<close>

definition REFUSAL_PREFIX :: string where
  "REFUSAL_PREFIX = ''[tool policy] Refused:''"

definition NL :: char where
  "NL = CHR 0x0A"

definition denied_nested_in :: "js \<Rightarrow> resolved_convention \<Rightarrow> tool_policy_block list \<Rightarrow> tool_identity list" where
  "denied_nested_in item conv blocks =
     (if \<not> truthy item \<or> blocks = []
         \<or> \<not> is_container_tool (Some (string_or_empty (jget item ''name''))) conv then []
      else let args = string_or_empty (jget item ''arguments'');
               body = (if args \<noteq> [] then args else string_or_empty (jget item ''input''))
           in filter (\<lambda>i. list_ex (\<lambda>b. denied_by b i) blocks) (nested_calls_in body conv))"

definition refusal_text :: "tool_identity list \<Rightarrow> string" where
  "refusal_text ids =
     REFUSAL_PREFIX @ '' this call reaches '' @ join '', '' ids @ '', which the tool policy does not permit,''
     @ '' so it was not executed. Do not try again; tell the user it is not permitted.''"

definition refusal_content :: "tool_identity list \<Rightarrow> js" where
  "refusal_content ids =
     JArr [JObj [(''type'', JStr ''output_text''), (''text'', JStr (refusal_text ids)), (''annotations'', JArr [])]]"

definition refusal_item :: "string \<Rightarrow> tool_identity list \<Rightarrow> js" where
  "refusal_item item_id ids =
     JObj [(''id'', JStr (item_id @ ''_refused'')), (''type'', JStr ''message''), (''status'', JStr ''completed''),
           (''role'', JStr ''assistant''), (''content'', refusal_content ids)]"

text \<open>\<open>str(item.id) || 'call'\<close>\<close>

definition item_id_or_call :: "js \<Rightarrow> string" where
  "item_id_or_call item =
     (let i = string_or_empty (jget item ''id'') in if i \<noteq> [] then i else ''call'')"

definition gate_item ::
  "resolved_convention \<Rightarrow> tool_policy_block list \<Rightarrow> js \<Rightarrow> js" where
  "gate_item conv blocks item =
     (let found = denied_nested_in item conv blocks in
      if found = [] then item else refusal_item (item_id_or_call item) found)"

definition gate_response_body ::
  "js \<Rightarrow> resolved_convention \<Rightarrow> tool_policy_block list \<Rightarrow> js \<times> tool_identity list" where
  "gate_response_body payload conv blocks =
     (if \<not> is_arr (jget payload ''output'') \<or> blocks = [] \<or> conv_container_tools conv = [] then (payload, [])
      else let items = arr (jget payload ''output'');
               suppressed = fold (\<lambda>item sup. push_all_new (denied_nested_in item conv blocks) sup) items [];
               output = map (gate_item conv blocks) items
           in if suppressed = [] then (payload, []) else (jset ''output'' (JArr output) payload, suppressed))"

section \<open>Frames\<close>

record frame =
  fr_raw :: string
  fr_event :: js

text \<open>The text up to and including the first blank line, and what follows it.\<close>

fun cut_frame :: "string \<Rightarrow> (string \<times> string) option" where
  "cut_frame (c # d # s) =
     (if c = NL \<and> d = NL then Some ([c, d], s)
      else map_option (\<lambda>(a, b). (c # a, b)) (cut_frame (d # s)))"
| "cut_frame _ = None"

lemma cut_frame_SomeD: "cut_frame s = Some (a, b) \<Longrightarrow> s = a @ b \<and> a \<noteq> []"
  by (induction s arbitrary: a rule: cut_frame.induct) (auto split: if_splits)

lemma cut_frame_shorter: "cut_frame s = Some (a, b) \<Longrightarrow> length b < length s"
  by (auto dest: cut_frame_SomeD)

function take_raw :: "string \<Rightarrow> string list \<times> string" where
  "take_raw s =
     (case cut_frame s of
        None \<Rightarrow> ([], s)
      | Some (raw, rest) \<Rightarrow> (let (fs, r) = take_raw rest in (raw # fs, r)))"
  by pat_completeness auto
termination
  by (relation "measure length") (auto intro: cut_frame_shorter)

declare take_raw.simps [simp del]

definition frame_event :: "(string \<Rightarrow> js option) \<Rightarrow> string \<Rightarrow> js" where
  "frame_event parse raw =
     fold (\<lambda>line ev.
       if \<not> prefix ''data:'' line then ev
       else let payload = trim (drop 5 line) in
         if payload = [] \<or> payload = ''[DONE]'' then ev
         else (case parse payload of None \<Rightarrow> ev | Some v \<Rightarrow> v)) (split_char NL raw) JNull"

definition frame_of :: "(string \<Rightarrow> js option) \<Rightarrow> string \<Rightarrow> frame" where
  "frame_of parse raw = \<lparr> fr_raw = raw, fr_event = frame_event parse raw \<rparr>"

definition take_frames :: "(string \<Rightarrow> js option) \<Rightarrow> string \<Rightarrow> frame list \<times> string" where
  "take_frames parse buffer = (let (raws, rest) = take_raw buffer in (map (frame_of parse) raws, rest))"

definition item_id_of :: "js \<Rightarrow> string" where
  "item_id_of event =
     (let i = string_or_empty (jget event ''item_id'') in
      if i \<noteq> [] then i else string_or_empty (jpath event [''item'', ''id'']))"

section \<open>The gate\<close>

record gate_state =
  gt_suppressed :: "tool_identity list"
  gt_held :: "(string \<times> string \<times> string list) list"
  gt_dropped :: "(string \<times> tool_identity list) list"
  gt_buffer :: string

definition gate_init :: gate_state where
  "gate_init = \<lparr> gt_suppressed = [], gt_held = [], gt_dropped = [], gt_buffer = [] \<rparr>"

definition gate_active :: "gate_context \<Rightarrow> bool" where
  "gate_active ctx = (conv_container_tools (gc_convention ctx) \<noteq> [] \<and> gc_blocks ctx \<noteq> [])"

definition emit_frame :: "(js \<Rightarrow> string) \<Rightarrow> js \<Rightarrow> string" where
  "emit_frame stringify event =
     ''event: '' @ string_or_empty (jget event ''type'') @ [NL] @ ''data: '' @ stringify event @ [NL, NL]"

definition rewrite_completed ::
  "(js \<Rightarrow> string) \<Rightarrow> (string \<times> tool_identity list) list \<Rightarrow> frame \<Rightarrow> string" where
  "rewrite_completed stringify dropped fr =
     (let items = jpath (fr_event fr) [''response'', ''output''] in
      if \<not> is_arr items \<or> dropped = [] then fr_raw fr
      else let output = map (\<lambda>item. case map_of dropped (string_or_empty (jget item ''id'')) of
                                 None \<Rightarrow> item
                               | Some found \<Rightarrow> refusal_item (item_id_or_call item) found) (arr items)
           in emit_frame stringify
                (jset ''response'' (jset ''output'' (JArr output) (jget (fr_event fr) ''response'')) (fr_event fr)))"

definition refusal_frames :: "(js \<Rightarrow> string) \<Rightarrow> string \<Rightarrow> tool_identity list \<Rightarrow> string" where
  "refusal_frames stringify item_id ids =
     (let item = refusal_item item_id ids in
      emit_frame stringify (JObj [(''type'', JStr ''response.output_item.added''), (''output_index'', JNum 0),
                                  (''item'', jset ''content'' (JArr []) item)])
      @ emit_frame stringify (JObj [(''type'', JStr ''response.output_text.delta''), (''item_id'', jget item ''id''),
                                    (''output_index'', JNum 0), (''content_index'', JNum 0),
                                    (''delta'', JStr (refusal_text ids))])
      @ emit_frame stringify (JObj [(''type'', JStr ''response.output_item.done''), (''output_index'', JNum 0),
                                    (''item'', item)]))"

definition event_type :: "frame \<Rightarrow> string" where
  "event_type fr = string_or_empty (jget (fr_event fr) ''type'')"

definition item_name :: "frame \<Rightarrow> string" where
  "item_name fr = string_or_empty (jpath (fr_event fr) [''item'', ''name''])"

text \<open>A frame that opens a container call, and the frames that end the turn.\<close>

definition opens_call :: "gate_context \<Rightarrow> frame \<Rightarrow> bool" where
  "opens_call ctx fr =
     (event_type fr = ''response.output_item.added''
      \<and> is_container_tool (Some (item_name fr)) (gc_convention ctx))"

definition is_terminal :: "frame \<Rightarrow> bool" where
  "is_terminal fr = (event_type fr = ''response.completed'' \<or> event_type fr = ''response.incomplete'')"

text \<open>The item a frame lets the gate judge a held call by, if any.\<close>

definition verdict_item :: "string \<Rightarrow> frame \<Rightarrow> js" where
  "verdict_item name fr =
     (if event_type fr = ''response.output_item.done'' then jget (fr_event fr) ''item''
      else if event_type fr = ''response.function_call_arguments.done''
      then JObj [(''name'', JStr name), (''arguments'', jget (fr_event fr) ''arguments'')]
      else JNull)"

text \<open>The body of the loop in \<open>push\<close> for one frame.\<close>

definition gate_frame ::
  "(js \<Rightarrow> string) \<Rightarrow> gate_context \<Rightarrow> frame \<Rightarrow> gate_state \<Rightarrow> string list \<times> gate_state" where
  "gate_frame stringify ctx fr st =
     (let i = item_id_of (fr_event fr) in
      if opens_call ctx fr then
        ([], st\<lparr> gt_held := AList.update i (item_name fr, [fr_raw fr]) (gt_held st) \<rparr>)
      else if i \<noteq> [] \<and> map_of (gt_dropped st) i \<noteq> None \<and> \<not> is_terminal fr then ([], st)
      else case (if i \<noteq> [] then map_of (gt_held st) i else None) of
             Some (name, frames) \<Rightarrow>
               (let frames' = frames @ [fr_raw fr];
                    st' = st\<lparr> gt_held := AList.update i (name, frames') (gt_held st) \<rparr>;
                    item = verdict_item name fr
                in if \<not> truthy item then ([], st')
                   else let found = denied_nested_in item (gc_convention ctx) (gc_blocks ctx) in
                     if found = [] then
                       (if event_type fr \<noteq> ''response.output_item.done'' then ([], st')
                        else (frames', st\<lparr> gt_held := AList.delete i (gt_held st) \<rparr>))
                     else ([refusal_frames stringify i found],
                           st\<lparr> gt_suppressed := push_all_new found (gt_suppressed st),
                               gt_dropped := AList.update i found (gt_dropped st),
                               gt_held := AList.delete i (gt_held st) \<rparr>))
           | None \<Rightarrow>
               if is_terminal fr then ([rewrite_completed stringify (gt_dropped st) fr], st)
               else ([fr_raw fr], st))"

fun gate_frames ::
  "(js \<Rightarrow> string) \<Rightarrow> gate_context \<Rightarrow> frame list \<Rightarrow> gate_state \<Rightarrow> string list \<times> gate_state" where
  "gate_frames stringify ctx [] st = ([], st)"
| "gate_frames stringify ctx (fr # frs) st =
     (let (out, st') = gate_frame stringify ctx fr st;
          (outs, st'') = gate_frames stringify ctx frs st'
      in (out @ outs, st''))"

definition gate_push ::
  "(string \<Rightarrow> js option) \<Rightarrow> (js \<Rightarrow> string) \<Rightarrow> gate_context \<Rightarrow> string \<Rightarrow> gate_state \<Rightarrow> string \<times> gate_state" where
  "gate_push parse stringify ctx chunk st =
     (if \<not> gate_active ctx then (chunk, st)
      else let (frames, rest) = take_frames parse (gt_buffer st @ chunk);
               (out, st') = gate_frames stringify ctx frames (st\<lparr> gt_buffer := rest \<rparr>)
           in (concat out, st'))"

definition gate_flush :: "gate_context \<Rightarrow> gate_state \<Rightarrow> string \<times> gate_state" where
  "gate_flush ctx st =
     (if \<not> gate_active ctx then ([], st)
      else (concat (concat (map (\<lambda>(i, name, frames). frames) (gt_held st))) @ gt_buffer st,
            st\<lparr> gt_held := [], gt_buffer := [] \<rparr>))"

text \<open>A whole stream: the chunks as they arrive, then the flush.\<close>

fun gate_pushes ::
  "(string \<Rightarrow> js option) \<Rightarrow> (js \<Rightarrow> string) \<Rightarrow> gate_context \<Rightarrow> string list \<Rightarrow> gate_state \<Rightarrow> string \<times> gate_state" where
  "gate_pushes parse stringify ctx [] st = ([], st)"
| "gate_pushes parse stringify ctx (c # cs) st =
     (let (out, st') = gate_push parse stringify ctx c st;
          (outs, st'') = gate_pushes parse stringify ctx cs st'
      in (out @ outs, st''))"

definition gate_stream ::
  "(string \<Rightarrow> js option) \<Rightarrow> (js \<Rightarrow> string) \<Rightarrow> gate_context \<Rightarrow> string list \<Rightarrow> string" where
  "gate_stream parse stringify ctx chunks =
     (let (out, st) = gate_pushes parse stringify ctx chunks gate_init in out @ fst (gate_flush ctx st))"

section \<open>Lemmas on frames\<close>

lemma cut_frame_append: "cut_frame s = Some (a, b) \<Longrightarrow> cut_frame (s @ t) = Some (a, b @ t)"
  by (induction s arbitrary: a rule: cut_frame.induct) (auto split: if_splits)

lemma take_raw_append:
  "take_raw (s @ t) =
   (let (fs, r) = take_raw s; (gs, r') = take_raw (r @ t) in (fs @ gs, r'))"
proof (induction s rule: take_raw.induct)
  case (1 s)
  show ?case
  proof (cases "cut_frame s")
    case None
    then show ?thesis by (simp add: take_raw.simps [of s])
  next
    case (Some p)
    obtain a b where p: "p = (a, b)" by (cases p)
    show ?thesis
      using 1 [OF Some p [symmetric]] Some p
      by (simp add: take_raw.simps [of s] take_raw.simps [of "s @ t"] cut_frame_append split: prod.splits)
  qed
qed

lemma take_raw_concat: "take_raw s = (fs, r) \<Longrightarrow> concat fs @ r = s"
proof (induction s arbitrary: fs rule: take_raw.induct)
  case (1 s)
  show ?case
  proof (cases "cut_frame s")
    case None
    with 1 show ?thesis by (simp add: take_raw.simps [of s])
  next
    case (Some p)
    obtain a b where p: "p = (a, b)" by (cases p)
    then show ?thesis
      using 1 Some by (auto simp: take_raw.simps [of s] split: prod.splits dest: cut_frame_SomeD)
  qed
qed

lemma take_frames_append:
  "take_frames parse (s @ t) =
   (let (fs, r) = take_frames parse s; (gs, r') = take_frames parse (r @ t) in (fs @ gs, r'))"
  unfolding take_frames_def take_raw_append [of s t] Let_def
  by (simp split: prod.splits)

lemma take_frames_concat: "take_frames parse s = (fs, r) \<Longrightarrow> concat (map fr_raw fs) @ r = s"
  by (auto simp: take_frames_def frame_of_def comp_def dest: take_raw_concat split: prod.splits)

lemma gate_frames_append:
  "gate_frames stringify ctx (fs @ gs) st =
   (let (o1, st1) = gate_frames stringify ctx fs st; (o2, st2) = gate_frames stringify ctx gs st1 in (o1 @ o2, st2))"
  by (induction fs arbitrary: st) (simp_all split: prod.splits)

lemma gate_frame_buffer:
  "gate_frame stringify ctx fr (st\<lparr> gt_buffer := b \<rparr>) =
   (let (out, st') = gate_frame stringify ctx fr st in (out, st'\<lparr> gt_buffer := b \<rparr>))"
  by (cases "map_of (gt_held st) (item_id_of (fr_event fr))") (simp_all add: gate_frame_def Let_def split: prod.split)

lemma gate_frames_buffer:
  "gate_frames stringify ctx frs (st\<lparr> gt_buffer := b \<rparr>) =
   (let (out, st') = gate_frames stringify ctx frs st in (out, st'\<lparr> gt_buffer := b \<rparr>))"
proof (induction frs arbitrary: st)
  case (Cons fr frs)
  obtain out st' where f: "gate_frame stringify ctx fr st = (out, st')"
    by (cases "gate_frame stringify ctx fr st")
  show ?case
    by (simp add: f gate_frame_buffer Cons.IH split: prod.splits)
qed simp

section \<open>Chunk boundaries\<close>

lemma gate_push_push:
  assumes "gate_push parse stringify ctx c st = (o1, st1)" and "gate_push parse stringify ctx d st1 = (o2, st2)"
  shows "gate_push parse stringify ctx (c @ d) st = (o1 @ o2, st2)"
proof (cases "gate_active ctx")
  case False
  with assms show ?thesis by (simp add: gate_push_def)
next
  case True
  obtain fs r where f1: "take_frames parse (gt_buffer st @ c) = (fs, r)" by fastforce
  obtain p1 s1 where g1: "gate_frames stringify ctx fs st = (p1, s1)" by fastforce
  have st1: "o1 = concat p1" "st1 = s1\<lparr> gt_buffer := r \<rparr>"
    using assms(1) True f1 g1 by (simp_all add: gate_push_def gate_frames_buffer)
  obtain gs r' where f2: "take_frames parse (r @ d) = (gs, r')" by fastforce
  obtain p2 s2 where g2: "gate_frames stringify ctx gs s1 = (p2, s2)" by fastforce
  have st2: "o2 = concat p2" "st2 = s2\<lparr> gt_buffer := r' \<rparr>"
    using assms(2) True f2 g2 by (simp_all add: gate_push_def gate_frames_buffer st1)
  have "take_frames parse ((gt_buffer st @ c) @ d) = (fs @ gs, r')"
    unfolding take_frames_append [of parse "gt_buffer st @ c" d] by (simp add: f1 f2)
  then show ?thesis
    using True g1 g2 by (simp add: gate_push_def gate_frames_buffer gate_frames_append st1 st2)
qed

lemma gate_push_empty: "gt_buffer st = r \<Longrightarrow> cut_frame r = None \<Longrightarrow> gate_push parse stringify ctx [] st = ([], st)"
  by (simp add: gate_push_def take_frames_def take_raw.simps)

lemma take_raw_rest: "take_raw s = (fs, r) \<Longrightarrow> cut_frame r = None"
proof (induction s arbitrary: fs rule: take_raw.induct)
  case (1 s)
  show ?case
  proof (cases "cut_frame s")
    case None
    with 1 show ?thesis by (simp add: take_raw.simps [of s])
  next
    case (Some p)
    obtain a b where "p = (a, b)" by (cases p)
    then show ?thesis
      using 1 Some by (auto simp: take_raw.simps [of s] split: prod.splits)
  qed
qed

lemma gate_pushes_concat:
  "cut_frame (gt_buffer st) = None \<Longrightarrow>
   gate_pushes parse stringify ctx cs st = gate_push parse stringify ctx (concat cs) st"
proof (induction cs arbitrary: st)
  case Nil
  then show ?case by (simp add: gate_push_empty)
next
  case (Cons c cs)
  obtain o1 st1 where p1: "gate_push parse stringify ctx c st = (o1, st1)" by fastforce
  obtain fs r where f: "take_frames parse (gt_buffer st @ c) = (fs, r)" by fastforce
  have "cut_frame r = None"
    using f take_raw_rest by (auto simp: take_frames_def split: prod.splits)
  then have "cut_frame (gt_buffer st1) = None"
    using p1 f Cons.prems by (auto simp: gate_push_def gate_frames_buffer split: prod.splits if_splits)
  from Cons.IH [OF this] have "gate_pushes parse stringify ctx cs st1 = gate_push parse stringify ctx (concat cs) st1" .
  then show ?case
    using gate_push_push [OF p1] p1 by (auto split: prod.splits)
qed

section \<open>The life of one call\<close>

text \<open>What the gate does to the frames of one item, as an automaton: a call is free, held with the
  frames seen so far, or dropped.\<close>

datatype call_state = Free | Held string "string list" | Dropped

definition call_of :: "string \<Rightarrow> gate_state \<Rightarrow> call_state" where
  "call_of x st =
     (if map_of (gt_dropped st) x \<noteq> None then Dropped
      else case map_of (gt_held st) x of None \<Rightarrow> Free | Some (name, frames) \<Rightarrow> Held name frames)"

definition call_step ::
  "(js \<Rightarrow> string) \<Rightarrow> gate_context \<Rightarrow> frame \<Rightarrow> call_state \<Rightarrow> string list \<times> call_state" where
  "call_step stringify ctx fr c =
     (case c of
        Dropped \<Rightarrow> ([], Dropped)
      | Free \<Rightarrow> if opens_call ctx fr then ([], Held (item_name fr) [fr_raw fr]) else ([fr_raw fr], Free)
      | Held name frames \<Rightarrow>
          if opens_call ctx fr then ([], Held (item_name fr) [fr_raw fr])
          else let item = verdict_item name fr;
                   found = denied_nested_in item (gc_convention ctx) (gc_blocks ctx)
               in if truthy item \<and> found \<noteq> []
                  then ([refusal_frames stringify (item_id_of (fr_event fr)) found], Dropped)
                  else if truthy item \<and> event_type fr = ''response.output_item.done''
                  then (frames @ [fr_raw fr], Free)
                  else ([], Held name (frames @ [fr_raw fr])))"

lemma opens_not_terminal: "opens_call ctx fr \<Longrightarrow> \<not> is_terminal fr"
  by (auto simp: opens_call_def is_terminal_def)

lemma gate_frame_simulates:
  assumes "item_id_of (fr_event fr) = x" and "x \<noteq> []" and "\<not> is_terminal fr"
    and "gate_frame stringify ctx fr st = (out, st')"
  shows "call_step stringify ctx fr (call_of x st) = (out, call_of x st')"
  using assms
  by (cases "map_of (gt_dropped st) x"; cases "map_of (gt_held st) x")
     (auto simp: gate_frame_def call_step_def call_of_def Let_def split: if_splits)

lemma gate_frame_other:
  assumes "item_id_of (fr_event fr) \<noteq> x" and "gate_frame stringify ctx fr st = (out, st')"
  shows "call_of x st' = call_of x st"
  using assms
  by (cases "map_of (gt_held st) (item_id_of (fr_event fr))")
     (auto simp: gate_frame_def call_of_def Let_def split: if_splits)

text \<open>The pieces the gate emits while it processes the frames of one item.\<close>

fun outputs_of ::
  "(js \<Rightarrow> string) \<Rightarrow> gate_context \<Rightarrow> string \<Rightarrow> frame list \<Rightarrow> gate_state \<Rightarrow> string list" where
  "outputs_of stringify ctx x [] st = []"
| "outputs_of stringify ctx x (fr # frs) st =
     (let (out, st') = gate_frame stringify ctx fr st
      in (if item_id_of (fr_event fr) = x then out else []) @ outputs_of stringify ctx x frs st')"

text \<open>A frame that belongs to the body of the call \<open>x\<close>, if it belongs to it at all.\<close>

definition inner :: "gate_context \<Rightarrow> string \<Rightarrow> frame \<Rightarrow> bool" where
  "inner ctx x fr = (item_id_of (fr_event fr) \<noteq> x \<or> \<not> opens_call ctx fr \<and> \<not> is_terminal fr)"

definition undecided :: "string \<Rightarrow> frame \<Rightarrow> bool" where
  "undecided x fr = (item_id_of (fr_event fr) \<noteq> x \<or> event_type fr \<noteq> ''response.output_item.done'')"

lemma outputs_dropped:
  "x \<noteq> [] \<Longrightarrow> list_all (inner ctx x) frs \<Longrightarrow> call_of x st = Dropped \<Longrightarrow> outputs_of stringify ctx x frs st = []"
proof (induction frs arbitrary: st)
  case (Cons fr frs)
  obtain out st' where g: "gate_frame stringify ctx fr st = (out, st')" by fastforce
  show ?case
  proof (cases "item_id_of (fr_event fr) = x")
    case True
    then have "call_step stringify ctx fr (call_of x st) = (out, call_of x st')"
      using Cons.prems g by (intro gate_frame_simulates) (auto simp: inner_def)
    then have "out = []" "call_of x st' = Dropped"
      using Cons.prems by (simp_all add: call_step_def)
    with Cons g show ?thesis by simp
  next
    case False
    with Cons g gate_frame_other [OF False g] show ?thesis by simp
  qed
qed simp

lemma outputs_held:
  assumes "x \<noteq> []" and "list_all (inner ctx x) (pre @ fr # post)" and "list_all (undecided x) pre"
    and "item_id_of (fr_event fr) = x"
    and "denied_nested_in (verdict_item name fr) (gc_convention ctx) (gc_blocks ctx) \<noteq> []"
    and "call_of x st = Held name frames"
  shows "\<exists>found. found \<noteq> [] \<and> outputs_of stringify ctx x (pre @ fr # post) st = [refusal_frames stringify x found]"
  using assms
proof (induction pre arbitrary: st frames)
  case Nil
  obtain out st' where g: "gate_frame stringify ctx fr st = (out, st')" by fastforce
  have "call_step stringify ctx fr (call_of x st) = (out, call_of x st')"
    using Nil g by (intro gate_frame_simulates) (auto simp: inner_def)
  moreover have "truthy (verdict_item name fr)"
    using Nil(5) by (rule contrapos_np) (simp add: denied_nested_in_def)
  ultimately have "out = [refusal_frames stringify x
        (denied_nested_in (verdict_item name fr) (gc_convention ctx) (gc_blocks ctx))]" "call_of x st' = Dropped"
    using Nil by (auto simp: call_step_def inner_def Let_def)
  then have "outputs_of stringify ctx x ([] @ fr # post) st = [refusal_frames stringify x
        (denied_nested_in (verdict_item name fr) (gc_convention ctx) (gc_blocks ctx))]"
    using Nil g by (simp add: outputs_dropped)
  with Nil(5) show ?case by blast
next
  case (Cons f pre)
  obtain out st' where g: "gate_frame stringify ctx f st = (out, st')" by fastforce
  show ?case
  proof (cases "item_id_of (fr_event f) = x")
    case False
    with Cons g gate_frame_other [OF False g] show ?thesis by simp
  next
    case True
    then have s: "call_step stringify ctx f (call_of x st) = (out, call_of x st')"
      using Cons.prems g by (intro gate_frame_simulates) (auto simp: inner_def)
    let ?found = "denied_nested_in (verdict_item name f) (gc_convention ctx) (gc_blocks ctx)"
    show ?thesis
    proof (cases "truthy (verdict_item name f) \<and> ?found \<noteq> []")
      case True
      then have "out = [refusal_frames stringify x ?found]" "call_of x st' = Dropped"
        using s Cons.prems \<open>item_id_of (fr_event f) = x\<close> by (auto simp: call_step_def inner_def Let_def)
      with Cons.prems g True \<open>item_id_of (fr_event f) = x\<close> show ?thesis
        by (auto simp: outputs_dropped)
    next
      case False
      then have "out = []" "call_of x st' = Held name (frames @ [fr_raw f])"
        using s Cons.prems True by (auto simp: call_step_def inner_def undecided_def Let_def split: if_splits)
      with Cons g True show ?thesis by simp
    qed
  qed
qed

lemma gate_frame_transparent:
  "\<not> opens_call ctx fr \<Longrightarrow> gt_held st = [] \<Longrightarrow> gt_dropped st = [] \<Longrightarrow>
   gate_frame stringify ctx fr st = ([fr_raw fr], st)"
  by (simp add: gate_frame_def Let_def rewrite_completed_def)

lemma gate_frames_transparent:
  "list_all (\<lambda>fr. \<not> opens_call ctx fr) frs \<Longrightarrow> gt_held st = [] \<Longrightarrow> gt_dropped st = [] \<Longrightarrow>
   gate_frames stringify ctx frs st = (map fr_raw frs, st)"
  by (induction frs) (simp_all add: gate_frame_transparent)

section \<open>Properties of the gate\<close>



definition codex_context :: gate_context where
  "codex_context = \<lparr> gc_convention = convention_for (Some ''codex-tui/1'') DEFAULT_MCP_NAMING,
     gc_blocks = [block_of Strip [] [''mcp:gh/del'']] \<rparr>"

definition args_done :: frame where
  "args_done = \<lparr> fr_raw = ''a'', fr_event = JObj [(''type'', JStr ''response.function_call_arguments.done''),
     (''item_id'', JStr ''i1''), (''arguments'', JStr ''await tools.mcp__gh__del()'')] \<rparr>"




text \<open>A stream in which no frame opens a container call passes through byte for byte.\<close>

theorem gate_transparent:
  assumes "list_all (\<lambda>fr. \<not> opens_call ctx fr) (fst (take_frames parse (concat chunks)))"
  shows "gate_stream parse stringify ctx chunks = concat chunks"
proof (cases "gate_active ctx")
  case False
  then show ?thesis
    by (simp add: gate_stream_def gate_pushes_concat gate_init_def gate_push_def gate_flush_def)
next
  case True
  obtain fs r where f: "take_frames parse (concat chunks) = (fs, r)" by fastforce
  then have "list_all (\<lambda>fr. \<not> opens_call ctx fr) fs"
    using assms by simp
  then show ?thesis
    using True f take_frames_concat [OF f]
    by (simp add: gate_stream_def gate_pushes_concat gate_init_def gate_push_def gate_flush_def
        gate_frames_transparent)
qed

theorem gate_transparent_witness:
  "gate_stream (\<lambda>_. None) (\<lambda>_. []) codex_context [''data: x'', [NL], [NL], ''tail''] =
   concat [''data: x'', [NL], [NL], ''tail'']"
  by (rule gate_transparent) code_simp

text \<open>A whole response never carries a denied container call to the client: after the gate, no
  item of its output reaches a denied tool.\<close>

theorem gated_response_safe:
  "list_all (\<lambda>item. denied_nested_in item conv blocks = [])
     (arr (jget (fst (gate_response_body payload conv blocks)) ''output''))"
proof -
  have "denied_nested_in (refusal_item x ids) conv blocks = []" for x ids
    by (simp add: denied_nested_in_def refusal_item_def string_or_empty_def nested_calls_in_def)
  then have ok: "denied_nested_in (gate_item conv blocks item) conv blocks = []" for item
    by (simp add: gate_item_def Let_def)
  have sup: "set (fold (\<lambda>item sup. push_all_new (denied_nested_in item conv blocks) sup) items sup0) =
       (\<Union>item \<in> set items. set (denied_nested_in item conv blocks)) \<union> set sup0" for items sup0
    by (induction items arbitrary: sup0) auto
  let ?items = "arr (jget payload ''output'')"
  let ?sup = "fold (\<lambda>item sup. push_all_new (denied_nested_in item conv blocks) sup) ?items []"
  consider "\<not> is_arr (jget payload ''output'')" | "blocks = [] \<or> conv_container_tools conv = []"
    | "is_arr (jget payload ''output'')" "blocks \<noteq> []" "conv_container_tools conv \<noteq> []" by blast
  then show ?thesis
  proof cases
    case 1
    then show ?thesis by (simp add: gate_response_body_def)
  next
    case 2
    then have "gate_response_body payload conv blocks = (payload, [])" by (auto simp: gate_response_body_def)
    moreover have "denied_nested_in item conv blocks = []" for item
      using 2 by (auto simp: denied_nested_in_def is_container_tool_def)
    ultimately show ?thesis by (simp add: list_all_iff)
  next
    case 3
    then have g: "gate_response_body payload conv blocks =
        (if ?sup = [] then (payload, []) else (jset ''output'' (JArr (map (gate_item conv blocks) ?items)) payload, ?sup))"
      by (simp add: gate_response_body_def Let_def)
    show ?thesis
    proof (cases "?sup = []")
      case True
      then have "(\<Union>item \<in> set ?items. set (denied_nested_in item conv blocks)) = {}"
        using sup [of ?items "[]"] by simp
      then have "\<forall>item \<in> set ?items. denied_nested_in item conv blocks = []" by simp
      with True show ?thesis by (simp only: g simp_thms if_True fst_conv list_all_iff)
    next
      case False
      then have "arr (jget (fst (gate_response_body payload conv blocks)) ''output'') = map (gate_item conv blocks) ?items"
        by (simp only: g if_False fst_conv jget_jset simp_thms if_True arr.simps)
      then show ?thesis by (simp add: list_all_iff ok)
    qed
  qed
qed

end
