(* ===== verification/Stream_Tap.thy ===== *)
theory Stream_Tap
  imports Governance
begin

text \<open>
  The tap on a stream the controller writes itself (\<open>toolGovernance/streamTap.ts\<close>): every
  write is scanned for tool calls before it goes out, the text after the last newline is held
  over to the next write, and \<open>end\<close> scans what is left as a last line.

  The scan of a text is the adapter's \<open>invokedToolsFromStream\<close>; the tap relies on it reading the
  text line by line, which the locale \<open>line_scanner\<close> states and every adapter provides.
\<close>

definition MAX_PENDING :: nat where
  "MAX_PENDING = 64 * 1024"

definition newline :: char where
  "newline = CHR 0x0A"

text \<open>The text up to the last newline, and what follows it (\<open>lastIndexOf\<close>).\<close>

definition cut_lines :: "string \<Rightarrow> string \<times> string" where
  "cut_lines s =
     (let tail = takeWhile (\<lambda>c. c \<noteq> newline) (rev s)
      in (take (length s - length tail) s, rev tail))"

record tap_state =
  tp_pending :: string
  tp_recorded :: "tool_identity list"

definition tap_init :: tap_state where
  "tap_init = \<lparr> tp_pending = [], tp_recorded = [] \<rparr>"

text \<open>\<open>res.write\<close>: the chunk always goes out as it came; the state is what the scan recorded.\<close>

definition tap_write :: "(string \<Rightarrow> tool_identity list) \<Rightarrow> string \<Rightarrow> tap_state \<Rightarrow> string \<times> tap_state" where
  "tap_write scan chunk st =
     (chunk,
      if chunk = [] then st
      else let (complete, rest) = cut_lines (tp_pending st @ chunk);
               pending = (if length rest > MAX_PENDING then [] else rest)
           in st\<lparr> tp_pending := pending,
                  tp_recorded := tp_recorded st @ (if complete \<noteq> [] then scan complete else []) \<rparr>)"

definition tap_end :: "(string \<Rightarrow> tool_identity list) \<Rightarrow> string \<Rightarrow> tap_state \<Rightarrow> string \<times> tap_state" where
  "tap_end scan chunk st =
     (chunk,
      let sse = tp_pending st @ chunk in
      st\<lparr> tp_pending := [], tp_recorded := tp_recorded st @ (if sse \<noteq> [] then scan (sse @ [newline]) else []) \<rparr>)"

fun tap_writes :: "(string \<Rightarrow> tool_identity list) \<Rightarrow> string list \<Rightarrow> tap_state \<Rightarrow> string \<times> tap_state" where
  "tap_writes scan [] st = ([], st)"
| "tap_writes scan (c # cs) st =
     (let (out, st') = tap_write scan c st; (outs, st'') = tap_writes scan cs st' in (out @ outs, st''))"

text \<open>A whole response: its writes and the chunk given to \<open>end\<close>.\<close>

definition tap_response :: "(string \<Rightarrow> tool_identity list) \<Rightarrow> string list \<Rightarrow> string \<Rightarrow> string \<times> tool_identity list" where
  "tap_response scan chunks final =
     (let (out, st) = tap_writes scan chunks tap_init; (out', st') = tap_end scan final st
      in (out @ out', tp_recorded st'))"

text \<open>The bound: no line of the text is longer than \<open>MAX_PENDING\<close>.\<close>

definition short_lines :: "string \<Rightarrow> bool" where
  "short_lines s = list_all (\<lambda>l. length l \<le> MAX_PENDING) (split_char newline s)"

section \<open>Line scanners\<close>

locale line_scanner =
  fixes scan :: "string \<Rightarrow> tool_identity list"
  assumes scan_line: "scan (s @ newline # t) = scan s @ scan t"
    and scan_empty: "scan [] = []"
begin

lemma scan_complete: "s = [] \<or> last s = newline \<Longrightarrow> scan (s @ t) = scan s @ scan t"
proof (cases s rule: rev_cases)
  case (snoc ys y)
  moreover assume "s = [] \<or> last s = newline"
  ultimately have "s = ys @ [newline]" by simp
  then show ?thesis
    using scan_line [of ys t] scan_line [of ys "[]"] by (simp add: scan_empty)
qed (simp add: scan_empty)

lemma scan_newline: "scan (s @ [newline]) = scan s"
  using scan_line [of s "[]"] by (simp add: scan_empty)

end

lemma sse_chunks_line: "sse_chunks parse (s @ newline # t) = sse_chunks parse s @ sse_chunks parse t"
  by (simp add: sse_chunks_def newline_def split_char_append)

lemma sse_chunks_empty: "sse_chunks parse [] = []"
  by (simp add: sse_chunks_def)

interpretation openai_scan: line_scanner "openai_invoked_stream parse" for parse
  by unfold_locales (simp_all add: openai_invoked_stream_def sse_chunks_line sse_chunks_empty)

interpretation gemini_scan: line_scanner "gemini_invoked_stream parse" for parse
  by unfold_locales (simp_all add: gemini_invoked_stream_def sse_chunks_line sse_chunks_empty)

interpretation anthropic_scan: line_scanner "anthropic_invoked_stream parse" for parse
  by unfold_locales (simp_all add: anthropic_invoked_stream_def sse_chunks_line sse_chunks_empty)

interpretation responses_scan: line_scanner "responses_invoked_stream parse" for parse
  by unfold_locales (simp_all add: responses_invoked_stream_def sse_chunks_line sse_chunks_empty)

interpretation bedrock_scan: line_scanner "bedrock_invoked_stream parse" for parse
  by unfold_locales
     (simp_all add: bedrock_invoked_stream_def newline_def split_char_append trim_def trim_left_def Let_def)

section \<open>Lemmas on the tap\<close>

lemma cut_lines_rev:
  "cut_lines s = (rev (dropWhile (\<lambda>c. c \<noteq> newline) (rev s)), rev (takeWhile (\<lambda>c. c \<noteq> newline) (rev s)))"
  by (simp add: cut_lines_def Let_def dropWhile_eq_drop rev_drop)

lemma cut_lines_append: "cut_lines s = (a, b) \<Longrightarrow> s = a @ b"
  by (auto simp: cut_lines_rev simp flip: rev_append)

lemma cut_lines_complete: "cut_lines s = (a, b) \<Longrightarrow> a = [] \<or> last a = newline"
  using hd_dropWhile [of "\<lambda>c. c \<noteq> newline" "rev s"] by (auto simp: cut_lines_rev last_rev)

lemma cut_lines_rest: "cut_lines s = (a, b) \<Longrightarrow> newline \<notin> set b"
  by (auto simp: cut_lines_def Let_def dest!: set_takeWhileD)

lemma split_char_prefix:
  "c \<notin> set b \<Longrightarrow> split_char c (b @ t) = (b @ hd (split_char c t)) # tl (split_char c t)"
  by (induction b) (auto split: list.splits)

lemma short_lines_piece: "short_lines (a @ b @ t) \<Longrightarrow> newline \<notin> set b \<Longrightarrow> length b \<le> MAX_PENDING"
proof -
  have "newline \<notin> set b \<Longrightarrow> \<exists>l \<in> set (split_char newline (a @ b @ t)). length b \<le> length l"
  proof (induction a)
    case Nil
    then show ?case by (simp add: split_char_prefix)
  next
    case (Cons x a)
    obtain w ws where ws: "split_char newline (a @ b @ t) = w # ws"
      by (cases "split_char newline (a @ b @ t)") auto
    with Cons show ?case by force
  qed
  then show "short_lines (a @ b @ t) \<Longrightarrow> newline \<notin> set b \<Longrightarrow> length b \<le> MAX_PENDING"
    by (auto simp: short_lines_def list_all_iff)
qed

lemma tap_writes_forwarded: "fst (tap_writes scan cs st) = concat cs"
  by (induction cs arbitrary: st) (simp_all add: tap_write_def split_beta Let_def)

context line_scanner
begin

lemma tap_writes_recorded:
  "short_lines (a @ tp_pending st @ concat cs @ t) \<Longrightarrow> newline \<notin> set (tp_pending st) \<Longrightarrow>
   \<exists>complete. tp_recorded (snd (tap_writes scan cs st)) = tp_recorded st @ scan complete
     \<and> (complete = [] \<or> last complete = newline)
     \<and> tp_pending st @ concat cs = complete @ tp_pending (snd (tap_writes scan cs st))"
proof (induction cs arbitrary: st a)
  case Nil
  show ?case by (rule exI [of _ "[]"]) (simp add: scan_empty)
next
  case (Cons c cs)
  obtain x r where cut: "cut_lines (tp_pending st @ c) = (x, r)" by fastforce
  have xr: "tp_pending st @ c = x @ r" by (rule cut_lines_append [OF cut])
  have r: "newline \<notin> set r" by (rule cut_lines_rest [OF cut])
  have x: "x = [] \<or> last x = newline" by (rule cut_lines_complete [OF cut])
  have "short_lines ((a @ x) @ r @ concat cs @ t)"
    using Cons.prems(1) xr by (metis append.assoc concat.simps(2))
  moreover from this r have "length r \<le> MAX_PENDING"
    by (rule short_lines_piece [of "a @ x" r])
  then have w: "snd (tap_write scan c st) =
      (if c = [] then st else st\<lparr> tp_pending := r, tp_recorded := tp_recorded st @ scan x \<rparr>)"
    using cut by (simp add: tap_write_def scan_empty)
  let ?st = "snd (tap_write scan c st)"
  have fin: "snd (tap_writes scan (c # cs) st) = snd (tap_writes scan cs ?st)"
    by (simp split: prod.splits)
  show ?case
  proof (cases "c = []")
    case True
    then show ?thesis
      using Cons.IH [of a st] Cons.prems fin w by simp
  next
    case False
    then have "tp_pending ?st = r" "tp_recorded ?st = tp_recorded st @ scan x"
      by (simp_all add: w)
    with Cons.IH [of "a @ x" ?st] calculation r obtain y where y:
        "tp_recorded (snd (tap_writes scan cs ?st)) = tp_recorded st @ scan x @ scan y"
        "y = [] \<or> last y = newline" "r @ concat cs = y @ tp_pending (snd (tap_writes scan cs ?st))"
      by auto
    show ?thesis
    proof (intro exI [of _ "x @ y"] conjI)
      show "tp_recorded (snd (tap_writes scan (c # cs) st)) = tp_recorded st @ scan (x @ y)"
        using y(1) scan_complete [OF x] fin by simp
      show "x @ y = [] \<or> last (x @ y) = newline"
        using x y(2) by (cases "y = []") auto
      show "tp_pending st @ concat (c # cs) = (x @ y) @ tp_pending (snd (tap_writes scan (c # cs) st))"
        using xr y(3) fin by (metis append.assoc concat.simps(2))
    qed
  qed
qed

lemma tap_response_recorded:
  assumes "short_lines (concat chunks @ final)"
  shows "tap_response scan chunks final = (concat chunks @ final, scan (concat chunks @ final))"
proof -
  obtain out st where w: "tap_writes scan chunks tap_init = (out, st)" by fastforce
  have "out = concat chunks"
    using tap_writes_forwarded [of scan chunks tap_init] w by simp
  moreover obtain complete where c: "tp_recorded st = scan complete" "complete = [] \<or> last complete = newline"
      "concat chunks = complete @ tp_pending st"
    using tap_writes_recorded [of "[]" tap_init chunks final] assms w by (auto simp: tap_init_def)
  have "(if s \<noteq> [] then scan (s @ [newline]) else []) = scan s" for s
    by (simp add: scan_newline scan_empty)
  from this [of "tp_pending st @ final"] c scan_complete [OF c(2), of "tp_pending st @ final"]
  have "tp_recorded st @ (if tp_pending st @ final \<noteq> [] then scan ((tp_pending st @ final) @ [newline]) else [])
      = scan (concat chunks @ final)"
    by simp
  ultimately show ?thesis
    using w by (simp add: tap_response_def tap_end_def Let_def)
qed

end

definition stream_scanner :: "(string \<Rightarrow> js option) \<Rightarrow> family \<Rightarrow> string \<Rightarrow> tool_identity list" where
  "stream_scanner parse fam =
     (case fam of
        Anthropic \<Rightarrow> anthropic_invoked_stream parse
      | OpenAI_Chat \<Rightarrow> openai_invoked_stream parse
      | Responses \<Rightarrow> responses_invoked_stream parse
      | Gemini \<Rightarrow> gemini_invoked_stream parse
      | Bedrock \<Rightarrow> bedrock_invoked_stream parse)"

section \<open>Properties of the tap\<close>

text \<open>The tap never alters the stream, and what it records does not depend on how the stream is cut
  into writes: it is what the adapter finds in the whole text, as long as no line is longer than
  64 KiB.\<close>

theorem tap_records_whole_stream:
  assumes "short_lines (concat chunks @ final)"
  shows "tap_response (stream_scanner parse fam) chunks final =
         (concat chunks @ final, stream_scanner parse fam (concat chunks @ final))"
  using assms openai_scan.tap_response_recorded gemini_scan.tap_response_recorded
    anthropic_scan.tap_response_recorded responses_scan.tap_response_recorded
    bedrock_scan.tap_response_recorded
  by (cases fam) (simp_all add: stream_scanner_def)

theorem tap_records_whole_stream_witness:
  "tap_response (stream_scanner (\<lambda>_. None) Gemini) [''dat'', ''a: {}''] ''tail'' =
   (concat [''dat'', ''a: {}''] @ ''tail'', stream_scanner (\<lambda>_. None) Gemini (concat [''dat'', ''a: {}''] @ ''tail''))"
  by (rule tap_records_whole_stream) (simp add: short_lines_def newline_def MAX_PENDING_def)

end
