(* ===== verification/Replacement_Map.thy ===== *)
theory Replacement_Map
  imports Prelude
begin

text \<open>
  The replacement map of one request (\<open>plugins/pseudonymization/replacementMap.ts\<close>): the
  forward map from values to placeholders and the reverse map back. The SHA-256 digest of a
  value, in hex, is the parameter \<open>digest\<close>.
\<close>

section \<open>Data\<close>

datatype mask_method = Pseudonymization | Anonymization

record replacement_map =
  rm_forward :: "(string \<times> string) list"
  rm_reverse :: "(string \<times> string) list"
  rm_counters :: "(string \<times> nat) list"
  rm_min_counters :: "(string \<times> nat) list"
  rm_method :: mask_method

definition new_map :: "mask_method \<Rightarrow> replacement_map" where
  "new_map m = \<lparr> rm_forward = [], rm_reverse = [], rm_counters = [], rm_min_counters = [], rm_method = m \<rparr>"

definition DEFAULT_PREFIXES :: "(string \<times> string) list" where
  "DEFAULT_PREFIXES = [
     (''profile-email'', ''MASKED_EMAIL''), (''profile-phone'', ''MASKED_PHONE_NUMBER''),
     (''profile-ssn'', ''MASKED_SOCIAL_SECURITY_NUMBER''),
     (''profile-credit-card-number'', ''MASKED_CREDIT_CARD_NUMBER''), (''profile-iban'', ''MASKED_IBAN''),
     (''profile-url'', ''MASKED_URL''), (''profile-nationalid'', ''MASKED_NATIONAL_ID''),
     (''profile-passport'', ''MASKED_PASSPORT''), (''profile-driverlicense'', ''MASKED_DRIVERS_LICENSE''),
     (''profile-username-password'', ''MASKED_USER_PASSWORD''), (''profile-address'', ''MASKED_ADDRESS''),
     (''profile-person'', ''MASKED_PERSON''), (''profile-org'', ''MASKED_ORG''),
     (''profile-location'', ''MASKED_LOCATION''), (''profile-nationality'', ''MASKED_NATIONALITY''),
     (''profile-ethnicity'', ''MASKED_ETHNICITY_OR_RACE''), (''profile-gender'', ''MASKED_GENDER''),
     (''profile-pronouns-gender'', ''MASKED_PRONOUNS_GENDER''),
     (''profile-religious-group'', ''MASKED_RELIGIOUS_GROUP''),
     (''profile-political-group'', ''MASKED_POLITICAL_GROUP''),
     (''profile-sexual-orientation'', ''MASKED_SEXUAL_ORIENTATION''),
     (''profile-trade-union'', ''MASKED_TRADE_UNION''), (''profile-sensitive-data'', ''MASKED_SENSITIVE_DATA''),
     (''profile-itin'', ''MASKED_ITIN''), (''profile-bank-account'', ''MASKED_BANK_ACCOUNT_NUMBER''),
     (''profile-medical-license'', ''MASKED_MEDICAL_LICENSE''), (''profile-ip-address'', ''MASKED_IP_ADDRESS''),
     (''custom'', ''MASKED_CUSTOM'')]"

section \<open>Content-derived ids\<close>

definition HASH_ID_DIGITS :: nat where
  "HASH_ID_DIGITS = 8"

definition hex_digit :: "char \<Rightarrow> nat" where
  "hex_digit c =
     (if is_digit c then of_char c - 48
      else if CHR ''a'' \<le> c \<and> c \<le> CHR ''f'' then of_char c - 87
      else if CHR ''A'' \<le> c \<and> c \<le> CHR ''F'' then of_char c - 55 else 0)"

text \<open>\<open>BigInt(`0x${s}`)\<close>\<close>

definition hex_value :: "string \<Rightarrow> nat" where
  "hex_value s = foldl (\<lambda>n c. 16 * n + hex_digit c) 0 s"

definition pad_start :: "nat \<Rightarrow> char \<Rightarrow> string \<Rightarrow> string" where
  "pad_start n c s = replicate (n - length s) c @ s"

definition id_from_digest :: "string \<Rightarrow> nat \<Rightarrow> string" where
  "id_from_digest dig level =
     (let digits = HASH_ID_DIGITS + 2 * level;
          window = take (min (12 + 4 * level) (length dig)) dig
      in pad_start digits (CHR ''0'') (show_nat (hex_value window mod 10 ^ digits)))"

text \<open>\<open>/^(?:https?|wss?|ftps?):\/\//\<close>: the scheme an URL value opens with, or the empty string.\<close>

definition url_scheme :: "string \<Rightarrow> string" where
  "url_scheme v =
     (case find (\<lambda>p. prefix p v) [''https://'', ''http://'', ''wss://'', ''ws://'', ''ftps://'', ''ftp://''] of
        None \<Rightarrow> [] | Some p \<Rightarrow> p)"

definition placeholder_prefix :: "string \<Rightarrow> string option \<Rightarrow> string" where
  "placeholder_prefix entity_type custom =
     (case custom of
        Some c \<Rightarrow> if c \<noteq> [] then c
                  else (case map_of DEFAULT_PREFIXES entity_type of None \<Rightarrow> ''MASKED_UNKNOWN'' | Some p \<Rightarrow> p)
      | None \<Rightarrow> (case map_of DEFAULT_PREFIXES entity_type of None \<Rightarrow> ''MASKED_UNKNOWN'' | Some p \<Rightarrow> p))"

definition scheme_for :: "string \<Rightarrow> string \<Rightarrow> string" where
  "scheme_for pre v = (if pre = ''MASKED_URL'' then url_scheme v else [])"

text \<open>The \<open>render\<close> closure.\<close>

definition render :: "string \<Rightarrow> string \<Rightarrow> string \<Rightarrow> string" where
  "render pre v i =
     (if pre = ''MASKED_URL'' then scheme_for pre v @ ''masked-url-'' @ i @ ''.invalid''
      else pre @ ''_'' @ i)"

text \<open>The collision probing: a placeholder of the reverse map that stands for another value
  widens the id, until the digest is used up.\<close>

definition taken :: "(string \<times> string) list \<Rightarrow> string \<Rightarrow> string \<Rightarrow> bool" where
  "taken reverse v p = (map_of reverse p \<noteq> None \<and> map_of reverse p \<noteq> Some v)"

function probe :: "(string \<times> string) list \<Rightarrow> nat \<Rightarrow> string \<Rightarrow> string \<Rightarrow> string \<Rightarrow> nat \<Rightarrow> string" where
  "probe reverse sz dig pre v level =
     (let p = render pre v (id_from_digest dig level) in
      if \<not> taken reverse v p then p
      else let level' = level + 1 in
        if 12 + 4 * level' > length dig then render pre v (id_from_digest dig level' @ show_nat sz)
        else probe reverse sz dig pre v level')"
  by pat_completeness auto
termination
  by (relation "measure (\<lambda>(_, _, dig, _, _, level). length dig - level)") auto

declare probe.simps [simp del]

section \<open>Operations\<close>

definition count_of :: "(string \<times> nat) list \<Rightarrow> string \<Rightarrow> nat" where
  "count_of m k = (case map_of m k of None \<Rightarrow> 0 | Some n \<Rightarrow> n)"

definition reserve_min_count :: "string \<Rightarrow> nat \<Rightarrow> replacement_map \<Rightarrow> replacement_map" where
  "reserve_min_count pre n m =
     (if n > count_of (rm_min_counters m) pre
      then m\<lparr> rm_min_counters := AList.update pre n (rm_min_counters m) \<rparr> else m)"

text \<open>The reverse entries of a fresh placeholder: the placeholder itself and, for an URL with a
  scheme, the alias without it unless that is taken.\<close>

definition add_reverse :: "string \<Rightarrow> string \<Rightarrow> string \<Rightarrow> (string \<times> string) list \<Rightarrow> (string \<times> string) list" where
  "add_reverse scheme p v reverse =
     (let r = AList.update p v reverse;
          bare = drop (length scheme) p
      in if scheme \<noteq> [] \<and> map_of r bare = None then AList.update bare (drop (length scheme) v) r else r)"

definition get_placeholder ::
  "(string \<Rightarrow> string) \<Rightarrow> string \<Rightarrow> string \<Rightarrow> string option \<Rightarrow> replacement_map \<Rightarrow> string \<times> replacement_map" where
  "get_placeholder digest entity_type v custom m =
     (case map_of (rm_forward m) v of
        Some p \<Rightarrow> (p, m)
      | None \<Rightarrow>
          let pre = placeholder_prefix entity_type custom in
          case rm_method m of
            Pseudonymization \<Rightarrow>
              (let p = probe (rm_reverse m) (length (rm_forward m)) (digest v) pre v 0
               in (p, m\<lparr> rm_forward := AList.update v p (rm_forward m),
                         rm_reverse := add_reverse (scheme_for pre v) p v (rm_reverse m) \<rparr>))
          | Anonymization \<Rightarrow>
              (let n = max (count_of (rm_counters m) entity_type) (count_of (rm_min_counters m) pre) + 1;
                   p = render pre v (show_nat n)
               in (p, m\<lparr> rm_counters := AList.update entity_type n (rm_counters m),
                         rm_forward := AList.update v p (rm_forward m) \<rparr>)))"

text \<open>The prefix up to the last underscore, when that is not the first character.\<close>

definition upto_underscore :: "string \<Rightarrow> string option" where
  "upto_underscore p =
     (let t = dropWhile (\<lambda>c. c \<noteq> CHR ''_'') (rev p) in
      if length t > 1 then Some (rev t) else None)"

definition known_prefixes :: "(string \<times> string) list \<Rightarrow> string list" where
  "known_prefixes reverse = uniq (collect_some upto_underscore (map fst reverse))"

definition unmask_one :: "replacement_map \<Rightarrow> string \<Rightarrow> string option" where
  "unmask_one m p = map_of (rm_reverse m) p"

definition map_size :: "replacement_map \<Rightarrow> nat" where
  "map_size m = length (rm_forward m)"

section \<open>Lemmas\<close>

text \<open>The invariant: every placeholder of the forward map leads back to its value.\<close>

definition mirrored :: "replacement_map \<Rightarrow> bool" where
  "mirrored m = (\<forall>v p. map_of (rm_forward m) v = Some p \<longrightarrow> map_of (rm_reverse m) p = Some v)"

lemma mirroredD: "mirrored m \<Longrightarrow> map_of (rm_forward m) v = Some p \<Longrightarrow> map_of (rm_reverse m) p = Some v"
  by (simp add: mirrored_def)

lemma mirrored_inj:
  "mirrored m \<Longrightarrow> map_of (rm_forward m) v = Some p \<Longrightarrow> map_of (rm_forward m) w = Some p \<Longrightarrow> v = w"
  unfolding mirrored_def by (metis option.inject)

lemma mirrored_new [simp]: "mirrored (new_map meth)"
  by (simp add: mirrored_def new_map_def)

text \<open>Some candidate of the ladder is free for the value.\<close>

definition ladder_free :: "(string \<times> string) list \<Rightarrow> string \<Rightarrow> string \<Rightarrow> string \<Rightarrow> bool" where
  "ladder_free reverse dig pre v =
     list_ex (\<lambda>level. \<not> taken reverse v (render pre v (id_from_digest dig level)))
       (0 # filter (\<lambda>l. 12 + 4 * l \<le> length dig) [1..<Suc (length dig)])"

lemma probe_free:
  "\<exists>l \<ge> level. (l = level \<or> 12 + 4 * l \<le> length dig) \<and> \<not> taken reverse v (render pre v (id_from_digest dig l)) \<Longrightarrow>
   \<not> taken reverse v (probe reverse sz dig pre v level)"
proof (induction reverse sz dig pre v level rule: probe.induct)
  case (1 reverse sz dig pre v level)
  let ?p = "render pre v (id_from_digest dig level)"
  show ?case
  proof (cases "taken reverse v ?p")
    case False
    then show ?thesis by (simp add: probe.simps [of _ _ _ _ _ level] Let_def)
  next
    case True
    obtain l where l: "l \<ge> level" "l = level \<or> 12 + 4 * l \<le> length dig"
        "\<not> taken reverse v (render pre v (id_from_digest dig l))"
      using 1(2) by blast
    then have "l \<noteq> level" using True by auto
    with l have l': "l \<ge> level + 1" "12 + 4 * l \<le> length dig" by auto
    then have le: "\<not> 12 + 4 * (level + 1) > length dig"
      using mult_le_mono2 [OF l'(1), of 4] by simp
    have "\<not> taken reverse v (probe reverse sz dig pre v (level + 1))"
      using 1(1) [of ?p "level + 1"] True le l l' by auto
    then show ?thesis
      using True le by (simp add: probe.simps [of _ _ _ _ _ level] Let_def)
  qed
qed

lemma probe_not_taken:
  assumes "ladder_free reverse dig pre v"
  shows "\<not> taken reverse v (probe reverse sz dig pre v 0)"
proof (rule probe_free)
  from assms show "\<exists>l \<ge> 0. (l = 0 \<or> 12 + 4 * l \<le> length dig) \<and> \<not> taken reverse v (render pre v (id_from_digest dig l))"
    by (auto simp: ladder_free_def list_ex_iff)
qed

lemma probe_first:
  "\<not> taken reverse v (render pre v (id_from_digest dig 0)) \<Longrightarrow>
   probe reverse sz dig pre v 0 = render pre v (id_from_digest dig 0)"
  by (simp add: probe.simps)

lemma add_reverse_same [simp]: "map_of (add_reverse scheme p v reverse) p = Some v"
  by (auto simp: add_reverse_def Let_def)

lemma add_reverse_keeps:
  "map_of reverse q = Some w \<Longrightarrow> q \<noteq> p \<Longrightarrow> map_of (add_reverse scheme p v reverse) q = Some w"
  by (auto simp: add_reverse_def Let_def)

text \<open>What the operation does to the maps, by method.\<close>

lemma get_placeholder_forward:
  "map_of (rm_forward (snd (get_placeholder digest ty v custom m))) w =
   (if w = v then Some (fst (get_placeholder digest ty v custom m)) else map_of (rm_forward m) w)"
  by (cases "rm_method m") (auto simp: get_placeholder_def Let_def split: option.splits)

lemma get_placeholder_method [simp]:
  "rm_method (snd (get_placeholder digest ty v custom m)) = rm_method m"
  by (cases "rm_method m") (auto simp: get_placeholder_def Let_def split: option.splits)

lemma get_placeholder_known:
  "map_of (rm_forward m) v = Some p \<Longrightarrow> get_placeholder digest ty v custom m = (p, m)"
  by (simp add: get_placeholder_def)

lemma get_placeholder_reverse:
  "rm_method m = Pseudonymization \<Longrightarrow> map_of (rm_forward m) v = None \<Longrightarrow>
   get_placeholder digest ty v custom m =
   (let p = probe (rm_reverse m) (length (rm_forward m)) (digest v) (placeholder_prefix ty custom) v 0
    in (p, m\<lparr> rm_forward := AList.update v p (rm_forward m),
              rm_reverse := add_reverse (scheme_for (placeholder_prefix ty custom) v) p v (rm_reverse m) \<rparr>))"
  by (simp add: get_placeholder_def Let_def)

lemma get_placeholder_mirrored:
  assumes "mirrored m" and "rm_method m = Pseudonymization"
    and "ladder_free (rm_reverse m) (digest v) (placeholder_prefix ty custom) v"
  shows "mirrored (snd (get_placeholder digest ty v custom m))"
proof (cases "map_of (rm_forward m) v")
  case (Some p)
  with assms(1) show ?thesis by (simp add: get_placeholder_known)
next
  case None
  let ?pre = "placeholder_prefix ty custom"
  let ?p = "probe (rm_reverse m) (length (rm_forward m)) (digest v) ?pre v 0"
  have nt: "\<not> taken (rm_reverse m) v ?p"
    by (rule probe_not_taken [OF assms(3)])
  have "map_of (add_reverse (scheme_for ?pre v) ?p v (rm_reverse m)) q = Some w"
    if "map_of (rm_forward m) w = Some q" for w q
  proof (cases "q = ?p")
    case True
    then have "map_of (rm_reverse m) ?p = Some w"
      using mirroredD [OF assms(1) that] by simp
    then have "w = v" using nt by (simp add: taken_def)
    with that None show ?thesis by simp
  next
    case False
    then show ?thesis
      by (rule add_reverse_keeps [OF mirroredD [OF assms(1) that]])
  qed
  with None assms(2) show ?thesis
    by (simp add: get_placeholder_reverse Let_def mirrored_def)
qed

section \<open>Properties of the map\<close>

text \<open>A minted placeholder leads back to its value, and minting it breaks no earlier one: on a map
  whose placeholders all lead back, the operation returns a placeholder that unmasks to the value,
  keeps every earlier value's placeholder and unmasking, and keeps the invariant, as long as one
  candidate of the value's ladder of ids is free.\<close>

theorem minted_placeholder_unmasks:
  assumes "mirrored m" and "rm_method m = Pseudonymization"
    and "ladder_free (rm_reverse m) (digest v) (placeholder_prefix ty custom) v"
    and "get_placeholder digest ty v custom m = (p, m')"
  shows "unmask_one m' p = Some v \<and> mirrored m' \<and>
         list_all (\<lambda>(w, q). map_of (rm_forward m) w \<noteq> Some q \<or>
                     map_of (rm_forward m') w = Some q \<and> unmask_one m' q = Some w) (rm_forward m)"
proof -
  have mir: "mirrored m'"
    using get_placeholder_mirrored [where digest = digest and v = v and ty = ty and custom = custom, OF assms(1-3)]
      assms(4) by simp
  have fwd: "map_of (rm_forward m') w = (if w = v then Some p else map_of (rm_forward m) w)" for w
    using get_placeholder_forward [of digest ty v custom m w] assms(4) by simp
  have "map_of (rm_forward m') w = Some q" if "map_of (rm_forward m) w = Some q" for w q
    using that fwd get_placeholder_known [OF that, of digest ty custom] assms(4) by (cases "w = v") auto
  then show ?thesis
    using mir fwd mirroredD [OF mir] by (auto simp: unmask_one_def list_all_iff)
qed

definition toy_digest :: "string \<Rightarrow> string" where
  "toy_digest v = replicate 62 (CHR ''a'') @ (if v = ''Anna'' then ''01'' else ''02'')"

theorem minted_placeholder_unmasks_witness:
  "let (p, m') = get_placeholder toy_digest ''profile-person'' ''Anna'' None (new_map Pseudonymization) in
   unmask_one m' p = Some ''Anna'' \<and> mirrored m' \<and>
   list_all (\<lambda>(w, q). map_of (rm_forward (new_map Pseudonymization)) w \<noteq> Some q \<or>
               map_of (rm_forward m') w = Some q \<and> unmask_one m' q = Some w) (rm_forward (new_map Pseudonymization))"
proof -
  have a: "rm_method (new_map Pseudonymization) = Pseudonymization"
    by (simp add: new_map_def)
  have b: "ladder_free (rm_reverse (new_map Pseudonymization)) (toy_digest ''Anna'')
      (placeholder_prefix ''profile-person'' None) ''Anna''"
    by (simp add: new_map_def ladder_free_def taken_def)
  from minted_placeholder_unmasks [where digest = toy_digest and v = "''Anna''" and ty = "''profile-person''"
      and custom = None, OF mirrored_new a b surjective_pairing] show ?thesis
    by (simp only: split_beta Let_def)
qed

text \<open>Placeholders are stable across requests: a value not yet mapped gets the same placeholder in
  two different requests whenever its first candidate is free in both, whatever else the requests
  have masked.\<close>

theorem placeholder_stable_across_requests:
  assumes "rm_method m = Pseudonymization" and "rm_method m' = Pseudonymization"
    and "map_of (rm_forward m) v = None" and "map_of (rm_forward m') v = None"
    and "\<not> taken (rm_reverse m) v (render (placeholder_prefix ty custom) v (id_from_digest (digest v) 0))"
    and "\<not> taken (rm_reverse m') v (render (placeholder_prefix ty custom) v (id_from_digest (digest v) 0))"
  shows "fst (get_placeholder digest ty v custom m) = fst (get_placeholder digest ty v custom m')"
  using assms by (simp add: get_placeholder_reverse Let_def probe_first)

theorem placeholder_stable_across_requests_witness:
  "fst (get_placeholder toy_digest ''profile-person'' ''Anna'' None (new_map Pseudonymization)) =
   fst (get_placeholder toy_digest ''profile-person'' ''Anna'' None
          ((new_map Pseudonymization)\<lparr> rm_forward := [(''Bo'', ''P_1'')], rm_reverse := [(''P_1'', ''Bo'')] \<rparr>))"
  by (rule placeholder_stable_across_requests)
     (simp_all add: new_map_def taken_def render_def placeholder_prefix_def DEFAULT_PREFIXES_def)

text \<open>Anonymization counts per entity type, but the token shows only the prefix: two entity types
  configured with one prefix get the same token for two different values, so the model cannot
  tell them apart.\<close>

theorem anonymized_tokens_clash:
  "let (p, m) = get_placeholder digest ''profile-person'' ''Anna'' (Some ''MASKED_PARTY'') (new_map Anonymization);
       (q, m') = get_placeholder digest ''profile-org'' ''Acme'' (Some ''MASKED_PARTY'') m
   in p = ''MASKED_PARTY_1'' \<and> q = ''MASKED_PARTY_1''"
proof -
  have "show_nat (Suc 0) = ''1''" by code_simp
  then show ?thesis
    by (simp add: get_placeholder_def new_map_def placeholder_prefix_def render_def count_of_def Let_def)
qed

end
