(* ===== verification/Fabricated_Data.thy ===== *)
theory Fabricated_Data
  imports Replacement_Map
begin

text \<open>
  Fake values for the \<open>fabricated_data\<close> strategy (\<open>plugins/pseudonymization/fabricatedData.ts\<close>).
  \<open>Math.random\<close> is a source of draws \<open>rnd\<close>, one rational in \<open>[0, 1)\<close> per call, and the number of
  draws taken so far is the state.
\<close>

type_synonym draws = "nat \<Rightarrow> rat"

definition FIRST_NAMES :: "string list" where
  "FIRST_NAMES = [
     ''Maria'', ''James'', ''Aisha'', ''Wei'', ''Carlos'', ''Fatima'', ''Kenji'', ''Olga'',
     ''Raj'', ''Sofia'', ''Ahmed'', ''Yuki'', ''Igor'', ''Amara'', ''Liam'', ''Priya'',
     ''Miguel'', ''Chen'', ''Nadia'', ''Dmitri'', ''Zara'', ''Kofi'', ''Elena'', ''Hiroshi'']"

definition LAST_NAMES :: "string list" where
  "LAST_NAMES = [
     ''Garcia'', ''Johnson'', ''Patel'', ''Kim'', ''Nguyen'', ''Mueller'', ''Santos'',
     ''Ivanova'', ''Ali'', ''Tanaka'', ''Andersson'', ''Cohen'', ''Okafor'', ''Petrov'',
     ''Reyes'', ''Singh'', ''Yamamoto'', ''Fischer'', ''Khan'', ''Martinez'']"

definition STREET_NAMES :: "string list" where
  "STREET_NAMES = [
     ''Oak'', ''Maple'', ''Cedar'', ''Pine'', ''Elm'', ''Birch'', ''Willow'', ''Ash'',
     ''Spruce'', ''Cherry'', ''River'', ''Lake'', ''Hill'', ''Park'', ''Valley'']"

definition STREET_SUFFIXES :: "string list" where
  "STREET_SUFFIXES = [''St'', ''Ave'', ''Blvd'', ''Dr'', ''Rd'', ''Ln'', ''Way'', ''Ct'']"

definition CITIES :: "string list" where
  "CITIES = [
     ''Springfield'', ''Fairview'', ''Madison'', ''Georgetown'', ''Salem'',
     ''Burlington'', ''Greenville'', ''Bristol'', ''Chester'', ''Ashland'']"

definition ORGS :: "string list" where
  "ORGS = [
     ''Apex Industries'', ''Horizon Corp'', ''Pinnacle Systems'', ''Summit Group'',
     ''Nova Partners'', ''Atlas Solutions'', ''Zenith Labs'', ''Vanguard Inc'',
     ''Meridian Services'', ''Catalyst Technologies'']"

definition UNION_NAMES :: "string list" where
  "UNION_NAMES = [''AWFU'', ''MWBA'', ''NWSU'', ''GPWU'', ''SWLA'', ''TUWA'']"

text \<open>\<open>Math.floor(Math.random() * n)\<close>\<close>

definition draw :: "draws \<Rightarrow> nat \<Rightarrow> nat \<Rightarrow> nat \<times> nat" where
  "draw rnd n k = (nat \<lfloor>rnd k * of_nat n\<rfloor>, k + 1)"

definition pick :: "draws \<Rightarrow> string list \<Rightarrow> nat \<Rightarrow> string \<times> nat" where
  "pick rnd xs k = (let (i, k') = draw rnd (length xs) k in (xs ! i, k'))"

fun digit_draws :: "draws \<Rightarrow> nat \<Rightarrow> nat \<Rightarrow> nat list \<times> nat" where
  "digit_draws rnd 0 k = ([], k)"
| "digit_draws rnd (Suc n) k =
     (let (d, k') = draw rnd 10 k; (ds, k'') = digit_draws rnd n k' in (d # ds, k''))"

definition digits_text :: "nat list \<Rightarrow> string" where
  "digits_text ds = concat (map show_nat ds)"

definition random_digits :: "draws \<Rightarrow> nat \<Rightarrow> nat \<Rightarrow> string \<times> nat" where
  "random_digits rnd n k = (let (ds, k') = digit_draws rnd n k in (digits_text ds, k'))"

text \<open>The original's separators around the new digits (\<open>fake[di++] || '0'\<close>).\<close>

fun refill_digits :: "string \<Rightarrow> string \<Rightarrow> string" where
  "refill_digits [] fake = []"
| "refill_digits (c # cs) fake =
     (if is_digit c
      then (case fake of [] \<Rightarrow> CHR ''0'' # refill_digits cs [] | d # ds \<Rightarrow> d # refill_digits cs ds)
      else c # refill_digits cs fake)"

text \<open>The weighted sum of the Luhn scheme, from the last digit to the first.\<close>

definition luhn_double :: "nat \<Rightarrow> nat" where
  "luhn_double n = (if 2 * n > 9 then 2 * n - 9 else 2 * n)"

fun luhn_sum :: "bool \<Rightarrow> nat list \<Rightarrow> nat" where
  "luhn_sum alternate [] = 0"
| "luhn_sum alternate (d # ds) = (if alternate then luhn_double d else d) + luhn_sum (\<not> alternate) ds"

definition luhn_digits :: "draws \<Rightarrow> nat \<Rightarrow> nat \<Rightarrow> nat list \<times> nat" where
  "luhn_digits rnd len k =
     (let (ds, k') = digit_draws rnd (len - 1) k;
          check = (10 - luhn_sum True (rev ds) mod 10) mod 10
      in (ds @ [check], k'))"

definition generate_luhn_valid :: "draws \<Rightarrow> nat \<Rightarrow> nat \<Rightarrow> string \<times> nat" where
  "generate_luhn_valid rnd len k = (let (ds, k') = luhn_digits rnd len k in (digits_text ds, k'))"

definition redacted :: "draws \<Rightarrow> nat \<Rightarrow> string \<times> nat" where
  "redacted rnd k = (let (d, k') = random_digits rnd 8 k in (''REDACTED_'' @ d, k'))"

definition generate_once :: "draws \<Rightarrow> string \<Rightarrow> string \<Rightarrow> nat \<Rightarrow> string \<times> nat" where
  "generate_once rnd ty original k =
     (if ty = ''profile-person'' then
        (let (a, k1) = pick rnd FIRST_NAMES k; (b, k2) = pick rnd LAST_NAMES k1 in (a @ '' '' @ b, k2))
      else if ty = ''profile-email'' then
        (let (a, k1) = pick rnd FIRST_NAMES k; (d, k2) = random_digits rnd 3 k1
         in (lower a @ d @ ''@example.com'', k2))
      else if ty = ''profile-phone'' then
        (let (d, k1) = random_digits rnd (length (filter is_digit original)) k
         in (refill_digits original d, k1))
      else if ty = ''profile-address'' then
        (let (n, k1) = draw rnd 9000 k; (s, k2) = pick rnd STREET_NAMES k1; (u, k3) = pick rnd STREET_SUFFIXES k2
         in (show_nat (n + 100) @ '' '' @ s @ '' '' @ u, k3))
      else if ty = ''profile-ssn'' then
        (let (a, k1) = random_digits rnd 3 k; (b, k2) = random_digits rnd 2 k1; (c, k3) = random_digits rnd 4 k2
         in (a @ ''-'' @ b @ ''-'' @ c, k3))
      else if ty = ''profile-credit-card-number'' then
        generate_luhn_valid rnd (length (filter (\<lambda>c. \<not> is_space c \<and> c \<noteq> CHR ''-'') original)) k
      else if ty = ''profile-url'' then
        (let (d, k1) = random_digits rnd 8 k in (''https://example.com/'' @ d, k1))
      else if ty = ''profile-location'' then pick rnd CITIES k
      else if ty = ''profile-org'' then pick rnd ORGS k
      else if ty = ''profile-nationality'' then (''[NATIONALITY]'', k)
      else if ty = ''profile-ethnicity'' then (''[ETHNICITY]'', k)
      else if ty = ''profile-gender'' then (''[GENDER]'', k)
      else if ty = ''profile-religious-group'' then (''[RELIGION]'', k)
      else if ty = ''profile-political-group'' then (''[POLITICAL_GROUP]'', k)
      else if ty = ''profile-sexual-orientation'' then (''[SEXUAL_ORIENTATION]'', k)
      else if ty = ''profile-trade-union'' then pick rnd UNION_NAMES k
      else redacted rnd k)"

text \<open>The \<open>do \<dots> while\<close> loop: the first attempt and at most nine more.\<close>

fun generate_tries :: "draws \<Rightarrow> (string \<times> string) list \<Rightarrow> string \<Rightarrow> string \<Rightarrow> nat \<Rightarrow> nat \<Rightarrow> string \<times> nat" where
  "generate_tries rnd reverse ty original 0 k = generate_once rnd ty original k"
| "generate_tries rnd reverse ty original (Suc n) k =
     (let (fake, k') = generate_once rnd ty original k in
      if fake = original \<or> map_of reverse fake \<noteq> None
      then generate_tries rnd reverse ty original n k' else (fake, k'))"

definition generate_fake_value :: "draws \<Rightarrow> string \<Rightarrow> string \<Rightarrow> replacement_map \<Rightarrow> nat \<Rightarrow> string \<times> nat" where
  "generate_fake_value rnd ty original m k = generate_tries rnd (rm_reverse m) ty original 9 k"

section \<open>The Luhn check\<close>

text \<open>The specification: the weighted sum with the check digit undoubled is a multiple of ten.\<close>

definition luhn_valid :: "nat list \<Rightarrow> bool" where
  "luhn_valid ds = (luhn_sum False (rev ds) mod 10 = 0)"

lemma luhn_check_digit: "luhn_valid (ds @ [(10 - luhn_sum True (rev ds) mod 10) mod 10])"
proof -
  have "((10 - n mod 10) mod 10 + n) mod 10 = 0" for n :: nat
  proof -
    have n: "n = 10 * (n div 10) + n mod 10" "n mod 10 < 10" by simp_all
    have "((10 - r) mod 10 + (10 * q + r)) mod 10 = 0" if "r < 10" for q r :: nat
    proof (cases "r = 0")
      case False
      with that have "(10 - r) mod 10 + (10 * q + r) = 10 * (q + 1)" by simp
      then show ?thesis by (metis mod_mult_self1_is_0)
    qed simp
    from this [OF n(2), of "n div 10"] show ?thesis by (simp only: n(1) [symmetric])
  qed
  from this [of "luhn_sum True (rev ds)"] show ?thesis
    by (simp only: luhn_valid_def rev_append rev.simps append_Nil append_Cons luhn_sum.simps if_False not_False_eq_True)
qed

lemma digit_draws_length: "length (fst (digit_draws rnd n k)) = n"
  by (induction n arbitrary: k) (auto simp: split_beta draw_def Let_def)

lemma digit_draws_digits:
  assumes "\<And>k. 0 \<le> rnd k \<and> rnd k < 1"
  shows "\<forall>d \<in> set (fst (digit_draws rnd n k)). d < 10"
proof (induction n arbitrary: k)
  case (Suc n)
  have "rnd k * 10 < 10" using assms [of k] by simp
  then have "nat \<lfloor>rnd k * 10\<rfloor> < 10" by linarith
  with Suc show ?case by (auto simp: split_beta draw_def Let_def)
qed simp

text \<open>A fabricated card number is well formed for every length and every random source: it has the
  requested number of digits and passes the Luhn check.\<close>

theorem fabricated_card_luhn:
  assumes "0 < len" and "\<And>k. 0 \<le> rnd k \<and> rnd k < 1"
  shows "luhn_valid (fst (luhn_digits rnd len k)) \<and> length (fst (luhn_digits rnd len k)) = len \<and>
         list_all (\<lambda>d. d < 10) (fst (luhn_digits rnd len k))"
  using assms(1) luhn_check_digit digit_draws_length [of rnd "len - 1" k] digit_draws_digits [where n = "len - 1", OF assms(2)]
  by (auto simp: luhn_digits_def split_beta Let_def list_all_iff)

theorem fabricated_card_luhn_witness:
  "luhn_valid (fst (luhn_digits (\<lambda>_. 1 / 2) 16 0)) \<and> length (fst (luhn_digits (\<lambda>_. 1 / 2) 16 0)) = 16 \<and>
   list_all (\<lambda>d. d < 10) (fst (luhn_digits (\<lambda>_. 1 / 2) 16 0))"
  by (rule fabricated_card_luhn) simp_all

end
