(* ===== verification/Text_Scan.thy ===== *)
theory Text_Scan
  imports Prelude
begin

text \<open>
  Global replacement by an alternation of literals, \<open>text.replace(/k1|k2|\<dots>/g, f)\<close> with the literals
  escaped and sorted by length, the longest first: the scan that the unmasker, the stream buffer
  and the propagation of masked values share. At each position the first alternative that
  matches is replaced and the scan goes on after it.

  The lemmas say when a text can be cut in two and scanned in pieces (what streaming relies on),
  and what the scan does to a text assembled from literals and the gaps between them (what the
  round trip of masking relies on).
\<close>

text \<open>\<open>[...].sort((a, b) => b.length - a.length)\<close>, a stable sort.\<close>

definition by_length :: "string list \<Rightarrow> string list" where
  "by_length keys = sort_key (\<lambda>k. - int (length k)) keys"

definition match_at :: "string list \<Rightarrow> string \<Rightarrow> string option" where
  "match_at keys s = find (\<lambda>k. k \<noteq> [] \<and> prefix k s) keys"

lemma match_at_SomeD: "match_at keys s = Some k \<Longrightarrow> k \<in> set keys \<and> k \<noteq> [] \<and> prefix k s"
  unfolding match_at_def by (auto simp: find_Some_iff)

lemma match_at_None: "match_at keys s = None \<longleftrightarrow> (\<forall>k \<in> set keys. k = [] \<or> \<not> prefix k s)"
  unfolding match_at_def by (auto simp: find_None_iff)

lemma match_at_shorter: "match_at keys (c # s) = Some k \<Longrightarrow> length (drop (length k) (c # s)) < length (c # s)"
  by (drule match_at_SomeD) (cases k, auto)

text \<open>\<open>f\<close> renders a match; it may see the character before it and the text from the match on, as
  the replacer of \<open>String.replace\<close> does through its offset argument.\<close>

function scan_from :: "string list \<Rightarrow> (char option \<Rightarrow> string \<Rightarrow> string \<Rightarrow> string) \<Rightarrow> char option \<Rightarrow> string \<Rightarrow> string" where
  "scan_from keys f before [] = []"
| "scan_from keys f before (c # s) =
     (case match_at keys (c # s) of
        Some k \<Rightarrow> f before k (drop (length k) (c # s)) @ scan_from keys f (Some (last k)) (drop (length k) (c # s))
      | None \<Rightarrow> c # scan_from keys f (Some c) s)"
  by pat_completeness auto
termination
  by (relation "measure (\<lambda>(_, _, _, s). length s)") (auto dest: match_at_shorter)

declare scan_from.simps(2) [simp del]

text \<open>The context-free case: every match is replaced by a value of its own.\<close>

definition scan_text :: "string list \<Rightarrow> (string \<Rightarrow> string) \<Rightarrow> string \<Rightarrow> string" where
  "scan_text keys g s = scan_from keys (\<lambda>_ k _. g k) None s"

lemma scan_from_context:
  "scan_from keys (\<lambda>_ k _. g k) before s = scan_from keys (\<lambda>_ k _. g k) before' s"
proof (induction s arbitrary: before before' rule: length_induct)
  case (1 s)
  show ?case
  proof (cases s)
    case (Cons c t)
    show ?thesis
    proof (cases "match_at keys (c # t)")
      case None
      have "length t < length s" by (simp add: Cons)
      with 1 have "scan_from keys (\<lambda>_ k _. g k) b t = scan_from keys (\<lambda>_ k _. g k) b' t" for b b' by blast
      from this [of "Some c" "Some c"] show ?thesis
        by (simp add: Cons scan_from.simps(2) None)
    next
      case (Some k)
      then show ?thesis by (simp add: Cons scan_from.simps(2))
    qed
  qed simp
qed

lemma scan_text_Nil [simp]: "scan_text keys g [] = []"
  by (simp add: scan_text_def)

lemma scan_text_Cons:
  "scan_text keys g (c # s) =
   (case match_at keys (c # s) of
      Some k \<Rightarrow> g k @ scan_text keys g (drop (length k) (c # s))
    | None \<Rightarrow> c # scan_text keys g s)"
  unfolding scan_text_def scan_from.simps(2)
  by (auto split: option.splits intro: scan_from_context)

lemma scan_text_no_keys [simp]: "scan_text [] g s = s"
  by (induction s) (simp_all add: scan_text_Cons match_at_def)

section \<open>Cutting a text\<close>

text \<open>No literal that starts in \<open>x\<close> reaches into \<open>y\<close>.\<close>

definition no_cross :: "string list \<Rightarrow> string \<Rightarrow> string \<Rightarrow> bool" where
  "no_cross keys x y = (\<forall>a b. x = a @ b \<and> b \<noteq> [] \<longrightarrow> (\<forall>k \<in> set keys. prefix k (b @ y) \<longrightarrow> prefix k b))"

lemma no_cross_drop: "no_cross keys (a @ b) y \<Longrightarrow> no_cross keys b y"
  unfolding no_cross_def by (metis append.assoc)

lemma match_at_cut:
  assumes "no_cross keys x y" and "x \<noteq> []"
  shows "match_at keys (x @ y) = match_at keys x"
proof -
  have "prefix k (x @ y) = prefix k x" if "k \<in> set keys" for k
    using assms that unfolding no_cross_def by (metis append_Nil prefix_prefix)
  then have "find (\<lambda>k. k \<noteq> [] \<and> prefix k (x @ y)) keys = find (\<lambda>k. k \<noteq> [] \<and> prefix k x) keys"
    by (intro find_cong) auto
  then show ?thesis by (simp add: match_at_def)
qed

lemma scan_text_cut:
  "no_cross keys x y \<Longrightarrow> scan_text keys g (x @ y) = scan_text keys g x @ scan_text keys g y"
proof (induction x rule: length_induct)
  case (1 x)
  show ?case
  proof (cases x)
    case (Cons c t)
    have m: "match_at keys (c # t @ y) = match_at keys (c # t)"
      using match_at_cut [OF 1(2)] Cons by simp
    show ?thesis
    proof (cases "match_at keys (c # t)")
      case None
      have "no_cross keys t y"
        using no_cross_drop [of keys "[c]" t y] 1(2) Cons by simp
      with 1(1) Cons show ?thesis by (simp add: scan_text_Cons m None)
    next
      case (Some k)
      then obtain z where z: "c # t = k @ z" "k \<noteq> []"
        by (auto dest!: match_at_SomeD simp: prefix_def)
      have "no_cross keys z y"
        using no_cross_drop [of keys k z y] 1(2) Cons z by simp
      moreover have "length z < length x"
        using z Cons by (metis length_append length_greater_0_conv less_add_same_cancel2)
      ultimately have "scan_text keys g (z @ y) = scan_text keys g z @ scan_text keys g y"
        using 1(1) by blast
      moreover have "drop (length k) (c # t @ y) = z @ y" "drop (length k) (c # t) = z"
        using z by (metis append_Cons append.assoc append_eq_conv_conj)+
      ultimately show ?thesis
        by (simp add: Cons scan_text_Cons m Some del: drop_Cons')
    qed
  qed simp
qed

text \<open>A literal at the head of a text, when no longer literal matches there.\<close>

lemma by_length_sorted: "sorted_wrt (\<lambda>a b. length b \<le> length a) (by_length keys)"
proof -
  have "sorted (map (\<lambda>k. - int (length k)) (by_length keys))"
    by (simp add: by_length_def)
  then show ?thesis
    by (simp add: sorted_wrt_map)
qed

lemma set_by_length [simp]: "set (by_length keys) = set keys"
  by (simp add: by_length_def)

lemma match_at_longest:
  assumes "k \<in> set keys" and "k \<noteq> []" and "prefix k s"
    and "\<forall>k' \<in> set keys. prefix k' s \<longrightarrow> length k' \<le> length k"
  shows "match_at (by_length keys) s = Some k"
proof -
  obtain k' where k': "match_at (by_length keys) s = Some k'"
    using assms(1-3) match_at_None [of "by_length keys" s] by (cases "match_at (by_length keys) s") auto
  then obtain i where i: "i < length (by_length keys)" "by_length keys ! i = k'" "k' \<noteq> []" "prefix k' s"
      "\<forall>j<i. by_length keys ! j = [] \<or> \<not> prefix (by_length keys ! j) s"
    by (auto simp: match_at_def find_Some_iff)
  have le: "length k' \<le> length k"
    using i assms(4) nth_mem [OF i(1)] by auto
  obtain j where j: "j < length (by_length keys)" "by_length keys ! j = k"
    using assms(1) by (metis in_set_conv_nth set_by_length)
  have "i \<le> j"
    using i(5) j assms(2,3) by (metis leI)
  have "length k \<le> length k'"
  proof (cases "i = j")
    case False
    with \<open>i \<le> j\<close> have "i < j" by simp
    with by_length_sorted [of keys] i(2) j show ?thesis
      by (auto simp: sorted_wrt_iff_nth_less)
  qed (use i j in simp)
  with le have "length k' = length k" by simp
  with i(4) assms(3) have "k' = k"
    by (metis prefix_order.antisym prefix_length_prefix le_refl)
  with k' show ?thesis by simp
qed

lemma scan_text_head:
  assumes "match_at keys (k @ s) = Some k"
  shows "scan_text keys g (k @ s) = g k @ scan_text keys g s"
proof -
  have "k \<noteq> []" using assms by (auto dest: match_at_SomeD)
  then obtain c t where "k = c # t" by (cases k) auto
  with assms show ?thesis by (simp add: scan_text_Cons)
qed

text \<open>A gap: no literal matches at any of its positions.\<close>

definition no_match_in :: "string list \<Rightarrow> string \<Rightarrow> string \<Rightarrow> bool" where
  "no_match_in keys gap rest = list_all (\<lambda>i. match_at keys (drop i gap @ rest) = None) [0..<length gap]"

lemma no_match_in_iff: "no_match_in keys gap rest \<longleftrightarrow> (\<forall>i < length gap. match_at keys (drop i gap @ rest) = None)"
  by (auto simp: no_match_in_def list_all_iff)

lemma scan_text_gap: "no_match_in keys gap rest \<Longrightarrow> scan_text keys g (gap @ rest) = gap @ scan_text keys g rest"
proof (induction gap)
  case (Cons c gap)
  have "match_at keys (drop 0 (c # gap) @ rest) = None"
    using Cons.prems unfolding no_match_in_iff by (metis length_greater_0_conv list.distinct(1))
  moreover have "no_match_in keys gap rest"
    unfolding no_match_in_iff
  proof (intro allI impI)
    fix i assume "i < length gap"
    with Cons.prems show "match_at keys (drop i gap @ rest) = None"
      unfolding no_match_in_iff by (metis Suc_less_eq drop_Suc_Cons length_Cons)
  qed
  ultimately show ?case
    using Cons.IH by (simp add: scan_text_Cons)
qed simp

end
