(* ===== verification/Entity_Replacer.thy ===== *)
theory Entity_Replacer
  imports Fabricated_Data Text_Scan "HOL-Library.Product_Lexorder" "HOL-Library.Multiset"
begin

text \<open>
  From detected entities to the masked text: the resolution of overlapping candidates and the
  allow-list of \<open>plugins/pseudonymization/detectors/index.ts\<close>, and the replacement and the
  propagation of masked values of \<open>plugins/pseudonymization/replacer.ts\<close>. The detectors
  themselves are not modelled: their candidates are the input.
\<close>

section \<open>Candidates\<close>

record entity_match =
  em_original :: string
  em_type :: string
  em_start :: nat
  em_end :: nat
  em_placeholder :: "string option"
  em_priority :: nat
  em_confidence :: rat
  em_propagate :: "bool option"

datatype strategy = Constant | Fabricated

record entity_config =
  ec_type :: string
  ec_strategy :: "strategy option"
  ec_value :: "string option"

record masking_config =
  mc_method :: mask_method
  mc_entities :: "entity_config list"

definition is_allowed :: "string \<Rightarrow> string list \<Rightarrow> bool" where
  "is_allowed matched allow_list = list_ex (\<lambda>t. lower matched = lower t) allow_list"

text \<open>The order of \<open>resolveOverlaps\<close>: priority ascending, length descending, start ascending.\<close>

definition overlap_key :: "entity_match \<Rightarrow> nat \<times> int \<times> nat" where
  "overlap_key m = (em_priority m, - (int (em_end m) - int (em_start m)), em_start m)"

definition overlaps :: "entity_match \<Rightarrow> entity_match \<Rightarrow> bool" where
  "overlaps m a = (em_start m < em_end a \<and> em_end m > em_start a)"

definition accept :: "entity_match \<Rightarrow> entity_match list \<Rightarrow> entity_match list" where
  "accept m accepted = (if list_ex (overlaps m) accepted then accepted else accepted @ [m])"

definition resolve_overlaps :: "entity_match list \<Rightarrow> entity_match list" where
  "resolve_overlaps ms =
     (if length ms \<le> 1 then ms
      else sort_key em_start (fold accept (sort_key overlap_key ms) []))"

section \<open>Replacement\<close>

definition config_for :: "string \<Rightarrow> masking_config \<Rightarrow> entity_config option" where
  "config_for ty cfg = find (\<lambda>e. ec_type e = ty) (mc_entities cfg)"

definition strategy_for :: "string \<Rightarrow> masking_config \<Rightarrow> strategy" where
  "strategy_for ty cfg =
     (case config_for ty cfg of
        None \<Rightarrow> Constant
      | Some e \<Rightarrow> (case ec_strategy e of None \<Rightarrow> Constant | Some s \<Rightarrow> s))"

definition custom_prefix :: "string \<Rightarrow> masking_config \<Rightarrow> string option" where
  "custom_prefix ty cfg = (case config_for ty cfg of None \<Rightarrow> None | Some e \<Rightarrow> ec_value e)"

text \<open>\<open>match.placeholder || getCustomPrefix(...)\<close>\<close>

definition prefix_choice :: "entity_match \<Rightarrow> masking_config \<Rightarrow> string option" where
  "prefix_choice m cfg =
     (case em_placeholder m of
        Some p \<Rightarrow> if p \<noteq> [] then Some p else custom_prefix (em_type m) cfg
      | None \<Rightarrow> custom_prefix (em_type m) cfg)"

text \<open>The placeholder of one match, with the map and the draws taken.\<close>

definition place ::
  "(string \<Rightarrow> string) \<Rightarrow> draws \<Rightarrow> masking_config \<Rightarrow> entity_match \<Rightarrow> replacement_map \<times> nat
   \<Rightarrow> string \<times> replacement_map \<times> nat" where
  "place digest rnd cfg m st =
     (case st of (rm, k) \<Rightarrow>
        if strategy_for (em_type m) cfg = Fabricated \<and> mc_method cfg = Pseudonymization then
          (let (fake, k') = generate_fake_value rnd (em_type m) (em_original m) rm k in
           case map_of (rm_forward rm) (em_original m) of
             Some p \<Rightarrow> (p, rm, k')
           | None \<Rightarrow>
               if map_of (rm_reverse rm) fake \<noteq> None \<and> map_of (rm_reverse rm) fake \<noteq> Some (em_original m)
               then (let (p, rm') = get_placeholder digest (em_type m) (em_original m) (prefix_choice m cfg) rm
                     in (p, rm', k'))
               else (fake, rm\<lparr> rm_forward := AList.update (em_original m) fake (rm_forward rm),
                               rm_reverse := AList.update fake (em_original m) (rm_reverse rm) \<rparr>, k'))
        else (let (p, rm') = get_placeholder digest (em_type m) (em_original m) (prefix_choice m cfg) rm
              in (p, rm', k)))"

definition splice :: "string \<Rightarrow> nat \<Rightarrow> nat \<Rightarrow> string \<Rightarrow> string" where
  "splice s a b p = take a s @ p @ drop b s"

text \<open>The loop over the matches, from the last one to the first: the text so far, the map, the
  draws, and the matches with their placeholders.\<close>

definition replace_step ::
  "(string \<Rightarrow> string) \<Rightarrow> draws \<Rightarrow> masking_config \<Rightarrow> entity_match
   \<Rightarrow> string \<times> (replacement_map \<times> nat) \<times> entity_match list
   \<Rightarrow> string \<times> (replacement_map \<times> nat) \<times> entity_match list" where
  "replace_step digest rnd cfg m acc =
     (case acc of (result, st, placed) \<Rightarrow>
        let (p, st') = place digest rnd cfg m st
        in (splice result (em_start m) (em_end m) p, st', placed @ [m\<lparr> em_placeholder := Some p \<rparr>]))"

definition replace_entities ::
  "(string \<Rightarrow> string) \<Rightarrow> draws \<Rightarrow> masking_config \<Rightarrow> string \<Rightarrow> entity_match list \<Rightarrow> replacement_map \<times> nat
   \<Rightarrow> string \<times> (replacement_map \<times> nat) \<times> entity_match list" where
  "replace_entities digest rnd cfg src ms st =
     (if ms = [] then (src, st, [])
      else fold (replace_step digest rnd cfg) (sort_key (\<lambda>m. - int (em_start m)) ms) (src, st, []))"

section \<open>Propagation\<close>

definition MIN_PROPAGATION_LENGTH :: nat where
  "MIN_PROPAGATION_LENGTH = 12"

text \<open>The needles: every mapped value that is long enough (and named by \<open>only\<close>), and its
  JSON-escaped form \<open>JSON.stringify(value).slice(1, -1)\<close>, the parameter \<open>escape\<close>.\<close>

definition needles_of ::
  "(string \<Rightarrow> string) \<Rightarrow> nat \<Rightarrow> string list option \<Rightarrow> (string \<times> string) list \<Rightarrow> (string \<times> string) list" where
  "needles_of escape min_len only forward =
     concat (map (\<lambda>(v, p).
       if length v < min_len \<or> (case only of None \<Rightarrow> False | Some vs \<Rightarrow> v \<notin> set vs) then []
       else (v, p) # (if escape v \<noteq> v \<and> length (escape v) \<ge> min_len then [(escape v, p)] else [])) forward)"

text \<open>The replacer with its word-boundary guard. \<open>new Map(pairs)\<close> keeps the last pair of a key.\<close>

definition needle_map :: "(string \<times> string) list \<Rightarrow> (string \<times> string) list" where
  "needle_map needles = fold (\<lambda>(k, v). AList.update k v) needles []"

definition propagate_match ::
  "(string \<times> string) list \<Rightarrow> char option \<Rightarrow> string \<Rightarrow> string \<Rightarrow> string" where
  "propagate_match by_text before k after =
     (if is_word (hd k) \<and> (case before of None \<Rightarrow> False | Some c \<Rightarrow> is_word c) then k
      else if is_word (last k) \<and> (case after of [] \<Rightarrow> False | c # _ \<Rightarrow> is_word c) then k
      else case map_of by_text k of None \<Rightarrow> k | Some p \<Rightarrow> p)"

definition replace_in_string :: "(string \<times> string) list \<Rightarrow> string \<Rightarrow> string" where
  "replace_in_string needles s =
     (let sorted = sort_key (\<lambda>(t, _). - int (length t)) needles
      in scan_from (map fst sorted) (propagate_match (needle_map sorted)) None s)"

fun map_strings :: "(string \<Rightarrow> string) \<Rightarrow> js \<Rightarrow> js" where
  "map_strings f (JStr s) = JStr (f s)"
| "map_strings f (JArr xs) = JArr (map (map_strings f) xs)"
| "map_strings f (JObj kvs) = JObj (map (\<lambda>(k, v). (k, map_strings f v)) kvs)"
| "map_strings f v = v"

definition walk_field :: "(string \<Rightarrow> string) \<Rightarrow> string \<Rightarrow> js \<Rightarrow> js" where
  "walk_field f k body =
     (if jget body k \<noteq> JUndef then jset k (map_strings f (jget body k)) body else body)"

definition propagate_masked_values ::
  "(string \<Rightarrow> string) \<Rightarrow> nat \<Rightarrow> string list option \<Rightarrow> replacement_map \<Rightarrow> js \<Rightarrow> js" where
  "propagate_masked_values escape min_len only m body =
     (let needles = needles_of escape min_len only (rm_forward m) in
      if needles = [] then body
      else let f = replace_in_string needles;
               b1 = walk_field f ''system'' body;
               b2 = (if is_arr (jget b1 ''messages'') then walk_field f ''messages'' b1 else b1);
               b3 = walk_field f ''instructions'' b2
           in walk_field f ''input'' b3)"

section \<open>Lemmas on overlaps\<close>

definition disjoint_spans :: "entity_match list \<Rightarrow> bool" where
  "disjoint_spans ms = (\<forall>i < length ms. \<forall>j < length ms. i \<noteq> j \<longrightarrow> \<not> overlaps (ms ! i) (ms ! j))"

lemma overlaps_sym: "overlaps m a \<longleftrightarrow> overlaps a m"
  by (auto simp: overlaps_def)

text \<open>The invariant of the accepting loop: the accepted matches are pairwise disjoint and every
  match seen is accepted or overlaps an accepted match with a key that is not larger.\<close>

lemma fold_accept_pairwise:
  "sorted_wrt (\<lambda>a b. \<not> overlaps a b) acc \<Longrightarrow> sorted_wrt (\<lambda>a b. \<not> overlaps a b) (fold accept ms acc)"
proof (induction ms arbitrary: acc)
  case (Cons m ms)
  have "sorted_wrt (\<lambda>a b. \<not> overlaps a b) (accept m acc)"
    using Cons.prems by (auto simp: accept_def list_ex_iff sorted_wrt_append overlaps_sym)
  then show ?case using Cons.IH by simp
qed simp

lemma fold_accept_mono: "set acc \<subseteq> set (fold accept ms acc)"
proof (induction ms arbitrary: acc)
  case (Cons m ms)
  have "set acc \<subseteq> set (accept m acc)" by (auto simp: accept_def)
  with Cons show ?case by fastforce
qed simp

lemma fold_accept_subset: "set (fold accept ms acc) \<subseteq> set ms \<union> set acc"
proof (induction ms arbitrary: acc)
  case (Cons m ms)
  have "set (accept m acc) \<subseteq> insert m (set acc)" by (auto simp: accept_def)
  with Cons [of "accept m acc"] show ?case by auto
qed simp

lemma fold_accept_covers:
  "m \<in> set ms \<Longrightarrow> sorted (map overlap_key ms) \<Longrightarrow> (\<forall>a \<in> set acc. \<forall>m \<in> set ms. overlap_key a \<le> overlap_key m) \<Longrightarrow>
   \<exists>a \<in> set (fold accept ms acc). (a = m \<or> overlaps m a) \<and> overlap_key a \<le> overlap_key m"
proof (induction ms arbitrary: acc)
  case (Cons x ms)
  show ?case
  proof (cases "m = x")
    case True
    have "\<exists>a \<in> set (accept x acc). (a = x \<or> overlaps x a) \<and> overlap_key a \<le> overlap_key x"
      using Cons.prems(3) by (auto simp: accept_def list_ex_iff)
    with fold_accept_mono [of "accept x acc" ms] True show ?thesis by auto
  next
    case False
    then have "m \<in> set ms" using Cons.prems(1) by simp
    moreover have "\<forall>a \<in> set (accept x acc). \<forall>m \<in> set ms. overlap_key a \<le> overlap_key m"
      using Cons.prems(2,3) by (auto simp: accept_def)
    ultimately show ?thesis
      using Cons.IH [of "accept x acc"] Cons.prems(2) by simp
  qed
qed simp

lemma pairwise_mset:
  assumes "mset xs = mset ys" and "sorted_wrt (\<lambda>a b. \<not> overlaps a b) xs" and "\<forall>x \<in> set xs. em_start x < em_end x"
  shows "sorted_wrt (\<lambda>a b. \<not> overlaps a b) ys"
proof -
  have d: "distinct xs"
    using assms(2,3)
  proof (induction xs)
    case (Cons x xs)
    have "overlaps x x" using Cons.prems by (simp add: overlaps_def)
    with Cons show ?case by auto
  qed simp
  have "\<not> overlaps a b" if "a \<in> set xs" "b \<in> set xs" "a \<noteq> b" for a b
    using assms(2) that
    by (induction xs) (auto simp: overlaps_sym)
  moreover have "distinct ys" "set ys = set xs"
    using assms(1) d by (metis mset_eq_imp_distinct_iff, metis mset_eq_setD)
  ultimately show ?thesis
  proof (induction ys arbitrary: xs)
    case (Cons y ys)
    from Cons.prems have "\<forall>z \<in> set ys. \<not> overlaps y z" by auto
    moreover have "sorted_wrt (\<lambda>a b. \<not> overlaps a b) ys"
      using Cons.IH [of ys] Cons.prems by auto
    ultimately show ?case by simp
  qed simp
qed

section \<open>Lemmas on the replacement\<close>

text \<open>The text with every match rendered by \<open>f\<close>, from left to right.\<close>

fun assemble :: "(string \<Rightarrow> string) \<Rightarrow> string \<Rightarrow> nat \<Rightarrow> entity_match list \<Rightarrow> string" where
  "assemble f src pos [] = drop pos src"
| "assemble f src pos (m # ms) =
     drop pos (take (em_start m) src) @ f (em_original m) @ assemble f src (em_end m) ms"

text \<open>Matches in order, apart, inside the text, each with the text of its span.\<close>

fun spans_ok :: "string \<Rightarrow> nat \<Rightarrow> entity_match list \<Rightarrow> bool" where
  "spans_ok src pos [] = (pos \<le> length src)"
| "spans_ok src pos (m # ms) =
     (pos \<le> em_start m \<and> em_start m < em_end m
      \<and> em_original m = drop (em_start m) (take (em_end m) src) \<and> spans_ok src (em_end m) ms)"

lemma spans_ok_bounds: "spans_ok src pos ms \<Longrightarrow> pos \<le> length src"
  by (induction ms arbitrary: pos) force+

lemma spans_ok_starts: "spans_ok src pos ms \<Longrightarrow> m \<in> set ms \<Longrightarrow> pos \<le> em_start m"
  by (induction ms arbitrary: pos) force+

lemma spans_ok_sorted: "spans_ok src pos ms \<Longrightarrow> sorted_wrt (\<lambda>a b. em_start a < em_start b) ms"
proof (induction ms arbitrary: pos)
  case (Cons m ms)
  then show ?case
    using spans_ok_starts [of src "em_end m" ms] by fastforce
qed simp

lemma spans_ok_descending:
  assumes "spans_ok src pos ms"
  shows "sort_key (\<lambda>m. - int (em_start m)) ms = rev ms"
proof (rule sort_key_inj_key_eq)
  have s: "sorted_wrt (\<lambda>a b. em_start a < em_start b) ms"
    by (rule spans_ok_sorted [OF assms])
  have "inj_on em_start (set ms)"
    using s
  proof (induction ms)
    case (Cons m ms)
    then have "inj_on em_start (set ms)" "em_start m \<notin> em_start ` set ms" by auto
    then show ?case by (simp add: inj_on_insert image_iff)
  qed simp
  then show "inj_on (\<lambda>m. - int (em_start m)) (set ms)"
    by (auto simp: inj_on_def)
  have "sorted_wrt (\<lambda>a b. - int (em_start a) \<le> - int (em_start b)) (rev ms)"
    unfolding sorted_wrt_rev using s by (rule sorted_wrt_mono_rel [rotated]) auto
  then show "sorted (map (\<lambda>m. - int (em_start m)) (rev ms))"
    by (simp add: sorted_wrt_map)
qed simp

lemma drop_take_join: "a \<le> b \<Longrightarrow> b \<le> length s \<Longrightarrow> drop a (take b s) @ drop b s = drop a s"
  using drop_append [of a "take b s" "drop b s"] by simp

lemma assemble_original: "spans_ok src pos ms \<Longrightarrow> assemble (\<lambda>v. v) src pos ms = drop pos src"
proof (induction ms arbitrary: pos)
  case (Cons m ms)
  then have b: "pos \<le> em_start m" "em_start m < em_end m" "em_end m \<le> length src"
    using spans_ok_bounds [of src "em_end m" ms] by auto
  have "drop (em_start m) (take (em_end m) src) @ drop (em_end m) src = drop (em_start m) src"
    by (rule drop_take_join) (use b in simp_all)
  moreover have "drop pos (take (em_start m) src) @ drop (em_start m) src = drop pos src"
    by (rule drop_take_join) (use b in simp_all)
  moreover have "assemble (\<lambda>v. v) src (em_end m) ms = drop (em_end m) src"
    using Cons by simp
  ultimately show ?case using Cons.prems by simp
qed simp

lemma splice_assemble:
  assumes "pos \<le> em_start m" and "em_start m < em_end m" and "em_end m \<le> length src"
  shows "splice (take (em_end m) src @ rest) (em_start m) (em_end m) p = take (em_start m) src @ p @ rest"
  using assms by (simp add: splice_def min_def)

text \<open>The loop, from the right, yields the assembled text over the placeholders it placed.\<close>

lemma replace_fold:
  assumes "spans_ok src pos ms"
    and "\<And>m st p st'. m \<in> set ms \<Longrightarrow> place digest rnd cfg m st = (p, st') \<Longrightarrow>
           map_of (rm_forward (fst st')) (em_original m) = Some p"
    and "\<And>m st v q. m \<in> set ms \<Longrightarrow> map_of (rm_forward (fst st)) v = Some q \<Longrightarrow>
           map_of (rm_forward (fst (snd (place digest rnd cfg m st)))) v = Some q"
    and "fold (replace_step digest rnd cfg) (rev ms) (src, st, []) = (out, st', placed)"
  shows "out = take pos src @ assemble (\<lambda>v. the (map_of (rm_forward (fst st')) v)) src pos ms \<and>
         (\<forall>m \<in> set ms. map_of (rm_forward (fst st')) (em_original m) \<noteq> None)"
  using assms
proof (induction ms arbitrary: pos out st' placed)
  case Nil
  then show ?case by simp
next
  case (Cons m ms)
  obtain out1 st1 done1 where f: "fold (replace_step digest rnd cfg) (rev ms) (src, st, []) = (out1, st1, done1)"
    by (metis prod_cases3)
  have b: "pos \<le> em_start m" "em_start m < em_end m" "em_end m \<le> length src" "spans_ok src (em_end m) ms"
    using Cons.prems(1) spans_ok_bounds [of src "em_end m" ms] by auto
  have ih: "out1 = take (em_end m) src @ assemble (\<lambda>v. the (map_of (rm_forward (fst st1)) v)) src (em_end m) ms"
      "\<forall>x \<in> set ms. map_of (rm_forward (fst st1)) (em_original x) \<noteq> None"
    using Cons.IH [OF b(4) Cons.prems(2,3) f] by auto
  obtain p st2 where p: "place digest rnd cfg m st1 = (p, st2)"
    by (cases "place digest rnd cfg m st1")
  have last: "replace_step digest rnd cfg m (out1, st1, done1) = (out, st', placed)"
    using Cons.prems(4) f by simp
  have st': "st' = st2" "out = splice out1 (em_start m) (em_end m) p"
    using last p by (simp_all add: replace_step_def)
  have kept: "map_of (rm_forward (fst st2)) v = Some q" if "map_of (rm_forward (fst st1)) v = Some q" for v q
    using Cons.prems(3) [of m st1] that p by simp
  have new: "map_of (rm_forward (fst st2)) (em_original m) = Some p"
    using Cons.prems(2) [of m st1] p by simp
  have same: "assemble (\<lambda>v. the (map_of (rm_forward (fst st2)) v)) src i xs =
      assemble (\<lambda>v. the (map_of (rm_forward (fst st1)) v)) src i xs"
    if "\<forall>x \<in> set xs. map_of (rm_forward (fst st1)) (em_original x) \<noteq> None" for xs i
    using that
  proof (induction xs arbitrary: i)
    case (Cons x xs)
    then obtain q where "map_of (rm_forward (fst st1)) (em_original x) = Some q" by auto
    with Cons kept show ?case by simp
  qed simp
  have "out = take (em_start m) src @ p @ assemble (\<lambda>v. the (map_of (rm_forward (fst st1)) v)) src (em_end m) ms"
    using st'(2) ih(1) splice_assemble [OF b(1-3)] by simp
  moreover have "take pos src @ drop pos (take (em_start m) src) = take (em_start m) src"
    using b(1) by (metis append_take_drop_id min.absorb1 take_take)
  moreover have "\<forall>x \<in> set (m # ms). map_of (rm_forward (fst st2)) (em_original x) \<noteq> None"
    using ih(2) kept new by (auto dest!: kept)
  ultimately show ?case
    using same [OF ih(2)] st'(1) new by (simp flip: append_assoc)
qed

lemma place_forward:
  "place digest rnd cfg m st = (p, st') \<Longrightarrow> map_of (rm_forward (fst st')) (em_original m) = Some p"
proof -
  assume a: "place digest rnd cfg m st = (p, st')"
  obtain rm k where st: "st = (rm, k)" by (cases st)
  show ?thesis
    using a get_placeholder_forward [of digest "em_type m" "em_original m" "prefix_choice m cfg" rm "em_original m"]
    by (auto simp: place_def st split_beta Let_def split: if_splits option.splits)
qed

lemma place_keeps:
  "map_of (rm_forward (fst st)) v = Some q \<Longrightarrow> map_of (rm_forward (fst (snd (place digest rnd cfg m st)))) v = Some q"
proof -
  assume a: "map_of (rm_forward (fst st)) v = Some q"
  obtain rm k where st: "st = (rm, k)" by (cases st)
  have g: "map_of (rm_forward (snd (get_placeholder digest ty w c rm))) v = Some q" for ty w c
    using a get_placeholder_forward [of digest ty w c rm v]
      get_placeholder_known [of rm v q digest ty c] by (auto simp: st)
  show ?thesis
    using a g by (auto simp: place_def st split_beta Let_def split: option.splits)
qed

lemma replace_entities_assembled:
  assumes "spans_ok src 0 ms" and "ms \<noteq> []" and "replace_entities digest rnd cfg src ms st = (out, st', placed)"
  shows "out = assemble (\<lambda>v. the (map_of (rm_forward (fst st')) v)) src 0 ms \<and>
         (\<forall>m \<in> set ms. map_of (rm_forward (fst st')) (em_original m) \<noteq> None)"
proof -
  have "fold (replace_step digest rnd cfg) (rev ms) (src, st, []) = (out, st', placed)"
    using assms by (simp add: replace_entities_def spans_ok_descending)
  from replace_fold [OF assms(1) place_forward place_keeps this] show ?thesis by simp
qed

section \<open>Properties of the overlap resolution\<close>

text \<open>The rank of the candidates, written out: a lower priority number, then more text, then an earlier
  start.\<close>

definition outranks :: "entity_match \<Rightarrow> entity_match \<Rightarrow> bool" where
  "outranks a m =
     (em_priority a < em_priority m \<or>
      em_priority a = em_priority m \<and>
        (em_end m + em_start a < em_end a + em_start m \<or>
         em_end m + em_start a = em_end a + em_start m \<and> em_start a \<le> em_start m))"

lemma overlap_key_outranks: "overlap_key a \<le> overlap_key m \<longleftrightarrow> outranks a m"
  by (auto simp: overlap_key_def outranks_def less_eq_prod_def)

text \<open>C23. The resolution keeps a set of pairwise disjoint candidates in text order, and drops a
  candidate only for an accepted one that overlaps it and comes first in the order of priority,
  length and start; it invents no candidate.\<close>

theorem resolve_overlaps_correct:
  assumes "\<forall>m \<in> set ms. em_start m < em_end m"
  shows "sorted (map em_start (resolve_overlaps ms)) \<and>
         sorted_wrt (\<lambda>a b. \<not> overlaps a b) (resolve_overlaps ms) \<and>
         set (resolve_overlaps ms) \<subseteq> set ms \<and>
         (\<forall>m \<in> set ms. \<exists>a \<in> set (resolve_overlaps ms). (a = m \<or> overlaps m a) \<and> outranks a m)"
proof (cases "length ms \<le> 1")
  case True
  then have "ms = [] \<or> (\<exists>m. ms = [m])" by (cases ms) auto
  then show ?thesis by (auto simp: resolve_overlaps_def outranks_def)
next
  case False
  let ?acc = "fold accept (sort_key overlap_key ms) []"
  have sub: "set ?acc \<subseteq> set ms"
    using fold_accept_subset [of "sort_key overlap_key ms" "[]"] by simp
  have "sorted_wrt (\<lambda>a b. \<not> overlaps a b) (sort_key em_start ?acc)"
    by (rule pairwise_mset [OF _ fold_accept_pairwise]) (use assms sub in auto)
  moreover have "\<exists>a \<in> set ?acc. (a = m \<or> overlaps m a) \<and> outranks a m" if "m \<in> set ms" for m
    using fold_accept_covers [of m "sort_key overlap_key ms" "[]"] that by (simp add: overlap_key_outranks)
  ultimately show ?thesis
    using False sub by (simp add: resolve_overlaps_def)
qed

definition a_match :: "string \<Rightarrow> nat \<Rightarrow> nat \<Rightarrow> nat \<Rightarrow> entity_match" where
  "a_match v a b pr = \<lparr> em_original = v, em_type = ''profile-person'', em_start = a, em_end = b,
     em_placeholder = None, em_priority = pr, em_confidence = 1, em_propagate = None \<rparr>"

theorem resolve_overlaps_correct_witness:
  "let ms = [a_match ''ab'' 0 2 1, a_match ''bc'' 1 3 0] in
   sorted (map em_start (resolve_overlaps ms)) \<and>
   sorted_wrt (\<lambda>a b. \<not> overlaps a b) (resolve_overlaps ms) \<and>
   set (resolve_overlaps ms) \<subseteq> set ms \<and>
   (\<forall>m \<in> set ms. \<exists>a \<in> set (resolve_overlaps ms). (a = m \<or> overlaps m a) \<and> outranks a m)"
  using resolve_overlaps_correct [of "[a_match ''ab'' 0 2 1, a_match ''bc'' 1 3 0]"]
  by (simp add: a_match_def Let_def)

end
