(* ===== verification/Unknown_Placeholders.thy ===== *)
theory Unknown_Placeholders
  imports Prelude
begin

text \<open>
  Placeholders the model invents (\<open>plugins/pseudonymization/unknownPlaceholders.ts\<close>): the shapes
  a placeholder can have, the containment of unknown ones and the start of a placeholder that
  is still open at the end of a stream's text. The fixed expressions are matchers that return
  the length of the match.
\<close>

definition is_hex :: "char \<Rightarrow> bool" where
  "is_hex c = (is_digit c \<or> CHR ''a'' \<le> c \<and> c \<le> CHR ''f'')"

text \<open>\<open>(?:https?:\/\/)?masked-url-[0-9a-f]+\.invalid\<close>\<close>

definition scheme_length :: "string \<Rightarrow> nat" where
  "scheme_length s = (if prefix ''https://'' s then 8 else if prefix ''http://'' s then 7 else 0)"

definition url_shape :: "string \<Rightarrow> nat option" where
  "url_shape s =
     (let n = scheme_length s; r = drop n s in
      if \<not> prefix ''masked-url-'' r then None
      else let h = takeWhile is_hex (drop 11 r) in
        if h \<noteq> [] \<and> prefix ''.invalid'' (drop (11 + length h) r)
        then Some (n + 11 + length h + 8) else None)"

text \<open>\<open>[A-Z]+(?:_[A-Z]+)*_[0-9a-f]+\<close>, what follows \<open>MASKED_\<close>.\<close>

function words_shape :: "string \<Rightarrow> nat option" where
  "words_shape s =
     (let w = takeWhile is_upper s in
      if w = [] then None
      else case drop (length w) s of
             [] \<Rightarrow> None
           | c # r \<Rightarrow>
               if c \<noteq> CHR ''_'' then None
               else if r \<noteq> [] \<and> is_upper (hd r) then map_option (\<lambda>n. length w + 1 + n) (words_shape r)
               else let h = takeWhile is_hex r in
                 if h = [] then None else Some (length w + 1 + length h))"
  by pat_completeness auto
termination
proof (relation "measure length", simp)
  fix s w c r
  assume "drop (length w) s = c # r"
  then have "length (c # r) \<le> length s" by (metis length_drop diff_le_self)
  then show "(r, s) \<in> measure length" by simp
qed

declare words_shape.simps [simp del]

definition tag_shape :: "string \<Rightarrow> nat option" where
  "tag_shape s = (if prefix ''MASKED_'' s then map_option (\<lambda>n. 7 + n) (words_shape (drop 7 s)) else None)"

definition placeholder_shape :: "string \<Rightarrow> nat option" where
  "placeholder_shape s = (case url_shape s of Some n \<Rightarrow> Some n | None \<Rightarrow> tag_shape s)"

text \<open>The matches of the expression in a text, left to right, with the text between them: a piece
  is a character that starts no match, or a match.\<close>

datatype piece = Plain char | Shape string

function pieces :: "string \<Rightarrow> piece list" where
  "pieces [] = []"
| "pieces (c # s) =
     (case placeholder_shape (c # s) of
        None \<Rightarrow> Plain c # pieces s
      | Some n \<Rightarrow> if n = 0 then Plain c # pieces s
                  else Shape (take n (c # s)) # pieces (drop n (c # s)))"
  by pat_completeness auto
termination
  by (relation "measure length") auto

declare pieces.simps(2) [simp del]

fun piece_text :: "piece \<Rightarrow> string" where
  "piece_text (Plain c) = [c]"
| "piece_text (Shape s) = s"

fun shapes_of :: "piece list \<Rightarrow> string list" where
  "shapes_of [] = []"
| "shapes_of (Plain c # ps) = shapes_of ps"
| "shapes_of (Shape s # ps) = s # shapes_of ps"

definition placeholders_in :: "string \<Rightarrow> string list" where
  "placeholders_in s = shapes_of (pieces s)"

definition withheld_kind :: "string \<Rightarrow> string" where
  "withheld_kind p =
     (if prefix ''MASKED_PERSON_'' p then ''name''
      else if prefix ''MASKED_EMAIL_'' p \<or> prefix ''MASKED_EMAIL_ADDRESS_'' p then ''email address''
      else if prefix ''MASKED_PHONE_'' p \<or> prefix ''MASKED_PHONE_NUMBER_'' p then ''phone number''
      else if prefix ''MASKED_ORG_'' p \<or> prefix ''MASKED_ORGANIZATION_'' p then ''organisation''
      else if prefix ''MASKED_LOCATION_'' p \<or> prefix ''MASKED_ADDRESS_'' p then ''location''
      else if sublist ''masked-url-'' p then ''link''
      else ''value'')"

definition withheld_text :: "string \<Rightarrow> string" where
  "withheld_text p = ''['' @ withheld_kind p @ '' withheld]''"

definition contain_piece :: "string list \<Rightarrow> bool \<Rightarrow> piece \<Rightarrow> string" where
  "contain_piece permitted withhold p =
     (case p of
        Plain c \<Rightarrow> [c]
      | Shape s \<Rightarrow> if s \<in> set permitted then s else if withhold then withheld_text s else s)"

definition contain_unknown_placeholders ::
  "string \<Rightarrow> string list \<Rightarrow> string list \<Rightarrow> bool \<Rightarrow> string \<times> string list" where
  "contain_unknown_placeholders s known inbound withhold =
     (let ps = pieces s; permitted = known @ inbound in
      (concat (map (contain_piece permitted withhold) ps),
       uniq (filter (\<lambda>p. p \<notin> set permitted) (shapes_of ps))))"

datatype unknown_mode = Withhold | Report | Off

definition resolve_unknown_mode :: "js \<Rightarrow> unknown_mode" where
  "resolve_unknown_mode v =
     (if v = JStr ''report'' then Report else if v = JStr ''off'' then Off else Withhold)"

section \<open>Open placeholders\<close>

definition MAX_OPEN_TAIL :: nat where
  "MAX_OPEN_TAIL = 96"

text \<open>\<open>(?:https?:\/\/)?masked-url-[0-9a-f]*(?:\.[a-z]*)?\<close> and
  \<open>MASKED_(?:[A-Z]+_)*(?:[A-Z]*|[0-9a-f]*)\<close>, each as the whole text.\<close>

definition open_url :: "string \<Rightarrow> bool" where
  "open_url s =
     (let r = drop (scheme_length s) s in
      prefix ''masked-url-'' r \<and>
      (case dropWhile is_hex (drop 11 r) of
         [] \<Rightarrow> True
       | c # t \<Rightarrow> c = CHR ''.'' \<and> list_all is_lower t))"

definition open_tag :: "string \<Rightarrow> bool" where
  "open_tag s =
     (prefix ''MASKED_'' s \<and>
      (let ws = split_char (CHR ''_'') (drop 7 s) in
       list_all (\<lambda>w. w \<noteq> [] \<and> list_all is_upper w) (butlast ws)
       \<and> (list_all is_upper (last ws) \<or> list_all is_hex (last ws))))"

definition open_tail :: "string \<Rightarrow> bool" where
  "open_tail s = (open_url s \<or> open_tag s)"

text \<open>The leftmost position from which the rest of the text reads as an open placeholder.\<close>

fun first_open :: "nat \<Rightarrow> string \<Rightarrow> nat option" where
  "first_open i [] = None"
| "first_open i (c # s) = (if open_tail (c # s) then Some i else first_open (i + 1) s)"

definition open_placeholder_start :: "string \<Rightarrow> nat option" where
  "open_placeholder_start s =
     (let skipped = length s - MAX_OPEN_TAIL in first_open skipped (drop skipped s))"

record containment =
  ct_inbound :: "string list"
  ct_withhold :: bool

section \<open>Lemmas\<close>

lemma pieces_text: "concat (map piece_text (pieces s)) = s"
proof (induction s rule: pieces.induct)
  case (2 c s)
  then show ?case
    by (cases "placeholder_shape (c # s)") (auto simp: pieces.simps(2) append_take_drop_id simp del: drop_Suc_Cons take_Suc_Cons)
qed simp

lemma shapes_of_mem: "p \<in> set (shapes_of ps) \<longleftrightarrow> Shape p \<in> set ps"
  by (induction ps rule: shapes_of.induct) auto

text \<open>The containment touches exactly the placeholders that are unknown: what it reports is each
  placeholder of the text that is neither in the request's map nor sent by the client, once and
  in order; a text without one is returned unchanged; and in report mode the text is never
  changed.\<close>

theorem containment_exact:
  "snd (contain_unknown_placeholders s known inbound withhold) =
     uniq (filter (\<lambda>p. p \<notin> set known \<and> p \<notin> set inbound) (placeholders_in s)) \<and>
   (snd (contain_unknown_placeholders s known inbound withhold) = [] \<longrightarrow>
    fst (contain_unknown_placeholders s known inbound withhold) = s) \<and>
   fst (contain_unknown_placeholders s known inbound False) = s"
proof -
  have plain: "contain_piece permitted w p = piece_text p"
    if "w = False \<or> (\<forall>q. p = Shape q \<longrightarrow> q \<in> set permitted)" for permitted w p
    using that by (cases p) (auto simp: contain_piece_def)
  have "concat (map (contain_piece permitted False) (pieces s)) = s" for permitted
    using plain [of False] pieces_text [of s] by (simp cong: map_cong)
  moreover have "concat (map (contain_piece (known @ inbound) withhold) (pieces s)) = s"
    if "filter (\<lambda>p. p \<notin> set (known @ inbound)) (shapes_of (pieces s)) = []"
  proof -
    have "map (contain_piece (known @ inbound) withhold) (pieces s) = map piece_text (pieces s)"
      using that by (intro map_cong [OF refl] plain) (auto simp: filter_empty_conv shapes_of_mem)
    with pieces_text [of s] show ?thesis by (simp only:)
  qed
  ultimately show ?thesis
    by (auto simp: contain_unknown_placeholders_def placeholders_in_def Let_def)
qed

theorem containment_exact_witness:
  "contain_unknown_placeholders ''hi MASKED_ORG_12'' [''MASKED_ORG_12''] [] True = (''hi MASKED_ORG_12'', []) \<and>
   contain_unknown_placeholders ''hi MASKED_ORG_12'' [] [] True = (''hi [organisation withheld]'', [''MASKED_ORG_12''])"
proof -
  have "contain_unknown_placeholders ''hi MASKED_ORG_12'' [] [] True = (''hi [organisation withheld]'', [''MASKED_ORG_12''])"
    by code_simp
  moreover have "snd (contain_unknown_placeholders ''hi MASKED_ORG_12'' [''MASKED_ORG_12''] [] True) = []"
    by code_simp
  ultimately show ?thesis
    using containment_exact [of "''hi MASKED_ORG_12''" "[''MASKED_ORG_12'']" "[]" True] by (simp add: prod_eq_iff)
qed

end
