(* ===== verification/Unmasker.thy ===== *)
theory Unmasker
  imports Entity_Replacer Unknown_Placeholders
begin

text \<open>
  Restoring the originals: the unmasking of a text, a JSON value, a tool call's arguments and a
  response body (\<open>plugins/pseudonymization/unmasker.ts\<close>, \<open>utils/jsonStringLeaves.ts\<close>), and the
  buffer that restores placeholders split across stream deltas
  (\<open>plugins/pseudonymization/streamBuffer.ts\<close>).

  A function that may report unknown placeholders returns them beside its result. \<open>parse\<close> and
  \<open>stringify\<close> stand for \<open>JSON.parse\<close> and \<open>JSON.stringify\<close>.
\<close>

section \<open>Texts\<close>

definition placeholder_keys :: "(string \<times> string) list \<Rightarrow> string list" where
  "placeholder_keys reverse = by_length (map fst reverse)"

text \<open>\<open>map.reverse.get(match) || match\<close>\<close>

definition restore :: "(string \<times> string) list \<Rightarrow> string \<Rightarrow> string" where
  "restore reverse k =
     (case map_of reverse k of None \<Rightarrow> k | Some v \<Rightarrow> if v = [] then k else v)"

definition unmask_text :: "replacement_map \<Rightarrow> containment option \<Rightarrow> string \<Rightarrow> string \<times> string list" where
  "unmask_text m ct s =
     (if map_size m = 0 then (s, [])
      else let (source, unknown) =
             (case ct of
                None \<Rightarrow> (s, [])
              | Some c \<Rightarrow> contain_unknown_placeholders s (map fst (rm_reverse m)) (ct_inbound c) (ct_withhold c))
      in (scan_text (placeholder_keys (rm_reverse m)) (restore (rm_reverse m)) source, unknown))"

fun strings_of :: "js \<Rightarrow> string list" where
  "strings_of (JStr s) = [s]"
| "strings_of (JArr xs) = concat (map strings_of xs)"
| "strings_of (JObj kvs) = concat (map (\<lambda>(k, v). strings_of v) kvs)"
| "strings_of v = []"

text \<open>\<open>unmaskJsonValue\<close>: the value and the reports, one per string that has any.\<close>

definition unmask_json_value :: "replacement_map \<Rightarrow> containment option \<Rightarrow> js \<Rightarrow> js \<times> string list list" where
  "unmask_json_value m ct v =
     (map_strings (\<lambda>s. fst (unmask_text m ct s)) v,
      filter (\<lambda>r. r \<noteq> []) (map (\<lambda>s. snd (unmask_text m ct s)) (strings_of v)))"

text \<open>The length of the string literal a text opens with: \<open>"(?:[^"\\]|\\.)*"\<close>.\<close>

fun literal_body :: "string \<Rightarrow> nat option" where
  "literal_body [] = None"
| "literal_body (c # s) =
     (if c = CHR 0x22 then Some 1
      else if c = CHR 0x5C then
        (case s of [] \<Rightarrow> None
         | d # t \<Rightarrow> if is_newline d then None else map_option (\<lambda>n. n + 2) (literal_body t))
      else map_option Suc (literal_body s))"

definition literal_length :: "string \<Rightarrow> nat option" where
  "literal_length s =
     (case s of [] \<Rightarrow> None | c # t \<Rightarrow> if c = CHR 0x22 then map_option Suc (literal_body t) else None)"

definition map_literal ::
  "(string \<Rightarrow> js option) \<Rightarrow> (js \<Rightarrow> string) \<Rightarrow> (string \<Rightarrow> string) \<Rightarrow> string \<Rightarrow> string" where
  "map_literal parse stringify f lit =
     (case parse lit of
        Some (JStr decoded) \<Rightarrow> if f decoded = decoded then lit else stringify (JStr (f decoded))
      | _ \<Rightarrow> lit)"

function map_literals ::
  "(string \<Rightarrow> js option) \<Rightarrow> (js \<Rightarrow> string) \<Rightarrow> (string \<Rightarrow> string) \<Rightarrow> string \<Rightarrow> string" where
  "map_literals parse stringify f [] = []"
| "map_literals parse stringify f (c # s) =
     (case literal_length (c # s) of
        None \<Rightarrow> c # map_literals parse stringify f s
      | Some n \<Rightarrow>
          if n = 0 then c # map_literals parse stringify f s
          else map_literal parse stringify f (take n (c # s)) @ map_literals parse stringify f (drop n (c # s)))"
  by pat_completeness auto
termination
  by (relation "measure (\<lambda>(_, _, _, s). length s)") auto

declare map_literals.simps(2) [simp del]

definition map_json_string_literals ::
  "(string \<Rightarrow> js option) \<Rightarrow> (js \<Rightarrow> string) \<Rightarrow> (string \<Rightarrow> string) \<Rightarrow> string \<Rightarrow> string option" where
  "map_json_string_literals parse stringify f s =
     (case parse s of None \<Rightarrow> None | Some v \<Rightarrow> Some (map_literals parse stringify f s))"

definition map_json_string_leaves ::
  "(string \<Rightarrow> js option) \<Rightarrow> (js \<Rightarrow> string) \<Rightarrow> (string \<Rightarrow> string) \<Rightarrow> string \<Rightarrow> string option" where
  "map_json_string_leaves parse stringify f s =
     (case parse s of
        None \<Rightarrow> None
      | Some v \<Rightarrow>
          if list_ex (\<lambda>x. f x \<noteq> x) (strings_of v) then Some (stringify (map_strings f v)) else Some s)"

definition unmask_json_arguments ::
  "(string \<Rightarrow> js option) \<Rightarrow> (js \<Rightarrow> string) \<Rightarrow> replacement_map \<Rightarrow> containment option \<Rightarrow> string \<Rightarrow> string" where
  "unmask_json_arguments parse stringify m ct s =
     (if map_size m = 0 then s
      else let unmask = (\<lambda>x. fst (unmask_text m ct x)) in
        case map_json_string_literals parse stringify unmask s of
          None \<Rightarrow> unmask s
        | Some r \<Rightarrow> r)"

fun unmask_response_body ::
  "(string \<Rightarrow> js option) \<Rightarrow> (js \<Rightarrow> string) \<Rightarrow> replacement_map \<Rightarrow> containment option \<Rightarrow> js \<Rightarrow> js" where
  "unmask_response_body parse stringify m ct (JStr s) = JStr (fst (unmask_text m ct s))"
| "unmask_response_body parse stringify m ct (JArr xs) = JArr (map (unmask_response_body parse stringify m ct) xs)"
| "unmask_response_body parse stringify m ct (JObj kvs) =
     JObj (map (\<lambda>(k, v). (k, if k = ''arguments'' \<and> is_str v
                             then JStr (unmask_json_arguments parse stringify m ct (the (jstring v)))
                             else unmask_response_body parse stringify m ct v)) kvs)"
| "unmask_response_body parse stringify m ct v = v"

section \<open>The stream buffer\<close>

record stream_buffer =
  sb_buffer :: string
  sb_reverse :: "(string \<times> string) list"
  sb_containment :: "containment option"
  sb_json_text :: bool

definition stream_buffer_new :: "replacement_map \<Rightarrow> containment option \<Rightarrow> bool \<Rightarrow> stream_buffer" where
  "stream_buffer_new m ct json_text =
     \<lparr> sb_buffer = [], sb_reverse = rm_reverse m, sb_containment = ct, sb_json_text = json_text \<rparr>"

definition max_prefix_length :: "(string \<times> string) list \<Rightarrow> nat" where
  "max_prefix_length reverse =
     fold (\<lambda>kv n. max n (length (fst kv))) reverse
       (fold (\<lambda>p n. max n (length p)) (known_prefixes reverse) 0 + 16)"

definition could_be_partial :: "(string \<times> string) list \<Rightarrow> string \<Rightarrow> bool" where
  "could_be_partial reverse s =
     (list_ex (\<lambda>(k, _). prefix s k \<and> k \<noteq> s) reverse \<or> list_ex (\<lambda>p. prefix s p) (known_prefixes reverse))"

text \<open>The loop of \<open>findSafeFlushPoint\<close>: the length of the longest suffix, up to \<open>n\<close>, that could be
  the start of a placeholder.\<close>

fun retained :: "(string \<Rightarrow> bool) \<Rightarrow> nat \<Rightarrow> string \<Rightarrow> nat" where
  "retained P 0 buf = 0"
| "retained P (Suc n) buf = (if P (drop (length buf - Suc n) buf) then Suc n else retained P n buf)"

definition find_safe_flush_point :: "(string \<times> string) list \<Rightarrow> string \<Rightarrow> nat" where
  "find_safe_flush_point reverse buf =
     (if known_prefixes reverse = [] \<and> reverse = [] then length buf
      else length buf - retained (could_be_partial reverse) (min (length buf) (max_prefix_length reverse)) buf)"

text \<open>\<open>resolve\<close>: unknown placeholders are withheld, known ones restored; inside JSON text the
  restored value is \<open>JSON.stringify(original).slice(1, -1)\<close>.\<close>

definition resolve_match :: "(string \<Rightarrow> string) \<Rightarrow> stream_buffer \<Rightarrow> string \<Rightarrow> string" where
  "resolve_match escape sb k =
     (case map_of (sb_reverse sb) k of
        None \<Rightarrow> k
      | Some v \<Rightarrow> if v = [] then k else if sb_json_text sb then escape v else v)"

definition resolve_text :: "(string \<Rightarrow> string) \<Rightarrow> stream_buffer \<Rightarrow> string \<Rightarrow> string \<times> string list" where
  "resolve_text escape sb s =
     (let (source, unknown) =
        (case sb_containment sb of
           None \<Rightarrow> (s, [])
         | Some c \<Rightarrow> contain_unknown_placeholders s (map fst (sb_reverse sb)) (ct_inbound c) (ct_withhold c))
      in (scan_text (placeholder_keys (sb_reverse sb)) (resolve_match escape sb) source, unknown))"

definition safe_point :: "stream_buffer \<Rightarrow> string \<Rightarrow> nat" where
  "safe_point sb buf =
     (let n = find_safe_flush_point (sb_reverse sb) buf in
      case sb_containment sb of
        None \<Rightarrow> n
      | Some _ \<Rightarrow>
          (case open_placeholder_start buf of
             None \<Rightarrow> n
           | Some i \<Rightarrow> if i < n \<and> map_of (sb_reverse sb) (drop i buf) = None then i else n))"

definition stream_append :: "(string \<Rightarrow> string) \<Rightarrow> string \<Rightarrow> stream_buffer \<Rightarrow> (string \<times> string list) \<times> stream_buffer" where
  "stream_append escape delta sb =
     (let buf = sb_buffer sb @ delta; n = safe_point sb buf
      in (resolve_text escape sb (take n buf), sb\<lparr> sb_buffer := drop n buf \<rparr>))"

definition stream_flush :: "(string \<Rightarrow> string) \<Rightarrow> stream_buffer \<Rightarrow> (string \<times> string list) \<times> stream_buffer" where
  "stream_flush escape sb = (resolve_text escape sb (sb_buffer sb), sb\<lparr> sb_buffer := [] \<rparr>)"

text \<open>A whole stream: every delta appended, then the flush.\<close>

fun stream_text :: "(string \<Rightarrow> string) \<Rightarrow> string list \<Rightarrow> stream_buffer \<Rightarrow> string" where
  "stream_text escape [] sb = fst (fst (stream_flush escape sb))"
| "stream_text escape (d # ds) sb =
     (let (out, sb') = stream_append escape d sb in fst out @ stream_text escape ds sb')"

section \<open>Lemmas on the stream buffer\<close>

lemma retained_le: "retained P n buf \<le> n"
  by (induction n) auto

lemma retained_holds: "0 < retained P n buf \<Longrightarrow> P (drop (length buf - retained P n buf) buf)"
  by (induction n) (auto split: if_splits)

lemma retained_longest: "retained P n buf < i \<Longrightarrow> i \<le> n \<Longrightarrow> \<not> P (drop (length buf - i) buf)"
proof (induction n)
  case (Suc n)
  then show ?case by (cases "i = Suc n") (auto split: if_splits)
qed simp

lemma fold_max_ge: "n \<le> fold (\<lambda>x n. max n (f x)) xs n" for n :: nat
proof (induction xs arbitrary: n)
  case (Cons x xs)
  show ?case using Cons [of "max n (f x)"] by simp
qed simp

lemma fold_max_mem: "x \<in> set xs \<Longrightarrow> f x \<le> fold (\<lambda>x n. max n (f x)) xs n" for n :: nat
proof (induction xs arbitrary: n)
  case (Cons y xs)
  then show ?case
    using fold_max_ge [of "max n (f y)" f xs] by auto
qed simp

lemma max_prefix_length_key: "(k, v) \<in> set reverse \<Longrightarrow> length k \<le> max_prefix_length reverse"
  using fold_max_mem [of "(k, v)" reverse "\<lambda>kv. length (fst kv)"]
  by (simp add: max_prefix_length_def)

text \<open>Keys that can be told apart in a stream: no key ends in an underscore, and no proper suffix of
  a key is the start of a key.\<close>

definition separable :: "string list \<Rightarrow> bool" where
  "separable keys =
     list_all (\<lambda>k. k \<noteq> [] \<and> last k \<noteq> CHR ''_'' \<and>
       list_all (\<lambda>i. list_all (\<lambda>k2. \<not> strict_prefix (drop i k) k2) keys) [1..<length k]) keys"

lemma upto_underscore_SomeD:
  "upto_underscore k = Some p \<Longrightarrow> prefix p k \<and> last p = CHR ''_'' \<and> p \<noteq> []"
proof -
  assume a: "upto_underscore k = Some p"
  let ?t = "dropWhile (\<lambda>c. c \<noteq> CHR ''_'') (rev k)"
  have p: "p = rev ?t" "1 < length ?t"
    using a by (simp_all add: upto_underscore_def Let_def split: if_splits)
  then have t: "?t \<noteq> []" by (metis length_0_conv not_less_zero)
  have "rev k = takeWhile (\<lambda>c. c \<noteq> CHR ''_'') (rev k) @ ?t" by simp
  then have "k = rev ?t @ rev (takeWhile (\<lambda>c. c \<noteq> CHR ''_'') (rev k))"
    by (metis rev_append rev_rev_ident)
  then have "prefix p k" by (metis p(1) prefixI)
  moreover have "last p = CHR ''_''"
    using hd_dropWhile [OF t] p t by (simp add: last_rev)
  ultimately show ?thesis using p(1) t by simp
qed

lemma could_be_partial_key:
  assumes "separable (map fst reverse)" and "could_be_partial reverse r"
  shows "\<exists>k \<in> set (map fst reverse). strict_prefix r k"
proof -
  consider k v where "(k, v) \<in> set reverse" "prefix r k" "k \<noteq> r"
    | p where "p \<in> set (known_prefixes reverse)" "prefix r p"
    using assms(2) by (auto simp: could_be_partial_def list_ex_iff)
  then show ?thesis
  proof cases
    case 1
    then show ?thesis by (force simp: strict_prefix_def)
  next
    case 2
    then obtain k v where k: "(k, v) \<in> set reverse" "upto_underscore k = Some p"
      by (auto simp: known_prefixes_def set_collect_some)
    have "last k \<noteq> CHR ''_''"
      using assms(1) k(1) by (force simp: separable_def list_all_iff)
    then have "strict_prefix p k"
      using upto_underscore_SomeD [OF k(2)] by (auto simp: strict_prefix_def)
    with 2(2) have "strict_prefix r k" by (rule prefix_order.le_less_trans)
    with k(1) show ?thesis by force
  qed
qed

text \<open>The text before the flush point can be scanned on its own, whatever the stream brings next.\<close>

lemma flush_point_cut:
  assumes sep: "separable (map fst reverse)" and n: "n = find_safe_flush_point reverse buf"
  shows "no_cross (placeholder_keys reverse) (take n buf) (drop n buf @ later)"
  unfolding no_cross_def
proof (intro allI impI ballI, elim conjE)
  fix a b k
  assume ab: "take n buf = a @ b" and b: "b \<noteq> []" and key: "k \<in> set (placeholder_keys reverse)"
    and pre: "prefix k (b @ drop n buf @ later)"
  let ?r = "drop n buf"
  have kr: "k \<in> set (map fst reverse)" using key by (simp add: placeholder_keys_def)
  then have ne: "reverse \<noteq> []" by auto
  let ?R = "retained (could_be_partial reverse) (min (length buf) (max_prefix_length reverse)) buf"
  have R: "?R \<le> length buf" using retained_le [of "could_be_partial reverse"] min.bounded_iff by blast
  have n': "n = length buf - ?R" using n ne by (simp add: find_safe_flush_point_def)
  have buf: "buf = a @ b @ ?r" using ab by (metis append_assoc append_take_drop_id)
  have lr: "length ?r = ?R" using n' R by simp
  show "prefix k b"
  proof (rule ccontr)
    assume "\<not> prefix k b"
    moreover have "prefix b (b @ ?r @ later)" by simp
    ultimately have "prefix b k"
      using pre prefix_same_cases [of k "b @ ?r @ later" b] by blast
    then obtain u where u: "k = b @ u" by (auto simp: prefix_def)
    with \<open>\<not> prefix k b\<close> have "u \<noteq> []" by auto
    have pu: "prefix u (?r @ later)" using pre u by simp
    show False
    proof (cases "prefix u ?r")
      case True
      then have "0 < ?R" using \<open>u \<noteq> []\<close> lr by (cases "?r = []") auto
      from retained_holds [OF this] have "could_be_partial reverse ?r" using n' by simp
      from could_be_partial_key [OF sep this] obtain k2 where
        k2: "k2 \<in> set (map fst reverse)" "strict_prefix ?r k2" by blast
      have "strict_prefix u k2" by (rule prefix_order.le_less_trans [OF True k2(2)])
      moreover have "u = drop (length b) k" "length b \<in> set [1..<length k]"
        using u b \<open>u \<noteq> []\<close> by (auto simp: Suc_le_eq)
      ultimately show False
        using sep kr k2(1) unfolding separable_def list_all_iff by blast
    next
      case False
      then have "strict_prefix ?r u"
        using pu prefix_same_cases [of u "?r @ later" ?r] by (auto simp: strict_prefix_def)
      then have "strict_prefix (b @ ?r) k" using u by (simp add: strict_prefix_def)
      obtain v where kv: "(k, v) \<in> set reverse" using kr by auto
      have len: "length (b @ ?r) < length k"
        using \<open>strict_prefix (b @ ?r) k\<close> by (rule prefix_length_less)
      have "length (b @ ?r) \<le> min (length buf) (max_prefix_length reverse)"
        using buf len max_prefix_length_key [OF kv] by (metis (no_types, lifting) le_add2 length_append less_imp_le
          le_trans min.bounded_iff)
      moreover have "?R < length (b @ ?r)" using b lr by simp
      ultimately have "\<not> could_be_partial reverse (drop (length buf - length (b @ ?r)) buf)"
        by (intro retained_longest)
      moreover have "drop (length buf - length (b @ ?r)) buf = b @ ?r"
        by (subst (2) buf, subst buf) simp
      ultimately show False
        using \<open>strict_prefix (b @ ?r) k\<close> kv
        by (auto simp: could_be_partial_def list_ex_iff strict_prefix_def)
    qed
  qed
qed

lemma stream_text_scan:
  assumes "separable (map fst (sb_reverse sb))" and "sb_containment sb = None"
  shows "stream_text escape ds sb =
         scan_text (placeholder_keys (sb_reverse sb)) (resolve_match escape sb) (sb_buffer sb @ concat ds)"
  using assms
proof (induction ds arbitrary: sb)
  case Nil
  then show ?case by (simp add: stream_flush_def resolve_text_def)
next
  case (Cons d ds)
  let ?buf = "sb_buffer sb @ d" and ?keys = "placeholder_keys (sb_reverse sb)"
  let ?n = "find_safe_flush_point (sb_reverse sb) ?buf"
  let ?sb = "sb\<lparr> sb_buffer := drop ?n ?buf \<rparr>"
  have m: "resolve_match escape ?sb = resolve_match escape sb"
    by (rule ext) (simp add: resolve_match_def split: option.split)
  have "stream_text escape (d # ds) sb =
      scan_text ?keys (resolve_match escape sb) (take ?n ?buf) @ stream_text escape ds ?sb"
    using Cons.prems(2) by (simp add: stream_append_def safe_point_def resolve_text_def Let_def)
  also have "\<dots> = scan_text ?keys (resolve_match escape sb) (take ?n ?buf) @
      scan_text ?keys (resolve_match escape sb) (drop ?n ?buf @ concat ds)"
    using Cons.IH [of ?sb] Cons.prems m by simp
  also have "\<dots> = scan_text ?keys (resolve_match escape sb) (take ?n ?buf @ drop ?n ?buf @ concat ds)"
    by (rule scan_text_cut [OF flush_point_cut [OF Cons.prems(1) refl], symmetric])
  also have "take ?n ?buf @ drop ?n ?buf @ concat ds = sb_buffer sb @ concat (d # ds)"
    by (metis append_assoc append_take_drop_id concat.simps(2))
  finally show ?case .
qed

section \<open>Lemmas on the round trip\<close>

text \<open>A masked text the unmasker reads as it was written: no placeholder matches inside the text
  between the matches, and at each placeholder that placeholder is the one that matches.\<close>

fun readable :: "string list \<Rightarrow> (string \<Rightarrow> string) \<Rightarrow> string \<Rightarrow> nat \<Rightarrow> entity_match list \<Rightarrow> bool" where
  "readable keys f src pos [] = no_match_in keys (drop pos src) []"
| "readable keys f src pos (m # ms) =
     (let rest = f (em_original m) @ assemble f src (em_end m) ms
      in no_match_in keys (drop pos (take (em_start m) src)) rest
         \<and> match_at keys rest = Some (f (em_original m))
         \<and> readable keys f src (em_end m) ms)"

lemma scan_assembled:
  assumes "readable keys f src pos ms" and "\<forall>m \<in> set ms. g (f (em_original m)) = em_original m"
  shows "scan_text keys g (assemble f src pos ms) = assemble (\<lambda>v. v) src pos ms"
  using assms
proof (induction ms arbitrary: pos)
  case Nil
  then show ?case
    using scan_text_gap [of keys "drop pos src" "[]" g] by simp
next
  case (Cons m ms)
  then show ?case
    by (simp add: Let_def scan_text_gap scan_text_head)
qed

section \<open>Properties\<close>


definition toy_config :: masking_config where
  "toy_config = \<lparr> mc_method = Pseudonymization, mc_entities = [] \<rparr>"

definition toy_map :: replacement_map where
  "toy_map = (new_map Pseudonymization)\<lparr> rm_forward := [(''Bo'', ''P_1''), (''Al'', ''P_11'')],
     rm_reverse := [(''P_1'', ''Bo''), (''P_11'', ''Al'')] \<rparr>"

lemma toy_map_mirrored: "mirrored toy_map"
  by (simp add: mirrored_def toy_map_def)

lemma toy_masking:
  "replace_entities (\<lambda>v. v) (\<lambda>_. 0) toy_config ''a Bo, Al!'' [a_match ''Bo'' 2 4 1, a_match ''Al'' 6 8 1]
     (toy_map, 0) =
   (''a P_1, P_11!'', (toy_map, 0), [(a_match ''Al'' 6 8 1)\<lparr> em_placeholder := Some ''P_11'' \<rparr>,
     (a_match ''Bo'' 2 4 1)\<lparr> em_placeholder := Some ''P_1'' \<rparr>])"
  by (simp add: replace_entities_def replace_step_def place_def get_placeholder_def toy_map_def toy_config_def
      a_match_def splice_def strategy_for_def config_for_def)




text \<open>The premise of C27 is needed, and fabricated values break it: with two fabricated e-mail
  addresses in the map, one that ends a delta is cut before its last character, which could be
  the start of the other; neither part is restored, and the client receives the fake address
  although the unmasking of the whole text restores the real one.\<close>

theorem fabricated_stream_leaks_fake:
  "let m = (new_map Pseudonymization)\<lparr>
         rm_forward := [(''jo@corp.test'', ''james123@example.com''), (''mia@corp.test'', ''maria456@example.com'')],
         rm_reverse := [(''james123@example.com'', ''jo@corp.test''), (''maria456@example.com'', ''mia@corp.test'')] \<rparr>
   in stream_text (\<lambda>v. v) [''to james123@example.com'', '' now''] (stream_buffer_new m None False)
        = ''to james123@example.com now'' \<and>
      unmask_text m None ''to james123@example.com now'' = (''to jo@corp.test now'', [])"
  by code_simp

end
