(* ===== verification/Utc_Calendar.thy ===== *)
theory Utc_Calendar
  imports Prelude
begin

text \<open>
  Calendar windows in UTC (\<open>windowStartsUtc\<close> and \<open>windowEndsUtc\<close> of the gateway's
  \<open>middlewares/quotaEnforcement.ts\<close>, \<open>services/quotaWindows.ts\<close> of the admin): the day, the ISO
  week from Monday and the month of an instant, and where the next ones begin. An instant is an
  \<open>int\<close>, the milliseconds since the epoch; the calendar is that of the ECMAScript standard
  (\<open>DayFromYear\<close>, \<open>YearFromTime\<close>, \<open>MonthFromTime\<close>, \<open>WeekDay\<close>).
\<close>

section \<open>The ECMAScript calendar\<close>

definition DAY :: int where
  "DAY = 86400000"

definition day_number :: "int \<Rightarrow> int" where
  "day_number t = t div DAY"

definition leap_year :: "int \<Rightarrow> bool" where
  "leap_year y = (y mod 4 = 0 \<and> (y mod 100 \<noteq> 0 \<or> y mod 400 = 0))"

definition day_from_year :: "int \<Rightarrow> int" where
  "day_from_year y = 365 * (y - 1970) + (y - 1969) div 4 - (y - 1901) div 100 + (y - 1601) div 400"

lemma div_step:
  assumes "0 < n"
  shows "(a + 1) div n = a div n + (if (a + 1) mod n = 0 then 1 else (0::int))"
proof -
  have a: "a = n * (a div n) + a mod n" and r: "0 \<le> a mod n" "a mod n < n"
    using assms by (simp_all add: pos_mod_sign pos_mod_bound)
  show ?thesis
  proof (cases "a mod n + 1 = n")
    case True
    have "a + 1 = n * (a div n) + (a mod n + 1)" using a by linarith
    with True have "a + 1 = n * (a div n + 1)" by (simp add: distrib_left)
    then show ?thesis using assms by simp
  next
    case False
    have e: "a + 1 = n * (a div n) + (a mod n + 1)" using a by linarith
    have b: "0 < a mod n + 1" "a mod n + 1 < n" using r False by linarith+
    then have "(a + 1) div n = a div n" "(a + 1) mod n = a mod n + 1"
      using int_div_pos_eq [OF e] int_mod_pos_eq [OF e] by auto
    with b show ?thesis by auto
  qed
qed

lemma div_floor: "0 < n \<Longrightarrow> n * (a div n) \<le> a \<and> a < n * (a div n) + (n::int)"
  using pos_mod_sign [of n a] pos_mod_bound [of n a] mult_div_mod_eq [of n a] by linarith

lemma mod_shift: "(y - 1968) mod 4 = y mod (4::int)" "(y - 1900) mod 100 = y mod (100::int)" "(y - 1600) mod 400 = y mod (400::int)"
  using mod_mult_self1 [of "y - 1968" 492 4] mod_mult_self1 [of "y - 1900" 19 100] mod_mult_self1 [of "y - 1600" 4 400]
  by simp_all

lemma leap_sum:
  fixes A B C z :: int
  assumes "c400 \<Longrightarrow> c100" and "c100 \<Longrightarrow> c4"
  shows "365 * (z + 1) + (A + (if c4 then 1 else 0)) - (B + (if c100 then 1 else 0)) + (C + (if c400 then 1 else 0))
       = 365 * z + A - B + C + (if c4 \<and> (\<not> c100 \<or> c400) then 366 else 365)"
  using assms by auto

lemma day_from_year_next: "day_from_year (y + 1) = day_from_year y + (if leap_year y then 366 else 365)"
proof -
  have e: "y + 1 - 1970 = y - 1970 + 1" "y + 1 - 1969 = y - 1969 + 1" "y + 1 - 1901 = y - 1901 + 1" "y + 1 - 1601 = y - 1601 + 1"
    "y - 1969 + 1 = y - 1968" "y - 1901 + 1 = y - 1900" "y - 1601 + 1 = y - 1600"
    by simp_all
  have "y mod 400 = 0 \<Longrightarrow> y mod 100 = 0" "y mod 100 = 0 \<Longrightarrow> y mod 4 = 0"
    using mod_mod_cancel [of 100 400 y] mod_mod_cancel [of 4 100 y] by auto
  then show ?thesis
    unfolding day_from_year_def leap_year_def e(1-4) div_step [of 4 "y - 1969", OF zero_less_numeral]
      div_step [of 100 "y - 1901", OF zero_less_numeral] div_step [of 400 "y - 1601", OF zero_less_numeral]
    unfolding e(5-7) mod_shift
    by (intro leap_sum)
qed

text \<open>The largest year that begins no later than the day, found upwards from a year that does.\<close>

function year_from :: "int \<Rightarrow> int \<Rightarrow> int" where
  "year_from d y = (if day_from_year (y + 1) \<le> d then year_from d (y + 1) else y)"
  by pat_completeness auto
termination
  by (relation "measure (\<lambda>(d, y). nat (d + 1 - day_from_year y))")
    (auto simp: day_from_year_next split: if_splits)

declare year_from.simps [simp del]

definition year_of :: "int \<Rightarrow> int" where
  "year_of d = year_from d (1970 + (if d \<ge> 0 then d div 366 else d div 365))"

definition month_lengths :: "int \<Rightarrow> int list" where
  "month_lengths y = [31, if leap_year y then 29 else 28, 31, 30, 31, 30, 31, 31, 30, 31, 30, 31]"

text \<open>The month, counted from 0, that holds a day of the year, and the day of that month.\<close>

fun month_from :: "int list \<Rightarrow> int \<Rightarrow> nat \<times> int" where
  "month_from [] r = (0, r)"
| "month_from (l # ls) r = (if r < l then (0, r) else (let (m, q) = month_from ls (r - l) in (Suc m, q)))"

definition month_of :: "int \<Rightarrow> nat" where
  "month_of d = fst (month_from (month_lengths (year_of d)) (d - day_from_year (year_of d)))"

text \<open>The day number of \<open>Date.UTC(y, m, mday)\<close>; a month past December runs into the next years.\<close>

definition utc_day :: "int \<Rightarrow> nat \<Rightarrow> int \<Rightarrow> int" where
  "utc_day y m mday =
     (let y' = y + int (m div 12)
      in day_from_year y' + sum_list (take (m mod 12) (month_lengths y')) + (mday - 1))"

section \<open>The windows\<close>

datatype window = Day | Week | Month

fun window_start :: "window \<Rightarrow> int \<Rightarrow> int" where
  "window_start Day now = day_number now * DAY"
| "window_start Week now = (let d = day_number now; week_day = (d + 4) mod 7 in (d - (week_day + 6) mod 7) * DAY)"
| "window_start Month now = (let d = day_number now in utc_day (year_of d) (month_of d) 1 * DAY)"

fun window_end :: "window \<Rightarrow> int \<Rightarrow> int" where
  "window_end Day now = window_start Day now + DAY"
| "window_end Week now = window_start Week now + 7 * DAY"
| "window_end Month now = (let d = day_number now in utc_day (year_of d) (month_of d + 1) 1 * DAY)"

section \<open>Lemmas\<close>

lemma day_from_year_mono: "y \<le> z \<Longrightarrow> day_from_year y \<le> day_from_year z"
  by (induction z rule: int_ge_induct) (auto simp: day_from_year_next)

lemma year_from_holds: "day_from_year y \<le> d \<Longrightarrow> day_from_year (year_from d y) \<le> d"
proof (induction d y rule: year_from.induct)
  case (1 d y)
  then show ?case by (subst year_from.simps) auto
qed

lemma year_from_next: "d < day_from_year (year_from d y + 1)"
proof (induction d y rule: year_from.induct)
  case (1 d y)
  then show ?case by (subst year_from.simps) auto
qed

lemma day_from_year_offset:
  "day_from_year (1970 + k) =
   365 * k + (k + 1) div 4 - ((k + 1) div 4 + 17) div 25 + (((k + 1) div 4 + 17) div 25 + 3) div 4"
proof -
  have "(k + 69) div 4 = (k + 1) div 4 + 17"
    using div_mult_self1 [of 4 "k + 1" 17] by (simp add: algebra_simps)
  then have x: "(k + 69) div 100 = ((k + 1) div 4 + 17) div 25"
    using zdiv_zmult2_eq [of 25 "k + 69" 4] by simp
  have "(k + 369) div 100 = (k + 69) div 100 + 3"
    using div_mult_self1 [of 100 "k + 69" 3] by (simp add: algebra_simps)
  then have "(k + 369) div 400 = ((k + 69) div 100 + 3) div 4"
    using zdiv_zmult2_eq [of 4 "k + 369" 100] by simp
  with x have "day_from_year (1970 + k) = 365 * k + (k + 1) div 4 - (k + 69) div 100 + (k + 369) div 400"
    by (simp add: day_from_year_def algebra_simps)
  with x show ?thesis
    using \<open>(k + 369) div 400 = ((k + 69) div 100 + 3) div 4\<close> by simp
qed

lemma year_guess: "day_from_year (1970 + (if d \<ge> 0 then d div 366 else d div 365)) \<le> d"
proof -
  define k where "k = (if d \<ge> 0 then d div 366 else d div 365)"
  define u where "u = (k + 1) div 4"
  define x where "x = (u + 17) div 25"
  define w where "w = (x + 3) div 4"
  have u: "4 * u \<le> k + 1" "k + 1 < 4 * u + 4" using div_floor [of 4 "k + 1"] by (simp_all add: u_def)
  have x: "25 * x \<le> u + 17" "u + 17 < 25 * x + 25" using div_floor [of 25 "u + 17"] by (simp_all add: x_def)
  have w: "4 * w \<le> x + 3" using div_floor [of 4 "x + 3"] by (simp add: w_def)
  have "365 * k + u - x + w \<le> d"
  proof (cases "d \<ge> 0")
    case True
    then have k: "0 \<le> k" "366 * k \<le> d"
      using div_floor [of 366 d] by (simp_all add: k_def pos_imp_zdiv_nonneg_iff)
    then have "0 \<le> u" using u by linarith
    then have "0 \<le> x" using x by linarith
    then have "w \<le> x" using w by linarith
    moreover have "u \<le> k" using u k by linarith
    ultimately show ?thesis using k by linarith
  next
    case False
    then have k: "k < 0" "365 * k \<le> d"
      using div_floor [of 365 d] by (simp_all add: k_def pos_imp_zdiv_neg_iff)
    then have "u \<le> 0" using u by linarith
    then have "u - x + w \<le> 0" using x w by linarith
    then show ?thesis using k by linarith
  qed
  then show ?thesis
    using day_from_year_offset [of k, folded u_def, folded x_def, folded w_def]
    unfolding k_def [symmetric] by simp
qed

lemma year_of_bounds: "day_from_year (year_of d) \<le> d" "d < day_from_year (year_of d + 1)"
  unfolding year_of_def by (rule year_from_holds [OF year_guess]) (rule year_from_next)

lemma year_of_unique:
  assumes "day_from_year y \<le> d" and "d < day_from_year (y + 1)"
  shows "year_of d = y"
proof (rule ccontr)
  assume "year_of d \<noteq> y"
  then consider "year_of d + 1 \<le> y" | "y + 1 \<le> year_of d" by linarith
  then show False
    using day_from_year_mono year_of_bounds [of d] assms by cases fastforce+
qed

lemma length_month_lengths [simp]: "length (month_lengths y) = 12"
  by (simp add: month_lengths_def)

lemma sum_month_lengths: "sum_list (month_lengths y) = (if leap_year y then 366 else 365)"
  by (simp add: month_lengths_def)

lemma month_from_bounds:
  "0 \<le> r \<Longrightarrow> r < sum_list ls \<Longrightarrow> month_from ls r = (m, q)
   \<Longrightarrow> m < length ls \<and> sum_list (take m ls) + q = r \<and> 0 \<le> q \<and> q < ls ! m"
proof (induction ls arbitrary: r m q)
  case (Cons l ls)
  show ?case
  proof (cases "r < l")
    case False
    obtain m' where "month_from ls (r - l) = (m', q)" "m = Suc m'"
      using Cons.prems(3) False by (auto split: prod.splits)
    with Cons.IH [of "r - l" m' q] Cons.prems False show ?thesis by auto
  qed (use Cons.prems in auto)
qed simp

lemma sum_take_nonneg: "list_all (\<lambda>l. (0::int) < l) ls \<Longrightarrow> 0 \<le> sum_list (take k ls)"
  by (intro sum_list_nonneg) (auto simp: list_all_iff dest!: in_set_takeD)

lemma month_from_start:
  "m < length ls \<Longrightarrow> list_all (\<lambda>l. 0 < l) ls \<Longrightarrow> month_from ls (sum_list (take m ls)) = (m, 0)"
proof (induction ls arbitrary: m)
  case (Cons l ls)
  then show ?case
    using sum_take_nonneg [of ls] by (cases m) (auto simp: not_less [symmetric])
qed simp

lemma month_lengths_pos: "list_all (\<lambda>l. 0 < l) (month_lengths y)"
  by (simp add: month_lengths_def)

text \<open>The days of a month: from its first day to the first day of the next.\<close>

lemma utc_day_next_month:
  assumes "m < 12"
  shows "utc_day y (Suc m) 1 = utc_day y m 1 + month_lengths y ! m"
proof (cases "m = 11")
  case True
  then show ?thesis
    by (simp add: utc_day_def Let_def day_from_year_next month_lengths_def)
next
  case False
  with assms have "m \<in> set [0..<11]" by simp
  then show ?thesis by (auto simp: upt_rec [of _ 11] utc_day_def month_lengths_def)
qed

lemma month_of_bounds:
  "month_of d < 12" "utc_day (year_of d) (month_of d) 1 \<le> d" "d < utc_day (year_of d) (month_of d + 1) 1"
proof -
  let ?y = "year_of d" and ?r = "d - day_from_year (year_of d)"
  obtain m q where mq: "month_from (month_lengths ?y) ?r = (m, q)" by fastforce
  have r: "0 \<le> ?r" "?r < sum_list (month_lengths ?y)"
    using year_of_bounds [of d] by (simp_all add: sum_month_lengths day_from_year_next split: if_splits)
  have m: "month_of d = m" by (simp add: month_of_def mq)
  note b = month_from_bounds [OF r mq]
  from b show lt: "month_of d < 12" by (simp add: m)
  from b lt show "utc_day ?y (month_of d) 1 \<le> d" by (simp add: m utc_day_def Let_def)
  from b lt show "d < utc_day ?y (month_of d + 1) 1"
    by (simp add: m utc_day_next_month) (simp add: utc_day_def Let_def)
qed

text \<open>The first day of a month is in that month.\<close>

lemma first_of_month:
  assumes "m < 12"
  shows "year_of (utc_day y m 1) = y" "month_of (utc_day y m 1) = m"
proof -
  let ?d = "utc_day y m 1"
  have d: "?d = day_from_year y + sum_list (take m (month_lengths y))"
    using assms by (simp add: utc_day_def)
  have "0 \<le> sum_list (take m (month_lengths y))"
    by (rule sum_take_nonneg [OF month_lengths_pos])
  moreover have "sum_list (take m (month_lengths y)) < sum_list (month_lengths y)"
  proof -
    have "list_all (\<lambda>l. 0 < l) (drop m (month_lengths y))" "drop m (month_lengths y) \<noteq> []"
      using month_lengths_pos [of y] assms by (auto simp: list_all_iff dest: in_set_dropD)
    then have "0 < sum_list (drop m (month_lengths y))"
      using sum_take_nonneg [of "tl (drop m (month_lengths y))" "length (tl (drop m (month_lengths y)))"]
      by (cases "drop m (month_lengths y)") (auto simp: add_pos_nonneg)
    then show ?thesis
      using arg_cong [OF append_take_drop_id [of m "month_lengths y"], of sum_list]
      by (simp only: sum_list_append)
  qed
  ultimately show y: "year_of ?d = y"
    by (intro year_of_unique) (auto simp: d day_from_year_next sum_month_lengths split: if_splits)
  then show "month_of ?d = m"
    using assms by (simp add: month_of_def d month_from_start month_lengths_pos)
qed

lemma month_start_of: "window_start Month now = utc_day (year_of (day_number now)) (month_of (day_number now)) 1 * DAY"
  by (simp add: Let_def)

lemma month_end_of:
  "window_end Month now = (utc_day (year_of (day_number now)) (month_of (day_number now)) 1
     + month_lengths (year_of (day_number now)) ! month_of (day_number now)) * DAY"
  using month_of_bounds(1) [of "day_number now"] by (simp add: Let_def utc_day_next_month)

lemma day_number_bounds: "day_number t * DAY \<le> t" "t < (day_number t + 1) * DAY"
  using div_floor [of DAY t] by (simp_all add: day_number_def DAY_def algebra_simps)

lemma day_number_mult [simp]: "day_number (d * DAY) = d"
  by (simp add: day_number_def DAY_def)

lemma week_start_of: "window_start Week now = (day_number now - (day_number now + 3) mod 7) * DAY"
proof -
  have "((d + 4) mod 7 + 6) mod 7 = (d + 3) mod 7" for d :: int
    using mod_add_left_eq [of "d + 4" 7 6] mod_mult_self1 [of "d + 3" 1 7] by (simp add: algebra_simps)
  then show ?thesis by (simp add: Let_def)
qed

text \<open>A window holds the instant.\<close>

lemma window_holds: "window_start w now \<le> now \<and> now < window_end w now"
proof (cases w)
  case Day
  then show ?thesis using day_number_bounds [of now] by (simp add: algebra_simps)
next
  case Week
  have r: "0 \<le> (day_number now + 3) mod 7" "(day_number now + 3) mod 7 < 7" by simp_all
  have "(day_number now - (day_number now + 3) mod 7) * DAY \<le> day_number now * DAY"
    "(day_number now + 1) * DAY \<le> (day_number now - (day_number now + 3) mod 7 + 7) * DAY"
    using r by (intro mult_right_mono; simp add: DAY_def)+
  then show ?thesis
    unfolding Week window_end.simps week_start_of distrib_right [symmetric]
    using day_number_bounds [of now] by linarith
next
  case Month
  let ?d = "day_number now"
  have "utc_day (year_of ?d) (month_of ?d) 1 * DAY \<le> ?d * DAY"
    "(?d + 1) * DAY \<le> utc_day (year_of ?d) (month_of ?d + 1) 1 * DAY"
    using month_of_bounds(2,3) [of ?d] by (intro mult_right_mono; simp add: DAY_def)+
  then show ?thesis
    using day_number_bounds [of now] by (simp add: Month Let_def)
qed

text \<open>The start of a window is the start of its own window.\<close>

lemma window_start_idem: "window_start w (window_start w now) = window_start w now"
proof (cases w)
  case Week
  have "(d - (d + 3) mod 7 + 3) mod 7 = 0" for d :: int
    using mod_diff_right_eq [of "d + 3" "d + 3" 7] by (simp add: algebra_simps)
  then show ?thesis unfolding Week week_start_of by simp
next
  case Month
  then show ?thesis
    by (simp add: month_start_of first_of_month month_of_bounds(1) del: window_start.simps)
qed simp

lemma next_month: "m < 12 \<Longrightarrow> \<exists>y' m'. m' < 12 \<and> utc_day y (Suc m) 1 = utc_day y' m' 1"
  by (cases "m = 11", rule exI [of _ "y + 1"], rule exI [of _ 0], simp add: utc_day_def,
      rule exI [of _ y], rule exI [of _ "Suc m"], simp)

text \<open>C39. The calendar windows of the quotas tile the time line: an instant lies in its own day, ISO
  week and month, and each window begins exactly where the one before it ends, across month
  lengths, leap years and centuries; so usage is never counted in two windows of a kind and a limit
  resets at the announced instant.\<close>

theorem windows_tile:
  "window_start w now \<le> now \<and> now < window_end w now \<and>
   window_start w (window_start w now) = window_start w now \<and>
   window_start w (window_end w now) = window_end w now"
proof -
  have "window_start w (window_end w now) = window_end w now"
  proof (cases w)
    case Day
    then show ?thesis
      using day_number_mult [of "day_number now + 1"] by (simp add: distrib_right)
  next
    case Week
    have "(d - (d + 3) mod 7 + 7 + 3) mod 7 = 0" for d :: int
      using mod_diff_right_eq [of "d + 10" "d + 3" 7] mod_mult_self1 [of "d + 3 - (d + 3)" 1 7] by (simp add: algebra_simps)
    then show ?thesis
      unfolding Week window_end.simps week_start_of distrib_right [symmetric] day_number_mult by simp
  next
    case Month
    let ?d = "day_number now"
    obtain y m where "m < 12" "utc_day (year_of ?d) (Suc (month_of ?d)) 1 = utc_day y m 1"
      using next_month [OF month_of_bounds(1)] by blast
    then show ?thesis by (simp add: Month Let_def first_of_month)
  qed
  then show ?thesis using window_holds window_start_idem by blast
qed

end
