(* ===== verification/Rate_Limit_Store.thy ===== *)
theory Rate_Limit_Store
  imports Utc_Calendar
begin

text \<open>
  The counters behind the request limits (\<open>services/rateLimitStore.ts\<close>) and the checks that read
  them (\<open>sliding\<close>, \<open>fixed\<close> and \<open>checkRequests\<close> of \<open>middlewares/quotaEnforcement.ts\<close>).

  A store is a pair of operations on a state \<open>'s\<close>; \<open>None\<close> stands for a rejected promise. The memory
  store reads the clock itself: here the time \<open>now\<close>, in milliseconds, is an argument, and the
  operations of one request see one time. Amounts are rationals.
\<close>

section \<open>The stores\<close>

record 's store_ops =
  st_incr :: "string \<Rightarrow> nat \<Rightarrow> 's \<Rightarrow> nat option \<times> 's"
  st_get :: "string \<Rightarrow> 's \<Rightarrow> nat option"

text \<open>The memory store: the value of a key and when it expires.\<close>

type_synonym memory = "(string \<times> nat \<times> int) list"

definition MEMORY_SWEEP_SIZE :: nat where
  "MEMORY_SWEEP_SIZE = 10000"

definition memory_sweep :: "int \<Rightarrow> memory \<Rightarrow> memory" where
  "memory_sweep now m =
     (if length m < MEMORY_SWEEP_SIZE then m else filter (\<lambda>(k, n, expiry). expiry > now) m)"

definition memory_incr :: "int \<Rightarrow> string \<Rightarrow> nat \<Rightarrow> memory \<Rightarrow> nat \<times> memory" where
  "memory_incr now k ttl m =
     (let m' = memory_sweep now m;
          fresh = (1, AList.update k (1, now + int ttl * 1000) m')
      in case map_of m' k of
           None \<Rightarrow> fresh
         | Some (n, expiry) \<Rightarrow> if expiry > now then (n + 1, AList.update k (n + 1, expiry) m') else fresh)"

definition memory_get :: "int \<Rightarrow> string \<Rightarrow> memory \<Rightarrow> nat" where
  "memory_get now k m =
     (case map_of m k of None \<Rightarrow> 0 | Some (n, expiry) \<Rightarrow> if expiry > now then n else 0)"

definition memory_store :: "int \<Rightarrow> memory store_ops" where
  "memory_store now =
     \<lparr> st_incr = (\<lambda>k ttl m. let (n, m') = memory_incr now k ttl m in (Some n, m')),
       st_get = (\<lambda>k m. Some (memory_get now k m)) \<rparr>"

text \<open>The Valkey store over the client's commands: \<open>MULTI INCR EXPIRE EXEC\<close> answers nothing when
  the transaction is aborted, else the replies, of which the first is read: its error flag and its
  value; \<open>GET\<close> fails or answers the stored number, if there is one.\<close>

record 's valkey_client =
  vk_incr_expire :: "string \<Rightarrow> nat \<Rightarrow> 's \<Rightarrow> (bool \<times> nat) list option \<times> 's"
  vk_get :: "string \<Rightarrow> 's \<Rightarrow> nat option option"

definition valkey_store :: "'s valkey_client \<Rightarrow> 's store_ops" where
  "valkey_store c =
     \<lparr> st_incr = (\<lambda>k ttl s. case vk_incr_expire c k ttl s of
         (Some ((failed, n) # replies), s') \<Rightarrow> (if failed then None else Some n, s')
       | (_, s') \<Rightarrow> (None, s')),
       st_get = (\<lambda>k s. case vk_get c k s of None \<Rightarrow> None | Some None \<Rightarrow> Some 0 | Some (Some n) \<Rightarrow> Some n) \<rparr>"

section \<open>The checks of a request\<close>

definition show_int :: "int \<Rightarrow> string" where
  "show_int i = (if i < 0 then ''-'' @ show_nat (nat (- i)) else show_nat (nat i))"

definition bucket_key :: "string \<Rightarrow> int \<Rightarrow> string" where
  "bucket_key pre i = pre @ '':'' @ show_int i"

text \<open>The two-bucket sliding window: the current minute's count and the weighted previous one.\<close>

definition sliding :: "'s store_ops \<Rightarrow> string \<Rightarrow> int \<Rightarrow> 's \<Rightarrow> (rat \<times> int) option \<times> 's" where
  "sliding st pre now s =
     (let minute = now div 60000 in
      case st_incr st (bucket_key pre minute) 120 s of
        (None, s') \<Rightarrow> (None, s')
      | (Some current, s') \<Rightarrow>
          (case st_get st (bucket_key pre (minute - 1)) s' of
             None \<Rightarrow> (None, s')
           | Some previous \<Rightarrow>
               let elapsed = of_int (now mod 60000) / 60000
               in (Some (of_nat current + of_nat previous * (1 - elapsed), (minute + 1) * 60000), s')))"

definition fixed :: "'s store_ops \<Rightarrow> string \<Rightarrow> nat \<Rightarrow> int \<Rightarrow> 's \<Rightarrow> (rat \<times> int) option \<times> 's" where
  "fixed st k ttl resets_at s =
     (case st_incr st k ttl s of
        (None, s') \<Rightarrow> (None, s')
      | (Some n, s') \<Rightarrow> (Some (of_nat n, resets_at), s'))"

datatype quota_scope = User_Scope | Key_Scope | Team_Scope

datatype limit_window = Per_Minute | Per_Hour | Per_Day | Per_Week | Per_Month

datatype dimension = Requests | Tokens | Spend

datatype exceeded_type = Rate_Limit_Exceeded | Quota_Exceeded

record exceeded =
  ex_type :: exceeded_type
  ex_scope :: quota_scope
  ex_team :: "string option"
  ex_dimension :: dimension
  ex_window :: limit_window
  ex_limit :: rat
  ex_used :: rat
  ex_resets_at :: int

datatype check_kind = Sliding string | Fixed string nat int

record check =
  ck_scope :: quota_scope
  ck_window :: limit_window
  ck_limit :: rat
  ck_kind :: check_kind

definition run_check :: "'s store_ops \<Rightarrow> int \<Rightarrow> check \<Rightarrow> 's \<Rightarrow> (rat \<times> int) option \<times> 's" where
  "run_check st now c s =
     (case ck_kind c of
        Sliding pre \<Rightarrow> sliding st pre now s
      | Fixed k ttl resets_at \<Rightarrow> fixed st k ttl resets_at s)"

record tightest =
  tg_limit :: rat
  tg_used :: rat
  tg_resets_at :: int

definition tighten :: "check \<Rightarrow> rat \<Rightarrow> int \<Rightarrow> tightest option \<Rightarrow> tightest" where
  "tighten c used resets_at t =
     (let this = \<lparr> tg_limit = ck_limit c, tg_used = used, tg_resets_at = resets_at \<rparr> in
      case t of
        None \<Rightarrow> this
      | Some b \<Rightarrow> if ck_limit c - used < tg_limit b - tg_used b then this else b)"

definition exceeded_by :: "string option \<Rightarrow> check \<Rightarrow> rat \<Rightarrow> int \<Rightarrow> exceeded" where
  "exceeded_by team c used resets_at =
     \<lparr> ex_type = Rate_Limit_Exceeded, ex_scope = ck_scope c,
       ex_team = (if ck_scope c = Team_Scope then team else None), ex_dimension = Requests,
       ex_window = ck_window c, ex_limit = ck_limit c, ex_used = used, ex_resets_at = resets_at \<rparr>"

text \<open>The loop over the checks; it stops at the first one exceeded, and \<open>None\<close> is a store that
  failed.\<close>

fun run_checks ::
  "'s store_ops \<Rightarrow> int \<Rightarrow> string option \<Rightarrow> check list \<Rightarrow> tightest option \<Rightarrow> 's
   \<Rightarrow> (exceeded option \<times> tightest option) option \<times> 's" where
  "run_checks st now team [] t s = (Some (None, t), s)"
| "run_checks st now team (c # cs) t s =
     (case run_check st now c s of
        (None, s') \<Rightarrow> (None, s')
      | (Some (used, resets_at), s') \<Rightarrow>
          if used > ck_limit c then
            (Some (Some (exceeded_by team c used resets_at), t), s')
          else run_checks st now team cs (Some (tighten c used resets_at t)) s')"

text \<open>The bucket a check counts in, and the checks whose bucket lives for some time.\<close>

definition check_bucket :: "int \<Rightarrow> check \<Rightarrow> string" where
  "check_bucket now c = (case ck_kind c of Sliding pre \<Rightarrow> bucket_key pre (now div 60000) | Fixed k ttl r \<Rightarrow> k)"

definition lasting :: "check \<Rightarrow> bool" where
  "lasting c = (case ck_kind c of Sliding pre \<Rightarrow> True | Fixed k ttl r \<Rightarrow> 0 < ttl)"

section \<open>The contract of a counter store\<close>

text \<open>What the checks rely on when the store answers: an increment adds one to its key, returns the
  new value and leaves the other keys alone.\<close>

locale counter_store =
  fixes st :: "'s store_ops" and count :: "string \<Rightarrow> 's \<Rightarrow> nat" and inv :: "'s \<Rightarrow> bool"
  assumes incr_value: "inv s \<Longrightarrow> 0 < ttl \<Longrightarrow> fst (st_incr st k ttl s) = Some (count k s + 1)"
    and incr_count: "inv s \<Longrightarrow> 0 < ttl \<Longrightarrow>
      count k' (snd (st_incr st k ttl s)) = (if k' = k then count k s + 1 else count k' s)"
    and incr_inv: "inv s \<Longrightarrow> inv (snd (st_incr st k ttl s))"
    and get_value: "inv s \<Longrightarrow> st_get st k s = Some (count k s)"
begin

lemma run_check_counts:
  assumes "inv s" and "lasting c"
  shows "\<exists>used resets_at s'. run_check st now c s = (Some (used, resets_at), s') \<and> inv s' \<and>
           of_nat (count (check_bucket now c) s + 1) \<le> used \<and>
           (\<forall>k. count k s' = count k s + (if k = check_bucket now c then 1 else 0))"
proof (cases "ck_kind c")
  case (Sliding pre)
  let ?k = "bucket_key pre (now div 60000)"
  obtain s' where s': "st_incr st ?k 120 s = (Some (count ?k s + 1), s')"
    using incr_value [OF assms(1), of 120 ?k] by (cases "st_incr st ?k 120 s") auto
  have inv': "inv s'" using incr_inv [OF assms(1), of ?k 120] s' by simp
  have "(of_int (now mod 60000) :: rat) \<le> 60000"
    using pos_mod_bound [of 60000 now] by (metis less_imp_le of_int_le_iff of_int_numeral zero_less_numeral)
  then have "0 \<le> (of_nat n :: rat) * (1 - of_int (now mod 60000) / 60000)" for n :: nat
    by (intro mult_nonneg_nonneg) auto
  then show ?thesis
    using inv' get_value [OF inv'] incr_count [OF assms(1), of 120 _ ?k] s'
    by (simp add: run_check_def sliding_def check_bucket_def Sliding Let_def)
next
  case (Fixed k ttl r)
  then have ttl: "0 < ttl" using assms(2) by (simp add: lasting_def)
  obtain s' where s': "st_incr st k ttl s = (Some (count k s + 1), s')"
    using incr_value [OF assms(1) ttl, of k] by (cases "st_incr st k ttl s") auto
  show ?thesis
    using s' incr_inv [OF assms(1), of k ttl] incr_count [OF assms(1) ttl, of _ k]
    by (simp add: run_check_def fixed_def check_bucket_def Fixed)
qed

text \<open>A run of the checks counts the request once in the bucket of every check up to the one that
  refuses it, and in no later one.\<close>

lemma run_checks_counts:
  assumes "inv s" and "list_all lasting cs"
  shows "\<exists>x t' s' run rest. run_checks st now team cs t s = (Some (x, t'), s') \<and> inv s' \<and> cs = run @ rest \<and>
           (\<forall>k. count k s' = count k s + count_list (map (check_bucket now) run) k) \<and>
           (case x of
              None \<Rightarrow> rest = []
            | Some e \<Rightarrow> run \<noteq> [] \<and> ex_limit e = ck_limit (last run) \<and> ex_scope e = ck_scope (last run) \<and>
                        ex_limit e < ex_used e)"
  using assms
proof (induction cs arbitrary: t s)
  case Nil
  then show ?case by (intro exI [of _ None] exI [of _ t] exI [of _ s] exI [of _ "[]"]) simp
next
  case (Cons c cs)
  obtain used r s1 where c: "run_check st now c s = (Some (used, r), s1)" "inv s1"
    "\<forall>k. count k s1 = count k s + (if k = check_bucket now c then 1 else 0)"
    using run_check_counts [of s c now] Cons.prems by auto
  show ?case
  proof (cases "used > ck_limit c")
    case True
    then show ?thesis
      by (intro exI [of _ "Some (exceeded_by team c used r)"] exI [of _ t] exI [of _ s1] exI [of _ "[c]"] exI [of _ cs]) (simp add: c exceeded_by_def)
  next
    case False
    obtain x t' s' run rest where ih:
      "run_checks st now team cs (Some (tighten c used r t)) s1 = (Some (x, t'), s')" "inv s'" "cs = run @ rest"
      "\<forall>k. count k s' = count k s1 + count_list (map (check_bucket now) run) k"
      "case x of None \<Rightarrow> rest = []
       | Some e \<Rightarrow> run \<noteq> [] \<and> ex_limit e = ck_limit (last run) \<and> ex_scope e = ck_scope (last run) \<and> ex_limit e < ex_used e"
      using Cons.IH [OF c(2), of "Some (tighten c used r t)"] Cons.prems by auto
    show ?thesis
      using False ih c
      by (intro exI [of _ x] exI [of _ t'] exI [of _ s'] exI [of _ "c # run"] exI [of _ rest])
        (auto split: option.splits)
  qed
qed

end

section \<open>The memory store keeps the contract\<close>

lemma map_of_filter_value:
  "distinct (map fst m) \<Longrightarrow>
   map_of (filter (\<lambda>(k, v). P v) m) k = (case map_of m k of None \<Rightarrow> None | Some v \<Rightarrow> if P v then Some v else None)"
  by (induction m) (auto split: option.splits dest: map_of_SomeD simp: rev_image_eqI)

lemma distinct_filter_keys: "distinct (map fst m) \<Longrightarrow> distinct (map fst (filter P m))"
  by (rule distinct_map_filter)

lemma memory_get_sweep:
  assumes "distinct (map fst m)"
  shows "memory_get now k (memory_sweep now m) = memory_get now k m"
proof -
  have "(\<lambda>(k, n, expiry). expiry > now) = (\<lambda>(k::string, v). (\<lambda>(n::nat, expiry). expiry > now) v)" by auto
  then show ?thesis
    using map_of_filter_value [OF assms, of "\<lambda>(n, expiry). expiry > now" k]
    by (auto simp: memory_get_def memory_sweep_def split: option.splits)
qed

lemma memory_sweep_distinct: "distinct (map fst m) \<Longrightarrow> distinct (map fst (memory_sweep now m))"
  by (simp add: memory_sweep_def distinct_filter_keys)

lemma memory_incr_value:
  assumes "distinct (map fst m)"
  shows "fst (memory_incr now k ttl m) = memory_get now k m + 1"
  unfolding memory_get_sweep [OF assms, of now k, symmetric]
  by (simp add: memory_incr_def memory_get_def Let_def split: option.split prod.split)

lemma memory_incr_count:
  assumes "distinct (map fst m)" and "0 < ttl"
  shows "memory_get now k' (snd (memory_incr now k ttl m)) =
         (if k' = k then memory_get now k m + 1 else memory_get now k' m)"
  unfolding memory_get_sweep [OF assms(1), symmetric]
  using assms(2) by (simp add: memory_incr_def memory_get_def Let_def split: option.split prod.split)

lemma memory_incr_distinct: "distinct (map fst m) \<Longrightarrow> distinct (map fst (snd (memory_incr now k ttl m)))"
  using memory_sweep_distinct [of m now]
  by (auto simp: memory_incr_def Let_def split: option.splits prod.splits if_splits)

interpretation memory: counter_store "memory_store now" "memory_get now" "\<lambda>m. distinct (map fst m)" for now
  by unfold_locales
    (simp_all add: memory_store_def case_prod_unfold memory_incr_value memory_incr_count memory_incr_distinct)

section \<open>Properties\<close>

text \<open>A refused request burns no later budget: the checks run in order, the request is counted
  exactly once in the bucket of every check up to the refusing one and in no other, and it is
  refused exactly by a check whose amount exceeds its limit; an admitted request is counted once in
  every bucket.\<close>

theorem refused_request_burns_no_later_bucket:
  assumes "distinct (map fst m)" and "list_all lasting cs"
  shows "\<exists>x t m' run rest. run_checks (memory_store now) now team cs None m = (Some (x, t), m') \<and>
           cs = run @ rest \<and>
           (\<forall>k. memory_get now k m' = memory_get now k m + count_list (map (check_bucket now) run) k) \<and>
           (case x of
              None \<Rightarrow> rest = []
            | Some e \<Rightarrow> run \<noteq> [] \<and> ex_limit e = ck_limit (last run) \<and> ex_scope e = ck_scope (last run) \<and>
                        ex_limit e < ex_used e)"
  using memory.run_checks_counts [OF assms, of now now team None] by blast

definition minute_check :: "rat \<Rightarrow> check" where
  "minute_check n = \<lparr> ck_scope = User_Scope, ck_window = Per_Minute, ck_limit = n, ck_kind = Sliding ''rl:user:u'' \<rparr>"

definition hour_check :: "rat \<Rightarrow> check" where
  "hour_check n = \<lparr> ck_scope = Key_Scope, ck_window = Per_Hour, ck_limit = n, ck_kind = Fixed ''rl:key:k:h:0'' 7200 3600000 \<rparr>"

theorem refused_request_burns_no_later_bucket_witness:
  "\<exists>x t m' run rest. run_checks (memory_store 0) 0 None [minute_check 0, hour_check 5] None [] = (Some (x, t), m') \<and>
     [minute_check 0, hour_check 5] = run @ rest \<and>
     (\<forall>k. memory_get 0 k m' = memory_get 0 k [] + count_list (map (check_bucket 0) run) k) \<and>
     (case x of
        None \<Rightarrow> rest = []
      | Some e \<Rightarrow> run \<noteq> [] \<and> ex_limit e = ck_limit (last run) \<and> ex_scope e = ck_scope (last run) \<and>
                  ex_limit e < ex_used e)"
  by (rule refused_request_burns_no_later_bucket) (simp_all add: lasting_def minute_check_def hour_check_def)

text \<open>The verdicts on a run of requests that one fixed check counts, at the given times.\<close>

fun fixed_verdicts :: "check \<Rightarrow> int list \<Rightarrow> memory \<Rightarrow> bool list" where
  "fixed_verdicts c [] m = []"
| "fixed_verdicts c (t # ts) m =
     (let (r, m') = run_checks (memory_store t) t None [c] None m
      in (case r of Some (Some e, _) \<Rightarrow> False | _ \<Rightarrow> True) # fixed_verdicts c ts m')"

lemma memory_sweep_live:
  "distinct (map fst m) \<Longrightarrow> map_of m k = Some (n, e) \<Longrightarrow> now < e \<Longrightarrow> map_of (memory_sweep now m) k = Some (n, e)"
  using map_of_filter_value [of m "\<lambda>(n, expiry). expiry > now" k]
  by (simp add: memory_sweep_def case_prod_unfold)

lemma memory_sweep_absent:
  "distinct (map fst m) \<Longrightarrow> map_of m k = None \<Longrightarrow> map_of (memory_sweep now m) k = None"
  using map_of_filter_value [of m "\<lambda>(n, expiry). expiry > now" k]
  by (simp add: memory_sweep_def case_prod_unfold)

lemma fixed_verdict_step:
  assumes "ck_kind c = Fixed k ttl r"
  shows "fixed_verdicts c (t # ts) m =
         (of_nat (fst (memory_incr t k ttl m)) \<le> ck_limit c) # fixed_verdicts c ts (snd (memory_incr t k ttl m))"
  by (cases "memory_incr t k ttl m") (simp add: run_check_def assms fixed_def memory_store_def Let_def not_less)

lemma fixed_verdicts_live:
  assumes "ck_kind c = Fixed k ttl r"
  shows "distinct (map fst m) \<Longrightarrow> map_of m k = Some (n, e) \<Longrightarrow> list_all (\<lambda>u. u < e) ts
         \<Longrightarrow> fixed_verdicts c ts m = map (\<lambda>i. of_nat (n + i + 1) \<le> ck_limit c) [0..<length ts]"
proof (induction ts arbitrary: m n)
  case (Cons t ts)
  let ?m' = "snd (memory_incr t k ttl m)"
  have incr: "memory_incr t k ttl m = (n + 1, AList.update k (n + 1, e) (memory_sweep t m))"
    using memory_sweep_live [OF Cons.prems(1,2), of t] Cons.prems(3) by (simp add: memory_incr_def Let_def)
  have "fixed_verdicts c ts ?m' = map (\<lambda>i. of_nat (n + 1 + i + 1) \<le> ck_limit c) [0..<length ts]"
    using Cons.prems memory_sweep_distinct by (intro Cons.IH) (simp_all add: incr)
  then show ?case
    unfolding fixed_verdict_step [OF assms]
    by (simp add: incr upt_conv_Cons map_Suc_upt [symmetric] comp_def del: upt_Suc)
qed simp

text \<open>A fixed limit is exact: of the requests that fall into one bucket while it lives, the memory
  store admits the first ones up to the limit and refuses every later one, however they are spaced.\<close>

theorem fixed_limit_exact:
  assumes "ck_kind c = Fixed k ttl r" and "distinct (map fst m)" and "map_of m k = None"
    and "list_all (\<lambda>u. u < t + int ttl * 1000) ts"
  shows "fixed_verdicts c (t # ts) m = map (\<lambda>i. of_nat (i + 1) \<le> ck_limit c) [0..<length (t # ts)]"
proof -
  have incr: "memory_incr t k ttl m = (1, AList.update k (1, t + int ttl * 1000) (memory_sweep t m))"
    using memory_sweep_absent [OF assms(2,3), of t] by (simp add: memory_incr_def Let_def)
  have "fixed_verdicts c ts (snd (memory_incr t k ttl m)) = map (\<lambda>i. of_nat (1 + i + 1) \<le> ck_limit c) [0..<length ts]"
    using assms(2,4) memory_sweep_distinct by (intro fixed_verdicts_live [OF assms(1)]) (simp_all add: incr)
  then show ?thesis
    unfolding fixed_verdict_step [OF assms(1)]
    by (simp add: incr upt_conv_Cons map_Suc_upt [symmetric] comp_def del: upt_Suc)
qed

theorem fixed_limit_exact_witness:
  "fixed_verdicts (hour_check 2) [5, 10, 3599999] [] = [True, True, False]"
  using fixed_limit_exact [of "hour_check 2" "''rl:key:k:h:0''" 7200 3600000 "[]" 5 "[10, 3599999]"]
  by (simp add: hour_check_def upt_rec)

end
