(* ===== verification/Quota_Enforcement.thy ===== *)
theory Quota_Enforcement
  imports Rate_Limit_Store
begin

text \<open>
  The quota middleware of the gateway (\<open>middlewares/quotaEnforcement.ts\<close>) with the caller's blocks
  (\<open>utils/userBlock.ts\<close>) and the reader of the published usage documents
  (\<open>services/quotaStateReader.ts\<close>): who is calling, the request counters, the admission against the
  user's and the team's document, the security events and their throttling, and the owner admission
  of the cockpit's grounding routes.

  Parameters of the model: the shared store and the replies of the Valkey client, \<open>sha\<close> (SHA-256 in
  hex), \<open>parse\<close> (\<open>JSON.parse\<close>) and \<open>parse_date\<close> (\<open>Date.parse\<close>, \<open>None\<close> for \<open>NaN\<close>). A request is the
  \<open>js\<close> value of the fields the code reads. The clock is read once per request.
\<close>

section \<open>Who is calling\<close>

definition num :: "js \<Rightarrow> rat option" where
  "num v = (case v of JNum n \<Rightarrow> if 0 \<le> n then Some n else None | _ \<Rightarrow> None)"

text \<open>\<open>a || b || \<dots>\<close> over values that are strings or absent.\<close>

definition first_text :: "js list \<Rightarrow> string option" where
  "first_text vs = find (\<lambda>s. s \<noteq> []) (collect_some jstring vs)"

definition text_or_empty :: "js \<Rightarrow> string" where
  "text_or_empty v = (case v of JStr s \<Rightarrow> s | _ \<Rightarrow> [])"

record user_block =
  ub_email :: string
  ub_deactivated :: bool
  ub_roles :: "string list"
  ub_limits :: js
  ub_team_ids :: "string list option"

record team_block =
  tb_team_id :: string
  tb_team_name :: string
  tb_limits :: js

definition is_user_block :: "js \<Rightarrow> bool" where
  "is_user_block x = (is_objectish x \<and> is_str (jget x ''status'') \<and> is_objectish (jget x ''limits''))"

definition strings_in :: "js \<Rightarrow> string list" where
  "strings_in v = (case v of JArr xs \<Rightarrow> collect_some jstring xs | _ \<Rightarrow> [])"

definition user_block_of :: "js \<Rightarrow> user_block" where
  "user_block_of c =
     \<lparr> ub_email = text_or_empty (jget c ''email''),
       ub_deactivated = (jget c ''status'' = JStr ''deactivated''),
       ub_roles = strings_in (jget c ''roles''),
       ub_limits = jget c ''limits'',
       ub_team_ids = (if is_arr (jget c ''teamIds'') then Some (strings_in (jget c ''teamIds'')) else None) \<rparr>"

definition user_from_request :: "js \<Rightarrow> user_block option" where
  "user_from_request req =
     map_option user_block_of (find is_user_block
       [jpath req [''unifiedAuth'', ''data'', ''user''], jpath req [''apiKeyInfo'', ''user''],
        jpath req [''awsAuth'', ''user'']])"

definition is_admin_user :: "user_block option \<Rightarrow> bool" where
  "is_admin_user b =
     (case b of None \<Rightarrow> False
      | Some u \<Rightarrow> list_ex (\<lambda>r. r = ''admin'' \<or> r = ''Admin'' \<or> suffix ''.admin'' r) (ub_roles u))"

definition is_team_block :: "js \<Rightarrow> bool" where
  "is_team_block x =
     (is_objectish x \<and> is_str (jget x ''teamId'') \<and> is_str (jget x ''teamName'') \<and> is_objectish (jget x ''limits''))"

definition team_block_of :: "js \<Rightarrow> team_block" where
  "team_block_of c =
     \<lparr> tb_team_id = text_or_empty (jget c ''teamId''), tb_team_name = text_or_empty (jget c ''teamName''),
       tb_limits = jget c ''limits'' \<rparr>"

definition team_from_request :: "js \<Rightarrow> team_block option" where
  "team_from_request req =
     map_option team_block_of (find is_team_block
       [jpath req [''unifiedAuth'', ''data'', ''team''], jpath req [''awsAuth'', ''team'']])"

definition string_ids :: "js \<Rightarrow> string list" where
  "string_ids v = map lower (strings_in v)"

definition caller_team_ids :: "js \<Rightarrow> string list" where
  "caller_team_ids req =
     (let actor = jget req ''groundingActor'' in
      if truthy actor then string_ids (jget actor ''teamIds'')
      else case user_from_request req of
             None \<Rightarrow> []
           | Some u \<Rightarrow> map lower (case ub_team_ids u of None \<Rightarrow> [] | Some ids \<Rightarrow> ids))"

text \<open>\<open>parseInt(s, 10)\<close> and the requests per minute of the standalone mode.\<close>

definition digit_value :: "char \<Rightarrow> int" where
  "digit_value c = int (of_char c) - 48"

definition parse_int :: "string \<Rightarrow> int option" where
  "parse_int s =
     (let t = trim_left s;
          negative = prefix ''-'' t;
          u = (if prefix ''-'' t \<or> prefix ''+'' t then tl t else t);
          ds = takeWhile is_digit u;
          n = foldl (\<lambda>n c. n * 10 + digit_value c) 0 ds
      in if ds = [] then None else Some (if negative then - n else n))"

definition DEFAULT_STANDALONE_RPM :: rat where
  "DEFAULT_STANDALONE_RPM = 100"

definition standalone_rpm :: "string option \<Rightarrow> rat" where
  "standalone_rpm env =
     (case parse_int (case env of None \<Rightarrow> [] | Some s \<Rightarrow> s) of
        None \<Rightarrow> DEFAULT_STANDALONE_RPM
      | Some v \<Rightarrow> if v \<ge> 1 then of_int v else DEFAULT_STANDALONE_RPM)"

record caller =
  cl_auth_type :: js
  cl_credential :: string
  cl_email :: "string option"
  cl_minute :: "rat option"
  cl_hour :: "rat option"
  cl_day :: "rat option"
  cl_user :: "user_block option"
  cl_team :: "team_block option"

definition or_unknown :: "string option \<Rightarrow> string" where
  "or_unknown t = (case t of None \<Rightarrow> ''unknown'' | Some s \<Rightarrow> s)"

definition caller_from_request :: "(string \<Rightarrow> string) \<Rightarrow> rat \<Rightarrow> js \<Rightarrow> caller option" where
  "caller_from_request sha rpm req =
     (let u = (if truthy (jpath req [''unifiedAuth'', ''valid'']) then jpath req [''unifiedAuth'', ''data''] else JNull);
          aws = jget req ''awsAuth'';
          key = jget req ''apiKey'';
          limit = (\<lambda>rl k. num (jget rl k))
      in if truthy u then
           (let rl = jget u ''rateLimits'' in
            Some \<lparr> cl_auth_type = jpath req [''unifiedAuth'', ''authType''],
                   cl_credential = or_unknown (first_text [jget u ''keyId'', jget u ''credentialId'', jget u ''id'']),
                   cl_email = first_text [jget u ''email'', jget u ''userId''],
                   cl_minute = limit rl ''requestsPerMinute'', cl_hour = limit rl ''requestsPerHour'',
                   cl_day = limit rl ''requestsPerDay'',
                   cl_user = user_from_request req, cl_team = team_from_request req \<rparr>)
         else if truthy (jget req ''isAwsAuthenticated'') \<and> truthy aws then
           (let rl = jget aws ''rateLimits'' in
            Some \<lparr> cl_auth_type = JStr ''aws_credential'',
                   cl_credential = or_unknown (first_text [jget aws ''credentialId'', jget aws ''accessKeyId'']),
                   cl_email = first_text [jget aws ''userId''],
                   cl_minute = limit rl ''requestsPerMinute'', cl_hour = limit rl ''requestsPerHour'',
                   cl_day = limit rl ''requestsPerDay'',
                   cl_user = user_from_request req, cl_team = team_from_request req \<rparr>)
         else if truthy (jget key ''key'') then
           Some \<lparr> cl_auth_type = JStr ''api_key'',
                  cl_credential = (case first_text [jget key ''id''] of
                     Some i \<Rightarrow> i
                   | None \<Rightarrow> ''sha256:'' @ take 16 (sha (text_or_empty (jget key ''key'')))),
                  cl_email = first_text [jget key ''email''],
                  cl_minute = Some rpm, cl_hour = None, cl_day = None, cl_user = None, cl_team = None \<rparr>
         else None)"

text \<open>\<open>caller.user?.email || caller.email\<close>\<close>

definition user_key_email :: "caller \<Rightarrow> string option" where
  "user_key_email c =
     (case cl_user c of
        Some u \<Rightarrow> if ub_email u \<noteq> [] then Some (ub_email u) else cl_email c
      | None \<Rightarrow> cl_email c)"

definition request_checks :: "(string \<Rightarrow> string) \<Rightarrow> int \<Rightarrow> caller \<Rightarrow> check list" where
  "request_checks sha now c =
     (let user_limit = (case cl_user c of None \<Rightarrow> None | Some u \<Rightarrow> num (jget (ub_limits u) ''requestsPerMinute''));
          hour = now div 3600000;
          day = now div 86400000
      in (case (user_key_email c, user_limit) of
            (Some e, Some l) \<Rightarrow>
              [\<lparr> ck_scope = User_Scope, ck_window = Per_Minute, ck_limit = l, ck_kind = Sliding (''rl:user:'' @ sha e) \<rparr>]
          | _ \<Rightarrow> [])
       @ (case cl_team c of
            None \<Rightarrow> []
          | Some t \<Rightarrow>
              (case num (jget (tb_limits t) ''requestsPerMinute'') of
                 None \<Rightarrow> []
               | Some l \<Rightarrow> [\<lparr> ck_scope = Team_Scope, ck_window = Per_Minute, ck_limit = l,
                              ck_kind = Sliding (''rl:team:'' @ tb_team_id t) \<rparr>]))
       @ (case cl_minute c of
            None \<Rightarrow> []
          | Some l \<Rightarrow> [\<lparr> ck_scope = Key_Scope, ck_window = Per_Minute, ck_limit = l,
                         ck_kind = Sliding (''rl:key:'' @ cl_credential c) \<rparr>])
       @ (case cl_hour c of
            None \<Rightarrow> []
          | Some l \<Rightarrow> [\<lparr> ck_scope = Key_Scope, ck_window = Per_Hour, ck_limit = l,
                         ck_kind = Fixed (''rl:key:'' @ cl_credential c @ '':h:'' @ show_int hour) 7200
                                     ((hour + 1) * 3600000) \<rparr>])
       @ (case cl_day c of
            None \<Rightarrow> []
          | Some l \<Rightarrow> [\<lparr> ck_scope = Key_Scope, ck_window = Per_Day, ck_limit = l,
                         ck_kind = Fixed (''rl:key:'' @ cl_credential c @ '':d:'' @ show_int day) 172800
                                     ((day + 1) * 86400000) \<rparr>]))"

section \<open>Admission against a usage document\<close>

fun window_key :: "window \<Rightarrow> string" where
  "window_key Day = ''day''"
| "window_key Week = ''week''"
| "window_key Month = ''month''"

fun window_suffix :: "window \<Rightarrow> string" where
  "window_suffix Day = ''Day''"
| "window_suffix Week = ''Week''"
| "window_suffix Month = ''Month''"

fun limit_window_of :: "window \<Rightarrow> limit_window" where
  "limit_window_of Day = Per_Day"
| "limit_window_of Week = Per_Week"
| "limit_window_of Month = Per_Month"

text \<open>\<open>{...wireLimits, ...(doc.limits || {})}\<close>: the document's value wins, also when it is \<open>null\<close>.\<close>

definition merged_limit :: "js \<Rightarrow> js \<Rightarrow> string \<Rightarrow> rat option" where
  "merged_limit doc wire k =
     num (case map_of (jfields (jget doc ''limits'')) k of Some v \<Rightarrow> v | None \<Rightarrow> jget wire k)"

text \<open>A document from before the window began describes the previous window.\<close>

definition fresh :: "(string \<Rightarrow> int option) \<Rightarrow> js \<Rightarrow> window \<Rightarrow> int \<Rightarrow> bool" where
  "fresh parse_date doc w now =
     (case jget (jget doc ''windowStart'') (window_key w) of
        JStr s \<Rightarrow> (case parse_date s of None \<Rightarrow> False | Some t \<Rightarrow> t \<ge> window_start w now)
      | _ \<Rightarrow> False)"

definition used_in :: "(string \<Rightarrow> int option) \<Rightarrow> js \<Rightarrow> window \<Rightarrow> int \<Rightarrow> string \<Rightarrow> rat" where
  "used_in parse_date doc w now field =
     (if fresh parse_date doc w now
      then (case jget (jget (jget doc ''used'') (window_key w)) field of JNum n \<Rightarrow> n | _ \<Rightarrow> 0)
      else 0)"

definition quota_exceeded :: "quota_scope \<Rightarrow> string option \<Rightarrow> dimension \<Rightarrow> window \<Rightarrow> rat \<Rightarrow> rat \<Rightarrow> int \<Rightarrow> exceeded" where
  "quota_exceeded scope team d w limit used now =
     \<lparr> ex_type = Quota_Exceeded, ex_scope = scope,
       ex_team = (case team of None \<Rightarrow> None | Some t \<Rightarrow> if t = [] then None else Some t),
       ex_dimension = d, ex_window = limit_window_of w, ex_limit = limit, ex_used = used,
       ex_resets_at = window_end w now \<rparr>"

definition window_exceeded ::
  "(string \<Rightarrow> int option) \<Rightarrow> js \<Rightarrow> js \<Rightarrow> int \<Rightarrow> quota_scope \<Rightarrow> string option \<Rightarrow> window \<Rightarrow> exceeded option" where
  "window_exceeded pd doc wire now scope team w =
     (let over = (\<lambda>d field limit.
            (case limit of
               None \<Rightarrow> None
             | Some l \<Rightarrow>
                 if used_in pd doc w now field \<ge> l
                 then Some (quota_exceeded scope team d w l (used_in pd doc w now field) now) else None))
      in case over Tokens ''tokens'' (merged_limit doc wire (''tokensPer'' @ window_suffix w)) of
           Some x \<Rightarrow> Some x
         | None \<Rightarrow> over Spend ''sapCost'' (merged_limit doc wire (''spendPer'' @ window_suffix w)))"

fun admission_windows ::
  "(string \<Rightarrow> int option) \<Rightarrow> js \<Rightarrow> js \<Rightarrow> int \<Rightarrow> quota_scope \<Rightarrow> string option \<Rightarrow> window list \<Rightarrow> exceeded option" where
  "admission_windows pd doc wire now scope team [] = None"
| "admission_windows pd doc wire now scope team (w # ws) =
     (case window_exceeded pd doc wire now scope team w of
        Some x \<Rightarrow> Some x
      | None \<Rightarrow> admission_windows pd doc wire now scope team ws)"

definition check_admission ::
  "(string \<Rightarrow> int option) \<Rightarrow> js \<Rightarrow> js \<Rightarrow> int \<Rightarrow> quota_scope \<Rightarrow> string option \<Rightarrow> exceeded option" where
  "check_admission pd doc wire now scope team =
     admission_windows pd doc wire now scope team [Day, Week, Month]"

section \<open>The document reader\<close>

datatype store_reply = Not_Ready | Get_Failed | Got "string option"

type_synonym document_cache = "(string \<times> int \<times> js option) list"

definition READER_TTL_MS :: int where
  "READER_TTL_MS = 10000"

definition READER_CACHE_SIZE :: nat where
  "READER_CACHE_SIZE = 10000"

definition decode_document :: "(string \<Rightarrow> js option) \<Rightarrow> string option \<Rightarrow> js option" where
  "decode_document parse raw =
     (case raw of
        None \<Rightarrow> None
      | Some s \<Rightarrow>
          if s = [] then None
          else (case parse s of
                  None \<Rightarrow> None
                | Some v \<Rightarrow> if is_objectish v \<and> truthy (jget v ''used'') then Some v else None))"

text \<open>\<open>read\<close>: \<open>None\<close> is \<open>undefined\<close> (the store could not be read), \<open>Some None\<close> is \<open>null\<close>.\<close>

definition reader_read ::
  "(string \<Rightarrow> js option) \<Rightarrow> int \<Rightarrow> (string \<Rightarrow> store_reply) \<Rightarrow> string \<Rightarrow> document_cache \<Rightarrow> js option option \<times> document_cache" where
  "reader_read parse now reply k cache =
     (let ask = (case reply k of
            Not_Ready \<Rightarrow> (None, cache)
          | Get_Failed \<Rightarrow> (None, cache)
          | Got raw \<Rightarrow>
              (let doc = decode_document parse raw;
                   cache' = AList.update k (now, doc) cache
               in (Some doc, if length cache' > READER_CACHE_SIZE then [] else cache')))
      in case map_of cache k of
           Some (stored, doc) \<Rightarrow> if now - stored < READER_TTL_MS then (Some doc, cache) else ask
         | None \<Rightarrow> ask)"

definition quota_key_for :: "(string \<Rightarrow> string) \<Rightarrow> string \<Rightarrow> string" where
  "quota_key_for sha email = ''quota:user:'' @ sha email"

definition team_quota_key_for :: "string \<Rightarrow> string" where
  "team_quota_key_for team_id = ''quota:team:'' @ team_id"

section \<open>Events\<close>

datatype quota_event =
    Exceeded_Event string "string option" exceeded
  | Unenforced_Event string

record event_state =
  ev_last_exceeded :: "(string \<times> int) list"
  ev_last_unenforced :: int

definition event_init :: event_state where
  "event_init = \<lparr> ev_last_exceeded = [], ev_last_unenforced = 0 \<rparr>"

definition UNENFORCED_EVERY_MS :: int where
  "UNENFORCED_EVERY_MS = 300000"

fun dimension_text :: "dimension \<Rightarrow> string" where
  "dimension_text Requests = ''requests''"
| "dimension_text Tokens = ''tokens''"
| "dimension_text Spend = ''spend''"

fun limit_window_text :: "limit_window \<Rightarrow> string" where
  "limit_window_text Per_Minute = ''minute''"
| "limit_window_text Per_Hour = ''hour''"
| "limit_window_text Per_Day = ''day''"
| "limit_window_text Per_Week = ''week''"
| "limit_window_text Per_Month = ''month''"

text \<open>The subject of an event: the credential and the e-mail.\<close>

definition throttle_key :: "string \<times> string option \<Rightarrow> exceeded \<Rightarrow> string" where
  "throttle_key subject x =
     (case subject of (cred, email) \<Rightarrow>
        (case email of None \<Rightarrow> cred | Some e \<Rightarrow> if e = [] then cred else e)
        @ ''|'' @ dimension_text (ex_dimension x) @ ''|'' @ limit_window_text (ex_window x))"

definition emit_exceeded ::
  "int \<Rightarrow> string \<times> string option \<Rightarrow> exceeded \<Rightarrow> event_state \<Rightarrow> quota_event list \<times> event_state" where
  "emit_exceeded now subject x st =
     (let k = throttle_key subject x;
          last_at = (case map_of (ev_last_exceeded st) k of None \<Rightarrow> 0 | Some t \<Rightarrow> t)
      in if last_at > now - 60000 then ([], st)
         else ([Exceeded_Event (fst subject) (snd subject) x],
               st\<lparr> ev_last_exceeded := AList.update k now (ev_last_exceeded st) \<rparr>))"

definition emit_unenforced :: "int \<Rightarrow> string \<Rightarrow> event_state \<Rightarrow> quota_event list \<times> event_state" where
  "emit_unenforced now reason st =
     (if ev_last_unenforced st > now - UNENFORCED_EVERY_MS then ([], st)
      else ([Unenforced_Event reason], st\<lparr> ev_last_unenforced := now \<rparr>))"

section \<open>The middleware\<close>

record rate_headers =
  rh_limit :: rat
  rh_remaining :: int
  rh_reset :: int

definition rate_headers_of :: "rat \<Rightarrow> rat \<Rightarrow> int \<Rightarrow> rate_headers" where
  "rate_headers_of limit used resets_at =
     \<lparr> rh_limit = limit, rh_remaining = max 0 \<lfloor>limit - used\<rfloor>, rh_reset = resets_at div 1000 \<rparr>"

text \<open>The responses: two kinds of 401, the 429 with its headers, its \<open>Retry-After\<close> and the amount its
  body shows, the error handed to the next handler, and the request going on.\<close>

datatype quota_outcome =
    No_Authentication
  | User_Deactivated
  | Too_Many exceeded rate_headers int rat
  | Next_Error
  | Admitted "rate_headers option"

definition reject :: "int \<Rightarrow> exceeded \<Rightarrow> quota_outcome" where
  "reject now x =
     Too_Many x (rate_headers_of (ex_limit x) (ex_used x) (ex_resets_at x))
       (max 1 \<lceil>of_int (ex_resets_at x - now) / (1000 :: rat)\<rceil>)
       (of_int \<lfloor>ex_used x * 1000 + 1 / 2\<rfloor> / 1000)"

record 's quota_env =
  qv_standalone :: bool
  qv_store_ready :: bool
  qv_shared :: "'s store_ops"
  qv_has_reader :: bool
  qv_reply :: "string \<Rightarrow> store_reply"
  qv_parse :: "string \<Rightarrow> js option"
  qv_parse_date :: "string \<Rightarrow> int option"
  qv_sha :: "string \<Rightarrow> string"
  qv_rpm :: rat

record 's quota_state =
  qs_shared :: 's
  qs_shared_cached :: bool
  qs_memory :: memory
  qs_reader_cached :: bool
  qs_cache :: document_cache
  qs_events :: event_state

definition subject_of :: "caller \<Rightarrow> string \<times> string option" where
  "subject_of c = (cl_credential c, cl_email c)"

definition team_name_of :: "caller \<Rightarrow> string option" where
  "team_name_of c = map_option tb_team_name (cl_team c)"

text \<open>The request checks: on the shared store when there is one, on the pod's memory when there is
  none or when it fails, with the event.\<close>

definition memory_checks ::
  "'s quota_env \<Rightarrow> int \<Rightarrow> caller \<Rightarrow> 's quota_state
   \<Rightarrow> (exceeded option \<times> tightest option) option \<times> quota_event list \<times> 's quota_state" where
  "memory_checks env now c st =
     (let (r, m) = run_checks (memory_store now) now (team_name_of c) (request_checks (qv_sha env) now c) None (qs_memory st)
      in (r, [], st\<lparr> qs_memory := m \<rparr>))"

definition check_requests ::
  "'s quota_env \<Rightarrow> int \<Rightarrow> caller \<Rightarrow> 's quota_state
   \<Rightarrow> (exceeded option \<times> tightest option) option \<times> quota_event list \<times> 's quota_state" where
  "check_requests env now c st =
     (if qv_standalone env \<or> \<not> (qs_shared_cached st \<or> qv_store_ready env) then memory_checks env now c st
      else let (r, s') = run_checks (qv_shared env) now (team_name_of c) (request_checks (qv_sha env) now c) None (qs_shared st);
               st' = st\<lparr> qs_shared := s', qs_shared_cached := True \<rparr>
           in case r of
                Some result \<Rightarrow> (Some result, [], st')
              | None \<Rightarrow>
                  (let (evs, es) = emit_unenforced now ''rate-limit store unavailable'' (qs_events st');
                       (r', evs', st'') = memory_checks env now c (st'\<lparr> qs_events := es \<rparr>)
                   in (r', evs @ evs', st'')))"

text \<open>The lookup of a document and its admission; \<open>None\<close> admits. The reader is resolved once.\<close>

definition lookup_document :: "'s quota_env \<Rightarrow> int \<Rightarrow> string \<Rightarrow> 's quota_state \<Rightarrow> js option option \<times> 's quota_state" where
  "lookup_document env now k st =
     (if qs_reader_cached st \<or> qv_has_reader env then
        (let (doc, cache) = reader_read (qv_parse env) now (qv_reply env) k (qs_cache st)
         in (doc, st\<lparr> qs_reader_cached := True, qs_cache := cache \<rparr>))
      else (None, st))"

definition admit_document ::
  "'s quota_env \<Rightarrow> int \<Rightarrow> string \<Rightarrow> js \<Rightarrow> quota_scope \<Rightarrow> string option \<Rightarrow> string \<Rightarrow> 's quota_state
   \<Rightarrow> exceeded option \<times> quota_event list \<times> 's quota_state" where
  "admit_document env now k wire scope team reason st =
     (let (doc, st') = lookup_document env now k st in
      case doc of
        None \<Rightarrow> (let (evs, es) = emit_unenforced now reason (qs_events st') in (None, evs, st'\<lparr> qs_events := es \<rparr>))
      | Some None \<Rightarrow> (None, [], st')
      | Some (Some d) \<Rightarrow> (check_admission (qv_parse_date env) d wire now scope team, [], st'))"

definition user_admission ::
  "'s quota_env \<Rightarrow> int \<Rightarrow> caller \<Rightarrow> 's quota_state \<Rightarrow> exceeded option \<times> quota_event list \<times> 's quota_state" where
  "user_admission env now c st =
     (case (cl_user c, user_key_email c) of
        (Some u, Some e) \<Rightarrow>
          if qv_standalone env \<or> e = [] then (None, [], st)
          else admit_document env now (quota_key_for (qv_sha env) e) (ub_limits u) User_Scope None
                 ''quota state unavailable'' st
      | _ \<Rightarrow> (None, [], st))"

definition team_admission ::
  "'s quota_env \<Rightarrow> int \<Rightarrow> caller \<Rightarrow> 's quota_state \<Rightarrow> exceeded option \<times> quota_event list \<times> 's quota_state" where
  "team_admission env now c st =
     (case cl_team c of
        Some t \<Rightarrow>
          if qv_standalone env then (None, [], st)
          else admit_document env now (team_quota_key_for (tb_team_id t)) (tb_limits t) Team_Scope (Some (tb_team_name t))
                 ''team quota state unavailable'' st
      | None \<Rightarrow> (None, [], st))"

definition refuse ::
  "int \<Rightarrow> caller \<Rightarrow> exceeded \<Rightarrow> quota_event list \<Rightarrow> 's quota_state \<Rightarrow> quota_outcome \<times> quota_event list \<times> 's quota_state" where
  "refuse now c x evs st =
     (let (evs', es) = emit_exceeded now (subject_of c) x (qs_events st)
      in (reject now x, evs @ evs', st\<lparr> qs_events := es \<rparr>))"

definition quota_enforcement ::
  "'s quota_env \<Rightarrow> int \<Rightarrow> js \<Rightarrow> 's quota_state \<Rightarrow> quota_outcome \<times> quota_event list \<times> 's quota_state" where
  "quota_enforcement env now req st =
     (case caller_from_request (qv_sha env) (qv_rpm env) req of
        None \<Rightarrow> (No_Authentication, [], st)
      | Some c \<Rightarrow>
          if (case cl_user c of None \<Rightarrow> False | Some u \<Rightarrow> ub_deactivated u) then (User_Deactivated, [], st)
          else
            (let (r, evs1, st1) = check_requests env now c st in
             case r of
               None \<Rightarrow> (Next_Error, evs1, st1)
             | Some (Some x, t) \<Rightarrow> refuse now c x evs1 st1
             | Some (None, t) \<Rightarrow>
                 (let (ux, evs2, st2) = user_admission env now c st1 in
                  case ux of
                    Some x \<Rightarrow> refuse now c x (evs1 @ evs2) st2
                  | None \<Rightarrow>
                      (let (tx, evs3, st3) = team_admission env now c st2 in
                       case tx of
                         Some x \<Rightarrow> refuse now c x (evs1 @ evs2 @ evs3) st3
                       | None \<Rightarrow>
                           (Admitted (map_option (\<lambda>b. rate_headers_of (tg_limit b) (tg_used b) (tg_resets_at b)) t),
                            evs1 @ evs2 @ evs3, st3)))))"

text \<open>The owner admission of a call made for a user who sent no credential.\<close>

definition admit_owner ::
  "'s quota_env \<Rightarrow> int \<Rightarrow> string option \<Rightarrow> string \<Rightarrow> 's quota_state
   \<Rightarrow> exceeded option \<times> quota_event list \<times> 's quota_state" where
  "admit_owner env now service_key email st =
     (if qv_standalone env then (None, [], st)
      else let (doc, st1) = lookup_document env now (quota_key_for (qv_sha env) email) st in
        case doc of
          None \<Rightarrow>
            (let (evs, es) = emit_unenforced now ''quota state unavailable'' (qs_events st1)
             in (None, evs, st1\<lparr> qs_events := es \<rparr>))
        | Some None \<Rightarrow> (None, [], st1)
        | Some (Some d) \<Rightarrow>
            (let (x, evs1, st2) =
               (case check_admission (qv_parse_date env) d (JObj []) now User_Scope None of
                  Some x \<Rightarrow> (Some x, [], st1)
                | None \<Rightarrow>
                    (case first_text [jget d ''primaryTeamId''] of
                       None \<Rightarrow> (None, [], st1)
                     | Some t \<Rightarrow>
                         (let (tdoc, st') = lookup_document env now (team_quota_key_for t) st1 in
                          case tdoc of
                            None \<Rightarrow>
                              (let (evs, es) = emit_unenforced now ''team quota state unavailable'' (qs_events st')
                               in (None, evs, st'\<lparr> qs_events := es \<rparr>))
                          | Some None \<Rightarrow> (None, [], st')
                          | Some (Some td) \<Rightarrow>
                              (check_admission (qv_parse_date env) td (JObj []) now Team_Scope (jstring (jget td ''teamName'')),
                               [], st'))))
             in case x of
                  None \<Rightarrow> (None, evs1, st2)
                | Some e \<Rightarrow>
                    (let who = (case service_key of Some i \<Rightarrow> if i = [] then ''grounding'' else i | None \<Rightarrow> ''grounding'');
                         (evs2, es) = emit_exceeded now (who, Some email) e (qs_events st2)
                     in (Some e, evs1 @ evs2, st2\<lparr> qs_events := es \<rparr>))))"

section \<open>Admission\<close>

text \<open>What a window's limits promise: the amounts used in it are below them.\<close>

definition below_limits :: "(string \<Rightarrow> int option) \<Rightarrow> js \<Rightarrow> js \<Rightarrow> int \<Rightarrow> window \<Rightarrow> bool" where
  "below_limits pd doc wire now w =
     ((case merged_limit doc wire (''tokensPer'' @ window_suffix w) of
         None \<Rightarrow> True | Some l \<Rightarrow> used_in pd doc w now ''tokens'' < l) \<and>
      (case merged_limit doc wire (''spendPer'' @ window_suffix w) of
         None \<Rightarrow> True | Some l \<Rightarrow> used_in pd doc w now ''sapCost'' < l))"

lemma window_exceeded_None:
  "window_exceeded pd doc wire now scope team w = None \<longleftrightarrow> below_limits pd doc wire now w"
  by (auto simp: window_exceeded_def below_limits_def Let_def not_le split: option.split)

lemma window_exceeded_Some:
  "window_exceeded pd doc wire now scope team w = Some x
   \<Longrightarrow> ex_limit x \<le> ex_used x \<and> ex_scope x = scope \<and> ex_type x = Quota_Exceeded \<and>
       ex_window x = limit_window_of w \<and> ex_resets_at x = window_end w now"
  by (auto simp: window_exceeded_def quota_exceeded_def Let_def split: option.splits if_splits)

lemma admission_windows_None:
  "admission_windows pd doc wire now scope team ws = None \<longleftrightarrow> list_all (below_limits pd doc wire now) ws"
  by (induction ws) (auto simp: window_exceeded_None [of pd doc wire now scope team, symmetric] split: option.split)

lemma admission_windows_Some:
  "admission_windows pd doc wire now scope team ws = Some x
   \<Longrightarrow> \<exists>w \<in> set ws. window_exceeded pd doc wire now scope team w = Some x"
  by (induction ws) (auto split: option.splits)

lemma check_admission_None:
  "check_admission pd doc wire now scope team = None \<longleftrightarrow> list_all (below_limits pd doc wire now) [Day, Week, Month]"
  unfolding check_admission_def by (rule admission_windows_None)


section \<open>The middleware\<close>

lemma run_checks_memory_reader:
  assumes "check_requests env now c st = (r, evs, st')"
  shows "qs_cache st' = qs_cache st \<and> qs_reader_cached st' = qs_reader_cached st"
  using assms by (auto simp: check_requests_def memory_checks_def Let_def split: if_splits prod.splits option.splits)

lemma lookup_document_cong:
  "qs_cache st' = qs_cache st \<Longrightarrow> qs_reader_cached st' = qs_reader_cached st
   \<Longrightarrow> fst (lookup_document env now k st') = fst (lookup_document env now k st)"
  by (simp add: lookup_document_def split: prod.split)

lemma admit_document_refuses:
  assumes "fst (lookup_document env now k st) = Some (Some d)" and "\<not> below_limits (qv_parse_date env) d wire now w"
  shows "fst (admit_document env now k wire scope team reason st) \<noteq> None"
proof -
  have "\<not> list_all (below_limits (qv_parse_date env) d wire now) [Day, Week, Month]"
    using assms(2) by (cases w) auto
  then have "check_admission (qv_parse_date env) d wire now scope team \<noteq> None"
    by (simp only: check_admission_None not_False_eq_True)
  then show ?thesis
    using assms(1) by (auto simp: admit_document_def split: prod.split)
qed

text \<open>A user whose account is deactivated, or whose published document says that the tokens or the
  spend of some window have reached the limit, is never let through, whatever the request counters
  and the team's document say and however the shared store behaves.\<close>

theorem exhausted_user_refused:
  assumes "caller_from_request (qv_sha env) (qv_rpm env) req = Some c" and "cl_user c = Some u"
    and "ub_deactivated u \<or>
         \<not> qv_standalone env \<and> user_key_email c = Some e \<and> e \<noteq> [] \<and>
         fst (lookup_document env now (quota_key_for (qv_sha env) e) st) = Some (Some d) \<and>
         \<not> below_limits (qv_parse_date env) d (ub_limits u) now w"
  shows "fst (quota_enforcement env now req st) \<noteq> Admitted h"
proof (cases "ub_deactivated u")
  case True
  then show ?thesis using assms(1,2) by (simp add: quota_enforcement_def)
next
  case False
  obtain r evs st1 where r: "check_requests env now c st = (r, evs, st1)" by (cases "check_requests env now c st")
  have "fst (lookup_document env now (quota_key_for (qv_sha env) e) st1) = Some (Some d)"
    using lookup_document_cong run_checks_memory_reader [OF r] assms(3) False by metis
  then have "fst (user_admission env now c st1) \<noteq> None"
    using assms(2,3) False admit_document_refuses by (auto simp: user_admission_def)
  then obtain x evs2 st2 where "user_admission env now c st1 = (Some x, evs2, st2)"
    by (cases "user_admission env now c st1") auto
  then show ?thesis
    using assms(1,2) False r
    by (auto simp: quota_enforcement_def refuse_def reject_def split: option.splits prod.splits)
qed

definition toy_env :: "memory quota_env" where
  "toy_env =
     \<lparr> qv_standalone = False, qv_store_ready = True, qv_shared = memory_store 0, qv_has_reader = True,
       qv_reply = (\<lambda>k. if k = ''quota:user:e'' then Got (Some ''doc'') else Not_Ready),
       qv_parse = (\<lambda>s. Some (JObj [(''limits'', JObj [(''tokensPerDay'', JNum 10)]),
         (''windowStart'', JObj [(''day'', JStr ''0'')]), (''used'', JObj [(''day'', JObj [(''tokens'', JNum 12)])])])),
       qv_parse_date = (\<lambda>s. Some 0), qv_sha = (\<lambda>s. s), qv_rpm = 100 \<rparr>"

definition toy_request :: js where
  "toy_request = JObj [(''unifiedAuth'', JObj [(''valid'', JBool True), (''authType'', JStr ''api_key''),
     (''data'', JObj [(''keyId'', JStr ''k''), (''user'', JObj [(''email'', JStr ''e''), (''status'', JStr ''active''),
       (''limits'', JObj [])])])])]"

definition toy_state :: "memory quota_state" where
  "toy_state = \<lparr> qs_shared = [], qs_shared_cached = False, qs_memory = [], qs_reader_cached = False, qs_cache = [],
     qs_events = event_init \<rparr>"

theorem exhausted_user_refused_witness:
  "fst (quota_enforcement toy_env 0 toy_request toy_state) \<noteq> Admitted None"
proof -
  let ?u = "\<lparr> ub_email = ''e'', ub_deactivated = False, ub_roles = [], ub_limits = JObj [], ub_team_ids = None \<rparr>"
  let ?c = "\<lparr> cl_auth_type = JStr ''api_key'', cl_credential = ''k'', cl_email = None, cl_minute = None, cl_hour = None,
    cl_day = None, cl_user = Some ?u, cl_team = None \<rparr>"
  let ?d = "the (qv_parse toy_env [])"
  have c: "caller_from_request (qv_sha toy_env) (qv_rpm toy_env) toy_request = Some ?c" by code_simp
  have d: "fst (lookup_document toy_env 0 (quota_key_for (qv_sha toy_env) ''e'') toy_state) = Some (Some ?d)" by code_simp
  have "\<not> below_limits (qv_parse_date toy_env) ?d (JObj []) 0 Day"
    by code_simp
  then show ?thesis
    using exhausted_user_refused [OF c, of ?u "''e''" 0 toy_state ?d Day None] d by (simp add: toy_env_def user_key_email_def)
qed

section \<open>The throttling of the events\<close>

text \<open>The events of a run of exceeded limits at the given times: when and under which key.\<close>

fun exceeded_run :: "(int \<times> (string \<times> string option) \<times> exceeded) list \<Rightarrow> event_state \<Rightarrow> (int \<times> string) list" where
  "exceeded_run [] st = []"
| "exceeded_run ((now, subject, x) # rest) st =
     (let (evs, st') = emit_exceeded now subject x st
      in (if evs = [] then [] else [(now, throttle_key subject x)]) @ exceeded_run rest st')"

definition apart :: "int \<times> string \<Rightarrow> int \<times> string \<Rightarrow> bool" where
  "apart p q = (snd p = snd q \<longrightarrow> fst p + 60000 \<le> fst q)"

lemma exceeded_run_after:
  "q \<in> set (exceeded_run xs st) \<Longrightarrow> map_of (ev_last_exceeded st) (snd q) = Some t \<Longrightarrow> t + 60000 \<le> fst q"
proof (induction xs st arbitrary: t rule: exceeded_run.induct)
  case (2 now subject x rest st)
  show ?case
  proof (cases "fst (emit_exceeded now subject x st) = []")
    case True
    then have "snd (emit_exceeded now subject x st) = st"
      by (auto simp: emit_exceeded_def Let_def split: if_splits)
    with True show ?thesis
      using 2 by (cases "emit_exceeded now subject x st") auto
  next
    case False
    let ?k = "throttle_key subject x"
    have st': "snd (emit_exceeded now subject x st) = st\<lparr> ev_last_exceeded := AList.update ?k now (ev_last_exceeded st) \<rparr>"
      and old: "map_of (ev_last_exceeded st) ?k = Some t \<Longrightarrow> t + 60000 \<le> now" for t
      using False by (auto simp: emit_exceeded_def Let_def split: if_splits option.splits)
    show ?thesis
    proof (cases "q = (now, ?k)")
      case True
      then show ?thesis using old "2.prems"(2) by simp
    next
      case q: False
      then have "q \<in> set (exceeded_run rest (snd (emit_exceeded now subject x st)))"
        using 2 False by (cases "emit_exceeded now subject x st") auto
      then have "map_of (ev_last_exceeded (snd (emit_exceeded now subject x st))) (snd q) = Some t' \<Longrightarrow> t' + 60000 \<le> fst q" for t'
        using "2.IH" by (cases "emit_exceeded now subject x st") auto
      then show ?thesis
        using "2.prems"(2) old by (cases "snd q = ?k") (force simp: st')+
    qed
  qed
qed simp

text \<open>The \<open>quota_exceeded\<close> events are throttled: however often a limit is hit, two events about the
  same user (or credential), dimension and window are at least a minute apart.\<close>

theorem exceeded_events_throttled: "sorted_wrt apart (exceeded_run xs st)"
proof (induction xs st rule: exceeded_run.induct)
  case (2 now subject x rest st)
  let ?k = "throttle_key subject x"
  have IH: "sorted_wrt apart (exceeded_run rest (snd (emit_exceeded now subject x st)))"
    using 2 by (cases "emit_exceeded now subject x st") auto
  show ?case
  proof (cases "fst (emit_exceeded now subject x st) = []")
    case True
    then show ?thesis using IH by (cases "emit_exceeded now subject x st") auto
  next
    case False
    then have "map_of (ev_last_exceeded (snd (emit_exceeded now subject x st))) ?k = Some now"
      by (auto simp: emit_exceeded_def Let_def split: if_splits)
    then have "\<forall>q \<in> set (exceeded_run rest (snd (emit_exceeded now subject x st))). apart (now, ?k) q"
      using exceeded_run_after by (fastforce simp: apart_def)
    then show ?thesis using IH False by (cases "emit_exceeded now subject x st") auto
  qed
qed simp

end
