(* ===== verification/Js_Number.thy ===== *)
theory Js_Number
  imports Prelude
begin

text \<open>
  The conversion \<open>Number(s)\<close> of JavaScript from a text to a number, as the handlers use it on query
  parameters and on stored limits: white space at both ends is dropped, the empty text is zero, prefixed
  hexadecimal, octal and binary literals have no sign, and everything else is a decimal literal. \<open>None\<close>
  stands for every result that is not finite (\<open>NaN\<close> and the infinities).
\<close>

section \<open>Number(s)\<close>

text \<open>The value of a text of digits in a base, when every character is one.\<close>

definition digit_in :: "nat \<Rightarrow> char \<Rightarrow> nat option" where
  "digit_in base c =
     (let n = of_char (lower_char c) :: nat;
          d = (if is_digit c then n - 48 else n - 87)
      in if (is_digit c \<or> is_upper c \<or> is_lower c) \<and> d < base then Some d else None)"

fun digits_value :: "nat \<Rightarrow> string \<Rightarrow> nat \<Rightarrow> nat option" where
  "digits_value base [] n = Some n"
| "digits_value base (c # cs) n =
     (case digit_in base c of None \<Rightarrow> None | Some d \<Rightarrow> digits_value base cs (n * base + d))"

definition radix_number :: "nat \<Rightarrow> string \<Rightarrow> rat option" where
  "radix_number base s = (if s = [] then None else map_option of_nat (digits_value base s 0))"

definition split_at_char :: "(char \<Rightarrow> bool) \<Rightarrow> string \<Rightarrow> string \<times> string option" where
  "split_at_char P s =
     (case dropWhile (\<lambda>c. \<not> P c) s of
        [] \<Rightarrow> (s, None)
      | c # rest \<Rightarrow> (takeWhile (\<lambda>c. \<not> P c) s, Some rest))"

definition signed :: "string \<Rightarrow> bool \<times> string" where
  "signed s = (if prefix ''-'' s then (True, tl s) else if prefix ''+'' s then (False, tl s) else (False, s))"

definition exponent_value :: "string option \<Rightarrow> rat option" where
  "exponent_value e =
     (case e of
        None \<Rightarrow> Some 1
      | Some s \<Rightarrow>
          (let (negative, ds) = signed s in
           if ds = [] then None
           else map_option (\<lambda>n. if negative then 1 / 10 ^ n else 10 ^ n) (digits_value 10 ds 0)))"

text \<open>A decimal literal: digits with an optional fraction and an optional exponent, at least one digit
  in the mantissa.\<close>

definition decimal_number :: "string \<Rightarrow> rat option" where
  "decimal_number s =
     (let (mantissa, e) = split_at_char (\<lambda>c. c = CHR ''e'' \<or> c = CHR ''E'') s;
          (whole, fraction) = split_at_char (\<lambda>c. c = CHR ''.'') mantissa;
          frac = (case fraction of None \<Rightarrow> [] | Some f \<Rightarrow> f)
      in if whole @ frac = [] then None
         else case (digits_value 10 (whole @ frac) 0, exponent_value e) of
                (Some n, Some p) \<Rightarrow> Some (of_nat n / 10 ^ length frac * p)
              | _ \<Rightarrow> None)"

definition to_number :: "string \<Rightarrow> rat option" where
  "to_number s =
     (let t = trim s in
      if t = [] then Some 0
      else if prefix ''0x'' t \<or> prefix ''0X'' t then radix_number 16 (drop 2 t)
      else if prefix ''0o'' t \<or> prefix ''0O'' t then radix_number 8 (drop 2 t)
      else if prefix ''0b'' t \<or> prefix ''0B'' t then radix_number 2 (drop 2 t)
      else let (negative, u) = signed t in
        map_option (\<lambda>n. if negative then - n else n) (decimal_number u))"

end
