(* ===== verification/Quota_Limits.thy ===== *)
theory Quota_Limits
  imports Quota_Enforcement Js_Number
begin

text \<open>
  The quota limits of the admin service (\<open>services/quotaLimits.ts\<close>): the constraint fields, the platform
  defaults, the resolution user, profile, team, platform, unlimited, the minute cache of the platform defaults, the texts shown beside a constraint, and the validation of a constraint edit.

  A row is a \<open>js\<close> object (\<open>null\<close> when there is none). A limit is a rational, \<open>None\<close> is unlimited.
  \<open>toFixed(2)\<close> and \<open>toLocaleString('en-US')\<close>
  are the parameters \<open>fixed2\<close> and \<open>grouped\<close>. The database row and the configuration file behind the
  platform defaults are arguments.
\<close>

section \<open>Limits and their resolution\<close>

definition LIMIT_FIELDS :: "string list" where
  "LIMIT_FIELDS =
     [''requestsPerMinute'', ''spendPerDay'', ''spendPerWeek'', ''spendPerMonth'',
      ''tokensPerDay'', ''tokensPerWeek'', ''tokensPerMonth'']"

definition INTEGER_FIELDS :: "string list" where
  "INTEGER_FIELDS = [''requestsPerMinute'', ''tokensPerDay'', ''tokensPerWeek'', ''tokensPerMonth'']"

type_synonym limits = "string \<Rightarrow> rat option"

datatype limit_source = From_User | From_Profile | From_Team | From_Platform | Unlimited

text \<open>\<open>typeof v === 'string' ? Number(v) : v\<close>, as a finite number.\<close>

definition numeric :: "js \<Rightarrow> rat option" where
  "numeric v = (case v of JStr s \<Rightarrow> to_number s | JNum n \<Rightarrow> Some n | _ \<Rightarrow> None)"

definition to_limits :: "js \<Rightarrow> limits" where
  "to_limits quotas f =
     (if f \<notin> set LIMIT_FIELDS then None
      else case numeric (jget quotas f) of Some n \<Rightarrow> if 0 \<le> n then Some n else None | None \<Rightarrow> None)"

text \<open>\<open>own\<close>: \<open>null\<close>, \<open>undefined\<close> and the empty text are no value, everything else is \<open>Number(v)\<close>; a value
  that is not finite falls through as if there were none. Arrays and objects are outside the model.\<close>

definition own :: "js \<Rightarrow> rat option" where
  "own v =
     (case v of
        JStr s \<Rightarrow> if s = [] then None else to_number s
      | JNum n \<Rightarrow> Some n
      | JBool b \<Rightarrow> Some (if b then 1 else 0)
      | _ \<Rightarrow> None)"

definition effective_limit :: "js \<Rightarrow> js \<Rightarrow> limits \<Rightarrow> js \<Rightarrow> string \<Rightarrow> rat option \<times> limit_source" where
  "effective_limit user profile platform team f =
     (case own (jget user f) of
        Some u \<Rightarrow> (Some u, From_User)
      | None \<Rightarrow>
          (case own (jget profile f) of
             Some p \<Rightarrow> (Some p, From_Profile)
           | None \<Rightarrow>
               (case own (jget (jget team ''limits'') f) of
                  Some t \<Rightarrow> (Some t, From_Team)
                | None \<Rightarrow>
                    (case platform f of
                       Some l \<Rightarrow> (Some l, From_Platform)
                     | None \<Rightarrow> (None, Unlimited)))))"

definition effective_limits :: "js \<Rightarrow> js \<Rightarrow> limits \<Rightarrow> js \<Rightarrow> (string \<times> rat option \<times> limit_source) list" where
  "effective_limits user profile platform team =
     map (\<lambda>f. (f, effective_limit user profile platform team f)) LIMIT_FIELDS"

section \<open>The platform defaults\<close>

text \<open>\<open>o && typeof o === 'object' ? (o.api_config ?? o) : {}\<close>\<close>

definition unwrap :: "js \<Rightarrow> js" where
  "unwrap ob = (if is_objectish ob then nullish (jget ob ''api_config'') ob else JObj [])"

definition platform_of :: "js \<Rightarrow> js" where
  "platform_of ob = nullish (jget (unwrap ob) ''platform'') (JObj [])"

text \<open>The platform section of the active configuration. \<open>db\<close> is \<open>None\<close> without a database, otherwise the
  \<open>configData\<close> of the newest active row: \<open>None\<close> when the query fails or finds nothing. \<open>file\<close> is the content of
  \<open>api_config.json\<close>, when it can be read. \<open>parse\<close> is \<open>JSON.parse\<close>, with \<open>None\<close> for a text it rejects; the file
  answers whenever the database does not.\<close>

definition active_platform :: "(string \<Rightarrow> js option) \<Rightarrow> string option option \<Rightarrow> string option \<Rightarrow> js" where
  "active_platform parse db file =
     (let from_file = (case file of
                         None \<Rightarrow> JObj []
                       | Some t \<Rightarrow> (case parse t of None \<Rightarrow> JObj [] | Some v \<Rightarrow> platform_of v))
      in case db of
           Some (Some t) \<Rightarrow>
             if t = [] then from_file
             else (case parse t of None \<Rightarrow> from_file | Some v \<Rightarrow> platform_of v)
         | _ \<Rightarrow> from_file)"

record defaults_cache =
  cached_at :: int
  cached_limits :: limits

definition CACHE_MS :: int where
  "CACHE_MS = 60000"

definition invalidate_quota_defaults :: "defaults_cache option" where
  "invalidate_quota_defaults = None"

definition platform_quota_defaults :: "int \<Rightarrow> js \<Rightarrow> defaults_cache option \<Rightarrow> limits \<times> defaults_cache option" where
  "platform_quota_defaults now platform cache =
     (let loaded = to_limits (jget platform ''quotas'') in
      case cache of
        Some c \<Rightarrow>
          if now - cached_at c < CACHE_MS then (cached_limits c, cache)
          else (loaded, Some \<lparr> cached_at = now, cached_limits = loaded \<rparr>)
      | None \<Rightarrow> (loaded, Some \<lparr> cached_at = now, cached_limits = loaded \<rparr>))"

text \<open>\<open>/^([01]\d|2[0-3]):[0-5]\d$/\<close>\<close>

definition daily_run_at_pattern :: "string \<Rightarrow> bool" where
  "daily_run_at_pattern s =
     (case s of
        [h, h', c, m, m'] \<Rightarrow>
          (h \<in> {CHR ''0'', CHR ''1''} \<and> is_digit h' \<or> h = CHR ''2'' \<and> CHR ''0'' \<le> h' \<and> h' \<le> CHR ''3'')
          \<and> c = CHR '':'' \<and> CHR ''0'' \<le> m \<and> m \<le> CHR ''5'' \<and> is_digit m'
      | _ \<Rightarrow> False)"

definition maintenance_run_at_utc :: "js \<Rightarrow> string option" where
  "maintenance_run_at_utc platform =
     (case jget (jget platform ''maintenance'') ''dailyRunAtUtc'' of
        JStr s \<Rightarrow> if daily_run_at_pattern s then Some s else None
      | _ \<Rightarrow> None)"

section \<open>The texts beside a constraint\<close>

definition figure :: "(rat \<Rightarrow> string) \<Rightarrow> (rat \<Rightarrow> string) \<Rightarrow> string \<Rightarrow> string \<Rightarrow> rat \<Rightarrow> string" where
  "figure fixed2 grouped currency f v =
     (if prefix ''spend'' f then fixed2 v @ '' '' @ currency else grouped v)"

definition team_label :: "js \<Rightarrow> string \<Rightarrow> string" where
  "team_label by_field f = (case jget by_field f of JStr s \<Rightarrow> s | _ \<Rightarrow> ''team'')"

definition effective_limit_text ::
  "(rat \<Rightarrow> string) \<Rightarrow> (rat \<Rightarrow> string) \<Rightarrow> string \<Rightarrow> string \<Rightarrow> js \<Rightarrow> string \<Rightarrow> rat option \<times> limit_source \<Rightarrow> string" where
  "effective_limit_text fixed2 grouped currency profile_name team_by_field f ls =
     (case ls of
        (None, _) \<Rightarrow> ''unlimited''
      | (Some v, src) \<Rightarrow>
          figure fixed2 grouped currency f v @
          (case src of
             From_User \<Rightarrow> '' (own constraint)''
           | From_Profile \<Rightarrow> '' ('' @ profile_name @ '' profile)''
           | From_Team \<Rightarrow> '' ('' @ team_label team_by_field f @ '' team)''
           | _ \<Rightarrow> '' (platform)''))"

text \<open>\<open>defaultText\<close>: what an empty constraint inherits, with a case distinction of its own in the source.\<close>

definition default_text ::
  "(rat \<Rightarrow> string) \<Rightarrow> (rat \<Rightarrow> string) \<Rightarrow> string \<Rightarrow> string \<Rightarrow> js \<Rightarrow> limits \<Rightarrow> js \<Rightarrow> string \<Rightarrow> string" where
  "default_text fixed2 grouped currency profile_name profile platform team f =
     (let (value, src) = effective_limit JNull profile platform team f in
      case value of
        None \<Rightarrow> ''unlimited''
      | Some v \<Rightarrow>
          if src = From_Profile then figure fixed2 grouped currency f v @ '' ('' @ profile_name @ '' profile)''
          else if src = From_Team
            then figure fixed2 grouped currency f v @ '' ('' @ team_label (jget team ''teamByField'') f @ '' team)''
          else figure fixed2 grouped currency f v @ '' (platform)'')"

section \<open>Validation of an edit\<close>

definition ORDERED_METRICS :: "string list" where
  "ORDERED_METRICS = [''tokens'', ''spend'']"

definition WINDOW_ORDER :: "(window \<times> window) list" where
  "WINDOW_ORDER = [(Day, Week), (Week, Month), (Day, Month)]"

definition comparable_limit :: "js \<Rightarrow> rat option" where
  "comparable_limit v = (if v = JStr [] then None else numeric v)"

definition is_integer :: "rat \<Rightarrow> bool" where
  "is_integer n = (of_int \<lfloor>n\<rfloor> = n)"

definition field_error :: "js \<Rightarrow> string \<Rightarrow> string option" where
  "field_error patch f =
     (let v = jget patch f in
      if v = JUndef \<or> v = JNull then None
      else if f \<in> set INTEGER_FIELDS then
        (case numeric v of
           Some n \<Rightarrow> if is_integer n \<and> 0 \<le> n then None else Some (f @ '' must be a non-negative integer'')
         | None \<Rightarrow> Some (f @ '' must be a non-negative integer''))
      else
        (case numeric v of
           Some n \<Rightarrow> if 0 \<le> n then None else Some (f @ '' must be a non-negative number'')
         | None \<Rightarrow> Some (f @ '' must be a non-negative number'')))"

text \<open>The stored row overlaid by the patch, as comparable numbers.\<close>

definition merged_constraint :: "js \<Rightarrow> js \<Rightarrow> string \<Rightarrow> rat option" where
  "merged_constraint patch current f =
     comparable_limit (if map_of (jfields patch) f \<noteq> None then jget patch f else jget current f)"

definition per_window :: "string \<Rightarrow> window \<Rightarrow> string" where
  "per_window metric w = metric @ ''Per'' @ window_suffix w"

definition order_error :: "js \<Rightarrow> js \<Rightarrow> string \<Rightarrow> window \<times> window \<Rightarrow> string option" where
  "order_error patch current metric p =
     (case p of (narrow, wide) \<Rightarrow>
        (case (merged_constraint patch current (per_window metric narrow),
               merged_constraint patch current (per_window metric wide)) of
           (Some lower_limit, Some upper_limit) \<Rightarrow>
             if lower_limit > upper_limit
             then Some (per_window metric narrow @ '' must not exceed '' @ per_window metric wide) else None
         | _ \<Rightarrow> None))"

definition validate_constraints :: "js \<Rightarrow> js \<Rightarrow> string list" where
  "validate_constraints patch current =
     collect_some (field_error patch) LIMIT_FIELDS
     @ concat (map (\<lambda>metric. collect_some (order_error patch current metric) WINDOW_ORDER) ORDERED_METRICS)"

section \<open>Clearing a constraint\<close>

lemma own_nullish [simp]: "own JUndef = None" "own JNull = None" "own (JStr []) = None"
  by (simp_all add: own_def)

lemma effective_limit_user_cong:
  "own (jget u f) = own (jget u' f) \<Longrightarrow>
   effective_limit u profile platform team f = effective_limit u' profile platform team f"
  by (simp add: effective_limit_def)

lemma effective_limit_not_user:
  "own (jget u f) = None \<Longrightarrow> snd (effective_limit u profile platform team f) \<noteq> From_User"
  by (auto simp: effective_limit_def split: option.splits)

lemma effective_limit_cleared:
  "effective_limit (jset f JNull user) profile platform team f = effective_limit JNull profile platform team f"
  by (rule effective_limit_user_cong) simp

lemma default_text_eq:
  "default_text fixed2 grouped currency profile_name profile platform team f =
     effective_limit_text fixed2 grouped currency profile_name (jget team ''teamByField'') f
       (effective_limit JNull profile platform team f)"
  using effective_limit_not_user [of JNull f profile platform team]
  by (auto simp: default_text_def effective_limit_text_def split: option.splits limit_source.splits prod.splits)

text \<open>The text shown beside an empty constraint is the text of the limit that applies to the user once
  the field is cleared, whatever value the user carries now; clearing it changes the limit of no other field.\<close>

theorem default_text_after_clearing:
  "default_text fixed2 grouped currency profile_name profile platform team f =
     effective_limit_text fixed2 grouped currency profile_name (jget team ''teamByField'') f
       (effective_limit (jset f JNull user) profile platform team f)
   \<and> effective_limit (jset f JNull user) profile platform team g =
       effective_limit (if g = f then JNull else user) profile platform team g"
  by (auto simp: default_text_eq effective_limit_cleared intro: effective_limit_user_cong)

section \<open>Accepted edits\<close>

text \<open>The stored row after an edit: the fields of the patch over those of the row.\<close>

definition overlay :: "js \<Rightarrow> js \<Rightarrow> js" where
  "overlay patch current = JObj (jfields patch @ jfields current)"

lemma jget_overlay:
  "jget (overlay patch current) f = (if map_of (jfields patch) f \<noteq> None then jget patch f else jget current f)"
  by (cases patch; cases current) (auto simp: overlay_def map_add_def split: option.splits)

lemma merged_constraint_overlay: "merged_constraint patch current f = comparable_limit (jget (overlay patch current) f)"
  by (simp add: merged_constraint_def jget_overlay)

text \<open>The limits of a row agree with the order of the windows: unlimited is above every figure.\<close>

definition at_most :: "rat option \<Rightarrow> rat option \<Rightarrow> bool" where
  "at_most a b = (case (a, b) of (Some x, Some y) \<Rightarrow> x \<le> y | _ \<Rightarrow> True)"

definition row_ordered :: "js \<Rightarrow> string \<Rightarrow> bool" where
  "row_ordered row metric =
     (at_most (own (jget row (metric @ ''PerDay''))) (own (jget row (metric @ ''PerWeek'')))
      \<and> at_most (own (jget row (metric @ ''PerWeek''))) (own (jget row (metric @ ''PerMonth'')))
      \<and> at_most (own (jget row (metric @ ''PerDay''))) (own (jget row (metric @ ''PerMonth''))))"

text \<open>A column of a stored row: a number or nothing.\<close>

fun numeric_column :: "js \<Rightarrow> bool" where
  "numeric_column (JBool _) = False"
| "numeric_column _ = True"

definition numeric_row :: "js \<Rightarrow> bool" where
  "numeric_row row = list_all (\<lambda>f. numeric_column (jget row f)) LIMIT_FIELDS"

lemma collect_some_Nil: "collect_some f xs = [] \<longleftrightarrow> list_all (\<lambda>x. f x = None) xs"
  by (induction xs) (auto split: option.splits)

lemma own_comparable: "numeric_column v \<Longrightarrow> own v = comparable_limit v"
  by (cases v) (auto simp: own_def comparable_limit_def numeric_def)

lemma field_error_numeric: "field_error patch f = None \<Longrightarrow> numeric_column (jget patch f)"
  by (cases "jget patch f") (auto simp: field_error_def numeric_def Let_def split: if_splits)

lemma accepted_parts:
  "validate_constraints patch current = [] \<longleftrightarrow>
     list_all (\<lambda>f. field_error patch f = None) LIMIT_FIELDS
     \<and> list_all (\<lambda>metric. list_all (\<lambda>p. order_error patch current metric p = None) WINDOW_ORDER) ORDERED_METRICS"
  by (auto simp: validate_constraints_def collect_some_Nil list_all_iff)

lemma overlay_numeric:
  assumes "list_all (\<lambda>f. field_error patch f = None) LIMIT_FIELDS" and "numeric_row current"
  shows "numeric_row (overlay patch current)"
  using assms field_error_numeric by (auto simp: numeric_row_def jget_overlay list_all_iff)

lemma order_error_None:
  "order_error patch current metric (narrow, wide) = None \<longleftrightarrow>
     at_most (comparable_limit (jget (overlay patch current) (per_window metric narrow)))
       (comparable_limit (jget (overlay patch current) (per_window metric wide)))"
  by (auto simp: order_error_def at_most_def merged_constraint_overlay split: option.splits)

text \<open>An accepted edit of a numeric row leaves a row whose own limits, as the resolution reads them,
  never allow a narrower window more than a wider one, for tokens and for spend.\<close>

theorem accepted_edit_ordered:
  assumes accepted: "validate_constraints patch current = []" and row: "numeric_row current"
    and metric: "metric \<in> set ORDERED_METRICS"
  shows "row_ordered (overlay patch current) metric"
proof -
  have num: "list_all (\<lambda>f. own (jget (overlay patch current) f) =
      comparable_limit (jget (overlay patch current) f)) LIMIT_FIELDS"
    using overlay_numeric [OF _ row] accepted own_comparable
    by (auto simp: accepted_parts numeric_row_def list_all_iff)
  moreover have "list_all (\<lambda>p. order_error patch current metric p = None) WINDOW_ORDER"
    using accepted metric by (auto simp: accepted_parts list_all_iff)
  ultimately show ?thesis using metric
    by (auto simp: ORDERED_METRICS_def WINDOW_ORDER_def LIMIT_FIELDS_def row_ordered_def order_error_None
        per_window_def)
qed

theorem accepted_edit_ordered_witness:
  "row_ordered (overlay (JObj [(''tokensPerDay'', JStr ''5e2'')]) (JObj [(''tokensPerMonth'', JNum 900)])) ''tokens''"
  by (rule accepted_edit_ordered) code_simp+

text \<open>The empty text is unlimited in a constraint, but a limit of zero in the platform defaults.\<close>

lemma empty_text_limits:
  "own (JStr []) = None" "comparable_limit (JStr []) = None"
  "to_limits (JObj [(''requestsPerMinute'', JStr [])]) ''requestsPerMinute'' = Some 0"
  by (simp_all add: own_def comparable_limit_def to_limits_def LIMIT_FIELDS_def numeric_def to_number_def trim_def
      trim_left_def)

end
