(* ===== verification/Rate_Limit_Manager.thy ===== *)
theory Rate_Limit_Manager
  imports Prelude
begin

text \<open>
  The backoff after a provider's rate limit (\<open>services/rateLimitManager.ts\<close> of the gateway): the configured
  delay, the delay of a request for a limited endpoint, the recording of limits and successes, the
  recognition of a rate limit error and the status report.

  Times and delays are rationals (milliseconds and seconds). \<open>now\<close> is the clock, read once per operation;
  the configuration is an argument of the operations that read it. \<open>checkAndApplyDelay\<close> sleeps between two
  changes of the state and is two operations here, \<open>begin_delay\<close> and \<open>end_delay\<close>.
\<close>

record rate_limit_info =
  next_allowed_time :: rat
  delay_seconds :: rat
  consecutive_rate_limits :: nat
  last_rate_limit_time :: rat
  error_message :: string

record rate_limit_config =
  rl_enabled :: bool
  default_delay_seconds :: "rat option"
  backoff_multiplier :: "rat option"
  max_delay_seconds :: "rat option"
  subpath_specific_delays :: "(string \<times> rat) list"
  model_specific_delays :: "(string \<times> rat) list"

record rate_limit_manager =
  rate_limited_endpoints :: "(string \<times> rate_limit_info) list"
  active_delays :: "string list"

definition manager_init :: rate_limit_manager where
  "manager_init = \<lparr> rate_limited_endpoints = [], active_delays = [] \<rparr>"

lemma manager_init_simps [simp]: "rate_limited_endpoints manager_init = []" "active_delays manager_init = []"
  by (simp_all add: manager_init_def)

definition endpoint_key :: "string \<Rightarrow> string \<Rightarrow> string" where
  "endpoint_key model subpath = model @ '':'' @ subpath"

text \<open>\<open>x || d\<close> for a number that may be absent.\<close>

definition or_number :: "rat option \<Rightarrow> rat \<Rightarrow> rat" where
  "or_number x d = (case x of Some v \<Rightarrow> if v = 0 then d else v | None \<Rightarrow> d)"

definition get_configured_delay :: "rate_limit_config option \<Rightarrow> string \<Rightarrow> string \<Rightarrow> rat" where
  "get_configured_delay config model subpath =
     (case config of
        None \<Rightarrow> 0
      | Some c \<Rightarrow>
          if \<not> rl_enabled c then 0
          else or_number (map_of (subpath_specific_delays c) subpath)
                 (or_number (map_of (model_specific_delays c) model)
                   (or_number (default_delay_seconds c) 30)))"

section \<open>Delaying a request\<close>

datatype delay_start =
    No_Delay
  | Sleep rat

definition begin_delay :: "rat \<Rightarrow> string \<Rightarrow> string \<Rightarrow> rate_limit_manager \<Rightarrow> delay_start \<times> rate_limit_manager" where
  "begin_delay now model subpath st =
     (let key = endpoint_key model subpath in
      case map_of (rate_limited_endpoints st) key of
        None \<Rightarrow> (No_Delay, st)
      | Some info \<Rightarrow>
          if next_allowed_time info - now \<le> 0 then (No_Delay, st)
          else if key \<in> set (active_delays st) then (No_Delay, st)
          else (Sleep (next_allowed_time info - now), st\<lparr> active_delays := active_delays st @ [key] \<rparr>))"

definition end_delay :: "string \<Rightarrow> string \<Rightarrow> rate_limit_manager \<Rightarrow> rate_limit_manager" where
  "end_delay model subpath st =
     st\<lparr> active_delays := filter (\<lambda>k. k \<noteq> endpoint_key model subpath) (active_delays st) \<rparr>"

section \<open>Recording\<close>

text \<open>The entry of one more limit after an \<open>existing\<close> one.\<close>

definition limit_entry ::
  "rate_limit_config option \<Rightarrow> rat \<Rightarrow> rat \<Rightarrow> string option \<Rightarrow> rate_limit_info option \<Rightarrow> rate_limit_info" where
  "limit_entry config configured now message existing =
     (let (seconds, n) =
        (case existing of
           None \<Rightarrow> (configured, 1)
         | Some e \<Rightarrow>
             (min (delay_seconds e * or_number (Option.bind config backoff_multiplier) (3 / 2))
                (or_number (Option.bind config max_delay_seconds) 300),
              consecutive_rate_limits e + 1))
      in \<lparr> next_allowed_time = now + seconds * 1000,
           delay_seconds = seconds,
           consecutive_rate_limits = n,
           last_rate_limit_time = now,
           error_message = (case message of Some m \<Rightarrow> if m = [] then ''Rate limit detected'' else m
                            | None \<Rightarrow> ''Rate limit detected'') \<rparr>)"

definition record_rate_limit ::
  "rate_limit_config option \<Rightarrow> rat \<Rightarrow> string \<Rightarrow> string \<Rightarrow> string option \<Rightarrow> rate_limit_manager \<Rightarrow> rate_limit_manager" where
  "record_rate_limit config now model subpath message st =
     (let key = endpoint_key model subpath;
          configured = get_configured_delay config model subpath
      in if configured = 0 then st
         else st\<lparr> rate_limited_endpoints :=
                AList.update key (limit_entry config configured now message (map_of (rate_limited_endpoints st) key))
                  (rate_limited_endpoints st) \<rparr>)"

definition record_success :: "string \<Rightarrow> string \<Rightarrow> rate_limit_manager \<Rightarrow> rate_limit_manager" where
  "record_success model subpath st =
     st\<lparr> rate_limited_endpoints := AList.delete (endpoint_key model subpath) (rate_limited_endpoints st) \<rparr>"

definition rate_limit_keywords :: "string list" where
  "rate_limit_keywords =
     [''too many requests'', ''rate limit'', ''throttled'', ''quota exceeded'', ''too many tokens'',
      ''please wait before trying again'']"

definition is_rate_limit_error :: "js \<Rightarrow> bool" where
  "is_rate_limit_error err =
     (truthy err
      \<and> (truthy (jget err ''response'') \<and> jget (jget err ''response'') ''status'' = JNum 429
         \<or> list_ex (\<lambda>k. sublist k (lower (case jget err ''message'' of JStr s \<Rightarrow> s | _ \<Rightarrow> []))) rate_limit_keywords))"

record endpoint_status =
  es_delay_seconds :: rat
  es_consecutive_rate_limits :: nat
  es_time_remaining_ms :: rat
  es_time_remaining_seconds :: int
  es_last_rate_limit_time :: string
  es_error_message :: string

record rate_limit_status =
  total_rate_limited_endpoints :: nat
  total_active_delays :: nat
  status_endpoints :: "(string \<times> endpoint_status) list"

definition endpoint_status_of :: "(rat \<Rightarrow> string) \<Rightarrow> rat \<Rightarrow> rate_limit_info \<Rightarrow> endpoint_status" where
  "endpoint_status_of iso_text now info =
     (let remaining = max 0 (next_allowed_time info - now) in
      \<lparr> es_delay_seconds = delay_seconds info,
        es_consecutive_rate_limits = consecutive_rate_limits info,
        es_time_remaining_ms = remaining,
        es_time_remaining_seconds = \<lceil>remaining / 1000\<rceil>,
        es_last_rate_limit_time = iso_text (last_rate_limit_time info),
        es_error_message = error_message info \<rparr>)"

definition get_status :: "(rat \<Rightarrow> string) \<Rightarrow> rat \<Rightarrow> rate_limit_manager \<Rightarrow> rate_limit_status" where
  "get_status iso_text now st =
     \<lparr> total_rate_limited_endpoints = length (rate_limited_endpoints st),
       total_active_delays = length (active_delays st),
       status_endpoints = map (\<lambda>(k, info). (k, endpoint_status_of iso_text now info)) (rate_limited_endpoints st) \<rparr>"

definition clear_all_rate_limits :: "rate_limit_manager \<Rightarrow> rate_limit_manager" where
  "clear_all_rate_limits st = manager_init"

section \<open>The backoff of consecutive limits\<close>

text \<open>The limits of one endpoint at the times \<open>ts\<close>, with no success in between.\<close>

definition record_limits ::
  "rate_limit_config option \<Rightarrow> string \<Rightarrow> string \<Rightarrow> (rat \<times> string option) list \<Rightarrow> rate_limit_manager \<Rightarrow> rate_limit_manager" where
  "record_limits config model subpath ts st =
     foldl (\<lambda>st (now, message). record_rate_limit config now model subpath message st) st ts"

definition backoff :: "rat \<Rightarrow> rat \<Rightarrow> rat \<Rightarrow> nat \<Rightarrow> rat" where
  "backoff configured multiplier maximum n =
     (if n \<le> 1 then configured else min (configured * multiplier ^ (n - 1)) maximum)"

lemma min_times_min:
  fixes x :: rat
  assumes "1 \<le> m" "0 \<le> b"
  shows "min (min x b * m) b = min (x * m) b"
proof (cases "x \<le> b")
  case False
  have "b \<le> b * m" using assms by (simp add: mult_le_cancel_left1)
  moreover have "b * m \<le> x * m" using False assms by (simp add: mult_right_mono)
  ultimately have "min (b * m) b = b" "min (x * m) b = b" by (auto intro: min_absorb2)
  with False show ?thesis by (simp add: min_absorb2)
qed (simp add: min_absorb1)

lemma backoff_Suc:
  assumes "1 \<le> m" "0 \<le> b" "n \<noteq> 0"
  shows "min (backoff c m b n * m) b = backoff c m b (Suc n)"
proof (cases "n = 1")
  case False
  then have "m ^ n = m ^ (n - 1) * m"
    using assms(3) by (simp flip: power_Suc2)
  then show ?thesis
    using False assms min_times_min [OF assms(1,2), of "c * m ^ (n - 1)"] by (simp add: backoff_def mult.assoc)
qed (simp add: backoff_def)

lemma record_limits_snoc [simp]:
  "record_limits config model subpath (ts @ [(now, message)]) st =
     record_rate_limit config now model subpath message (record_limits config model subpath ts st)"
  by (simp add: record_limits_def)

lemma record_rate_limit_lookup:
  "get_configured_delay config model subpath \<noteq> 0 \<Longrightarrow>
   map_of (rate_limited_endpoints (record_rate_limit config now model subpath message st)) (endpoint_key model subpath) =
     Some (limit_entry config (get_configured_delay config model subpath) now message
       (map_of (rate_limited_endpoints st) (endpoint_key model subpath)))"
  by (simp add: record_rate_limit_def Let_def)

lemma backoff_entry:
  assumes enabled: "c = get_configured_delay (Some config) model subpath" "c \<noteq> 0"
    and m: "m = or_number (backoff_multiplier config) (3 / 2)" "1 \<le> m"
    and b: "b = or_number (max_delay_seconds config) 300" "0 \<le> b"
    and free: "map_of (rate_limited_endpoints st) (endpoint_key model subpath) = None"
    and st': "st' = record_limits (Some config) model subpath (ts @ [(t, message)]) st"
  shows "\<exists>info. map_of (rate_limited_endpoints st') (endpoint_key model subpath) = Some info
     \<and> consecutive_rate_limits info = Suc (length ts)
     \<and> delay_seconds info = backoff c m b (Suc (length ts))
     \<and> next_allowed_time info = t + 1000 * backoff c m b (Suc (length ts))"
  unfolding st'
proof (induction ts arbitrary: t message rule: rev_induct)
  case Nil
  show ?case
    using free enabled by (simp add: record_limits_def record_rate_limit_lookup limit_entry_def backoff_def)
next
  case (snoc x ts)
  obtain u v where x: "x = (u, v)" by (cases x)
  obtain info where info:
    "map_of (rate_limited_endpoints (record_limits (Some config) model subpath (ts @ [(u, v)]) st))
       (endpoint_key model subpath) = Some info"
    "consecutive_rate_limits info = Suc (length ts)" "delay_seconds info = backoff c m b (Suc (length ts))"
    using snoc.IH [of u v] by blast
  have "min (backoff c m b (Suc (length ts)) * m) b = backoff c m b (Suc (Suc (length ts)))"
    using m(2) b(2) by (rule backoff_Suc) simp
  then show ?case
    unfolding record_limits_snoc [of _ _ _ "ts @ [x]"] x
    using info enabled m(1) b(1) by (simp add: record_rate_limit_lookup limit_entry_def del: append_assoc)
qed

lemma active_delays_unchanged [simp]:
  "active_delays (record_rate_limit config now model subpath message st) = active_delays st"
  "active_delays (record_success model subpath st) = active_delays st"
  by (simp_all add: record_rate_limit_def record_success_def Let_def)

lemma active_delays_record_limits [simp]:
  "active_delays (record_limits config model subpath ts st) = active_delays st"
  by (induction ts arbitrary: st) (auto simp: record_limits_def)

text \<open>After \<open>n\<close> consecutive limits of an endpoint without an entry, its delay is the configured one for the
  first and \<open>min (configured * multiplier ^ (n - 1)) maximum\<close> for the later ones, counted in full and running from
  the last limit; the next request for the endpoint, when none sleeps for it, sleeps until the end of that delay.\<close>

theorem backoff_closed_form:
  assumes enabled: "c = get_configured_delay (Some config) model subpath" "c \<noteq> 0"
    and m: "m = or_number (backoff_multiplier config) (3 / 2)" "1 \<le> m"
    and b: "b = or_number (max_delay_seconds config) 300" "0 \<le> b"
    and free: "map_of (rate_limited_endpoints st) (endpoint_key model subpath) = None"
    and st': "st' = record_limits (Some config) model subpath (ts @ [(t, message)]) st"
    and awake: "endpoint_key model subpath \<notin> set (active_delays st)"
  shows "(\<exists>info. map_of (rate_limited_endpoints st') (endpoint_key model subpath) = Some info
       \<and> consecutive_rate_limits info = Suc (length ts)
       \<and> delay_seconds info = backoff c m b (Suc (length ts)))
     \<and> fst (begin_delay now model subpath st') =
         (if t + 1000 * backoff c m b (Suc (length ts)) \<le> now then No_Delay
          else Sleep (t + 1000 * backoff c m b (Suc (length ts)) - now))"
  using backoff_entry [OF enabled m b free st'] awake by (auto simp: begin_delay_def st')

definition toy_rate_config :: rate_limit_config where
  "toy_rate_config =
     \<lparr> rl_enabled = True, default_delay_seconds = None, backoff_multiplier = Some 2, max_delay_seconds = Some 100,
       subpath_specific_delays = [], model_specific_delays = [(''claude'', 40)] \<rparr>"

theorem backoff_closed_form_witness:
  "fst (begin_delay 240000 ''claude'' ''invoke''
      (record_limits (Some toy_rate_config) ''claude'' ''invoke'' ([(0, None), (50000, None)] @ [(200000, Some ''slow'')])
        manager_init)) = Sleep 60000"
proof -
  have "fst (begin_delay 240000 ''claude'' ''invoke''
      (record_limits (Some toy_rate_config) ''claude'' ''invoke'' ([(0, None), (50000, None)] @ [(200000, Some ''slow'')])
        manager_init)) = (if 200000 + 1000 * backoff 40 2 100 (Suc (length [(0::rat, None :: string option), (50000, None)])) \<le> 240000
        then No_Delay else Sleep (200000 + 1000 * backoff 40 2 100 (Suc (length [(0::rat, None :: string option), (50000, None)])) - 240000))"
    by (rule conjunct2 [OF backoff_closed_form [where config = toy_rate_config and st = manager_init
          and message = "Some ''slow''"]])
      (simp_all add: toy_rate_config_def get_configured_delay_def or_number_def)
  then show ?thesis by (simp add: backoff_def)
qed

section \<open>At most one sleeping request per endpoint\<close>

text \<open>The manager with the endpoints its sleeping requests wait for. Clearing all limits, a debugging
  route, is not a step: it forgets the active delays while their requests still sleep.\<close>

inductive manager_step ::
  "rate_limit_manager \<times> string list \<Rightarrow> rate_limit_manager \<times> string list \<Rightarrow> bool" where
  sleeps: "begin_delay now model subpath st = (Sleep ms, st') \<Longrightarrow>
     manager_step (st, zs) (st', endpoint_key model subpath # zs)"
| passes: "begin_delay now model subpath st = (No_Delay, st') \<Longrightarrow> manager_step (st, zs) (st', zs)"
| wakes: "endpoint_key model subpath \<in> set zs \<Longrightarrow>
     manager_step (st, zs) (end_delay model subpath st, remove1 (endpoint_key model subpath) zs)"
| limited: "manager_step (st, zs) (record_rate_limit config now model subpath message st, zs)"
| succeeds: "manager_step (st, zs) (record_success model subpath st, zs)"

definition sleepers_match :: "rate_limit_manager \<times> string list \<Rightarrow> bool" where
  "sleepers_match s = (distinct (snd s) \<and> set (snd s) = set (active_delays (fst s)))"

lemma begin_delay_active:
  "begin_delay now model subpath st = (No_Delay, st') \<Longrightarrow> st' = st"
  "begin_delay now model subpath st = (Sleep ms, st') \<Longrightarrow>
     endpoint_key model subpath \<notin> set (active_delays st)
     \<and> active_delays st' = active_delays st @ [endpoint_key model subpath]"
  by (auto simp: begin_delay_def Let_def split: option.splits if_splits)

lemma manager_step_sleepers: "manager_step s s' \<Longrightarrow> sleepers_match s \<Longrightarrow> sleepers_match s'"
  by (induction rule: manager_step.induct)
    (auto simp: sleepers_match_def end_delay_def dest: begin_delay_active)

text \<open>However requests, limits and successes interleave, no two requests sleep for the same endpoint at the
  same time, and the endpoints with a sleeping request are exactly the active delays.\<close>

theorem one_sleeper_per_endpoint:
  assumes "manager_step\<^sup>*\<^sup>* (manager_init, []) s"
  shows "sleepers_match s"
  using assms by induction (simp add: sleepers_match_def, rule manager_step_sleepers)

definition toy_limited :: rate_limit_manager where
  "toy_limited = record_rate_limit (Some toy_rate_config) 0 ''claude'' ''invoke'' None manager_init"

theorem one_sleeper_per_endpoint_witness:
  "sleepers_match (snd (begin_delay 1000 ''claude'' ''invoke'' toy_limited), [endpoint_key ''claude'' ''invoke''])"
proof (rule one_sleeper_per_endpoint)
  have "begin_delay 1000 ''claude'' ''invoke'' toy_limited =
      (Sleep 39000, snd (begin_delay 1000 ''claude'' ''invoke'' toy_limited))"
    by (simp add: toy_limited_def begin_delay_def record_rate_limit_def get_configured_delay_def toy_rate_config_def
        or_number_def limit_entry_def Let_def)
  then have "manager_step (toy_limited, []) (snd (begin_delay 1000 ''claude'' ''invoke'' toy_limited), [endpoint_key ''claude'' ''invoke''])"
    by (rule sleeps)
  moreover have "manager_step (manager_init, []) (toy_limited, [])"
    unfolding toy_limited_def by (rule limited)
  ultimately show "manager_step\<^sup>*\<^sup>* (manager_init, [])
      (snd (begin_delay 1000 ''claude'' ''invoke'' toy_limited), [endpoint_key ''claude'' ''invoke''])"
    by (meson converse_rtranclp_into_rtranclp r_into_rtranclp)
qed

text \<open>The delay of a request does not look at the configuration: a limit recorded before the handling was
  switched off still delays.\<close>

lemma delay_after_switching_off:
  "fst (begin_delay 1000 ''claude'' ''invoke''
      (record_rate_limit (Some (toy_rate_config\<lparr> rl_enabled := False \<rparr>)) 500 ''claude'' ''invoke'' None
        (record_rate_limit (Some toy_rate_config) 0 ''claude'' ''invoke'' None manager_init))) = Sleep 39000"
  by (simp add: begin_delay_def record_rate_limit_def get_configured_delay_def toy_rate_config_def or_number_def
      limit_entry_def manager_init_def Let_def)

end
