(* ===== verification/Memory_Budget.thy ===== *)
theory Memory_Budget
  imports Prelude
begin

text \<open>
  The process-wide memory reservation of the file search workers (\<open>fileSearch/memoryBudget.ts\<close>): the budget, the
  reservations with their operations, the queue of waiters, the ends of a wait, and the reservation of
  one claim in parts (\<open>FileMemory\<close>).

  The module's variables are the record \<open>memory_state\<close>. A call of \<open>reserveMemory\<close> draws a ticket; the
  reservation object it is granted has the ticket as its identity, and \<open>mb_reservations\<close> is the store of these
  objects in the order they were made. Byte counts are integers, so \<open>Math.ceil\<close> is the identity and \<open>NaN\<close> does
  not occur. An abort signal is a number; \<open>aborted\<close> says which ones are aborted already.
\<close>

section \<open>Sizes\<close>

definition MiB :: int where
  "MiB = 1024 * 1024"

definition FLOOR :: int where
  "FLOOR = 256 * MiB"

definition CEILING :: int where
  "CEILING = 1024 * MiB"

definition UNKNOWN :: int where
  "UNKNOWN = 512 * MiB"

definition memory_budget_bytes :: "int option \<Rightarrow> int" where
  "memory_budget_bytes constrained =
     (case constrained of
        None \<Rightarrow> UNKNOWN
      | Some c \<Rightarrow> if c = 0 \<or> 2 ^ 40 < c then UNKNOWN else min CEILING (max FLOOR (c div 4)))"

definition text_reserve_bytes :: "int \<Rightarrow> int" where
  "text_reserve_bytes text_chars = 3 * 2 * text_chars"

definition vector_reserve_bytes :: "int \<Rightarrow> int \<Rightarrow> int" where
  "vector_reserve_bytes chunks dimensions = chunks * dimensions * 4"

definition MAX_MEMORY_HANDBACKS :: nat where
  "MAX_MEMORY_HANDBACKS = 3"

datatype wait_end = Timeout | Stopping

datatype busy_error = Pool_Busy | Memory_Busy wait_end

fun memory_busy_message :: "wait_end \<Rightarrow> string" where
  "memory_busy_message Timeout =
     ''file_search is busy: the memory for this file did not become free in time. It is retried.''"
| "memory_busy_message Stopping =
     ''file_search is stopping: the file waited for memory and is retried later.''"

fun busy_reason :: "busy_error \<Rightarrow> string" where
  "busy_reason Pool_Busy = ''the database pool is busy''"
| "busy_reason (Memory_Busy Stopping) = ''the worker is stopping''"
| "busy_reason (Memory_Busy Timeout) = ''the memory budget stayed full''"

section \<open>State\<close>

record reservation =
  rv_held :: int
  rv_released :: bool

record waiter =
  wt_id :: nat
  wt_bytes :: int
  wt_signal :: "nat option"
  wt_until :: "int option"

record memory_state =
  mb_budget :: int
  mb_used :: int
  mb_holders :: int
  mb_waiting :: "waiter list"
  mb_stop_signal :: "nat option"
  mb_reservations :: "(nat \<times> reservation) list"
  mb_next :: nat

definition memory_init :: "int \<Rightarrow> memory_state" where
  "memory_init budget =
     \<lparr> mb_budget = budget, mb_used = 0, mb_holders = 0, mb_waiting = [], mb_stop_signal = None,
       mb_reservations = [], mb_next = 0 \<rparr>"

definition set_memory_wait_stop_signal :: "nat option \<Rightarrow> memory_state \<Rightarrow> memory_state" where
  "set_memory_wait_stop_signal sg s = s\<lparr> mb_stop_signal := sg \<rparr>"

definition clear_memory_wait_stop_signal :: "nat \<Rightarrow> memory_state \<Rightarrow> memory_state" where
  "clear_memory_wait_stop_signal sg s =
     (if mb_stop_signal s = Some sg then s\<lparr> mb_stop_signal := None \<rparr> else s)"

section \<open>Reservations\<close>

definition make_reservation :: "nat \<Rightarrow> int \<Rightarrow> memory_state \<Rightarrow> memory_state" where
  "make_reservation i bytes s =
     s\<lparr> mb_used := mb_used s + bytes, mb_holders := mb_holders s + 1,
        mb_reservations := mb_reservations s @ [(i, \<lparr> rv_held = bytes, rv_released = False \<rparr>)] \<rparr>"

definition fits :: "int \<Rightarrow> memory_state \<Rightarrow> bool" where
  "fits bytes s = (mb_holders s = 0 \<or> mb_used s + bytes \<le> mb_budget s)"

text \<open>\<open>while (waiting.length > 0 && fits(waiting[0].bytes))\<close>: grant the head and go on.\<close>

function pump :: "memory_state \<Rightarrow> memory_state" where
  "pump s =
     (case mb_waiting s of
        [] \<Rightarrow> s
      | w # ws \<Rightarrow>
          if fits (wt_bytes w) s then pump (make_reservation (wt_id w) (wt_bytes w) (s\<lparr> mb_waiting := ws \<rparr>)) else s)"
  by pat_completeness auto

termination pump
  by (relation "measure (\<lambda>s. length (mb_waiting s))") (auto simp: make_reservation_def)

declare pump.simps [simp del]

text \<open>The object of a ticket that is granted and not released.\<close>

definition live_reservation :: "nat \<Rightarrow> memory_state \<Rightarrow> int option" where
  "live_reservation i s =
     (case map_of (mb_reservations s) i of
        Some r \<Rightarrow> if rv_released r then None else Some (rv_held r)
      | None \<Rightarrow> None)"

definition put_reservation :: "nat \<Rightarrow> int \<Rightarrow> bool \<Rightarrow> memory_state \<Rightarrow> memory_state" where
  "put_reservation i held released s =
     s\<lparr> mb_reservations := AList.update i \<lparr> rv_held = held, rv_released = released \<rparr> (mb_reservations s) \<rparr>"

definition grow :: "nat \<Rightarrow> int \<Rightarrow> memory_state \<Rightarrow> memory_state" where
  "grow i extra s =
     (case live_reservation i s of
        None \<Rightarrow> s
      | Some held \<Rightarrow>
          if 0 < extra then put_reservation i (held + extra) False (s\<lparr> mb_used := mb_used s + extra \<rparr>) else s)"

definition shrink :: "nat \<Rightarrow> int \<Rightarrow> memory_state \<Rightarrow> memory_state" where
  "shrink i bytes s =
     (case live_reservation i s of
        None \<Rightarrow> s
      | Some held \<Rightarrow>
          if 0 < bytes
          then pump (put_reservation i (held - min bytes held) False (s\<lparr> mb_used := mb_used s - min bytes held \<rparr>))
          else s)"

definition adjust :: "nat \<Rightarrow> int \<Rightarrow> memory_state \<Rightarrow> memory_state" where
  "adjust i delta s = (if 0 < delta then grow i delta s else shrink i (- delta) s)"

definition release :: "nat \<Rightarrow> memory_state \<Rightarrow> memory_state" where
  "release i s =
     (case live_reservation i s of
        None \<Rightarrow> s
      | Some held \<Rightarrow>
          pump (put_reservation i held True
            (s\<lparr> mb_used := mb_used s - held, mb_holders := mb_holders s - 1 \<rparr>)))"

section \<open>Waiting\<close>

text \<open>The end of a wait: nothing when the ticket was granted meanwhile.\<close>

definition leave :: "wait_end \<Rightarrow> nat \<Rightarrow> memory_state \<Rightarrow> busy_error option \<times> memory_state" where
  "leave reason i s =
     (if i \<in> wt_id ` set (mb_waiting s)
      then (Some (Memory_Busy reason), pump (s\<lparr> mb_waiting := filter (\<lambda>w. wt_id w \<noteq> i) (mb_waiting s) \<rparr>))
      else (None, s))"

datatype reserve_result =
    Granted nat
  | Waits nat
  | Refused busy_error

definition reserve_memory ::
  "(nat \<Rightarrow> bool) \<Rightarrow> int \<Rightarrow> int option \<Rightarrow> nat option \<Rightarrow> memory_state \<Rightarrow> reserve_result \<times> memory_state" where
  "reserve_memory aborted bytes until signal s =
     (let i = mb_next s;
          s1 = s\<lparr> mb_next := i + 1 \<rparr>;
          want = max 0 bytes;
          sg = (case signal of None \<Rightarrow> mb_stop_signal s | Some g \<Rightarrow> Some g);
          s2 = s1\<lparr> mb_waiting := mb_waiting s @ [\<lparr> wt_id = i, wt_bytes = want, wt_signal = sg, wt_until = until \<rparr>] \<rparr>
      in if mb_waiting s = [] \<and> fits want s then (Granted i, make_reservation i want s1)
         else if (case sg of None \<Rightarrow> False | Some g \<Rightarrow> aborted g)
         then (Refused (Memory_Busy Stopping), snd (leave Stopping i s2))
         else (Waits i, s2))"

text \<open>The abort event of a signal reaches its waiters in the order they began to listen; the timer of a
  waiter ends its wait when its time has come.\<close>

definition abort_signal :: "nat \<Rightarrow> memory_state \<Rightarrow> memory_state" where
  "abort_signal g s =
     foldl (\<lambda>s w. if wt_signal w = Some g then snd (leave Stopping (wt_id w) s) else s) s (mb_waiting s)"

definition wait_expired :: "int \<Rightarrow> memory_state \<Rightarrow> memory_state" where
  "wait_expired now s =
     foldl (\<lambda>s w. case wt_until w of
                    Some t \<Rightarrow> if t \<le> now then snd (leave Timeout (wt_id w) s) else s
                  | None \<Rightarrow> s) s (mb_waiting s)"

section \<open>The memory of one file\<close>

record file_memory =
  fm_deadline :: int
  fm_reservation :: "nat option"
  fm_parts :: "(string \<times> int) list"

definition file_memory_init :: "int \<Rightarrow> file_memory" where
  "file_memory_init deadline = \<lparr> fm_deadline = deadline, fm_reservation = None, fm_parts = [] \<rparr>"

definition wait_until :: "int \<Rightarrow> int \<Rightarrow> int" where
  "wait_until now deadline = now + max 0 ((deadline - now) div 2)"

definition part_bytes :: "string \<Rightarrow> file_memory \<Rightarrow> int" where
  "part_bytes key fm = (case map_of (fm_parts fm) key of Some b \<Rightarrow> b | None \<Rightarrow> 0)"

definition file_settle :: "string \<Rightarrow> int \<Rightarrow> file_memory \<times> memory_state \<Rightarrow> int \<times> file_memory \<times> memory_state" where
  "file_settle key bytes st =
     (case st of (fm, s) \<Rightarrow>
        let before = part_bytes key fm in
        (max 0 (bytes - before),
         fm\<lparr> fm_parts := AList.update key bytes (fm_parts fm) \<rparr>,
         (case fm_reservation fm of None \<Rightarrow> s | Some i \<Rightarrow> adjust i (bytes - before) s)))"

definition fresh_parts :: "(string \<times> int) list \<Rightarrow> file_memory \<Rightarrow> (string \<times> int) list" where
  "fresh_parts parts fm = filter (\<lambda>(key, _). map_of (fm_parts fm) key = None) parts"

text \<open>\<open>reserve\<close> up to its \<open>await\<close>: \<open>Inl\<close> the pending request and the parts it is for, or \<open>Inr\<close> the settled memory.\<close>

definition file_reserve ::
  "(nat \<Rightarrow> bool) \<Rightarrow> int \<Rightarrow> (string \<times> int) list \<Rightarrow> file_memory \<times> memory_state \<Rightarrow>
     (reserve_result \<times> (string \<times> int) list + file_memory) \<times> memory_state" where
  "file_reserve aborted now parts st =
     (case st of (fm, s) \<Rightarrow>
        if fm_reservation fm = None
        then (let fresh = fresh_parts parts fm;
                  (r, s') = reserve_memory aborted (sum_list (map snd fresh)) (Some (wait_until now (fm_deadline fm))) None s
              in (Inl (r, fresh), s'))
        else (let (fm', s') = foldl (\<lambda>st (key, bytes). snd (file_settle key bytes st)) (fm, s) parts in (Inr fm', s')))"

text \<open>\<open>reserve\<close> after its \<open>await\<close>, when ticket \<open>i\<close> is granted.\<close>

definition file_granted :: "nat \<Rightarrow> (string \<times> int) list \<Rightarrow> file_memory \<Rightarrow> file_memory" where
  "file_granted i fresh fm =
     fm\<lparr> fm_reservation := Some i, fm_parts := foldl (\<lambda>m (key, bytes). AList.update key bytes m) (fm_parts fm) fresh \<rparr>"

definition file_release :: "file_memory \<Rightarrow> memory_state \<Rightarrow> memory_state" where
  "file_release fm s = (case fm_reservation fm of None \<Rightarrow> s | Some i \<Rightarrow> release i s)"

section \<open>Counting reservations\<close>

definition held_bytes :: "reservation \<Rightarrow> int" where
  "held_bytes r = (if rv_released r then 0 else rv_held r)"

definition one_if_live :: "reservation \<Rightarrow> int" where
  "one_if_live r = (if rv_released r then 0 else 1)"

definition total :: "(reservation \<Rightarrow> int) \<Rightarrow> (nat \<times> reservation) list \<Rightarrow> int" where
  "total f rs = sum_list (map (f \<circ> snd) rs)"

lemma total_simps [simp]:
  "total f [] = 0" "total f (p # ps) = f (snd p) + total f ps" "total f (ps @ qs) = total f ps + total f qs"
  by (simp_all add: total_def)

lemma total_update:
  "map_of rs i = Some r \<Longrightarrow> total f (AList.update i r' rs) = total f rs - f r + f r'"
  by (induction rs) auto

lemma keys_update_present: "map_of rs i \<noteq> None \<Longrightarrow> map fst (AList.update i r' rs) = map fst rs"
  by (induction rs) auto

lemma live_reservationD:
  "live_reservation i s = Some h \<Longrightarrow> map_of (mb_reservations s) i = Some \<lparr> rv_held = h, rv_released = False \<rparr>"
  by (auto simp: live_reservation_def split: option.splits if_splits)

lemma fits_cong:
  "mb_holders s = mb_holders t \<Longrightarrow> mb_used s = mb_used t \<Longrightarrow> mb_budget s = mb_budget t \<Longrightarrow> fits b s = fits b t"
  by (simp add: fits_def)

section \<open>The invariant\<close>

definition accounted :: "memory_state \<Rightarrow> bool" where
  "accounted s =
     (mb_used s = total held_bytes (mb_reservations s)
      \<and> mb_holders s = total one_if_live (mb_reservations s)
      \<and> list_all (\<lambda>p. 0 \<le> rv_held (snd p)) (mb_reservations s)
      \<and> list_all (\<lambda>w. 0 \<le> wt_bytes w) (mb_waiting s))"

text \<open>Reservations were made, and waiters wait, in the order of their tickets.\<close>

definition in_order :: "memory_state \<Rightarrow> bool" where
  "in_order s =
     (sorted_wrt (<) (map fst (mb_reservations s) @ map wt_id (mb_waiting s))
      \<and> list_all (\<lambda>i. i < mb_next s) (map fst (mb_reservations s) @ map wt_id (mb_waiting s)))"

text \<open>The head of the queue does not fit.\<close>

definition pumped :: "memory_state \<Rightarrow> bool" where
  "pumped s = (case mb_waiting s of [] \<Rightarrow> True | w # ws \<Rightarrow> \<not> fits (wt_bytes w) s)"

text \<open>The budget is exceeded by at most \<open>g\<close>, or by a single holder.\<close>

definition exceeded_by_growth :: "int \<Rightarrow> memory_state \<Rightarrow> bool" where
  "exceeded_by_growth g s = (mb_holders s \<le> 1 \<or> mb_used s \<le> mb_budget s + g)"

definition budget_inv :: "memory_state \<Rightarrow> bool" where
  "budget_inv s = (accounted s \<and> in_order s)"

lemma total_nonneg: "list_all (\<lambda>p. 0 \<le> f (snd p)) rs \<Longrightarrow> 0 \<le> total f rs"
  by (induction rs) auto

lemma accounted_nonneg: "accounted s \<Longrightarrow> 0 \<le> mb_used s \<and> 0 \<le> mb_holders s"
  by (auto simp: accounted_def held_bytes_def one_if_live_def list_all_iff intro!: total_nonneg)

lemma budget_inv_make:
  assumes "budget_inv s" "mb_waiting s = w # ws"
  shows "budget_inv (make_reservation (wt_id w) (wt_bytes w) (s\<lparr> mb_waiting := ws \<rparr>))"
  using assms
  by (auto simp: budget_inv_def accounted_def in_order_def make_reservation_def held_bytes_def one_if_live_def
      sorted_wrt_append)

lemma budget_inv_pump: "budget_inv s \<Longrightarrow> budget_inv (pump s)"
proof (induction s rule: pump.induct)
  case (1 s)
  then show ?case
    by (subst pump.simps) (auto split: list.splits intro: budget_inv_make)
qed

lemma pumped_pump: "pumped (pump s)"
proof (induction s rule: pump.induct)
  case (1 s)
  then show ?case
    by (subst pump.simps) (auto split: list.splits simp: pumped_def)
qed

lemma pump_pumped: "pumped s \<Longrightarrow> pump s = s"
  by (subst pump.simps) (auto simp: pumped_def split: list.splits)

lemma exceeded_make:
  assumes "exceeded_by_growth g s" "fits b s" "0 \<le> g" "0 \<le> mb_holders s"
  shows "exceeded_by_growth g (make_reservation i b (s\<lparr> mb_waiting := ws \<rparr>))"
  using assms by (auto simp: exceeded_by_growth_def fits_def make_reservation_def)

lemma exceeded_pump:
  "exceeded_by_growth g s \<Longrightarrow> 0 \<le> g \<Longrightarrow> budget_inv s \<Longrightarrow> exceeded_by_growth g (pump s)"
proof (induction s rule: pump.induct)
  case (1 s)
  have "0 \<le> mb_holders s" using 1(4) accounted_nonneg by (simp add: budget_inv_def)
  then show ?case
    using 1 by (subst pump.simps) (auto split: list.splits intro: budget_inv_make exceeded_make)
qed

section \<open>Every operation keeps the invariant\<close>

lemma list_all_update: "list_all P xs \<Longrightarrow> P (k, v) \<Longrightarrow> list_all P (AList.update k v xs)"
  by (induction xs) auto

lemma budget_inv_put:
  assumes "budget_inv s" "live_reservation i s = Some h" "0 \<le> h'"
    and "u = mb_used s - h + (if rel then 0 else h')" "n = mb_holders s - (if rel then 1 else 0)"
  shows "budget_inv (put_reservation i h' rel (s\<lparr> mb_used := u, mb_holders := n \<rparr>))"
proof -
  note r = live_reservationD [OF assms(2)]
  show ?thesis
    using assms r
    by (auto simp: budget_inv_def accounted_def in_order_def put_reservation_def total_update keys_update_present
        held_bytes_def one_if_live_def intro!: list_all_update)
qed

lemma put_state [simp]:
  "mb_waiting (put_reservation i h r s) = mb_waiting s" "mb_used (put_reservation i h r s) = mb_used s"
  "mb_holders (put_reservation i h r s) = mb_holders s" "mb_budget (put_reservation i h r s) = mb_budget s"
  "mb_next (put_reservation i h r s) = mb_next s"
  by (simp_all add: put_reservation_def)

lemma live_nonneg: "budget_inv s \<Longrightarrow> live_reservation i s = Some h \<Longrightarrow> 0 \<le> h"
  by (drule live_reservationD, drule map_of_SomeD) (auto simp: budget_inv_def accounted_def list_all_iff)

lemma budget_inv_change:
  assumes "budget_inv s" "live_reservation i s = Some h" "0 \<le> h + d"
  shows "budget_inv (put_reservation i (h + d) False (s\<lparr> mb_used := mb_used s + d \<rparr>))"
proof -
  have "s\<lparr> mb_used := mb_used s + d \<rparr> = s\<lparr> mb_used := mb_used s + d, mb_holders := mb_holders s \<rparr>" by simp
  then show ?thesis using budget_inv_put [OF assms, of "mb_used s + d" False "mb_holders s"] by simp
qed

lemma budget_inv_grow: "budget_inv s \<Longrightarrow> budget_inv (grow i b s)"
  using live_nonneg [of s i] by (auto simp: grow_def split: option.splits intro: budget_inv_change)

lemma budget_inv_shrink: "budget_inv s \<Longrightarrow> budget_inv (shrink i b s)"
  using live_nonneg [of s i] budget_inv_change [of s i _ "- min b _"]
  by (auto simp: shrink_def split: option.splits intro!: budget_inv_pump)

lemma budget_inv_release: "budget_inv s \<Longrightarrow> budget_inv (release i s)"
  using budget_inv_put [of s i _ _ _ True] live_nonneg [of s i]
  by (auto simp: release_def split: option.splits intro!: budget_inv_pump)

lemma budget_inv_adjust: "budget_inv s \<Longrightarrow> budget_inv (adjust i d s)"
  by (simp add: adjust_def budget_inv_grow budget_inv_shrink)

lemma sorted_wrt_filter_right: "sorted_wrt P (xs @ map f ys) \<Longrightarrow> sorted_wrt P (xs @ map f (filter Q ys))"
  by (auto simp: sorted_wrt_append sorted_wrt_map sorted_wrt_filter)

lemma budget_inv_drop_waiter: "budget_inv s \<Longrightarrow> budget_inv (s\<lparr> mb_waiting := filter Q (mb_waiting s) \<rparr>)"
  by (auto simp: budget_inv_def accounted_def in_order_def list_all_iff intro: sorted_wrt_filter_right)

lemma budget_inv_leave: "budget_inv s \<Longrightarrow> budget_inv (snd (leave reason i s))"
  by (auto simp: leave_def intro: budget_inv_pump budget_inv_drop_waiter)

lemma budget_inv_enqueue:
  "budget_inv s \<Longrightarrow> 0 \<le> b \<Longrightarrow>
   budget_inv (s\<lparr> mb_next := Suc (mb_next s),
     mb_waiting := mb_waiting s @ [\<lparr> wt_id = mb_next s, wt_bytes = b, wt_signal = sg, wt_until = u \<rparr>] \<rparr>)"
  by (auto simp: budget_inv_def accounted_def in_order_def list_all_iff sorted_wrt_append less_Suc_eq)

lemma budget_inv_grant_now:
  "budget_inv s \<Longrightarrow> 0 \<le> b \<Longrightarrow> mb_waiting s = [] \<Longrightarrow>
   budget_inv (make_reservation (mb_next s) b (s\<lparr> mb_next := Suc (mb_next s) \<rparr>))"
  by (auto simp: budget_inv_def accounted_def in_order_def list_all_iff sorted_wrt_append less_Suc_eq
      make_reservation_def held_bytes_def one_if_live_def)

lemma budget_inv_reserve: "budget_inv s \<Longrightarrow> budget_inv (snd (reserve_memory aborted b u sg s))"
  by (auto simp: reserve_memory_def Let_def intro!: budget_inv_leave budget_inv_enqueue budget_inv_grant_now)

text \<open>The head of the queue never fits, after every operation.\<close>

lemma pumped_cong:
  "mb_waiting s = mb_waiting t \<Longrightarrow> mb_holders s = mb_holders t \<Longrightarrow> mb_used t \<le> mb_used s \<Longrightarrow>
   mb_budget s = mb_budget t \<Longrightarrow> pumped t \<Longrightarrow> pumped s"
  by (auto simp: pumped_def fits_def split: list.splits)

lemma pumped_grow: "pumped s \<Longrightarrow> pumped (grow i b s)"
  by (auto simp: grow_def split: option.splits intro: pumped_cong)

lemma pumped_shrink: "pumped s \<Longrightarrow> pumped (shrink i b s)"
  by (auto simp: shrink_def pumped_pump split: option.splits)

lemma pumped_release: "pumped s \<Longrightarrow> pumped (release i s)"
  by (auto simp: release_def pumped_pump split: option.splits)

lemma pumped_adjust: "pumped s \<Longrightarrow> pumped (adjust i d s)"
  by (simp add: adjust_def pumped_grow pumped_shrink)

lemma pumped_leave: "pumped s \<Longrightarrow> pumped (snd (leave reason i s))"
  by (simp add: leave_def pumped_pump)

lemma pumped_reserve: "pumped s \<Longrightarrow> pumped (snd (reserve_memory aborted b u sg s))"
proof (cases "mb_waiting s = [] \<and> fits (max 0 b) s")
  case True
  then show ?thesis by (simp add: reserve_memory_def Let_def pumped_def make_reservation_def)
next
  case False
  assume p: "pumped s"
  let ?t = "\<lambda>sg. s\<lparr> mb_next := Suc (mb_next s),
     mb_waiting := mb_waiting s @ [\<lparr> wt_id = mb_next s, wt_bytes = max 0 b, wt_signal = sg, wt_until = u \<rparr>] \<rparr>"
  have "pumped (?t x)" for x
    using p False by (auto simp: pumped_def fits_def split: list.splits)
  then show ?thesis
    using False by (auto simp: reserve_memory_def Let_def simp del: list.distinct intro: pumped_leave)
qed

text \<open>The budget is exceeded only by growth.\<close>

lemma exceeded_mono:
  "exceeded_by_growth g s \<Longrightarrow> mb_used t \<le> mb_used s \<Longrightarrow> mb_holders t \<le> mb_holders s \<Longrightarrow> mb_budget t = mb_budget s \<Longrightarrow>
   exceeded_by_growth g t"
  by (auto simp: exceeded_by_growth_def)

lemma exceeded_grow: "exceeded_by_growth g s \<Longrightarrow> exceeded_by_growth (g + max 0 b) (grow i b s)"
  by (auto simp: grow_def exceeded_by_growth_def split: option.splits)

lemma exceeded_shrink:
  assumes "exceeded_by_growth g s" "0 \<le> g" "budget_inv s"
  shows "exceeded_by_growth g (shrink i b s)"
proof (cases "live_reservation i s")
  case (Some h)
  have h: "0 \<le> h" using live_nonneg [OF assms(3) Some] .
  have "budget_inv (put_reservation i (h + - min b h) False (s\<lparr> mb_used := mb_used s + - min b h \<rparr>))"
    by (rule budget_inv_change [OF assms(3) Some]) simp
  with h assms show ?thesis
    using Some by (auto simp: shrink_def intro!: exceeded_pump intro: exceeded_mono [OF assms(1)])
qed (simp add: shrink_def assms)

lemma exceeded_release:
  assumes "exceeded_by_growth g s" "0 \<le> g" "budget_inv s"
  shows "exceeded_by_growth g (release i s)"
proof (cases "live_reservation i s")
  case (Some h)
  have h: "0 \<le> h" using live_nonneg [OF assms(3) Some] .
  with assms budget_inv_put [OF assms(3) Some h, where rel = True, OF refl refl] show ?thesis
    using Some by (auto simp: release_def intro!: exceeded_pump intro: exceeded_mono [OF assms(1)])
qed (simp add: release_def assms)

lemma exceeded_leave:
  assumes "exceeded_by_growth g s" "0 \<le> g" "budget_inv s"
  shows "exceeded_by_growth g (snd (leave reason i s))"
  using assms
  by (auto simp: leave_def intro!: exceeded_pump budget_inv_drop_waiter intro: exceeded_mono [OF assms(1)])

lemma exceeded_reserve:
  assumes "exceeded_by_growth g s" "0 \<le> g" "budget_inv s"
  shows "exceeded_by_growth g (snd (reserve_memory aborted b u sg s))"
proof (cases "mb_waiting s = [] \<and> fits (max 0 b) s")
  case True
  have "0 \<le> mb_holders s" using assms(3) accounted_nonneg by (simp add: budget_inv_def)
  moreover have "s\<lparr> mb_next := Suc (mb_next s) \<rparr> = s\<lparr> mb_next := Suc (mb_next s), mb_waiting := mb_waiting s \<rparr>" by simp
  ultimately show ?thesis
    using True assms by (auto simp: reserve_memory_def Let_def make_reservation_def fits_def exceeded_by_growth_def)
next
  case False
  let ?t = "\<lambda>sg. s\<lparr> mb_next := Suc (mb_next s),
     mb_waiting := mb_waiting s @ [\<lparr> wt_id = mb_next s, wt_bytes = max 0 b, wt_signal = sg, wt_until = u \<rparr>] \<rparr>"
  have "exceeded_by_growth g (?t x)" "budget_inv (?t x)" for x
    using assms budget_inv_enqueue [OF assms(3), of "max 0 b"] by (auto simp: exceeded_by_growth_def)
  then show ?thesis
    using False assms(2) by (auto simp: reserve_memory_def Let_def intro: exceeded_leave)
qed

section \<open>The operations in any order\<close>

text \<open>The second component adds up the bytes reservations grew by.\<close>

inductive budget_step :: "memory_state \<times> int \<Rightarrow> memory_state \<times> int \<Rightarrow> bool" where
  reserves: "budget_step (s, g) (snd (reserve_memory aborted b u sg s), g)"
| ends_wait: "budget_step (s, g) (snd (leave reason i s), g)"
| adjusts: "budget_step (s, g) (adjust i d s, g + max 0 d)"
| grows: "budget_step (s, g) (grow i b s, g + max 0 b)"
| shrinks: "budget_step (s, g) (shrink i b s, g)"
| releases: "budget_step (s, g) (release i s, g)"
| sets_signal: "budget_step (s, g) (set_memory_wait_stop_signal x s, g)"
| clears_signal: "budget_step (s, g) (clear_memory_wait_stop_signal y s, g)"

definition step_inv :: "memory_state \<times> int \<Rightarrow> bool" where
  "step_inv c = (budget_inv (fst c) \<and> pumped (fst c) \<and> 0 \<le> snd c \<and> exceeded_by_growth (snd c) (fst c))"

lemma signal_irrelevant [simp]:
  "budget_inv (set_memory_wait_stop_signal x s) = budget_inv s" "pumped (set_memory_wait_stop_signal x s) = pumped s"
  "exceeded_by_growth g (set_memory_wait_stop_signal x s) = exceeded_by_growth g s"
  "budget_inv (clear_memory_wait_stop_signal y s) = budget_inv s" "pumped (clear_memory_wait_stop_signal y s) = pumped s"
  "exceeded_by_growth g (clear_memory_wait_stop_signal y s) = exceeded_by_growth g s"
  by (auto simp: set_memory_wait_stop_signal_def clear_memory_wait_stop_signal_def budget_inv_def accounted_def
      in_order_def pumped_def fits_def exceeded_by_growth_def split: list.splits)

lemma exceeded_adjust:
  assumes "exceeded_by_growth g s" "0 \<le> g" "budget_inv s"
  shows "exceeded_by_growth (g + max 0 d) (adjust i d s)"
  using exceeded_grow [OF assms(1), of d i] exceeded_shrink [OF assms, of i "- d"]
  by (cases "0 < d") (auto simp: adjust_def)

lemma budget_step_inv: "budget_step c c' \<Longrightarrow> step_inv c \<Longrightarrow> step_inv c'"
  by (induction rule: budget_step.induct)
    (simp_all add: step_inv_def budget_inv_reserve budget_inv_leave budget_inv_adjust budget_inv_grow budget_inv_shrink
      budget_inv_release pumped_reserve pumped_leave pumped_adjust pumped_grow pumped_shrink pumped_release
      exceeded_reserve exceeded_leave exceeded_adjust exceeded_grow exceeded_shrink exceeded_release)

definition reachable :: "int \<Rightarrow> int \<Rightarrow> memory_state \<Rightarrow> bool" where
  "reachable budget g s = budget_step\<^sup>*\<^sup>* (memory_init budget, 0) (s, g)"

lemma reachable_inv: "reachable budget g s \<Longrightarrow> step_inv (s, g)"
proof -
  have "step_inv (memory_init budget, 0)"
    by (simp add: step_inv_def memory_init_def budget_inv_def accounted_def in_order_def pumped_def exceeded_by_growth_def)
  moreover have "budget_step\<^sup>*\<^sup>* c c' \<Longrightarrow> step_inv c \<Longrightarrow> step_inv c'" for c c'
    by (induction rule: rtranclp_induct) (auto intro: budget_step_inv)
  ultimately show "reachable budget g s \<Longrightarrow> step_inv (s, g)"
    unfolding reachable_def by blast
qed

lemma mb_budget_pump [simp]: "mb_budget (pump s) = mb_budget s"
proof (induction s rule: pump.induct)
  case (1 s)
  then show ?case by (subst pump.simps) (auto split: list.splits simp: make_reservation_def)
qed

lemma mb_budget_step: "budget_step c c' \<Longrightarrow> mb_budget (fst c') = mb_budget (fst c)"
  by (induction rule: budget_step.induct)
    (auto simp: reserve_memory_def leave_def adjust_def grow_def shrink_def release_def make_reservation_def Let_def
      set_memory_wait_stop_signal_def clear_memory_wait_stop_signal_def split: option.splits)

lemma reachable_budget: "reachable budget g s \<Longrightarrow> mb_budget s = budget"
proof -
  have "budget_step\<^sup>*\<^sup>* c c' \<Longrightarrow> mb_budget (fst c') = mb_budget (fst c)" for c c'
    by (induction rule: rtranclp_induct) (auto dest: mb_budget_step)
  then show "reachable budget g s \<Longrightarrow> mb_budget s = budget"
    unfolding reachable_def by (force simp: memory_init_def)
qed

section \<open>What holds in every reachable state\<close>

lemma reachable_init: "reachable budget 0 (memory_init budget)"
  by (simp add: reachable_def)

lemma reachable_step: "reachable budget g s \<Longrightarrow> budget_step (s, g) (s', g') \<Longrightarrow> reachable budget g' s'"
  unfolding reachable_def by (rule rtranclp.rtrancl_into_rtrancl)

text \<open>A budget of 200 with two reservations, one of which grew, and a waiter.\<close>

definition toy_reserve :: "int \<Rightarrow> memory_state \<Rightarrow> memory_state" where
  "toy_reserve b s = snd (reserve_memory (\<lambda>_. False) b None None s)"

definition toy_memory :: memory_state where
  "toy_memory = grow 0 90 (toy_reserve 100 (toy_reserve 70 (toy_reserve 60 (memory_init 200))))"

lemma reachable_toy: "reachable 200 90 toy_memory"
proof -
  have step: "reachable 200 0 s \<Longrightarrow> reachable 200 0 (toy_reserve b s)" for b s
    unfolding toy_reserve_def by (rule reachable_step [OF _ reserves])
  have "reachable 200 0 (toy_reserve 100 (toy_reserve 70 (toy_reserve 60 (memory_init 200))))"
    by (intro step reachable_init)
  from reachable_step [OF this grows [of _ _ 0 90]] show ?thesis
    by (simp add: toy_memory_def)
qed

lemma toy_memory_state:
  "toy_memory = \<lparr> mb_budget = 200, mb_used = 220, mb_holders = 2,
     mb_waiting = [\<lparr> wt_id = 2, wt_bytes = 100, wt_signal = None, wt_until = None \<rparr>], mb_stop_signal = None,
     mb_reservations = [(0, \<lparr> rv_held = 150, rv_released = False \<rparr>), (1, \<lparr> rv_held = 70, rv_released = False \<rparr>)],
     mb_next = 3 \<rparr>"
  by code_simp

text \<open>C33. However reservations, growth, releases and ended waits interleave, the bytes in use are the sum over
  the reservations that are not released, their number is the number of holders, and the reservations granted so
  far, followed by the waiters, are in the order in which the requests arrived.\<close>

theorem memory_budget_accounts:
  assumes "reachable budget g s"
  shows "mb_used s = sum_list [rv_held r. (i, r) \<leftarrow> mb_reservations s, \<not> rv_released r]
     \<and> mb_holders s = int (length [r. (i, r) \<leftarrow> mb_reservations s, \<not> rv_released r])
     \<and> sorted_wrt (<) (map fst (mb_reservations s) @ map wt_id (mb_waiting s))"
proof -
  have "total held_bytes rs = sum_list [rv_held r. (i, r) \<leftarrow> rs, \<not> rv_released r]"
    "total one_if_live rs = int (length [r. (i, r) \<leftarrow> rs, \<not> rv_released r])" for rs :: "(nat \<times> reservation) list"
    by (induction rs) (auto simp: held_bytes_def one_if_live_def)
  with reachable_inv [OF assms] show ?thesis
    by (simp add: step_inv_def budget_inv_def accounted_def in_order_def)
qed

theorem memory_budget_accounts_witness: "mb_used toy_memory = 150 + 70 \<and> mb_holders toy_memory = 2"
  using memory_budget_accounts [OF reachable_toy] by (simp add: toy_memory_state)

text \<open>Unless a single reservation holds the memory, the bytes in use exceed the budget by no more than the
  reservations have grown since they were granted.\<close>

theorem budget_exceeded_only_by_growth:
  assumes "reachable budget g s" and "1 < mb_holders s"
  shows "mb_used s \<le> budget + g"
  using reachable_inv [OF assms(1)] reachable_budget [OF assms(1)] assms(2)
  by (simp add: step_inv_def exceeded_by_growth_def)

theorem budget_exceeded_only_by_growth_witness: "mb_used toy_memory \<le> 200 + 90"
  by (rule budget_exceeded_only_by_growth [OF reachable_toy]) (simp add: toy_memory_state)

section \<open>No waiter waits forever\<close>

definition live_ids :: "memory_state \<Rightarrow> nat list" where
  "live_ids s = map fst (filter (\<lambda>p. \<not> rv_released (snd p)) (mb_reservations s))"

definition release_all :: "nat list \<Rightarrow> memory_state \<Rightarrow> memory_state" where
  "release_all ids s = foldl (\<lambda>s i. release i s) s ids"

definition was_granted :: "nat \<Rightarrow> memory_state \<Rightarrow> bool" where
  "was_granted i s = (i \<in> fst ` set (mb_reservations s))"

lemma was_granted_pump: "was_granted i s \<Longrightarrow> was_granted i (pump s)"
proof (induction s rule: pump.induct)
  case (1 s)
  then show ?case
    by (subst pump.simps) (auto split: list.splits simp: was_granted_def make_reservation_def)
qed

lemma was_granted_put: "was_granted i s \<Longrightarrow> was_granted i (put_reservation j h r (s\<lparr> mb_used := u, mb_holders := n \<rparr>))"
  by (simp add: put_reservation_def was_granted_def dom_update)

lemma was_granted_release: "was_granted i s \<Longrightarrow> was_granted i (release j s)"
  by (auto simp: release_def split: option.splits intro!: was_granted_pump was_granted_put)

lemma pump_head:
  "mb_waiting s = w # ws \<Longrightarrow> was_granted (wt_id w) (pump s) \<or> pump s = s"
  by (subst (1 2) pump.simps) (auto simp: was_granted_def make_reservation_def
      intro!: was_granted_pump [unfolded was_granted_def])

text \<open>After the reservations \<open>ids\<close> are released: the head is granted, or nothing is and they are gone.\<close>

definition still_waits :: "waiter list \<Rightarrow> nat set \<Rightarrow> memory_state \<Rightarrow> memory_state \<Rightarrow> bool" where
  "still_waits ws0 ids s t =
     (mb_waiting t = ws0
      \<and> (\<forall>i. live_reservation i t \<noteq> None \<longrightarrow> live_reservation i s \<noteq> None \<and> i \<notin> ids))"

lemma still_waits_release:
  assumes "still_waits (w # ws) ids s t"
  shows "was_granted (wt_id w) (release i t) \<or> still_waits (w # ws) (insert i ids) s (release i t)"
proof (cases "live_reservation i t")
  case None
  with assms show ?thesis by (auto simp: release_def still_waits_def)
next
  case (Some h)
  let ?t = "put_reservation i h True (t\<lparr> mb_used := mb_used t - h, mb_holders := mb_holders t - 1 \<rparr>)"
  have "still_waits (w # ws) (insert i ids) s ?t"
    using assms by (auto simp: still_waits_def live_reservation_def put_reservation_def)
  moreover have "was_granted (wt_id w) (pump ?t) \<or> pump ?t = ?t"
    using assms by (intro pump_head) (simp add: still_waits_def)
  ultimately show ?thesis using Some by (auto simp: release_def)
qed

lemma release_all_head:
  "was_granted (wt_id w) t \<or> still_waits (w # ws) done_ids s t \<Longrightarrow>
   was_granted (wt_id w) (release_all ids t) \<or> still_waits (w # ws) (set ids \<union> done_ids) s (release_all ids t)"
proof (induction ids arbitrary: t done_ids)
  case (Cons i ids)
  have "was_granted (wt_id w) (release i t) \<or> still_waits (w # ws) (insert i done_ids) s (release i t)"
    using Cons.prems still_waits_release was_granted_release by blast
  from Cons.IH [OF this] show ?case by (simp add: release_all_def)
qed (simp add: release_all_def)

lemma release_all_keeps:
  "budget_inv s \<Longrightarrow> budget_inv (release_all ids s)" "pumped s \<Longrightarrow> pumped (release_all ids s)"
  by (induction ids arbitrary: s) (simp_all add: release_all_def budget_inv_release pumped_release)

lemma live_in_ids: "in_order s \<Longrightarrow> live_reservation i s \<noteq> None \<Longrightarrow> i \<in> set (live_ids s)"
  by (force simp: live_ids_def live_reservation_def split: option.splits if_splits dest: map_of_SomeD)

lemma no_live_no_holders:
  assumes "budget_inv t" "\<And>i. live_reservation i t = None"
  shows "mb_holders t = 0"
proof -
  have "distinct (map fst (mb_reservations t))"
    using assms(1) by (auto simp: budget_inv_def in_order_def sorted_wrt_append strict_sorted_iff)
  then have "map_of (mb_reservations t) (fst p) = Some (snd p)" if "p \<in> set (mb_reservations t)" for p
    using that by simp
  then have "one_if_live (snd p) = 0" if "p \<in> set (mb_reservations t)" for p
    using assms(2) [of "fst p"] that by (auto simp: one_if_live_def live_reservation_def split: if_splits)
  then have "total one_if_live (mb_reservations t) = 0"
    unfolding total_def by (auto intro!: sum_list_0 simp: map_idI cong: map_cong)
  with assms(1) show ?thesis by (simp add: budget_inv_def accounted_def)
qed

text \<open>C37. No file waits forever: while somebody waits there is a holder to wait for, and once the reservations
  held at that moment are released, in whatever state that happens, the waiter at the head has been granted.\<close>

theorem head_waiter_granted:
  assumes r: "reachable budget g s" and w: "mb_waiting s = w # ws"
  shows "0 < mb_holders s \<and> was_granted (wt_id w) (release_all (live_ids s) s)"
proof
  have inv: "budget_inv s" "pumped s" using reachable_inv [OF r] by (simp_all add: step_inv_def)
  then show "0 < mb_holders s"
    using w accounted_nonneg [of s] by (auto simp: pumped_def fits_def budget_inv_def)
  let ?t = "release_all (live_ids s) s"
  have "still_waits (w # ws) {} s s" using w by (simp add: still_waits_def)
  then consider "was_granted (wt_id w) ?t" | "still_waits (w # ws) (set (live_ids s)) s ?t"
    using release_all_head [of w s ws "{}" s "live_ids s"] by auto
  then show "was_granted (wt_id w) ?t"
  proof cases
    case 2
    then have "live_reservation i ?t = None" for i
      using live_in_ids [of s i] inv(1) unfolding still_waits_def budget_inv_def by blast
    then have "mb_holders ?t = 0" using no_live_no_holders release_all_keeps(1) [OF inv(1)] by blast
    moreover have "pumped ?t" using inv(2) by (rule release_all_keeps)
    ultimately show ?thesis using 2 by (simp add: pumped_def fits_def still_waits_def)
  qed
qed

theorem head_waiter_granted_witness: "0 < mb_holders toy_memory \<and> was_granted 2 (release_all (live_ids toy_memory) toy_memory)"
  using head_waiter_granted [OF reachable_toy, of "\<lparr> wt_id = 2, wt_bytes = 100, wt_signal = None, wt_until = None \<rparr>" "[]"]
  by (simp add: toy_memory_state)

section \<open>A file's memory is the sum of its parts\<close>

text \<open>What \<open>FileMemory\<close> relies on: the size of a live reservation after \<open>adjust\<close>.\<close>

locale reservation_account =
  fixes held :: "nat \<Rightarrow> 's \<Rightarrow> int option"
    and adj :: "nat \<Rightarrow> int \<Rightarrow> 's \<Rightarrow> 's"
  assumes held_adj: "held i s = Some h \<Longrightarrow> 0 \<le> h \<Longrightarrow> held i (adj i d s) = Some (max 0 (h + d))"
begin

lemma sum_update:
  fixes parts :: "(string \<times> int) list"
  shows "sum_list (map snd (AList.update key b parts)) =
     sum_list (map snd parts) - (case map_of parts key of Some b' \<Rightarrow> b' | None \<Rightarrow> 0) + b"
  by (induction parts) (auto split: option.splits)

lemma settle_account:
  fixes parts :: "(string \<times> int) list"
  assumes "held i s = Some (sum_list (map snd parts))" "list_all (\<lambda>p. 0 \<le> snd p) parts" "0 \<le> b"
  shows "held i (adj i (b - (case map_of parts key of Some b' \<Rightarrow> b' | None \<Rightarrow> 0)) s) =
     Some (sum_list (map snd (AList.update key b parts)))"
proof -
  have nonneg: "list_all (\<lambda>p. 0 \<le> snd p) ps \<Longrightarrow> 0 \<le> sum_list (map snd ps)" for ps :: "(string \<times> int) list"
    by (induction ps) auto
  have "list_all (\<lambda>p. 0 \<le> snd p) (AList.update key b parts)"
    using assms(2,3) by (intro list_all_update) auto
  from nonneg [OF this] held_adj [OF assms(1) nonneg [OF assms(2)]] show ?thesis
    by (simp add: sum_update)
qed

end

lemma live_pump: "live_reservation i s = Some h \<Longrightarrow> live_reservation i (pump s) = Some h"
proof (induction s rule: pump.induct)
  case (1 s)
  then show ?case
    by (subst pump.simps)
      (auto simp: live_reservation_def make_reservation_def map_add_def split: list.splits option.splits)
qed

lemma live_put: "live_reservation i (put_reservation i h False s) = Some h"
  by (simp add: live_reservation_def put_reservation_def)

lemma live_adjust:
  assumes "live_reservation i s = Some h" "0 \<le> h"
  shows "live_reservation i (adjust i d s) = Some (max 0 (h + d))"
proof (cases "0 < d")
  case True
  then show ?thesis using assms by (simp add: adjust_def grow_def live_put)
next
  case False
  then show ?thesis
  proof (cases "d = 0")
    case nz: False
    have "live_reservation i (adjust i d s) = Some (h - min (- d) h)"
      using False nz assms by (simp add: adjust_def shrink_def live_pump live_put)
    also have "h - min (- d) h = max 0 (h + d)" by simp
    finally show ?thesis .
  qed (use assms in \<open>simp add: adjust_def shrink_def\<close>)
qed

interpretation budget: reservation_account live_reservation adjust
  by unfold_locales (rule live_adjust)

definition covers :: "file_memory \<times> memory_state \<Rightarrow> bool" where
  "covers st =
     (list_all (\<lambda>p. 0 \<le> snd p) (fm_parts (fst st))
      \<and> (case fm_reservation (fst st) of
           None \<Rightarrow> True
         | Some i \<Rightarrow> live_reservation i (snd st) = Some (sum_list (map snd (fm_parts (fst st))))))"

lemma file_settle_covers:
  assumes "covers (fm, s)" "0 \<le> b"
  shows "covers (snd (file_settle key b (fm, s)))"
  using assms budget.settle_account [of _ s "fm_parts fm" b key]
  by (auto simp: covers_def file_settle_def part_bytes_def Let_def split: option.split intro!: list_all_update)

lemma file_settles_cover:
  "covers st \<Longrightarrow> list_all (\<lambda>p. 0 \<le> snd p) parts \<Longrightarrow>
   covers (foldl (\<lambda>st (key, b). snd (file_settle key b st)) st parts)"
proof (induction parts arbitrary: st)
  case (Cons p parts)
  have "covers (snd (file_settle (fst p) (snd p) st))"
    using Cons.prems file_settle_covers by (cases st) simp
  with Cons show ?case by (simp add: case_prod_unfold)
qed simp

text \<open>A file whose reservation is granted holds exactly the bytes of its parts, whatever is reserved or
  settled later.\<close>

lemma file_reserve_covers:
  assumes "covers (fm, s)" "fm_reservation fm = Some i" "list_all (\<lambda>p. 0 \<le> snd p) parts"
  shows "\<exists>fm' s'. file_reserve aborted now parts (fm, s) = (Inr fm', s') \<and> covers (fm', s')"
  using file_settles_cover [OF assms(1,3)] assms(2) by (auto simp: file_reserve_def split: prod.splits)

end
