(* ===== verification/Rank_Fusion.thy ===== *)
theory Rank_Fusion
  imports Prelude "HOL-Library.Product_Lexorder"
begin

text \<open>
  Reciprocal rank fusion of ranked lists (\<open>fileSearch/rrf.ts\<close>) and the parsing of the weights a search request
  gives for it. Scores are rationals. The two maps of the source, from an identifier to its score and to the
  place where it was first seen, are association lists in insertion order; \<open>Array.sort\<close> with the comparator of
  the source is the stable \<open>sort_key\<close> by descending score, then by first place.
\<close>

section \<open>The weights of a request\<close>

record hybrid_weights =
  hw_embedding :: rat
  hw_text :: rat

definition read_weight :: "js \<Rightarrow> string \<Rightarrow> string + rat" where
  "read_weight ob field =
     (let alias = ''rrf_'' @ field in
      if jget ob field \<noteq> JUndef \<and> jget ob alias \<noteq> JUndef
      then Inl (''ranking_options.hybrid_search: give one of '' @ field @ '' and '' @ alias @ '', not both'')
      else let name = (if jget ob field \<noteq> JUndef then field else alias) in
        (case jget ob name of
           JUndef \<Rightarrow> Inr 1
         | JNum v \<Rightarrow>
             if v < 0
             then Inl (''ranking_options.hybrid_search.'' @ name @ '' must be a number greater than or equal to 0'')
             else Inr v
         | _ \<Rightarrow> Inl (''ranking_options.hybrid_search.'' @ name @ '' must be a number greater than or equal to 0'')))"

definition parse_hybrid_search :: "js \<Rightarrow> string + hybrid_weights option" where
  "parse_hybrid_search raw =
     (if raw = JUndef \<or> raw = JNull then Inr None
      else if \<not> is_obj raw then Inl ''ranking_options.hybrid_search must be an object''
      else case read_weight raw ''embedding_weight'' of
             Inl e \<Rightarrow> Inl e
           | Inr embedding \<Rightarrow>
               (case read_weight raw ''text_weight'' of
                  Inl e \<Rightarrow> Inl e
                | Inr text_weight \<Rightarrow>
                    if embedding = 0 \<and> text_weight = 0
                    then Inl ''ranking_options.hybrid_search.embedding_weight and text_weight must not both be 0''
                    else Inr (Some \<lparr> hw_embedding = embedding, hw_text = text_weight \<rparr>)))"

section \<open>Fusion\<close>

record fusion =
  fu_scores :: "(string \<times> rat) list"
  fu_first :: "(string \<times> nat) list"
  fu_seen :: nat

definition fusion_init :: fusion where
  "fusion_init = \<lparr> fu_scores = [], fu_first = [], fu_seen = 0 \<rparr>"

text \<open>\<open>weights?.[listIndex] ?? 1\<close>\<close>

definition list_weight :: "rat list option \<Rightarrow> nat \<Rightarrow> rat" where
  "list_weight weights i = (case weights of None \<Rightarrow> 1 | Some ws \<Rightarrow> if i < length ws then ws ! i else 1)"

definition fuse_entry :: "rat \<Rightarrow> rat \<Rightarrow> string \<times> nat \<Rightarrow> fusion \<Rightarrow> fusion" where
  "fuse_entry k weight entry st =
     (case entry of (i, pos) \<Rightarrow>
        let rank = of_nat (pos + 1);
            contribution = (if weight = 1 then 1 / (k + rank) else weight / (k + rank));
            score = (case map_of (fu_scores st) i of Some s \<Rightarrow> s | None \<Rightarrow> 0)
        in \<lparr> fu_scores = AList.update i (score + contribution) (fu_scores st),
             fu_first = (if map_of (fu_first st) i = None then fu_first st @ [(i, fu_seen st)] else fu_first st),
             fu_seen = fu_seen st + 1 \<rparr>)"

definition fuse_list :: "rat \<Rightarrow> rat list option \<Rightarrow> string list \<times> nat \<Rightarrow> fusion \<Rightarrow> fusion" where
  "fuse_list k weights entry st =
     (case entry of (ranking, n) \<Rightarrow>
        if list_weight weights n = 0 then st
        else fold (fuse_entry k (list_weight weights n)) (zip ranking [0..<length ranking]) st)"

definition fused_state :: "string list list \<Rightarrow> rat \<Rightarrow> rat list option \<Rightarrow> fusion" where
  "fused_state rankings k weights = fold (fuse_list k weights) (zip rankings [0..<length rankings]) fusion_init"

definition first_place :: "fusion \<Rightarrow> string \<Rightarrow> nat" where
  "first_place st i = (case map_of (fu_first st) i of Some n \<Rightarrow> n | None \<Rightarrow> 0)"

definition fuse_rrf :: "string list list \<Rightarrow> rat \<Rightarrow> rat list option \<Rightarrow> (string \<times> rat) list" where
  "fuse_rrf rankings k weights =
     (let st = fused_state rankings k weights in
      sort_key (\<lambda>(i, score). (- score, first_place st i)) (fu_scores st))"

section \<open>What fusion computes\<close>

text \<open>The contributions of the weighted lists, in the order of the lists and of their places.\<close>

definition list_votes :: "rat \<Rightarrow> rat list option \<Rightarrow> string list \<times> nat \<Rightarrow> (string \<times> rat) list" where
  "list_votes k weights entry =
     (case entry of (ranking, n) \<Rightarrow>
        if list_weight weights n = 0 then []
        else map (\<lambda>(i, pos). (i, list_weight weights n / (k + of_nat (pos + 1)))) (zip ranking [0..<length ranking]))"

definition votes :: "string list list \<Rightarrow> rat \<Rightarrow> rat list option \<Rightarrow> (string \<times> rat) list" where
  "votes rankings k weights = concat (map (list_votes k weights) (zip rankings [0..<length rankings]))"

definition vote_sum :: "(string \<times> rat) list \<Rightarrow> string \<Rightarrow> rat" where
  "vote_sum vs i = sum_list (map snd (filter (\<lambda>v. fst v = i) vs))"

definition first_vote :: "(string \<times> rat) list \<Rightarrow> string \<Rightarrow> nat" where
  "first_vote vs i = length (takeWhile (\<lambda>v. fst v \<noteq> i) vs)"

definition add_vote :: "string \<times> rat \<Rightarrow> fusion \<Rightarrow> fusion" where
  "add_vote v st =
     \<lparr> fu_scores = AList.update (fst v)
         ((case map_of (fu_scores st) (fst v) of Some s \<Rightarrow> s | None \<Rightarrow> 0) + snd v) (fu_scores st),
       fu_first = (if map_of (fu_first st) (fst v) = None then fu_first st @ [(fst v, fu_seen st)] else fu_first st),
       fu_seen = fu_seen st + 1 \<rparr>"

lemma fuse_entry_vote: "fuse_entry k w (i, pos) = add_vote (i, w / (k + of_nat (pos + 1)))"
  by (rule ext) (simp add: fuse_entry_def add_vote_def Let_def)

lemma fuse_list_votes: "fuse_list k weights entry = fold add_vote (list_votes k weights entry)"
proof (rule ext)
  fix st
  obtain ranking n where e: "entry = (ranking, n)" by (cases entry)
  have "fold (fuse_entry k w) ps st = fold add_vote (map (\<lambda>(i, pos). (i, w / (k + of_nat (pos + 1)))) ps) st" for w ps
    by (induction ps arbitrary: st) (auto simp: fuse_entry_vote)
  then show "fuse_list k weights entry st = fold add_vote (list_votes k weights entry) st"
    by (simp add: fuse_list_def list_votes_def e)
qed

lemma fused_state_votes: "fused_state rankings k weights = fold add_vote (votes rankings k weights) fusion_init"
proof -
  have "fold (fuse_list k weights) es st = fold add_vote (concat (map (list_votes k weights) es)) st" for es st
    by (induction es arbitrary: st) (auto simp: fuse_list_votes)
  then show ?thesis by (simp add: fused_state_def votes_def)
qed

lemma votes_state:
  defines "st \<equiv> \<lambda>vs. fold add_vote vs fusion_init"
  shows "map_of (fu_scores (st vs)) i = (if i \<in> fst ` set vs then Some (vote_sum vs i) else None)"
    and "map_of (fu_first (st vs)) i = (if i \<in> fst ` set vs then Some (first_vote vs i) else None)"
    and "fu_seen (st vs) = length vs"
    and "distinct (map fst (fu_scores (st vs)))"
proof (induction vs arbitrary: i rule: rev_induct)
  case Nil
  { case 1 show ?case by (simp add: st_def fusion_init_def)
  next case 2 show ?case by (simp add: st_def fusion_init_def)
  next case 3 show ?case by (simp add: st_def fusion_init_def)
  next case 4 show ?case by (simp add: st_def fusion_init_def) }
next
  case (snoc v vs)
  note st = st_def add_vote_def
  have new: "vote_sum vs i = 0" "first_vote vs i = length vs" if "i \<notin> fst ` set vs" for i
  proof -
    have "\<forall>v \<in> set vs. fst v \<noteq> i" using that by auto
    then have f: "filter (\<lambda>v. fst v = i) vs = []" and t: "takeWhile (\<lambda>v. fst v \<noteq> i) vs = vs"
      by (auto simp: filter_empty_conv)
    show "vote_sum vs i = 0" by (simp add: vote_sum_def f)
    show "first_vote vs i = length vs" unfolding first_vote_def t ..
  qed
  have old: "first_vote (vs @ [v]) i = first_vote vs i" if "i \<in> fst ` set vs" for i
    using that by (auto simp: first_vote_def takeWhile_append1)
  { case 1
    show ?case
      using snoc.IH(1) new(1) by (auto simp: st vote_sum_def)
  next
    case 2
    have "first_vote (vs @ [v]) (fst v) = length vs" if "fst v \<notin> fst ` set vs"
      using that by (auto simp: first_vote_def takeWhile_append image_iff)
    then show ?case
      using snoc.IH(2,3) old by (auto simp: st map_add_def split: option.splits)
  next
    case 3 show ?case using snoc.IH(3) by (simp add: st)
  next
    case 4 show ?case using snoc.IH(4) by (simp add: st distinct_update) }
qed

lemma insort_key_cong: "\<forall>y \<in> insert x (set xs). f y = g y \<Longrightarrow> insort_key f x xs = insort_key g x xs"
  by (induction xs) auto

lemma sort_key_cong: "\<forall>y \<in> set xs. f y = g y \<Longrightarrow> sort_key f xs = sort_key g xs"
  by (induction xs) (auto intro!: insort_key_cong)

text \<open>Better: a higher score, or the same score and seen first.\<close>

definition ranks_before :: "(string \<times> rat) list \<Rightarrow> string \<times> rat \<Rightarrow> string \<times> rat \<Rightarrow> bool" where
  "ranks_before vs a b = (snd b < snd a \<or> snd a = snd b \<and> first_vote vs (fst a) < first_vote vs (fst b))"

lemma first_vote_inj: "inj_on (first_vote vs) (fst ` set vs)"
proof (rule inj_onI)
  fix i j assume ij: "i \<in> fst ` set vs" "j \<in> fst ` set vs" "first_vote vs i = first_vote vs j"
  have "fst (vs ! first_vote vs i) = i" if i: "i \<in> fst ` set vs" for i
  proof -
    have "takeWhile (\<lambda>v. fst v \<noteq> i) vs \<noteq> vs"
      using i by auto
    then have "length (takeWhile (\<lambda>v. fst v \<noteq> i) vs) < length vs"
      by (metis length_takeWhile_le le_neq_implies_less takeWhile_eq_take take_all_iff)
    from nth_length_takeWhile [OF this] show ?thesis by (simp add: first_vote_def)
  qed
  with ij show "i = j" by metis
qed

text \<open>Fusion returns exactly the identifiers of the lists whose weight is not zero, each once, with the sum of
  weight / (k + rank) over all its places; the result is ordered by descending score, and equal scores
  by the place where the identifier was first seen.\<close>

theorem fuse_rrf_correct:
  "(\<forall>i score. (i, score) \<in> set (fuse_rrf rankings k weights) \<longleftrightarrow>
      i \<in> fst ` set (votes rankings k weights) \<and> score = vote_sum (votes rankings k weights) i)
   \<and> distinct (map fst (fuse_rrf rankings k weights))
   \<and> sorted_wrt (ranks_before (votes rankings k weights)) (fuse_rrf rankings k weights)"
proof -
  define vs where "vs = votes rankings k weights"
  define st where "st = fused_state rankings k weights"
  let ?r = "fuse_rrf rankings k weights"
  let ?key = "\<lambda>(i, score). (- score, first_vote vs i)"
  have st: "st = fold add_vote vs fusion_init" by (simp add: st_def vs_def fused_state_votes)
  note state = votes_state [of vs, folded st]
  have mem: "(i, score) \<in> set (fu_scores st) \<longleftrightarrow> i \<in> fst ` set vs \<and> score = vote_sum vs i" for i score
    by (subst map_of_eq_Some_iff [OF state(4), symmetric]) (auto simp: state(1))
  have r: "?r = sort_key ?key (fu_scores st)"
    unfolding fuse_rrf_def Let_def st_def [symmetric]
    by (rule sort_key_cong) (auto simp: mem first_place_def state(2))
  have d: "distinct (map fst ?r)"
    unfolding r using state(4) by (simp add: distinct_map)
  have "inj_on ?key (set ?r)"
    using first_vote_inj [of vs] by (auto simp: r mem intro!: inj_onI dest: inj_onD)
  then have "sorted_wrt (<) (map ?key ?r)"
    using d by (auto simp: strict_sorted_iff distinct_map r)
  then have "sorted_wrt (ranks_before vs) ?r"
    by (auto simp: sorted_wrt_map ranks_before_def elim!: sorted_wrt_mono_rel [rotated])
  with d mem show ?thesis by (simp add: r vs_def)
qed

end
