(* ===== verification/Chunker.thy ===== *)
theory Chunker
  imports Prelude
begin

text \<open>
  The word-window chunker of file search (\<open>fileSearch/chunker.ts\<close>): the token estimate, the resolution of a
  chunking strategy, the sliding windows and the chunks of a text; and the page numbers of chunks from the
  form feeds of the extracted text (\<open>fileSearch/pages.ts\<close>).

  The ratio of tokens to words is the rational 13/10. A resolved strategy is a pair of token counts; an
  error is the value that was refused instead of the message built from it.
\<close>

section \<open>Words and tokens\<close>

definition TOKENS_PER_WORD :: rat where
  "TOKENS_PER_WORD = 13 / 10"

text \<open>\<open>s.split(/\s+/)\<close>\<close>

function split_spaces :: "string \<Rightarrow> string list" where
  "split_spaces s =
     (let w = takeWhile (\<lambda>c. \<not> is_space c) s; rest = dropWhile (\<lambda>c. \<not> is_space c) s in
      if rest = [] then [w] else w # split_spaces (dropWhile is_space rest))"
  by pat_completeness auto

termination split_spaces
proof (relation "measure length")
  fix s w rest
  assume "rest = dropWhile (\<lambda>c. \<not> is_space c) s" "rest \<noteq> []"
  then have "is_space (hd rest)" "length rest \<le> length s"
    using hd_dropWhile [of "\<lambda>c. \<not> is_space c" s] by (auto simp: length_dropWhile_le)
  moreover have "length (dropWhile is_space rest) < length rest"
    using \<open>is_space (hd rest)\<close> \<open>rest \<noteq> []\<close> by (cases rest) (auto simp: le_imp_less_Suc length_dropWhile_le)
  ultimately show "(dropWhile is_space rest, s) \<in> measure length" by simp
qed simp

declare split_spaces.simps [simp del]

definition estimate_tokens :: "string \<Rightarrow> int" where
  "estimate_tokens s =
     (if trim s = [] then 0 else \<lceil>of_nat (length (split_spaces (trim s))) * TOKENS_PER_WORD\<rceil>)"

section \<open>Strategies\<close>

definition DEFAULT_MAX_CHUNK_SIZE_TOKENS :: rat where
  "DEFAULT_MAX_CHUNK_SIZE_TOKENS = 800"

definition DEFAULT_CHUNK_OVERLAP_TOKENS :: rat where
  "DEFAULT_CHUNK_OVERLAP_TOKENS = 400"

definition MIN_CHUNK_SIZE_TOKENS :: rat where
  "MIN_CHUNK_SIZE_TOKENS = 100"

definition MAX_CHUNK_SIZE_TOKENS :: rat where
  "MAX_CHUNK_SIZE_TOKENS = 4096"

datatype chunking_error =
    Bad_Max_Size js
  | Bad_Overlap rat js

definition resolve_chunking_strategy :: "js \<Rightarrow> chunking_error + rat \<times> rat" where
  "resolve_chunking_strategy raw =
     (let static = jget raw ''static'';
          given = (truthy raw \<and> jget raw ''type'' = JStr ''static'' \<and> truthy static);
          max_size = (if given then jget static ''max_chunk_size_tokens'' else JNum DEFAULT_MAX_CHUNK_SIZE_TOKENS);
          overlap = (if given then jget static ''chunk_overlap_tokens'' else JNum DEFAULT_CHUNK_OVERLAP_TOKENS)
      in case max_size of
           JNum m \<Rightarrow>
             if m < MIN_CHUNK_SIZE_TOKENS \<or> MAX_CHUNK_SIZE_TOKENS < m then Inl (Bad_Max_Size max_size)
             else (case overlap of
                     JNum ov \<Rightarrow> if ov < 0 \<or> m / 2 < ov then Inl (Bad_Overlap m overlap) else Inr (m, ov)
                   | _ \<Rightarrow> Inl (Bad_Overlap m overlap))
         | _ \<Rightarrow> Inl (Bad_Max_Size max_size))"

section \<open>Windows\<close>

text \<open>The windows from \<open>start\<close> on; the step is at least one, so the loop ends for every size and overlap.\<close>

function windows_from :: "int \<Rightarrow> int \<Rightarrow> int \<Rightarrow> int \<Rightarrow> (int \<times> int) list" where
  "windows_from word_count per_chunk overlap start =
     (if start < word_count
      then let stop = min (start + per_chunk) word_count in
           (start, stop) #
             (if word_count \<le> stop then []
              else windows_from word_count per_chunk overlap (start + max 1 (per_chunk - overlap)))
      else [])"
  by pat_completeness auto

termination windows_from
  by (relation "measure (\<lambda>(n, _, _, start). nat (n - start))") auto

declare windows_from.simps [simp del]

definition sliding_word_windows :: "int \<Rightarrow> int \<Rightarrow> int \<Rightarrow> (int \<times> int) list" where
  "sliding_word_windows word_count per_chunk overlap = windows_from word_count per_chunk overlap 0"

definition words_per_chunk :: "rat \<Rightarrow> int" where
  "words_per_chunk max_tokens = max 1 \<lfloor>max_tokens / TOKENS_PER_WORD\<rfloor>"

definition overlap_words :: "rat \<Rightarrow> int" where
  "overlap_words overlap_tokens = max 0 \<lfloor>overlap_tokens / TOKENS_PER_WORD\<rfloor>"

definition static_word_windows :: "int \<Rightarrow> js \<Rightarrow> chunking_error + (int \<times> int) list" where
  "static_word_windows word_count strategy =
     (case resolve_chunking_strategy strategy of
        Inl e \<Rightarrow> Inl e
      | Inr (m, ov) \<Rightarrow> Inr (sliding_word_windows word_count (words_per_chunk m) (overlap_words ov)))"

section \<open>Chunks\<close>

record chunk =
  ck_ord :: nat
  ck_text :: string
  ck_tokens :: int

definition window_words :: "string list \<Rightarrow> int \<times> int \<Rightarrow> string list" where
  "window_words ws w = take (nat (snd w - fst w)) (drop (nat (fst w)) ws)"

definition chunk_of :: "string list \<Rightarrow> nat \<times> int \<times> int \<Rightarrow> chunk" where
  "chunk_of ws entry =
     (case entry of (n, w) \<Rightarrow>
        let t = join '' '' (window_words ws w) in \<lparr> ck_ord = n, ck_text = t, ck_tokens = estimate_tokens t \<rparr>)"

definition chunk_text :: "string \<Rightarrow> js \<Rightarrow> chunking_error + chunk list" where
  "chunk_text s strategy =
     (if trim s = [] then Inr []
      else let ws = split_spaces (trim s) in
        (case static_word_windows (int (length ws)) strategy of
           Inl e \<Rightarrow> Inl e
         | Inr windows \<Rightarrow> Inr (map (chunk_of ws) (enumerate 0 windows))))"

section \<open>Words\<close>

definition is_token :: "string \<Rightarrow> bool" where
  "is_token w = (w \<noteq> [] \<and> list_all (\<lambda>c. \<not> is_space c) w)"

text \<open>A text that is its own \<open>trim\<close>.\<close>

definition tight :: "string \<Rightarrow> bool" where
  "tight t = (t \<noteq> [] \<and> \<not> is_space (hd t) \<and> \<not> is_space (last t))"

lemma tight_trim: "trim s \<noteq> [] \<Longrightarrow> tight (trim s)"
proof -
  let ?l = "dropWhile is_space s"
  assume ne: "trim s \<noteq> []"
  then have r: "dropWhile is_space (rev ?l) \<noteq> []"
    unfolding trim_def trim_left_def by (metis rev.simps(1))
  then have l: "?l \<noteq> []" by (metis dropWhile.simps(1) rev.simps(1))
  have "\<not> is_space (hd ?l)" using hd_dropWhile [OF l] .
  moreover have "\<not> is_space (hd (dropWhile is_space (rev ?l)))" using hd_dropWhile [OF r] .
  moreover have "hd (rev (dropWhile is_space (rev ?l))) = hd ?l"
  proof -
    have "takeWhile is_space (rev ?l) @ dropWhile is_space (rev ?l) = rev ?l" by simp
    then have "rev (dropWhile is_space (rev ?l)) @ rev (takeWhile is_space (rev ?l)) = ?l"
      by (metis rev_append rev_rev_ident)
    then show ?thesis using r by (metis hd_append2 rev_is_Nil_conv)
  qed
  ultimately show ?thesis using ne by (simp add: tight_def trim_def trim_left_def last_rev)
qed

lemma trim_tight: "tight t \<Longrightarrow> trim t = t"
proof -
  assume t: "tight t"
  then have "dropWhile is_space t = t" by (cases t) (auto simp: tight_def)
  moreover have "dropWhile is_space (rev t) = rev t" using t by (cases t rule: rev_cases) (auto simp: tight_def)
  ultimately show ?thesis unfolding trim_def trim_left_def by (metis rev_rev_ident)
qed

lemma tokens_split: "tight t \<Longrightarrow> list_all is_token (split_spaces t)"
proof (induction t rule: split_spaces.induct)
  case (1 s)
  let ?w = "takeWhile (\<lambda>c. \<not> is_space c) s" and ?rest = "dropWhile (\<lambda>c. \<not> is_space c) s"
  have w: "is_token ?w"
    using 1(2) by (cases s) (auto simp: is_token_def tight_def list_all_iff dest: set_takeWhileD)
  show ?case
  proof (cases "?rest = []")
    case True
    then show ?thesis using w by (subst split_spaces.simps) (simp add: Let_def)
  next
    case False
    have last: "last ?rest = last s"
      using False by (metis last_appendR takeWhile_dropWhile_id)
    then have "\<not> is_space (last ?rest)" using 1(2) by (simp add: tight_def)
    then have ne: "dropWhile is_space ?rest \<noteq> []"
      using last_in_set [OF False] by (metis dropWhile_eq_Nil_conv)
    have "last (dropWhile is_space ?rest) = last ?rest"
      using ne by (metis last_appendR takeWhile_dropWhile_id)
    then have "tight (dropWhile is_space ?rest)"
      using ne hd_dropWhile [OF ne] last 1(2) by (simp add: tight_def)
    from 1(1) [OF refl refl False this] show ?thesis
      using w False by (subst split_spaces.simps) (simp add: Let_def)
  qed
qed

lemma join_tight: "list_all is_token ws \<Longrightarrow> ws \<noteq> [] \<Longrightarrow> tight (join '' '' ws)"
proof (induction "'' ''" ws rule: join.induct)
  case (2 x)
  then show ?case
    using hd_in_set [of x] last_in_set [of x] by (auto simp: tight_def is_token_def list_all_iff)
next
  case (3 x y ys)
  then have "tight (join '' '' (y # ys))" by simp
  then show ?case using 3(2) hd_in_set [of x] by (auto simp: tight_def is_token_def list_all_iff)
qed simp

lemma split_join: "list_all is_token ws \<Longrightarrow> ws \<noteq> [] \<Longrightarrow> split_spaces (join '' '' ws) = ws"
proof (induction "'' ''" ws rule: join.induct)
  case (2 x)
  then have "takeWhile (\<lambda>c. \<not> is_space c) x = x" "dropWhile (\<lambda>c. \<not> is_space c) x = []"
    by (auto simp: is_token_def list_all_iff)
  then show ?case by (subst split_spaces.simps) (simp add: Let_def del: takeWhile_eq_all_conv dropWhile_eq_Nil_conv)
next
  case (3 x y ys)
  have sp: "is_space CHR '' ''" by (simp add: is_space_def)
  have x: "\<forall>c \<in> set x. \<not> is_space c" using 3(2) by (auto simp: is_token_def list_all_iff)
  have t: "tight (join '' '' (y # ys))" using 3(2) by (intro join_tight) auto
  then have "dropWhile is_space ('' '' @ join '' '' (y # ys)) = join '' '' (y # ys)"
    using sp by (cases "join '' '' (y # ys)") (auto simp: tight_def)
  then show ?case
    using 3 x sp by (subst split_spaces.simps) (simp add: Let_def takeWhile_append2 dropWhile_append2)
qed simp

lemma estimate_tokens_join:
  "list_all is_token ws \<Longrightarrow> ws \<noteq> [] \<Longrightarrow>
   estimate_tokens (join '' '' ws) = \<lceil>of_nat (length ws) * TOKENS_PER_WORD\<rceil>"
  using join_tight [of ws] by (simp add: estimate_tokens_def trim_tight split_join tight_def)

section \<open>The windows cover the words\<close>

text \<open>The generator of the windows ends for every size and overlap, a size below the overlap included:
  it yields at most one window per word.\<close>

theorem windows_end: "length (sliding_word_windows word_count per_chunk overlap) \<le> nat word_count"
proof -
  have "length (windows_from n p ov start) \<le> nat (n - start)" for n p ov start
  proof (induction n p ov start rule: windows_from.induct)
    case (1 n p ov start)
    then show ?case by (subst windows_from.simps) (auto simp: Let_def)
  qed
  from this [of word_count per_chunk overlap 0] show ?thesis by (simp add: sliding_word_windows_def)
qed

definition window_in :: "int \<Rightarrow> int \<Rightarrow> int \<times> int \<Rightarrow> bool" where
  "window_in n p w = (0 \<le> fst w \<and> fst w < snd w \<and> snd w \<le> n \<and> snd w - fst w \<le> p)"

lemma windows_in: "0 \<le> start \<Longrightarrow> 1 \<le> p \<Longrightarrow> list_all (window_in n p) (windows_from n p ov start)"
proof (induction n p ov start rule: windows_from.induct)
  case (1 n p ov start)
  show ?case
  proof (cases "start < n \<and> \<not> n \<le> start + p")
    case True
    then have "list_all (window_in n p) (windows_from n p ov (start + max 1 (p - ov)))"
      using 1 by auto
    with True 1(2,3) show ?thesis
      by (subst windows_from.simps) (simp add: Let_def, simp add: window_in_def)
  next
    case False
    with 1(2,3) show ?thesis by (subst windows_from.simps) (auto simp: Let_def window_in_def)
  qed
qed

lemma window_words_length: "window_in (int (length ws)) p w \<Longrightarrow> length (window_words ws w) = nat (snd w - fst w)"
  by (auto simp: window_in_def window_words_def)

text \<open>The words of the windows without the overlap of each with its predecessor.\<close>

definition reassemble :: "nat \<Rightarrow> 'a list list \<Rightarrow> 'a list" where
  "reassemble ov chunks = (case chunks of [] \<Rightarrow> [] | c # cs \<Rightarrow> c @ concat (map (drop ov) cs))"

lemma windows_reassemble:
  assumes "0 \<le> start" "start < int (length ws)" "1 \<le> p" "0 \<le> ov" "ov < p"
  shows "reassemble (nat ov) (map (window_words ws) (windows_from (int (length ws)) p ov start)) = drop (nat start) ws"
  using assms
proof (induction "int (length ws)" p ov start rule: windows_from.induct)
  case (1 p ov start)
  let ?n = "int (length ws)" and ?next = "start + (p - ov)"
  show ?case
  proof (cases "?n \<le> start + p")
    case True
    then have "windows_from ?n p ov start = [(start, ?n)]"
      using 1(3) by (subst windows_from.simps) (simp add: min_def)
    then show ?thesis using 1 by (simp add: reassemble_def window_words_def nat_diff_distrib)
  next
    case False
    have step: "windows_from ?n p ov start = (start, start + p) # windows_from ?n p ov ?next"
      using False 1(3-) by (subst windows_from.simps) (simp add: Let_def)
    have "?next < ?n" using False 1 by simp
    then obtain w rest where w: "windows_from ?n p ov ?next = w # rest" "fst w = ?next" "snd w = min (?next + p) ?n"
      by (subst (asm) windows_from.simps) (simp add: Let_def)
    have IH: "reassemble (nat ov) (map (window_words ws) (windows_from ?n p ov ?next)) = drop (nat ?next) ws"
      using 1(1) [OF 1(3) refl] False \<open>?next < ?n\<close> 1(2-) by simp
    have "window_in ?n p w" using windows_in [of ?next p ?n ov] 1 w by simp
    then have "nat ov \<le> length (window_words ws w)"
      using w False 1 by (simp add: window_words_length)
    then have "drop (nat ov) (window_words ws w) @ concat (map (drop (nat ov)) (map (window_words ws) rest)) =
        drop (nat ov) (drop (nat ?next) ws)"
      using IH by (simp add: reassemble_def w(1) flip: IH)
    also have "\<dots> = drop (nat (start + p)) ws" using 1 by (simp add: nat_add_distrib flip: nat_add_distrib)
    finally have "concat (map (drop (nat ov)) (map (window_words ws) (w # rest))) = drop (nat start + nat p) ws"
      using 1 by (simp add: nat_add_distrib)
    moreover have "take (nat p) (drop (nat start) ws) @ drop (nat start + nat p) ws = drop (nat start) ws"
      by (metis add.commute append_take_drop_id drop_drop)
    ultimately show ?thesis
      unfolding step w(1) by (simp add: reassemble_def window_words_def)
  qed
qed

lemma resolved_bounds:
  assumes "resolve_chunking_strategy raw = Inr (m, ov)"
  shows "100 \<le> m" "m \<le> 4096" "0 \<le> ov" "ov \<le> m / 2"
  using assms
  by (auto simp: resolve_chunking_strategy_def Let_def MIN_CHUNK_SIZE_TOKENS_def MAX_CHUNK_SIZE_TOKENS_def
      split: js.splits if_splits)

lemma resolved_words:
  assumes "resolve_chunking_strategy raw = Inr (m, ov)"
  shows "1 \<le> words_per_chunk m" "0 \<le> overlap_words ov" "overlap_words ov < words_per_chunk m"
    "of_int (words_per_chunk m) * TOKENS_PER_WORD \<le> m"
proof -
  note b = resolved_bounds [OF assms]
  let ?p = "\<lfloor>m / TOKENS_PER_WORD\<rfloor>" and ?o = "\<lfloor>ov / TOKENS_PER_WORD\<rfloor>"
  have p: "of_int ?p \<le> m / TOKENS_PER_WORD" "m / TOKENS_PER_WORD < of_int ?p + 1"
    using floor_correct [of "m / TOKENS_PER_WORD"] by simp_all
  have o: "of_int ?o \<le> ov / TOKENS_PER_WORD" by simp
  have "of_int ?o < (of_int ?p :: rat)" using p o b by (simp add: TOKENS_PER_WORD_def)
  moreover have "0 \<le> ?o" using b by (simp add: TOKENS_PER_WORD_def)
  ultimately show "1 \<le> words_per_chunk m" "0 \<le> overlap_words ov" "overlap_words ov < words_per_chunk m"
    by (simp_all add: words_per_chunk_def overlap_words_def)
  have "?o < ?p" using \<open>of_int ?o < (of_int ?p :: rat)\<close> by (simp only: of_int_less_iff)
  then have "1 \<le> ?p" using \<open>0 \<le> ?o\<close> by linarith
  then show "of_int (words_per_chunk m) * TOKENS_PER_WORD \<le> m"
    using p by (simp add: words_per_chunk_def TOKENS_PER_WORD_def)
qed

section \<open>The chunks of a text\<close>

definition words_of :: "string \<Rightarrow> string list" where
  "words_of s = (if trim s = [] then [] else split_spaces (trim s))"

lemma words_of_tokens: "list_all is_token (words_of s)"
  using tokens_split [OF tight_trim] by (simp add: words_of_def)

lemma words_of_join: "list_all is_token ws \<Longrightarrow> ws \<noteq> [] \<Longrightarrow> words_of (join '' '' ws) = ws"
  using join_tight [of ws] by (simp add: words_of_def trim_tight split_join tight_def)

lemma window_words_tokens:
  assumes "list_all is_token ws" "window_in (int (length ws)) p w"
  shows "list_all is_token (window_words ws w)" "window_words ws w \<noteq> []"
proof -
  show "list_all is_token (window_words ws w)"
    using assms(1) by (auto simp: window_words_def list_all_iff dest: in_set_takeD in_set_dropD)
  have "length (window_words ws w) = nat (snd w - fst w)" by (rule window_words_length [OF assms(2)])
  moreover have "fst w < snd w" using assms(2) by (simp add: window_in_def)
  ultimately show "window_words ws w \<noteq> []" by (cases "window_words ws w") auto
qed

lemma chunk_of_words:
  assumes "list_all is_token ws" "window_in (int (length ws)) p w"
  shows "words_of (ck_text (chunk_of ws (n, w))) = window_words ws w"
    and "ck_tokens (chunk_of ws (n, w)) = \<lceil>of_int (snd w - fst w) * TOKENS_PER_WORD\<rceil>"
  using window_words_tokens [OF assms] window_words_length [OF assms(2)] assms(2)
  by (simp_all add: chunk_of_def Let_def words_of_join estimate_tokens_join window_in_def)

lemma chunk_tokens_at_most:
  assumes "window_in n p w" "of_int p * TOKENS_PER_WORD \<le> m"
  shows "\<lceil>of_int (snd w - fst w) * TOKENS_PER_WORD\<rceil> \<le> \<lceil>m\<rceil>"
proof (rule ceiling_mono)
  have "of_int (snd w - fst w) \<le> (of_int p :: rat)" using assms(1) by (simp only: of_int_le_iff window_in_def)
  then show "of_int (snd w - fst w) * TOKENS_PER_WORD \<le> m"
    using assms(2) by (simp add: TOKENS_PER_WORD_def)
qed

lemma map_enumerate: "map (\<lambda>e. f (snd e)) (enumerate n xs) = map f xs"
  by (induction xs arbitrary: n) auto

lemma map_enumerate_fst: "map fst (enumerate n xs) = [n..<n + length xs]"
  by (simp add: enumerate_eq_zip)

text \<open>The chunks of a text lose no word: without the overlap of each chunk with the one before it, their words
  are the words of the text in order; the chunks are numbered from zero, and the token estimate of each is at most
  the size the strategy asks for, rounded up.\<close>

theorem chunks_reassemble:
  assumes strategy: "resolve_chunking_strategy strategy = Inr (m, ov)"
    and chunks: "chunk_text s strategy = Inr cs"
  shows "reassemble (nat (overlap_words ov)) (map (\<lambda>c. words_of (ck_text c)) cs) = words_of s
     \<and> map ck_ord cs = [0..<length cs]
     \<and> list_all (\<lambda>c. ck_tokens c \<le> \<lceil>m\<rceil>) cs"
proof (cases "trim s = []")
  case True
  then show ?thesis using chunks by (simp add: chunk_text_def words_of_def reassemble_def)
next
  case False
  define ws where "ws = words_of s"
  define wins where "wins = windows_from (int (length ws)) (words_per_chunk m) (overlap_words ov) 0"
  note r = resolved_words [OF strategy]
  have ws: "list_all is_token ws" "ws = split_spaces (trim s)" "ws \<noteq> []"
    using words_of_tokens [of s] False split_spaces.simps [of "trim s"] by (auto simp: ws_def words_of_def Let_def)
  have cs: "cs = map (chunk_of ws) (enumerate 0 wins)"
    using chunks False ws(2) strategy
    by (simp add: chunk_text_def static_word_windows_def sliding_word_windows_def wins_def Let_def)
  have inw: "list_all (window_in (int (length ws)) (words_per_chunk m)) wins"
    unfolding wins_def using r by (intro windows_in) auto
  then have inw': "window_in (int (length ws)) (words_per_chunk m) w" if "(n, w) \<in> set (enumerate 0 wins)" for n w
    using that by (auto simp: list_all_iff enumerate_eq_zip dest: set_zip_rightD)
  have "map (\<lambda>c. words_of (ck_text c)) cs = map (\<lambda>e. window_words ws (snd e)) (enumerate 0 wins)"
    unfolding cs map_map using chunk_of_words(1) [OF ws(1) inw'] by (intro map_cong) auto
  also have "\<dots> = map (window_words ws) wins"
    by (rule map_enumerate)
  finally have "reassemble (nat (overlap_words ov)) (map (\<lambda>c. words_of (ck_text c)) cs) = ws"
    using windows_reassemble [of 0 ws "words_per_chunk m" "overlap_words ov"] r ws(3) by (simp add: wins_def)
  moreover have "map ck_ord cs = [0..<length cs]"
    unfolding cs map_map by (simp add: map_enumerate_fst chunk_of_def Let_def case_prod_unfold comp_def)
  moreover have "list_all (\<lambda>c. ck_tokens c \<le> \<lceil>m\<rceil>) cs"
    using chunk_of_words(2) [OF ws(1) inw'] chunk_tokens_at_most [OF inw' r(4)]
    by (auto simp: cs list_all_iff)
  ultimately show ?thesis by (simp add: ws_def)
qed

theorem chunks_reassemble_witness:
  "reassemble (nat (overlap_words 10))
      (map (\<lambda>c. words_of (ck_text c)) [\<lparr> ck_ord = 0, ck_text = ''one two'', ck_tokens = 3 \<rparr>]) = words_of '' one  two ''"
proof -
  let ?s = "JObj [(''type'', JStr ''static''),
    (''static'', JObj [(''max_chunk_size_tokens'', JNum 100), (''chunk_overlap_tokens'', JNum 10)])]"
  have "resolve_chunking_strategy ?s = Inr (100, 10)" by code_simp
  moreover have "chunk_text '' one  two '' ?s = Inr [\<lparr> ck_ord = 0, ck_text = ''one two'', ck_tokens = 3 \<rparr>]"
    by code_simp
  ultimately show ?thesis by (rule conjunct1 [OF chunks_reassemble])
qed

section \<open>Page numbers\<close>

definition PAGE_BREAK :: char where
  "PAGE_BREAK = CHR 0x0C"

definition page_break_offsets :: "string \<Rightarrow> nat list" where
  "page_break_offsets s = filter (\<lambda>i. s ! i = PAGE_BREAK) [0..<length s]"

text \<open>The binary search of \<open>pageAt\<close>.\<close>

function page_search :: "nat list \<Rightarrow> nat \<Rightarrow> nat \<Rightarrow> nat \<Rightarrow> nat" where
  "page_search breaks offset lo hi =
     (if lo < hi
      then let mid = (lo + hi) div 2 in
        if breaks ! mid < offset then page_search breaks offset (mid + 1) hi else page_search breaks offset lo mid
      else lo)"
  by pat_completeness auto

termination page_search
  by (relation "measure (\<lambda>(_, _, lo, hi). hi - lo)") auto

declare page_search.simps [simp del]

definition page_at :: "nat list \<Rightarrow> nat \<Rightarrow> nat" where
  "page_at breaks offset = page_search breaks offset 0 (length breaks) + 1"

record page_span =
  pg_first :: int
  pg_last :: int

text \<open>\<open>/\S/.test(text[i])\<close>; past the end the tested value is \<open>undefined\<close>, whose text has letters.\<close>

definition non_space_at :: "string \<Rightarrow> nat \<Rightarrow> bool" where
  "non_space_at s i = (if i < length s then \<not> is_space (s ! i) else True)"

fun skip_forward :: "string \<Rightarrow> nat \<Rightarrow> nat \<Rightarrow> nat" where
  "skip_forward s i 0 = i"
| "skip_forward s i (Suc n) = (if non_space_at s i then i else skip_forward s (Suc i) n)"

fun skip_backward :: "string \<Rightarrow> nat \<Rightarrow> nat \<Rightarrow> nat" where
  "skip_backward s first 0 = 0"
| "skip_backward s first (Suc i) =
     (if first < Suc i \<and> \<not> non_space_at s (Suc i) then skip_backward s first i else Suc i)"

definition span_pages :: "string \<Rightarrow> nat list \<Rightarrow> nat \<Rightarrow> nat \<Rightarrow> page_span option" where
  "span_pages s breaks start stop =
     (let first = skip_forward s start (stop - start) in
      if stop \<le> first then None
      else Some \<lparr> pg_first = int (page_at breaks first),
                  pg_last = int (page_at breaks (skip_backward s first (stop - 1))) \<rparr>)"

definition structured_chunk_pages :: "string \<Rightarrow> string list \<Rightarrow> nat list \<Rightarrow> page_span option list" where
  "structured_chunk_pages s chunks starts =
     map (\<lambda>(c, start). span_pages s (page_break_offsets s) start (start + length c)) (zip chunks starts)"

text \<open>The offsets of the words, the matches of \<open>/\S+/g\<close>.\<close>

fun word_offsets :: "nat \<Rightarrow> bool \<Rightarrow> string \<Rightarrow> nat list" where
  "word_offsets i inside [] = []"
| "word_offsets i inside (c # cs) =
     (if is_space c then word_offsets (Suc i) False cs
      else if inside then word_offsets (Suc i) True cs
      else i # word_offsets (Suc i) True cs)"

definition static_chunk_pages :: "string \<Rightarrow> js \<Rightarrow> chunking_error + page_span option list" where
  "static_chunk_pages s strategy =
     (let breaks = page_break_offsets s; offsets = word_offsets 0 False s in
      if offsets = [] then Inr []
      else (case static_word_windows (int (length offsets)) strategy of
              Inl e \<Rightarrow> Inl e
            | Inr windows \<Rightarrow>
                Inr (map (\<lambda>w. Some \<lparr> pg_first = int (page_at breaks (offsets ! nat (fst w))),
                                     pg_last = int (page_at breaks (offsets ! nat (snd w - 1))) \<rparr>) windows)))"

definition parent_pages :: "string \<Rightarrow> nat \<Rightarrow> string \<Rightarrow> page_span option \<Rightarrow> page_span option" where
  "parent_pages parent hit_start hit_text hit_pages =
     (case hit_pages of
        None \<Rightarrow> None
      | Some hit \<Rightarrow>
          if list_all is_space hit_text then None
          else let anchor = hit_start + length (takeWhile is_space hit_text);
                   breaks = page_break_offsets parent
               in (case span_pages parent breaks 0 (length parent) of
                    None \<Rightarrow> None
                  | Some sp \<Rightarrow>
                      let anchor_page = int (page_at breaks anchor) in
                      Some \<lparr> pg_first = pg_first hit + pg_first sp - anchor_page,
                             pg_last = pg_first hit + pg_last sp - anchor_page \<rparr>))"

text \<open>The search finds the number of breaks before the offset, in any ascending list.\<close>

lemma page_search_correct:
  assumes "sorted breaks" "lo \<le> hi" "hi \<le> length breaks"
    and "\<And>i. i < lo \<Longrightarrow> breaks ! i < offset" "\<And>i. hi \<le> i \<Longrightarrow> i < length breaks \<Longrightarrow> offset \<le> breaks ! i"
  shows "page_search breaks offset lo hi = length (filter (\<lambda>b. b < offset) breaks)"
  using assms
proof (induction breaks offset lo hi rule: page_search.induct)
  case (1 breaks offset lo hi)
  let ?mid = "(lo + hi) div 2"
  show ?case
  proof (cases "lo < hi")
    case True
    then have mid: "lo \<le> ?mid" "?mid < hi" by auto
    have le: "breaks ! i \<le> breaks ! j" if "i \<le> j" "j < length breaks" for i j
      using 1(3) that by (rule sorted_nth_mono)
    show ?thesis
    proof (cases "breaks ! ?mid < offset")
      case low: True
      have "breaks ! i < offset" if "i < ?mid + 1" for i
        using le [of i ?mid] that low mid 1(5) by simp
      then have "page_search breaks offset (?mid + 1) hi = length (filter (\<lambda>b. b < offset) breaks)"
        using 1(1) [OF True refl low 1(3)] mid 1(5,7) by simp
      then show ?thesis using True low by (subst page_search.simps) (simp add: Let_def)
    next
      case high: False
      have "offset \<le> breaks ! i" if "?mid \<le> i" "i < length breaks" for i
        using le [of ?mid i] that high by simp
      then have "page_search breaks offset lo ?mid = length (filter (\<lambda>b. b < offset) breaks)"
        using 1(2) [OF True refl high 1(3)] mid 1(5,6) by simp
      then show ?thesis using True high by (subst page_search.simps) (simp add: Let_def)
    qed
  next
    case False
    then have "lo = hi" using 1(4) by simp
    then have "filter (\<lambda>b. b < offset) (take lo breaks) = take lo breaks"
      "filter (\<lambda>b. b < offset) (drop lo breaks) = []"
      using 1(6,7) by (auto simp: in_set_conv_nth filter_empty_conv not_less intro!: filter_True)
    then have "filter (\<lambda>b. b < offset) breaks = take lo breaks"
      by (metis append_Nil2 append_take_drop_id filter_append)
    then show ?thesis using False \<open>lo = hi\<close> 1(5) by (subst page_search.simps) simp
  qed
qed

lemma break_offsets_before:
  "length (filter (\<lambda>b. b < n) (page_break_offsets s)) = count_list (take n s) PAGE_BREAK"
proof (induction s rule: rev_induct)
  case (snoc c s)
  have "filter (\<lambda>i. (s @ [c]) ! i = PAGE_BREAK) [0..<length s] = filter (\<lambda>i. s ! i = PAGE_BREAK) [0..<length s]"
    by (rule filter_cong) (auto simp: nth_append)
  with snoc show ?case by (cases "n \<le> length s") (auto simp: page_break_offsets_def)
qed (simp add: page_break_offsets_def)

text \<open>The page of a character, found by binary search over the page breaks, is one more than the number of
  form feeds before it in the text.\<close>

theorem page_at_counts_breaks: "page_at (page_break_offsets s) n = 1 + count_list (take n s) PAGE_BREAK"
proof -
  have "sorted (page_break_offsets s)" unfolding page_break_offsets_def by (intro sorted_wrt_filter sorted_upt)
  then show ?thesis
    by (simp add: page_at_def page_search_correct break_offsets_before)
qed

end
