(* ===== verification/Query_Params.thy ===== *)
theory Query_Params
  imports Prelude
begin

text \<open>
  Reads of query parameters and headers (\<open>utils/queryParam.ts\<close>): a value is a text, an array or the object of a bracketed
  parameter, and anything but a non-empty text counts as absent.
\<close>

definition first_value :: "js \<Rightarrow> js" where
  "first_value v = (case v of JArr [] \<Rightarrow> JUndef | JArr (x # _) \<Rightarrow> x | _ \<Rightarrow> v)"

definition query_string :: "js \<Rightarrow> string option" where
  "query_string v = (case first_value v of JStr s \<Rightarrow> if s = [] then None else Some s | _ \<Rightarrow> None)"

lemma query_string_text: "query_string v = Some k \<Longrightarrow> k \<noteq> []"
  by (auto simp: query_string_def split: js.splits if_splits)

end
