(* ===== verification/Pagination.thy ===== *)
theory Pagination
  imports Js_Number Query_Params
begin

text \<open>
  Cursor pagination of the list endpoints (\<open>fileSearch/pagination.ts\<close>) over the reads of
  \<open>Query_Params\<close>. The rows of a page come from a query of the database, the parameter \<open>fetch\<close>
  of the walk over all pages: what it returns for a cursor and a number of rows.
\<close>

section \<open>Page parameters\<close>

datatype page_order = Asc | Desc

record page_params =
  pp_limit :: int
  pp_order :: page_order
  pp_after :: "string option"
  pp_before :: "string option"

record page_limits =
  default_limit :: int
  max_limit :: int

definition MIN_LIMIT :: int where
  "MIN_LIMIT = 1"

definition DEFAULT_PAGE_LIMITS :: page_limits where
  "DEFAULT_PAGE_LIMITS = \<lparr> default_limit = 20, max_limit = 100 \<rparr>"

definition FILES_PAGE_LIMITS :: page_limits where
  "FILES_PAGE_LIMITS = \<lparr> default_limit = 10000, max_limit = 10000 \<rparr>"

definition truncate :: "rat \<Rightarrow> int" where
  "truncate x = (if 0 \<le> x then \<lfloor>x\<rfloor> else \<lceil>x\<rceil>)"

definition parse_page_params :: "js \<Rightarrow> page_limits \<Rightarrow> page_params" where
  "parse_page_params query limits =
     \<lparr> pp_limit =
         (case (case first_value (jget query ''limit'') of
                  JStr s \<Rightarrow> to_number s | JNum n \<Rightarrow> Some n | _ \<Rightarrow> None) of
            Some n \<Rightarrow> min (max_limit limits) (max MIN_LIMIT (truncate n))
          | None \<Rightarrow> default_limit limits),
       pp_order = (if first_value (jget query ''order'') = JStr ''asc'' then Asc else Desc),
       pp_after = query_string (jget query ''after''),
       pp_before = query_string (jget query ''before'') \<rparr>"

section \<open>Pages\<close>

record 'a page =
  page_data :: "'a list"
  has_more :: bool
  first_id :: "string option"
  last_id :: "string option"

definition build_page :: "('a \<Rightarrow> string) \<Rightarrow> 'a list \<Rightarrow> nat \<Rightarrow> 'a page" where
  "build_page ident rows limit =
     (let beyond = limit < length rows;
          shown = (if beyond then take limit rows else rows)
      in \<lparr> page_data = shown, has_more = beyond,
           first_id = (if shown = [] then None else Some (ident (hd shown))),
           last_id = (if shown = [] then None else Some (ident (last shown))) \<rparr>)"

section \<open>A walk over all pages\<close>

text \<open>A client that asks for the next page after \<open>last_id\<close> until \<open>has_more\<close> is false, for at most the given number
  of pages; every page is built from one row more than its limit.\<close>

fun walk_pages ::
  "('a \<Rightarrow> string) \<Rightarrow> (string option \<Rightarrow> nat \<Rightarrow> 'a list) \<Rightarrow> nat \<Rightarrow> nat \<Rightarrow> string option \<Rightarrow> 'a list option" where
  "walk_pages ident fetch limit 0 cursor = None"
| "walk_pages ident fetch limit (Suc n) cursor =
     (let p = build_page ident (fetch cursor (limit + 1)) limit in
      if has_more p then map_option (\<lambda>rest. page_data p @ rest) (walk_pages ident fetch limit n (last_id p))
      else Some (page_data p))"

text \<open>The keyset query: the first rows of the list, or the first rows after the row of the cursor.\<close>

definition keyset :: "('a \<Rightarrow> string) \<Rightarrow> 'a list \<Rightarrow> (string option \<Rightarrow> nat \<Rightarrow> 'a list) \<Rightarrow> bool" where
  "keyset ident rows fetch =
     (\<forall>n before x after. fetch None n = take n rows
        \<and> (rows = before @ x # after \<longrightarrow> fetch (Some (ident x)) n = take n after))"

lemma page_limit_range:
  assumes "1 \<le> default_limit limits" "default_limit limits \<le> max_limit limits"
  shows "1 \<le> pp_limit (parse_page_params query limits) \<and> pp_limit (parse_page_params query limits) \<le> max_limit limits"
  using assms by (auto simp: parse_page_params_def MIN_LIMIT_def split: option.split js.split)

lemma walk_from:
  assumes "keyset ident rows fetch" "1 \<le> limit" "rows = done_rows @ todo" "length todo < fuel"
    and "cursor = (if done_rows = [] then None else Some (ident (last done_rows)))"
  shows "walk_pages ident fetch limit fuel cursor = Some todo"
  using assms(3-)
proof (induction fuel arbitrary: done_rows todo cursor)
  case (Suc fuel)
  have fetched: "fetch cursor (Suc limit) = take (Suc limit) todo"
  proof (cases done_rows rule: rev_cases)
    case Nil
    then show ?thesis using assms(1) Suc.prems by (simp add: keyset_def)
  next
    case (snoc before x)
    then have "rows = before @ x # todo" using Suc.prems(1) by simp
    then have "fetch (Some (ident x)) (Suc limit) = take (Suc limit) todo"
      using assms(1) unfolding keyset_def by blast
    then show ?thesis using Suc.prems(3) snoc by simp
  qed
  show ?case
  proof (cases "limit < length todo")
    case True
    then have ne: "take limit todo \<noteq> []" using assms(2) by auto
    then have "walk_pages ident fetch limit fuel (Some (ident (last (take limit todo)))) = Some (drop limit todo)"
      using Suc.prems assms(2) True by (intro Suc.IH [of "done_rows @ take limit todo"]) auto
    then show ?thesis using True ne assms(2)
      by (simp add: fetched build_page_def Let_def min_def)
  next
    case False
    then show ?thesis by (simp add: fetched build_page_def Let_def)
  qed
qed simp

text \<open>Whatever page size a request asks for, it is at least one and at most the maximum, and a client that
  follows \<open>last_id\<close> while \<open>has_more\<close> is set sees every row exactly once, in the order of the list.\<close>

theorem walk_sees_every_row:
  assumes limits: "1 \<le> default_limit limits" "default_limit limits \<le> max_limit limits"
    and fetch: "keyset ident rows fetch"
    and limit: "limit = nat (pp_limit (parse_page_params query limits))"
  shows "1 \<le> limit \<and> int limit \<le> max_limit limits
     \<and> walk_pages ident fetch limit (length rows + 1) None = Some rows"
proof -
  have "1 \<le> limit" using page_limit_range [OF limits, of query] limit by linarith
  moreover from this have "walk_pages ident fetch limit (length rows + 1) None = Some rows"
    by (rule walk_from [OF fetch, where done_rows = "[]"]) simp_all
  moreover have "int limit \<le> max_limit limits" using page_limit_range [OF limits, of query] limit by linarith
  ultimately show ?thesis by blast
qed

definition rows_after :: "string list \<Rightarrow> string option \<Rightarrow> nat \<Rightarrow> string list" where
  "rows_after rows cursor n =
     take n (case cursor of None \<Rightarrow> rows | Some c \<Rightarrow> tl (dropWhile (\<lambda>r. r \<noteq> c) rows))"

theorem walk_sees_every_row_witness:
  "walk_pages (\<lambda>r. r) (rows_after [''a'', ''b'', ''c'']) 2 4 None = Some [''a'', ''b'', ''c'']"
proof -
  have l: "1 \<le> default_limit DEFAULT_PAGE_LIMITS" "default_limit DEFAULT_PAGE_LIMITS \<le> max_limit DEFAULT_PAGE_LIMITS"
    by (simp_all add: DEFAULT_PAGE_LIMITS_def)
  have k: "keyset (\<lambda>r. r) [''a'', ''b'', ''c''] (rows_after [''a'', ''b'', ''c''])"
    unfolding keyset_def rows_after_def by (auto simp: Cons_eq_append_conv)
  have "2 = nat (pp_limit (parse_page_params (JObj [(''limit'', JStr ''2.9'')]) DEFAULT_PAGE_LIMITS))" by code_simp
  from walk_sees_every_row [OF l k this] have "walk_pages (\<lambda>r. r) (rows_after [''a'', ''b'', ''c'']) 2 (length [''a'', ''b'', ''c''] + 1) None = Some [''a'', ''b'', ''c'']"
    by blast
  moreover have "length [''a'', ''b'', ''c''] + 1 = 4" by simp
  ultimately show ?thesis by metis
qed

end
