(* ===== verification/Filter_Compiler.thy ===== *)
theory Filter_Compiler
  imports Prelude
begin

text \<open>
  The compiler of attribute filters to SQL fragments (\<open>fileSearch/filterCompiler.ts\<close>).

  A filter node is a \<open>js\<close> value; reading an own property of an object is \<open>jget\<close>. The mutable compile state
  (parameters, next placeholder, number of leaves) is passed along, and an exception is the left injection
  with the message of the source. The recursion on the depth of the filter is on the number of levels that
  are left, \<open>MAX_FILTER_DEPTH - depth + 1\<close>. \<open>JSON.stringify\<close> is the parameter \<open>stringify\<close>. Placeholders are
  natural numbers, so the guard against unsafe start indexes is the one against zero.
\<close>

section \<open>Limits and operators\<close>

definition MAX_FILTER_DEPTH :: nat where
  "MAX_FILTER_DEPTH = 10"

definition MAX_IN_ARRAY_LENGTH :: nat where
  "MAX_IN_ARRAY_LENGTH = 10000"

definition MAX_TOTAL_LEAVES :: nat where
  "MAX_TOTAL_LEAVES = 512"

definition COMPARISON_OPERATORS :: "(string \<times> string) list" where
  "COMPARISON_OPERATORS =
     [(''eq'', ''=''), (''ne'', ''<>''), (''gt'', ''>''), (''gte'', ''>=''), (''lt'', ''<''), (''lte'', ''<='')]"

definition ORDINAL_OPERATORS :: "string list" where
  "ORDINAL_OPERATORS = [''gt'', ''gte'', ''lt'', ''lte'']"

definition COMPOUND_OPERATORS :: "string list" where
  "COMPOUND_OPERATORS = [''and'', ''or'']"

definition INCLUSION_OPERATORS :: "string list" where
  "INCLUSION_OPERATORS = [''in'', ''nin'']"

definition MEMBERSHIP_OPERATORS :: "string list" where
  "MEMBERSHIP_OPERATORS = [''contains'', ''ncontains'', ''containsany'', ''ncontainsany'']"

definition MEMBERSHIP_MULTI :: "string list" where
  "MEMBERSHIP_MULTI = [''containsany'', ''ncontainsany'']"

definition MEMBERSHIP_NEGATED :: "string list" where
  "MEMBERSHIP_NEGATED = [''ncontains'', ''ncontainsany'']"

definition UNSUPPORTED_TYPE_MESSAGE :: string where
  "UNSUPPORTED_TYPE_MESSAGE =
     ''Filter \"type\" must be one of: '' @
     join '', '' (COMPOUND_OPERATORS @ map fst COMPARISON_OPERATORS @ INCLUSION_OPERATORS @ MEMBERSHIP_OPERATORS)"

definition placeholder :: "nat \<Rightarrow> string" where
  "placeholder i = ''$'' @ show_nat i"

definition MISSING_KEY_ARM :: "nat \<Rightarrow> string" where
  "MISSING_KEY_ARM i = ''(vsf.attributes ? '' @ placeholder i @ '') IS NOT TRUE''"

section \<open>State and checks\<close>

record compile_state =
  cs_params :: "js list"
  cs_index :: nat
  cs_leaves :: nat

record compile_result =
  cr_sql :: string
  cr_params :: "js list"
  cr_next_index :: nat

text \<open>\<open>const i = state.index++\<close> for the values of one fragment, and the push of the values.\<close>

definition bind_params :: "js list \<Rightarrow> compile_state \<Rightarrow> compile_state" where
  "bind_params vs st = st\<lparr> cs_params := cs_params st @ vs, cs_index := cs_index st + length vs \<rparr>"

definition is_scalar :: "js \<Rightarrow> bool" where
  "is_scalar v = (case v of JStr _ \<Rightarrow> True | JNum _ \<Rightarrow> True | JBool _ \<Rightarrow> True | _ \<Rightarrow> False)"

definition has_nul_byte :: "string \<Rightarrow> bool" where
  "has_nul_byte s = (CHR 0x00 \<in> set s)"

definition nul_message :: "string \<Rightarrow> string" where
  "nul_message label = ''Filter \"'' @ label @ ''\" must not contain a NUL byte''"

definition read_key :: "js \<Rightarrow> string + string" where
  "read_key node =
     (case jget node ''key'' of
        JStr k \<Rightarrow>
          if k = [] then Inl ''Filter \"key\" must be a non-empty string''
          else if has_nul_byte k then Inl (nul_message ''key'')
          else Inr k
      | _ \<Rightarrow> Inl ''Filter \"key\" must be a non-empty string'')"

definition count_leaf :: "compile_state \<Rightarrow> string + compile_state" where
  "count_leaf st =
     (if MAX_TOTAL_LEAVES < cs_leaves st + 1
      then Inl (''Filter has too many leaf conditions (max '' @ show_nat MAX_TOTAL_LEAVES @ '')'')
      else Inr (st\<lparr> cs_leaves := cs_leaves st + 1 \<rparr>))"

text \<open>An assertion is the error it throws, when it does.\<close>

definition assert_scalar_value :: "js \<Rightarrow> string option" where
  "assert_scalar_value v =
     (if \<not> is_scalar v then Some ''Filter \"value\" must be a string, number, or boolean''
      else case v of JStr s \<Rightarrow> if has_nul_byte s then Some (nul_message ''value'') else None | _ \<Rightarrow> None)"

definition scalar_type_name :: "js \<Rightarrow> string" where
  "scalar_type_name v = (case v of JStr _ \<Rightarrow> ''string'' | JBool _ \<Rightarrow> ''boolean'' | _ \<Rightarrow> ''number'')"

definition assert_ordinal_value :: "js \<Rightarrow> string \<Rightarrow> string option" where
  "assert_ordinal_value v ty =
     (case v of
        JNum _ \<Rightarrow> None
      | _ \<Rightarrow> Some (''Filter \"value\" for the ordinal operator \"'' @ ty @ ''\" must be a finite number, got a '' @
                   scalar_type_name v))"

section \<open>Leaves\<close>

definition ordinal_sql :: "nat \<Rightarrow> string \<Rightarrow> string" where
  "ordinal_sql i op =
     ''(CASE WHEN jsonb_typeof(vsf.attributes->'' @ placeholder i @ '') = '' @ [CHR 0x27] @ ''number'' @ [CHR 0x27] @
     '' THEN (vsf.attributes->>'' @ placeholder (i + 1) @ '')::numeric END) '' @ op @ '' '' @ placeholder (i + 2)"

definition ne_sql :: "nat \<Rightarrow> string \<Rightarrow> string" where
  "ne_sql i op =
     ''('' @ MISSING_KEY_ARM i @ '' OR (vsf.attributes->>'' @ placeholder (i + 1) @ '') '' @ op @ '' '' @
     placeholder (i + 2) @ '')''"

definition eq_sql :: "nat \<Rightarrow> string \<Rightarrow> string" where
  "eq_sql i op = ''(vsf.attributes->>'' @ placeholder i @ '') '' @ op @ '' '' @ placeholder (i + 1)"

definition compile_comparison :: "js \<Rightarrow> string \<Rightarrow> compile_state \<Rightarrow> string + string \<times> compile_state" where
  "compile_comparison node ty st0 =
     (case count_leaf st0 of
        Inl e \<Rightarrow> Inl e
      | Inr st \<Rightarrow>
          (case read_key node of
             Inl e \<Rightarrow> Inl e
           | Inr key \<Rightarrow>
               let v = jget node ''value'' in
               (case assert_scalar_value v of
                  Some e \<Rightarrow> Inl e
                | None \<Rightarrow>
                    (case map_of COMPARISON_OPERATORS ty of
                       None \<Rightarrow> Inl UNSUPPORTED_TYPE_MESSAGE
                     | Some op \<Rightarrow>
                         if ty \<in> set ORDINAL_OPERATORS then
                           (case assert_ordinal_value v ty of
                              Some e \<Rightarrow> Inl e
                            | None \<Rightarrow> Inr (ordinal_sql (cs_index st) op, bind_params [JStr key, JStr key, v] st))
                         else if ty = ''ne'' then Inr (ne_sql (cs_index st) op, bind_params [JStr key, JStr key, v] st)
                         else Inr (eq_sql (cs_index st) op, bind_params [JStr key, v] st)))))"

text \<open>The checks on an array of values, with the operators named as the message names them.\<close>

definition check_array :: "string \<Rightarrow> js \<Rightarrow> string + js list" where
  "check_array name v =
     (case v of
        JArr vs \<Rightarrow>
          if vs = [] then Inl (''Filter \"value\" for '' @ name @ '' must be a non-empty array'')
          else if MAX_IN_ARRAY_LENGTH < length vs
          then Inl (''Filter \"value\" for '' @ name @ '' must not exceed '' @ show_nat MAX_IN_ARRAY_LENGTH @ '' entries'')
          else (case collect_some assert_scalar_value vs of [] \<Rightarrow> Inr vs | e # _ \<Rightarrow> Inl e)
      | _ \<Rightarrow> Inl (''Filter \"value\" for '' @ name @ '' must be an array''))"

definition member_test :: "nat \<Rightarrow> nat \<Rightarrow> string" where
  "member_test k i = ''(vsf.attributes->'' @ placeholder k @ '') @> '' @ placeholder i @ ''::jsonb''"

definition membership_sql :: "nat \<Rightarrow> nat \<Rightarrow> bool \<Rightarrow> string" where
  "membership_sql k n negated =
     (let positive = ''(jsonb_typeof(vsf.attributes->'' @ placeholder k @ '') = '' @ [CHR 0x27] @ ''array'' @ [CHR 0x27] @
            '' AND ('' @ join '' OR '' (map (member_test k) [k + 1..<k + 1 + n]) @ ''))''
      in if negated then ''(('' @ positive @ '') IS NOT TRUE)'' else positive)"

definition compile_membership ::
  "(js \<Rightarrow> string) \<Rightarrow> js \<Rightarrow> string \<Rightarrow> compile_state \<Rightarrow> string + string \<times> compile_state" where
  "compile_membership stringify node ty st0 =
     (case count_leaf st0 of
        Inl e \<Rightarrow> Inl e
      | Inr st \<Rightarrow>
          (case read_key node of
             Inl e \<Rightarrow> Inl e
           | Inr key \<Rightarrow>
               let v = jget node ''value'' in
               (case (if ty \<in> set MEMBERSHIP_MULTI then check_array ty v
                      else case assert_scalar_value v of Some e \<Rightarrow> Inl e | None \<Rightarrow> Inr [v]) of
                  Inl e \<Rightarrow> Inl e
                | Inr elements \<Rightarrow>
                    Inr (membership_sql (cs_index st) (length elements) (ty \<in> set MEMBERSHIP_NEGATED),
                         bind_params (JStr key # map (\<lambda>el. JStr (stringify el)) elements) st))))"

definition nin_sql :: "nat \<Rightarrow> string" where
  "nin_sql i =
     ''('' @ MISSING_KEY_ARM i @ '' OR NOT ((vsf.attributes->>'' @ placeholder (i + 1) @ '') = ANY('' @
     placeholder (i + 2) @ '')))''"

definition in_sql :: "nat \<Rightarrow> string" where
  "in_sql i = ''(vsf.attributes->>'' @ placeholder i @ '') = ANY('' @ placeholder (i + 1) @ '')''"

definition compile_inclusion :: "js \<Rightarrow> string \<Rightarrow> compile_state \<Rightarrow> string + string \<times> compile_state" where
  "compile_inclusion node ty st0 =
     (case count_leaf st0 of
        Inl e \<Rightarrow> Inl e
      | Inr st \<Rightarrow>
          (case read_key node of
             Inl e \<Rightarrow> Inl e
           | Inr key \<Rightarrow>
               (case check_array ''in/nin'' (jget node ''value'') of
                  Inl e \<Rightarrow> Inl e
                | Inr vs \<Rightarrow>
                    if ty = ''nin'' then Inr (nin_sql (cs_index st), bind_params [JStr key, JStr key, JArr vs] st)
                    else Inr (in_sql (cs_index st), bind_params [JStr key, JArr vs] st))))"

section \<open>Nodes\<close>

text \<open>\<open>filters.map(child => f(child, state))\<close>, left at the first exception.\<close>

fun compile_each ::
  "(js \<Rightarrow> compile_state \<Rightarrow> string + string \<times> compile_state) \<Rightarrow> js list \<Rightarrow> compile_state
     \<Rightarrow> string + string list \<times> compile_state" where
  "compile_each f [] st = Inr ([], st)"
| "compile_each f (x # xs) st =
     (case f x st of
        Inl e \<Rightarrow> Inl e
      | Inr (sql, st') \<Rightarrow>
          (case compile_each f xs st' of Inl e \<Rightarrow> Inl e | Inr (sqls, st'') \<Rightarrow> Inr (sql # sqls, st'')))"

definition compound_sql :: "string \<Rightarrow> string list \<Rightarrow> string" where
  "compound_sql ty parts = ''('' @ join (if ty = ''and'' then '' AND '' else '' OR '') parts @ '')''"

definition compile_compound ::
  "(js \<Rightarrow> compile_state \<Rightarrow> string + string \<times> compile_state) \<Rightarrow> js \<Rightarrow> string \<Rightarrow> compile_state
     \<Rightarrow> string + string \<times> compile_state" where
  "compile_compound f node ty st =
     (case jget node ''filters'' of
        JArr (x # xs) \<Rightarrow>
          (case compile_each f (x # xs) st of Inl e \<Rightarrow> Inl e | Inr (parts, st') \<Rightarrow> Inr (compound_sql ty parts, st'))
      | _ \<Rightarrow> Inl (''Filter \"filters\" for \"'' @ ty @ ''\" must be a non-empty array''))"

fun compile_node ::
  "(js \<Rightarrow> string) \<Rightarrow> nat \<Rightarrow> js \<Rightarrow> compile_state \<Rightarrow> string + string \<times> compile_state" where
  "compile_node stringify 0 node st =
     Inl (''Filter nesting exceeds the maximum supported depth of '' @ show_nat MAX_FILTER_DEPTH)"
| "compile_node stringify (Suc levels) node st =
     (if \<not> is_obj node then Inl ''Filter node must be a plain object''
      else case jget node ''type'' of
             JStr ty \<Rightarrow>
               if ty \<in> set COMPOUND_OPERATORS then compile_compound (compile_node stringify levels) node ty st
               else if map_of COMPARISON_OPERATORS ty \<noteq> None then compile_comparison node ty st
               else if ty \<in> set INCLUSION_OPERATORS then compile_inclusion node ty st
               else if ty \<in> set MEMBERSHIP_OPERATORS then compile_membership stringify node ty st
               else Inl UNSUPPORTED_TYPE_MESSAGE
           | _ \<Rightarrow> Inl ''Filter node must have a string \"type\"'')"

definition compile_filter :: "(js \<Rightarrow> string) \<Rightarrow> js \<Rightarrow> nat \<Rightarrow> string + compile_result" where
  "compile_filter stringify filt start_index =
     (if start_index < 1 then Inl ''compileFilter: startIndex must be a positive safe integer''
      else case compile_node stringify MAX_FILTER_DEPTH filt
                  \<lparr> cs_params = [], cs_index = start_index, cs_leaves = 0 \<rparr> of
             Inl e \<Rightarrow> Inl e
           | Inr (sql, st) \<Rightarrow>
               Inr \<lparr> cr_sql = sql, cr_params = cs_params st, cr_next_index = cs_index st \<rparr>)"

section \<open>The shape of a filter\<close>

text \<open>What is left of a filter without its keys and its values: the operators, the nesting, and the number of
  values a membership operator tests.\<close>

datatype shape =
    Compound string "shape list"
  | Leaf string nat

fun shape_of :: "nat \<Rightarrow> js \<Rightarrow> shape" where
  "shape_of 0 node = Leaf [] 0"
| "shape_of (Suc levels) node =
     (case jget node ''type'' of
        JStr ty \<Rightarrow>
          if ty \<in> set COMPOUND_OPERATORS
          then Compound ty (case jget node ''filters'' of JArr xs \<Rightarrow> map (shape_of levels) xs | _ \<Rightarrow> [])
          else Leaf ty (if ty \<in> set MEMBERSHIP_MULTI
                        then (case jget node ''value'' of JArr vs \<Rightarrow> length vs | _ \<Rightarrow> 1) else 1)
      | _ \<Rightarrow> Leaf [] 0)"

definition leaf_params :: "string \<Rightarrow> nat \<Rightarrow> nat" where
  "leaf_params ty n =
     (if ty \<in> set MEMBERSHIP_OPERATORS then 1 + n
      else if ty \<in> set ORDINAL_OPERATORS \<or> ty = ''ne'' \<or> ty = ''nin'' then 3 else 2)"

definition leaf_sql :: "nat \<Rightarrow> string \<Rightarrow> nat \<Rightarrow> string" where
  "leaf_sql i ty n =
     (case map_of COMPARISON_OPERATORS ty of
        Some op \<Rightarrow>
          if ty \<in> set ORDINAL_OPERATORS then ordinal_sql i op else if ty = ''ne'' then ne_sql i op else eq_sql i op
      | None \<Rightarrow>
          if ty = ''nin'' then nin_sql i else if ty = ''in'' then in_sql i
          else membership_sql i n (ty \<in> set MEMBERSHIP_NEGATED))"

fun shape_params :: "shape \<Rightarrow> nat" and shapes_params :: "shape list \<Rightarrow> nat" where
  "shape_params (Leaf ty n) = leaf_params ty n"
| "shape_params (Compound ty ss) = shapes_params ss"
| "shapes_params [] = 0"
| "shapes_params (s # ss) = shape_params s + shapes_params ss"

fun shape_leaves :: "shape \<Rightarrow> nat" and shapes_leaves :: "shape list \<Rightarrow> nat" where
  "shape_leaves (Leaf ty n) = 1"
| "shape_leaves (Compound ty ss) = shapes_leaves ss"
| "shapes_leaves [] = 0"
| "shapes_leaves (s # ss) = shape_leaves s + shapes_leaves ss"

fun shape_sql :: "nat \<Rightarrow> shape \<Rightarrow> string" and shapes_sql :: "nat \<Rightarrow> shape list \<Rightarrow> string list" where
  "shape_sql i (Leaf ty n) = leaf_sql i ty n"
| "shape_sql i (Compound ty ss) = compound_sql ty (shapes_sql i ss)"
| "shapes_sql i [] = []"
| "shapes_sql i (s # ss) = shape_sql i s # shapes_sql (i + shape_params s) ss"

text \<open>A compiled node is the rendering of its shape, with as many parameters as placeholders.\<close>

definition renders :: "compile_state \<Rightarrow> string \<times> compile_state \<Rightarrow> shape \<Rightarrow> bool" where
  "renders st r sh =
     (fst r = shape_sql (cs_index st) sh
      \<and> cs_index (snd r) = cs_index st + shape_params sh
      \<and> length (cs_params (snd r)) = length (cs_params st) + shape_params sh
      \<and> cs_leaves (snd r) = cs_leaves st + shape_leaves sh
      \<and> (cs_leaves st \<le> MAX_TOTAL_LEAVES \<longrightarrow> cs_leaves (snd r) \<le> MAX_TOTAL_LEAVES))"

lemma count_leaf_ok:
  "count_leaf st = Inr st' \<Longrightarrow> cs_params st' = cs_params st \<and> cs_index st' = cs_index st
     \<and> cs_leaves st' = cs_leaves st + 1 \<and> cs_leaves st' \<le> MAX_TOTAL_LEAVES"
  by (auto simp: count_leaf_def split: if_splits)

lemma bind_params_state [simp]:
  "cs_index (bind_params vs st) = cs_index st + length vs" "cs_leaves (bind_params vs st) = cs_leaves st"
  "length (cs_params (bind_params vs st)) = length (cs_params st) + length vs"
  by (simp_all add: bind_params_def)

lemmas operator_defs = COMPARISON_OPERATORS_def ORDINAL_OPERATORS_def COMPOUND_OPERATORS_def INCLUSION_OPERATORS_def
  MEMBERSHIP_OPERATORS_def MEMBERSHIP_MULTI_def MEMBERSHIP_NEGATED_def

lemma comparison_renders:
  assumes "compile_comparison node ty st = Inr r" "map_of COMPARISON_OPERATORS ty \<noteq> None"
  shows "renders st r (Leaf ty n)"
proof -
  have ty: "ty \<notin> set MEMBERSHIP_OPERATORS" "ty \<noteq> ''nin''" "ty = ''ne'' \<Longrightarrow> ty \<notin> set ORDINAL_OPERATORS"
    using assms(2) by (auto simp: operator_defs split: if_splits)
  obtain st1 key where parts: "count_leaf st = Inr st1" "read_key node = Inr key"
    using assms(1) unfolding compile_comparison_def by (auto split: sum.splits)
  obtain op where op: "map_of COMPARISON_OPERATORS ty = Some op" using assms(2) by auto
  let ?v = "jget node ''value''"
  have "r = (if ty \<in> set ORDINAL_OPERATORS then (ordinal_sql (cs_index st1) op, bind_params [JStr key, JStr key, ?v] st1)
        else if ty = ''ne'' then (ne_sql (cs_index st1) op, bind_params [JStr key, JStr key, ?v] st1)
        else (eq_sql (cs_index st1) op, bind_params [JStr key, ?v] st1))"
    using assms(1) parts op unfolding compile_comparison_def Let_def by (auto split: option.splits if_splits)
  then show ?thesis
    using count_leaf_ok [OF parts(1)] ty op by (auto simp: renders_def leaf_sql_def leaf_params_def)
qed

lemma inclusion_renders:
  assumes "compile_inclusion node ty st = Inr r" "ty \<in> set INCLUSION_OPERATORS"
  shows "renders st r (Leaf ty n)"
  using assms
  by (auto simp: compile_inclusion_def renders_def leaf_sql_def leaf_params_def operator_defs
      split: sum.splits if_splits dest!: count_leaf_ok)

lemma check_array_ok: "check_array name v = Inr vs \<Longrightarrow> v = JArr vs"
  by (auto simp: check_array_def split: js.splits if_splits list.splits)

lemma membership_renders:
  assumes "compile_membership f node ty st = Inr r" "ty \<in> set MEMBERSHIP_OPERATORS"
  shows "renders st r (Leaf ty (if ty \<in> set MEMBERSHIP_MULTI
           then (case jget node ''value'' of JArr vs \<Rightarrow> length vs | _ \<Rightarrow> 1) else 1))"
proof -
  have ty: "map_of COMPARISON_OPERATORS ty = None" "ty \<noteq> ''nin''" "ty \<noteq> ''in''"
    using assms(2) by (auto simp: operator_defs)
  obtain st1 key els where parts: "count_leaf st = Inr st1"
      "(if ty \<in> set MEMBERSHIP_MULTI then check_array ty (jget node ''value'')
        else case assert_scalar_value (jget node ''value'') of Some e \<Rightarrow> Inl e | None \<Rightarrow> Inr [jget node ''value'']) = Inr els"
      "r = (membership_sql (cs_index st1) (length els) (ty \<in> set MEMBERSHIP_NEGATED),
            bind_params (JStr key # map (\<lambda>el. JStr (f el)) els) st1)"
    using assms(1) unfolding compile_membership_def Let_def by (auto split: sum.splits)
  have len: "(if ty \<in> set MEMBERSHIP_MULTI then (case jget node ''value'' of JArr vs \<Rightarrow> length vs | _ \<Rightarrow> 1) else 1) = length els"
    using parts(2) by (auto dest: check_array_ok split: if_splits option.splits)
  show ?thesis
    unfolding len using count_leaf_ok [OF parts(1)] ty assms(2)
    by (simp add: parts(3) renders_def leaf_sql_def leaf_params_def)
qed

lemma each_renders:
  assumes "\<And>x st r. x \<in> set xs \<Longrightarrow> f x st = Inr r \<Longrightarrow> renders st r (sh x)"
    and "compile_each f xs st = Inr (sqls, st')"
  shows "sqls = shapes_sql (cs_index st) (map sh xs)
     \<and> cs_index st' = cs_index st + shapes_params (map sh xs)
     \<and> length (cs_params st') = length (cs_params st) + shapes_params (map sh xs)
     \<and> cs_leaves st' = cs_leaves st + shapes_leaves (map sh xs)
     \<and> (cs_leaves st \<le> MAX_TOTAL_LEAVES \<longrightarrow> cs_leaves st' \<le> MAX_TOTAL_LEAVES)"
  using assms
proof (induction xs arbitrary: st sqls)
  case (Cons x xs)
  obtain sql st1 sqls1 where parts: "f x st = Inr (sql, st1)" "compile_each f xs st1 = Inr (sqls1, st')" "sqls = sql # sqls1"
    using Cons.prems(2) by (auto split: sum.splits)
  have "renders st (sql, st1) (sh x)" using Cons.prems(1) parts(1) by simp
  moreover note Cons.IH [OF Cons.prems(1) parts(2)]
  ultimately show ?case by (auto simp: renders_def parts(3))
qed simp

lemma node_renders: "compile_node f levels node st = Inr r \<Longrightarrow> renders st r (shape_of levels node)"
proof (induction levels arbitrary: node st r)
  case (Suc levels)
  obtain ty where ty: "jget node ''type'' = JStr ty"
    using Suc.prems by (auto split: if_splits js.splits)
  show ?case
  proof (cases "ty \<in> set COMPOUND_OPERATORS")
    case True
    then obtain x xs parts st' where parts: "jget node ''filters'' = JArr (x # xs)"
      "compile_each (compile_node f levels) (x # xs) st = Inr (parts, st')" "r = (compound_sql ty parts, st')"
      using Suc.prems ty by (auto simp: compile_compound_def split: if_splits js.splits list.splits sum.splits)
    from each_renders [where f = "compile_node f levels" and sh = "shape_of levels", OF Suc.IH parts(2)] show ?thesis
      using True by (auto simp: renders_def ty parts(1,3))
  next
    case False
    then show ?thesis
      using Suc.prems ty comparison_renders inclusion_renders [of node ty st r 1] membership_renders [of f node ty st r]
      by (auto simp: operator_defs split: if_splits)
  qed
qed simp

section \<open>Properties\<close>

lemma compile_filter_renders:
  assumes "compile_filter f filt start = Inr r"
  shows "cr_sql r = shape_sql start (shape_of MAX_FILTER_DEPTH filt)"
    and "cr_next_index r = start + length (cr_params r)"
    and "length (cr_params r) = shape_params (shape_of MAX_FILTER_DEPTH filt)"
    and "shape_leaves (shape_of MAX_FILTER_DEPTH filt) \<le> MAX_TOTAL_LEAVES"
proof -
  obtain sql st where c: "compile_node f MAX_FILTER_DEPTH filt \<lparr> cs_params = [], cs_index = start, cs_leaves = 0 \<rparr> = Inr (sql, st)"
    and r: "r = \<lparr> cr_sql = sql, cr_params = cs_params st, cr_next_index = cs_index st \<rparr>"
    using assms by (auto simp: compile_filter_def split: if_splits sum.splits)
  note n = node_renders [OF c]
  show "cr_sql r = shape_sql start (shape_of MAX_FILTER_DEPTH filt)"
    "cr_next_index r = start + length (cr_params r)"
    "length (cr_params r) = shape_params (shape_of MAX_FILTER_DEPTH filt)"
    "shape_leaves (shape_of MAX_FILTER_DEPTH filt) \<le> MAX_TOTAL_LEAVES"
    using n by (auto simp: renders_def r)
qed


definition leaf_filter :: "string \<Rightarrow> string \<Rightarrow> js \<Rightarrow> js" where
  "leaf_filter ty key v = JObj [(''type'', JStr ty), (''key'', JStr key), (''value'', v)]"

definition compound_filter :: "string \<Rightarrow> js list \<Rightarrow> js" where
  "compound_filter ty fs = JObj [(''type'', JStr ty), (''filters'', JArr fs)]"


text \<open>A membership leaf with many values compiles, with one parameter per value.\<close>

definition many_values :: "nat \<Rightarrow> js" where
  "many_values n = leaf_filter ''containsany'' ''tags'' (JArr (replicate n (JStr ''v'')))"

lemma check_array_replicate:
  "0 < n \<Longrightarrow> n \<le> MAX_IN_ARRAY_LENGTH \<Longrightarrow> check_array name (JArr (replicate n (JStr ''v''))) = Inr (replicate n (JStr ''v''))"
proof -
  have "collect_some assert_scalar_value (replicate n (JStr ''v'')) = []" for n
    by (induction n) (simp_all add: assert_scalar_value_def is_scalar_def has_nul_byte_def)
  then show "0 < n \<Longrightarrow> n \<le> MAX_IN_ARRAY_LENGTH \<Longrightarrow> ?thesis" by (simp add: check_array_def)
qed

lemma many_values_compile:
  assumes "0 < n" "n \<le> MAX_IN_ARRAY_LENGTH" "cs_leaves st < MAX_TOTAL_LEAVES"
  shows "\<exists>sql st'. compile_node f (Suc levels) (many_values n) st = Inr (sql, st')
     \<and> cs_leaves st' = cs_leaves st + 1 \<and> length (cs_params st') = length (cs_params st) + Suc n"
  using assms
  by (simp add: many_values_def leaf_filter_def operator_defs compile_membership_def count_leaf_def read_key_def
      has_nul_byte_def check_array_replicate)

lemma many_leaves_compile:
  assumes "0 < n" "n \<le> MAX_IN_ARRAY_LENGTH" "cs_leaves st + m \<le> MAX_TOTAL_LEAVES"
  shows "\<exists>sqls st'. compile_each (compile_node f (Suc levels)) (replicate m (many_values n)) st = Inr (sqls, st')
     \<and> length (cs_params st') = length (cs_params st) + m * Suc n"
  using assms(3)
proof (induction m arbitrary: st)
  case (Suc m)
  then have "cs_leaves st < MAX_TOTAL_LEAVES" by simp
  then obtain sql st1 where one: "compile_node f (Suc levels) (many_values n) st = Inr (sql, st1)"
    "cs_leaves st1 = cs_leaves st + 1" "length (cs_params st1) = length (cs_params st) + Suc n"
    using many_values_compile [OF assms(1,2), of st f levels] by (auto simp del: compile_node.simps)
  have "cs_leaves st1 + m \<le> MAX_TOTAL_LEAVES" using one(2) Suc.prems by simp
  from Suc.IH [OF this] obtain sqls st2
    where "compile_each (compile_node f (Suc levels)) (replicate m (many_values n)) st1 = Inr (sqls, st2)"
    "length (cs_params st2) = length (cs_params st1) + m * Suc n"
    by blast
  with one show ?case by (simp del: compile_node.simps)
qed simp

text \<open>The limit of 512 leaves does not bound the number of parameters: seven \<open>containsany\<close> leaves with the
  10,000 values each of them may have compile, and need more parameters than the 65,535 a statement of the
  database can carry.\<close>

theorem leaf_limit_leaves_parameters_unbounded:
  "\<exists>r. compile_filter stringify (compound_filter ''or'' (replicate 7 (many_values 10000))) 1 = Inr r
     \<and> 65535 < length (cr_params r)"
proof -
  define st0 where "st0 = \<lparr> cs_params = [] :: js list, cs_index = 1, cs_leaves = 0 \<rparr>"
  have lim: "(0::nat) < 10000" "(10000::nat) \<le> MAX_IN_ARRAY_LENGTH" "cs_leaves st0 + 7 \<le> MAX_TOTAL_LEAVES"
    by (simp_all add: MAX_IN_ARRAY_LENGTH_def MAX_TOTAL_LEAVES_def st0_def)
  obtain sqls st where c: "compile_each (compile_node stringify (Suc 8)) (replicate 7 (many_values 10000)) st0 = Inr (sqls, st)"
    "length (cs_params st) = length (cs_params st0) + 7 * Suc 10000"
    using many_leaves_compile [OF lim] by blast
  have depth: "MAX_FILTER_DEPTH = Suc (Suc 8)" by (simp add: MAX_FILTER_DEPTH_def)
  obtain x xs where rep: "replicate 7 (many_values 10000) = x # xs" by (cases "replicate 7 (many_values 10000)") auto
  have "compile_node stringify MAX_FILTER_DEPTH (compound_filter ''or'' (replicate 7 (many_values 10000))) st0 =
      Inr (compound_sql ''or'' sqls, st)"
    unfolding depth compile_node.simps(2) [of _ "Suc 8"] compound_filter_def rep
    using c(1) by (simp add: operator_defs compile_compound_def rep del: compile_node.simps compile_each.simps)
  then show ?thesis
    using c(2) by (simp add: compile_filter_def st0_def)
qed

end
