(* ===== verification/Event_Stream.thy ===== *)
theory Event_Stream
  imports Prelude "HOL-Library.Word"
begin

unbundle bit_operations_syntax

text \<open>
  The binary event stream of AWS (\<open>utils/bedrockEventStream.ts\<close>, \<open>utils/eventStreamDecoder.ts\<close>): the CRC-32,
  the encoding of a message, the incremental decoder, and the translation of the events of a stream into
  frames.

  A byte is an \<open>8 word\<close>, the CRC a \<open>32 word\<close>. The conversions between texts and UTF-8 bytes are the parameters
  \<open>utf8\<close> and \<open>of_utf8\<close>. The decoder's buffer with a read offset is the list of the bytes from the offset on. A
  read past the end of the buffer is \<open>None\<close>; an exception is a left injection.
\<close>

type_synonym byte = "8 word"

section \<open>CRC-32\<close>

definition crc_step :: "32 word \<Rightarrow> 32 word" where
  "crc_step c = (if bit c 0 then 0xedb88320 XOR drop_bit 1 c else drop_bit 1 c)"

definition CRC_TABLE :: "32 word list" where
  "CRC_TABLE = map (\<lambda>n. (crc_step ^^ 8) (word_of_nat n)) [0..<256]"

definition crc_byte :: "32 word \<Rightarrow> byte \<Rightarrow> 32 word" where
  "crc_byte crc b = CRC_TABLE ! unat ((crc XOR ucast b) AND 0xff) XOR drop_bit 8 crc"

definition crc32 :: "byte list \<Rightarrow> 32 word" where
  "crc32 buf = foldl crc_byte 0xffffffff buf XOR 0xffffffff"

section \<open>Integers in a buffer\<close>

definition write_u16 :: "nat \<Rightarrow> byte list" where
  "write_u16 n = [word_of_nat (n div 256), word_of_nat n]"

definition write_u32 :: "nat \<Rightarrow> byte list" where
  "write_u32 n = [word_of_nat (n div 2 ^ 24), word_of_nat (n div 2 ^ 16), word_of_nat (n div 2 ^ 8), word_of_nat n]"

definition byte_at :: "byte list \<Rightarrow> nat \<Rightarrow> nat option" where
  "byte_at buf i = (if i < length buf then Some (unat (buf ! i)) else None)"

definition read_u16 :: "byte list \<Rightarrow> nat \<Rightarrow> nat option" where
  "read_u16 buf i =
     (case (byte_at buf i, byte_at buf (i + 1)) of (Some a, Some b) \<Rightarrow> Some (a * 256 + b) | _ \<Rightarrow> None)"

definition read_u32 :: "byte list \<Rightarrow> nat \<Rightarrow> nat" where
  "read_u32 buf i =
     unat (buf ! i) * 2 ^ 24 + unat (buf ! (i + 1)) * 2 ^ 16 + unat (buf ! (i + 2)) * 2 ^ 8 + unat (buf ! (i + 3))"

definition subarray :: "nat \<Rightarrow> nat \<Rightarrow> 'a list \<Rightarrow> 'a list" where
  "subarray i j xs = take (j - i) (drop i xs)"

section \<open>Encoding\<close>

text \<open>One header: the length of the name must fit a byte, that of the value two.\<close>

definition encode_header :: "(string \<Rightarrow> byte list) \<Rightarrow> string \<times> string \<Rightarrow> byte list option" where
  "encode_header utf8 h =
     (let name = utf8 (fst h); val = utf8 (snd h) in
      if 255 < length name \<or> 65535 < length val then None
      else Some (word_of_nat (length name) # name @ [7] @ write_u16 (length val) @ val))"

fun encode_headers :: "(string \<Rightarrow> byte list) \<Rightarrow> (string \<times> string) list \<Rightarrow> byte list option" where
  "encode_headers utf8 [] = Some []"
| "encode_headers utf8 (h # hs) =
     (case (encode_header utf8 h, encode_headers utf8 hs) of (Some a, Some b) \<Rightarrow> Some (a @ b) | _ \<Rightarrow> None)"

definition frame_bytes :: "byte list \<Rightarrow> byte list \<Rightarrow> byte list" where
  "frame_bytes header_buf payload =
     (let total = 12 + length header_buf + length payload + 4;
          lengths = write_u32 total @ write_u32 (length header_buf);
          body = lengths @ write_u32 (unat (crc32 lengths)) @ header_buf @ payload
      in body @ write_u32 (unat (crc32 body)))"

definition encode_event_stream_message ::
  "(string \<Rightarrow> byte list) \<Rightarrow> (string \<times> string) list \<Rightarrow> byte list \<Rightarrow> byte list option" where
  "encode_event_stream_message utf8 headers payload =
     map_option (\<lambda>hb. frame_bytes hb payload) (encode_headers utf8 headers)"

section \<open>Decoding\<close>

record event_stream_message =
  em_headers :: "(string \<times> string) list"
  em_payload :: "byte list"

datatype event_stream_error =
    Prelude_Crc_Mismatch
  | Invalid_Length
  | Message_Crc_Mismatch
  | Header_Not_String string nat
  | Header_Overrun string
  | Headers_Truncated

definition PRELUDE_LENGTH :: nat where
  "PRELUDE_LENGTH = 12"

definition TRAILER_LENGTH :: nat where
  "TRAILER_LENGTH = 4"

definition HEADER_TYPE_STRING :: nat where
  "HEADER_TYPE_STRING = 7"

definition MAX_MESSAGE_LENGTH :: nat where
  "MAX_MESSAGE_LENGTH = 16 * 1024 * 1024"

text \<open>The headers from position \<open>h\<close> to \<open>stop\<close>; names and values are read from the whole buffer.\<close>

function read_headers ::
  "(byte list \<Rightarrow> string) \<Rightarrow> byte list \<Rightarrow> nat \<Rightarrow> nat \<Rightarrow> (string \<times> string) list
     \<Rightarrow> event_stream_error + (string \<times> string) list" where
  "read_headers of_utf8 buf h stop acc =
     (if stop \<le> h then Inr acc
      else (case byte_at buf h of
              None \<Rightarrow> Inl Headers_Truncated
            | Some n \<Rightarrow>
                let name = of_utf8 (subarray (h + 1) (h + 1 + n) buf); k = h + 1 + n in
                (case byte_at buf k of
                   None \<Rightarrow> Inl Headers_Truncated
                 | Some ty \<Rightarrow>
                     if ty \<noteq> HEADER_TYPE_STRING then Inl (Header_Not_String name ty)
                     else (case read_u16 buf (k + 1) of
                             None \<Rightarrow> Inl Headers_Truncated
                           | Some m \<Rightarrow>
                               if stop < k + 3 + m then Inl (Header_Overrun name)
                               else read_headers of_utf8 buf (k + 3 + m) stop
                                      (AList.update name (of_utf8 (subarray (k + 3) (k + 3 + m) buf)) acc)))))"
  by pat_completeness auto

termination read_headers
  by (relation "measure (\<lambda>(_, _, h, stop, _). stop - h)") auto

declare read_headers.simps [simp del]

text \<open>The messages at the front of the buffer, and the bytes that are left.\<close>

function decode_loop ::
  "(byte list \<Rightarrow> string) \<Rightarrow> byte list \<Rightarrow> event_stream_error + event_stream_message list \<times> byte list" where
  "decode_loop of_utf8 buf =
     (if length buf < PRELUDE_LENGTH then Inr ([], buf)
      else let total = read_u32 buf 0; headers_length = read_u32 buf 4 in
        if unat (crc32 (subarray 0 8 buf)) \<noteq> read_u32 buf 8 then Inl Prelude_Crc_Mismatch
        else if total < PRELUDE_LENGTH + headers_length + TRAILER_LENGTH \<or> MAX_MESSAGE_LENGTH < total then Inl Invalid_Length
        else if length buf < total then Inr ([], buf)
        else if unat (crc32 (subarray 0 (total - TRAILER_LENGTH) buf)) \<noteq> read_u32 buf (total - TRAILER_LENGTH)
        then Inl Message_Crc_Mismatch
        else let headers_end = PRELUDE_LENGTH + headers_length in
          (case read_headers of_utf8 buf PRELUDE_LENGTH headers_end [] of
             Inl e \<Rightarrow> Inl e
           | Inr headers \<Rightarrow>
               (case decode_loop of_utf8 (drop total buf) of
                  Inl e \<Rightarrow> Inl e
                | Inr (ms, rest) \<Rightarrow>
                    Inr (\<lparr> em_headers = headers, em_payload = subarray headers_end (total - TRAILER_LENGTH) buf \<rparr> # ms, rest))))"
  by pat_completeness auto

termination decode_loop
  by (relation "measure (\<lambda>(_, buf). length buf)") (auto simp: PRELUDE_LENGTH_def)

declare decode_loop.simps [simp del]

text \<open>\<open>push\<close>: the messages the new bytes complete. After an exception the bytes stay in the buffer.\<close>

definition push :: "(byte list \<Rightarrow> string) \<Rightarrow> byte list \<Rightarrow> byte list \<Rightarrow> (event_stream_error + event_stream_message list) \<times> byte list" where
  "push of_utf8 chunk buffer =
     (case decode_loop of_utf8 (buffer @ chunk) of
        Inl e \<Rightarrow> (Inl e, buffer @ chunk)
      | Inr (ms, rest) \<Rightarrow> (Inr ms, rest))"

definition pending_bytes :: "byte list \<Rightarrow> nat" where
  "pending_bytes buffer = length buffer"

section \<open>The CRC table\<close>

text \<open>A step is linear over exclusive or, and eight steps on a value without low bits only shift it.\<close>

lemma crc_step_xor: "crc_step (a XOR b) = crc_step a XOR crc_step b"
  by (auto simp: crc_step_def bit_xor_iff xor.assoc xor.left_commute drop_bit_xor)

lemma crc_steps_xor: "(crc_step ^^ n) (a XOR b) = (crc_step ^^ n) a XOR (crc_step ^^ n) b"
  by (induction n) (simp_all add: crc_step_xor)

lemma crc_steps_high: "(\<forall>i < n. \<not> bit a i) \<Longrightarrow> (crc_step ^^ n) a = drop_bit n a"
proof (induction n)
  case (Suc n)
  then have n: "(crc_step ^^ n) a = drop_bit n a" "\<not> bit a n" by auto
  have "(crc_step ^^ Suc n) a = crc_step (drop_bit n a)" by (simp add: n(1))
  also have "\<dots> = drop_bit 1 (drop_bit n a)" using n(2) unfolding crc_step_def by (simp add: bit_drop_bit_eq)
  finally show ?case by simp
qed simp

lemma and_ff: "(x :: 32 word) AND 0xff = take_bit 8 x"
proof -
  have "(0xff :: 32 word) = mask 8" unfolding mask_eq_exp_minus_1 by simp
  then show ?thesis by (simp only: take_bit_eq_mask)
qed

lemma word_split_low: "(x :: 32 word) = take_bit 8 x XOR push_bit 8 (drop_bit 8 x)"
  by (rule bit_word_eqI) (auto simp: bit_xor_iff bit_take_bit_iff bit_push_bit_iff bit_drop_bit_eq)

lemma CRC_TABLE_low: "CRC_TABLE ! unat (take_bit 8 x) = (crc_step ^^ 8) (take_bit 8 (x :: 32 word))"
proof -
  have "unat (take_bit 8 x) = take_bit 8 (unat x)" by (simp add: unsigned_take_bit_eq)
  then have "unat (take_bit 8 x) < 256" by (simp add: take_bit_eq_mod)
  then show ?thesis by (simp add: CRC_TABLE_def)
qed

lemma drop_push_drop: "drop_bit 8 (push_bit 8 (drop_bit 8 x)) = drop_bit 8 (x :: 32 word)"
  by (rule bit_word_eqI) (auto simp: bit_drop_bit_eq bit_push_bit_iff dest: bit_imp_le_length)

text \<open>The table-driven update of the CRC by a byte is eight steps of the bitwise CRC.\<close>

lemma crc_byte_bitwise: "crc_byte crc b = (crc_step ^^ 8) (crc XOR ucast b)"
proof -
  let ?x = "crc XOR ucast b :: 32 word"
  have "drop_bit 8 (ucast b :: 32 word) = 0"
    by (rule bit_word_eqI) (auto simp: bit_drop_bit_eq bit_unsigned_iff dest: bit_imp_le_length)
  then have x: "drop_bit 8 ?x = drop_bit 8 crc" by (simp add: drop_bit_xor)
  have "(crc_step ^^ 8) (push_bit 8 (drop_bit 8 ?x)) = drop_bit 8 (push_bit 8 (drop_bit 8 ?x))"
    by (rule crc_steps_high) (auto simp: bit_push_bit_iff bit_xor_iff)
  also have "\<dots> = drop_bit 8 ?x"
    by (rule drop_push_drop)
  finally have "(crc_step ^^ 8) ?x = (crc_step ^^ 8) (take_bit 8 ?x) XOR drop_bit 8 crc"
    unfolding x by (metis crc_steps_xor word_split_low x)
  then show ?thesis by (simp only: crc_byte_def and_ff CRC_TABLE_low)
qed

section \<open>Integers written and read back\<close>

lemma unat_byte: "unat (word_of_nat n :: byte) = n mod 256"
  by (simp add: unsigned_of_nat take_bit_eq_mod)

lemma read_write_u16: "n < 2 ^ 16 \<Longrightarrow> read_u16 (pre @ write_u16 n @ post) (length pre) = Some n"
  by (simp add: read_u16_def write_u16_def byte_at_def nth_append unat_byte)

lemma digits_256:
  assumes "n < 2 ^ 32"
  shows "(n div 2 ^ 24) mod 256 * 2 ^ 24 + (n div 2 ^ 16) mod 256 * 2 ^ 16 + (n div 2 ^ 8) mod 256 * 2 ^ 8 + n mod 256 = (n :: nat)"
proof -
  define a where "a = n div 2 ^ 8"
  define b where "b = n div 2 ^ 16"
  define c where "c = n div 2 ^ 24"
  have ab: "a div 256 = b" "b div 256 = c" unfolding a_def b_def c_def by (simp_all flip: div_mult2_eq)
  have "c < 256" using assms unfolding c_def by (simp add: less_mult_imp_div_less)
  then have c: "c mod 256 = c" by simp
  have "n = a * 256 + n mod 256" using div_mult_mod_eq [of n 256] by (simp add: a_def)
  moreover have "a = b * 256 + a mod 256" using ab(1) by (metis div_mult_mod_eq)
  moreover have "b = c * 256 + b mod 256" using ab(2) by (metis div_mult_mod_eq)
  ultimately show ?thesis unfolding a_def [symmetric] b_def [symmetric] c_def [symmetric] c by simp
qed

lemma read_write_u32: "n < 2 ^ 32 \<Longrightarrow> read_u32 (pre @ write_u32 n @ post) (length pre) = n"
  using digits_256 [of n] by (simp add: read_u32_def write_u32_def nth_append unat_byte)

lemma read_u32_append: "i + 4 \<le> length a \<Longrightarrow> read_u32 (a @ b) i = read_u32 a i"
  by (simp add: read_u32_def nth_append)

lemma subarray_append: "j \<le> length a \<Longrightarrow> subarray i j (a @ b) = subarray i j a"
  by (simp add: subarray_def)

lemma byte_at_append: "byte_at a i = Some n \<Longrightarrow> byte_at (a @ b) i = Some n"
  by (auto simp: byte_at_def nth_append split: if_splits)

section \<open>What is decoded\<close>

lemma subarray_mid: "subarray (length a) (length a + length b) (a @ b @ c) = b"
  by (simp add: subarray_def)

lemma read_headers_encode:
  assumes utf: "\<And>t. of_utf8 (utf8 t) = t"
    and "encode_headers utf8 hs = Some hb" "stop = length pre + length hb"
  shows "read_headers of_utf8 (pre @ hb @ post) (length pre) stop acc =
     Inr (foldl (\<lambda>acc (name, v). AList.update name v acc) acc hs)"
  using assms(2,3)
proof (induction hs arbitrary: pre hb acc)
  case Nil
  then show ?case by (subst read_headers.simps) simp
next
  case (Cons h hs)
  obtain name val where h: "h = (name, val)" by (cases h)
  obtain eh hb' where e: "encode_header utf8 h = Some eh" "encode_headers utf8 hs = Some hb'" "hb = eh @ hb'"
    using Cons.prems(1) by (auto split: option.splits)
  let ?n = "utf8 name" and ?v = "utf8 val"
  have eh: "eh = word_of_nat (length ?n) # ?n @ [7] @ write_u16 (length ?v) @ ?v" "length ?n \<le> 255" "length ?v \<le> 65535"
    using e(1) by (auto simp: encode_header_def h Let_def split: if_splits)
  let ?buf = "pre @ hb @ post" and ?k = "length pre + 1 + length ?n"
  have len16: "length (write_u16 (length ?v)) = 2" by (simp add: write_u16_def)
  have 1: "byte_at ?buf (length pre) = Some (length ?n)"
    using eh(2) by (simp add: byte_at_def e(3) eh(1) nth_append unat_byte)
  have b2: "?buf = (pre @ [word_of_nat (length ?n)]) @ ?n @ ([7] @ write_u16 (length ?v) @ ?v @ hb' @ post)"
    by (simp add: e(3) eh(1))
  have 2: "subarray (length pre + 1) ?k ?buf = ?n"
    using subarray_mid [of "pre @ [word_of_nat (length ?n)]" ?n "[7] @ write_u16 (length ?v) @ ?v @ hb' @ post"]
    unfolding b2 [symmetric] by simp
  have b: "?buf = (pre @ [word_of_nat (length ?n)] @ ?n) @ [7] @ (write_u16 (length ?v) @ ?v @ hb' @ post)"
    by (simp add: e(3) eh(1))
  have 3: "byte_at ?buf ?k = Some HEADER_TYPE_STRING"
    unfolding b by (simp add: byte_at_def nth_append HEADER_TYPE_STRING_def)
  have b4: "?buf = (pre @ [word_of_nat (length ?n)] @ ?n @ [7]) @ write_u16 (length ?v) @ (?v @ hb' @ post)"
    by (simp add: e(3) eh(1))
  have 4: "read_u16 ?buf (?k + 1) = Some (length ?v)"
    using read_write_u16 [of "length ?v" "pre @ [word_of_nat (length ?n)] @ ?n @ [7]" "?v @ hb' @ post"] eh(3)
    unfolding b4 [symmetric] by simp
  have pre': "?buf = (pre @ eh) @ hb' @ post" "length (pre @ eh) = ?k + 3 + length ?v"
    by (simp_all add: e(3) eh(1) len16)
  have b5: "?buf = (pre @ [word_of_nat (length ?n)] @ ?n @ [7] @ write_u16 (length ?v)) @ ?v @ (hb' @ post)"
    by (simp add: e(3) eh(1))
  have l5: "length (pre @ [word_of_nat (length ?n)] @ ?n @ [7] @ write_u16 (length ?v)) = ?k + 3"
    by (simp add: len16)
  have 5: "subarray (?k + 3) (?k + 3 + length ?v) ?buf = ?v"
    using subarray_mid [of "pre @ [word_of_nat (length ?n)] @ ?n @ [7] @ write_u16 (length ?v)" ?v "hb' @ post"]
    unfolding b5 [symmetric] l5 .
  have stop: "stop = length (pre @ eh) + length hb'" using Cons.prems(2) by (simp add: e(3))
  have lt: "\<not> stop \<le> length pre" "\<not> stop < ?k + 3 + length ?v" using stop pre'(2) by simp_all
  have IH: "read_headers of_utf8 ?buf (?k + 3 + length ?v) stop (AList.update name val acc) =
      Inr (foldl (\<lambda>acc (name, v). AList.update name v acc) (AList.update name val acc) hs)"
    using Cons.IH [OF e(2) stop] unfolding pre'(1) pre'(2) by simp
  show ?case
    by (subst read_headers.simps) (simp only: if_False lt option.case 1 2 3 4 5 Let_def utf IH not_True_eq_False simp_thms
        foldl_Cons h prod.case)
qed

lemma update_absent: "k \<notin> fst ` set al \<Longrightarrow> AList.update k v al = al @ [(k, v)]"
  by (induction al) auto

lemma update_all_distinct:
  "distinct (map fst (acc @ hs)) \<Longrightarrow> foldl (\<lambda>acc (name, v). AList.update name v acc) acc hs = acc @ hs"
proof (induction hs arbitrary: acc)
  case (Cons h hs)
  have "AList.update (fst h) (snd h) acc = acc @ [h]"
    using Cons.prems by (cases h) (simp add: update_absent)
  then show ?case using Cons by (simp add: case_prod_unfold)
qed simp

section \<open>Whole messages\<close>

text \<open>A message the encoder accepts and the decoder's limit admits; the names of its headers are distinct, as
  those of an object are.\<close>

definition sendable :: "(string \<Rightarrow> byte list) \<Rightarrow> event_stream_message \<Rightarrow> bool" where
  "sendable utf8 m =
     (case encode_headers utf8 (em_headers m) of
        None \<Rightarrow> False
      | Some hb \<Rightarrow> distinct (map fst (em_headers m)) \<and> 16 + length hb + length (em_payload m) \<le> MAX_MESSAGE_LENGTH)"

definition message_bytes :: "(string \<Rightarrow> byte list) \<Rightarrow> event_stream_message \<Rightarrow> byte list" where
  "message_bytes utf8 m = the (encode_event_stream_message utf8 (em_headers m) (em_payload m))"

lemma write_u32_length [simp]: "length (write_u32 n) = 4"
  by (simp add: write_u32_def)

lemma crc_bound: "unat (crc32 buf) < 2 ^ 32"
  using unsigned_less [of "crc32 buf"] by simp

lemma decode_frame:
  assumes "read_headers of_utf8 (frame_bytes hb payload @ rest) 12 (12 + length hb) [] = Inr hs"
    and "16 + length hb + length payload \<le> MAX_MESSAGE_LENGTH"
  shows "decode_loop of_utf8 (frame_bytes hb payload @ rest) =
     (case decode_loop of_utf8 rest of
        Inl e \<Rightarrow> Inl e
      | Inr (ms, r) \<Rightarrow> Inr (\<lparr> em_headers = hs, em_payload = payload \<rparr> # ms, r))"
proof -
  let ?total = "16 + length hb + length payload"
  let ?lens = "write_u32 ?total @ write_u32 (length hb)"
  let ?body = "?lens @ write_u32 (unat (crc32 ?lens)) @ hb @ payload"
  let ?buf = "frame_bytes hb payload @ rest"
  have small: "?total < 2 ^ 32" "length hb < 2 ^ 32" using assms(2) by (simp_all add: MAX_MESSAGE_LENGTH_def)
  have f: "frame_bytes hb payload = ?body @ write_u32 (unat (crc32 ?body))"
    by (simp add: frame_bytes_def Let_def add.commute add.left_commute)
  have len: "length ?body = 12 + length hb + length payload" by simp
  have flen: "length (frame_bytes hb payload) = ?total" unfolding f length_append len by simp
  have 1: "read_u32 ?buf 0 = ?total"
    using read_write_u32 [OF small(1), of "[]"] by (simp add: f)
  have 2: "read_u32 ?buf 4 = length hb"
    using read_write_u32 [OF small(2), of "write_u32 ?total"] by (simp add: f)
  have 3: "read_u32 ?buf 8 = unat (crc32 ?lens)"
    using read_write_u32 [OF crc_bound, of ?lens] by (simp add: f)
  have 4: "subarray 0 8 ?buf = ?lens" by (simp add: subarray_def f)
  let ?stop = "12 + length hb + length payload"
  have stop: "?total - 4 = ?stop" by simp
  have 5: "read_u32 ?buf ?stop = unat (crc32 ?body)"
    using read_write_u32 [OF crc_bound, of ?body ?body rest] unfolding len f by simp
  have 6: "subarray 0 ?stop ?buf = ?body"
    using len by (simp add: subarray_def f)
  have 7: "subarray (12 + length hb) ?stop ?buf = payload" by (simp add: subarray_def f)
  have 8: "drop ?total ?buf = rest" using flen by simp
  have "\<not> length ?buf < 12" "\<not> length ?buf < ?total" using flen by simp_all
  then show ?thesis
    using assms
    by (subst decode_loop.simps)
      (simp only: Let_def PRELUDE_LENGTH_def TRAILER_LENGTH_def stop 1 2 3 4 5 6 7 8 if_False simp_thms sum.case not_less,
        simp split: sum.split)
qed

lemma decode_message:
  assumes utf: "\<And>t. of_utf8 (utf8 t) = t" and m: "sendable utf8 m"
  shows "decode_loop of_utf8 (message_bytes utf8 m @ rest) =
     (case decode_loop of_utf8 rest of Inl e \<Rightarrow> Inl e | Inr (ms, r) \<Rightarrow> Inr (m # ms, r))"
proof -
  obtain hb where hb: "encode_headers utf8 (em_headers m) = Some hb" and d: "distinct (map fst (em_headers m))"
    and le: "16 + length hb + length (em_payload m) \<le> MAX_MESSAGE_LENGTH"
    using m by (auto simp: sendable_def split: option.splits)
  let ?total = "16 + length hb + length (em_payload m)"
  let ?lens = "write_u32 ?total @ write_u32 (length hb)"
  let ?pre = "?lens @ write_u32 (unat (crc32 ?lens))"
  let ?post = "em_payload m @ write_u32 (unat (crc32 (?pre @ hb @ em_payload m))) @ rest"
  have buf: "frame_bytes hb (em_payload m) @ rest = ?pre @ hb @ ?post"
    by (simp add: frame_bytes_def Let_def add.commute add.left_commute)
  have "length ?pre = 12" by simp
  then have "read_headers of_utf8 (?pre @ hb @ ?post) 12 (12 + length hb) [] =
      Inr (foldl (\<lambda>acc (name, v). AList.update name v acc) [] (em_headers m))"
    using read_headers_encode [of of_utf8 utf8, OF utf hb, of "12 + length hb" ?pre ?post "[]"] by simp
  then have "read_headers of_utf8 (frame_bytes hb (em_payload m) @ rest) 12 (12 + length hb) [] = Inr (em_headers m)"
    unfolding buf using update_all_distinct [of "[]" "em_headers m"] d by simp
  moreover have "\<lparr> em_headers = em_headers m, em_payload = em_payload m \<rparr> = m" by simp
  ultimately show ?thesis
    using decode_frame [OF _ le, of of_utf8 rest "em_headers m"]
    unfolding message_bytes_def encode_event_stream_message_def hb option.map option.sel by metis
qed

lemma decode_messages:
  assumes "\<And>t. of_utf8 (utf8 t) = t" "list_all (sendable utf8) ms"
  shows "decode_loop of_utf8 (concat (map (message_bytes utf8) ms)) = Inr (ms, [])"
  using assms(2)
proof (induction ms)
  case Nil
  show ?case by (subst decode_loop.simps) (simp add: PRELUDE_LENGTH_def)
next
  case (Cons m ms)
  then show ?case using decode_message [OF assms(1), of m] by simp
qed

section \<open>Chunks\<close>

text \<open>Headers read from a longer buffer, when they end within the shorter one, are the same.\<close>

lemma read_u16_append: "read_u16 (a @ b) i = Some m \<Longrightarrow> i + 2 \<le> length a \<Longrightarrow> read_u16 a i = Some m"
  by (auto simp: read_u16_def byte_at_def nth_append split: if_splits)

lemma read_headers_prefix:
  assumes "read_headers of_utf8 (a @ b) h stop acc = Inr hs" "stop \<le> length a"
  shows "read_headers of_utf8 a h stop acc = Inr hs"
  using assms
proof (induction "of_utf8" "a @ b" h stop acc rule: read_headers.induct)
  case (1 of_utf8 h stop acc)
  show ?case
  proof (cases "stop \<le> h")
    case True
    with 1(2) show ?thesis by (subst (asm) read_headers.simps) (subst read_headers.simps, simp)
  next
    case False
    let ?ab = "a @ b"
    obtain n where n: "byte_at ?ab h = Some n"
      using 1(2) False by (subst (asm) read_headers.simps) (auto split: option.splits)
    let ?k = "h + 1 + n"
    let ?name = "of_utf8 (subarray (h + 1) ?k ?ab)"
    obtain m where m: "byte_at ?ab ?k = Some HEADER_TYPE_STRING" "read_u16 ?ab (?k + 1) = Some m" "?k + 3 + m \<le> stop"
      "read_headers of_utf8 ?ab (?k + 3 + m) stop (AList.update ?name (of_utf8 (subarray (?k + 3) (?k + 3 + m) ?ab)) acc) = Inr hs"
      using 1(2) False n by (subst (asm) read_headers.simps) (auto simp: Let_def split: option.splits if_splits)
    have le: "?k + 3 + m \<le> length a" using m(3) 1(3) by simp
    have "byte_at a h = Some n" "byte_at a ?k = Some HEADER_TYPE_STRING" "read_u16 a (?k + 1) = Some m"
      using n m(1) read_u16_append [OF m(2)] le by (auto simp: byte_at_def nth_append split: if_splits)
    moreover have "subarray (h + 1) ?k ?ab = subarray (h + 1) ?k a"
      "subarray (?k + 3) (?k + 3 + m) ?ab = subarray (?k + 3) (?k + 3 + m) a"
      using le by (simp_all add: subarray_append)
    moreover have "read_headers of_utf8 a (?k + 3 + m) stop
        (AList.update ?name (of_utf8 (subarray (?k + 3) (?k + 3 + m) ?ab)) acc) = Inr hs"
      using 1(1) [OF False n refl refl m(1) _ m(2) _ m(4) 1(3)] m(3) by simp
    ultimately show ?thesis
      using False m(3) by (subst read_headers.simps) (simp add: Let_def)
  qed
qed

text \<open>What a longer buffer decodes to is decoded in two steps.\<close>

lemma decode_split:
  assumes "decode_loop of_utf8 (a @ b) = Inr (ms, rest)"
  shows "\<exists>ms1 r ms2. decode_loop of_utf8 a = Inr (ms1, r) \<and> decode_loop of_utf8 (r @ b) = Inr (ms2, rest) \<and> ms = ms1 @ ms2"
  using assms
proof (induction of_utf8 a arbitrary: ms rule: decode_loop.induct)
  case (1 of_utf8 a)
  let ?total = "read_u32 a 0" and ?hl = "read_u32 a 4"
  show ?case
  proof (cases "length a < PRELUDE_LENGTH \<or> length a < ?total \<and> decode_loop of_utf8 a = Inr ([], a)")
    case True
    moreover have "decode_loop of_utf8 a = Inr ([], a)" if "length a < PRELUDE_LENGTH"
      using that by (subst decode_loop.simps) simp
    ultimately have "decode_loop of_utf8 a = Inr ([], a)" by blast
    with 1(2) show ?thesis by (intro exI [of _ "[]"] exI [of _ a] exI [of _ ms]) simp
  next
    case False
    then have l: "12 \<le> length a" by (simp add: PRELUDE_LENGTH_def)
    have same: "read_u32 (a @ b) 0 = ?total" "read_u32 (a @ b) 4 = ?hl" "read_u32 (a @ b) 8 = read_u32 a 8"
      "subarray 0 8 (a @ b) = subarray 0 8 a"
      using l by (simp_all add: read_u32_append subarray_append)
    have ok: "unat (crc32 (subarray 0 8 a)) = read_u32 a 8" "12 + ?hl + 4 \<le> ?total" "?total \<le> MAX_MESSAGE_LENGTH"
      using 1(2) l by (subst (asm) decode_loop.simps, auto simp: Let_def same PRELUDE_LENGTH_def TRAILER_LENGTH_def
          split: if_splits)+
    have complete: "?total \<le> length a"
    proof (rule ccontr)
      assume "\<not> ?total \<le> length a"
      then have "decode_loop of_utf8 a = Inr ([], a)"
        using l ok by (subst decode_loop.simps) (simp add: Let_def PRELUDE_LENGTH_def TRAILER_LENGTH_def)
      then show False using False \<open>\<not> ?total \<le> length a\<close> by simp
    qed
    have body: "read_u32 (a @ b) (?total - 4) = read_u32 a (?total - 4)"
      "subarray 0 (?total - 4) (a @ b) = subarray 0 (?total - 4) a"
      "subarray (12 + ?hl) (?total - 4) (a @ b) = subarray (12 + ?hl) (?total - 4) a"
      "drop ?total (a @ b) = drop ?total a @ b"
      using ok complete by (simp_all add: read_u32_append subarray_append)
    obtain hs ms' where hs: "read_headers of_utf8 (a @ b) 12 (12 + ?hl) [] = Inr hs"
      and ms': "decode_loop of_utf8 (drop ?total a @ b) = Inr (ms', rest)"
      and crc: "unat (crc32 (subarray 0 (?total - 4) a)) = read_u32 a (?total - 4)"
      and ms: "ms = \<lparr> em_headers = hs, em_payload = subarray (12 + ?hl) (?total - 4) a \<rparr> # ms'"
      using 1(2) l ok complete
      by (subst (asm) decode_loop.simps)
        (auto simp: Let_def same body PRELUDE_LENGTH_def TRAILER_LENGTH_def split: if_splits sum.splits)
    have hs': "read_headers of_utf8 a 12 (12 + ?hl) [] = Inr hs"
      using read_headers_prefix [OF hs] ok complete by simp
    obtain ms1 r ms2 where IH: "decode_loop of_utf8 (drop ?total a) = Inr (ms1, r)"
      "decode_loop of_utf8 (r @ b) = Inr (ms2, rest)" "ms' = ms1 @ ms2"
      using 1(1) [OF _ refl refl _ _ _ _ refl _ ms'] l ok complete crc hs'
      by (auto simp: PRELUDE_LENGTH_def TRAILER_LENGTH_def)
    have "decode_loop of_utf8 a = Inr (\<lparr> em_headers = hs, em_payload = subarray (12 + ?hl) (?total - 4) a \<rparr> # ms1, r)"
      using l ok complete crc hs' IH(1)
      by (subst decode_loop.simps) (simp add: Let_def PRELUDE_LENGTH_def TRAILER_LENGTH_def)
    with IH(2,3) ms show ?thesis by auto
  qed
qed

text \<open>A decoder that is pushed one chunk after another, until an exception.\<close>

fun push_all ::
  "(byte list \<Rightarrow> string) \<Rightarrow> byte list list \<Rightarrow> byte list \<Rightarrow> (event_stream_error + event_stream_message list) \<times> byte list" where
  "push_all of_utf8 [] buffer = (Inr [], buffer)"
| "push_all of_utf8 (c # cs) buffer =
     (case push of_utf8 c buffer of
        (Inl e, buffer') \<Rightarrow> (Inl e, buffer')
      | (Inr ms, buffer') \<Rightarrow>
          (case push_all of_utf8 cs buffer' of
             (Inl e, buffer'') \<Rightarrow> (Inl e, buffer'')
           | (Inr ms', buffer'') \<Rightarrow> (Inr (ms @ ms'), buffer'')))"

lemma decode_rest:
  assumes "decode_loop of_utf8 a = Inr (ms, r)"
  shows "decode_loop of_utf8 r = Inr ([], r)"
  using assms
proof (induction of_utf8 a arbitrary: ms rule: decode_loop.induct)
  case (1 of_utf8 a)
  let ?total = "read_u32 a 0" and ?hl = "read_u32 a 4"
  show ?case
  proof (cases "r = a")
    case True
    have "ms = []"
    proof (rule ccontr)
      assume "ms \<noteq> []"
      then have "\<exists>ms'. decode_loop of_utf8 (drop ?total a) = Inr (ms', a) \<and> 0 < ?total \<and> ?total \<le> length a"
        using 1(2) True by (subst (asm) decode_loop.simps)
          (auto simp: Let_def PRELUDE_LENGTH_def split: if_splits sum.splits)
      moreover have "length r' \<le> length b" if "decode_loop of_utf8 b = Inr (ns, r')" for b ns r'
        using that
      proof (induction of_utf8 b arbitrary: ns rule: decode_loop.induct)
        case (1 of_utf8 b)
        show ?case
          using 1(2) 1(1) by (subst (asm) decode_loop.simps)
            (fastforce simp: Let_def PRELUDE_LENGTH_def split: if_splits sum.splits)
      qed
      ultimately show False by fastforce
    qed
    with 1(2) True show ?thesis by simp
  next
    case False
    then show ?thesis
      using 1(2) by (subst (asm) decode_loop.simps)
        (auto simp: Let_def split: if_splits sum.splits intro: 1(1) [OF _ refl refl _ _ _ _ refl])
  qed
qed

lemma push_all_decodes:
  assumes "decode_loop of_utf8 buffer = Inr ([], buffer)" "decode_loop of_utf8 (buffer @ concat chunks) = Inr (ms, rest)"
  shows "push_all of_utf8 chunks buffer = (Inr ms, rest)"
  using assms
proof (induction chunks arbitrary: buffer ms)
  case (Cons c cs)
  have "decode_loop of_utf8 ((buffer @ c) @ concat cs) = Inr (ms, rest)" using Cons.prems(2) by simp
  from decode_split [OF this] obtain ms1 r ms2 where
    d: "decode_loop of_utf8 (buffer @ c) = Inr (ms1, r)" "decode_loop of_utf8 (r @ concat cs) = Inr (ms2, rest)" "ms = ms1 @ ms2"
    by blast
  then have "push_all of_utf8 cs r = (Inr ms2, rest)" using Cons.IH decode_rest by blast
  with d show ?case by (simp add: push_def)
qed simp

text \<open>C40. However the bytes of encoded messages are cut into chunks, the decoder returns exactly the messages, in
  order, with nothing pending at the end.\<close>

theorem event_stream_roundtrip:
  assumes utf: "\<And>t. of_utf8 (utf8 t) = t"
    and ms: "list_all (sendable utf8) ms"
    and chunks: "concat chunks = concat (map (message_bytes utf8) ms)"
  shows "push_all of_utf8 chunks [] = (Inr ms, [])"
proof -
  have "decode_loop of_utf8 [] = Inr ([], [])" by (subst decode_loop.simps) (simp add: PRELUDE_LENGTH_def)
  then show ?thesis
    using decode_messages [OF utf ms] chunks by (intro push_all_decodes) simp_all
qed

text \<open>Characters below 256 as their own bytes.\<close>

definition toy_utf8 :: "string \<Rightarrow> byte list" where
  "toy_utf8 = map (\<lambda>c. word_of_nat (of_char c))"

definition toy_of_utf8 :: "byte list \<Rightarrow> string" where
  "toy_of_utf8 = map (\<lambda>b. char_of (unat b))"

definition toy_message :: event_stream_message where
  "toy_message = \<lparr> em_headers = [('':event-type'', ''chunk'')], em_payload = [1, 2, 3] \<rparr>"

theorem event_stream_roundtrip_witness:
  "push_all toy_of_utf8 [take 5 (message_bytes toy_utf8 toy_message), drop 5 (message_bytes toy_utf8 toy_message)] [] =
     (Inr [toy_message], [])"
proof (rule event_stream_roundtrip)
  show "toy_of_utf8 (toy_utf8 t) = t" for t
    by (induction t) (simp_all add: toy_of_utf8_def toy_utf8_def unat_byte)
  show "list_all (sendable toy_utf8) [toy_message]"
    by (simp add: sendable_def toy_message_def encode_header_def toy_utf8_def write_u16_def MAX_MESSAGE_LENGTH_def)
qed simp

end
