(* ===== verification/Converse_Frames.thy ===== *)
theory Converse_Frames
  imports Event_Stream Js_Number
begin

text \<open>
  The translation of the events of a stream into the frames of the binary event stream
  (\<open>utils/bedrockEventStream.ts\<close>), and the parsing of single-quoted event data (\<open>utils/converseEventData.ts\<close>).
  The parser of server-sent events and the response object are not modelled: an event is its name and its data.

  \<open>JSON.parse\<close> is the parameter \<open>parse\<close> (\<open>None\<close> when it throws), \<open>JSON.stringify\<close> is \<open>stringify\<close> and base 64 is
  \<open>base64\<close>. Token counts are rationals; where the source reads \<open>x || 0\<close>, anything that is no number is zero. An
  escape of a character above 255 is outside the modelled strings and is refused.
\<close>

section \<open>Event data\<close>

definition simple_escape :: "char \<Rightarrow> char option" where
  "simple_escape c =
     map_of [(CHR 0x27, CHR 0x27), (CHR 0x22, CHR 0x22), (CHR 0x5C, CHR 0x5C), (CHR ''/'', CHR ''/''),
             (CHR ''n'', CHR 0x0A), (CHR ''r'', CHR 0x0D), (CHR ''t'', CHR 0x09), (CHR ''b'', CHR 0x08),
             (CHR ''f'', CHR 0x0C)] c"

text \<open>After an opening double quote: the text up to the closing one, and what follows it.\<close>

fun skip_double :: "string \<Rightarrow> (string \<times> string) option" where
  "skip_double [] = None"
| "skip_double (c # cs) =
     (if c = CHR 0x22 then Some ([c], cs)
      else if c = CHR 0x5C then
        (case cs of [] \<Rightarrow> None | d # ds \<Rightarrow> map_option (\<lambda>(a, rest). (c # d # a, rest)) (skip_double ds))
      else map_option (\<lambda>(a, rest). (c # a, rest)) (skip_double cs))"

definition hex_char :: "string \<Rightarrow> char option" where
  "hex_char hex =
     (case digits_value 16 hex 0 of Some n \<Rightarrow> if n < 256 then Some (char_of n) else None | None \<Rightarrow> None)"

text \<open>After an opening single quote: the value, and what follows the closing one.\<close>

fun read_single :: "string \<Rightarrow> (string \<times> string) option" where
  "read_single [] = None"
| "read_single (c # cs) =
     (if c = CHR 0x27 then Some ([], cs)
      else if c \<noteq> CHR 0x5C then map_option (\<lambda>(a, rest). (c # a, rest)) (read_single cs)
      else (case cs of
              [] \<Rightarrow> None
            | e # ds \<Rightarrow>
                if e = CHR ''u'' then
                  (case ds of
                     h1 # h2 # h3 # h4 # rest \<Rightarrow>
                       (case hex_char [h1, h2, h3, h4] of
                          None \<Rightarrow> None
                        | Some v \<Rightarrow> map_option (\<lambda>(a, rest). (v # a, rest)) (read_single rest))
                   | _ \<Rightarrow> None)
                else if e = CHR ''x'' then
                  (case ds of
                     h1 # h2 # rest \<Rightarrow>
                       (case hex_char [h1, h2] of
                          None \<Rightarrow> None
                        | Some v \<Rightarrow> map_option (\<lambda>(a, rest). (v # a, rest)) (read_single rest))
                   | _ \<Rightarrow> None)
                else (case simple_escape e of
                        None \<Rightarrow> None
                      | Some v \<Rightarrow> map_option (\<lambda>(a, rest). (v # a, rest)) (read_single ds))))"

lemma skip_double_shorter: "skip_double s = Some (a, rest) \<Longrightarrow> length rest < length s"
proof (induction s arbitrary: a rule: skip_double.induct)
  case (2 c cs)
  show ?case
  proof (cases "c = CHR 0x22 \<or> c \<noteq> CHR 0x5C")
    case True
    with 2 show ?thesis by (auto split: if_splits dest: less_SucI)
  next
    case False
    with 2(3) obtain d ds a' where "cs = d # ds" "skip_double ds = Some (a', rest)" by (auto split: list.splits)
    with 2(1) [of d ds a'] False show ?thesis by simp
  qed
qed simp

lemma read_single_shorter: "read_single s = Some (a, rest) \<Longrightarrow> length rest < length s"
proof (induction s arbitrary: a rule: length_induct)
  case (1 s)
  have later: "length rest < length s" if "read_single t = Some (a', rest)" "length t < length s" for t a'
    using 1(1) that less_trans by blast
  show ?case
  proof (cases s)
    case (Cons c cs)
    have "(c = CHR 0x27 \<and> rest = cs) \<or> (\<exists>t a'. read_single t = Some (a', rest) \<and> length t < length s)"
      using 1(2) Cons by (simp split: if_splits list.splits option.splits) (auto simp: Suc_lessD)
    then show ?thesis using later Cons by auto
  qed (use 1(2) in simp)
qed

function single_quoted_to_json :: "(js \<Rightarrow> string) \<Rightarrow> string \<Rightarrow> string option" where
  "single_quoted_to_json stringify s =
     (case s of
        [] \<Rightarrow> Some []
      | c # cs \<Rightarrow>
          if c = CHR 0x22 then
            (case skip_double cs of
               None \<Rightarrow> None
             | Some (a, rest) \<Rightarrow> map_option (\<lambda>t. c # a @ t) (single_quoted_to_json stringify rest))
          else if c = CHR 0x27 then
            (case read_single cs of
               None \<Rightarrow> None
             | Some (v, rest) \<Rightarrow> map_option (\<lambda>t. stringify (JStr v) @ t) (single_quoted_to_json stringify rest))
          else map_option (\<lambda>t. c # t) (single_quoted_to_json stringify cs))"
  by pat_completeness auto

termination single_quoted_to_json
  by (relation "measure (\<lambda>(_, s). length s)") (auto dest: skip_double_shorter read_single_shorter)

declare single_quoted_to_json.simps [simp del]

definition parse_converse_event_data :: "(string \<Rightarrow> js option) \<Rightarrow> (js \<Rightarrow> string) \<Rightarrow> string \<Rightarrow> js option" where
  "parse_converse_event_data parse stringify t =
     (case parse t of Some v \<Rightarrow> Some v | None \<Rightarrow> Option.bind (single_quoted_to_json stringify t) parse)"

section \<open>Frames\<close>

text \<open>The headers and the JSON payload of a frame.\<close>

type_synonym message_frame = "(string \<times> string) list \<times> js"

definition event_frame :: "string \<Rightarrow> js \<Rightarrow> message_frame" where
  "event_frame event_type payload =
     ([('':event-type'', event_type), ('':content-type'', ''application/json''), ('':message-type'', ''event'')], payload)"

definition exception_frame :: "string \<Rightarrow> js \<Rightarrow> message_frame" where
  "exception_frame exception_type message =
     ([('':message-type'', ''exception''), ('':exception-type'', exception_type), ('':content-type'', ''application/json'')],
      JObj [(''message'', message)])"

definition frame_message :: "(string \<Rightarrow> byte list) \<Rightarrow> (js \<Rightarrow> string) \<Rightarrow> message_frame \<Rightarrow> event_stream_message" where
  "frame_message utf8 stringify f = \<lparr> em_headers = fst f, em_payload = utf8 (stringify (snd f)) \<rparr>"

definition exception_type_of :: "js \<Rightarrow> js \<Rightarrow> string" where
  "exception_type_of error_type code =
     (case map_of
         [(JStr ''rate_limit_error'', ''throttlingException''), (JStr ''invalid_request_error'', ''validationException''),
          (JStr ''authentication_error'', ''accessDeniedException''), (JStr ''permission_error'', ''accessDeniedException''),
          (JStr ''not_found_error'', ''resourceNotFoundException''),
          (JStr ''overloaded_error'', ''serviceUnavailableException''),
          (JStr ''timeout_error'', ''modelTimeoutException'')] error_type of
        Some e \<Rightarrow> e
      | None \<Rightarrow>
          (case Option.bind (case code of JNum n \<Rightarrow> Some n | JStr s \<Rightarrow> to_number s | _ \<Rightarrow> None)
              (map_of [(429, ''throttlingException''), (400, ''validationException''), (413, ''validationException''),
                       (422, ''validationException''), (401, ''accessDeniedException''), (403, ''accessDeniedException''),
                       (404, ''resourceNotFoundException''), (408, ''modelTimeoutException''), (504, ''modelTimeoutException''),
                       (503, ''serviceUnavailableException''), (529, ''serviceUnavailableException'')]) of
             Some e \<Rightarrow> e
           | None \<Rightarrow> ''internalServerException''))"

definition CONVERSE_EVENTS :: "string list" where
  "CONVERSE_EVENTS =
     [''messageStart'', ''contentBlockStart'', ''contentBlockDelta'', ''contentBlockStop'', ''messageStop'', ''metadata'']"

definition BLOCK_EVENTS :: "string list" where
  "BLOCK_EVENTS = [''contentBlockStart'', ''contentBlockDelta'', ''contentBlockStop'']"

record converse_state =
  cv_input :: rat
  cv_output :: rat
  cv_cache_read :: rat
  cv_cache_write :: rat
  cv_stop_reason :: js
  cv_latency :: rat

definition converse_init :: converse_state where
  "converse_init =
     \<lparr> cv_input = 0, cv_output = 0, cv_cache_read = 0, cv_cache_write = 0, cv_stop_reason = JStr ''end_turn'', cv_latency = 0 \<rparr>"

definition number_or :: "rat \<Rightarrow> js \<Rightarrow> rat" where
  "number_or d v = (case v of JNum n \<Rightarrow> n | _ \<Rightarrow> d)"

text \<open>The Converse frames of an event of the Anthropic stream.\<close>

definition message_start_frames :: "js \<Rightarrow> converse_state \<Rightarrow> message_frame list \<times> converse_state" where
  "message_start_frames event st =
     (let message = jget event ''message''; usage = jget message ''usage'' in
      ([event_frame ''messageStart''
          (JObj [(''role'', if truthy (jget message ''role'') then jget message ''role'' else JStr ''assistant'')])],
       st\<lparr> cv_input := number_or 0 (jget usage ''input_tokens''),
           cv_output := number_or 0 (jget usage ''output_tokens''),
           cv_cache_read := number_or 0 (jget usage ''cache_read_input_tokens''),
           cv_cache_write := number_or 0 (jget usage ''cache_creation_input_tokens'') \<rparr>))"

definition block_start_frames :: "js \<Rightarrow> js \<Rightarrow> message_frame list" where
  "block_start_frames index block =
     (if jget block ''type'' \<noteq> JStr ''tool_use'' then []
      else [event_frame ''contentBlockStart''
              (JObj [(''contentBlockIndex'', index),
                     (''start'', JObj [(''toolUse'', JObj [(''toolUseId'', jget block ''id''), (''name'', jget block ''name'')])])])])"

definition block_delta_frames :: "js \<Rightarrow> js \<Rightarrow> message_frame list" where
  "block_delta_frames index d =
     (let delta =
        (if jget d ''type'' = JStr ''text_delta'' then Some (JObj [(''text'', jget d ''text'')])
         else if jget d ''type'' = JStr ''input_json_delta''
         then Some (JObj [(''toolUse'', JObj [(''input'', jget d ''partial_json'')])])
         else if jget d ''type'' = JStr ''thinking_delta''
         then Some (JObj [(''reasoningContent'', JObj [(''text'', jget d ''thinking'')])])
         else if jget d ''type'' = JStr ''signature_delta''
         then Some (JObj [(''reasoningContent'', JObj [(''signature'', jget d ''signature'')])])
         else None)
      in case delta of
           None \<Rightarrow> []
         | Some v \<Rightarrow> [event_frame ''contentBlockDelta'' (JObj [(''contentBlockIndex'', index), (''delta'', v)])])"

definition message_delta_state :: "js \<Rightarrow> converse_state \<Rightarrow> converse_state" where
  "message_delta_state event st =
     (let reason = jget (jget event ''delta'') ''stop_reason''; usage = jget event ''usage'' in
      st\<lparr> cv_stop_reason := (if truthy reason then reason else cv_stop_reason st),
          cv_output := number_or (cv_output st) (jget usage ''output_tokens''),
          cv_input := (if truthy (jget usage ''input_tokens'') then number_or (cv_input st) (jget usage ''input_tokens'')
                       else cv_input st) \<rparr>)"

definition invocation_metrics_state :: "js \<Rightarrow> converse_state \<Rightarrow> converse_state" where
  "invocation_metrics_state metrics st =
     (if \<not> truthy metrics then st
      else st\<lparr> cv_input := number_or (cv_input st) (jget metrics ''inputTokenCount''),
               cv_output := number_or (cv_output st) (jget metrics ''outputTokenCount''),
               cv_cache_read := number_or (cv_cache_read st) (jget metrics ''cacheReadInputTokenCount''),
               cv_cache_write := number_or (cv_cache_write st) (jget metrics ''cacheWriteInputTokenCount''),
               cv_latency := number_or (cv_latency st) (jget metrics ''invocationLatency'') \<rparr>)"

definition closing_frames :: "converse_state \<Rightarrow> message_frame list" where
  "closing_frames st =
     (let usage =
        [(''inputTokens'', JNum (cv_input st)), (''outputTokens'', JNum (cv_output st)),
         (''totalTokens'', JNum (cv_input st + cv_output st))]
        @ (if cv_cache_read st \<noteq> 0 then [(''cacheReadInputTokens'', JNum (cv_cache_read st))] else [])
        @ (if cv_cache_write st \<noteq> 0 then [(''cacheWriteInputTokens'', JNum (cv_cache_write st))] else [])
      in [event_frame ''messageStop'' (JObj [(''stopReason'', cv_stop_reason st)]),
          event_frame ''metadata'' (JObj [(''usage'', JObj usage), (''metrics'', JObj [(''latencyMs'', JNum (cv_latency st))])])])"

definition anthropic_to_converse :: "js \<Rightarrow> converse_state \<Rightarrow> message_frame list \<times> converse_state" where
  "anthropic_to_converse event st =
     (let index = nullish (jget event ''index'') (JNum 0); ty = jget event ''type'' in
      if ty = JStr ''message_start'' then message_start_frames event st
      else if ty = JStr ''content_block_start'' then (block_start_frames index (jget event ''content_block''), st)
      else if ty = JStr ''content_block_delta'' then (block_delta_frames index (jget event ''delta''), st)
      else if ty = JStr ''content_block_stop''
      then ([event_frame ''contentBlockStop'' (JObj [(''contentBlockIndex'', index)])], st)
      else if ty = JStr ''message_delta'' then ([], message_delta_state event st)
      else if ty = JStr ''message_stop''
      then (let st' = invocation_metrics_state (jget event ''amazon-bedrock-invocationMetrics'') st in (closing_frames st', st'))
      else ([], st))"

definition error_frame :: "js \<Rightarrow> message_frame" where
  "error_frame v =
     (let e = (if is_objectish (jget v ''error'') then jget v ''error'' else JObj [(''message'', jget v ''error'')]) in
      exception_frame (exception_type_of (jget e ''type'') (nullish (jget e ''code'') (jget e ''status'')))
        (if truthy (jget e ''message'') then jget e ''message'' else JStr ''Internal server error''))"

definition converse_payload :: "string \<Rightarrow> js \<Rightarrow> js" where
  "converse_payload name v =
     (let payload = jcopy (jget v name) in
      if name \<in> set BLOCK_EVENTS \<and> jget payload ''contentBlockIndex'' = JUndef \<and> jget v ''contentBlockIndex'' \<noteq> JUndef
      then jset ''contentBlockIndex'' (jget v ''contentBlockIndex'') payload else payload)"

definition frames_for ::
  "(string \<Rightarrow> js option) \<Rightarrow> (js \<Rightarrow> string) \<Rightarrow> (string \<Rightarrow> string) \<Rightarrow> string option \<times> string \<Rightarrow> string \<Rightarrow> converse_state
     \<Rightarrow> message_frame list \<times> converse_state" where
  "frames_for parse stringify base64 message subpath st =
     (case message of (event, text_data) \<Rightarrow>
        if text_data = ''[DONE]'' then ([], st)
        else case (case parse text_data of
                     Some v \<Rightarrow> Some (v, text_data)
                   | None \<Rightarrow> map_option (\<lambda>v. (v, stringify v)) (parse_converse_event_data parse stringify text_data)) of
               None \<Rightarrow> ([], st)
             | Some (v, raw) \<Rightarrow>
                 if \<not> is_objectish v then ([], st)
                 else if event = Some ''error'' \<or> jget v ''type'' = JStr ''error''
                       \<or> truthy (jget v ''error'') \<and> \<not> truthy (jget v ''type'')
                 then ([error_frame v], st)
                 else if subpath = ''converse-stream'' then
                   (case find (\<lambda>name. jget v name \<noteq> JUndef) CONVERSE_EVENTS of
                      Some name \<Rightarrow> ([event_frame name (converse_payload name v)], st)
                    | None \<Rightarrow> anthropic_to_converse v st)
                 else ([event_frame ''chunk'' (JObj [(''bytes'', JStr (base64 raw))])], st))"

section \<open>Properties\<close>

text \<open>Data without a single quote is never rewritten.\<close>

lemma skip_double_copies: "skip_double s = Some (a, rest) \<Longrightarrow> s = a @ rest"
  by (induction s arbitrary: a rest rule: skip_double.induct) (auto split: if_splits list.splits)

lemma no_single_quote_unchanged:
  "CHR 0x27 \<notin> set s \<Longrightarrow> single_quoted_to_json stringify s = Some t \<Longrightarrow> t = s"
proof (induction stringify s arbitrary: t rule: single_quoted_to_json.induct)
  case (1 stringify s)
  show ?case
  proof (cases s)
    case Nil
    with 1(5) show ?thesis by (subst (asm) single_quoted_to_json.simps) simp
  next
    case (Cons c cs)
    show ?thesis
    proof (cases "c = CHR 0x22")
      case True
      then obtain a rest t' where parts: "skip_double cs = Some (a, rest)"
        "single_quoted_to_json stringify rest = Some t'" "t = c # a @ t'"
        using 1(5) Cons by (subst (asm) single_quoted_to_json.simps) (auto split: option.splits)
      have cs: "cs = a @ rest" using skip_double_copies [OF parts(1)] .
      then have "t' = rest" using 1(1) [OF Cons True parts(1) refl _ parts(2)] 1(4) Cons by simp
      then show ?thesis using parts(3) Cons cs by simp
    next
      case False
      have "c \<noteq> CHR 0x27" using 1(4) Cons by auto
      with False 1(5) Cons obtain t' where "single_quoted_to_json stringify cs = Some t'" "t = c # t'"
        by (subst (asm) single_quoted_to_json.simps) auto
      then show ?thesis using 1(3) [OF Cons False \<open>c \<noteq> CHR 0x27\<close>] 1(4) Cons by simp
    qed
  qed
qed

text \<open>On a Converse stream every frame is an exception or one of the six events of the protocol.\<close>

definition converse_frame :: "message_frame \<Rightarrow> bool" where
  "converse_frame f =
     (map_of (fst f) '':message-type'' = Some ''exception''
      \<or> map_of (fst f) '':message-type'' = Some ''event''
        \<and> (\<exists>name. map_of (fst f) '':event-type'' = Some name \<and> name \<in> set CONVERSE_EVENTS))"

lemma converse_event: "name \<in> set CONVERSE_EVENTS \<Longrightarrow> converse_frame (event_frame name v)"
  by (simp add: converse_frame_def event_frame_def)

lemma anthropic_frames_converse: "list_all converse_frame (fst (anthropic_to_converse event st))"
  by (simp add: anthropic_to_converse_def message_start_frames_def block_start_frames_def block_delta_frames_def
      closing_frames_def Let_def converse_event CONVERSE_EVENTS_def split: option.split)

lemma frames_for_converse:
  "list_all converse_frame (fst (frames_for parse stringify base64 message ''converse-stream'' st))"
proof -
  have found: "converse_frame (event_frame name v)" if "find p CONVERSE_EVENTS = Some name" for name p v
    using that by (auto simp: find_Some_iff intro!: converse_event)
  have error: "converse_frame (error_frame v)" for v
    by (simp add: error_frame_def exception_frame_def converse_frame_def Let_def)
  show ?thesis
    by (auto simp: frames_for_def found error anthropic_frames_converse split: prod.split option.split)
qed

end
