(* ===== verification/Frame_Writer.thy ===== *)
theory Frame_Writer
  imports Converse_Frames
begin

text \<open>
  The response that answers in event stream framing (\<open>installBedrockEventStream\<close> in
  \<open>utils/bedrockEventStream.ts\<close>): what \<open>setHeader\<close>, \<open>write\<close> and \<open>end\<close> of the response do after the installation.

  The parser of server-sent events is a parameter: \<open>feed\<close> takes its state and a text and gives the events the
  text completes. A chunk is modelled after its UTF-8 decoding, so the decoder never holds bytes back. The
  arguments \<open>parse\<close>, \<open>stringify\<close> and \<open>base64\<close> are those of \<open>frames_for\<close>. Callbacks are not modelled.
\<close>

type_synonym sse_event = "string option \<times> string"

datatype fw_mode = Undecided | Frames_Mode | Plain_Mode

datatype fw_sent = Sent_Text string | Sent_Frames "message_frame list"

record 'p frame_writer =
  fw_parser :: 'p
  fw_state :: converse_state
  fw_pending :: "message_frame list"
  fw_mode :: fw_mode
  fw_status :: nat
  fw_headers :: "(string \<times> string) list"
  fw_headers_sent :: bool
  fw_sent :: "fw_sent list"
  fw_ended :: bool

definition EVENT_STREAM_CONTENT_TYPE :: string where
  "EVENT_STREAM_CONTENT_TYPE = ''application/vnd.amazon.eventstream''"

text \<open>The header table of the response: names are compared without their case.\<close>

definition raw_set_header :: "string \<Rightarrow> string \<Rightarrow> 'p frame_writer \<Rightarrow> 'p frame_writer" where
  "raw_set_header name v w = w\<lparr> fw_headers := AList.update (lower name) v (fw_headers w) \<rparr>"

definition fw_set_header :: "string \<Rightarrow> string \<Rightarrow> 'p frame_writer \<Rightarrow> 'p frame_writer" where
  "fw_set_header name v w =
     (if lower name = ''content-type'' \<and> fw_mode w \<noteq> Plain_Mode \<and> prefix ''text/event-stream'' v
      then raw_set_header name EVENT_STREAM_CONTENT_TYPE w
      else raw_set_header name v w)"

definition install :: "'p \<Rightarrow> nat \<Rightarrow> (string \<times> string) list \<Rightarrow> 'p frame_writer" where
  "install p status headers =
     raw_set_header ''Content-Type'' EVENT_STREAM_CONTENT_TYPE
       \<lparr> fw_parser = p, fw_state = converse_init, fw_pending = [], fw_mode = Undecided, fw_status = status,
         fw_headers = headers, fw_headers_sent = False, fw_sent = [], fw_ended = False \<rparr>"

definition decide_mode :: "string option \<Rightarrow> 'p frame_writer \<Rightarrow> 'p frame_writer" where
  "decide_mode chunk w =
     (if fw_mode w \<noteq> Undecided then w
      else let t = trim_left (take 64 (case chunk of None \<Rightarrow> [] | Some c \<Rightarrow> c)) in
        if 400 \<le> fw_status w \<or> prefix ''{'' t
        then (let w' = w\<lparr> fw_mode := Plain_Mode \<rparr> in
              if fw_headers_sent w' then w' else raw_set_header ''Content-Type'' ''application/json; charset=utf-8'' w')
        else if t \<noteq> [] then w\<lparr> fw_mode := Frames_Mode \<rparr>
        else w)"

text \<open>The frames of the events of one call of the parser, appended to those that wait.\<close>

fun push_events ::
  "(string \<Rightarrow> js option) \<Rightarrow> (js \<Rightarrow> string) \<Rightarrow> (string \<Rightarrow> string) \<Rightarrow> string \<Rightarrow> sse_event list
     \<Rightarrow> message_frame list \<times> converse_state \<Rightarrow> message_frame list \<times> converse_state" where
  "push_events parse stringify base64 subpath [] (pending, cs) = (pending, cs)"
| "push_events parse stringify base64 subpath (e # es) (pending, cs) =
     (case frames_for parse stringify base64 e subpath cs of
        (fs, cs') \<Rightarrow> push_events parse stringify base64 subpath es (pending @ fs, cs'))"

definition feed_text ::
  "(string \<Rightarrow> js option) \<Rightarrow> (js \<Rightarrow> string) \<Rightarrow> (string \<Rightarrow> string) \<Rightarrow> ('p \<Rightarrow> string \<Rightarrow> sse_event list \<times> 'p) \<Rightarrow> string
     \<Rightarrow> string \<Rightarrow> 'p frame_writer \<Rightarrow> 'p frame_writer" where
  "feed_text parse stringify base64 feed subpath t w =
     (case feed (fw_parser w) t of
        (es, p) \<Rightarrow>
          (case push_events parse stringify base64 subpath es (fw_pending w, fw_state w) of
             (pending, cs) \<Rightarrow> w\<lparr> fw_parser := p, fw_pending := pending, fw_state := cs \<rparr>))"

definition to_frames ::
  "(string \<Rightarrow> js option) \<Rightarrow> (js \<Rightarrow> string) \<Rightarrow> (string \<Rightarrow> string) \<Rightarrow> ('p \<Rightarrow> string \<Rightarrow> sse_event list \<times> 'p) \<Rightarrow> string
     \<Rightarrow> string option \<Rightarrow> 'p frame_writer \<Rightarrow> message_frame list \<times> 'p frame_writer" where
  "to_frames parse stringify base64 feed subpath chunk w =
     (let w' = (case chunk of None \<Rightarrow> w | Some c \<Rightarrow> feed_text parse stringify base64 feed subpath c w)
      in (fw_pending w', w'\<lparr> fw_pending := [] \<rparr>))"

definition send :: "fw_sent \<Rightarrow> 'p frame_writer \<Rightarrow> 'p frame_writer" where
  "send x w = w\<lparr> fw_sent := fw_sent w @ [x], fw_headers_sent := True \<rparr>"

definition fw_write ::
  "(string \<Rightarrow> js option) \<Rightarrow> (js \<Rightarrow> string) \<Rightarrow> (string \<Rightarrow> string) \<Rightarrow> ('p \<Rightarrow> string \<Rightarrow> sse_event list \<times> 'p) \<Rightarrow> string
     \<Rightarrow> string \<Rightarrow> 'p frame_writer \<Rightarrow> 'p frame_writer" where
  "fw_write parse stringify base64 feed subpath chunk w =
     (let w1 = decide_mode (Some chunk) w in
      if fw_mode w1 = Plain_Mode then send (Sent_Text chunk) w1
      else (case to_frames parse stringify base64 feed subpath (Some chunk) w1 of
              (fs, w2) \<Rightarrow> if fs = [] then w2 else send (Sent_Frames fs) w2))"

text \<open>The end: the frames of the first call of \<open>toFrames\<close> are dropped, as in the source.\<close>

definition fw_end ::
  "(string \<Rightarrow> js option) \<Rightarrow> (js \<Rightarrow> string) \<Rightarrow> (string \<Rightarrow> string) \<Rightarrow> ('p \<Rightarrow> string \<Rightarrow> sse_event list \<times> 'p) \<Rightarrow> string
     \<Rightarrow> string option \<Rightarrow> 'p frame_writer \<Rightarrow> 'p frame_writer" where
  "fw_end parse stringify base64 feed subpath chunk w =
     (let w1 = decide_mode chunk w in
      if fw_mode w1 = Plain_Mode
      then (case chunk of None \<Rightarrow> w1 | Some c \<Rightarrow> send (Sent_Text c) w1)\<lparr> fw_headers_sent := True, fw_ended := True \<rparr>
      else let w2 = snd (to_frames parse stringify base64 feed subpath chunk w1);
               w3 = feed_text parse stringify base64 feed subpath [] w2;
               w4 = feed_text parse stringify base64 feed subpath [CHR 0x0A, CHR 0x0A] w3
           in case to_frames parse stringify base64 feed subpath None w4 of
                (fs, w5) \<Rightarrow>
                  (if fs = [] then w5 else send (Sent_Frames fs) w5)\<lparr> fw_headers_sent := True, fw_ended := True \<rparr>)"

section \<open>Frames do not depend on how the stream is cut\<close>

fun writes ::
  "(string \<Rightarrow> js option) \<Rightarrow> (js \<Rightarrow> string) \<Rightarrow> (string \<Rightarrow> string) \<Rightarrow> ('p \<Rightarrow> string \<Rightarrow> sse_event list \<times> 'p) \<Rightarrow> string
     \<Rightarrow> string list \<Rightarrow> 'p frame_writer \<Rightarrow> 'p frame_writer" where
  "writes parse stringify base64 feed subpath [] w = w"
| "writes parse stringify base64 feed subpath (c # cs) w =
     writes parse stringify base64 feed subpath cs (fw_write parse stringify base64 feed subpath c w)"

text \<open>What the client reads: the frames in their order.\<close>

definition sent_frames :: "'p frame_writer \<Rightarrow> message_frame list" where
  "sent_frames w = concat (map (\<lambda>x. case x of Sent_Frames fs \<Rightarrow> fs | Sent_Text t \<Rightarrow> []) (fw_sent w))"

definition plain_texts :: "'p frame_writer \<Rightarrow> string list" where
  "plain_texts w = concat (map (\<lambda>x. case x of Sent_Frames fs \<Rightarrow> [] | Sent_Text t \<Rightarrow> [t]) (fw_sent w))"

text \<open>The events a parser gives for a list of texts.\<close>

fun feed_all :: "('p \<Rightarrow> string \<Rightarrow> sse_event list \<times> 'p) \<Rightarrow> string list \<Rightarrow> 'p \<Rightarrow> sse_event list \<times> 'p" where
  "feed_all feed [] p = ([], p)"
| "feed_all feed (c # cs) p =
     (case feed p c of (es, p1) \<Rightarrow> (case feed_all feed cs p1 of (es', p2) \<Rightarrow> (es @ es', p2)))"

text \<open>A parser that reads a stream: what it gives does not depend on where the texts are cut.\<close>

definition streaming :: "('p \<Rightarrow> string \<Rightarrow> sse_event list \<times> 'p) \<Rightarrow> bool" where
  "streaming feed \<longleftrightarrow>
     (\<forall>p. feed p [] = ([], p))
     \<and> (\<forall>p a b. feed p (a @ b) = (case feed p a of (es, p1) \<Rightarrow> (case feed p1 b of (es', p2) \<Rightarrow> (es @ es', p2))))"

lemma feed_all_concat: "streaming feed \<Longrightarrow> feed_all feed cs p = feed p (concat cs)"
proof (induction cs arbitrary: p)
  case (Cons c cs)
  have "feed p (c @ concat cs) =
    (case feed p c of (es, p1) \<Rightarrow> (case feed p1 (concat cs) of (es', p2) \<Rightarrow> (es @ es', p2)))"
    using Cons.prems unfolding streaming_def by blast
  then show ?case using Cons by simp
qed (simp add: streaming_def)

lemma push_events_append:
  "push_events parse stringify base64 subpath (es @ es') s =
     push_events parse stringify base64 subpath es' (push_events parse stringify base64 subpath es s)"
  by (induction parse stringify base64 subpath es s rule: push_events.induct) (simp_all split: prod.split)

lemma push_events_pending:
  "push_events parse stringify base64 subpath es (pending @ fs, cs) =
     (case push_events parse stringify base64 subpath es (fs, cs) of (a, cs') \<Rightarrow> (pending @ a, cs'))"
  by (induction es arbitrary: fs cs) (simp_all split: prod.split)

text \<open>A write in frame mode: the parser advances and the frames of its events are sent.\<close>

lemma write_in_frame_mode:
  assumes "fw_mode w = Frames_Mode" "fw_pending w = []" "feed (fw_parser w) c = (es, p)"
    "push_events parse stringify base64 subpath es ([], fw_state w) = (fs, cs)"
  shows "fw_mode (fw_write parse stringify base64 feed subpath c w) = Frames_Mode"
    "fw_pending (fw_write parse stringify base64 feed subpath c w) = []"
    "fw_parser (fw_write parse stringify base64 feed subpath c w) = p"
    "fw_state (fw_write parse stringify base64 feed subpath c w) = cs"
    "sent_frames (fw_write parse stringify base64 feed subpath c w) = sent_frames w @ fs"
  using assms by (simp_all add: fw_write_def decide_mode_def to_frames_def feed_text_def send_def sent_frames_def Let_def)

lemma writes_in_frame_mode:
  assumes "fw_mode w = Frames_Mode" "fw_pending w = []" "feed_all feed chunks (fw_parser w) = (es, p)"
    "push_events parse stringify base64 subpath es ([], fw_state w) = (fs, cs)"
  shows "fw_mode (writes parse stringify base64 feed subpath chunks w) = Frames_Mode
    \<and> fw_pending (writes parse stringify base64 feed subpath chunks w) = []
    \<and> fw_parser (writes parse stringify base64 feed subpath chunks w) = p
    \<and> fw_state (writes parse stringify base64 feed subpath chunks w) = cs
    \<and> sent_frames (writes parse stringify base64 feed subpath chunks w) = sent_frames w @ fs"
  using assms
proof (induction chunks arbitrary: w es fs)
  case (Cons c chunks)
  obtain e1 p1 where f1: "feed (fw_parser w) c = (e1, p1)" by force
  obtain e2 p2 where f2: "feed_all feed chunks p1 = (e2, p2)" by force
  have parts: "es = e1 @ e2" "p = p2" using Cons.prems(3) f1 f2 by simp_all
  obtain g1 s1 where b1: "push_events parse stringify base64 subpath e1 ([], fw_state w) = (g1, s1)" by force
  obtain g2 s2 where b2: "push_events parse stringify base64 subpath e2 ([], s1) = (g2, s2)" by force
  have frames: "fs = g1 @ g2" "cs = s2"
    using Cons.prems(4) b1 b2 push_events_pending [of parse stringify base64 subpath e2 g1 "[]" s1]
    by (simp_all add: parts push_events_append)
  note w1 = write_in_frame_mode [of w feed c e1 p1 parse stringify base64 subpath g1 s1, OF Cons.prems(1,2) f1 b1]
  show ?case
    using Cons.IH [of "fw_write parse stringify base64 feed subpath c w" e2 g2] f2 b2
    by (simp add: w1 parts frames)
qed simp

text \<open>The frames a client receives do not depend on how the stream of events was cut into writes: with a parser
  that reads streams, any two sequences of writes with the same text, begun in frame mode with nothing waiting,
  send the same frames.
\<close>

theorem frames_chunk_independent:
  assumes "streaming feed" "fw_mode w = Frames_Mode" "fw_pending w = []" "concat cs = concat ds"
  shows "sent_frames (writes parse stringify base64 feed subpath cs w)
       = sent_frames (writes parse stringify base64 feed subpath ds w)"
proof -
  obtain es p where f: "feed (fw_parser w) (concat cs) = (es, p)" by force
  obtain fs s where b: "push_events parse stringify base64 subpath es ([], fw_state w) = (fs, s)" by force
  have "feed_all feed cs (fw_parser w) = (es, p)" "feed_all feed ds (fw_parser w) = (es, p)"
    using f assms(4) by (simp_all add: feed_all_concat [OF assms(1)])
  then show ?thesis using writes_in_frame_mode [OF assms(2,3) _ b] by simp
qed

text \<open>A parser of data lines for the witnesses: a line feed completes an event with the text before it.\<close>

fun line_feed :: "string \<Rightarrow> string \<Rightarrow> sse_event list \<times> string" where
  "line_feed p [] = ([], p)"
| "line_feed p (c # cs) =
     (if c = CHR 0x0A
      then (case line_feed [] cs of (es, q) \<Rightarrow> ((if p = [] then es else (None, p) # es), q))
      else line_feed (p @ [c]) cs)"

lemma line_feed_streaming: "streaming line_feed"
proof -
  have "line_feed p (a @ b) = (case line_feed p a of (es, p1) \<Rightarrow> (case line_feed p1 b of (es', p2) \<Rightarrow> (es @ es', p2)))" for p a b
    by (induction p a rule: line_feed.induct) (auto split: prod.splits)
  then show ?thesis by (simp add: streaming_def)
qed

definition line_writer :: "string frame_writer" where
  "line_writer = (install [] 200 [])\<lparr> fw_mode := Frames_Mode \<rparr>"

definition object_parse :: "string \<Rightarrow> js option" where
  "object_parse t = Some (JObj [(''id'', JStr t)])"

lemma frames_chunk_independent_witness:
  "sent_frames (writes object_parse (\<lambda>_. []) id line_feed ''invoke'' [''ab'', ''c'' @ [CHR 0x0A]] line_writer)
 = sent_frames (writes object_parse (\<lambda>_. []) id line_feed ''invoke'' [''abc'' @ [CHR 0x0A]] line_writer)"
  by (rule frames_chunk_independent [OF line_feed_streaming])
    (simp_all add: line_writer_def install_def raw_set_header_def)

section \<open>The mode is decided once\<close>

lemma decided_mode_stays:
  "fw_mode w \<noteq> Undecided \<Longrightarrow> fw_mode (fw_write parse stringify base64 feed subpath c w) = fw_mode w"
  by (simp add: fw_write_def decide_mode_def to_frames_def feed_text_def send_def Let_def split: prod.split)

text \<open>A body that turned out to be plain goes out as it is written.\<close>

lemma plain_body_unchanged:
  "fw_mode w = Plain_Mode \<Longrightarrow>
     fw_sent (writes parse stringify base64 feed subpath cs w) = fw_sent w @ map Sent_Text cs"
proof (induction cs arbitrary: w)
  case (Cons c cs)
  have "fw_mode (fw_write parse stringify base64 feed subpath c w) = Plain_Mode"
    using decided_mode_stays [of w] Cons.prems by simp
  then show ?case using Cons by (simp add: fw_write_def decide_mode_def send_def)
qed simp

lemma lower_content_type: "lower ''Content-Type'' = ''content-type''"
  by code_simp

text \<open>An error status makes the first write plain, with a JSON content type.\<close>

lemma error_status_plain:
  assumes "400 \<le> status"
  shows "fw_sent (fw_write parse stringify base64 feed subpath c (install p status headers)) = [Sent_Text c]
    \<and> map_of (fw_headers (fw_write parse stringify base64 feed subpath c (install p status headers))) ''content-type''
        = Some ''application/json; charset=utf-8''"
  using assms
  by (simp add: fw_write_def decide_mode_def install_def raw_set_header_def send_def lower_content_type
      update_conv' Let_def)

section \<open>The chunk given to the end\<close>

text \<open>Events that are completed by the text given to \<open>end\<close> are lost: their frames are built and dropped, while
  the same text given to \<open>write\<close> before an \<open>end\<close> without a text sends them. Only the events completed by the two
  closing line feeds are sent.
\<close>

theorem end_drops_completed_events:
  assumes "fw_mode w = Frames_Mode" "fw_pending w = []" "feed (fw_parser w) c = (es, p)"
    "feed p [] = ([], p)" "feed p [CHR 0x0A, CHR 0x0A] = ([], q)"
    "push_events parse stringify base64 subpath es ([], fw_state w) = (fs, cs)"
  shows "sent_frames (fw_end parse stringify base64 feed subpath (Some c) w) = sent_frames w
    \<and> sent_frames (fw_end parse stringify base64 feed subpath None (fw_write parse stringify base64 feed subpath c w))
        = sent_frames w @ fs"
proof
  show "sent_frames (fw_end parse stringify base64 feed subpath (Some c) w) = sent_frames w"
    using assms
    by (simp add: fw_end_def decide_mode_def to_frames_def feed_text_def send_def sent_frames_def Let_def)
  note w1 = write_in_frame_mode [of w feed c es p parse stringify base64 subpath fs cs, OF assms(1,2,3,6)]
  have "sent_frames (fw_end parse stringify base64 feed subpath None w') = sent_frames w'"
    if "fw_mode w' = Frames_Mode" "fw_pending w' = []" "fw_parser w' = p" for w'
    using that assms(4,5)
    by (simp add: fw_end_def decide_mode_def to_frames_def feed_text_def send_def sent_frames_def Let_def)
  from this [OF w1(1,2,3)]
  show "sent_frames (fw_end parse stringify base64 feed subpath None (fw_write parse stringify base64 feed subpath c w))
        = sent_frames w @ fs"
    using w1(5) by simp
qed

lemma end_drops_completed_events_witness:
  "sent_frames (fw_end object_parse (\<lambda>_. []) id line_feed ''invoke'' (Some (''abc'' @ [CHR 0x0A])) line_writer) = []
   \<and> sent_frames (fw_end object_parse (\<lambda>_. []) id line_feed ''invoke'' None
       (fw_write object_parse (\<lambda>_. []) id line_feed ''invoke'' (''abc'' @ [CHR 0x0A]) line_writer))
     = [event_frame ''chunk'' (JObj [(''bytes'', JStr ''abc'')])]"
proof -
  have start: "sent_frames line_writer = []"
    by (simp add: line_writer_def install_def raw_set_header_def sent_frames_def)
  have fs: "push_events object_parse (\<lambda>_. []) id ''invoke'' [(None, ''abc'')] ([], fw_state line_writer)
    = ([event_frame ''chunk'' (JObj [(''bytes'', JStr ''abc'')])], fw_state line_writer)"
    by (simp add: frames_for_def object_parse_def)
  show ?thesis
    using end_drops_completed_events [of line_writer line_feed "''abc'' @ [CHR 0x0A]" "[(None, ''abc'')]" "[]" "[]"
        object_parse "\<lambda>_. []" id "''invoke''", OF _ _ _ _ _ fs] start
    by (simp add: line_writer_def install_def raw_set_header_def)
qed

end
