(* ===== verification/Usage_Folding.thy ===== *)
theory Usage_Folding
  imports Prelude
begin

text \<open>
  Billing of tokens: the counters of a request (\<open>utils/usageTracker.ts\<close>), the folding of a provider's usage
  object into them (\<open>utils/usageFolding.ts\<close>, the folds of \<open>controllers/responsesController.ts\<close>,
  \<open>controllers/googleWire.ts\<close> and \<open>upstreams/chatDispatch.ts\<close>), and the usage objects the bridges show to their
  clients (\<open>responses/orchestrationBridge\<close> and \<open>google/orchestrationBridge\<close>).

  A source counts the prompt without its cached part (exclusive) or with it (inclusive). Counts are rationals; a
  count that is absent is zero, as \<open>x || 0\<close> and \<open>x ?? 0\<close> read it, and so is anything that is no number.
\<close>

section \<open>Counters\<close>

record usage_metrics =
  um_start :: int
  um_input :: rat
  um_output :: rat
  um_cache_write :: rat
  um_cache_read :: rat
  um_image_input :: rat
  um_image_output :: rat
  um_audio_input :: rat
  um_audio_output :: rat

definition create_usage_metrics :: "int \<Rightarrow> usage_metrics" where
  "create_usage_metrics now =
     \<lparr> um_start = now, um_input = 0, um_output = 0, um_cache_write = 0, um_cache_read = 0, um_image_input = 0,
       um_image_output = 0, um_audio_input = 0, um_audio_output = 0 \<rparr>"

definition update_token_counts :: "rat \<Rightarrow> rat \<Rightarrow> rat \<Rightarrow> rat \<Rightarrow> rat \<Rightarrow> rat \<Rightarrow> usage_metrics \<Rightarrow> usage_metrics" where
  "update_token_counts input output cache_write cache_read image_in image_out m =
     m\<lparr> um_input := um_input m + input, um_output := um_output m + output,
        um_cache_write := um_cache_write m + cache_write, um_cache_read := um_cache_read m + cache_read,
        um_image_input := um_image_input m + image_in, um_image_output := um_image_output m + image_out \<rparr>"

section \<open>Folding\<close>

definition js_count :: "js \<Rightarrow> rat" where
  "js_count v = (case v of JNum n \<Rightarrow> n | _ \<Rightarrow> 0)"

definition read_cache_write_tokens :: "js \<Rightarrow> rat" where
  "read_cache_write_tokens details =
     (case jget details ''cache_write_tokens'' of
        JNum n \<Rightarrow> n
      | _ \<Rightarrow> (case jget details ''cache_creation_tokens'' of JNum n \<Rightarrow> n | _ \<Rightarrow> 0))"

definition fold_inclusive_usage :: "rat \<Rightarrow> rat \<Rightarrow> rat \<Rightarrow> rat \<Rightarrow> rat \<Rightarrow> usage_metrics \<Rightarrow> usage_metrics" where
  "fold_inclusive_usage input output cache_write cache_read image_in m =
     update_token_counts (max 0 (input - cache_read - cache_write)) output cache_write cache_read image_in 0 m"

definition fold_exclusive_usage :: "rat \<Rightarrow> rat \<Rightarrow> rat \<Rightarrow> rat \<Rightarrow> usage_metrics \<Rightarrow> usage_metrics" where
  "fold_exclusive_usage prompt completion cache_write cache_read m =
     update_token_counts prompt completion cache_write cache_read 0 0 m"

datatype cache_regime = Exclusive | Inclusive

definition cache_regime_for :: "string option \<Rightarrow> cache_regime" where
  "cache_regime_for model =
     (case model of
        None \<Rightarrow> Inclusive
      | Some n \<Rightarrow> if sublist ''claude'' (lower n) \<or> sublist ''nova'' (lower n) then Exclusive else Inclusive)"

definition cache_regime_for_usage :: "string option \<Rightarrow> rat \<Rightarrow> rat \<Rightarrow> rat \<Rightarrow> cache_regime" where
  "cache_regime_for_usage model prompt cache_write cache_read =
     (if prompt < cache_read + cache_write then Exclusive else cache_regime_for model)"

definition fold_orchestration_usage_for ::
  "string option \<Rightarrow> rat \<Rightarrow> rat \<Rightarrow> rat \<Rightarrow> rat \<Rightarrow> usage_metrics \<Rightarrow> usage_metrics" where
  "fold_orchestration_usage_for model prompt completion cache_write cache_read m =
     (if cache_regime_for_usage model prompt cache_write cache_read = Exclusive
      then fold_exclusive_usage prompt completion cache_write cache_read m
      else fold_inclusive_usage prompt completion cache_write cache_read 0 m)"

definition full_rate_prompt_tokens :: "string option \<Rightarrow> rat \<Rightarrow> rat \<Rightarrow> rat \<Rightarrow> rat" where
  "full_rate_prompt_tokens model prompt cache_write cache_read =
     (if cache_regime_for_usage model prompt cache_write cache_read = Exclusive then prompt
      else max 0 (prompt - cache_read - cache_write))"

definition whole_prompt_tokens :: "string option \<Rightarrow> rat \<Rightarrow> rat \<Rightarrow> rat \<Rightarrow> rat" where
  "whole_prompt_tokens model prompt cache_write cache_read =
     (if cache_regime_for_usage model prompt cache_write cache_read = Exclusive
      then prompt + cache_read + cache_write else prompt)"

section \<open>The extra usage of continuation rounds\<close>

text \<open>The accumulator on the request; \<open>None\<close> before it is allocated.\<close>

record extra_usage =
  xu_input :: rat
  xu_output :: rat
  xu_cache_write :: rat
  xu_cache_read :: rat

definition extra_init :: extra_usage where
  "extra_init = \<lparr> xu_input = 0, xu_output = 0, xu_cache_write = 0, xu_cache_read = 0 \<rparr>"

definition note_extra_usage :: "js \<Rightarrow> extra_usage option \<Rightarrow> extra_usage option" where
  "note_extra_usage usage acc =
     (if \<not> truthy usage then acc
      else let details = jget usage ''input_tokens_details'';
               cached = js_count (jget details ''cached_tokens'');
               creation = read_cache_write_tokens details;
               full_rate = max 0 (js_count (jget usage ''input_tokens'') - cached - creation);
               a = (case acc of None \<Rightarrow> extra_init | Some a \<Rightarrow> a)
        in Some (a\<lparr> xu_input := xu_input a + full_rate,
                    xu_output := xu_output a + js_count (jget usage ''output_tokens''),
                    xu_cache_write := xu_cache_write a + creation,
                    xu_cache_read := xu_cache_read a + cached \<rparr>))"

definition fold_extra :: "extra_usage option \<Rightarrow> usage_metrics \<Rightarrow> usage_metrics" where
  "fold_extra extra m =
     (case extra of
        None \<Rightarrow> m
      | Some a \<Rightarrow>
          if xu_input a \<noteq> 0 \<or> xu_output a \<noteq> 0 \<or> xu_cache_write a \<noteq> 0 \<or> xu_cache_read a \<noteq> 0
          then update_token_counts (xu_input a) (xu_output a) (xu_cache_write a) (xu_cache_read a) 0 0 m else m)"

section \<open>Usage objects\<close>

definition map_cached_tokens :: "js \<Rightarrow> rat" where
  "map_cached_tokens usage = js_count (jget (jget usage ''prompt_tokens_details'') ''cached_tokens'')"

definition record_orchestration_usage :: "js \<Rightarrow> string option \<Rightarrow> usage_metrics \<Rightarrow> usage_metrics" where
  "record_orchestration_usage usage model m =
     (if \<not> truthy usage then m
      else fold_orchestration_usage_for model (js_count (jget usage ''prompt_tokens''))
             (js_count (jget usage ''completion_tokens''))
             (js_count (jget (jget usage ''prompt_tokens_details'') ''cache_creation_tokens''))
             (map_cached_tokens usage) m)"

definition apply_responses_usage :: "js \<Rightarrow> usage_metrics \<Rightarrow> usage_metrics" where
  "apply_responses_usage usage m =
     (if \<not> truthy usage then m
      else let details = jget usage ''input_tokens_details'' in
        fold_inclusive_usage (js_count (jget usage ''input_tokens'')) (js_count (jget usage ''output_tokens''))
          (read_cache_write_tokens details) (js_count (jget details ''cached_tokens''))
          (js_count (jget details ''image_tokens'')) m)"

definition fold_chat_usage :: "js \<Rightarrow> usage_metrics \<Rightarrow> usage_metrics" where
  "fold_chat_usage usage m =
     (if \<not> truthy usage then m
      else fold_inclusive_usage (js_count (jget usage ''prompt_tokens'')) (js_count (jget usage ''completion_tokens''))
             0 (map_cached_tokens usage) 0 m)"

definition translate_usage :: "js \<Rightarrow> string option \<Rightarrow> js" where
  "translate_usage usage model =
     (let prompt = js_count (jget usage ''prompt_tokens'');
          output = js_count (jget usage ''completion_tokens'');
          cached = map_cached_tokens usage;
          cache_write = js_count (jget (jget usage ''prompt_tokens_details'') ''cache_creation_tokens'');
          input = whole_prompt_tokens model prompt cache_write cached
      in JObj [(''input_tokens'', JNum input),
               (''input_tokens_details'', JObj [(''cached_tokens'', JNum cached), (''cache_write_tokens'', JNum cache_write)]),
               (''output_tokens'', JNum output), (''total_tokens'', JNum (input + output))])"

definition usage_metadata_from_orchestration :: "js \<Rightarrow> string option \<Rightarrow> js" where
  "usage_metadata_from_orchestration usage model =
     (let cached = map_cached_tokens usage;
          creation = js_count (jget (jget usage ''prompt_tokens_details'') ''cache_creation_tokens'');
          prompt = whole_prompt_tokens model (js_count (jget usage ''prompt_tokens'')) creation cached;
          candidates = js_count (jget usage ''completion_tokens'')
      in JObj ([(''promptTokenCount'', JNum prompt), (''candidatesTokenCount'', JNum candidates),
                (''totalTokenCount'', JNum (prompt + candidates))]
               @ (if 0 < cached then [(''cachedContentTokenCount'', JNum cached)] else [])))"

section \<open>Every token is billed once\<close>

lemma inclusive_contains_cache:
  "cache_regime_for_usage model p w r = Inclusive \<Longrightarrow> r + w \<le> p"
  by (simp add: cache_regime_for_usage_def split: if_splits)

lemma regime_not_exclusive: "reg \<noteq> Exclusive \<longleftrightarrow> reg = Inclusive"
  by (cases reg) simp_all

definition billed_prompt :: "usage_metrics \<Rightarrow> rat" where
  "billed_prompt m = um_input m + um_cache_read m + um_cache_write m"

lemma full_rate_split: "full_rate_prompt_tokens model p w r + r + w = whole_prompt_tokens model p w r"
  using inclusive_contains_cache [of model p w r]
  by (cases "cache_regime_for_usage model p w r") (simp_all add: full_rate_prompt_tokens_def whole_prompt_tokens_def)

lemma fold_orchestration_adds:
  "fold_orchestration_usage_for model p c w r m =
     update_token_counts (full_rate_prompt_tokens model p w r) c w r 0 0 m"
  by (simp add: fold_orchestration_usage_for_def fold_exclusive_usage_def fold_inclusive_usage_def
      full_rate_prompt_tokens_def)

text \<open>C36. Whatever the regime of the source, the three prices of a prompt together are paid for the whole prompt, once:
  what a fold adds at the full rate, for cache reads and for cache writes is the number of input tokens the bridge
  reports to the client, and what it adds at the full rate is the count the Anthropic wire reports as its input.
\<close>

theorem prompt_billed_once:
  "let m' = record_orchestration_usage usage model m;
       details = jget usage ''prompt_tokens_details'';
       shown = translate_usage usage model
   in truthy usage \<longrightarrow>
        JNum (billed_prompt m' - billed_prompt m) = jget shown ''input_tokens''
        \<and> JNum (um_output m' - um_output m) = jget shown ''output_tokens''
        \<and> um_input m' - um_input m
          = full_rate_prompt_tokens model (js_count (jget usage ''prompt_tokens''))
              (js_count (jget details ''cache_creation_tokens'')) (js_count (jget details ''cached_tokens''))
        \<and> jget (usage_metadata_from_orchestration usage model) ''promptTokenCount'' = jget shown ''input_tokens''"
  using full_rate_split [of model "js_count (jget usage ''prompt_tokens'')"
      "js_count (jget (jget usage ''prompt_tokens_details'') ''cache_creation_tokens'')" "map_cached_tokens usage"]
  by (simp add: record_orchestration_usage_def fold_orchestration_adds update_token_counts_def translate_usage_def
      usage_metadata_from_orchestration_def billed_prompt_def map_cached_tokens_def Let_def)

definition claude_usage :: js where
  "claude_usage =
     JObj [(''prompt_tokens'', JNum 14), (''completion_tokens'', JNum 4),
           (''prompt_tokens_details'', JObj [(''cached_tokens'', JNum 17692)])]"

lemma prompt_billed_once_witness:
  "JNum (billed_prompt (record_orchestration_usage claude_usage (Some ''anthropic--claude'') (create_usage_metrics 0))
      - billed_prompt (create_usage_metrics 0)) = JNum 17706"
proof -
  have "truthy claude_usage" by (simp add: claude_usage_def)
  then have "JNum (billed_prompt (record_orchestration_usage claude_usage (Some ''anthropic--claude'') (create_usage_metrics 0))
      - billed_prompt (create_usage_metrics 0)) = jget (translate_usage claude_usage (Some ''anthropic--claude'')) ''input_tokens''"
    using prompt_billed_once [of claude_usage "Some ''anthropic--claude''" "create_usage_metrics 0"]
    unfolding Let_def by blast
  then show ?thesis
    by (simp add: translate_usage_def whole_prompt_tokens_def cache_regime_for_usage_def claude_usage_def
        map_cached_tokens_def js_count_def)
qed

section \<open>Continuation rounds are billed like first rounds\<close>

lemma note_translated:
  assumes "0 \<le> js_count (jget usage ''prompt_tokens'')"
  shows "note_extra_usage (translate_usage usage model) acc =
    (let a = (case acc of None \<Rightarrow> extra_init | Some a \<Rightarrow> a);
         w = js_count (jget (jget usage ''prompt_tokens_details'') ''cache_creation_tokens'');
         r = map_cached_tokens usage
     in Some \<lparr> xu_input = xu_input a + full_rate_prompt_tokens model (js_count (jget usage ''prompt_tokens'')) w r,
               xu_output = xu_output a + js_count (jget usage ''completion_tokens''),
               xu_cache_write = xu_cache_write a + w, xu_cache_read = xu_cache_read a + r \<rparr>)"
proof -
  let ?p = "js_count (jget usage ''prompt_tokens'')"
  let ?w = "js_count (jget (jget usage ''prompt_tokens_details'') ''cache_creation_tokens'')"
  let ?r = "map_cached_tokens usage"
  have "max 0 (whole_prompt_tokens model ?p ?w ?r - ?r - ?w) = full_rate_prompt_tokens model ?p ?w ?r"
    using assms by (simp add: whole_prompt_tokens_def full_rate_prompt_tokens_def)
  then show ?thesis
    by (simp add: note_extra_usage_def translate_usage_def read_cache_write_tokens_def js_count_def Let_def)
qed

lemma fold_extra_sums:
  "fold_extra (Some a) m = update_token_counts (xu_input a) (xu_output a) (xu_cache_write a) (xu_cache_read a) 0 0 m"
  by (simp add: fold_extra_def update_token_counts_def)

lemma update_token_counts_add:
  "update_token_counts a b c d 0 0 (update_token_counts a' b' c' d' 0 0 m)
     = update_token_counts (a' + a) (b' + b) (c' + c) (d' + d) 0 0 m"
  by (simp add: update_token_counts_def)

lemma fold_extra_note:
  assumes "truthy usage" "0 \<le> js_count (jget usage ''prompt_tokens'')"
  shows "fold_extra (note_extra_usage (translate_usage usage model) acc) m =
    record_orchestration_usage usage model (fold_extra acc m)"
proof -
  have none: "fold_extra None m = update_token_counts 0 0 0 0 0 0 m"
    by (simp add: fold_extra_def update_token_counts_def)
  show ?thesis
    using assms(1)
    by (cases acc) (simp_all add: note_translated [OF assms(2)] fold_extra_sums none record_orchestration_usage_def
        fold_orchestration_adds update_token_counts_add extra_init_def Let_def)
qed

text \<open>The rounds of a continued turn are billed like first rounds: noting the usage objects the bridge shows for
  each round and folding the sum once gives the same counters as folding each round's own usage, for any models
  and any number of rounds, as long as no prompt count is negative.
\<close>

theorem continuation_billed_like_direct:
  assumes "list_all (\<lambda>(u, model). truthy u \<and> 0 \<le> js_count (jget u ''prompt_tokens'')) rounds"
  shows "fold_extra (fold (\<lambda>(u, model). note_extra_usage (translate_usage u model)) rounds None) m
       = fold (\<lambda>(u, model). record_orchestration_usage u model) rounds m"
proof -
  have "fold_extra (fold (\<lambda>(u, model). note_extra_usage (translate_usage u model)) rounds acc) m
      = fold (\<lambda>(u, model). record_orchestration_usage u model) rounds (fold_extra acc m)" for acc
    using assms by (induction rounds arbitrary: acc) (auto simp: fold_extra_note)
  then show ?thesis by (simp add: fold_extra_def)
qed

definition nano_usage :: js where
  "nano_usage =
     JObj [(''prompt_tokens'', JNum 1978), (''completion_tokens'', JNum 1),
           (''prompt_tokens_details'', JObj [(''cached_tokens'', JNum 1792)])]"

lemma continuation_billed_like_direct_witness:
  "fold_extra (fold (\<lambda>(u, model). note_extra_usage (translate_usage u model))
       [(claude_usage, Some ''anthropic--claude''), (nano_usage, Some ''gpt-4.1-nano'')] None) (create_usage_metrics 0)
   = fold (\<lambda>(u, model). record_orchestration_usage u model)
       [(claude_usage, Some ''anthropic--claude''), (nano_usage, Some ''gpt-4.1-nano'')] (create_usage_metrics 0)"
  by (rule continuation_billed_like_direct) (simp add: claude_usage_def nano_usage_def js_count_def)

end
