(* ===== verification/Upstream_Error.thy ===== *)
theory Upstream_Error
  imports Js_Number
begin

text \<open>
  Errors of an upstream on their way to a client: the envelope of \<open>utils/upstreamErrorEnvelope.ts\<close> and the
  projection of a failure inside a stream (\<open>projectStreamError\<close> of
  \<open>responses/orchestrationBridge/streamTranslator.ts\<close>).

  The ellipsis put after a truncated text is outside the modelled characters and is the parameter \<open>ellipsis\<close>.
\<close>

definition MAX_MESSAGE_CHARS :: nat where
  "MAX_MESSAGE_CHARS = 2000"

definition SAFE_UPSTREAM_ERROR_FIELDS :: "string list" where
  "SAFE_UPSTREAM_ERROR_FIELDS = [''message'', ''type'', ''code'', ''param'', ''request_id'', ''location'']"

definition unwrap_upstream_error :: "js \<Rightarrow> js" where
  "unwrap_upstream_error v = (if is_objectish v \<and> is_objectish (jget v ''error'') then jget v ''error'' else v)"

definition sanitize_upstream_error_object :: "js \<Rightarrow> js" where
  "sanitize_upstream_error_object v =
     (if \<not> is_obj v then JObj []
      else JObj (map (\<lambda>k. (k, jget v k)) (filter (\<lambda>k. jget v k \<noteq> JUndef) SAFE_UPSTREAM_ERROR_FIELDS)))"

definition error_type_for_status :: "nat \<Rightarrow> string" where
  "error_type_for_status status =
     (if status = 401 \<or> status = 403 then ''authentication_error''
      else if status = 429 then ''rate_limit_error''
      else if 400 \<le> status \<and> status < 500 then ''invalid_request_error''
      else ''api_error'')"

definition truncate_upstream_message :: "string \<Rightarrow> string \<Rightarrow> string" where
  "truncate_upstream_message ellipsis t =
     (if MAX_MESSAGE_CHARS < length t then take MAX_MESSAGE_CHARS t @ ellipsis else t)"

text \<open>\<open>typeof v === 'string' && v ? v : d\<close>\<close>

definition text_or :: "js \<Rightarrow> string \<Rightarrow> string" where
  "text_or v d = (case v of JStr s \<Rightarrow> if s \<noteq> [] then s else d | _ \<Rightarrow> d)"

definition normalize_upstream_error :: "string \<Rightarrow> js \<Rightarrow> nat \<Rightarrow> string \<Rightarrow> js" where
  "normalize_upstream_error ellipsis body status fallback =
     (let ty = error_type_for_status status in
      if is_objectish body \<and> is_objectish (jget body ''error'') then
        (let safe = sanitize_upstream_error_object (jget body ''error'') in
         JObj [(''error'',
           jset ''code'' (if jget safe ''code'' \<noteq> JUndef then jget safe ''code'' else JNull)
             (jset ''type'' (JStr (text_or (jget safe ''type'') ty))
               (jset ''message'' (JStr (truncate_upstream_message ellipsis (text_or (jget safe ''message'') fallback)))
                 safe)))])
      else if is_objectish body then
        (let label = text_or (jget body ''error'') [];
             message = text_or (jget body ''message'') (if label \<noteq> [] then label else fallback)
         in JObj [(''error'',
              JObj [(''message'', JStr (truncate_upstream_message ellipsis message)), (''type'', JStr ty),
                    (''code'', if label \<noteq> [] then JStr label else JNull),
                    (''details'', sanitize_upstream_error_object body)])])
      else (case body of
              JStr t \<Rightarrow>
                if trim t \<noteq> [] then
                  JObj [(''error'',
                    JObj [(''message'', JStr (truncate_upstream_message ellipsis t)), (''type'', JStr ty), (''code'', JNull),
                          (''details'', JObj [(''raw'', JStr (truncate_upstream_message ellipsis t))])])]
                else JObj [(''error'', JObj [(''message'', JStr fallback), (''type'', JStr ty), (''code'', JNull)])]
            | _ \<Rightarrow> JObj [(''error'', JObj [(''message'', JStr fallback), (''type'', JStr ty), (''code'', JNull)])]))"

text \<open>The projection of a failure inside a stream; \<open>JNull\<close> when there is none.\<close>

definition numeric_code :: "js \<Rightarrow> js" where
  "numeric_code v =
     (case v of
        JNum n \<Rightarrow> JNum n
      | JStr s \<Rightarrow> if s \<noteq> [] \<and> list_all is_digit s
                  then (case digits_value 10 s 0 of Some n \<Rightarrow> JNum (rat_of_nat n) | None \<Rightarrow> JUndef) else JUndef
      | _ \<Rightarrow> JUndef)"

definition string_field :: "string \<Rightarrow> js \<Rightarrow> (string \<times> js) list" where
  "string_field k v = (case v of JStr s \<Rightarrow> [(k, JStr s)] | _ \<Rightarrow> [])"

definition project_stream_error :: "js \<Rightarrow> js \<Rightarrow> js" where
  "project_stream_error raw fallback_message =
     (if \<not> truthy raw then JNull
      else let err = (case raw of JStr s \<Rightarrow> JObj [(''message'', JStr s)] | _ \<Rightarrow> sanitize_upstream_error_object raw);
               message = text_or (jget err ''message'') (text_or fallback_message ''orchestration stream failed'')
        in JObj ([(''message'', JStr message)]
             @ (if numeric_code (jget err ''code'') \<noteq> JUndef then [(''code'', numeric_code (jget err ''code''))] else [])
             @ string_field ''type'' (jget err ''location'')
             @ string_field ''request_id'' (jget err ''request_id'')))"

section \<open>Nothing but the allow-list reaches the client\<close>

text \<open>Two upstream objects that agree on the fields that may be shown.\<close>

definition same_safe_fields :: "js \<Rightarrow> js \<Rightarrow> bool" where
  "same_safe_fields a b \<longleftrightarrow> list_all (\<lambda>k. jget a k = jget b k) SAFE_UPSTREAM_ERROR_FIELDS"

lemma obj_guards: "is_obj v \<Longrightarrow> is_objectish v" "is_obj v \<Longrightarrow> truthy v"
  by (cases v; simp)+

lemma sanitize_get:
  "jget (sanitize_upstream_error_object v) k = (if k \<in> set SAFE_UPSTREAM_ERROR_FIELDS then jget v k else JUndef)"
proof (cases "is_obj v")
  case True
  have "map_of (map (\<lambda>k. (k, jget v k)) ks) k = (if k \<in> set ks then Some (jget v k) else None)" for ks
    by (induction ks) auto
  with True show ?thesis by (simp add: sanitize_upstream_error_object_def)
qed (simp add: sanitize_upstream_error_object_def jget_not_obj)

lemma sanitize_same:
  assumes "same_safe_fields a b" "is_obj a \<longleftrightarrow> is_obj b"
  shows "sanitize_upstream_error_object a = sanitize_upstream_error_object b"
proof -
  have "jget a k = jget b k" if "k \<in> set SAFE_UPSTREAM_ERROR_FIELDS" for k
    using assms(1) that by (simp add: same_safe_fields_def list_all_iff)
  then have "filter (\<lambda>k. jget a k \<noteq> JUndef) SAFE_UPSTREAM_ERROR_FIELDS = filter (\<lambda>k. jget b k \<noteq> JUndef) SAFE_UPSTREAM_ERROR_FIELDS"
    "map (\<lambda>k. (k, jget a k)) (filter (\<lambda>k. jget b k \<noteq> JUndef) SAFE_UPSTREAM_ERROR_FIELDS)
     = map (\<lambda>k. (k, jget b k)) (filter (\<lambda>k. jget b k \<noteq> JUndef) SAFE_UPSTREAM_ERROR_FIELDS)"
    by (auto intro!: filter_cong map_cong)
  then show ?thesis using assms(2) by (simp add: sanitize_upstream_error_object_def)
qed

text \<open>
  What a client sees of an upstream error depends on the allowed fields only: two error objects that agree on them
  give the same envelope, whatever else they carry, nested in the body or at its top level.
\<close>

lemma nested_error_shows_safe_fields:
  assumes "same_safe_fields e e'" "is_obj e" "is_obj e'"
  shows "normalize_upstream_error ellipsis (JObj ((''error'', e) # more1)) status fallback
       = normalize_upstream_error ellipsis (JObj ((''error'', e') # more2)) status fallback"
proof -
  have "is_objectish e" "is_objectish e'" using assms(2,3) by (auto intro: obj_guards)
  then show ?thesis using sanitize_same [OF assms(1)] assms(2,3) by (simp add: normalize_upstream_error_def)
qed

lemma flat_error_shows_safe_fields:
  assumes "same_safe_fields b b'" "is_obj b" "is_obj b'" "jget b ''error'' = jget b' ''error''"
    "\<not> is_objectish (jget b ''error'')"
  shows "normalize_upstream_error ellipsis b status fallback = normalize_upstream_error ellipsis b' status fallback"
proof -
  have "is_objectish b" "is_objectish b'" using assms(2,3) by (auto intro: obj_guards)
  moreover have "jget b ''message'' = jget b' ''message''"
    using assms(1) by (simp add: same_safe_fields_def SAFE_UPSTREAM_ERROR_FIELDS_def)
  ultimately show ?thesis
    using sanitize_same [OF assms(1)] assms(2-5) by (simp add: normalize_upstream_error_def)
qed

lemma stream_error_shows_safe_fields:
  assumes "same_safe_fields e e'" "is_obj e" "is_obj e'"
  shows "project_stream_error e fallback = project_stream_error e' fallback"
proof -
  have "truthy e" "truthy e'" using assms(2,3) by (auto intro: obj_guards)
  then show ?thesis
    using sanitize_same [OF assms(1)] assms(2,3)
    by (cases e; cases e'; simp add: project_stream_error_def)
qed

text \<open>An upstream error body reaches the client through the allow-list alone: replacing the error object of a
  body by one that agrees on the six allowed fields, and everything beside it by anything else, changes neither the
  envelope of a response nor the failure frame of a stream.
\<close>

theorem upstream_error_hides_other_fields:
  assumes "same_safe_fields e e'" "is_obj e" "is_obj e'"
  shows "normalize_upstream_error ellipsis (JObj ((''error'', e) # more1)) status fallback
           = normalize_upstream_error ellipsis (JObj ((''error'', e') # more2)) status fallback
    \<and> project_stream_error e message = project_stream_error e' message"
  using nested_error_shows_safe_fields [OF assms] stream_error_shows_safe_fields [OF assms] by blast

definition leaky_error :: "js \<Rightarrow> js" where
  "leaky_error templated =
     JObj [(''code'', JNum 400), (''message'', JStr ''bad''), (''intermediate_results'', templated)]"

lemma upstream_error_hides_other_fields_witness:
  "normalize_upstream_error [] (JObj [(''error'', leaky_error (JStr ''the prompt''))]) 400 ''failed''
     = normalize_upstream_error [] (JObj [(''error'', leaky_error JNull), (''detail'', JNull)]) 400 ''failed''
   \<and> project_stream_error (leaky_error (JStr ''the prompt'')) JUndef = project_stream_error (leaky_error JNull) JUndef"
  by (rule upstream_error_hides_other_fields)
    (simp_all add: same_safe_fields_def SAFE_UPSTREAM_ERROR_FIELDS_def leaky_error_def)

end
