(* ===== verification/Sse_Framing.thy ===== *)
theory Sse_Framing
  imports Prelude
begin

text \<open>
  The framing of server-sent events that the interceptors of the Responses stream share (\<open>utils/sseFraming.ts\<close>):
  cutting a stream into blocks, reading the frame of a block, writing a frame, and putting a changed frame back.

  \<open>JSON.parse\<close> and \<open>JSON.stringify\<close> are the parameters \<open>parse\<close> and \<open>stringify\<close>.
\<close>

definition TERMINAL_RESPONSE_TYPES :: "string list" where
  "TERMINAL_RESPONSE_TYPES = [''response.completed'', ''response.incomplete'', ''response.failed'']"

abbreviation LF :: char where
  "LF \<equiv> CHR 0x0A"

text \<open>\<open>split('\n\n')\<close>\<close>

fun split_blank :: "string \<Rightarrow> string list" where
  "split_blank [] = [[]]"
| "split_blank [c] = [[c]]"
| "split_blank (c # d # cs) =
     (if c = LF \<and> d = LF then [] # split_blank cs
      else (case split_blank (d # cs) of [] \<Rightarrow> [[c]] | p # ps \<Rightarrow> (c # p) # ps))"

definition split_blocks :: "string \<Rightarrow> string list \<times> string" where
  "split_blocks pending =
     (let parts = split_blank pending in (map (\<lambda>p. p @ [LF, LF]) (butlast parts), last parts))"

definition parse_frame :: "(string \<Rightarrow> js option) \<Rightarrow> string \<Rightarrow> js option" where
  "parse_frame parse block =
     (case find (prefix ''data: '') (split_char LF block) of
        None \<Rightarrow> None
      | Some line \<Rightarrow> parse (drop 6 line))"

definition sse_block :: "(js \<Rightarrow> string) \<Rightarrow> js \<Rightarrow> string" where
  "sse_block stringify frame = ''data: '' @ stringify frame @ [LF, LF]"

text \<open>Whether the two frames are the same object is the argument \<open>same\<close>.\<close>

definition rebuild_block_with_substitution :: "(js \<Rightarrow> string) \<Rightarrow> string \<Rightarrow> bool \<Rightarrow> js \<Rightarrow> string" where
  "rebuild_block_with_substitution stringify raw_block same substituted =
     (if same then raw_block
      else join [LF] (map (\<lambda>line. if prefix ''data: '' line then ''data: '' @ stringify substituted else line)
             (split_char LF raw_block)))"

section \<open>The blocks are the stream\<close>

lemma split_blank_ne [simp]: "split_blank s \<noteq> []"
  by (induction s rule: split_blank.induct) (auto split: list.splits)

lemma split_blank_lossless:
  "concat (map (\<lambda>p. p @ [LF, LF]) (butlast (split_blank s))) @ last (split_blank s) = s"
proof (induction s rule: split_blank.induct)
  case (3 c d cs)
  show ?case
  proof (cases "c = LF \<and> d = LF")
    case True
    then show ?thesis using 3(1) by simp
  next
    case False
    obtain p ps where parts: "split_blank (d # cs) = p # ps" by (cases "split_blank (d # cs)") auto
    with 3(2) [OF False] False show ?thesis by (cases ps) auto
  qed
qed simp_all

text \<open>No text is lost: the blocks and the tail are the text.\<close>

lemma split_blocks_lossless: "concat (fst (split_blocks s)) @ snd (split_blocks s) = s"
  using split_blank_lossless [of s] by (simp add: split_blocks_def Let_def)

lemma split_blank_append:
  "split_blank (a @ b) = butlast (split_blank a) @ split_blank (last (split_blank a) @ b)"
proof (induction a rule: split_blank.induct)
  case (3 c d cs)
  show ?case
  proof (cases "c = LF \<and> d = LF")
    case True
    then show ?thesis using 3(1) by simp
  next
    case False
    obtain p ps where parts: "split_blank (d # cs) = p # ps" by (cases "split_blank (d # cs)") auto
    show ?thesis
    proof (cases ps)
      case Nil
      then have "concat (map (\<lambda>p. p @ [LF, LF]) (butlast (p # ps))) @ last (p # ps) = p" by simp
      then have "p = d # cs" using split_blank_lossless [of "d # cs"] parts by simp
      then have "split_blank (c # d # cs) = [c # d # cs]" using False Nil parts by simp
      then show ?thesis by (simp del: split_blank.simps)
    next
      case (Cons q qs)
      have "split_blank ((d # cs) @ b) = (p # butlast ps) @ split_blank (last ps @ b)"
        using 3(2) [OF False] parts Cons by simp
      then show ?thesis using False parts Cons by auto
    qed
  qed
qed simp_all

text \<open>Carrying the tail over, two pieces give the blocks of their concatenation.\<close>

lemma split_blocks_append:
  "split_blocks (a @ b) =
     (case split_blocks a of (bs, tail) \<Rightarrow> (case split_blocks (tail @ b) of (bs', tail') \<Rightarrow> (bs @ bs', tail')))"
  by (simp add: split_blocks_def Let_def split_blank_append [of a b] butlast_append)

text \<open>The blocks of a stream that arrives in pieces.\<close>

fun feed_blocks :: "string list \<Rightarrow> string \<Rightarrow> string list \<times> string" where
  "feed_blocks [] tail = ([], tail)"
| "feed_blocks (c # cs) tail =
     (case split_blocks (tail @ c) of (bs, tail') \<Rightarrow> (case feed_blocks cs tail' of (bs', t) \<Rightarrow> (bs @ bs', t)))"

lemma split_blocks_tail: "split_blocks a = (bs, tail) \<Longrightarrow> split_blocks tail = ([], tail)"
proof -
  assume "split_blocks a = (bs, tail)"
  then have tail: "tail = last (split_blank a)" by (simp add: split_blocks_def Let_def)
  have "split_blank a = butlast (split_blank a) @ split_blank tail"
    using split_blank_append [of a "[]"] tail by simp
  then have "split_blank tail = [last (split_blank a)]"
    using append_butlast_last_id [of "split_blank a"] by (metis same_append_eq split_blank_ne)
  then show ?thesis by (simp add: split_blocks_def tail)
qed

lemma feed_blocks_whole: "split_blocks tail = ([], tail) \<Longrightarrow> feed_blocks cs tail = split_blocks (tail @ concat cs)"
proof (induction cs arbitrary: tail)
  case (Cons c cs)
  obtain bs t where s: "split_blocks (tail @ c) = (bs, t)" by force
  have "split_blocks (tail @ concat (c # cs)) = (case split_blocks (t @ concat cs) of (bs', t') \<Rightarrow> (bs @ bs', t'))"
    using split_blocks_append [of "tail @ c" "concat cs"] s by simp
  then show ?case using Cons.IH [OF split_blocks_tail [OF s]] s by simp
qed simp

lemma feed_blocks_chunk_independent: "concat cs = concat ds \<Longrightarrow> feed_blocks cs [] = feed_blocks ds []"
  by (simp add: feed_blocks_whole split_blocks_def)

text \<open>A written frame is read back.\<close>

lemma split_char_no: "c \<notin> set s \<Longrightarrow> split_char c (s @ c # t) = s # split_char c t"
  by (induction s) auto

lemma parse_sse_block:
  assumes "LF \<notin> set (stringify f)" "parse (stringify f) = Some f"
  shows "parse_frame parse (sse_block stringify f) = Some f"
proof -
  have "LF \<notin> set (''data: '' @ stringify f)" using assms(1) by simp
  from split_char_no [OF this, of "[LF]"]
  have "split_char LF (sse_block stringify f) = (''data: '' @ stringify f) # split_char LF [LF]"
    by (simp add: sse_block_def)
  then show ?thesis using assms(2) by (simp add: parse_frame_def)
qed

text \<open>Putting the frame a block carries back into it changes nothing else.\<close>

lemma rebuild_same_frame:
  assumes "list_all (\<lambda>line. prefix ''data: '' line \<longrightarrow> line = ''data: '' @ stringify f) (split_char LF block)"
  shows "rebuild_block_with_substitution stringify block False f = block"
proof -
  have "map (\<lambda>line. if prefix ''data: '' line then ''data: '' @ stringify f else line) (split_char LF block)
    = split_char LF block"
    using assms by (intro map_idI) (auto simp: list_all_iff)
  then show ?thesis by (simp add: rebuild_block_with_substitution_def join_split_char)
qed

end
