(* ===== verification/Responses_Bridge.thy ===== *)
theory Responses_Bridge
  imports Usage_Folding Upstream_Error Sse_Framing
begin

text \<open>
  The answers of the Responses bridge: an orchestration envelope becomes a Responses object
  (\<open>responses/orchestrationBridge/responseTranslator.ts\<close>), a stream of chat deltas becomes the event stream of a
  Responses turn (\<open>streamTranslator.ts\<close>).

  The closure of a turn is the record \<open>turn\<close>. Frames are \<open>js\<close> values; \<open>sse_block\<close> writes them. The random part of
  an item id is \<open>rnd n\<close> for the \<open>n\<close>-th id of the turn, the time stamp is the argument \<open>now\<close> of each operation. A
  value that is iterated is a list (anything else is empty), and the name and argument fragments of a tool call are strings
  where they are concatenated.
\<close>

section \<open>The blocking translation\<close>

definition js_list :: "js \<Rightarrow> js list" where
  "js_list v = (case v of JArr xs \<Rightarrow> xs | _ \<Rightarrow> [])"

definition js_first :: "js \<Rightarrow> js" where
  "js_first v = (case js_list v of [] \<Rightarrow> JUndef | x # _ \<Rightarrow> x)"

definition item_id :: "(nat \<Rightarrow> string) \<Rightarrow> string \<Rightarrow> nat \<Rightarrow> string" where
  "item_id rnd kind n = kind @ ''_'' @ rnd n"

text \<open>The status, and the details of an incomplete turn.\<close>

definition status_for_finish_reason :: "js \<Rightarrow> string \<times> js" where
  "status_for_finish_reason reason =
     (if reason = JStr ''length'' then (''incomplete'', JObj [(''reason'', JStr ''max_output_tokens'')])
      else if reason = JStr ''content_filter'' then (''incomplete'', JObj [(''reason'', JStr ''content_filter'')])
      else (''completed'', JUndef))"

record bridge_options =
  bo_model :: string
  bo_sap_model :: string
  bo_response_id :: string

definition block_text :: "js \<Rightarrow> string" where
  "block_text b = (case jget b ''content'' of JStr s \<Rightarrow> s | _ \<Rightarrow> [])"

definition reasoning_output_item :: "string \<Rightarrow> js \<Rightarrow> js option" where
  "reasoning_output_item i v =
     (if \<not> is_arr v then None
      else let t = trim (concat (map block_text (js_list v))) in
        if t = [] then None
        else Some (JObj [(''type'', JStr ''reasoning''), (''id'', JStr i),
               (''summary'', JArr [JObj [(''type'', JStr ''summary_text''), (''text'', JStr t)]]), (''content'', JArr [])]))"

definition message_item :: "string \<Rightarrow> string \<Rightarrow> js" where
  "message_item i t =
     JObj [(''type'', JStr ''message''), (''id'', JStr i), (''role'', JStr ''assistant''), (''status'', JStr ''completed''),
           (''content'', JArr [JObj [(''type'', JStr ''output_text''), (''text'', JStr t), (''annotations'', JArr [])]])]"

definition call_item :: "string \<Rightarrow> js \<Rightarrow> js \<Rightarrow> js \<Rightarrow> js" where
  "call_item i call_id name args =
     JObj [(''type'', JStr ''function_call''), (''id'', JStr i), (''call_id'', call_id), (''name'', name),
           (''arguments'', args), (''status'', JStr ''completed'')]"

definition translate_orchestration_response :: "(nat \<Rightarrow> string) \<Rightarrow> nat \<Rightarrow> bridge_options \<Rightarrow> js \<Rightarrow> js" where
  "translate_orchestration_response rnd now opts envelope =
     (let body = nullish (jget envelope ''final_result'') (nullish envelope (JObj []));
          choice = js_first (jget body ''choices'');
          message = nullish (jget choice ''message'') (JObj []);
          reasoning = (case reasoning_output_item (item_id rnd ''rs'' 0) (jget message ''reasoning_content'') of
                         None \<Rightarrow> [] | Some i \<Rightarrow> [i]);
          answer = (case jget message ''content'' of
                      JStr t \<Rightarrow> if t \<noteq> [] then [message_item (item_id rnd ''msg'' 1) t] else []
                    | _ \<Rightarrow> []);
          calls = map (\<lambda>(n, call). call_item (item_id rnd ''fc'' (n + 2)) (jget call ''id'')
                           (jget (jget call ''function'') ''name'') (jget (jget call ''function'') ''arguments''))
                    (enumerate 0 (js_list (jget message ''tool_calls'')));
          (status, incomplete) = status_for_finish_reason (jget choice ''finish_reason'')
      in JObj ([(''id'', JStr (bo_response_id opts)), (''object'', JStr ''response''), (''created_at'', JNum (rat_of_nat now)),
                (''model'', JStr (bo_model opts)), (''status'', JStr status), (''output'', JArr (reasoning @ answer @ calls)),
                (''usage'', translate_usage (if truthy (jget body ''usage'') then jget body ''usage'' else JObj [])
                   (Some (bo_sap_model opts))),
                (''error'', JNull)]
               @ (if incomplete \<noteq> JUndef then [(''incomplete_details'', incomplete)] else [])))"

section \<open>The streaming translation\<close>

record tool_acc =
  ta_id :: js
  ta_name :: js
  ta_args :: string

record turn =
  tn_seq :: nat
  tn_opened :: bool
  tn_failure :: js
  tn_finished :: bool
  tn_text_open :: bool
  tn_text :: string
  tn_message_id :: string
  tn_reasoning :: string
  tn_reasoning_id :: string
  tn_reasoning_closed :: bool
  tn_message_index :: nat
  tn_usage :: js
  tn_finish_reason :: js
  tn_calls :: "(js \<times> tool_acc) list"
  tn_ids :: nat

definition turn_init :: turn where
  "turn_init =
     \<lparr> tn_seq = 0, tn_opened = False, tn_failure = JNull, tn_finished = False, tn_text_open = False, tn_text = [],
       tn_message_id = [], tn_reasoning = [], tn_reasoning_id = [], tn_reasoning_closed = False, tn_message_index = 0,
       tn_usage = JNull, tn_finish_reason = JNull, tn_calls = [], tn_ids = 0 \<rparr>"

text \<open>The frames of an operation and the state, while it runs.\<close>

type_synonym emission = "js list \<times> turn"

definition emit :: "(string \<times> js) list \<Rightarrow> emission \<Rightarrow> emission" where
  "emit kvs e =
     (fst e @ [JObj (kvs @ [(''sequence_number'', JNum (rat_of_nat (tn_seq (snd e))))])],
      (snd e)\<lparr> tn_seq := Suc (tn_seq (snd e)) \<rparr>)"

definition response_envelope :: "bridge_options \<Rightarrow> nat \<Rightarrow> turn \<Rightarrow> string \<Rightarrow> js list \<Rightarrow> bool \<Rightarrow> (string \<times> js) list" where
  "response_envelope opts now st status output zero_fill_if_missing =
     [(''id'', JStr (bo_response_id opts)), (''object'', JStr ''response''), (''created_at'', JNum (rat_of_nat now)),
      (''model'', JStr (bo_model opts)), (''status'', JStr status)]
     @ (if status = ''incomplete'' then [(''incomplete_details'', snd (status_for_finish_reason (tn_finish_reason st)))] else [])
     @ [(''output'', JArr output),
        (''usage'', if truthy (tn_usage st) then translate_usage (tn_usage st) (Some (bo_sap_model opts))
                  else if zero_fill_if_missing then translate_usage JUndef (Some (bo_sap_model opts)) else JUndef),
        (''error'', JNull)]"

definition summary_part :: "string \<Rightarrow> js" where
  "summary_part t = JObj [(''type'', JStr ''summary_text''), (''text'', JStr t)]"

definition reasoning_item :: "turn \<Rightarrow> js option" where
  "reasoning_item st =
     (if tn_reasoning_id st = [] then None
      else let t = trim (tn_reasoning st) in
        Some (JObj [(''type'', JStr ''reasoning''), (''id'', JStr (tn_reasoning_id st)),
               (''summary'', JArr (if t \<noteq> [] then [summary_part t] else [])), (''content'', JArr [])]))"

definition reasoning_fields :: "string \<Rightarrow> turn \<Rightarrow> (string \<times> js) list" where
  "reasoning_fields ty st =
     [(''type'', JStr ty), (''item_id'', JStr (tn_reasoning_id st)), (''output_index'', JNum 0), (''summary_index'', JNum 0)]"

definition item_frame :: "string \<Rightarrow> nat \<Rightarrow> js \<Rightarrow> (string \<times> js) list" where
  "item_frame ty index item = [(''type'', JStr ty), (''output_index'', JNum (rat_of_nat index)), (''item'', item)]"

definition close_reasoning :: "emission \<Rightarrow> emission" where
  "close_reasoning e =
     (let st = snd e in
      case reasoning_item st of
        None \<Rightarrow> e
      | Some item \<Rightarrow>
          if tn_reasoning_closed st then e
          else let t = trim (tn_reasoning st); e1 = (fst e, st\<lparr> tn_reasoning_closed := True \<rparr>);
                   e2 = (if t = [] then e1
                         else emit (reasoning_fields ''response.reasoning_summary_part.done'' st @ [(''part'', summary_part t)])
                                (emit (reasoning_fields ''response.reasoning_summary_text.done'' st @ [(''text'', JStr t)]) e1))
               in emit (item_frame ''response.output_item.done'' 0 item) e2)"

definition open_turn :: "bridge_options \<Rightarrow> nat \<Rightarrow> emission \<Rightarrow> emission" where
  "open_turn opts now e =
     (if tn_opened (snd e) then e
      else let e1 = (fst e, (snd e)\<lparr> tn_opened := True \<rparr>);
               envelope = (\<lambda>e. JObj (response_envelope opts now (snd e) ''in_progress'' [] False))
           in (\<lambda>e2. emit [(''type'', JStr ''response.in_progress''), (''response'', envelope e2)] e2)
                (emit [(''type'', JStr ''response.created''), (''response'', envelope e1)] e1))"

definition open_reasoning :: "(nat \<Rightarrow> string) \<Rightarrow> emission \<Rightarrow> emission" where
  "open_reasoning rnd e =
     (let st = snd e; i = item_id rnd ''rs'' (tn_ids st); st1 = st\<lparr> tn_reasoning_id := i, tn_ids := Suc (tn_ids st) \<rparr>
      in emit (reasoning_fields ''response.reasoning_summary_part.added'' st1 @ [(''part'', summary_part [])])
           (emit (item_frame ''response.output_item.added'' 0
              (JObj [(''type'', JStr ''reasoning''), (''id'', JStr i), (''summary'', JArr []), (''content'', JArr [])]))
              (fst e, st1)))"

definition reasoning_text :: "js \<Rightarrow> string" where
  "reasoning_text delta = concat (map block_text (js_list (jget delta ''reasoning_content'')))"

definition reasoning_step :: "(nat \<Rightarrow> string) \<Rightarrow> js \<Rightarrow> emission \<Rightarrow> emission" where
  "reasoning_step rnd delta e =
     (if reasoning_text delta = [] then e
      else let e1 = (if tn_reasoning_id (snd e) \<noteq> [] then e else open_reasoning rnd e);
               st2 = (snd e1)\<lparr> tn_reasoning := tn_reasoning (snd e1) @ reasoning_text delta \<rparr>
           in emit (reasoning_fields ''response.reasoning_summary_text.delta'' st2 @ [(''delta'', JStr (reasoning_text delta))])
                (fst e1, st2))"

definition text_part :: "string \<Rightarrow> js" where
  "text_part t = JObj [(''type'', JStr ''output_text''), (''text'', JStr t), (''annotations'', JArr [])]"

definition text_fields :: "string \<Rightarrow> turn \<Rightarrow> (string \<times> js) list" where
  "text_fields ty st =
     [(''type'', JStr ty), (''item_id'', JStr (tn_message_id st)), (''output_index'', JNum (rat_of_nat (tn_message_index st))),
      (''content_index'', JNum 0)]"

definition open_text :: "(nat \<Rightarrow> string) \<Rightarrow> emission \<Rightarrow> emission" where
  "open_text rnd e =
     (let e1 = close_reasoning e; st = snd e1; i = item_id rnd ''msg'' (tn_ids st);
          st1 = st\<lparr> tn_text_open := True, tn_message_id := i, tn_ids := Suc (tn_ids st),
                    tn_message_index := (if tn_reasoning_id st \<noteq> [] then 1 else 0) \<rparr>
      in emit (text_fields ''response.content_part.added'' st1 @ [(''part'', text_part [])])
           (emit (item_frame ''response.output_item.added'' (tn_message_index st1)
              (JObj [(''type'', JStr ''message''), (''id'', JStr i), (''role'', JStr ''assistant''),
                     (''status'', JStr ''in_progress''), (''content'', JArr [])]))
              (fst e1, st1)))"

definition text_step :: "(nat \<Rightarrow> string) \<Rightarrow> js \<Rightarrow> emission \<Rightarrow> emission" where
  "text_step rnd delta e =
     (case jget delta ''content'' of
        JStr t \<Rightarrow>
          if t = [] then e
          else let e1 = (if tn_text_open (snd e) then e else open_text rnd e);
                   st = (snd e1)\<lparr> tn_text := tn_text (snd e1) @ t \<rparr>
               in emit (text_fields ''response.output_text.delta'' st @ [(''delta'', JStr t)]) (fst e1, st)
      | _ \<Rightarrow> e)"

definition chunk_call_step :: "js \<Rightarrow> (js \<times> tool_acc) list \<Rightarrow> (js \<times> tool_acc) list" where
  "chunk_call_step call calls =
     (let idx = nullish (jget call ''index'') (JNum 0);
          acc = (case map_of calls idx of Some a \<Rightarrow> a | None \<Rightarrow> \<lparr> ta_id = JStr [], ta_name = JStr [], ta_args = [] \<rparr>);
          name = jget (jget call ''function'') ''name''; args = jget (jget call ''function'') ''arguments''
      in AList.update idx
           \<lparr> ta_id = (if truthy (jget call ''id'') then jget call ''id'' else ta_id acc),
             ta_name = (if truthy name then name else ta_name acc),
             ta_args = ta_args acc @ (case args of JStr s \<Rightarrow> s | _ \<Rightarrow> []) \<rparr> calls)"

definition chunk_error :: "js \<Rightarrow> js" where
  "chunk_error chunk = nullish (jget chunk ''error'') (jget (jget chunk ''final_result'') ''error'')"

definition chunk_body :: "js \<Rightarrow> js" where
  "chunk_body chunk = nullish (jget chunk ''final_result'') (nullish chunk (JObj []))"

definition chunk_choice :: "js \<Rightarrow> js" where
  "chunk_choice chunk = js_first (jget (chunk_body chunk) ''choices'')"

definition chunk_delta :: "js \<Rightarrow> js" where
  "chunk_delta chunk = nullish (jget (chunk_choice chunk) ''delta'') (JObj [])"

definition fail_turn :: "bridge_options \<Rightarrow> nat \<Rightarrow> js \<Rightarrow> turn \<Rightarrow> emission" where
  "fail_turn opts now chunk st =
     (let failure = project_stream_error (chunk_error chunk) (jget chunk ''message'');
          e = open_turn opts now ([], st\<lparr> tn_failure := failure \<rparr>)
      in emit [(''type'', JStr ''response.failed''),
               (''response'', jset ''error'' failure (JObj (response_envelope opts now (snd e) ''failed'' [] True)))] e)"

definition on_chunk :: "(nat \<Rightarrow> string) \<Rightarrow> bridge_options \<Rightarrow> nat \<Rightarrow> js \<Rightarrow> turn \<Rightarrow> emission" where
  "on_chunk rnd opts now chunk st =
     (if truthy (chunk_error chunk) \<and> tn_failure st = JNull
      then (if tn_finished st then ([], st) else fail_turn opts now chunk st)
      else if tn_failure st \<noteq> JNull then ([], st)
      else let usage = jget (chunk_body chunk) ''usage''; reason = jget (chunk_choice chunk) ''finish_reason'';
               st1 = st\<lparr> tn_usage := (if truthy usage then usage else tn_usage st),
                         tn_finish_reason := (if truthy reason then reason else tn_finish_reason st) \<rparr>;
               delta = chunk_delta chunk;
               e = text_step rnd delta (reasoning_step rnd delta (open_turn opts now ([], st1)))
           in (fst e, (snd e)\<lparr> tn_calls := fold chunk_call_step (js_list (jget delta ''tool_calls'')) (tn_calls (snd e)) \<rparr>))"

definition failure_status :: "turn \<Rightarrow> js option" where
  "failure_status st =
     (if tn_failure st = JNull then None else Some (nullish (jget (tn_failure st) ''code'') (JNum 502)))"

text \<open>The closing of the turn, in the order of the source; the items collected so far come along.\<close>

definition finish_text :: "js list \<times> emission \<Rightarrow> js list \<times> emission" where
  "finish_text x =
     (case x of (output, e) \<Rightarrow>
        let st = snd e in
        if \<not> tn_text_open st then (output, e)
        else let item = message_item (tn_message_id st) (tn_text st) in
          (output @ [item],
           emit (item_frame ''response.output_item.done'' (tn_message_index st) item)
             (emit (text_fields ''response.content_part.done'' st @ [(''part'', text_part (tn_text st))])
                (emit (text_fields ''response.output_text.done'' st @ [(''text'', JStr (tn_text st))]) e))))"

definition finish_call :: "(nat \<Rightarrow> string) \<Rightarrow> tool_acc \<Rightarrow> js list \<times> emission \<Rightarrow> js list \<times> emission" where
  "finish_call rnd acc x =
     (case x of (output, e) \<Rightarrow>
        let st = snd e; item = call_item (item_id rnd ''fc'' (tn_ids st)) (ta_id acc) (ta_name acc) (JStr (ta_args acc));
            index = length output
        in (output @ [item],
            emit (item_frame ''response.output_item.done'' index item)
              (emit (item_frame ''response.output_item.added'' index item) (fst e, st\<lparr> tn_ids := Suc (tn_ids st) \<rparr>))))"

definition finish_items :: "(nat \<Rightarrow> string) \<Rightarrow> emission \<Rightarrow> js list \<times> emission" where
  "finish_items rnd e =
     (let e1 = close_reasoning e;
          output = (case reasoning_item (snd e1) of None \<Rightarrow> [] | Some i \<Rightarrow> [i])
      in fold (finish_call rnd) (map snd (tn_calls (snd e1))) (finish_text (output, e1)))"

definition finish_turn :: "(nat \<Rightarrow> string) \<Rightarrow> bridge_options \<Rightarrow> nat \<Rightarrow> turn \<Rightarrow> emission" where
  "finish_turn rnd opts now st =
     (let st1 = st\<lparr> tn_finished := True \<rparr> in
      if tn_failure st1 \<noteq> JNull then ([], st1)
      else case finish_items rnd (open_turn opts now ([], st1)) of
        (output, e) \<Rightarrow>
          let status = fst (status_for_finish_reason (tn_finish_reason (snd e)))
          in emit [(''type'', JStr (if status = ''incomplete'' then ''response.incomplete'' else ''response.completed'')),
                   (''response'', JObj (response_envelope opts now (snd e) status output True))] e)"

text \<open>The same translator over raw blocks.\<close>

definition on_block ::
  "(string \<Rightarrow> js option) \<Rightarrow> (nat \<Rightarrow> string) \<Rightarrow> bridge_options \<Rightarrow> nat \<Rightarrow> string \<Rightarrow> turn \<Rightarrow> emission" where
  "on_block parse rnd opts now raw st =
     (case find (prefix ''data:'') (split_char LF raw) of
        None \<Rightarrow> ([], st)
      | Some line \<Rightarrow>
          let d = trim (drop 5 line) in
          if d = [] \<or> d = ''[DONE]'' then ([], st)
          else (case parse d of None \<Rightarrow> ([], st) | Some chunk \<Rightarrow> on_chunk rnd opts now chunk st))"

end
