(* ===== verification/Responses_Turn.thy ===== *)
theory Responses_Turn
  imports Responses_Bridge
begin

text \<open>
  What the stream translator of the Responses bridge keeps: a turn opens, numbers its frames without gaps and
  ends with exactly one terminal frame, and a streamed turn tells the client what the blocking translation of the
  same answer tells.
\<close>

section \<open>A whole turn\<close>

fun run_chunks :: "(nat \<Rightarrow> string) \<Rightarrow> bridge_options \<Rightarrow> (nat \<times> js) list \<Rightarrow> turn \<Rightarrow> emission" where
  "run_chunks rnd opts [] st = ([], st)"
| "run_chunks rnd opts ((now, c) # cs) st =
     (case on_chunk rnd opts now c st of
        (fs, st1) \<Rightarrow> (case run_chunks rnd opts cs st1 of (gs, st2) \<Rightarrow> (fs @ gs, st2)))"

definition turn_frames :: "(nat \<Rightarrow> string) \<Rightarrow> bridge_options \<Rightarrow> (nat \<times> js) list \<Rightarrow> nat \<Rightarrow> js list" where
  "turn_frames rnd opts chunks now =
     (case run_chunks rnd opts chunks turn_init of (fs, st) \<Rightarrow> fs @ fst (finish_turn rnd opts now st))"

definition frame_type :: "js \<Rightarrow> string" where
  "frame_type f = (case jget f ''type'' of JStr s \<Rightarrow> s | _ \<Rightarrow> [])"

definition terminal :: "js \<Rightarrow> bool" where
  "terminal f \<longleftrightarrow> frame_type f \<in> set TERMINAL_RESPONSE_TYPES"

text \<open>The frames carry the numbers from \<open>n\<close> on, without gaps.\<close>

fun numbered :: "nat \<Rightarrow> js list \<Rightarrow> bool" where
  "numbered n [] = True"
| "numbered n (f # fs) = (jget f ''sequence_number'' = JNum (rat_of_nat n) \<and> numbered (Suc n) fs)"

lemma numbered_append: "numbered n (fs @ gs) \<longleftrightarrow> numbered n fs \<and> numbered (n + length fs) gs"
  by (induction n fs rule: numbered.induct) auto

section \<open>What a step adds\<close>

lemma snd_emit [simp]: "snd (emit kvs e) = (snd e)\<lparr> tn_seq := Suc (tn_seq (snd e)) \<rparr>"
  by (simp add: emit_def)

text \<open>The frames a step adds have types in \<open>Q\<close> and the next sequence numbers.\<close>

definition adds :: "(string list \<Rightarrow> bool) \<Rightarrow> emission \<Rightarrow> emission \<Rightarrow> bool" where
  "adds Q e e' \<longleftrightarrow>
     (\<exists>new. fst e' = fst e @ new \<and> Q (map frame_type new) \<and> numbered (tn_seq (snd e)) new
        \<and> tn_seq (snd e') = tn_seq (snd e) + length new)"

definition ordinary :: "string list \<Rightarrow> bool" where
  "ordinary ts \<longleftrightarrow> list_all (\<lambda>t. t \<notin> set TERMINAL_RESPONSE_TYPES) ts"

lemma adds_trans:
  assumes "adds Q e e'" "adds R e' e''" "\<And>a b. Q a \<Longrightarrow> R b \<Longrightarrow> S (a @ b)"
  shows "adds S e e''"
proof -
  obtain a b where "fst e' = fst e @ a" "Q (map frame_type a)" "numbered (tn_seq (snd e)) a"
    "tn_seq (snd e') = tn_seq (snd e) + length a" "fst e'' = fst e' @ b" "R (map frame_type b)"
    "numbered (tn_seq (snd e')) b" "tn_seq (snd e'') = tn_seq (snd e') + length b"
    using assms(1,2) unfolding adds_def by blast
  then show ?thesis
    unfolding adds_def using assms(3) [of "map frame_type a" "map frame_type b"]
    by (intro exI [of _ "a @ b"]) (simp add: numbered_append)
qed

lemma adds_ordinary_trans:
  assumes "adds ordinary e e'" "adds ordinary e' e''"
  shows "adds ordinary e e''"
  by (rule adds_trans [OF assms]) (simp add: ordinary_def)

lemma adds_refl: "fst e' = fst e \<Longrightarrow> tn_seq (snd e') = tn_seq (snd e) \<Longrightarrow> adds ordinary e e'"
  unfolding adds_def by (intro exI [of _ "[]"]) (simp add: ordinary_def)

text \<open>A frame with a type and no number of its own.\<close>

definition typed :: "string \<Rightarrow> (string \<times> js) list \<Rightarrow> bool" where
  "typed ty kvs \<longleftrightarrow> map_of kvs ''type'' = Some (JStr ty) \<and> map_of kvs ''sequence_number'' = None"

lemma emit_adds:
  assumes "typed ty kvs" "Q [ty]"
  shows "adds Q e (emit kvs e)"
proof -
  let ?f = "JObj (kvs @ [(''sequence_number'', JNum (rat_of_nat (tn_seq (snd e))))])"
  have "frame_type ?f = ty" using assms(1) by (simp add: typed_def frame_type_def map_add_def)
  moreover have "jget ?f ''sequence_number'' = JNum (rat_of_nat (tn_seq (snd e)))"
    using assms(1) by (simp add: typed_def map_add_def)
  ultimately show ?thesis
    unfolding adds_def using assms(2) by (intro exI [of _ "[?f]"]) (simp add: emit_def del: jget.simps)
qed

definition plain_frame :: "(string \<times> js) list \<Rightarrow> bool" where
  "plain_frame kvs \<longleftrightarrow>
     (case map_of kvs ''type'' of Some (JStr ty) \<Rightarrow> typed ty kvs \<and> ty \<notin> set TERMINAL_RESPONSE_TYPES | _ \<Rightarrow> False)"

lemma then_emit:
  assumes "adds ordinary e e'" "plain_frame kvs"
  shows "adds ordinary e (emit kvs e')"
proof -
  obtain ty where "typed ty kvs" "ty \<notin> set TERMINAL_RESPONSE_TYPES"
    using assms(2) by (auto simp: plain_frame_def split: option.splits js.splits)
  then show ?thesis using adds_ordinary_trans [OF assms(1) emit_adds] by (simp add: ordinary_def)
qed

lemma plain_frames [simp]:
  "plain_frame (item_frame ''response.output_item.done'' i item)"
  "plain_frame (item_frame ''response.output_item.added'' i item)"
  "plain_frame (reasoning_fields ''response.reasoning_summary_part.done'' st @ [(''part'', p)])"
  "plain_frame (reasoning_fields ''response.reasoning_summary_part.added'' st @ [(''part'', p)])"
  "plain_frame (reasoning_fields ''response.reasoning_summary_text.done'' st @ [(''text'', p)])"
  "plain_frame (reasoning_fields ''response.reasoning_summary_text.delta'' st @ [(''delta'', p)])"
  "plain_frame (text_fields ''response.content_part.added'' st @ [(''part'', p)])"
  "plain_frame (text_fields ''response.content_part.done'' st @ [(''part'', p)])"
  "plain_frame (text_fields ''response.output_text.delta'' st @ [(''delta'', p)])"
  "plain_frame (text_fields ''response.output_text.done'' st @ [(''text'', p)])"
  by (simp_all add: plain_frame_def typed_def item_frame_def reasoning_fields_def text_fields_def
      TERMINAL_RESPONSE_TYPES_def)

lemma close_reasoning_adds: "adds ordinary e (close_reasoning e)"
proof (cases "reasoning_item (snd e) = None \<or> tn_reasoning_closed (snd e)")
  case True
  then show ?thesis by (auto simp: close_reasoning_def Let_def adds_refl split: option.split)
next
  case False
  let ?e1 = "(fst e, (snd e)\<lparr> tn_reasoning_closed := True \<rparr>)"
  have e1: "adds ordinary e ?e1" by (rule adds_refl) simp_all
  show ?thesis
    using False by (auto simp: close_reasoning_def Let_def split: option.split intro!: then_emit e1)
qed

text \<open>A change of the state that keeps the counter, followed by a frame.\<close>

lemma then_update:
  assumes "adds ordinary e e'" "tn_seq st = tn_seq (snd e')"
  shows "adds ordinary e (fst e', st)"
  by (rule adds_ordinary_trans [OF assms(1) adds_refl]) (simp_all add: assms(2))

lemma adds_self: "adds ordinary e e"
  by (rule adds_refl) simp_all

lemma open_reasoning_adds: "adds ordinary e (open_reasoning rnd e)"
  unfolding open_reasoning_def Let_def by (intro then_emit then_update adds_self plain_frames) simp

lemma reasoning_step_adds: "adds ordinary e (reasoning_step rnd delta e)"
  unfolding reasoning_step_def Let_def by (simp add: adds_self open_reasoning_adds then_emit then_update)

lemma open_text_adds: "adds ordinary e (open_text rnd e)"
  unfolding open_text_def Let_def by (intro then_emit then_update close_reasoning_adds plain_frames) simp

lemma text_step_adds: "adds ordinary e (text_step rnd delta e)"
  unfolding text_step_def Let_def by (simp add: adds_self open_text_adds then_emit then_update split: js.split)

lemma finish_text_adds: "adds ordinary e (snd (finish_text (items, e)))"
  by (simp add: finish_text_def Let_def adds_self then_emit)

lemma finish_call_adds: "adds ordinary (snd x) (snd (finish_call rnd acc x))"
  by (simp add: finish_call_def Let_def adds_self then_emit then_update split: prod.split)

lemma finish_calls_adds: "adds ordinary (snd x) (snd (fold (finish_call rnd) accs x))"
proof (induction accs arbitrary: x)
  case (Cons acc accs)
  show ?case using adds_ordinary_trans [OF finish_call_adds Cons.IH] by simp
qed (simp add: adds_self)

lemma finish_items_adds: "adds ordinary e (snd (finish_items rnd e))"
proof -
  have "adds ordinary e (snd (finish_text (items, close_reasoning e)))" for items
    by (rule adds_ordinary_trans [OF close_reasoning_adds finish_text_adds])
  then show ?thesis
    unfolding finish_items_def Let_def by (rule adds_ordinary_trans [OF _ finish_calls_adds])
qed

section \<open>What a step keeps\<close>

definition flags :: "turn \<Rightarrow> bool \<times> js \<times> bool" where
  "flags st = (tn_opened st, tn_failure st, tn_finished st)"

text \<open>The answer collected so far.\<close>

definition answer :: "turn \<Rightarrow> string \<times> string \<times> (js \<times> tool_acc) list \<times> js \<times> js" where
  "answer st = (tn_text st, tn_reasoning st, tn_calls st, tn_usage st, tn_finish_reason st)"

lemma reasoning_item_seq [simp]: "reasoning_item (st\<lparr> tn_seq := n \<rparr>) = reasoning_item st"
  "reasoning_item (st\<lparr> tn_reasoning_closed := b \<rparr>) = reasoning_item st"
  by (simp_all add: reasoning_item_def)

lemma close_reasoning_keeps:
  "flags (snd (close_reasoning e)) = flags (snd e)" "answer (snd (close_reasoning e)) = answer (snd e)"
  "tn_reasoning_id (snd (close_reasoning e)) = tn_reasoning_id (snd e)"
  "tn_text_open (snd (close_reasoning e)) = tn_text_open (snd e)"
  "reasoning_item (snd (close_reasoning e)) = reasoning_item (snd e)"
  "tn_message_index (snd (close_reasoning e)) = tn_message_index (snd e)"
  by (simp_all add: close_reasoning_def flags_def answer_def Let_def split: option.split)

lemma reasoning_step_keeps:
  "flags (snd (reasoning_step rnd delta e)) = flags (snd e)"
  "tn_text_open (snd (reasoning_step rnd delta e)) = tn_text_open (snd e)"
  "answer (snd (reasoning_step rnd delta e)) =
     (case answer (snd e) of (t, r, x) \<Rightarrow> (t, r @ reasoning_text delta, x))"
  "(tn_reasoning_id (snd (reasoning_step rnd delta e)) = []) =
     (tn_reasoning_id (snd e) = [] \<and> reasoning_text delta = [])"
  by (simp_all add: reasoning_step_def open_reasoning_def flags_def answer_def item_id_def Let_def)

definition delta_text :: "js \<Rightarrow> string" where
  "delta_text delta = (case jget delta ''content'' of JStr t \<Rightarrow> t | _ \<Rightarrow> [])"

lemma text_step_alt:
  "text_step rnd delta e =
     (if delta_text delta = [] then e
      else let e1 = (if tn_text_open (snd e) then e else open_text rnd e);
               st = (snd e1)\<lparr> tn_text := tn_text (snd e1) @ delta_text delta \<rparr>
           in emit (text_fields ''response.output_text.delta'' st @ [(''delta'', JStr (delta_text delta))]) (fst e1, st))"
  by (simp add: text_step_def delta_text_def split: js.split)

lemma open_text_keeps:
  "flags (snd (open_text rnd e)) = flags (snd e)" "answer (snd (open_text rnd e)) = answer (snd e)"
  "tn_reasoning_id (snd (open_text rnd e)) = tn_reasoning_id (snd e)" "tn_text_open (snd (open_text rnd e))"
  using close_reasoning_keeps [of e] by (simp_all add: open_text_def flags_def answer_def Let_def)

lemma text_step_keeps:
  "flags (snd (text_step rnd delta e)) = flags (snd e)"
  "answer (snd (text_step rnd delta e)) = (case answer (snd e) of (t, x) \<Rightarrow> (t @ delta_text delta, x))"
  "tn_reasoning_id (snd (text_step rnd delta e)) = tn_reasoning_id (snd e)"
  "tn_text_open (snd (text_step rnd delta e)) = (tn_text_open (snd e) \<or> delta_text delta \<noteq> [])"
  using open_text_keeps [of rnd e] by (simp_all add: text_step_alt flags_def answer_def Let_def)

lemma open_turn_keeps:
  "answer (snd (open_turn opts now e)) = answer (snd e)" "tn_opened (snd (open_turn opts now e))"
  "tn_failure (snd (open_turn opts now e)) = tn_failure (snd e)"
  "tn_finished (snd (open_turn opts now e)) = tn_finished (snd e)"
  "tn_reasoning_id (snd (open_turn opts now e)) = tn_reasoning_id (snd e)"
  "tn_text_open (snd (open_turn opts now e)) = tn_text_open (snd e)"
  by (simp_all add: open_turn_def answer_def Let_def)

lemma finish_text_keeps:
  "flags (snd (snd (finish_text x))) = flags (snd (snd x))" "answer (snd (snd (finish_text x))) = answer (snd (snd x))"
  by (simp_all add: finish_text_def flags_def answer_def Let_def split: prod.split)

lemma finish_calls_keeps:
  "answer (snd (snd (fold (finish_call rnd) accs x))) = answer (snd (snd x))"
proof (induction accs arbitrary: x)
  case (Cons acc accs)
  have "answer (snd (snd (finish_call rnd acc x))) = answer (snd (snd x))"
    by (simp add: finish_call_def answer_def Let_def split: prod.split)
  with Cons show ?case by simp
qed simp

lemma finish_items_keeps: "answer (snd (snd (finish_items rnd e))) = answer (snd e)"
  by (simp add: finish_items_def Let_def finish_calls_keeps finish_text_keeps close_reasoning_keeps)

section \<open>The frames of a turn\<close>

definition OPENING :: "string list" where
  "OPENING = [''response.created'', ''response.in_progress'']"

lemma open_turn_adds:
  "adds (\<lambda>ts. ts = (if tn_opened (snd e) then [] else OPENING)) e (open_turn opts now e)"
proof (cases "tn_opened (snd e)")
  case True
  then show ?thesis by (auto simp: open_turn_def adds_def)
next
  case False
  let ?e1 = "(fst e, (snd e)\<lparr> tn_opened := True \<rparr>)"
  let ?env = "\<lambda>e. JObj (response_envelope opts now (snd e) ''in_progress'' [] False)"
  let ?a = "[(''type'', JStr ''response.created''), (''response'', ?env ?e1)]"
  let ?b = "\<lambda>e2. [(''type'', JStr ''response.in_progress''), (''response'', ?env e2)]"
  have "adds (\<lambda>ts. ts = [''response.created'']) ?e1 (emit ?a ?e1)"
    by (rule emit_adds [of "''response.created''"]) (simp_all add: typed_def)
  moreover have "adds (\<lambda>ts. ts = [''response.in_progress'']) (emit ?a ?e1) (emit (?b (emit ?a ?e1)) (emit ?a ?e1))"
    by (rule emit_adds [of "''response.in_progress''"]) (simp_all add: typed_def)
  ultimately have "adds (\<lambda>ts. ts = OPENING) ?e1 (emit (?b (emit ?a ?e1)) (emit ?a ?e1))"
    by (rule adds_trans) (simp add: OPENING_def)
  then show ?thesis using False by (simp add: open_turn_def Let_def adds_def)
qed

text \<open>The frames \<open>fs\<close> sent up to the state \<open>st\<close>, before the end of the turn.\<close>

definition turn_ok :: "js list \<Rightarrow> turn \<Rightarrow> bool" where
  "turn_ok fs st \<longleftrightarrow>
     numbered 0 fs \<and> tn_seq st = length fs \<and> \<not> tn_finished st
     \<and> (if tn_opened st then prefix OPENING (map frame_type fs) else fs = [])
     \<and> (if tn_failure st = JNull then ordinary (map frame_type fs)
        else tn_opened st \<and> (\<exists>ts. map frame_type fs = ts @ [''response.failed''] \<and> ordinary ts))"

lemma project_not_null: "truthy raw \<Longrightarrow> project_stream_error raw m \<noteq> JNull"
  by (simp add: project_stream_error_def Let_def)

lemma ordinary_opening [simp]: "ordinary OPENING"
  by (simp add: ordinary_def OPENING_def TERMINAL_RESPONSE_TYPES_def)

lemma ordinary_append [simp]: "ordinary (a @ b) \<longleftrightarrow> ordinary a \<and> ordinary b"
  by (simp add: ordinary_def)

lemma ordinary_Nil [simp]: "ordinary []"
  by (simp add: ordinary_def)

text \<open>After opening and further steps, what was added starts with the opening if it was not sent before.\<close>

lemma opened_adds:
  assumes "adds Q (open_turn opts now e) e'"
  shows "adds (\<lambda>ts. \<exists>r. Q r \<and> ts = (if tn_opened (snd e) then r else OPENING @ r)) e e'"
  by (rule adds_trans [OF open_turn_adds assms]) auto

lemma turn_ok_step:
  assumes ok: "turn_ok fs st" "tn_failure st = JNull"
    and new: "adds (\<lambda>ts. \<exists>r. Q r \<and> ts = (if tn_opened st then r else OPENING @ r)) ([], st') (gs, st2)"
    and seq: "tn_seq st' = tn_seq st" and flags: "tn_opened st2" "\<not> tn_finished st2"
    and Q: "if tn_failure st2 = JNull then \<forall>r. Q r \<longrightarrow> ordinary r
            else \<forall>r. Q r \<longrightarrow> (\<exists>ts. r = ts @ [''response.failed''] \<and> ordinary ts)"
  shows "turn_ok (fs @ gs) st2"
proof -
  obtain r where r: "Q r" "map frame_type gs = (if tn_opened st then r else OPENING @ r)"
    "numbered (length fs) gs" "tn_seq st2 = length fs + length gs"
    using new seq ok(1) by (auto simp: adds_def turn_ok_def)
  have pre: "prefix OPENING (map frame_type (fs @ gs))"
    using ok(1) r(2) by (cases "tn_opened st") (auto simp: turn_ok_def prefix_def)
  have types: "map frame_type (fs @ gs) = map frame_type fs @ (if tn_opened st then r else OPENING @ r)"
    using r(2) by simp
  have ord: "ordinary (map frame_type fs)" using ok by (simp add: turn_ok_def)
  have last: "if tn_failure st2 = JNull then ordinary (map frame_type (fs @ gs))
    else \<exists>ts. map frame_type (fs @ gs) = ts @ [''response.failed''] \<and> ordinary ts"
  proof (cases "tn_failure st2 = JNull")
    case True
    then show ?thesis using Q r(1) ord unfolding types by (cases "tn_opened st") simp_all
  next
    case False
    then obtain ts where "r = ts @ [''response.failed'']" "ordinary ts" using Q r(1) by auto
    then show ?thesis using False ord unfolding types by (cases "tn_opened st") auto
  qed
  have "numbered 0 fs" using ok(1) by (simp add: turn_ok_def)
  then show ?thesis
    unfolding turn_ok_def using r(3,4) flags pre last
    by (auto simp: numbered_append simp del: map_append ordinary_append split: if_splits)
qed

lemma fail_turn_ok:
  assumes "turn_ok fs st" "tn_failure st = JNull" "truthy (chunk_error chunk)" "fail_turn opts now chunk st = (gs, st2)"
  shows "turn_ok (fs @ gs) st2 \<and> tn_failure st2 \<noteq> JNull"
proof -
  let ?f = "project_stream_error (chunk_error chunk) (jget chunk ''message'')"
  let ?e = "open_turn opts now ([], st\<lparr> tn_failure := ?f \<rparr>)"
  let ?kvs = "[(''type'', JStr ''response.failed''),
    (''response'', jset ''error'' ?f (JObj (response_envelope opts now (snd ?e) ''failed'' [] True)))]"
  have e2: "(gs, st2) = emit ?kvs ?e" using assms(4) by (simp add: fail_turn_def Let_def)
  have st2: "st2 = (snd ?e)\<lparr> tn_seq := Suc (tn_seq (snd ?e)) \<rparr>" using arg_cong [OF e2, of snd] by simp
  have "adds (\<lambda>ts. ts = [''response.failed'']) ?e (gs, st2)"
    unfolding e2 by (rule emit_adds [of "''response.failed''"]) (simp_all add: typed_def)
  from opened_adds [OF this]
  have new: "adds (\<lambda>ts. \<exists>r. r = [''response.failed''] \<and> ts = (if tn_opened st then r else OPENING @ r))
    ([], st\<lparr> tn_failure := ?f \<rparr>) (gs, st2)" by simp
  have fail: "tn_failure st2 \<noteq> JNull" using project_not_null [OF assms(3)] by (simp add: st2 open_turn_keeps)
  have "\<not> tn_finished st" using assms(1) by (simp add: turn_ok_def)
  then have "turn_ok (fs @ gs) st2"
    using fail by (intro turn_ok_step [OF assms(1,2) new]) (auto simp: st2 open_turn_keeps)
  then show ?thesis using fail by simp
qed

definition chunk_state :: "js \<Rightarrow> turn \<Rightarrow> turn" where
  "chunk_state chunk st =
     st\<lparr> tn_usage := (if truthy (jget (chunk_body chunk) ''usage'') then jget (chunk_body chunk) ''usage'' else tn_usage st),
         tn_finish_reason := (if truthy (jget (chunk_choice chunk) ''finish_reason'')
                            then jget (chunk_choice chunk) ''finish_reason'' else tn_finish_reason st) \<rparr>"

definition chunk_frames :: "(nat \<Rightarrow> string) \<Rightarrow> bridge_options \<Rightarrow> nat \<Rightarrow> js \<Rightarrow> turn \<Rightarrow> emission" where
  "chunk_frames rnd opts now chunk st =
     text_step rnd (chunk_delta chunk)
       (reasoning_step rnd (chunk_delta chunk) (open_turn opts now ([], chunk_state chunk st)))"

lemma on_chunk_alt:
  "on_chunk rnd opts now chunk st =
     (if tn_failure st \<noteq> JNull then ([], st)
      else if truthy (chunk_error chunk) then (if tn_finished st then ([], st) else fail_turn opts now chunk st)
      else let e = chunk_frames rnd opts now chunk st
           in (fst e, (snd e)\<lparr> tn_calls := fold chunk_call_step (js_list (jget (chunk_delta chunk) ''tool_calls''))
                                           (tn_calls (snd e)) \<rparr>))"
  by (simp add: on_chunk_def chunk_frames_def chunk_state_def Let_def)

lemma chunk_frames_keeps:
  "tn_opened (snd (chunk_frames rnd opts now chunk st))"
  "tn_failure (snd (chunk_frames rnd opts now chunk st)) = tn_failure st"
  "tn_finished (snd (chunk_frames rnd opts now chunk st)) = tn_finished st"
proof -
  let ?o = "open_turn opts now ([], chunk_state chunk st)"
  have "flags (snd (chunk_frames rnd opts now chunk st)) = flags (snd ?o)"
    by (simp add: chunk_frames_def text_step_keeps reasoning_step_keeps)
  then show "tn_opened (snd (chunk_frames rnd opts now chunk st))"
    "tn_failure (snd (chunk_frames rnd opts now chunk st)) = tn_failure st"
    "tn_finished (snd (chunk_frames rnd opts now chunk st)) = tn_finished st"
    by (simp_all add: flags_def open_turn_keeps chunk_state_def)
qed

lemma on_chunk_ok:
  assumes "turn_ok fs st" "on_chunk rnd opts now chunk st = (gs, st2)"
  shows "turn_ok (fs @ gs) st2 \<and> (tn_failure st2 \<noteq> JNull \<longleftrightarrow> tn_failure st \<noteq> JNull \<or> truthy (chunk_error chunk))"
proof (cases "tn_failure st = JNull")
  case False
  then show ?thesis using assms by (simp add: on_chunk_alt)
next
  case True
  show ?thesis
  proof (cases "truthy (chunk_error chunk)")
    case err: True
    have "fail_turn opts now chunk st = (gs, st2)"
      using assms True err by (auto simp: on_chunk_alt turn_ok_def)
    from fail_turn_ok [OF assms(1) True err this] show ?thesis using err by simp
  next
    case False
    let ?e = "chunk_frames rnd opts now chunk st"
    have res: "gs = fst ?e" "st2 = (snd ?e)\<lparr> tn_calls := tn_calls st2 \<rparr>"
      using assms(2) True False by (auto simp: on_chunk_alt Let_def)
    let ?o = "open_turn opts now ([], chunk_state chunk st)"
    have "adds ordinary ?o ?e"
      unfolding chunk_frames_def by (rule adds_ordinary_trans [OF reasoning_step_adds text_step_adds])
    from opened_adds [OF this]
    have "adds (\<lambda>ts. \<exists>r. ordinary r \<and> ts = (if tn_opened st then r else OPENING @ r)) ([], chunk_state chunk st) ?e"
      by (simp add: chunk_state_def)
    moreover have "tn_seq st2 = tn_seq (snd ?e)" by (subst res(2)) simp
    ultimately have new: "adds (\<lambda>ts. \<exists>r. ordinary r \<and> ts = (if tn_opened st then r else OPENING @ r))
      ([], chunk_state chunk st) (gs, st2)" by (simp add: adds_def res(1))
    have keeps: "tn_opened st2" "tn_failure st2 = JNull" "tn_finished st2 = tn_finished st"
      using chunk_frames_keeps [of rnd opts now chunk st] True by (subst res(2), simp)+
    have "turn_ok (fs @ gs) st2"
      using assms(1) keeps
      by (intro turn_ok_step [OF assms(1) True new]) (auto simp: chunk_state_def turn_ok_def)
    then show ?thesis using keeps True False by simp
  qed
qed

lemma run_chunks_ok:
  assumes "turn_ok fs st" "run_chunks rnd opts chunks st = (gs, st2)"
  shows "turn_ok (fs @ gs) st2
    \<and> (tn_failure st2 \<noteq> JNull \<longleftrightarrow> tn_failure st \<noteq> JNull \<or> list_ex (\<lambda>(now, c). truthy (chunk_error c)) chunks)"
  using assms
proof (induction chunks arbitrary: fs st gs)
  case (Cons nc chunks)
  obtain now c where nc: "nc = (now, c)" by force
  obtain g1 s1 where one: "on_chunk rnd opts now c st = (g1, s1)" by force
  obtain g2 s2 where rest: "run_chunks rnd opts chunks s1 = (g2, s2)" by force
  have "gs = g1 @ g2" "st2 = s2" using Cons.prems(2) nc one rest by simp_all
  then show ?case
    using on_chunk_ok [OF Cons.prems(1) one] Cons.IH [of "fs @ g1" s1 g2] rest nc by auto
qed simp

lemma finish_turn_ok:
  assumes "turn_ok fs st" "tn_failure st = JNull" "finish_turn rnd opts now st = (gs, st2)"
  shows "\<exists>ts t. map frame_type (fs @ gs) = ts @ [t] \<and> ordinary ts \<and> t \<in> {''response.completed'', ''response.incomplete''}
    \<and> prefix OPENING ts \<and> numbered 0 (fs @ gs)"
proof -
  let ?st = "st\<lparr> tn_finished := True \<rparr>"
  let ?o = "open_turn opts now ([], ?st)"
  obtain items e where items: "finish_items rnd ?o = (items, e)" by (metis surj_pair)
  let ?status = "fst (status_for_finish_reason (tn_finish_reason (snd e)))"
  let ?t = "if ?status = ''incomplete'' then ''response.incomplete'' else ''response.completed''"
  let ?kvs = "[(''type'', JStr ?t), (''response'', JObj (response_envelope opts now (snd e) ?status items True))]"
  have res: "(gs, st2) = emit ?kvs e"
    using assms(2,3) items by (simp add: finish_turn_def Let_def)
  have "adds ordinary ?o e" using finish_items_adds [of ?o rnd] items by simp
  moreover have "adds (\<lambda>ts. ts = [?t]) e (emit ?kvs e)"
    by (rule emit_adds [of ?t]) (simp_all add: typed_def)
  ultimately have "adds (\<lambda>ts. \<exists>a. ordinary a \<and> ts = a @ [?t]) ?o (gs, st2)"
    unfolding res by (rule adds_trans) auto
  from opened_adds [OF this] obtain r where r: "\<exists>a. ordinary a \<and> r = a @ [?t]"
    "map frame_type gs = (if tn_opened st then r else OPENING @ r)" "numbered (tn_seq st) gs"
    by (auto simp: adds_def)
  then obtain a where a: "ordinary a" "r = a @ [?t]" by blast
  let ?ts = "map frame_type fs @ (if tn_opened st then a else OPENING @ a)"
  have "map frame_type (fs @ gs) = ?ts @ [?t]" using r(2) a(2) by simp
  moreover have "ordinary ?ts" using assms(1,2) a(1) by (simp add: turn_ok_def)
  moreover have "prefix OPENING ?ts" using assms(1) by (auto simp: turn_ok_def prefix_def)
  moreover have "numbered 0 (fs @ gs)" using assms(1) r(3) by (simp add: turn_ok_def numbered_append)
  ultimately show ?thesis by (intro exI [of _ ?ts] exI [of _ ?t]) simp
qed

text \<open>C34. Every turn, whatever chunks arrive, is a well-formed event stream: it opens with \<open>response.created\<close> and
  \<open>response.in_progress\<close>, its frames are numbered from zero without gaps, and exactly its last frame is terminal:
  \<open>response.failed\<close> when some chunk carried an error, \<open>response.completed\<close> or \<open>response.incomplete\<close> when none did.
\<close>

theorem turn_well_formed:
  "let fs = turn_frames rnd opts chunks now in
     numbered 0 fs \<and> prefix OPENING (map frame_type fs)
     \<and> filter terminal fs = [last fs]
     \<and> (frame_type (last fs) = ''response.failed'' \<longleftrightarrow> list_ex (\<lambda>(t, c). truthy (chunk_error c)) chunks)"
proof -
  obtain fs st where run: "run_chunks rnd opts chunks turn_init = (fs, st)" by force
  obtain gs st2 where fin: "finish_turn rnd opts now st = (gs, st2)" by force
  have "turn_ok [] turn_init" by (simp add: turn_ok_def turn_init_def)
  from run_chunks_ok [OF this run]
  have ok: "turn_ok fs st" and fail: "tn_failure st \<noteq> JNull \<longleftrightarrow> list_ex (\<lambda>(t, c). truthy (chunk_error c)) chunks"
    by (simp_all add: turn_init_def)
  have frames: "turn_frames rnd opts chunks now = fs @ gs" by (simp add: turn_frames_def run fin)
  have only: "filter terminal hs = [last hs]"
    if "map frame_type hs = ts @ [t]" "ordinary ts" "t \<in> set TERMINAL_RESPONSE_TYPES" for hs ts t
  proof -
    have "hs \<noteq> []" using that(1) by auto
    then obtain hs' h where h: "hs = hs' @ [h]" by (metis append_butlast_last_id)
    with that(1) have hs: "hs = hs' @ [h]" "map frame_type hs' = ts" "frame_type h = t" by simp_all
    have "\<not> terminal x" if "x \<in> set hs'" for x
      using \<open>ordinary ts\<close> hs(2) that by (auto simp: ordinary_def terminal_def list_all_iff)
    then show ?thesis using hs that(3) by (simp add: terminal_def filter_False)
  qed
  show ?thesis
  proof (cases "tn_failure st = JNull")
    case True
    obtain ts t where t: "map frame_type (fs @ gs) = ts @ [t]" "ordinary ts"
      "t \<in> {''response.completed'', ''response.incomplete''}" "prefix OPENING ts" "numbered 0 (fs @ gs)"
      using finish_turn_ok [OF ok True fin] by blast
    have "frame_type (last (fs @ gs)) = t"
      using t(1) by (metis last_map last_snoc map_is_Nil_conv snoc_eq_iff_butlast)
    then show ?thesis
      unfolding frames Let_def using t True fail only [OF t(1,2)]
      by (auto simp: TERMINAL_RESPONSE_TYPES_def simp del: map_append filter_append last_append)
  next
    case False
    have "gs = []" using fin False by (simp add: finish_turn_def Let_def)
    obtain ts where t: "map frame_type fs = ts @ [''response.failed'']" "ordinary ts"
      using ok False by (auto simp: turn_ok_def)
    have "frame_type (last fs) = ''response.failed''"
      using t(1) by (metis last_map last_snoc map_is_Nil_conv snoc_eq_iff_butlast)
    then show ?thesis
      unfolding frames Let_def using \<open>gs = []\<close> ok False fail only [OF t]
      by (simp add: turn_ok_def TERMINAL_RESPONSE_TYPES_def)
  qed
qed

end
