(* ===== verification/Responses_Agreement.thy ===== *)
theory Responses_Agreement
  imports Responses_Turn
begin

text \<open>
  The two translators of the Responses bridge describe one turn: what the terminal frame of a stream says is what
  the blocking translation of the assembled answer says, up to the random ids of the items and the time stamp.
\<close>

section \<open>The answer that chunks assemble\<close>

definition last_truthy :: "js list \<Rightarrow> js \<Rightarrow> js" where
  "last_truthy vs d = fold (\<lambda>v a. if truthy v then v else a) vs d"

definition chunks_text :: "js list \<Rightarrow> string" where
  "chunks_text cs = concat (map (\<lambda>c. delta_text (chunk_delta c)) cs)"

definition chunks_reasoning :: "js list \<Rightarrow> string" where
  "chunks_reasoning cs = concat (map (\<lambda>c. reasoning_text (chunk_delta c)) cs)"

definition chunks_calls :: "js list \<Rightarrow> (js \<times> tool_acc) list" where
  "chunks_calls cs = fold chunk_call_step (concat (map (\<lambda>c. js_list (jget (chunk_delta c) ''tool_calls'')) cs)) []"

definition chunks_usage :: "js list \<Rightarrow> js" where
  "chunks_usage cs = last_truthy (map (\<lambda>c. jget (chunk_body c) ''usage'') cs) JNull"

definition chunks_reason :: "js list \<Rightarrow> js" where
  "chunks_reason cs = last_truthy (map (\<lambda>c. jget (chunk_choice c) ''finish_reason'') cs) JNull"

definition call_js :: "tool_acc \<Rightarrow> js" where
  "call_js a =
     JObj [(''id'', ta_id a), (''function'', JObj [(''name'', ta_name a), (''arguments'', JStr (ta_args a))])]"

text \<open>The envelope of the same answer, not streamed.\<close>

definition assembled :: "js list \<Rightarrow> js" where
  "assembled cs =
     JObj [(''choices'', JArr [JObj [
              (''message'', JObj [(''role'', JStr ''assistant''), (''content'', JStr (chunks_text cs)),
                 (''reasoning_content'', JArr [JObj [(''content'', JStr (chunks_reasoning cs))]]),
                 (''tool_calls'', JArr (map (call_js \<circ> snd) (chunks_calls cs)))]),
              (''finish_reason'', chunks_reason cs)]]),
           (''usage'', chunks_usage cs)]"

section \<open>What a run has collected\<close>

lemma answer_calls [simp]:
  "answer (st\<lparr> tn_calls := calls \<rparr>) = (case answer st of (t, r, c, x) \<Rightarrow> (t, r, calls, x))"
  by (simp add: answer_def)

lemma on_chunk_collects:
  assumes "tn_failure st = JNull" "\<not> truthy (chunk_error c)" "answer st = (t, r, calls, u, f)"
    "on_chunk rnd opts now c st = (gs, st2)"
  shows "tn_failure st2 = JNull"
    and "answer st2 = (t @ delta_text (chunk_delta c), r @ reasoning_text (chunk_delta c),
      fold chunk_call_step (js_list (jget (chunk_delta c) ''tool_calls'')) calls,
      last_truthy [jget (chunk_body c) ''usage''] u, last_truthy [jget (chunk_choice c) ''finish_reason''] f)"
    and "tn_reasoning_id st2 = [] \<longleftrightarrow> tn_reasoning_id st = [] \<and> reasoning_text (chunk_delta c) = []"
    and "tn_text_open st2 \<longleftrightarrow> tn_text_open st \<or> delta_text (chunk_delta c) \<noteq> []"
proof -
  let ?e = "chunk_frames rnd opts now c st"
  have st2: "st2 = (snd ?e)\<lparr> tn_calls := fold chunk_call_step (js_list (jget (chunk_delta c) ''tool_calls'')) (tn_calls (snd ?e)) \<rparr>"
    using assms(1,2,4) by (auto simp: on_chunk_alt Let_def)
  have start: "answer (chunk_state c st) = (t, r, calls, last_truthy [jget (chunk_body c) ''usage''] u,
      last_truthy [jget (chunk_choice c) ''finish_reason''] f)"
    using assms(3) by (simp add: chunk_state_def answer_def last_truthy_def)
  have ans: "answer (snd ?e) = (t @ delta_text (chunk_delta c), r @ reasoning_text (chunk_delta c), calls,
      last_truthy [jget (chunk_body c) ''usage''] u, last_truthy [jget (chunk_choice c) ''finish_reason''] f)"
    using start by (simp add: chunk_frames_def text_step_keeps reasoning_step_keeps open_turn_keeps)
  then have "tn_calls (snd ?e) = calls" by (simp add: answer_def)
  then show "answer st2 = (t @ delta_text (chunk_delta c), r @ reasoning_text (chunk_delta c),
      fold chunk_call_step (js_list (jget (chunk_delta c) ''tool_calls'')) calls,
      last_truthy [jget (chunk_body c) ''usage''] u, last_truthy [jget (chunk_choice c) ''finish_reason''] f)"
    using ans by (simp add: st2)
  show "tn_failure st2 = JNull" using assms(1) by (simp add: st2 chunk_frames_keeps)
  show "tn_reasoning_id st2 = [] \<longleftrightarrow> tn_reasoning_id st = [] \<and> reasoning_text (chunk_delta c) = []"
    by (simp add: st2 chunk_frames_def text_step_keeps reasoning_step_keeps open_turn_keeps) (simp add: chunk_state_def)
  show "tn_text_open st2 \<longleftrightarrow> tn_text_open st \<or> delta_text (chunk_delta c) \<noteq> []"
    by (simp add: st2 chunk_frames_def text_step_keeps reasoning_step_keeps open_turn_keeps) (simp add: chunk_state_def)
qed

lemma last_truthy_append: "last_truthy (a @ b) d = last_truthy b (last_truthy a d)"
  by (simp add: last_truthy_def)

lemma run_collects:
  assumes "tn_failure st = JNull" "list_all (\<lambda>(n, c). \<not> truthy (chunk_error c)) chunks"
    "answer st = (t, r, calls, u, f)" "run_chunks rnd opts chunks st = (gs, st2)"
    "tn_reasoning_id st = [] \<longleftrightarrow> r = []" "tn_text_open st \<longleftrightarrow> t \<noteq> []"
  defines "cs \<equiv> map snd chunks"
  shows "tn_failure st2 = JNull
    \<and> answer st2 = (t @ chunks_text cs, r @ chunks_reasoning cs,
        fold chunk_call_step (concat (map (\<lambda>c. js_list (jget (chunk_delta c) ''tool_calls'')) cs)) calls,
        last_truthy (map (\<lambda>c. jget (chunk_body c) ''usage'') cs) u,
        last_truthy (map (\<lambda>c. jget (chunk_choice c) ''finish_reason'') cs) f)
    \<and> (tn_reasoning_id st2 = [] \<longleftrightarrow> r @ chunks_reasoning cs = []) \<and> (tn_text_open st2 \<longleftrightarrow> t @ chunks_text cs \<noteq> [])"
  using assms(1-6) unfolding cs_def
proof (induction chunks arbitrary: st t r calls u f gs)
  case Nil
  then show ?case by (simp add: chunks_text_def chunks_reasoning_def last_truthy_def)
next
  case (Cons nc chunks)
  obtain now c where nc: "nc = (now, c)" by force
  obtain g1 s1 where one: "on_chunk rnd opts now c st = (g1, s1)" by force
  obtain g2 s2 where rest: "run_chunks rnd opts chunks s1 = (g2, s2)" by force
  have s2: "st2 = s2" using Cons.prems(4) nc one rest by simp
  have fine: "\<not> truthy (chunk_error c)" "list_all (\<lambda>(n, c). \<not> truthy (chunk_error c)) chunks"
    using Cons.prems(2) nc by simp_all
  note c = on_chunk_collects [OF Cons.prems(1) fine(1) Cons.prems(3) one]
  have "tn_reasoning_id s1 = [] \<longleftrightarrow> r @ reasoning_text (chunk_delta c) = []"
    "tn_text_open s1 \<longleftrightarrow> t @ delta_text (chunk_delta c) \<noteq> []"
    using c(3,4) Cons.prems(5,6) by auto
  from Cons.IH [OF c(1) fine(2) c(2) rest [folded s2] this]
  show ?case by (simp add: nc s2 chunks_text_def chunks_reasoning_def last_truthy_def)
qed

section \<open>The items of the closing\<close>

text \<open>An item without its random id.\<close>

definition anonymous :: "js \<Rightarrow> js" where
  "anonymous item = jdel ''id'' item"

lemma anonymous_call: "anonymous (call_item i a b c) = anonymous (call_item [] a b c)"
  by (simp add: anonymous_def call_item_def jdel_def)

lemma anonymous_message: "anonymous (message_item i t) = anonymous (message_item [] t)"
  by (simp add: anonymous_def message_item_def jdel_def)

lemma finish_calls_items:
  "map anonymous (fst (fold (finish_call rnd) accs x)) =
     map anonymous (fst x) @ map (\<lambda>a. anonymous (call_item [] (ta_id a) (ta_name a) (JStr (ta_args a)))) accs"
proof (induction accs arbitrary: x)
  case (Cons acc accs)
  have "map anonymous (fst (finish_call rnd acc x)) =
    map anonymous (fst x) @ [anonymous (call_item [] (ta_id acc) (ta_name acc) (JStr (ta_args acc)))]"
    by (simp add: finish_call_def Let_def anonymous_call [of "item_id rnd ''fc'' n" for n] split: prod.split)
  with Cons show ?case by simp
qed simp

definition reasoning_items :: "string \<Rightarrow> js list" where
  "reasoning_items r =
     (if trim r = [] then []
      else [JObj [(''type'', JStr ''reasoning''), (''summary'', JArr [summary_part (trim r)]), (''content'', JArr [])]])"

definition message_items :: "string \<Rightarrow> js list" where
  "message_items t = (if t = [] then [] else [anonymous (message_item [] t)])"

definition call_items :: "tool_acc list \<Rightarrow> js list" where
  "call_items accs = map (\<lambda>a. anonymous (call_item [] (ta_id a) (ta_name a) (JStr (ta_args a)))) accs"

lemma trim_ne: "trim r \<noteq> [] \<Longrightarrow> r \<noteq> []"
  by (auto simp: trim_def trim_left_def)

lemma finish_items_anonymous:
  assumes "answer (snd e) = (t, r, calls, x)" "tn_reasoning_id (snd e) = [] \<longleftrightarrow> r = []"
    "tn_text_open (snd e) \<longleftrightarrow> t \<noteq> []" "r = [] \<or> trim r \<noteq> []"
  shows "map anonymous (fst (finish_items rnd e)) = reasoning_items r @ message_items t @ call_items (map snd calls)"
proof -
  let ?e = "close_reasoning e"
  have keep: "answer (snd ?e) = (t, r, calls, x)" "tn_text_open (snd ?e) \<longleftrightarrow> t \<noteq> []"
    "reasoning_item (snd ?e) = reasoning_item (snd e)"
    using assms(1,3) by (simp_all add: close_reasoning_keeps)
  have parts: "tn_text (snd ?e) = t" "tn_calls (snd ?e) = calls" "tn_reasoning (snd e) = r"
    using keep(1) assms(1) by (simp_all add: answer_def)
  have reasoning: "map anonymous (case reasoning_item (snd e) of None \<Rightarrow> [] | Some i \<Rightarrow> [i]) = reasoning_items r"
    using assms(2,4) trim_ne parts(3)
    by (auto simp: reasoning_item_def reasoning_items_def Let_def anonymous_def jdel_def trim_def trim_left_def)
  have "map anonymous (fst (finish_text (items, ?e))) = map anonymous items @ message_items t" for items
    using keep(2) parts(1)
    by (simp add: finish_text_def message_items_def Let_def anonymous_message [of "tn_message_id st" for st])
  then show ?thesis
    using reasoning keep(3) parts(2) by (simp add: finish_items_def Let_def finish_calls_items call_items_def)
qed

section \<open>Agreement\<close>

text \<open>The fields of two responses that must agree, and their items without ids.\<close>

definition same_response :: "js \<Rightarrow> js \<Rightarrow> bool" where
  "same_response a b \<longleftrightarrow>
     list_all (\<lambda>k. jget a k = jget b k)
       [''id'', ''object'', ''model'', ''status'', ''incomplete_details'', ''usage'', ''error'']
     \<and> map anonymous (js_list (jget a ''output'')) = map anonymous (js_list (jget b ''output''))"

lemma translate_usage_absent: "translate_usage JUndef m = translate_usage (JObj []) m"
  by (simp add: translate_usage_def map_cached_tokens_def)

lemma enumerate_map_items:
  "map anonymous (map (\<lambda>(n, call). call_item (item_id rnd ''fc'' (n + 2)) (jget call ''id'')
       (jget (jget call ''function'') ''name'') (jget (jget call ''function'') ''arguments''))
     (enumerate k (map (call_js \<circ> snd) calls))) = call_items (map snd calls)"
proof (induction calls arbitrary: k)
  case (Cons a calls)
  then show ?case
    by (simp add: call_items_def call_js_def anonymous_call [of "item_id rnd ''fc'' n" for n])
qed (simp add: call_items_def)

lemma anonymous_reasoning:
  "map anonymous (case reasoning_output_item i (JArr [JObj [(''content'', JStr r)]]) of None \<Rightarrow> [] | Some x \<Rightarrow> [x])
     = reasoning_items r"
  by (simp add: reasoning_output_item_def js_list_def block_text_def reasoning_items_def anonymous_def jdel_def
      summary_part_def Let_def)

text \<open>The blocking translation of the assembled answer, field by field.\<close>

lemma blocking_fields:
  fixes rnd now opts cs
  defines "b \<equiv> translate_orchestration_response rnd now opts (assembled cs)"
  shows "jget b ''id'' = JStr (bo_response_id opts)" "jget b ''object'' = JStr ''response''"
    "jget b ''model'' = JStr (bo_model opts)" "jget b ''error'' = JNull"
    "jget b ''status'' = JStr (fst (status_for_finish_reason (chunks_reason cs)))"
    "jget b ''incomplete_details'' = snd (status_for_finish_reason (chunks_reason cs))"
    "jget b ''usage'' = translate_usage (if truthy (chunks_usage cs) then chunks_usage cs else JUndef)
       (Some (bo_sap_model opts))"
    "map anonymous (js_list (jget b ''output'')) =
       reasoning_items (chunks_reasoning cs) @ message_items (chunks_text cs) @ call_items (map snd (chunks_calls cs))"
proof -
  let ?m = "JObj [(''role'', JStr ''assistant''), (''content'', JStr (chunks_text cs)),
     (''reasoning_content'', JArr [JObj [(''content'', JStr (chunks_reasoning cs))]]),
     (''tool_calls'', JArr (map (call_js \<circ> snd) (chunks_calls cs)))]"
  have body: "nullish (jget (assembled cs) ''final_result'') (nullish (assembled cs) (JObj [])) = assembled cs"
    by (simp add: assembled_def nullish_def)
  have choice: "js_first (jget (assembled cs) ''choices'') = JObj [(''message'', ?m), (''finish_reason'', chunks_reason cs)]"
    by (simp add: assembled_def js_first_def js_list_def)
  have usage: "jget (assembled cs) ''usage'' = chunks_usage cs" by (simp add: assembled_def)
  have calls: "js_list (jget ?m ''tool_calls'') = map (call_js \<circ> snd) (chunks_calls cs)"
    by (simp add: js_list_def)
  obtain status inc where s: "status_for_finish_reason (chunks_reason cs) = (status, inc)" by force
  let ?out = "(case reasoning_output_item (item_id rnd ''rs'' 0) (JArr [JObj [(''content'', JStr (chunks_reasoning cs))]]) of
        None \<Rightarrow> [] | Some i \<Rightarrow> [i])
    @ (if chunks_text cs \<noteq> [] then [message_item (item_id rnd ''msg'' 1) (chunks_text cs)] else [])
    @ map (\<lambda>(n, call). call_item (item_id rnd ''fc'' (n + 2)) (jget call ''id'')
         (jget (jget call ''function'') ''name'') (jget (jget call ''function'') ''arguments''))
       (enumerate 0 (map (call_js \<circ> snd) (chunks_calls cs)))"
  have b: "b = JObj ([(''id'', JStr (bo_response_id opts)), (''object'', JStr ''response''),
      (''created_at'', JNum (rat_of_nat now)), (''model'', JStr (bo_model opts)), (''status'', JStr status),
      (''output'', JArr ?out),
      (''usage'', translate_usage (if truthy (chunks_usage cs) then chunks_usage cs else JObj []) (Some (bo_sap_model opts))),
      (''error'', JNull)] @ (if inc \<noteq> JUndef then [(''incomplete_details'', inc)] else []))"
    unfolding b_def translate_orchestration_response_def body choice usage Let_def
    using calls by (simp add: s nullish_def)
  show "jget b ''id'' = JStr (bo_response_id opts)" "jget b ''object'' = JStr ''response''"
    "jget b ''model'' = JStr (bo_model opts)" "jget b ''error'' = JNull"
    "jget b ''status'' = JStr (fst (status_for_finish_reason (chunks_reason cs)))"
    "jget b ''incomplete_details'' = snd (status_for_finish_reason (chunks_reason cs))"
    by (simp_all add: b s)
  show "jget b ''usage'' = translate_usage (if truthy (chunks_usage cs) then chunks_usage cs else JUndef)
       (Some (bo_sap_model opts))"
    by (simp add: b translate_usage_absent)
  have "js_list (jget b ''output'') = ?out" by (simp add: b js_list_def)
  moreover have "map anonymous (if chunks_text cs \<noteq> [] then [message_item (item_id rnd ''msg'' 1) (chunks_text cs)] else [])
    = message_items (chunks_text cs)"
    using anonymous_message [of "item_id rnd ''msg'' 1"] by (simp add: message_items_def)
  ultimately show "map anonymous (js_list (jget b ''output'')) =
     reasoning_items (chunks_reasoning cs) @ message_items (chunks_text cs) @ call_items (map snd (chunks_calls cs))"
    by (simp only: map_append anonymous_reasoning enumerate_map_items)
qed

text \<open>The terminal frame of a turn without errors, field by field.\<close>

lemma terminal_response:
  assumes "list_all (\<lambda>(n, c). \<not> truthy (chunk_error c)) chunks"
  obtains st items where
    "jget (last (turn_frames rnd opts chunks now)) ''response'' =
       JObj (response_envelope opts now st (fst (status_for_finish_reason (chunks_reason (map snd chunks)))) items True)"
    "tn_usage st = chunks_usage (map snd chunks)" "tn_finish_reason st = chunks_reason (map snd chunks)"
    "chunks_reasoning (map snd chunks) = [] \<or> trim (chunks_reasoning (map snd chunks)) \<noteq> [] \<Longrightarrow>
       map anonymous items = reasoning_items (chunks_reasoning (map snd chunks)) @ message_items (chunks_text (map snd chunks))
         @ call_items (map snd (chunks_calls (map snd chunks)))"
proof -
  let ?cs = "map snd chunks"
  obtain fs st where run: "run_chunks rnd opts chunks turn_init = (fs, st)" by force
  have init: "tn_failure turn_init = JNull" "answer turn_init = ([], [], [], JNull, JNull)"
    "tn_reasoning_id turn_init = []" "\<not> tn_text_open turn_init"
    by (simp_all add: turn_init_def answer_def)
  have coll: "tn_failure st = JNull \<and>
     answer st = (chunks_text ?cs, chunks_reasoning ?cs, chunks_calls ?cs, chunks_usage ?cs, chunks_reason ?cs)
     \<and> (tn_reasoning_id st = [] \<longleftrightarrow> chunks_reasoning ?cs = []) \<and> (tn_text_open st \<longleftrightarrow> chunks_text ?cs \<noteq> [])"
    using run_collects [OF init(1) assms init(2) run] init(3,4)
    by (simp add: chunks_calls_def chunks_usage_def chunks_reason_def)
  let ?o = "open_turn opts now ([], st\<lparr> tn_finished := True \<rparr>)"
  obtain items e where items: "finish_items rnd ?o = (items, e)" by (metis surj_pair)
  have o: "answer (snd ?o) = (chunks_text ?cs, chunks_reasoning ?cs, chunks_calls ?cs, chunks_usage ?cs, chunks_reason ?cs)"
    "tn_reasoning_id (snd ?o) = [] \<longleftrightarrow> chunks_reasoning ?cs = []" "tn_text_open (snd ?o) \<longleftrightarrow> chunks_text ?cs \<noteq> []"
    using coll by (simp_all add: open_turn_keeps) (simp add: answer_def)
  have e: "answer (snd e) = answer (snd ?o)" using finish_items_keeps [of rnd ?o] items by simp
  then have reason: "tn_finish_reason (snd e) = chunks_reason ?cs" "tn_usage (snd e) = chunks_usage ?cs"
    using o(1) by (simp_all add: answer_def)
  show thesis
  proof (rule that)
    show "jget (last (turn_frames rnd opts chunks now)) ''response'' =
       JObj (response_envelope opts now (snd e) (fst (status_for_finish_reason (chunks_reason ?cs))) items True)"
      using coll by (simp add: turn_frames_def run finish_turn_def items Let_def emit_def reason)
    show "tn_usage (snd e) = chunks_usage ?cs" "tn_finish_reason (snd e) = chunks_reason ?cs"
      using reason by simp_all
    show "map anonymous items = reasoning_items (chunks_reasoning ?cs) @ message_items (chunks_text ?cs)
         @ call_items (map snd (chunks_calls ?cs))"
      if "chunks_reasoning ?cs = [] \<or> trim (chunks_reasoning ?cs) \<noteq> []"
      using finish_items_anonymous [OF o that, of rnd] by (simp add: items)
  qed
qed

lemma complete_has_no_details:
  "fst (status_for_finish_reason r) \<noteq> ''incomplete'' \<Longrightarrow> snd (status_for_finish_reason r) = JUndef"
  by (auto simp: status_for_finish_reason_def split: if_splits)


definition po_chunk :: js where
  "po_chunk =
     JObj [(''choices'', JArr [JObj [(''delta'', JObj [(''content'', JStr ''po''),
       (''reasoning_content'', JArr [JObj [(''content'', JStr ''think'')]])])]])]"

definition ng_chunk :: js where
  "ng_chunk =
     JObj [(''choices'', JArr [JObj [(''delta'', JObj [(''content'', JStr ''ng'')]), (''finish_reason'', JStr ''length'')]]),
           (''usage'', JObj [(''prompt_tokens'', JNum 3)])]"

definition toy_options :: bridge_options where
  "toy_options = \<lparr> bo_model = ''m'', bo_sap_model = ''m'', bo_response_id = ''r'' \<rparr>"


end
