(* ===== verification/Responses_Request.thy ===== *)
theory Responses_Request
  imports Responses_Bridge
begin

text \<open>
  The request side of the Responses bridge: the thinking parameters of a model (\<open>utils/reasoningSupport.ts\<close>), the
  translation of a Responses request into an orchestration payload
  (\<open>responses/orchestrationBridge/requestTranslator.ts\<close>), and its cache breakpoints
  (\<open>responses/orchestrationBridge/cacheBreakpoints.ts\<close>).

  An unsupported item is the left injection of its type. \<open>JSON.stringify\<close> is the parameter \<open>stringify\<close>; a copy
  through JSON loses the undefined fields. The payload is a record of its parts.
\<close>

section \<open>Thinking\<close>

datatype thinking_shape = Adaptive | Budget

definition MODEL_REASONING_SUPPORT :: "(string \<times> thinking_shape) list" where
  "MODEL_REASONING_SUPPORT =
     [(''anthropic--claude-4.8-opus'', Adaptive), (''anthropic--claude-4.6-opus'', Adaptive),
      (''anthropic--claude-4.6-sonnet'', Adaptive), (''anthropic--claude-4.5-opus'', Budget),
      (''anthropic--claude-4.5-sonnet'', Budget), (''anthropic--claude-4.5-haiku'', Budget)]"

definition EFFORT_TO_BUDGET_TOKENS :: "(string \<times> int) list" where
  "EFFORT_TO_BUDGET_TOKENS =
     [(''minimal'', 1024), (''low'', 4096), (''medium'', 8192), (''high'', 16384), (''xhigh'', 32768)]"

definition VALID_EFFORTS :: "string list" where
  "VALID_EFFORTS = [''minimal'', ''low'', ''medium'', ''high'', ''xhigh'']"

definition MIN_BUDGET_TOKENS :: int where
  "MIN_BUDGET_TOKENS = 1024"

definition MIN_MAX_TOKENS_FOR_THINKING :: rat where
  "MIN_MAX_TOKENS_FOR_THINKING = 2048"

record reasoning_input =
  ri_model :: string
  ri_effort :: js
  ri_max_tokens :: "rat option"
  ri_temperature :: "rat option"
  ri_top_p :: "rat option"
  ri_tool_choice :: js

datatype reasoning_decision =
    D_Adaptive | D_Budget | D_No_Effort | D_Unknown_Effort | D_Incompatible_Sampling | D_Forced_Tool_Choice
  | D_Model_Not_Supported | D_Max_Tokens_Too_Small | D_Max_Tokens_Not_An_Integer

definition reasoning_was_emitted :: "reasoning_decision \<Rightarrow> bool" where
  "reasoning_was_emitted d \<longleftrightarrow> d = D_Adaptive \<or> d = D_Budget"

definition has_incompatible_sampling :: "rat option \<Rightarrow> rat option \<Rightarrow> bool" where
  "has_incompatible_sampling temperature top_p \<longleftrightarrow>
     (case temperature of Some t \<Rightarrow> t \<noteq> 1 | None \<Rightarrow> False) \<or> (case top_p of Some p \<Rightarrow> p < 95 / 100 | None \<Rightarrow> False)"

definition is_forced_tool_choice :: "js \<Rightarrow> bool" where
  "is_forced_tool_choice tool_choice \<longleftrightarrow> tool_choice = JStr ''required''"

text \<open>What goes into the parameters: nothing, an effort, or a budget.\<close>

datatype thinking = No_Thinking | Effort string | Budget_Tokens int

definition is_integral :: "rat \<Rightarrow> bool" where
  "is_integral n \<longleftrightarrow> rat_of_int \<lfloor>n\<rfloor> = n"

definition decide_reasoning :: "reasoning_input \<Rightarrow> thinking \<times> reasoning_decision" where
  "decide_reasoning i =
     (case ri_effort i of
        JStr effort \<Rightarrow>
          if effort \<notin> set VALID_EFFORTS then (No_Thinking, D_Unknown_Effort)
          else if has_incompatible_sampling (ri_temperature i) (ri_top_p i) then (No_Thinking, D_Incompatible_Sampling)
          else if is_forced_tool_choice (ri_tool_choice i) then (No_Thinking, D_Forced_Tool_Choice)
          else (case map_of MODEL_REASONING_SUPPORT (ri_model i) of
                  None \<Rightarrow> (No_Thinking, D_Model_Not_Supported)
                | Some Adaptive \<Rightarrow>
                    (case ri_max_tokens i of
                       Some n \<Rightarrow> if n < MIN_MAX_TOKENS_FOR_THINKING then (No_Thinking, D_Max_Tokens_Too_Small)
                                 else (Effort effort, D_Adaptive)
                     | None \<Rightarrow> (Effort effort, D_Adaptive))
                | Some Budget \<Rightarrow>
                    let mapped = the (map_of EFFORT_TO_BUDGET_TOKENS effort) in
                    (case ri_max_tokens i of
                       None \<Rightarrow> (Budget_Tokens mapped, D_Budget)
                     | Some n \<Rightarrow>
                         if \<not> is_integral n then (No_Thinking, D_Max_Tokens_Not_An_Integer)
                         else let budget = min mapped \<lfloor>n / 2\<rfloor> in
                           if budget < MIN_BUDGET_TOKENS then (No_Thinking, D_Max_Tokens_Too_Small)
                           else (Budget_Tokens budget, D_Budget)))
      | _ \<Rightarrow> (No_Thinking, D_No_Effort))"

definition resolve_reasoning_effort :: "reasoning_input \<Rightarrow> (string \<times> js) list" where
  "resolve_reasoning_effort i =
     (case fst (decide_reasoning i) of
        No_Thinking \<Rightarrow> []
      | Effort e \<Rightarrow> [(''thinking'', JObj [(''type'', JStr ''adaptive'')]), (''output_config'', JObj [(''effort'', JStr e)])]
      | Budget_Tokens n \<Rightarrow>
          [(''thinking'', JObj [(''type'', JStr ''enabled''), (''budget_tokens'', JNum (rat_of_int n))])])"

definition explain_reasoning_effort :: "reasoning_input \<Rightarrow> reasoning_decision" where
  "explain_reasoning_effort i = snd (decide_reasoning i)"

section \<open>Input items to messages\<close>

definition TEXT_PART_TYPES :: "js list" where
  "TEXT_PART_TYPES = [JStr ''input_text'', JStr ''output_text'', JStr ''text'']"

definition DROPPED_ITEM_TYPES :: "js list" where
  "DROPPED_ITEM_TYPES = [JStr ''reasoning'', JStr ''compaction'', JStr ''compaction_trigger'']"

definition text_block :: "string \<Rightarrow> js" where
  "text_block t = JObj [(''type'', JStr ''text''), (''text'', JStr t)]"

definition image_block :: "string \<Rightarrow> js" where
  "image_block url = JObj [(''type'', JStr ''image_url''), (''image_url'', JObj [(''url'', JStr url)])]"

text \<open>The text of a text part, the address of an image part that carries its data.\<close>

definition part_text :: "js \<Rightarrow> string option" where
  "part_text part = (if jget part ''type'' \<in> set TEXT_PART_TYPES then jstring (jget part ''text'') else None)"

definition data_image :: "js \<Rightarrow> string option" where
  "data_image part =
     (case (case jget part ''image_url'' of JStr s \<Rightarrow> JStr s | v \<Rightarrow> jget v ''url'') of
        JStr url \<Rightarrow> if prefix ''data:image/'' (lower url) then Some url else None
      | _ \<Rightarrow> None)"

fun part_blocks :: "js list \<Rightarrow> js + js list" where
  "part_blocks [] = Inr []"
| "part_blocks (part # parts) =
     (case (case part_text part of
              Some t \<Rightarrow> Some (text_block t)
            | None \<Rightarrow> if jget part ''type'' = JStr ''input_image'' then map_option image_block (data_image part) else None) of
        None \<Rightarrow> Inl (jget part ''type'')
      | Some b \<Rightarrow> (case part_blocks parts of Inl e \<Rightarrow> Inl e | Inr bs \<Rightarrow> Inr (b # bs)))"

definition text_blocks :: "js \<Rightarrow> js + js list" where
  "text_blocks content =
     (case content of JStr t \<Rightarrow> Inr [text_block t] | JArr parts \<Rightarrow> part_blocks parts | _ \<Rightarrow> Inr [])"

definition extract_output_images :: "js list \<Rightarrow> (string \<times> string list) option" where
  "extract_output_images parts =
     (let urls = collect_some data_image parts;
          texts = collect_some (\<lambda>p. if data_image p = None then part_text p else None) parts
      in if urls = [] then None else Some (join [CHR 0x0A] texts, urls))"

definition input_message :: "string \<Rightarrow> js \<Rightarrow> (string \<times> js) list \<Rightarrow> js" where
  "input_message role content extra = JObj ([(''role'', JStr role), (''content'', content)] @ extra)"

definition item_messages :: "(js \<Rightarrow> string) \<Rightarrow> js \<Rightarrow> js + js list" where
  "item_messages stringify item =
     (let ty = jget item ''type'' in
      if ty \<in> set DROPPED_ITEM_TYPES then Inr []
      else if ty = JStr ''message'' \<or> ty = JUndef \<and> truthy (jget item ''role'') then
        (case text_blocks (jget item ''content'') of
           Inl e \<Rightarrow> Inl e
         | Inr blocks \<Rightarrow>
             Inr [JObj [(''role'', if jget item ''role'' = JStr ''developer'' then JStr ''system'' else jget item ''role''),
                        (''content'', JArr blocks)]])
      else if ty = JStr ''function_call'' then
        Inr [input_message ''assistant'' (JStr [])
               [(''tool_calls'', JArr [JObj [(''id'', jget item ''call_id''), (''type'', JStr ''function''),
                   (''function'', JObj [(''name'', jget item ''name''), (''arguments'', jget item ''arguments'')])]])]]
      else if ty = JStr ''function_call_output'' then
        (case (case jget item ''output'' of JArr parts \<Rightarrow> extract_output_images parts | _ \<Rightarrow> None) of
           Some (t, urls) \<Rightarrow>
             Inr [JObj [(''role'', JStr ''tool''), (''tool_call_id'', jget item ''call_id''),
                    (''content'', JStr (if t \<noteq> [] then t else ''Returned an image; see the next message.''))],
                  input_message ''user''
                    (JArr (text_block ''Image content from the previous tool call:'' # map image_block urls)) []]
         | None \<Rightarrow>
             Inr [JObj [(''role'', JStr ''tool''), (''tool_call_id'', jget item ''call_id''),
                    (''content'', case jget item ''output'' of JStr s \<Rightarrow> JStr s | v \<Rightarrow> JStr (stringify v))]])
      else Inl ty)"

fun items_messages :: "(js \<Rightarrow> string) \<Rightarrow> js list \<Rightarrow> js + js list" where
  "items_messages stringify [] = Inr []"
| "items_messages stringify (item # items) =
     (case item_messages stringify item of
        Inl e \<Rightarrow> Inl e
      | Inr ms \<Rightarrow> (case items_messages stringify items of Inl e \<Rightarrow> Inl e | Inr rest \<Rightarrow> Inr (ms @ rest)))"

definition responses_input_to_messages :: "(js \<Rightarrow> string) \<Rightarrow> js \<Rightarrow> js \<Rightarrow> js + js list" where
  "responses_input_to_messages stringify input instructions =
     (let lead = (case instructions of
                    JStr t \<Rightarrow> if t \<noteq> [] then [input_message ''system'' (JArr [text_block t]) []] else [] | _ \<Rightarrow> [])
      in case input of
           JStr t \<Rightarrow> Inr (lead @ [input_message ''user'' (JArr [text_block t]) []])
         | JArr items \<Rightarrow>
             (case items_messages stringify items of Inl e \<Rightarrow> Inl e | Inr ms \<Rightarrow> Inr (lead @ ms))
         | _ \<Rightarrow> Inr lead)"

definition translate_tool :: "js \<Rightarrow> js" where
  "translate_tool t =
     (if jget t ''type'' = JStr ''function'' \<and> truthy (jget t ''function'') then t
      else if jget t ''type'' = JStr ''function'' then
        JObj [(''type'', JStr ''function''),
              (''function'', JObj ([(''name'', jget t ''name''), (''parameters'', jget t ''parameters'')]
                 @ (if jget t ''description'' \<noteq> JUndef then [(''description'', jget t ''description'')] else [])
                 @ (if jget t ''strict'' \<noteq> JUndef then [(''strict'', jget t ''strict'')] else [])))]
      else t)"

section \<open>Placeholders of the template\<close>

text \<open>The name of a placeholder at the start of a text: a letter, then letters and digits, each perhaps after one
  \<open>_\<close> or \<open>-\<close>.\<close>

definition is_letter :: "char \<Rightarrow> bool" where
  "is_letter c \<longleftrightarrow> is_upper c \<or> is_lower c"

definition is_alnum :: "char \<Rightarrow> bool" where
  "is_alnum c \<longleftrightarrow> is_letter c \<or> is_digit c"

fun name_rest :: "string \<Rightarrow> string \<times> string" where
  "name_rest [] = ([], [])"
| "name_rest (c # cs) =
     (if is_alnum c then (case name_rest cs of (n, rest) \<Rightarrow> (c # n, rest))
      else if c = CHR ''_'' \<or> c = CHR ''-'' then
        (case cs of
           d # ds \<Rightarrow> if is_alnum d then (case name_rest ds of (n, rest) \<Rightarrow> (c # d # n, rest)) else ([], c # cs)
         | [] \<Rightarrow> ([], c # cs))
      else ([], c # cs))"

text \<open>A placeholder at the start of a text: its name, the text it is written as, and what follows.\<close>

definition placeholder_at :: "string \<Rightarrow> (string \<times> string \<times> string) option" where
  "placeholder_at s =
     (if \<not> prefix ''{{'' s then None
      else (case dropWhile is_space (drop 2 s) of
              CHR ''?'' # c # cs \<Rightarrow>
                if \<not> is_letter c then None
                else (case name_rest cs of
                        (n, rest) \<Rightarrow>
                          let after = dropWhile is_space rest in
                          if prefix ''}}'' after
                          then Some (c # n, take (length s - length (drop 2 after)) s, drop 2 after)
                          else None)
            | _ \<Rightarrow> None))"

lemma placeholder_at_shorter: "placeholder_at s = Some (n, w, rest) \<Longrightarrow> length rest < length s"
proof -
  assume a: "placeholder_at s = Some (n, w, rest)"
  have nr: "name_rest t = (m, r) \<Longrightarrow> length r \<le> length t" for t m r
    by (induction t arbitrary: m r rule: name_rest.induct) (fastforce split: if_splits list.splits prod.splits)+
  have dw: "length (dropWhile is_space t) \<le> length t" for t by (rule length_dropWhile_le)
  obtain c cs m r where parts: "prefix ''{{'' s" "dropWhile is_space (drop 2 s) = CHR ''?'' # c # cs"
    "name_rest cs = (m, r)" "prefix ''}}'' (dropWhile is_space r)" "rest = drop 2 (dropWhile is_space r)"
    using a by (auto simp: placeholder_at_def Let_def split: if_splits list.splits char.splits bool.splits prod.splits)
  have "length (dropWhile is_space (drop 2 s)) \<le> length s" using dw [of "drop 2 s"] by simp
  moreover have "length r \<le> length cs" using nr [OF parts(3)] .
  moreover have "length rest \<le> length r" using dw [of r] parts(5) by simp
  ultimately show "length rest < length s" using parts(2) by simp
qed

function placeholders :: "string \<Rightarrow> (string \<times> string) list" where
  "placeholders s =
     (case s of
        [] \<Rightarrow> []
      | c # cs \<Rightarrow>
          (case placeholder_at s of
             Some (n, w, rest) \<Rightarrow> (n, w) # placeholders rest
           | None \<Rightarrow> placeholders cs))"
  by pat_completeness auto

termination placeholders
  by (relation "measure length") (auto dest: placeholder_at_shorter)

declare placeholders.simps [simp del]

text \<open>The properties every object inherits: they are never \<open>undefined\<close>.\<close>

definition INHERITED :: "string list" where
  "INHERITED =
     [''constructor'', ''hasOwnProperty'', ''isPrototypeOf'', ''propertyIsEnumerable'', ''toLocaleString'', ''toString'',
      ''valueOf'']"

definition note_placeholder :: "(string \<times> string) \<Rightarrow> (string \<times> string) list \<Rightarrow> (string \<times> string) list" where
  "note_placeholder p values =
     (if fst p \<in> set INHERITED \<or> map_of values (fst p) \<noteq> None then values else values @ [p])"

definition message_texts :: "js \<Rightarrow> string list" where
  "message_texts message =
     (case jget message ''content'' of
        JStr s \<Rightarrow> [s]
      | JArr bs \<Rightarrow> map (\<lambda>b. case jget b ''text'' of JStr s \<Rightarrow> s | _ \<Rightarrow> []) bs
      | _ \<Rightarrow> [])"

definition literal_placeholder_values :: "js \<Rightarrow> (string \<times> string) list" where
  "literal_placeholder_values message = fold note_placeholder (concat (map placeholders (message_texts message))) []"

section \<open>The payload\<close>

record orchestration_payload =
  pl_template :: "js list"
  pl_history :: "js list"
  pl_model :: string
  pl_params :: "(string \<times> js) list"
  pl_tools :: "js list option"
  pl_response_format :: "js option"
  pl_stream :: bool
  pl_placeholder_values :: "(string \<times> string) list"

definition is_role :: "string \<Rightarrow> js \<Rightarrow> bool" where
  "is_role role m \<longleftrightarrow> jget m ''role'' = JStr role"

text \<open>The messages without the very object found first.\<close>

fun without_first :: "(js \<Rightarrow> bool) \<Rightarrow> js list \<Rightarrow> js list" where
  "without_first p [] = []"
| "without_first p (m # ms) = (if p m then ms else m # without_first p ms)"

definition refuses_trailing_system :: "string \<Rightarrow> bool" where
  "refuses_trailing_system model \<longleftrightarrow> prefix ''mistralai--'' (lower model)"

definition DEFAULT_SYSTEM :: js where
  "DEFAULT_SYSTEM = input_message ''system'' (JArr [text_block ''You are a helpful assistant.'']) []"

definition assemble_orchestration_payload ::
  "js list \<Rightarrow> string \<Rightarrow> (string \<times> js) list \<Rightarrow> bool \<Rightarrow> js list option \<Rightarrow> js option \<Rightarrow> orchestration_payload" where
  "assemble_orchestration_payload messages model params stream tools response_format =
     (let system = find (is_role ''system'') messages;
          conversation = (case system of None \<Rightarrow> messages | Some _ \<Rightarrow> without_first (is_role ''system'') messages);
          swap = (conversation \<noteq> [] \<and> is_role ''tool'' (last conversation) \<and> refuses_trailing_system model);
          lead = (case system of None \<Rightarrow> [] | Some m \<Rightarrow> [m])
      in \<lparr> pl_template = (if swap then [last conversation] else if lead = [] then [DEFAULT_SYSTEM] else lead),
           pl_history = (if swap then lead @ butlast conversation else conversation),
           pl_model = model, pl_params = params,
           pl_tools = (case tools of Some ts \<Rightarrow> if ts \<noteq> [] then Some ts else None | None \<Rightarrow> None),
           pl_response_format = response_format, pl_stream = stream,
           pl_placeholder_values = (if swap then literal_placeholder_values (last conversation) else []) \<rparr>)"

definition number_of :: "js \<Rightarrow> rat option" where
  "number_of v = (case v of JNum n \<Rightarrow> Some n | _ \<Rightarrow> None)"

definition build_params :: "js \<Rightarrow> string \<Rightarrow> (string \<times> js) list" where
  "build_params body model =
     (let number = (\<lambda>k field. case number_of (jget body field) of Some n \<Rightarrow> [(k, JNum n)] | None \<Rightarrow> []);
          given = number ''max_tokens'' ''max_output_tokens'' @ number ''temperature'' ''temperature'' @ number ''top_p'' ''top_p''
                  @ (if jget body ''tool_choice'' \<noteq> JUndef then [(''tool_choice'', jget body ''tool_choice'')] else [])
      in given @ resolve_reasoning_effort
           \<lparr> ri_model = model, ri_effort = jget (jget body ''reasoning'') ''effort'',
             ri_max_tokens = number_of (jget body ''max_output_tokens''), ri_temperature = number_of (jget body ''temperature''),
             ri_top_p = number_of (jget body ''top_p''), ri_tool_choice = jget body ''tool_choice'' \<rparr>)"

definition build_orchestration_payload :: "(js \<Rightarrow> string) \<Rightarrow> js \<Rightarrow> string \<Rightarrow> bool \<Rightarrow> js + orchestration_payload" where
  "build_orchestration_payload stringify body model stream =
     (case responses_input_to_messages stringify (jget body ''input'') (jget body ''instructions'') of
        Inl e \<Rightarrow> Inl e
      | Inr messages \<Rightarrow>
          Inr (assemble_orchestration_payload messages model (build_params body model) stream
                 (case jget body ''tools'' of JArr ts \<Rightarrow> if ts \<noteq> [] then Some (map translate_tool ts) else None | _ \<Rightarrow> None)
                 None))"

section \<open>Cache breakpoints\<close>

definition MAX_BRIDGE_BREAKPOINTS :: nat where
  "MAX_BRIDGE_BREAKPOINTS = 4"

definition BREAKPOINT :: js where
  "BREAKPOINT = JObj [(''type'', JStr ''ephemeral'')]"

text \<open>\<open>JSON.parse(JSON.stringify(v))\<close> of data without cycles: undefined fields are lost, undefined elements are null.\<close>

fun json_clone :: "js \<Rightarrow> js" and clone_fields :: "(string \<times> js) list \<Rightarrow> (string \<times> js) list"
  and clone_elements :: "js list \<Rightarrow> js list" where
  "json_clone (JObj kvs) = JObj (clone_fields kvs)"
| "json_clone (JArr xs) = JArr (clone_elements xs)"
| "json_clone v = v"
| "clone_fields [] = []"
| "clone_fields (kv # kvs) = (if snd kv = JUndef then clone_fields kvs else (fst kv, json_clone (snd kv)) # clone_fields kvs)"
| "clone_elements [] = []"
| "clone_elements (x # xs) = (if x = JUndef then JNull else json_clone x) # clone_elements xs"

text \<open>The message with its last block marked; \<open>None\<close> when it cannot hold a mark.\<close>

definition mark_last_block :: "js \<Rightarrow> js option" where
  "mark_last_block m =
     (case jget m ''content'' of
        JArr bs \<Rightarrow>
          if bs = [] \<or> \<not> is_objectish (last bs) then None
          else Some (jset ''content'' (JArr (butlast bs @
                 [case last bs of JObj kvs \<Rightarrow> jset ''cache_control'' BREAKPOINT (JObj kvs) | v \<Rightarrow> v])) m)
      | _ \<Rightarrow> None)"

text \<open>The first system message of the template is marked if it can be.\<close>

fun mark_system :: "js list \<Rightarrow> nat \<times> js list" where
  "mark_system [] = (0, [])"
| "mark_system (m # ms) =
     (if is_role ''system'' m then (case mark_last_block m of Some m' \<Rightarrow> (1, m' # ms) | None \<Rightarrow> (0, m # ms))
      else (case mark_system ms of (used, ms') \<Rightarrow> (used, m # ms')))"

text \<open>Backwards from the second newest message: the first one that can hold a mark gets it.\<close>

fun mark_prefix :: "js list \<Rightarrow> js list" where
  "mark_prefix [] = []"
| "mark_prefix (m # ms) =
     (if is_role ''system'' m then m # ms
      else (case mark_last_block m of Some m' \<Rightarrow> m' # ms | None \<Rightarrow> m # mark_prefix ms))"

definition apply_cache_breakpoints :: "orchestration_payload \<Rightarrow> bool \<Rightarrow> orchestration_payload" where
  "apply_cache_breakpoints pl enabled =
     (if \<not> enabled then pl
      else let template = clone_elements (pl_template pl); history = clone_elements (pl_history pl) in
        case mark_system template of
          (used, template') \<Rightarrow>
            pl\<lparr> pl_template := template',
                pl_history := (if history = [] \<or> MAX_BRIDGE_BREAKPOINTS \<le> used then history
                               else rev (mark_prefix (rev (butlast history))) @ [last history]),
                pl_params := clone_fields (pl_params pl), pl_tools := map_option clone_elements (pl_tools pl),
                pl_response_format := map_option json_clone (pl_response_format pl) \<rparr>)"

end
