(* ===== verification/Responses_Payload.thy ===== *)
theory Responses_Payload
  imports Responses_Request "HOL-Library.Multiset"
begin

text \<open>
  What the request side of the Responses bridge guarantees: thinking never takes more than half of the client's
  tokens and never conflicts with its other parameters, the payload carries every message exactly once, a
  placeholder in a template is put back as it was written, and at most two cache breakpoints are set, none of them on
  the newest message.
\<close>

section \<open>Thinking\<close>

lemma emitted_iff: "reasoning_was_emitted (explain_reasoning_effort i) \<longleftrightarrow> resolve_reasoning_effort i \<noteq> []"
  by (auto simp: explain_reasoning_effort_def resolve_reasoning_effort_def decide_reasoning_def reasoning_was_emitted_def
      Let_def split: js.split option.split thinking_shape.split)

lemma decided_thinking:
  assumes "fst (decide_reasoning i) \<noteq> No_Thinking"
  obtains effort shape where "ri_effort i = JStr effort" "effort \<in> set VALID_EFFORTS"
    "\<not> has_incompatible_sampling (ri_temperature i) (ri_top_p i)" "\<not> is_forced_tool_choice (ri_tool_choice i)"
    "map_of MODEL_REASONING_SUPPORT (ri_model i) = Some shape"
  using assms
  by (auto simp: decide_reasoning_def split: js.splits if_splits option.splits)

lemma adaptive_tokens:
  "fst (decide_reasoning i) = Effort e \<Longrightarrow> ri_max_tokens i = Some n \<Longrightarrow> 2048 \<le> n"
  by (auto simp: decide_reasoning_def MIN_MAX_TOKENS_FOR_THINKING_def Let_def
      split: js.splits if_splits option.splits thinking_shape.splits)

lemma budget_tokens:
  assumes "fst (decide_reasoning i) = Budget_Tokens b" "ri_max_tokens i = Some n"
  shows "1024 \<le> b \<and> rat_of_int b \<le> n / 2"
proof -
  obtain m where "b = min m \<lfloor>n / 2\<rfloor>" "\<not> b < MIN_BUDGET_TOKENS"
    using assms by (auto simp: decide_reasoning_def Let_def split: js.splits if_splits option.splits thinking_shape.splits)
  then have "1024 \<le> b" "b \<le> \<lfloor>n / 2\<rfloor>" unfolding MIN_BUDGET_TOKENS_def by linarith+
  then show ?thesis by (simp only: le_floor_iff simp_thms)
qed

text \<open>Thinking is only switched on for a request that stays valid with it: the effort and the model are known, the
  sampling parameters and the tool choice allow it, and a token limit of the client is at least 2048; a budget is at
  least the documented floor and at most half of that limit. The parameters are empty exactly when the decision
  says that nothing was sent.\<close>

theorem thinking_keeps_request_valid:
  "(reasoning_was_emitted (explain_reasoning_effort i) \<longleftrightarrow> resolve_reasoning_effort i \<noteq> [])
   \<and> (resolve_reasoning_effort i \<noteq> [] \<longrightarrow>
        (\<exists>effort shape. ri_effort i = JStr effort \<and> effort \<in> set VALID_EFFORTS
           \<and> map_of MODEL_REASONING_SUPPORT (ri_model i) = Some shape)
        \<and> \<not> has_incompatible_sampling (ri_temperature i) (ri_top_p i) \<and> ri_tool_choice i \<noteq> JStr ''required''
        \<and> (case ri_max_tokens i of
             None \<Rightarrow> True
           | Some n \<Rightarrow> 2048 \<le> n
               \<and> (case fst (decide_reasoning i) of Budget_Tokens b \<Rightarrow> 1024 \<le> b \<and> rat_of_int b \<le> n / 2 | _ \<Rightarrow> True)))"
proof -
  have tokens: "2048 \<le> n \<and> (case fst (decide_reasoning i) of Budget_Tokens b \<Rightarrow> 1024 \<le> b \<and> rat_of_int b \<le> n / 2 | _ \<Rightarrow> True)"
    if "fst (decide_reasoning i) \<noteq> No_Thinking" "ri_max_tokens i = Some n" for n
  proof (cases "fst (decide_reasoning i)")
    case (Budget_Tokens b)
    have "rat_of_int 1024 \<le> rat_of_int b" using budget_tokens [OF Budget_Tokens that(2)] by (simp only: of_int_le_iff)
    then show ?thesis using budget_tokens [OF Budget_Tokens that(2)] Budget_Tokens by simp
  qed (use that adaptive_tokens in simp_all)
  have on: "fst (decide_reasoning i) \<noteq> No_Thinking" if "resolve_reasoning_effort i \<noteq> []"
    using that by (auto simp: resolve_reasoning_effort_def)
  show ?thesis
  proof (cases "resolve_reasoning_effort i = []")
    case True
    then show ?thesis using emitted_iff [of i] by simp
  next
    case False
    obtain effort shape where d: "ri_effort i = JStr effort" "effort \<in> set VALID_EFFORTS"
      "\<not> has_incompatible_sampling (ri_temperature i) (ri_top_p i)" "\<not> is_forced_tool_choice (ri_tool_choice i)"
      "map_of MODEL_REASONING_SUPPORT (ri_model i) = Some shape"
      by (rule decided_thinking [OF on [OF False]])
    have "ri_tool_choice i \<noteq> JStr ''required''" using d(4) by (simp add: is_forced_tool_choice_def)
    moreover have "case ri_max_tokens i of None \<Rightarrow> True
      | Some n \<Rightarrow> 2048 \<le> n
          \<and> (case fst (decide_reasoning i) of Budget_Tokens b \<Rightarrow> 1024 \<le> b \<and> rat_of_int b \<le> n / 2 | _ \<Rightarrow> True)"
      by (cases "ri_max_tokens i") (use tokens [OF on [OF False]] in simp_all)
    ultimately show ?thesis using emitted_iff [of i] d by blast
  qed
qed

lemma thinking_keeps_request_valid_witness:
  "resolve_reasoning_effort
     \<lparr> ri_model = ''anthropic--claude-4.5-opus'', ri_effort = JStr ''xhigh'', ri_max_tokens = Some 4096,
       ri_temperature = Some 1, ri_top_p = None, ri_tool_choice = JUndef \<rparr> \<noteq> []
   \<and> reasoning_was_emitted (explain_reasoning_effort
     \<lparr> ri_model = ''anthropic--claude-4.5-opus'', ri_effort = JStr ''xhigh'', ri_max_tokens = Some 4096,
       ri_temperature = Some 1, ri_top_p = None, ri_tool_choice = JUndef \<rparr>)"
proof -
  let ?i = "\<lparr> ri_model = ''anthropic--claude-4.5-opus'', ri_effort = JStr ''xhigh'', ri_max_tokens = Some 4096,
       ri_temperature = Some 1, ri_top_p = None, ri_tool_choice = JUndef \<rparr>"
  have "resolve_reasoning_effort ?i \<noteq> []"
    by (simp add: resolve_reasoning_effort_def decide_reasoning_def VALID_EFFORTS_def has_incompatible_sampling_def
        is_forced_tool_choice_def MODEL_REASONING_SUPPORT_def is_integral_def EFFORT_TO_BUDGET_TOKENS_def
        MIN_BUDGET_TOKENS_def Let_def)
  then show ?thesis using thinking_keeps_request_valid [of ?i] by blast
qed

section \<open>Every message once\<close>

lemma without_first_mset: "find p ms = Some m \<Longrightarrow> mset ms = add_mset m (mset (without_first p ms))"
  by (induction ms) (auto split: if_splits)

text \<open>The template and the history of a payload are disjoint and carry every message exactly once: together they
  are the messages of the request, with a default system message added when there is none and no message is swapped
  into the template.\<close>

theorem payload_carries_every_message_once:
  fixes messages model params stream tools fmt
  defines "pl \<equiv> assemble_orchestration_payload messages model params stream tools fmt"
  shows "mset (pl_template pl @ pl_history pl) = mset messages
    \<or> find (is_role ''system'') messages = None
      \<and> mset (pl_template pl @ pl_history pl) = add_mset DEFAULT_SYSTEM (mset messages)"
proof -
  have snoc: "add_mset (last ms) (mset (butlast ms)) = mset ms" if "ms \<noteq> []" for ms :: "js list"
    using that by (metis add_mset_add_single append_butlast_last_id mset.simps(1,2) mset_append)
  show ?thesis
  proof (cases "find (is_role ''system'') messages")
    case None
    then show ?thesis by (auto simp: pl_def assemble_orchestration_payload_def Let_def snoc)
  next
    case (Some m)
    have "mset (pl_template pl @ pl_history pl) = add_mset m (mset (without_first (is_role ''system'') messages))"
      using snoc [of "without_first (is_role ''system'') messages"]
      by (auto simp: pl_def assemble_orchestration_payload_def Let_def Some add_mset_commute)
    then show ?thesis using without_first_mset [OF Some] by simp
  qed
qed

section \<open>Placeholders\<close>

lemma placeholder_written:
  assumes "placeholder_at s = Some (n, w, rest)"
  shows "s = w @ rest"
proof -
  obtain after where a: "rest = drop 2 after" "w = take (length s - length (drop 2 after)) s"
    "\<exists>p. s = p @ after"
  proof -
    obtain c cs m r where parts: "prefix ''{{'' s" "dropWhile is_space (drop 2 s) = CHR ''?'' # c # cs"
      "name_rest cs = (m, r)" "rest = drop 2 (dropWhile is_space r)"
      "w = take (length s - length (drop 2 (dropWhile is_space r))) s"
      using assms
      by (auto simp: placeholder_at_def Let_def split: if_splits list.splits char.splits bool.splits prod.splits)
    have nr: "name_rest t = (k, q) \<Longrightarrow> \<exists>p. t = p @ q" for t k q
      by (induction t arbitrary: k q rule: name_rest.induct) (fastforce split: if_splits list.splits prod.splits)+
    obtain p where "cs = p @ r" using nr [OF parts(3)] by blast
    moreover have "r = takeWhile is_space r @ dropWhile is_space r" by simp
    moreover have "drop 2 s = takeWhile is_space (drop 2 s) @ CHR ''?'' # c # cs"
      using takeWhile_dropWhile_id [of is_space "drop 2 s"] parts(2) by simp
    then have "s = take 2 s @ takeWhile is_space (drop 2 s) @ CHR ''?'' # c # cs"
      by (metis append_take_drop_id)
    ultimately have "\<exists>p. s = p @ dropWhile is_space r"
      by (metis append_assoc append_Cons)
    then show thesis using that parts(4,5) by blast
  qed
  then obtain p where p: "s = p @ after" by blast
  have "s = (p @ take 2 after) @ drop 2 after" using p by simp
  then have "take (length s - length (drop 2 after)) s = p @ take 2 after"
    by (metis append_eq_conv_conj diff_add_inverse2 length_append)
  then show ?thesis using a(1,2) p by simp
qed

lemma placeholders_step:
  "placeholders (c # cs) =
     (case placeholder_at (c # cs) of Some (n, w, rest) \<Rightarrow> (n, w) # placeholders rest | None \<Rightarrow> placeholders cs)"
  by (simp add: placeholders.simps [of "c # cs"])

lemma placeholders_Nil [simp]: "placeholders [] = []"
  by (simp add: placeholders.simps)

text \<open>Every placeholder found occurs in the text as it was written.\<close>

lemma placeholders_occur: "(n, w) \<in> set (placeholders s) \<Longrightarrow> sublist w s"
proof (induction s rule: placeholders.induct)
  case (1 s)
  show ?case
  proof (cases s)
    case Nil
    then show ?thesis using 1(3) by simp
  next
    case (Cons c cs)
    show ?thesis
    proof (cases "placeholder_at s")
      case None
      then have "sublist w cs" using 1(1) [OF Cons None] 1(3) Cons by (simp add: placeholders_step)
      then show ?thesis using Cons by (simp add: sublist_Cons_right)
    next
      case (Some p)
      obtain m v rest where p: "p = (m, v, rest)" by (cases p)
      have s: "s = v @ rest" using placeholder_written Some p by simp
      have "(n, w) = (m, v) \<or> (n, w) \<in> set (placeholders rest)"
        using 1(3) Cons Some p by (auto simp: placeholders_step)
      then show ?thesis
      proof
        assume "(n, w) = (m, v)"
        then show ?thesis using s by simp
      next
        assume "(n, w) \<in> set (placeholders rest)"
        then have "sublist w rest" using 1(2) [OF Cons Some] p by simp
        then show ?thesis unfolding s by (auto simp: sublist_def) (metis append.assoc)
      qed
    qed
  qed
qed

lemma note_placeholder_get:
  "map_of (note_placeholder p vals) k =
     (case map_of vals k of
        Some w \<Rightarrow> Some w
      | None \<Rightarrow> if k = fst p \<and> k \<notin> set INHERITED then Some (snd p) else None)"
  by (cases p) (auto simp: note_placeholder_def map_add_def split: option.splits)

lemma noted_placeholders:
  "map_of (fold note_placeholder ps vals) k =
     (case map_of vals k of Some w \<Rightarrow> Some w | None \<Rightarrow> if k \<in> set INHERITED then None else map_of ps k)"
proof (induction ps arbitrary: vals)
  case (Cons p ps)
  show ?case by (cases p) (auto simp: Cons.IH note_placeholder_get split: option.splits)
qed (simp split: option.split)

text \<open>Every placeholder that the template's one message contains is put back as it was written, with the first
  spelling of its name, except the names every object inherits: those get no value, so the provider refuses the
  request.\<close>

theorem placeholders_put_back:
  "map_of (literal_placeholder_values message) n =
     (if n \<in> set INHERITED then None else map_of (concat (map placeholders (message_texts message))) n)"
  by (simp add: literal_placeholder_values_def noted_placeholders)

section \<open>Cache breakpoints\<close>

definition marked_block :: "js \<Rightarrow> bool" where
  "marked_block b \<longleftrightarrow> jget b ''cache_control'' \<noteq> JUndef"

definition message_marks :: "js \<Rightarrow> nat" where
  "message_marks m = length (filter marked_block (js_list (jget m ''content'')))"

definition marks :: "js list \<Rightarrow> nat" where
  "marks ms = sum_list (map message_marks ms)"

lemma marks_simps [simp]: "marks [] = 0" "marks (m # ms) = message_marks m + marks ms" "marks (a @ b) = marks a + marks b"
  by (simp_all add: marks_def)

lemma marks_rev [simp]: "marks (rev ms) = marks ms"
  by (induction ms) simp_all

lemma mark_last_block_marks:
  assumes "mark_last_block m = Some m'"
  shows "message_marks m' \<le> Suc (message_marks m)"
proof -
  obtain bs where bs: "jget m ''content'' = JArr bs" "bs \<noteq> []"
    "m' = jset ''content'' (JArr (butlast bs @ [case last bs of JObj kvs \<Rightarrow> jset ''cache_control'' BREAKPOINT (JObj kvs) | v \<Rightarrow> v])) m"
    using assms by (auto simp: mark_last_block_def split: js.splits if_splits)
  have "filter marked_block bs = filter marked_block (butlast bs @ [last bs])" using bs(2) by simp
  then show ?thesis using bs(1,3) by (simp add: message_marks_def js_list_def)
qed

lemma mark_system_marks: "mark_system ms = (used, ms') \<Longrightarrow> marks ms' \<le> marks ms + 1 \<and> used \<le> 1"
proof (induction ms arbitrary: used ms')
  case (Cons m ms)
  then show ?case
    by (fastforce split: if_splits option.splits prod.splits dest: mark_last_block_marks)
qed simp

lemma mark_prefix_marks: "marks (mark_prefix ms) \<le> marks ms + 1"
  by (induction ms) (auto split: option.split dest: mark_last_block_marks)

text \<open>Texts and images of the translated items carry no mark.\<close>

lemma clone_fields_keys: "fst ` set (clone_fields kvs) \<subseteq> fst ` set kvs"
  by (induction kvs) auto

lemma clone_get:
  "distinct (map fst kvs) \<Longrightarrow> jget (json_clone (JObj kvs)) k = json_clone (jget (JObj kvs) k)"
proof (induction kvs)
  case (Cons kv kvs)
  have "map_of (clone_fields kvs) (fst kv) = None"
    using Cons.prems clone_fields_keys [of kvs] by (auto simp: map_of_eq_None_iff)
  moreover have "map_of kvs (fst kv) = None" using Cons.prems by (simp add: map_of_eq_None_iff)
  ultimately show ?case using Cons by (cases "k = fst kv") auto
qed simp

text \<open>The messages the translation builds: an object whose content is a text, or blocks of text and images.\<close>

definition plain_block :: "js \<Rightarrow> bool" where
  "plain_block b \<longleftrightarrow> (\<exists>t. b = text_block t \<or> b = image_block t)"

definition plain_content :: "js \<Rightarrow> bool" where
  "plain_content c \<longleftrightarrow> (case c of JArr bs \<Rightarrow> list_all plain_block bs | JStr t \<Rightarrow> True | _ \<Rightarrow> False)"

definition plain_message :: "js \<Rightarrow> bool" where
  "plain_message m \<longleftrightarrow> (case m of JObj kvs \<Rightarrow> distinct (map fst kvs) \<and> plain_content (jget m ''content'') | _ \<Rightarrow> False)"

lemma plain_blocks [simp]: "plain_block (text_block t)" "plain_block (image_block t)"
  "list_all plain_block (map image_block urls)"
  by (auto simp: plain_block_def list_all_iff)

lemma plain_block_clone: "plain_block b \<Longrightarrow> json_clone b = b \<and> b \<noteq> JUndef \<and> \<not> marked_block b"
  by (auto simp: plain_block_def text_block_def image_block_def marked_block_def)

lemma plain_clone_content: "plain_content c \<Longrightarrow> json_clone c = c"
proof (cases c)
  case (JArr bs)
  assume "plain_content c"
  then have "list_all plain_block bs" by (simp add: plain_content_def JArr)
  then have "clone_elements bs = bs" by (induction bs) (auto dest: plain_block_clone)
  then show ?thesis by (simp add: JArr)
qed (simp_all add: plain_content_def)

lemma plain_clone_unmarked: "plain_message m \<Longrightarrow> m \<noteq> JUndef \<and> message_marks (json_clone m) = 0"
proof (cases m)
  case (JObj kvs)
  assume p: "plain_message m"
  then have c: "jget (json_clone m) ''content'' = jget m ''content''" "plain_content (jget m ''content'')"
    using clone_get [of kvs "''content''"] plain_clone_content by (simp_all add: plain_message_def JObj)
  have "filter marked_block (js_list (jget m ''content'')) = []"
    using c(2) plain_block_clone by (auto simp: plain_content_def js_list_def list_all_iff filter_empty_conv split: js.splits)
  then show ?thesis unfolding message_marks_def c(1) by (simp add: JObj)
qed (simp_all add: plain_message_def)

lemma plain_marks: "list_all plain_message ms \<Longrightarrow> marks (clone_elements ms) = 0"
  by (induction ms) (auto dest: plain_clone_unmarked)

lemma part_blocks_plain: "part_blocks parts = Inr bs \<Longrightarrow> list_all plain_block bs"
  by (induction parts arbitrary: bs) (auto split: option.splits sum.splits if_splits)

lemma text_blocks_plain: "text_blocks c = Inr bs \<Longrightarrow> list_all plain_block bs"
  by (auto simp: text_blocks_def split: js.splits dest: part_blocks_plain)

lemma item_messages_plain: "item_messages stringify item = Inr ms \<Longrightarrow> list_all plain_message ms"
  by (auto simp: item_messages_def Let_def plain_message_def plain_content_def input_message_def
      split: if_splits sum.splits option.splits js.splits dest: text_blocks_plain)

lemma items_messages_plain: "items_messages stringify items = Inr ms \<Longrightarrow> list_all plain_message ms"
  by (induction items arbitrary: ms) (auto split: sum.splits dest: item_messages_plain)

lemma input_messages_plain:
  "responses_input_to_messages stringify input instructions = Inr ms \<Longrightarrow> list_all plain_message ms"
  by (auto simp: responses_input_to_messages_def plain_message_def plain_content_def input_message_def Let_def
      split: js.splits if_splits sum.splits dest: items_messages_plain)

lemma without_first_all: "list_all P ms \<Longrightarrow> list_all P (without_first p ms)"
  by (induction ms) auto

lemma butlast_all: "list_all P ms \<Longrightarrow> list_all P (butlast ms)"
  by (induction ms) auto

lemma assembled_plain:
  assumes "list_all plain_message ms"
  shows "list_all plain_message (pl_template (assemble_orchestration_payload ms model params stream tools fmt))
    \<and> list_all plain_message (pl_history (assemble_orchestration_payload ms model params stream tools fmt))"
proof -
  have default: "plain_message DEFAULT_SYSTEM"
    by (simp add: DEFAULT_SYSTEM_def input_message_def plain_message_def plain_content_def)
  have rest: "list_all plain_message (without_first (is_role ''system'') ms)"
    using assms by (rule without_first_all)
  have found: "plain_message m" if "find (is_role ''system'') ms = Some m" for m
    using that assms by (auto simp: find_Some_iff list_all_length)
  have last: "plain_message (last xs)" if "xs \<noteq> []" "list_all plain_message xs" for xs
    using that by (simp add: list_all_iff)
  show ?thesis
    using assms rest default
    by (auto simp: assemble_orchestration_payload_def Let_def found last butlast_all split: option.split)
qed

lemma plain_unmarked: "plain_message m \<Longrightarrow> message_marks m = 0"
  using plain_block_clone
  by (cases m) (auto simp: plain_message_def plain_content_def message_marks_def js_list_def list_all_iff filter_empty_conv
      split: js.splits)

lemma plain_marks_zero: "list_all plain_message ms \<Longrightarrow> marks ms = 0"
  by (induction ms) (auto dest: plain_unmarked)

lemma marks_snoc: "marks ms = 0 \<Longrightarrow> ms \<noteq> [] \<Longrightarrow> message_marks (last ms) = 0"
  by (induction ms) (auto split: if_splits)

lemma marks_butlast: "marks ms = 0 \<Longrightarrow> marks (butlast ms) = 0"
  by (induction ms) auto

text \<open>A request of the bridge carries at most two cache breakpoints, whatever the client sent, although four are
  allowed: one in the template and one in the history, and none on the newest message of the history, whose entry would
  never be read again.\<close>

theorem bridge_sets_two_breakpoints:
  fixes enabled :: bool
  assumes "build_orchestration_payload stringify body model stream = Inr pl"
  defines "pl' \<equiv> apply_cache_breakpoints pl enabled"
  shows "marks (pl_template pl') \<le> 1 \<and> marks (pl_history pl') \<le> 1
    \<and> (pl_history pl' = [] \<or> message_marks (last (pl_history pl')) = 0)"
proof -
  obtain ms params tools where ms: "list_all plain_message ms"
    "pl = assemble_orchestration_payload ms model params stream tools None"
    using assms(1) by (auto simp: build_orchestration_payload_def split: sum.splits dest: input_messages_plain)
  have plain: "list_all plain_message (pl_template pl)" "list_all plain_message (pl_history pl)"
    using assembled_plain [OF ms(1), of model params stream tools None] unfolding ms(2) by simp_all
  show ?thesis
  proof (cases enabled)
    case False
    then show ?thesis
      using plain_marks_zero [OF plain(1)] plain_marks_zero [OF plain(2)] marks_snoc [of "pl_history pl"]
      by (cases "pl_history pl = []") (simp_all add: pl'_def apply_cache_breakpoints_def)
  next
    case True
    let ?t = "clone_elements (pl_template pl)" and ?h = "clone_elements (pl_history pl)"
    have zero: "marks ?t = 0" "marks ?h = 0" using plain_marks plain by simp_all
    obtain used t' where t': "mark_system ?t = (used, t')" by force
    have t1: "marks t' \<le> 1" "used \<le> 1" using mark_system_marks [OF t'] zero(1) by simp_all
    let ?p = "rev (mark_prefix (rev (butlast ?h)))"
    have p1: "marks ?p \<le> 1"
      using mark_prefix_marks [of "rev (butlast ?h)"] marks_butlast [OF zero(2)] by simp
    show ?thesis
    proof (cases "?h = []")
      case empty: True
      then show ?thesis
        using True t' t1 by (simp add: pl'_def apply_cache_breakpoints_def Let_def)
    next
      case False
      have l0: "message_marks (last ?h) = 0" using marks_snoc [OF zero(2) False] .
      have "pl_template pl' = t'" "pl_history pl' = ?p @ [last ?h]"
        using True False t' t1 by (simp_all add: pl'_def apply_cache_breakpoints_def MAX_BRIDGE_BREAKPOINTS_def Let_def)
      then show ?thesis using t1 p1 l0 by simp
    qed
  qed
qed

definition toy_body :: js where
  "toy_body =
     JObj [(''instructions'', JStr ''be brief''),
           (''input'', JArr [JObj [(''role'', JStr ''user''), (''content'', JStr ''one'')],
                           JObj [(''role'', JStr ''user''), (''content'', JStr ''two'')]])]"

lemma bridge_sets_two_breakpoints_witness:
  "\<exists>pl. build_orchestration_payload (\<lambda>_. []) toy_body ''m'' False = Inr pl
     \<and> marks (pl_template (apply_cache_breakpoints pl True)) \<le> 1"
proof -
  obtain pl where pl: "build_orchestration_payload (\<lambda>_. []) toy_body ''m'' False = Inr pl"
    by (simp add: build_orchestration_payload_def toy_body_def responses_input_to_messages_def item_messages_def
        DROPPED_ITEM_TYPES_def text_blocks_def Let_def)
  then show ?thesis using bridge_sets_two_breakpoints [OF pl, of True] by blast
qed

end
