(* ===== verification/Prompt_Cache.thy ===== *)
theory Prompt_Cache
  imports Prelude
begin

text \<open>
  The client's own cache breakpoints on the Anthropic wire (\<open>services/anthropicCacheBreakpoints.ts\<close>): finding,
  removing, moving and capping them. Messages and blocks are \<open>js\<close> values; a block is an object.
\<close>

definition MAX_BREAKPOINTS :: nat where
  "MAX_BREAKPOINTS = 4"

definition marked :: "js \<Rightarrow> bool" where
  "marked b \<longleftrightarrow> is_objectish (jget b ''cache_control'')"

definition has_cache_control :: "js \<Rightarrow> bool" where
  "has_cache_control blocks = (case blocks of JArr bs \<Rightarrow> list_ex marked bs | _ \<Rightarrow> False)"

definition to_cache_control :: js where
  "to_cache_control = JObj [(''type'', JStr ''ephemeral'')]"

definition message_has_cache_control :: "js \<Rightarrow> bool" where
  "message_has_cache_control m =
     (case jget m ''content'' of
        JArr bs \<Rightarrow> has_cache_control (JArr bs) \<or> list_ex (\<lambda>b. has_cache_control (jget b ''content'')) bs
      | _ \<Rightarrow> False)"

definition request_has_cache_control :: "js \<Rightarrow> bool" where
  "request_has_cache_control req \<longleftrightarrow>
     has_cache_control (jget req ''system'')
     \<or> (case jget req ''messages'' of JArr ms \<Rightarrow> list_ex message_has_cache_control ms | _ \<Rightarrow> False)"

text \<open>The inner \<open>strip\<close>: on a list of blocks, on the blocks, on the fields of a block.\<close>

fun strip_blocks :: "js \<Rightarrow> js" and strip_list :: "js list \<Rightarrow> js list" and strip_fields :: "(string \<times> js) list \<Rightarrow> (string \<times> js) list"
where
  "strip_blocks (JArr bs) = JArr (strip_list bs)"
| "strip_blocks v = v"
| "strip_list [] = []"
| "strip_list (b # bs) = (case b of JObj kvs \<Rightarrow> JObj (strip_fields kvs) | v \<Rightarrow> v) # strip_list bs"
| "strip_fields [] = []"
| "strip_fields (kv # kvs) =
     (if fst kv = ''cache_control'' then strip_fields kvs
      else (fst kv, if fst kv = ''content'' then strip_blocks (snd kv) else snd kv) # strip_fields kvs)"

definition strip_message :: "js \<Rightarrow> js" where
  "strip_message m = (if is_arr (jget m ''content'') then jset ''content'' (strip_blocks (jget m ''content'')) m else m)"

definition without_cache_control :: "js \<Rightarrow> js" where
  "without_cache_control req =
     jset ''messages''
       (case jget req ''messages'' of
          JArr ms \<Rightarrow> JArr (map strip_message ms)
        | v \<Rightarrow> v)
       (jset ''system'' (strip_blocks (jget req ''system'')) req)"

text \<open>An empty text block is dropped; its breakpoint moves to the nearest earlier text block.\<close>

definition is_text :: "js \<Rightarrow> bool" where
  "is_text b \<longleftrightarrow> jget b ''type'' = JStr ''text''"

definition empty_text :: "js \<Rightarrow> bool" where
  "empty_text b \<longleftrightarrow> is_text b \<and> \<not> truthy (jget b ''text'')"

fun mark_last_text :: "js \<Rightarrow> js list \<Rightarrow> js list" where
  "mark_last_text c [] = []"
| "mark_last_text c (b # bs) = (if is_text b then jset ''cache_control'' c b # bs else b # mark_last_text c bs)"

definition drop_empty_step :: "js list \<Rightarrow> js \<Rightarrow> js list" where
  "drop_empty_step out b =
     (if \<not> empty_text b then out @ [b]
      else if \<not> marked b then out
      else rev (mark_last_text (jget b ''cache_control'') (rev out)))"

definition drop_empty_text_blocks :: "js list \<Rightarrow> js list" where
  "drop_empty_text_blocks bs = foldl drop_empty_step [] bs"

definition marked_text_block :: "js \<Rightarrow> js" where
  "marked_text_block b =
     JObj ([(''type'', JStr ''text''), (''text'', JStr (case jget b ''text'' of JStr s \<Rightarrow> s | _ \<Rightarrow> []))]
       @ (if marked b then [(''cache_control'', to_cache_control)] else []))"

definition marked_text_blocks :: "js list \<Rightarrow> js list" where
  "marked_text_blocks bs = drop_empty_text_blocks (map marked_text_block (filter is_text bs))"

text \<open>The flattened text of a system prompt is the argument \<open>flatten\<close>.\<close>

definition system_content :: "(js \<Rightarrow> string) \<Rightarrow> js \<Rightarrow> js" where
  "system_content flatten system =
     (case system of
        JArr bs \<Rightarrow> if has_cache_control system then JArr (marked_text_blocks bs) else JStr (flatten system)
      | _ \<Rightarrow> JStr (flatten system))"

text \<open>The last element with the property is changed; \<open>None\<close> when there is none.\<close>

fun change_first :: "('a \<Rightarrow> bool) \<Rightarrow> ('a \<Rightarrow> 'a) \<Rightarrow> 'a list \<Rightarrow> 'a list option" where
  "change_first p f [] = None"
| "change_first p f (x # xs) = (if p x then Some (f x # xs) else map_option (\<lambda>ys. x # ys) (change_first p f xs))"

definition change_last :: "('a \<Rightarrow> bool) \<Rightarrow> ('a \<Rightarrow> 'a) \<Rightarrow> 'a list \<Rightarrow> 'a list option" where
  "change_last p f xs = map_option rev (change_first p f (rev xs))"

text \<open>A message that can hold the breakpoint, with it; \<open>None\<close> for one that is passed over.\<close>

definition hold_breakpoint :: "js \<Rightarrow> js \<Rightarrow> js option" where
  "hold_breakpoint c m =
     (if \<not> truthy m \<or> jget m ''role'' = JStr ''tool'' then None
      else (case jget m ''content'' of
              JStr t \<Rightarrow>
                if t = [] then None
                else Some (jset ''content'' (JArr [JObj [(''type'', JStr ''text''), (''text'', JStr t), (''cache_control'', c)]]) m)
            | JArr bs \<Rightarrow>
                map_option (\<lambda>bs'. jset ''content'' (JArr bs') m)
                  (change_last (\<lambda>b. is_text b \<and> truthy (jget b ''text'')) (jset ''cache_control'' c) bs)
            | _ \<Rightarrow> None))"

fun relocate_back :: "js \<Rightarrow> js list \<Rightarrow> js list" where
  "relocate_back c [] = []"
| "relocate_back c (m # ms) = (case hold_breakpoint c m of Some m' \<Rightarrow> m' # ms | None \<Rightarrow> m # relocate_back c ms)"

definition relocate_breakpoint :: "js list \<Rightarrow> nat \<Rightarrow> js \<Rightarrow> js list" where
  "relocate_breakpoint template from_index c =
     rev (relocate_back c (rev (take from_index template))) @ drop from_index template"

text \<open>The places of the breakpoints of a template, in message order.\<close>

definition content_blocks :: "js \<Rightarrow> js list" where
  "content_blocks m = (case jget m ''content'' of JArr bs \<Rightarrow> bs | _ \<Rightarrow> [])"

definition marked_places :: "js list \<Rightarrow> (nat \<times> nat) list" where
  "marked_places template =
     concat (map (\<lambda>(m, msg). map (\<lambda>(b, _). (m, b)) (filter (\<lambda>(_, block). marked block) (enumerate 0 (content_blocks msg))))
       (enumerate 0 template))"

definition cap_message :: "(nat \<times> nat) list \<Rightarrow> nat \<times> js \<Rightarrow> js" where
  "cap_message dropped mm =
     (case mm of (m, msg) \<Rightarrow>
        if \<not> is_arr (jget msg ''content'')
           \<or> \<not> list_ex (\<lambda>(b, _). (m, b) \<in> set dropped) (enumerate 0 (content_blocks msg)) then msg
        else jset ''content'' (JArr (map (\<lambda>(b, block). if (m, b) \<in> set dropped then jdel ''cache_control'' block else block)
               (enumerate 0 (content_blocks msg)))) msg)"

definition cap_breakpoints :: "nat \<Rightarrow> js list \<Rightarrow> js list" where
  "cap_breakpoints limit template =
     (let places = marked_places template in
      if length places \<le> limit then template
      else map (cap_message (take (length places - limit) places)) (enumerate 0 template))"

section \<open>No breakpoint is left\<close>

lemma strip_fields_get:
  "map_of (strip_fields kvs) k =
     (if k = ''cache_control'' then None
      else map_option (\<lambda>v. if k = ''content'' then strip_blocks v else v) (map_of kvs k))"
  by (induction kvs) auto

lemma strip_list_unmarked: "\<not> list_ex marked (strip_list bs)"
  by (induction bs) (auto simp: marked_def strip_fields_get split: js.split)

lemma strip_blocks_unmarked: "\<not> has_cache_control (strip_blocks v)"
  using strip_list_unmarked by (cases v) (simp_all add: has_cache_control_def)

lemma strip_list_nested: "\<not> list_ex (\<lambda>b. has_cache_control (jget b ''content'')) (strip_list bs)"
proof (induction bs)
  case (Cons b bs)
  have "\<not> has_cache_control (jget (case b of JObj kvs \<Rightarrow> JObj (strip_fields kvs) | v \<Rightarrow> v) ''content'')"
    using strip_blocks_unmarked
    by (cases b) (auto simp: strip_fields_get has_cache_control_def split: option.split)
  with Cons show ?case by simp
qed simp

text \<open>After the removal the request has no breakpoint, in its system prompt, its blocks or their nested blocks.\<close>

lemma without_cache_control_complete: "\<not> request_has_cache_control (without_cache_control req)"
proof -
  have "\<not> message_has_cache_control (strip_message m)" for m
    using strip_list_unmarked strip_list_nested
    by (cases "jget m ''content''") (simp_all add: strip_message_def message_has_cache_control_def has_cache_control_def)
  then show ?thesis
    using strip_blocks_unmarked
    by (auto simp: request_has_cache_control_def without_cache_control_def list_ex_iff split: js.split)
qed

section \<open>Empty text blocks\<close>

lemma mark_last_text_empty: "list_ex empty_text (mark_last_text c bs) = list_ex empty_text bs"
  by (induction bs) (auto simp: empty_text_def is_text_def)

lemma drop_empty_complete: "\<not> list_ex empty_text (drop_empty_text_blocks bs)"
proof -
  have "\<not> list_ex empty_text (foldl drop_empty_step out bs)" if "\<not> list_ex empty_text out" for out
    using that
    by (induction bs arbitrary: out) (auto simp: drop_empty_step_def mark_last_text_empty)
  then show ?thesis by (simp add: drop_empty_text_blocks_def)
qed

lemma mark_last_text_texts: "map (\<lambda>b. jget b ''text'') (mark_last_text c bs) = map (\<lambda>b. jget b ''text'') bs"
  by (induction bs) simp_all

lemma drop_empty_texts:
  "map (\<lambda>b. jget b ''text'') (drop_empty_text_blocks bs) = map (\<lambda>b. jget b ''text'') (filter (\<lambda>b. \<not> empty_text b) bs)"
proof -
  have "map (\<lambda>b. jget b ''text'') (foldl drop_empty_step out bs)
      = map (\<lambda>b. jget b ''text'') out @ map (\<lambda>b. jget b ''text'') (filter (\<lambda>b. \<not> empty_text b) bs)" for out
    by (induction bs arbitrary: out) (auto simp: drop_empty_step_def mark_last_text_texts rev_map [symmetric])
  then show ?thesis by (simp add: drop_empty_text_blocks_def)
qed

section \<open>At most four breakpoints, the last ones\<close>

lemma filter_not_taken: "distinct xs \<Longrightarrow> filter (\<lambda>x. x \<notin> set (take n xs)) xs = drop n xs"
proof -
  assume d: "distinct xs"
  have "set (take n xs) \<inter> set (drop n xs) = {}" using d by (metis append_take_drop_id distinct_append)
  then have "filter (\<lambda>x. x \<notin> set (take n xs)) (take n xs @ drop n xs) = drop n xs"
    by (simp only: filter_append) (auto simp: filter_empty_conv filter_id_conv)
  then show ?thesis by simp
qed

text \<open>The places among all places of blocks.\<close>

definition all_places :: "js list \<Rightarrow> (nat \<times> nat \<times> js) list" where
  "all_places template =
     concat (map (\<lambda>(m, msg). map (\<lambda>(b, block). (m, b, block)) (enumerate 0 (content_blocks msg))) (enumerate 0 template))"

lemma marked_places_all:
  "marked_places template = map (\<lambda>(m, b, _). (m, b)) (filter (\<lambda>(_, _, block). marked block) (all_places template))"
proof -
  have "map (\<lambda>(b, _). (m, b)) (filter (\<lambda>(_, block). marked block) xs)
      = map (\<lambda>(m, b, _). (m, b)) (filter (\<lambda>(_, _, block). marked block) (map (\<lambda>(b, block). (m, b, block)) xs))"
    for m :: nat and xs :: "(nat \<times> js) list"
    by (induction xs) auto
  then show ?thesis
    by (simp add: marked_places_def all_places_def filter_concat map_concat comp_def case_prod_unfold)
qed

lemma enumerate_map_enumerate:
  "enumerate n (map f (enumerate n xs)) = map (\<lambda>(i, x). (i, f (i, x))) (enumerate n xs)"
  by (induction xs arbitrary: n) simp_all

lemma map_snd_enumerate_id:
  "\<not> list_ex (\<lambda>(b, _). P b) (enumerate n xs) \<Longrightarrow> map (\<lambda>(b, x). if P b then g x else x) (enumerate n xs) = xs"
  by (induction xs arbitrary: n) auto

lemma cap_message_blocks:
  "content_blocks (cap_message d (m, msg)) =
     map (\<lambda>(b, block). if (m, b) \<in> set d then jdel ''cache_control'' block else block) (enumerate 0 (content_blocks msg))"
proof (cases "is_arr (jget msg ''content'') \<and> list_ex (\<lambda>(b, _). (m, b) \<in> set d) (enumerate 0 (content_blocks msg))")
  case True
  then show ?thesis by (simp add: cap_message_def content_blocks_def [of "jset k v msg" for k v])
next
  case False
  have "content_blocks msg = []" if "\<not> is_arr (jget msg ''content'')"
    using that by (cases "jget msg ''content''") (simp_all add: content_blocks_def)
  then show ?thesis
    using False map_snd_enumerate_id [of "\<lambda>b. (m, b) \<in> set d" 0 "content_blocks msg" "jdel ''cache_control''"]
    by (cases "is_arr (jget msg ''content'')") (auto simp: cap_message_def)
qed

lemma all_places_cap:
  "all_places (map (cap_message d) (enumerate 0 template)) =
     map (\<lambda>(m, b, block). (m, b, if (m, b) \<in> set d then jdel ''cache_control'' block else block)) (all_places template)"
proof -
  have "map (\<lambda>(b, block). (m, b, block)) (enumerate 0 (content_blocks (cap_message d (m, msg))))
      = map (\<lambda>(m, b, block). (m, b, if (m, b) \<in> set d then jdel ''cache_control'' block else block))
          (map (\<lambda>(b, block). (m, b, block)) (enumerate 0 (content_blocks msg)))" for m msg
    unfolding cap_message_blocks enumerate_map_enumerate by (simp add: comp_def case_prod_unfold)
  then show ?thesis
    unfolding all_places_def enumerate_map_enumerate map_concat map_map
    by (intro arg_cong [where f = concat] map_cong refl) (auto simp: comp_def case_prod_unfold)
qed

lemma marked_jdel [simp]: "\<not> marked (jdel ''cache_control'' b)"
  by (simp add: marked_def)

lemma marked_places_cap:
  "marked_places (map (cap_message d) (enumerate 0 template)) = filter (\<lambda>x. x \<notin> set d) (marked_places template)"
proof -
  have "map (\<lambda>(m, b, _). (m, b)) (filter (\<lambda>(_, _, block). marked block)
        (map (\<lambda>(m, b, block). (m, b, if (m, b) \<in> set d then jdel ''cache_control'' block else block)) xs))
      = filter (\<lambda>x. x \<notin> set d) (map (\<lambda>(m, b, _). (m, b)) (filter (\<lambda>(_, _, block). marked block) xs))"
    for xs :: "(nat \<times> nat \<times> js) list"
    by (induction xs) auto
  then show ?thesis by (simp only: marked_places_all all_places_cap)
qed

lemma marked_places_distinct: "distinct (marked_places template)"
proof -
  have keys: "map fst (map (\<lambda>(b, _). (m, b)) (filter p (enumerate k xs))) = replicate (length (filter p (enumerate k xs))) m"
    for m k p and xs :: "js list"
    by (induction xs arbitrary: k) auto
  have inner: "distinct (map (\<lambda>(b, _). (m, b)) (filter p (enumerate k xs)))" for m :: nat and k p and xs :: "js list"
  proof -
    have "distinct (map fst (filter p (enumerate k xs)))" by (rule distinct_map_filter) simp
    then have "distinct (map (Pair m) (map fst (filter p (enumerate k xs))))"
      unfolding distinct_map [of "Pair m"] by (auto intro: inj_onI)
    then show ?thesis by (simp add: comp_def case_prod_unfold)
  qed
  have "distinct (concat (map (\<lambda>(m, msg). map (\<lambda>(b, _). (m, b)) (filter (\<lambda>(_, block). marked block)
      (enumerate 0 (content_blocks msg)))) (enumerate n ms)))
    \<and> (\<forall>x \<in> set (concat (map (\<lambda>(m, msg). map (\<lambda>(b, _). (m, b)) (filter (\<lambda>(_, block). marked block)
      (enumerate 0 (content_blocks msg)))) (enumerate n ms))). n \<le> fst x)" for n ms
  proof (induction ms arbitrary: n)
    case (Cons msg ms)
    have "\<forall>x \<in> set (concat (map (\<lambda>(m, msg). map (\<lambda>(b, _). (m, b)) (filter (\<lambda>(_, block). marked block)
      (enumerate 0 (content_blocks msg)))) (enumerate (Suc n) ms))). Suc n \<le> fst x" using Cons.IH by blast
    then show ?case
      using Cons.IH [of "Suc n"] inner [of n "\<lambda>(_, block). marked block" 0 "content_blocks msg"]
      by (fastforce simp: case_prod_unfold)
  qed simp
  then show ?thesis by (simp add: marked_places_def)
qed

text \<open>Capping keeps exactly the last breakpoints, as many as are allowed, and changes nothing else: the places that
  are still marked are the last ones of the request, and every block keeps its other fields.
\<close>

theorem cap_keeps_last:
  "marked_places (cap_breakpoints limit template) =
     drop (length (marked_places template) - limit) (marked_places template)
   \<and> list_all2 (\<lambda>(m, b, block) (m', b', block'). m = m' \<and> b = b' \<and> (\<forall>k. k = ''cache_control'' \<or> jget block k = jget block' k))
       (all_places (cap_breakpoints limit template)) (all_places template)"
proof (cases "length (marked_places template) \<le> limit")
  case True
  have "list_all2 (\<lambda>(m, b, block) (m', b', block'). m = m' \<and> b = b' \<and> (\<forall>k. k = ''cache_control'' \<or> jget block k = jget block' k)) xs xs"
    for xs :: "(nat \<times> nat \<times> js) list" by (induction xs) auto
  with True show ?thesis by (simp add: cap_breakpoints_def)
next
  case False
  let ?d = "take (length (marked_places template) - limit) (marked_places template)"
  have cap: "cap_breakpoints limit template = map (cap_message ?d) (enumerate 0 template)"
    using False by (simp add: cap_breakpoints_def Let_def)
  have "list_all2 (\<lambda>(m, b, block) (m', b', block'). m = m' \<and> b = b' \<and> (\<forall>k. k = ''cache_control'' \<or> jget block k = jget block' k))
      (map (\<lambda>(m, b, block). (m, b, if (m, b) \<in> set ?d then jdel ''cache_control'' block else block)) xs) xs"
    for xs :: "(nat \<times> nat \<times> js) list" by (induction xs) (auto split: if_splits)
  then show ?thesis
    unfolding cap marked_places_cap filter_not_taken [OF marked_places_distinct] all_places_cap by blast
qed

end
