(* ===== verification/Aws_Signature.thy ===== *)
theory Aws_Signature
  imports Js_Number Utc_Calendar "HOL-Library.List_Lexorder" "HOL-Library.Product_Lexorder"
begin

text \<open>
  The verifier of AWS signatures version 4 (\<open>utils/sigv4Verifier.ts\<close>): the \<open>Authorization\<close> header, the scopes and
  the signing key, the date of the request, the canonical request and the variants the gateway tries.

  SHA-256 and HMAC are arguments, from bytes to bytes (a text is hashed as it stands). The key provider is an
  argument that keeps a state and may throw (\<open>Inl\<close>); so may the parser of URLs, which gives the path and the
  search part. Paths and search parts are ASCII, as that parser leaves them; a decoded query value is kept as
  its UTF-8 bytes. A header is a text or a list of texts; names that \<open>Object.prototype\<close> defines are not modelled.
\<close>

section \<open>Characters\<close>

definition upper_char :: "char \<Rightarrow> char" where
  "upper_char c = (if is_lower c then char_of ((of_char c :: nat) - 32) else c)"

definition upper :: "string \<Rightarrow> string" where
  "upper s = map upper_char s"

text \<open>\<open>digest('hex')\<close>.\<close>

definition low_digit :: "nat \<Rightarrow> char" where
  "low_digit n = char_of (if n < 10 then 48 + n else 87 + n)"

definition hex :: "string \<Rightarrow> string" where
  "hex bs = concat (map (\<lambda>c. [low_digit (of_char c div 16), low_digit (of_char c mod 16)]) bs)"

text \<open>\<open>encodeURIComponent\<close> and \<open>uriEncode\<close>.\<close>

definition up_digit :: "nat \<Rightarrow> char" where
  "up_digit n = char_of (if n < 10 then 48 + n else 55 + n)"

definition percent :: "char \<Rightarrow> string" where
  "percent c = [CHR ''%'', up_digit (of_char c div 16), up_digit (of_char c mod 16)]"

definition SUB_DELIMS :: "char list" where
  "SUB_DELIMS = [CHR ''!'', CHR 0x27, CHR ''('', CHR '')'', CHR ''*'']"

definition encode_uri_component :: "string \<Rightarrow> string" where
  "encode_uri_component s =
     concat (map (\<lambda>c. if is_word c \<or> c \<in> set ''-.~'' \<or> c \<in> set SUB_DELIMS then [c] else percent c) s)"

definition uri_encode :: "string \<Rightarrow> string" where
  "uri_encode s = concat (map (\<lambda>c. if c \<in> set SUB_DELIMS then percent c else [c]) (encode_uri_component s))"

text \<open>\<open>decodeURIComponent\<close>: the bytes, when every escape is well formed and the bytes are UTF-8. The automaton
  of UTF-8 keeps the number of continuation bytes to come and the range of the next one.\<close>

fun percent_decode :: "string \<Rightarrow> string option" where
  "percent_decode [] = Some []"
| "percent_decode (c # s) =
     (if c \<noteq> CHR ''%'' then map_option ((#) c) (percent_decode s)
      else case s of
        a # b # s' \<Rightarrow>
          (case (digit_in 16 a, digit_in 16 b) of
             (Some m, Some n) \<Rightarrow> map_option ((#) (char_of (16 * m + n))) (percent_decode s')
           | _ \<Rightarrow> None)
      | _ \<Rightarrow> None)"

fun utf8_ok :: "nat \<Rightarrow> nat \<Rightarrow> nat \<Rightarrow> string \<Rightarrow> bool" where
  "utf8_ok k lo hi [] = (k = 0)"
| "utf8_ok k lo hi (c # s) =
     (let n = of_char c :: nat in
      if 0 < k then lo \<le> n \<and> n \<le> hi \<and> utf8_ok (k - 1) 128 191 s
      else if n < 128 then utf8_ok 0 128 191 s
      else if 194 \<le> n \<and> n \<le> 223 then utf8_ok 1 128 191 s
      else if n = 224 then utf8_ok 2 160 191 s
      else if n = 237 then utf8_ok 2 128 159 s
      else if 225 \<le> n \<and> n \<le> 239 then utf8_ok 2 128 191 s
      else if n = 240 then utf8_ok 3 144 191 s
      else if 241 \<le> n \<and> n \<le> 243 then utf8_ok 3 128 191 s
      else if n = 244 then utf8_ok 3 128 143 s
      else False)"

definition safe_decode :: "string \<Rightarrow> string" where
  "safe_decode s =
     (case percent_decode s of Some bs \<Rightarrow> if utf8_ok 0 128 191 bs then bs else s | None \<Rightarrow> s)"

section \<open>The header\<close>

definition ALGORITHM :: string where
  "ALGORITHM = ''AWS4-HMAC-SHA256''"

record signing_scope =
  sc_date :: string
  sc_region :: string
  sc_service :: string

record sigv4_header =
  access_key_id :: string
  hd_scope :: signing_scope
  signed_headers :: "string list"
  signature :: string

text \<open>\<open>isAwsSigV4Request\<close>: a header that is no text is \<open>None\<close>.\<close>

definition is_aws_sigv4_request :: "string option \<Rightarrow> bool" where
  "is_aws_sigv4_request h = (case h of Some s \<Rightarrow> prefix (ALGORITHM @ '' '') s | None \<Rightarrow> False)"

text \<open>The matches of \<open>(\w+)=([^,]+)\<close>, one after the other.\<close>

function key_values :: "string \<Rightarrow> (string \<times> string) list" where
  "key_values s =
     (case dropWhile (\<lambda>c. \<not> is_word c) s of
        [] \<Rightarrow> []
      | c # cs \<Rightarrow>
          (let rest = dropWhile is_word (c # cs);
               v = takeWhile (\<lambda>c. c \<noteq> CHR '','') (drop 1 rest) in
           if prefix ''='' rest \<and> v \<noteq> []
           then (takeWhile is_word (c # cs), trim v) # key_values (drop (length v) (drop 1 rest))
           else key_values rest))"
  by pat_completeness auto

lemma length_dropWhile_word: "dropWhile (\<lambda>c. \<not> is_word c) s = c # cs \<Longrightarrow> length (dropWhile is_word (c # cs)) < length s"
proof -
  assume d: "dropWhile (\<lambda>c. \<not> is_word c) s = c # cs"
  then have w: "is_word c" using hd_dropWhile[of "\<lambda>c. \<not> is_word c" s] by simp
  have "length (dropWhile is_word (c # cs)) \<le> length cs" using w by (simp add: length_dropWhile_le)
  also have "\<dots> < length s" using length_dropWhile_le[of "\<lambda>c. \<not> is_word c" s] d by simp
  finally show ?thesis .
qed

termination key_values
  by (relation "measure length") (auto dest!: length_dropWhile_word simp: less_imp_diff_less)

declare key_values.simps [simp del]

text \<open>\<open>parts[k]\<close>: the last value of the key; the empty one counts as missing.\<close>

definition part :: "string \<Rightarrow> (string \<times> string) list \<Rightarrow> string option" where
  "part k ps = (case map_of (rev ps) k of Some v \<Rightarrow> if v = [] then None else Some v | None \<Rightarrow> None)"

definition parse_sigv4_auth_header :: "string option \<Rightarrow> sigv4_header option" where
  "parse_sigv4_auth_header h =
     (if \<not> is_aws_sigv4_request h then None
      else let ps = key_values (drop (length ALGORITHM + 1) (the h)) in
        case (part ''Credential'' ps, part ''SignedHeaders'' ps, part ''Signature'' ps) of
          (Some credential, Some names, Some sig) \<Rightarrow>
            (case split_char CHR ''/'' credential of
               [key, date, region, service, ending] \<Rightarrow>
                 if ending = ''aws4_request''
                 then Some \<lparr>access_key_id = key,
                            hd_scope = \<lparr>sc_date = date, sc_region = region, sc_service = service\<rparr>,
                            signed_headers = split_char CHR '';'' names, signature = sig\<rparr>
                 else None
             | _ \<Rightarrow> None)
        | _ \<Rightarrow> None)"

text \<open>\<open>signingScopesFor\<close> and \<open>deriveSigningKey\<close>.\<close>

definition signing_scopes_for :: "signing_scope \<Rightarrow> signing_scope list" where
  "signing_scopes_for s =
     s # (if sc_service s = ''bedrock'' then [s\<lparr>sc_service := ''bedrock-runtime''\<rparr>]
          else if sc_service s = ''bedrock-runtime'' then [s\<lparr>sc_service := ''bedrock''\<rparr>]
          else [])"

definition derive_signing_key :: "(string \<Rightarrow> string \<Rightarrow> string) \<Rightarrow> string \<Rightarrow> signing_scope \<Rightarrow> string" where
  "derive_signing_key hmac secret s =
     hmac (hmac (hmac (hmac (''AWS4'' @ secret) (sc_date s)) (sc_region s)) (sc_service s)) ''aws4_request''"

section \<open>The date\<close>

definition MAX_CLOCK_SKEW_MS :: int where
  "MAX_CLOCK_SKEW_MS = 15 * 60 * 1000"

text \<open>\<open>+m\<close> of a text of digits, and \<open>Date.UTC\<close> on such numbers: the years 0 to 99 count from 1900, a month or
  a day out of range runs over into its neighbours.\<close>

definition digits_of :: "string \<Rightarrow> int" where
  "digits_of s = (case digits_value 10 s 0 of Some n \<Rightarrow> int n | None \<Rightarrow> 0)"

definition utc_date :: "int \<Rightarrow> int \<Rightarrow> int \<Rightarrow> int" where
  "utc_date y m d =
     (let y' = (if 0 \<le> y \<and> y \<le> 99 then 1900 + y else y) in utc_day (y' + m div 12) (nat (m mod 12)) d)"

definition amz_date_to_ms :: "string \<Rightarrow> int option" where
  "amz_date_to_ms s =
     (if length s = 16 \<and> s ! 8 = CHR ''T'' \<and> s ! 15 = CHR ''Z'' \<and> list_all is_digit (take 8 s) \<and>
         list_all is_digit (take 6 (drop 9 s))
      then Some (utc_date (digits_of (take 4 s)) (digits_of (take 2 (drop 4 s)) - 1) (digits_of (take 2 (drop 6 s))) * DAY
                 + digits_of (take 2 (drop 9 s)) * 3600000 + digits_of (take 2 (drop 11 s)) * 60000
                 + digits_of (take 2 (drop 13 s)) * 1000)
      else None)"

datatype header = One string | Many "string list"

definition is_amz_date_fresh :: "header option \<Rightarrow> int \<Rightarrow> bool" where
  "is_amz_date_fresh d now =
     (case d of
        Some (One s) \<Rightarrow>
          (case amz_date_to_ms s of Some ms \<Rightarrow> \<bar>now - ms\<bar> \<le> MAX_CLOCK_SKEW_MS | None \<Rightarrow> False)
      | _ \<Rightarrow> False)"

section \<open>The canonical request\<close>

definition canonical_path :: "string \<Rightarrow> string" where
  "canonical_path p = join ''/'' (map uri_encode (split_char CHR ''/'' p))"

definition query_pair :: "string \<Rightarrow> string \<times> string" where
  "query_pair pair =
     (let name = takeWhile (\<lambda>c. c \<noteq> CHR ''='') pair;
          value = drop 1 (dropWhile (\<lambda>c. c \<noteq> CHR ''='') pair)
      in (uri_encode (safe_decode name), uri_encode (safe_decode value)))"

definition canonical_query :: "string \<Rightarrow> string" where
  "canonical_query search =
     join ''&'' (map (\<lambda>(n, v). n @ ''='' @ v)
       (sort (map query_pair (filter (\<lambda>p. p \<noteq> []) (split_char CHR ''&'' search)))))"

text \<open>\<open>.replace(/\s+/g, ' ')\<close> and \<open>headerValue\<close>.\<close>

fun collapse :: "bool \<Rightarrow> string \<Rightarrow> string" where
  "collapse after_space [] = []"
| "collapse after_space (c # s) =
     (if is_space c then (if after_space then [] else '' '') @ collapse True s else c # collapse False s)"

definition header_value :: "header option \<Rightarrow> string" where
  "header_value v =
     (case v of
        None \<Rightarrow> []
      | Some (One s) \<Rightarrow> collapse False (trim s)
      | Some (Many ss) \<Rightarrow> collapse False (trim (join '','' ss)))"

definition canonical_request ::
  "string \<Rightarrow> string \<Rightarrow> string \<Rightarrow> (string \<Rightarrow> header option) \<Rightarrow> string list \<Rightarrow> string \<Rightarrow> string" where
  "canonical_request method path query headers names_signed hash =
     (let names = sort (map lower names_signed) in
      join [CHR 0x0A]
        [upper method, canonical_path path, query,
         join [CHR 0x0A] (map (\<lambda>n. n @ '':'' @ header_value (headers n)) names),
         [], join '';'' names, hash])"

definition scope_line :: "signing_scope \<Rightarrow> string" where
  "scope_line s = sc_date s @ ''/'' @ sc_region s @ ''/'' @ sc_service s @ ''/aws4_request''"

definition string_to_sign :: "(string \<Rightarrow> string) \<Rightarrow> string \<Rightarrow> signing_scope \<Rightarrow> string \<Rightarrow> string" where
  "string_to_sign sha256 amz_date s request =
     join [CHR 0x0A] [ALGORITHM, amz_date, scope_line s, hex (sha256 request)]"

section \<open>The request and its variants\<close>

record sigv4_request =
  rq_method :: string
  original_url :: string
  rq_headers :: "string \<Rightarrow> header option"
  raw_body :: "string option"

text \<open>\<open>Number(value) > 0\<close>, the infinite numbers included.\<close>

definition above_zero :: "header option \<Rightarrow> bool" where
  "above_zero v =
     (case v of
        None \<Rightarrow> False
      | Some h \<Rightarrow>
          (let s = (case h of One s \<Rightarrow> s | Many ss \<Rightarrow> join '','' ss) in
           case to_number s of Some n \<Rightarrow> 0 < n | None \<Rightarrow> trim s \<in> {''Infinity'', ''+Infinity''}))"

definition payload_hash :: "(string \<Rightarrow> string) \<Rightarrow> sigv4_request \<Rightarrow> string option" where
  "payload_hash sha256 req =
     (let actual =
        (case raw_body req of
           Some body \<Rightarrow> Some (hex (sha256 body))
         | None \<Rightarrow>
             if above_zero (rq_headers req ''content-length'') \<or> rq_headers req ''transfer-encoding'' \<noteq> None
             then None else Some (hex (sha256 [])))
      in case actual of
           None \<Rightarrow> None
         | Some a \<Rightarrow>
             (case rq_headers req ''x-amz-content-sha256'' of
                None \<Rightarrow> Some a
              | Some (One declared) \<Rightarrow> if lower declared = a then Some declared else None
              | Some (Many ds) \<Rightarrow> None))"

definition is_prefix_char :: "char \<Rightarrow> bool" where
  "is_prefix_char c = (is_word c \<or> c = CHR ''.'' \<or> c = CHR ''-'')"

definition forwarded_prefix :: "string \<Rightarrow> bool" where
  "forwarded_prefix s =
     (case split_char CHR ''/'' s of
        [] # seg # segs \<Rightarrow> list_all (\<lambda>x. x \<noteq> [] \<and> list_all is_prefix_char x) (seg # segs)
      | _ \<Rightarrow> False)"

definition ALLOWED_FORWARDED_PREFIXES :: "string list" where
  "ALLOWED_FORWARDED_PREFIXES = [''/gateway'']"

definition is_label_char :: "char \<Rightarrow> bool" where
  "is_label_char c = (is_upper c \<or> is_lower c \<or> is_digit c \<or> c = CHR ''-'')"

definition port_part :: "string \<Rightarrow> bool" where
  "port_part s =
     (s = [] \<or> (hd s = CHR '':'' \<and> list_all is_digit (tl s) \<and> 1 \<le> length (tl s) \<and> length (tl s) \<le> 5))"

definition forwarded_host :: "string \<Rightarrow> bool" where
  "forwarded_host s =
     (if prefix ''['' s
      then (let inner = takeWhile (\<lambda>c. c \<noteq> CHR '']'') (tl s); rest = dropWhile (\<lambda>c. c \<noteq> CHR '']'') (tl s) in
            inner \<noteq> [] \<and> rest \<noteq> [] \<and> port_part (tl rest) \<and>
            list_all (\<lambda>c. digit_in 16 c \<noteq> None \<or> c = CHR '':'' \<or> c = CHR ''.'') inner)
      else (let name = takeWhile (\<lambda>c. c \<noteq> CHR '':'') s in
            list_all (\<lambda>l. l \<noteq> [] \<and> list_all is_label_char l) (split_char CHR ''.'' name) \<and>
            port_part (drop (length name) s)))"

definition path_variants :: "sigv4_request \<Rightarrow> string \<Rightarrow> string list" where
  "path_variants req pathname =
     [pathname] @
     (if prefix ''/aws-bedrock/'' pathname then [drop (length ''/aws-bedrock'') pathname] else []) @
     (case rq_headers req ''x-forwarded-prefix'' of
        Some (One p) \<Rightarrow>
          if forwarded_prefix p \<and> p \<in> set ALLOWED_FORWARDED_PREFIXES then [p @ pathname] else []
      | _ \<Rightarrow> [])"

definition host_variants :: "sigv4_request \<Rightarrow> string \<Rightarrow> string list" where
  "host_variants req region =
     (let received = header_value (rq_headers req ''host'') in
      uniq ([received] @
        (if CHR '':'' \<in> set received then [takeWhile (\<lambda>c. c \<noteq> CHR '':'') received] else []) @
        (case rq_headers req ''x-forwarded-host'' of
           Some (One h) \<Rightarrow> if forwarded_host h then [h] else []
         | _ \<Rightarrow> []) @
        [''bedrock-runtime.'' @ region @ ''.amazonaws.com'', ''bedrock.'' @ region @ ''.amazonaws.com'']))"

definition with_host :: "string \<Rightarrow> (string \<Rightarrow> header option) \<Rightarrow> string \<Rightarrow> header option" where
  "with_host host headers = headers(''host'' \<mapsto> One host, '':authority'' \<mapsto> One host)"

text \<open>The signature expected of one variant.\<close>

definition expected_signature ::
  "(string \<Rightarrow> string) \<Rightarrow> (string \<Rightarrow> string \<Rightarrow> string) \<Rightarrow> sigv4_request \<Rightarrow> string list \<Rightarrow> string \<Rightarrow> string \<Rightarrow> string \<Rightarrow>
   string \<Rightarrow> signing_scope \<Rightarrow> string \<Rightarrow> string \<Rightarrow> string" where
  "expected_signature sha256 hmac req names amz_date query hash key s host path =
     hex (hmac key (string_to_sign sha256 amz_date s
       (canonical_request (rq_method req) path query (with_host host (rq_headers req)) names hash)))"

section \<open>Verification\<close>

fun try_scopes ::
  "(string \<Rightarrow> signing_scope \<Rightarrow> 's \<Rightarrow> 's \<times> (string + string option)) \<Rightarrow> (string \<Rightarrow> signing_scope \<Rightarrow> bool) \<Rightarrow> string \<Rightarrow>
   signing_scope list \<Rightarrow> bool \<Rightarrow> 's \<Rightarrow> 's \<times> (string + bool)" where
  "try_scopes get_key match key_id [] matched st = (st, Inr matched)"
| "try_scopes get_key match key_id (s # ss) matched st =
     (case get_key key_id s st of
        (st', Inl e) \<Rightarrow> (st', Inl e)
      | (st', Inr None) \<Rightarrow> try_scopes get_key match key_id ss matched st'
      | (st', Inr (Some key)) \<Rightarrow> try_scopes get_key match key_id ss (match key s \<or> matched) st')"

definition host_signed :: "string list \<Rightarrow> bool" where
  "host_signed names = list_ex (\<lambda>n. lower n \<in> {''host'', '':authority''}) names"

definition verify_sigv4_request ::
  "(string \<Rightarrow> string) \<Rightarrow> (string \<Rightarrow> string \<Rightarrow> string) \<Rightarrow> (string \<Rightarrow> string + string \<times> string) \<Rightarrow>
   (string \<Rightarrow> signing_scope \<Rightarrow> 's \<Rightarrow> 's \<times> (string + string option)) \<Rightarrow> sigv4_request \<Rightarrow> sigv4_header \<Rightarrow> 's \<Rightarrow>
   's \<times> (string + bool)" where
  "verify_sigv4_request sha256 hmac parse_url get_key req parsed st =
     (case rq_headers req ''x-amz-date'' of
        Some (One amz_date) \<Rightarrow>
          if take 8 amz_date \<noteq> sc_date (hd_scope parsed) \<or> \<not> host_signed (signed_headers parsed) then (st, Inr False)
          else (case payload_hash sha256 req of
             None \<Rightarrow> (st, Inr False)
           | Some hash \<Rightarrow>
               (case parse_url (original_url req) of
                  Inl e \<Rightarrow> (st, Inl e)
                | Inr (pathname, search) \<Rightarrow>
                    try_scopes get_key
                      (\<lambda>key s. list_ex (\<lambda>host. list_ex (\<lambda>path.
                         expected_signature sha256 hmac req (signed_headers parsed) amz_date
                           (canonical_query (drop 1 search)) hash key s host path = signature parsed)
                         (path_variants req pathname)) (host_variants req (sc_region (hd_scope parsed))))
                      (access_key_id parsed) (signing_scopes_for (hd_scope parsed)) False st))
      | _ \<Rightarrow> (st, Inr False))"

section \<open>Encodings can be read back\<close>

lemma nibbles [simp]: "(of_char (c::char) :: nat) div 16 < 16" "(of_char c :: nat) mod 16 < 16"
  using nat_of_char_less_256 [of c] by (simp_all add: div_less_iff_less_mult del: nat_of_char_less_256)

lemma nibbles_inj:
  assumes "(of_char (c::char) :: nat) div 16 = of_char d div 16" "(of_char c :: nat) mod 16 = of_char d mod 16"
  shows "c = d"
proof -
  have "(of_char c :: nat) = of_char d" using assms by (metis div_mult_mod_eq)
  then show ?thesis by (simp only: of_char_eq_iff)
qed

lemma low_digit_value: "n < 16 \<Longrightarrow> (of_char (low_digit n) :: nat) = (if n < 10 then 48 + n else 87 + n)"
  by (simp add: low_digit_def)

lemma low_digit_inj: "low_digit m = low_digit n \<Longrightarrow> m < 16 \<Longrightarrow> n < 16 \<Longrightarrow> m = n"
  by (drule arg_cong [where f = "of_char :: char \<Rightarrow> nat"]) (auto simp: low_digit_value split: if_splits)

lemma low_digit_lower [simp]: "n < 16 \<Longrightarrow> lower_char (low_digit n) = low_digit n"
  by (simp add: lower_char_def low_digit_value Let_def)

lemma low_digit_newline: "n < 16 \<Longrightarrow> low_digit n \<noteq> CHR 0x0A"
  by (rule notI, drule arg_cong [where f = "of_char :: char \<Rightarrow> nat"]) (auto simp: low_digit_value split: if_splits)

lemma hex_simps [simp]:
  "hex [] = []"
  "hex (c # s) = low_digit (of_char c div 16) # low_digit (of_char c mod 16) # hex s"
  by (simp_all add: hex_def)

lemma hex_newline [simp]: "CHR 0x0A \<notin> set (hex s)"
proof (induction s)
  case (Cons c s)
  then show ?case using low_digit_newline [OF nibbles(1) [of c]] low_digit_newline [OF nibbles(2) [of c]] by auto
qed simp

lemma lower_hex [simp]: "lower (hex s) = hex s"
  by (induction s) (simp_all add: lower_def)

lemma hex_inj: "hex s = hex t \<Longrightarrow> s = t"
proof (induction s arbitrary: t)
  case Nil
  then show ?case by (cases t) simp_all
next
  case (Cons c s)
  then obtain d t' where t: "t = d # t'" by (cases t) simp_all
  have "c = d"
    using Cons.prems t low_digit_inj [OF _ nibbles(1) nibbles(1)] low_digit_inj [OF _ nibbles(2) nibbles(2)]
    by (intro nibbles_inj) auto
  with Cons t show ?case by simp
qed

text \<open>What \<open>uriEncode\<close> does to one character.\<close>

definition keeps :: "char \<Rightarrow> bool" where
  "keeps c = (is_word c \<or> c \<in> set ''-.~'')"

lemma sub_delims_kept: "c \<in> set SUB_DELIMS \<Longrightarrow> \<not> keeps c"
  by (auto simp: SUB_DELIMS_def keeps_def is_word_def is_upper_def is_lower_def is_digit_def less_eq_char_def)

lemma up_digits: "list_all (\<lambda>n. keeps (up_digit n) \<and> digit_in 16 (up_digit n) = Some n) [0 ..< 16]"
  by code_simp

lemma up_digit_keeps [simp]: "n < 16 \<Longrightarrow> keeps (up_digit n)"
  and up_digit_in [simp]: "n < 16 \<Longrightarrow> digit_in 16 (up_digit n) = Some n"
  using up_digits by (simp_all add: list_all_iff)

lemma uri_encode_simps [simp]:
  "uri_encode [] = []"
  "uri_encode (c # s) = (if keeps c then [c] else percent c) @ uri_encode s"
proof -
  have p: "concat (map (\<lambda>c. if c \<in> set SUB_DELIMS then percent c else [c]) (percent c)) = percent c"
  proof -
    have "CHR ''%'' \<notin> set SUB_DELIMS" by (simp add: SUB_DELIMS_def)
    moreover have "up_digit n \<notin> set SUB_DELIMS" if "n < 16" for n
      using up_digit_keeps [OF that] sub_delims_kept by blast
    ultimately show ?thesis by (simp add: percent_def)
  qed
  show "uri_encode (c # s) = (if keeps c then [c] else percent c) @ uri_encode s"
    using p sub_delims_kept [of c] by (auto simp: uri_encode_def encode_uri_component_def keeps_def)
qed (simp add: uri_encode_def encode_uri_component_def)

lemma keeps_not: "keeps c \<Longrightarrow> c \<notin> {CHR ''%'', CHR ''/'', CHR ''='', CHR ''&'', CHR 0x0A}"
  by (auto simp: keeps_def is_word_def is_upper_def is_lower_def is_digit_def less_eq_char_def)

text \<open>\<open>decodeURIComponent\<close> undoes the encoding, and the encoding has none of the separators.\<close>

lemma percent_decode_uri_encode: "percent_decode (uri_encode s) = Some s"
proof (induction s)
  case (Cons c s)
  have "percent_decode (c # uri_encode s) = map_option ((#) c) (percent_decode (uri_encode s))" if "keeps c"
    using keeps_not [OF that] by simp
  moreover have "percent_decode (percent c @ uri_encode s) = map_option ((#) c) (percent_decode (uri_encode s))"
    by (simp add: percent_def)
  ultimately show ?case using Cons by simp
qed simp

lemma uri_encode_inj: "uri_encode s = uri_encode t \<Longrightarrow> s = t"
  by (metis percent_decode_uri_encode option.inject)

lemma uri_encode_separators: "x \<in> {CHR ''/'', CHR ''='', CHR ''&'', CHR 0x0A} \<Longrightarrow> x \<notin> set (uri_encode s)"
proof (induction s)
  case (Cons c s)
  then show ?case
    using keeps_not [OF up_digit_keeps [OF nibbles(1) [of c]]] keeps_not [OF up_digit_keeps [OF nibbles(2) [of c]]]
      keeps_not [of c] by (auto simp: percent_def)
qed simp

section \<open>Joined parts can be told apart\<close>

lemma join_inj:
  assumes "join [c] xs = join [c] ys" "xs \<noteq> []" "ys \<noteq> []" "list_all (\<lambda>w. c \<notin> set w) xs" "list_all (\<lambda>w. c \<notin> set w) ys"
  shows "xs = ys"
  using assms by (metis split_char_join)

lemma append_sep_inj: "x @ c # r = y @ c # s \<Longrightarrow> c \<notin> set x \<Longrightarrow> c \<notin> set y \<Longrightarrow> x = y \<and> r = s"
  by (induction x arbitrary: y) (auto simp: Cons_eq_append_conv)

lemma canonical_path_inj:
  assumes "canonical_path p = canonical_path q"
  shows "p = q"
proof -
  have "map uri_encode (split_char CHR ''/'' p) = map uri_encode (split_char CHR ''/'' q)"
    using assms unfolding canonical_path_def
    by (rule join_inj) (auto simp: list_all_iff uri_encode_separators)
  then have "split_char CHR ''/'' p = split_char CHR ''/'' q"
    by (metis inj_onI list.inj_map_strong uri_encode_inj)
  then show ?thesis by (metis join_split_char)
qed

section \<open>The canonical request determines the request\<close>

lemma collapse_newline [simp]: "CHR 0x0A \<notin> set (collapse b s)"
  by (induction s arbitrary: b) (auto simp: is_space_def)

lemma header_value_newline [simp]: "CHR 0x0A \<notin> set (header_value v)"
  by (auto simp: header_value_def split: option.splits header.splits)

lemma canonical_path_newline [simp]: "CHR 0x0A \<notin> set (canonical_path p)"
  unfolding canonical_path_def
  using set_join [of "''/''" "map uri_encode (split_char CHR ''/'' p)"] uri_encode_separators [of "CHR 0x0A"]
  by fastforce

lemma canonical_query_newline [simp]: "CHR 0x0A \<notin> set (canonical_query search)"
  unfolding canonical_query_def
  using set_join [of "''&''"] uri_encode_separators [of "CHR 0x0A"]
  by (fastforce simp: query_pair_def Let_def)

lemma upper_newline: "CHR 0x0A \<notin> set m \<Longrightarrow> CHR 0x0A \<notin> set (upper m)"
proof -
  have kept: "upper_char c \<noteq> CHR 0x0A" if "c \<noteq> CHR 0x0A" for c
  proof
    assume u: "upper_char c = CHR 0x0A"
    with that have l: "is_lower c" by (auto simp: upper_char_def split: if_splits)
    then have "97 \<le> (of_char c :: nat)" by (simp add: is_lower_def less_eq_char_def)
    moreover have "(of_char (upper_char c) :: nat) = of_char c - 32"
      using l mod_less [of "of_char c - 32" "256 :: nat"] less_imp_diff_less [OF nat_of_char_less_256 [of c]]
      by (simp only: upper_char_def if_True of_char_of)
    moreover have "(of_char (upper_char c) :: nat) = 10" by (simp only: u) simp
    ultimately show False by simp
  qed
  assume m: "CHR 0x0A \<notin> set m"
  show "CHR 0x0A \<notin> set (upper m)"
  proof
    assume "CHR 0x0A \<in> set (upper m)"
    then obtain c where "c \<in> set m" "upper_char c = CHR 0x0A" unfolding upper_def set_map by (elim imageE) metis
    with kept [of c] m show False by metis
  qed
qed

lemma header_lines_inj:
  assumes "join [CHR 0x0A] (map (\<lambda>n. n @ '':'' @ header_value (h n)) names) @ CHR 0x0A # r =
           join [CHR 0x0A] (map (\<lambda>n. n @ '':'' @ header_value (h' n)) names) @ CHR 0x0A # r'"
  shows "r = r' \<and> (\<forall>n \<in> set names. header_value (h n) = header_value (h' n))"
  using assms
proof (induction names)
  case (Cons n names)
  note IH = Cons.IH and eq = Cons.prems
  show ?case
  proof (cases names)
    case Nil
    with eq show ?thesis using append_sep_inj [of "header_value (h n)" "CHR 0x0A" r "header_value (h' n)" r'] by auto
  next
    case (Cons n' ns)
    let ?rest = "\<lambda>h r. join [CHR 0x0A] (map (\<lambda>n. n @ '':'' @ header_value (h n)) names) @ CHR 0x0A # r"
    have "header_value (h n) @ CHR 0x0A # ?rest h r = header_value (h' n) @ CHR 0x0A # ?rest h' r'"
      using eq Cons by simp
    then have "header_value (h n) = header_value (h' n) \<and> ?rest h r = ?rest h' r'"
      by (rule append_sep_inj [OF _ header_value_newline header_value_newline])
    then show ?thesis using IH by (metis set_ConsD)
  qed
qed simp

lemma canonical_request_inj:
  assumes eq: "canonical_request m p q h names hash = canonical_request m' p' q' h' names hash'"
    and nl: "CHR 0x0A \<notin> set m" "CHR 0x0A \<notin> set m'" "CHR 0x0A \<notin> set q" "CHR 0x0A \<notin> set q'"
  shows "upper m = upper m' \<and> p = p' \<and> q = q' \<and> hash = hash' \<and>
    (\<forall>n \<in> set names. header_value (h (lower n)) = header_value (h' (lower n)))"
proof -
  let ?nl = "CHR 0x0A" and ?names = "sort (map lower names)"
  let ?tail = "\<lambda>h hash. join [?nl] (map (\<lambda>n. n @ '':'' @ header_value (h n)) ?names) @ ?nl # ?nl # join '';'' ?names @ ?nl # hash"
  have "upper m @ ?nl # canonical_path p @ ?nl # q @ ?nl # ?tail h hash =
        upper m' @ ?nl # canonical_path p' @ ?nl # q' @ ?nl # ?tail h' hash'"
    using eq by (simp add: canonical_request_def Let_def)
  then have 1: "upper m = upper m' \<and> canonical_path p @ ?nl # q @ ?nl # ?tail h hash =
        canonical_path p' @ ?nl # q' @ ?nl # ?tail h' hash'"
    using upper_newline [OF nl(1)] upper_newline [OF nl(2)] by (rule append_sep_inj)
  from conjunct2 [OF 1] have 2: "canonical_path p = canonical_path p' \<and> q @ ?nl # ?tail h hash = q' @ ?nl # ?tail h' hash'"
    by (rule append_sep_inj) simp_all
  from conjunct2 [OF 2] nl(3,4) have 3: "q = q' \<and> ?tail h hash = ?tail h' hash'"
    by (rule append_sep_inj)
  from conjunct2 [OF 3] have "?nl # join '';'' ?names @ ?nl # hash = ?nl # join '';'' ?names @ ?nl # hash' \<and>
      (\<forall>n \<in> set ?names. header_value (h n) = header_value (h' n))"
    by (rule header_lines_inj)
  with 1 2 3 canonical_path_inj show ?thesis by auto
qed

text \<open>The line of the scope and the date of the request can be told apart for the scopes of one header.\<close>

lemma string_to_sign_inj:
  assumes eq: "string_to_sign sha256 d s r = string_to_sign sha256 d' s' r'"
    and s: "s \<in> set (signing_scopes_for sc)" "s' \<in> set (signing_scopes_for sc)"
  shows "d = d' \<and> sha256 r = sha256 r'"
proof -
  let ?nl = "CHR 0x0A"
  have e: "(d @ ?nl # scope_line s) @ ?nl # hex (sha256 r) = (d' @ ?nl # scope_line s') @ ?nl # hex (sha256 r')"
    using eq by (simp add: string_to_sign_def)
  then have "rev (hex (sha256 r)) @ ?nl # rev (d @ ?nl # scope_line s) = rev (hex (sha256 r')) @ ?nl # rev (d' @ ?nl # scope_line s')"
    by (metis append.assoc append_Cons append_Nil rev_append rev_singleton_conv singleton_rev_conv)
  then have h: "rev (hex (sha256 r)) = rev (hex (sha256 r')) \<and> rev (d @ ?nl # scope_line s) = rev (d' @ ?nl # scope_line s')"
    by (rule append_sep_inj) simp_all
  then have sc': "d @ ?nl # scope_line s = d' @ ?nl # scope_line s'" by (simp only: rev_is_rev_conv)
  have "sc_service s = sc_service s' \<or> {sc_service s, sc_service s'} = {''bedrock'', ''bedrock-runtime''}"
    using s by (auto simp: signing_scopes_for_def split: if_splits)
  then have "sc_service s = sc_service s'"
  proof
    assume "{sc_service s, sc_service s'} = {''bedrock'', ''bedrock-runtime''}"
    then consider "sc_service s = ''bedrock''" "sc_service s' = ''bedrock-runtime''"
      | "sc_service s = ''bedrock-runtime''" "sc_service s' = ''bedrock''" by (auto simp: doubleton_eq_iff)
    then show ?thesis
    proof cases
      case 1
      then show ?thesis using arg_cong [OF sc', where f = "\<lambda>x. take 22 (rev x)"] 1 by (simp add: scope_line_def)
    next
      case 2
      then show ?thesis using arg_cong [OF sc', where f = "\<lambda>x. take 22 (rev x)"] by (simp add: scope_line_def)
    qed
  qed
  then have "scope_line s = scope_line s'"
    using s by (auto simp: signing_scopes_for_def scope_line_def split: if_splits)
  with sc' h show ?thesis by (auto dest: hex_inj)
qed

section \<open>What a verified request has\<close>

text \<open>The contract of a key provider (\<open>SigningKeyProvider\<close>): it keeps an invariant of its state, and every key it
  gives out is genuine for the access key id and the scope.\<close>

locale key_provider =
  fixes get_key :: "string \<Rightarrow> signing_scope \<Rightarrow> 's \<Rightarrow> 's \<times> (string + string option)"
    and inv :: "'s \<Rightarrow> bool"
    and genuine :: "string \<Rightarrow> signing_scope \<Rightarrow> string \<Rightarrow> bool"
  assumes keeps_inv: "inv st \<Longrightarrow> inv (fst (get_key ak s st))"
    and sound: "inv st \<Longrightarrow> snd (get_key ak s st) = Inr (Some key) \<Longrightarrow> genuine ak s key"
begin

lemma try_scopes_genuine:
  "inv st \<Longrightarrow> snd (try_scopes get_key match ak ss b st) = Inr True \<Longrightarrow>
   b \<or> (\<exists>s \<in> set ss. \<exists>key. genuine ak s key \<and> match key s)"
proof (induction ss arbitrary: b st)
  case (Cons s ss)
  obtain st' r where g: "get_key ak s st = (st', r)" by fastforce
  with Cons.prems keeps_inv [of st ak s] have i: "inv st'" by simp
  show ?case
  proof (cases r)
    case (Inr k)
    show ?thesis
    proof (cases k)
      case None
      with Inr g Cons.prems Cons.IH [OF i] show ?thesis by auto
    next
      case (Some key)
      have "genuine ak s key" using sound [of st ak s key] Cons.prems g Inr Some by simp
      moreover have "match key s \<or> b \<or> (\<exists>s \<in> set ss. \<exists>key. genuine ak s key \<and> match key s)"
        using Cons.IH [OF i, of "match key s \<or> b"] Cons.prems g Inr Some by auto
      ultimately show ?thesis by auto
    qed
  qed (use g Cons.prems in simp)
qed simp

lemma try_scopes_inv: "inv st \<Longrightarrow> inv (fst (try_scopes get_key match ak ss b st))"
proof (induction ss arbitrary: b st)
  case (Cons s ss)
  with keeps_inv [of st ak s] show ?case by (auto split: prod.split sum.split option.split)
qed simp

end

text \<open>A request that carries the signature of one of its variants under a key and a scope.\<close>

definition signed_under ::
  "(string \<Rightarrow> string) \<Rightarrow> (string \<Rightarrow> string \<Rightarrow> string) \<Rightarrow> (string \<Rightarrow> string + string \<times> string) \<Rightarrow> sigv4_request \<Rightarrow> sigv4_header \<Rightarrow>
   string \<Rightarrow> signing_scope \<Rightarrow> bool" where
  "signed_under sha256 hmac parse_url req parsed key s \<longleftrightarrow>
     (\<exists>amz_date hash pathname search host path.
        rq_headers req ''x-amz-date'' = Some (One amz_date) \<and> take 8 amz_date = sc_date (hd_scope parsed) \<and>
        host_signed (signed_headers parsed) \<and> payload_hash sha256 req = Some hash \<and>
        parse_url (original_url req) = Inr (pathname, search) \<and>
        host \<in> set (host_variants req (sc_region (hd_scope parsed))) \<and> path \<in> set (path_variants req pathname) \<and>
        s \<in> set (signing_scopes_for (hd_scope parsed)) \<and>
        signature parsed = expected_signature sha256 hmac req (signed_headers parsed) amz_date
          (canonical_query (drop 1 search)) hash key s host path)"

context key_provider
begin

lemma verified_signed:
  assumes "inv st" "snd (verify_sigv4_request sha256 hmac parse_url get_key req parsed st) = Inr True"
  shows "\<exists>s key. genuine (access_key_id parsed) s key \<and> signed_under sha256 hmac parse_url req parsed key s"
proof -
  obtain amz_date hash pathname search where d: "rq_headers req ''x-amz-date'' = Some (One amz_date)"
      "take 8 amz_date = sc_date (hd_scope parsed)" "host_signed (signed_headers parsed)"
      "payload_hash sha256 req = Some hash" "parse_url (original_url req) = Inr (pathname, search)"
    using assms(2) by (auto simp: verify_sigv4_request_def split: option.splits header.splits if_splits sum.splits)
  with assms(2) have "snd (try_scopes get_key
      (\<lambda>key s. list_ex (\<lambda>host. list_ex (\<lambda>path.
         expected_signature sha256 hmac req (signed_headers parsed) amz_date (canonical_query (drop 1 search)) hash key s host path
           = signature parsed) (path_variants req pathname)) (host_variants req (sc_region (hd_scope parsed))))
      (access_key_id parsed) (signing_scopes_for (hd_scope parsed)) False st) = Inr True"
    by (simp add: verify_sigv4_request_def)
  from try_scopes_genuine [OF assms(1) this] d show ?thesis
    by (auto simp: signed_under_def list_ex_iff) metis
qed

lemma verify_inv: "inv st \<Longrightarrow> inv (fst (verify_sigv4_request sha256 hmac parse_url get_key req parsed st))"
  by (auto simp: verify_sigv4_request_def try_scopes_inv split: option.split header.split sum.split)

end

text \<open>A provider that answers without a state and without an error accepts exactly the signed requests.\<close>

lemma try_scopes_steady:
  "(\<And>s st. get_key key_id s st = (st, Inr (f s))) \<Longrightarrow>
   try_scopes get_key match key_id ss b st = (st, Inr (b \<or> (\<exists>s \<in> set ss. \<exists>key. f s = Some key \<and> match key s)))"
  by (induction ss arbitrary: b) (auto split: option.splits)

lemma verify_steady:
  assumes "\<And>s st. get_key (access_key_id parsed) s st = (st, Inr (f s))"
  shows "snd (verify_sigv4_request sha256 hmac parse_url get_key req parsed st) = Inr True \<longleftrightarrow>
    (\<exists>s key. f s = Some key \<and> signed_under sha256 hmac parse_url req parsed key s)"
proof -
  note steady = try_scopes_steady [where get_key = get_key and f = f, OF assms]
  show ?thesis
    by (auto simp: verify_sigv4_request_def signed_under_def steady list_ex_iff split: option.splits header.splits sum.splits)
      metis+
qed

text \<open>The body a request carries, for the hash of its payload.\<close>

definition body_of :: "sigv4_request \<Rightarrow> string" where
  "body_of req = (case raw_body req of Some b \<Rightarrow> b | None \<Rightarrow> [])"

lemma payload_hash_body: "payload_hash sha256 req = Some hash \<Longrightarrow> lower hash = hex (sha256 (body_of req))"
  by (auto simp: payload_hash_def body_of_def Let_def split: option.splits header.splits if_splits)

lemma with_host_other: "lower n \<notin> {''host'', '':authority''} \<Longrightarrow> with_host host h (lower n) = h (lower n)"
  by (simp add: with_host_def)

lemma signed_under_binds:
  assumes hash: "inj sha256" and mac: "\<And>k m k' m'. hmac k m = hmac k' m' \<Longrightarrow> m = m'"
    and s: "signed_under sha256 hmac parse_url req parsed key s" and s': "signed_under sha256 hmac parse_url' req' parsed key' s'"
    and nl: "CHR 0x0A \<notin> set (rq_method req)" "CHR 0x0A \<notin> set (rq_method req')"
  shows "upper (rq_method req) = upper (rq_method req') \<and> body_of req = body_of req' \<and>
    rq_headers req ''x-amz-date'' = rq_headers req' ''x-amz-date'' \<and>
    (\<exists>pathname search pathname' search'. parse_url (original_url req) = Inr (pathname, search) \<and>
       parse_url' (original_url req') = Inr (pathname', search') \<and>
       canonical_query (drop 1 search) = canonical_query (drop 1 search') \<and>
       set (path_variants req pathname) \<inter> set (path_variants req' pathname') \<noteq> {}) \<and>
    (\<forall>n \<in> set (signed_headers parsed). lower n \<notin> {''host'', '':authority''} \<longrightarrow>
       header_value (rq_headers req (lower n)) = header_value (rq_headers req' (lower n)))"
proof -
  obtain d hs pn se host path where 1: "rq_headers req ''x-amz-date'' = Some (One d)" "payload_hash sha256 req = Some hs"
      "parse_url (original_url req) = Inr (pn, se)" "path \<in> set (path_variants req pn)"
      "s \<in> set (signing_scopes_for (hd_scope parsed))"
      "signature parsed = expected_signature sha256 hmac req (signed_headers parsed) d (canonical_query (drop 1 se)) hs key s host path"
    using s by (auto simp: signed_under_def)
  obtain d' hs' pn' se' host' path' where 2: "rq_headers req' ''x-amz-date'' = Some (One d')" "payload_hash sha256 req' = Some hs'"
      "parse_url' (original_url req') = Inr (pn', se')" "path' \<in> set (path_variants req' pn')"
      "s' \<in> set (signing_scopes_for (hd_scope parsed))"
      "signature parsed = expected_signature sha256 hmac req' (signed_headers parsed) d' (canonical_query (drop 1 se')) hs' key' s' host' path'"
    using s' by (auto simp: signed_under_def)
  note eq = mac [OF hex_inj [OF trans [OF sym [OF 1(6)] 2(6), unfolded expected_signature_def]]]
  from string_to_sign_inj [OF eq 1(5) 2(5)] have d: "d = d'"
    and c: "canonical_request (rq_method req) path (canonical_query (drop 1 se))
        (with_host host (rq_headers req)) (signed_headers parsed) hs =
      canonical_request (rq_method req') path' (canonical_query (drop 1 se'))
        (with_host host' (rq_headers req')) (signed_headers parsed) hs'"
    using hash by (auto dest: injD)
  note r = canonical_request_inj [OF c nl canonical_query_newline canonical_query_newline]
  have "sha256 (body_of req) = sha256 (body_of req')"
    using r payload_hash_body [OF 1(2)] payload_hash_body [OF 2(2)] by (auto intro: hex_inj)
  with hash have "body_of req = body_of req'" by (rule injD)
  moreover have "\<forall>n \<in> set (signed_headers parsed). lower n \<notin> {''host'', '':authority''} \<longrightarrow>
       header_value (rq_headers req (lower n)) = header_value (rq_headers req' (lower n))"
    using r by (metis with_host_other)
  moreover have "set (path_variants req pn) \<inter> set (path_variants req' pn') \<noteq> {}" using 1(4) 2(4) r by blast
  ultimately show ?thesis using 1(1,3) 2(1,3) r d by (intro conjI exI [of _ pn] exI [of _ se] exI [of _ pn'] exI [of _ se']) simp_all
qed

section \<open>The header can be read back\<close>

lemma key_values_skip: "\<not> is_word c \<Longrightarrow> key_values (c # s) = key_values s"
  by (subst (1 2) key_values.simps) simp

lemma key_values_Nil [simp]: "key_values [] = []"
  by (simp add: key_values.simps [of "[]"])

lemma key_values_word:
  "is_word c \<Longrightarrow> key_values (c # cs) =
     (let rest = dropWhile is_word (c # cs); v = takeWhile (\<lambda>c. c \<noteq> CHR '','') (drop 1 rest) in
      if prefix ''='' rest \<and> v \<noteq> []
      then (takeWhile is_word (c # cs), trim v) # key_values (drop (length v) (drop 1 rest)) else key_values rest)"
  by (subst key_values.simps) simp

lemma takeWhile_comma: "CHR '','' \<notin> set v \<Longrightarrow> r = [] \<or> hd r = CHR '','' \<Longrightarrow> takeWhile (\<lambda>c. c \<noteq> CHR '','') (v @ r) = v"
  by (induction v) (cases r, auto)+

lemma key_values_pair:
  assumes k: "k \<noteq> []" "list_all is_word k" and v: "v \<noteq> []" "CHR '','' \<notin> set v" "trim v = v" and r: "r = [] \<or> hd r = CHR '',''"
  shows "key_values (k @ CHR ''='' # v @ r) = (k, v) # key_values r"
proof -
  obtain c cs where c: "k = c # cs" "is_word c" using k by (cases k) auto
  have eq: "\<not> is_word CHR ''=''" by code_simp
  have w: "dropWhile is_word (k @ CHR ''='' # v @ r) = CHR ''='' # v @ r" "takeWhile is_word (k @ CHR ''='' # v @ r) = k"
    using k(2) eq by (induction k) simp_all
  have t: "takeWhile (\<lambda>c. c \<noteq> CHR '','') (v @ r) = v" using v(2) r by (rule takeWhile_comma)
  have "key_values (k @ CHR ''='' # v @ r) =
      (let rest = dropWhile is_word (k @ CHR ''='' # v @ r); v' = takeWhile (\<lambda>c. c \<noteq> CHR '','') (drop 1 rest) in
       if prefix ''='' rest \<and> v' \<noteq> []
       then (takeWhile is_word (k @ CHR ''='' # v @ r), trim v') # key_values (drop (length v') (drop 1 rest)) else key_values rest)"
    unfolding c(1) append_Cons using c(2) by (rule key_values_word)
  then show ?thesis unfolding w Let_def using t v by simp
qed

text \<open>A value of the header: not empty, without a comma, and without white space at its ends.\<close>

definition plain_value :: "string \<Rightarrow> bool" where
  "plain_value v = (v \<noteq> [] \<and> CHR '','' \<notin> set v \<and> trim v = v)"

lemma parse_written_header:
  assumes "list_all (\<lambda>w. CHR ''/'' \<notin> set w) [key, sc_date s, sc_region s, sc_service s]"
    and "names \<noteq> []" "list_all (\<lambda>n. CHR '';'' \<notin> set n) names"
    and "plain_value (key @ ''/'' @ scope_line s)" "plain_value (join '';'' names)" "plain_value sig"
  shows "parse_sigv4_auth_header (Some (ALGORITHM @ '' Credential='' @ key @ ''/'' @ scope_line s @ '', SignedHeaders='' @
      join '';'' names @ '', Signature='' @ sig)) =
    Some \<lparr>access_key_id = key, hd_scope = s, signed_headers = names, signature = sig\<rparr>"
proof -
  let ?credential = "key @ ''/'' @ scope_line s"
  have w: "\<not> is_word CHR '',''" "\<not> is_word CHR '' ''" "list_all is_word ''Credential''" "list_all is_word ''SignedHeaders''"
      "list_all is_word ''Signature''" by code_simp+
  have "key_values (''Credential='' @ ?credential @ '', SignedHeaders='' @ join '';'' names @ '', Signature='' @ sig) =
      (''Credential'', ?credential) # key_values ('', SignedHeaders='' @ join '';'' names @ '', Signature='' @ sig)"
    using key_values_pair [of "''Credential''" ?credential "'', SignedHeaders='' @ join '';'' names @ '', Signature='' @ sig"] w assms(4)
    by (simp add: plain_value_def)
  also have "key_values ('', SignedHeaders='' @ join '';'' names @ '', Signature='' @ sig) =
      (''SignedHeaders'', join '';'' names) # key_values ('', Signature='' @ sig)"
    using key_values_pair [of "''SignedHeaders''" "join '';'' names" "'', Signature='' @ sig"] w assms(5)
    by (simp add: plain_value_def key_values_skip)
  also have "key_values ('', Signature='' @ sig) = [(''Signature'', sig)]"
    using key_values_pair [of "''Signature''" sig "[]"] w assms(6) by (simp add: plain_value_def key_values_skip)
  finally have kv: "key_values (''Credential='' @ ?credential @ '', SignedHeaders='' @ join '';'' names @ '', Signature='' @ sig) =
      [(''Credential'', ?credential), (''SignedHeaders'', join '';'' names), (''Signature'', sig)]" .
  have "?credential = join ''/'' [key, sc_date s, sc_region s, sc_service s, ''aws4_request'']" by (simp add: scope_line_def)
  then have c: "split_char CHR ''/'' ?credential = [key, sc_date s, sc_region s, sc_service s, ''aws4_request'']"
    using assms(1) by (simp only:) (rule split_char_join, simp_all)
  have n: "split_char CHR '';'' (join '';'' names) = names"
    using assms(2,3) by (rule split_char_join)
  let ?kvs = "''Credential='' @ ?credential @ '', SignedHeaders='' @ join '';'' names @ '', Signature='' @ sig"
  have h: "ALGORITHM @ '' Credential='' @ key @ ''/'' @ scope_line s @ '', SignedHeaders='' @ join '';'' names @ '', Signature='' @ sig =
      ALGORITHM @ '' '' @ ?kvs" by simp
  have d: "drop (length ALGORITHM + 1) (ALGORITHM @ '' '' @ ?kvs) = ?kvs" by simp
  have "is_aws_sigv4_request (Some (ALGORITHM @ '' '' @ ?kvs))" by (simp add: is_aws_sigv4_request_def)
  moreover have "part ''Credential'' (key_values ?kvs) = Some ?credential" "part ''SignedHeaders'' (key_values ?kvs) = Some (join '';'' names)"
      "part ''Signature'' (key_values ?kvs) = Some sig"
    using assms(4-6) unfolding kv by (simp_all add: part_def plain_value_def)
  ultimately show ?thesis
    unfolding parse_sigv4_auth_header_def h option.sel d Let_def by (simp only: c n option.case list.case prod.case simp_thms if_True if_False) simp
qed

text \<open>The header the AWS clients write is read back as it was meant: the access key id, the scope, the signed
  header names and the signature. The parts of the credential have no slash and the names no semicolon; no value is
  empty, has a comma, or starts or ends with white space.\<close>

theorem sigv4_header_roundtrip:
  assumes "list_all (\<lambda>w. CHR ''/'' \<notin> set w) [key, sc_date s, sc_region s, sc_service s]"
    and "names \<noteq> []" "list_all (\<lambda>n. CHR '';'' \<notin> set n) names"
    and "plain_value (key @ ''/'' @ scope_line s)" "plain_value (join '';'' names)" "plain_value sig"
  shows "parse_sigv4_auth_header (Some (ALGORITHM @ '' Credential='' @ key @ ''/'' @ scope_line s @ '', SignedHeaders='' @
      join '';'' names @ '', Signature='' @ sig)) =
    Some \<lparr>access_key_id = key, hd_scope = s, signed_headers = names, signature = sig\<rparr>"
  by (rule parse_written_header [OF assms])

lemma sigv4_header_roundtrip_witness:
  "parse_sigv4_auth_header (Some (ALGORITHM @ '' Credential=AK/20260101/r/bedrock/aws4_request, SignedHeaders=host;x-amz-date, Signature=ab'')) =
    Some \<lparr>access_key_id = ''AK'', hd_scope = \<lparr>sc_date = ''20260101'', sc_region = ''r'', sc_service = ''bedrock''\<rparr>,
      signed_headers = [''host'', ''x-amz-date''], signature = ''ab''\<rparr>"
  using sigv4_header_roundtrip [of "''AK''" "\<lparr>sc_date = ''20260101'', sc_region = ''r'', sc_service = ''bedrock''\<rparr>"
      "[''host'', ''x-amz-date'']" "''ab''"]
  by (simp add: plain_value_def scope_line_def trim_def trim_left_def is_space_def)

section \<open>Replay\<close>

text \<open>Every provider is one whose keys are those it answered.\<close>

interpretation answered: key_provider get_key "\<lambda>_. True" "\<lambda>key_id s key. \<exists>st. snd (get_key key_id s st) = Inr (Some key)"
  for get_key :: "string \<Rightarrow> signing_scope \<Rightarrow> 's \<Rightarrow> 's \<times> (string + string option)"
  by unfold_locales auto

text \<open>C31. A captured \<open>Authorization\<close> header cannot be used for another request: two requests the verifier accepts
  with the same parsed header, whatever the key providers, have the same method, the same body, the same date, the
  same query up to the order and the spelling of its parameters, a common path among the variants of their paths, and
  the same value of every signed header other than the host. SHA-256 is taken to have no collisions and HMAC none
  in its message.\<close>

theorem signature_binds_request:
  assumes "inj sha256" and "\<And>k m k' m'. hmac k m = hmac k' m' \<Longrightarrow> m = m'"
    and "snd (verify_sigv4_request sha256 hmac parse_url get_key req parsed st) = Inr True"
    and "snd (verify_sigv4_request sha256 hmac parse_url get_key' req' parsed st') = Inr True"
    and "CHR 0x0A \<notin> set (rq_method req)" "CHR 0x0A \<notin> set (rq_method req')"
  shows "upper (rq_method req) = upper (rq_method req') \<and> body_of req = body_of req' \<and>
    rq_headers req ''x-amz-date'' = rq_headers req' ''x-amz-date'' \<and>
    (\<exists>pathname search pathname' search'. parse_url (original_url req) = Inr (pathname, search) \<and>
       parse_url (original_url req') = Inr (pathname', search') \<and>
       canonical_query (drop 1 search) = canonical_query (drop 1 search') \<and>
       set (path_variants req pathname) \<inter> set (path_variants req' pathname') \<noteq> {}) \<and>
    (\<forall>n \<in> set (signed_headers parsed). lower n \<notin> {''host'', '':authority''} \<longrightarrow>
       header_value (rq_headers req (lower n)) = header_value (rq_headers req' (lower n)))"
proof -
  obtain s key s' key' where "signed_under sha256 hmac parse_url req parsed key s"
      "signed_under sha256 hmac parse_url req' parsed key' s'"
    using answered.verified_signed [OF TrueI assms(3)] answered.verified_signed [OF TrueI assms(4)] by blast
  from signed_under_binds [OF assms(1,2) this assms(5,6)] show ?thesis .
qed

text \<open>A request and its signature under hash functions without collisions: the hash is the text itself and a MAC
  is the message.\<close>

definition EXAMPLE_DATE :: string where
  "EXAMPLE_DATE = ''20260101T000000Z''"

definition example_scope :: signing_scope where
  "example_scope = \<lparr>sc_date = ''20260101'', sc_region = ''r'', sc_service = ''bedrock''\<rparr>"

definition example_request :: "(string \<times> header) list \<Rightarrow> sigv4_request" where
  "example_request more_headers =
     \<lparr>rq_method = ''POST'', original_url = ''/m?a=1'',
      rq_headers = (map_of more_headers)(''x-amz-date'' \<mapsto> One EXAMPLE_DATE, ''host'' \<mapsto> One ''h''),
      raw_body = Some ''{}''\<rparr>"

definition example_url :: "string \<Rightarrow> string + string \<times> string" where
  "example_url u = (if u = ''/m?a=1'' then Inr (''/m'', ''?a=1'') else Inl ''Invalid URL'')"

definition example_signature :: string where
  "example_signature = hex (string_to_sign id EXAMPLE_DATE example_scope
     (canonical_request ''POST'' ''/m'' (canonical_query ''a=1'') [''host'' \<mapsto> One ''h'', ''x-amz-date'' \<mapsto> One EXAMPLE_DATE]
        [''host'', ''x-amz-date''] (hex ''{}'')))"

definition example_header :: sigv4_header where
  "example_header =
     \<lparr>access_key_id = ''AK'', hd_scope = example_scope, signed_headers = [''host'', ''x-amz-date''], signature = example_signature\<rparr>"

definition example_authorization :: string where
  "example_authorization = ALGORITHM @ '' Credential='' @ ''AK'' @ ''/'' @ scope_line example_scope @ '', SignedHeaders='' @
     join '';'' [''host'', ''x-amz-date''] @ '', Signature='' @ example_signature"

lemma trim_no_space: "list_all (\<lambda>c. \<not> is_space c) s \<Longrightarrow> trim s = s"
proof -
  have "dropWhile is_space t = t" if "list_all (\<lambda>c. \<not> is_space c) t" for t
    using that by (cases t) simp_all
  then show "list_all (\<lambda>c. \<not> is_space c) s \<Longrightarrow> trim s = s" by (simp add: trim_def trim_left_def)
qed

lemma low_digits: "list_all (\<lambda>n. \<not> is_space (low_digit n) \<and> low_digit n \<noteq> CHR '','') [0 ..< 16]"
  by code_simp

lemma plain_hex: "s \<noteq> [] \<Longrightarrow> plain_value (hex s)"
proof -
  have d: "n < 16 \<Longrightarrow> \<not> is_space (low_digit n) \<and> CHR '','' \<noteq> low_digit n" for n
    using low_digits by (auto simp: list_all_iff)
  have "list_all (\<lambda>c. \<not> is_space c) (hex s)" "CHR '','' \<notin> set (hex s)"
    by (induction s) (simp_all add: d)
  moreover have "s \<noteq> [] \<Longrightarrow> hex s \<noteq> []" by (cases s) simp_all
  ultimately show "s \<noteq> [] \<Longrightarrow> plain_value (hex s)" by (simp add: plain_value_def trim_no_space)
qed

lemma example_parsed: "parse_sigv4_auth_header (Some example_authorization) = Some example_header"
  unfolding example_authorization_def example_header_def
proof (rule parse_written_header)
  show "plain_value example_signature"
    unfolding example_signature_def by (rule plain_hex) (simp add: string_to_sign_def ALGORITHM_def)
qed (simp_all add: example_scope_def plain_value_def scope_line_def trim_def trim_left_def is_space_def)

lemma example_signed:
  assumes "map_of more_headers ''x-amz-content-sha256'' = None"
  shows "signed_under id (\<lambda>k m. m) example_url (example_request more_headers) example_header key example_scope"
proof -
  let ?r = "example_request more_headers"
  have hash: "payload_hash id ?r = Some (hex ''{}'')"
    using assms by (simp add: payload_hash_def example_request_def)
  have host: "''h'' \<in> set (host_variants ?r (sc_region (hd_scope example_header)))"
    by (simp add: host_variants_def example_request_def header_value_def trim_def trim_left_def is_space_def Let_def)
  have path: "''/m'' \<in> set (path_variants ?r ''/m'')" by (simp add: path_variants_def)
  have query: "drop 1 ''?a=1'' = ''a=1''" by simp
  have low: "map lower [''host'', ''x-amz-date''] = [''host'', ''x-amz-date'']" by code_simp
  have lines: "map (\<lambda>n. n @ '':'' @ header_value (with_host ''h'' (rq_headers ?r) n)) (sort (map lower [''host'', ''x-amz-date''])) =
      map (\<lambda>n. n @ '':'' @ header_value ([''host'' \<mapsto> One ''h'', ''x-amz-date'' \<mapsto> One EXAMPLE_DATE] n)) (sort (map lower [''host'', ''x-amz-date'']))"
    by (rule map_cong [OF refl], unfold low set_sort) (auto simp: with_host_def example_request_def)
  have verb: "rq_method ?r = ''POST''" by (simp add: example_request_def)
  have same: "canonical_request (rq_method ?r) ''/m'' q (with_host ''h'' (rq_headers ?r)) [''host'', ''x-amz-date''] hs =
      canonical_request ''POST'' ''/m'' q [''host'' \<mapsto> One ''h'', ''x-amz-date'' \<mapsto> One EXAMPLE_DATE] [''host'', ''x-amz-date''] hs" for q hs
    unfolding canonical_request_def Let_def lines verb by (rule refl)
  have sig: "signature example_header = expected_signature id (\<lambda>k m. m) ?r (signed_headers example_header) EXAMPLE_DATE
      (canonical_query (drop 1 ''?a=1'')) (hex ''{}'') key example_scope ''h'' ''/m''"
    unfolding expected_signature_def query example_header_def example_signature_def sigv4_header.select_convs same by (rule refl)
  have "host_signed [''host'', ''x-amz-date'']" by code_simp
  then have names: "host_signed (signed_headers example_header)" by (simp only: example_header_def sigv4_header.select_convs)
  have others: "rq_headers ?r ''x-amz-date'' = Some (One EXAMPLE_DATE)" "take 8 EXAMPLE_DATE = sc_date (hd_scope example_header)"
      "example_url (original_url ?r) = Inr (''/m'', ''?a=1'')" "example_scope \<in> set (signing_scopes_for (hd_scope example_header))"
    by (simp_all add: example_request_def EXAMPLE_DATE_def example_header_def example_scope_def example_url_def signing_scopes_for_def)
  show ?thesis unfolding signed_under_def using others(1,2) names hash others(3) host path others(4) sig by blast
qed

definition example_keys :: "string \<Rightarrow> signing_scope \<Rightarrow> unit \<Rightarrow> unit \<times> (string + string option)" where
  "example_keys key_id s st = (st, Inr (if key_id = ''AK'' then Some ''k'' else None))"

lemma signature_binds_request_witness:
  "snd (verify_sigv4_request id (\<lambda>k m. m) example_url example_keys (example_request []) example_header ()) = Inr True \<and>
   snd (verify_sigv4_request id (\<lambda>k m. m) example_url example_keys (example_request [(''accept'', One ''b'')]) example_header ()) = Inr True \<and>
   body_of (example_request []) = body_of (example_request [(''accept'', One ''b'')])"
proof -
  have "example_keys (access_key_id example_header) s st = (st, Inr (Some ''k''))" for s st
    by (simp add: example_keys_def example_header_def)
  note accepted = verify_steady [where get_key = example_keys, OF this]
  have 1: "snd (verify_sigv4_request id (\<lambda>k m. m) example_url example_keys (example_request []) example_header ()) = Inr True"
    unfolding accepted using example_signed [of "[]"] by auto
  have 2: "snd (verify_sigv4_request id (\<lambda>k m. m) example_url example_keys (example_request [(''accept'', One ''b'')]) example_header ()) = Inr True"
    unfolding accepted using example_signed [of "[(''accept'', One ''b'')]"] by auto
  have "body_of (example_request []) = body_of (example_request [(''accept'', One ''b'')])"
    using signature_binds_request [OF inj_on_id _ 1 2] by (simp add: example_request_def)
  with 1 2 show ?thesis by blast
qed

end
