(* ===== verification/Signing_Keys.thy ===== *)
theory Signing_Keys
  imports Aws_Signature "HOL-Library.AList"
begin

text \<open>
  The cache of day-scoped signing keys (\<open>services/awsSigningKeyCache.ts\<close>) and the two key providers of the
  verifier (\<open>services/awsSigningKeyProviders.ts\<close>). The cache is the insertion-ordered association list of its
  \<open>Map\<close>. The clock of a call, the local credential store and the reply of the admin service are arguments.
\<close>

section \<open>The cache\<close>

definition MAX_AGE_DAYS :: int where
  "MAX_AGE_DAYS = 1"

definition MAX_SIGNING_KEYS :: nat where
  "MAX_SIGNING_KEYS = 10000"

text \<open>A key as the admin service sends it. The date and the key are checked for being texts, so they are values.\<close>

record aws_signing_key =
  sk_date :: js
  sk_region :: string
  sk_service :: string
  sk_key :: js

type_synonym key_cache = "(string \<times> int \<times> string) list"

definition entry_key :: "string \<Rightarrow> signing_scope \<Rightarrow> string" where
  "entry_key key_id s =
     key_id @ [CHR 0x0A] @ sc_date s @ [CHR 0x0A] @ sc_region s @ [CHR 0x0A] @ sc_service s"

definition scope_day :: "string \<Rightarrow> int option" where
  "scope_day date =
     (if length date = 8 \<and> list_all is_digit date
      then Some (utc_date (digits_of (take 4 date)) (digits_of (take 2 (drop 4 date)) - 1) (digits_of (drop 6 date)))
      else None)"

definition too_old :: "int \<Rightarrow> int \<Rightarrow> bool" where
  "too_old day now = (MAX_AGE_DAYS < now div DAY - day)"

text \<open>\<open>Buffer.from(key, 'hex')\<close> on a text of hexadecimal digits.\<close>

fun unhex :: "string \<Rightarrow> string" where
  "unhex (a # b # s) = char_of (16 * the (digit_in 16 a) + the (digit_in 16 b)) # unhex s"
| "unhex _ = []"

definition is_key_text :: "string \<Rightarrow> bool" where
  "is_key_text s = (length s = 64 \<and> list_all (\<lambda>c. is_digit c \<or> CHR ''a'' \<le> c \<and> c \<le> CHR ''f'') s)"

definition remember_key :: "int \<Rightarrow> string \<Rightarrow> aws_signing_key \<Rightarrow> key_cache \<Rightarrow> key_cache" where
  "remember_key now key_id sk keys =
     (case (sk_date sk, sk_key sk) of
        (JStr date, JStr key) \<Rightarrow>
          (case scope_day date of
             None \<Rightarrow> keys
           | Some day \<Rightarrow>
               if too_old day now \<or> \<not> is_key_text key then keys
               else let k = entry_key key_id \<lparr>sc_date = date, sc_region = sk_region sk, sc_service = sk_service sk\<rparr>;
                        kept = (if map_of keys k = None \<and> MAX_SIGNING_KEYS \<le> length keys then tl keys else keys)
                    in AList.update k (day, unhex key) kept)
      | _ \<Rightarrow> keys)"

definition drop_old :: "int \<Rightarrow> key_cache \<Rightarrow> key_cache" where
  "drop_old now keys = filter (\<lambda>(k, day, key). \<not> too_old day now) keys"

text \<open>\<open>rememberSigningKeys\<close>: a reply without keys is the empty list.\<close>

definition remember_signing_keys :: "int \<Rightarrow> string \<Rightarrow> aws_signing_key list \<Rightarrow> key_cache \<Rightarrow> key_cache" where
  "remember_signing_keys now key_id sks keys = fold (remember_key now key_id) sks (drop_old now keys)"

definition cached_signing_key :: "int \<Rightarrow> string \<Rightarrow> signing_scope \<Rightarrow> key_cache \<Rightarrow> key_cache \<times> string option" where
  "cached_signing_key now key_id s keys =
     (let k = entry_key key_id s in
      case map_of keys k of
        None \<Rightarrow> (keys, None)
      | Some (day, key) \<Rightarrow> if too_old day now then (AList.delete k keys, None) else (keys, Some key))"

section \<open>The providers\<close>

text \<open>\<open>localSigningKeyProvider\<close>: the store answers the secret of an access key id, or none, or throws. The empty
  secret counts as none.\<close>

definition local_signing_key ::
  "(string \<Rightarrow> string \<Rightarrow> string) \<Rightarrow> (string \<Rightarrow> string + string option) \<Rightarrow> string \<Rightarrow> signing_scope \<Rightarrow> 's \<Rightarrow>
   's \<times> (string + string option)" where
  "local_signing_key hmac get_secret key_id s st =
     (st, case get_secret key_id of
            Inl e \<Rightarrow> Inl e
          | Inr None \<Rightarrow> Inr None
          | Inr (Some secret) \<Rightarrow> Inr (if secret = [] then None else Some (derive_signing_key hmac secret s)))"

text \<open>\<open>adminSigningKeyProvider\<close>: on a miss the admin service is asked for the scope and its variant; the validation
  service remembers the keys of the reply. \<open>fetch\<close> is that reply, or the error it throws.\<close>

definition admin_signing_key ::
  "int \<Rightarrow> (string \<Rightarrow> signing_scope list \<Rightarrow> string + aws_signing_key list option) \<Rightarrow> string \<Rightarrow> signing_scope \<Rightarrow> key_cache \<Rightarrow>
   key_cache \<times> (string + string option)" where
  "admin_signing_key now fetch key_id s keys =
     (case cached_signing_key now key_id s keys of
        (keys', Some key) \<Rightarrow> (keys', Inr (Some key))
      | (keys', None) \<Rightarrow>
          (case fetch key_id (signing_scopes_for s) of
             Inl e \<Rightarrow> (keys', Inl e)
           | Inr reply \<Rightarrow>
               let kept = (case reply of None \<Rightarrow> keys' | Some sks \<Rightarrow> remember_signing_keys now key_id sks keys');
                   (keys'', r) = cached_signing_key now key_id s kept
               in (keys'', Inr r)))"

section \<open>The cache is bounded\<close>

definition cache_wf :: "key_cache \<Rightarrow> bool" where
  "cache_wf keys = (distinct (map fst keys) \<and> length keys \<le> MAX_SIGNING_KEYS)"

lemma length_update: "distinct (map fst keys) \<Longrightarrow>
  length (AList.update k v keys) = (if map_of keys k = None then Suc (length keys) else length keys)"
  by (induction keys) auto

lemma length_delete_le: "length (AList.delete k keys) \<le> length keys"
  by (simp add: AList.delete_eq)

lemma cache_wf_tl: "cache_wf keys \<Longrightarrow> cache_wf (tl keys)"
  by (cases keys) (auto simp: cache_wf_def)

lemma map_of_tl_None: "distinct (map fst keys) \<Longrightarrow> map_of keys k = None \<Longrightarrow> map_of (tl keys) k = None"
  by (cases keys) (auto split: if_splits)

lemma remember_key_wf: "cache_wf keys \<Longrightarrow> cache_wf (remember_key now key_id sk keys)"
proof -
  assume wf: "cache_wf keys"
  have put: "cache_wf (AList.update k v (if map_of keys k = None \<and> MAX_SIGNING_KEYS \<le> length keys then tl keys else keys))" for k v
    using wf cache_wf_tl [OF wf] map_of_tl_None [of keys k]
    by (auto simp: cache_wf_def length_update distinct_update_keys MAX_SIGNING_KEYS_def)
  show ?thesis using wf put by (simp add: remember_key_def Let_def split: js.split option.split)
qed

lemma drop_old_wf: "cache_wf keys \<Longrightarrow> cache_wf (drop_old now keys)"
proof -
  assume "cache_wf keys"
  moreover have "length (drop_old now keys) \<le> length keys" by (simp add: drop_old_def)
  moreover have "distinct (map fst keys) \<Longrightarrow> distinct (map fst (drop_old now keys))"
    by (simp add: drop_old_def distinct_map_filter)
  ultimately show ?thesis by (simp add: cache_wf_def)
qed

lemma remember_wf: "cache_wf keys \<Longrightarrow> cache_wf (remember_signing_keys now key_id sks keys)"
proof -
  have "cache_wf keys \<Longrightarrow> cache_wf (fold (remember_key now key_id) sks keys)" for keys
    by (induction sks arbitrary: keys) (simp_all add: remember_key_wf)
  then show "cache_wf keys \<Longrightarrow> cache_wf (remember_signing_keys now key_id sks keys)"
    by (simp add: remember_signing_keys_def drop_old_wf)
qed

lemma cached_wf: "cache_wf keys \<Longrightarrow> cache_wf (fst (cached_signing_key now key_id s keys))"
proof -
  assume "cache_wf keys"
  moreover have "length (AList.delete k keys) \<le> length keys" for k by (rule length_delete_le)
  ultimately show ?thesis
    by (auto simp: cached_signing_key_def cache_wf_def Let_def intro: order_trans split: option.split)
qed

lemma admin_wf: "cache_wf keys \<Longrightarrow> cache_wf (fst (admin_signing_key now fetch key_id s keys))"
  by (auto simp: admin_signing_key_def Let_def split: prod.split option.split sum.split)
    (metis cached_wf fst_conv remember_wf)+

section \<open>A cached key was sent for its scope\<close>

text \<open>The keys that a reply holds for an access key id, those that are stored.\<close>

definition sends :: "aws_signing_key list \<Rightarrow> signing_scope \<Rightarrow> string \<Rightarrow> bool" where
  "sends sks s key =
     (\<exists>sk \<in> set sks. \<exists>t. sk_date sk = JStr (sc_date s) \<and> sk_region sk = sc_region s \<and> sk_service sk = sc_service s \<and>
        sk_key sk = JStr t \<and> is_key_text t \<and> key = unhex t)"

text \<open>Every entry holds a key that was sent for its access key id and scope, and the day of that scope.\<close>

definition cache_sound :: "(string \<Rightarrow> signing_scope \<Rightarrow> string \<Rightarrow> bool) \<Rightarrow> key_cache \<Rightarrow> bool" where
  "cache_sound sent keys =
     (\<forall>(k, day, key) \<in> set keys. \<exists>key_id s. k = entry_key key_id s \<and> scope_day (sc_date s) = Some day \<and> sent key_id s key)"

lemma set_tl: "set (tl xs) \<subseteq> set xs"
  by (cases xs) auto

lemma cache_sound_subset: "cache_sound sent keys \<Longrightarrow> set keys' \<subseteq> set keys \<Longrightarrow> cache_sound sent keys'"
  by (auto simp: cache_sound_def)

lemma cache_sound_update:
  assumes "cache_sound sent keys" "scope_day (sc_date s) = Some day" "sent key_id s key"
  shows "cache_sound sent (AList.update (entry_key key_id s) (day, key) keys)"
proof -
  have "set (AList.update k v keys) \<subseteq> insert (k, v) (set keys)" for k v
    by (induction keys) auto
  with assms show ?thesis unfolding cache_sound_def by blast
qed

lemma remember_key_sound:
  assumes "cache_sound sent keys" "\<And>s key. sends [sk] s key \<Longrightarrow> sent key_id s key"
  shows "cache_sound sent (remember_key now key_id sk keys)"
proof (cases "\<exists>date t day. sk_date sk = JStr date \<and> sk_key sk = JStr t \<and> scope_day date = Some day \<and>
    \<not> too_old day now \<and> is_key_text t")
  case True
  then obtain date t day where d: "sk_date sk = JStr date" "sk_key sk = JStr t" "scope_day date = Some day"
      "\<not> too_old day now" "is_key_text t" by blast
  let ?s = "\<lparr>sc_date = date, sc_region = sk_region sk, sc_service = sk_service sk\<rparr>"
  have "sent key_id ?s (unhex t)" using d by (intro assms(2)) (auto simp: sends_def)
  then have "cache_sound sent (AList.update (entry_key key_id ?s) (day, unhex t) keys')" if "cache_sound sent keys'" for keys'
    using that d by (intro cache_sound_update) simp_all
  with d cache_sound_subset [OF assms(1) set_tl] assms(1) show ?thesis by (simp add: remember_key_def Let_def)
next
  case False
  then have "remember_key now key_id sk keys = keys"
    by (auto simp: remember_key_def split: js.split option.split)
  with assms(1) show ?thesis by simp
qed

lemma remember_sound:
  assumes "cache_sound sent keys" "\<And>s key. sends sks s key \<Longrightarrow> sent key_id s key"
  shows "cache_sound sent (remember_signing_keys now key_id sks keys)"
proof -
  have "cache_sound sent (fold (remember_key now key_id) ts keys)" if "cache_sound sent keys" "set ts \<subseteq> set sks" for ts keys
    using that
  proof (induction ts arbitrary: keys)
    case (Cons t ts)
    have "sent key_id s key" if "sends [t] s key" for s key
      using that Cons.prems by (intro assms(2)) (auto simp: sends_def)
    with Cons remember_key_sound [of sent keys t key_id now] show ?case by simp
  qed simp
  moreover have "cache_sound sent (drop_old now keys)"
    using assms(1) by (rule cache_sound_subset) (auto simp: drop_old_def)
  ultimately show ?thesis by (simp add: remember_signing_keys_def)
qed

text \<open>The key found for a scope: some access key id and scope of the same entry had it sent, and its day is at most
  one day old.\<close>

definition fresh_sent :: "int \<Rightarrow> (string \<Rightarrow> signing_scope \<Rightarrow> string \<Rightarrow> bool) \<Rightarrow> string \<Rightarrow> signing_scope \<Rightarrow> string \<Rightarrow> bool" where
  "fresh_sent now sent key_id s key =
     (\<exists>key_id' s' day. entry_key key_id' s' = entry_key key_id s \<and> sent key_id' s' key \<and>
        scope_day (sc_date s') = Some day \<and> now div DAY - day \<le> MAX_AGE_DAYS)"

lemma cached_sound:
  assumes "cache_sound sent keys"
  shows "cache_sound sent (fst (cached_signing_key now key_id s keys))"
    and "snd (cached_signing_key now key_id s keys) = Some key \<Longrightarrow> fresh_sent now sent key_id s key"
proof -
  have "set (AList.delete k keys) \<subseteq> set keys" for k by (auto simp: AList.delete_eq)
  with assms show "cache_sound sent (fst (cached_signing_key now key_id s keys))"
    by (auto simp: cached_signing_key_def Let_def intro: cache_sound_subset split: option.split)
  assume "snd (cached_signing_key now key_id s keys) = Some key"
  then obtain day where "(entry_key key_id s, day, key) \<in> set keys" "\<not> too_old day now"
    by (auto simp: cached_signing_key_def Let_def split: option.splits if_splits dest: map_of_SomeD)
  with assms show "fresh_sent now sent key_id s key"
    by (fastforce simp: cache_sound_def fresh_sent_def too_old_def)
qed

text \<open>The entry tells the access key id and the scope apart when they have no line feed, as in a parsed header.\<close>

definition no_feed :: "string \<Rightarrow> signing_scope \<Rightarrow> bool" where
  "no_feed key_id s = list_all (\<lambda>t. CHR 0x0A \<notin> set t) [key_id, sc_date s, sc_region s, sc_service s]"

lemma count_list_zero: "count_list xs x = 0 \<longleftrightarrow> x \<notin> set xs"
  by (induction xs) auto

lemma entry_key_inj:
  assumes eq: "entry_key key_id' s' = entry_key key_id s" and nf: "no_feed key_id s"
  shows "key_id' = key_id \<and> s' = s"
proof -
  have "count_list (entry_key key_id' s') (CHR 0x0A) = 3"
    unfolding eq using nf by (simp add: entry_key_def no_feed_def count_list_append count_list_zero [THEN iffD2])
  then have nf': "no_feed key_id' s'"
    by (simp add: entry_key_def no_feed_def count_list_append flip: count_list_zero)
  note split = append_sep_inj [where c = "CHR 0x0A"]
  have "key_id' = key_id \<and> sc_date s' @ [CHR 0x0A] @ sc_region s' @ [CHR 0x0A] @ sc_service s' =
      sc_date s @ [CHR 0x0A] @ sc_region s @ [CHR 0x0A] @ sc_service s"
    using eq nf nf' by (intro split) (simp_all add: entry_key_def no_feed_def)
  moreover from conjunct2 [OF this] have "sc_date s' = sc_date s \<and> sc_region s' @ [CHR 0x0A] @ sc_service s' =
      sc_region s @ [CHR 0x0A] @ sc_service s"
    using nf nf' by (intro split) (simp_all add: no_feed_def)
  moreover from conjunct2 [OF this] have "sc_region s' = sc_region s \<and> sc_service s' = sc_service s"
    using nf nf' by (intro split) (simp_all add: no_feed_def)
  ultimately show ?thesis by simp
qed

lemma fresh_sent_same: "fresh_sent now sent key_id s key \<Longrightarrow> no_feed key_id s \<Longrightarrow> sent key_id s key"
  by (auto simp: fresh_sent_def dest: entry_key_inj)

section \<open>The providers meet the contract\<close>

interpretation local_keys: key_provider "local_signing_key hmac get_secret" "P :: 's \<Rightarrow> bool"
    "\<lambda>key_id s key. \<exists>secret. get_secret key_id = Inr (Some secret) \<and> secret \<noteq> [] \<and> key = derive_signing_key hmac secret s"
  for hmac get_secret P
  by unfold_locales (auto simp: local_signing_key_def split: sum.splits option.splits if_splits)

text \<open>What the admin service sent: before the request, or in reply to it.\<close>

definition sent_now ::
  "(string \<Rightarrow> signing_scope list \<Rightarrow> string + aws_signing_key list option) \<Rightarrow> (string \<Rightarrow> signing_scope \<Rightarrow> string \<Rightarrow> bool) \<Rightarrow>
   string \<Rightarrow> signing_scope \<Rightarrow> string \<Rightarrow> bool" where
  "sent_now fetch sent key_id s key \<longleftrightarrow>
     sent key_id s key \<or> (\<exists>scopes sks. fetch key_id scopes = Inr (Some sks) \<and> sends sks s key)"

interpretation admin_keys: key_provider "admin_signing_key now fetch"
    "\<lambda>keys. cache_wf keys \<and> cache_sound (sent_now fetch sent) keys" "fresh_sent now (sent_now fetch sent)"
  for now fetch sent
proof
  fix keys key_id s key
  assume inv: "cache_wf keys \<and> cache_sound (sent_now fetch sent) keys"
  let ?c = "cached_signing_key now key_id s keys"
  have found: "cache_sound (sent_now fetch sent) (fst ?c)" using inv by (simp add: cached_sound)
  have replied: "cache_sound (sent_now fetch sent) (remember_signing_keys now key_id sks (fst ?c))"
    if "fetch key_id (signing_scopes_for s) = Inr (Some sks)" for sks
    using found that by (intro remember_sound) (auto simp: sent_now_def)
  have "cache_sound (sent_now fetch sent) (fst (admin_signing_key now fetch key_id s keys))"
    using found replied by (auto simp: admin_signing_key_def Let_def split: prod.split option.split sum.split)
      (metis cached_sound(1) fst_conv)+
  with inv show "cache_wf (fst (admin_signing_key now fetch key_id s keys)) \<and>
      cache_sound (sent_now fetch sent) (fst (admin_signing_key now fetch key_id s keys))"
    by (simp add: admin_wf)
  assume "snd (admin_signing_key now fetch key_id s keys) = Inr (Some key)"
  then consider "snd ?c = Some key"
    | "snd (cached_signing_key now key_id s (fst ?c)) = Some key"
    | sks where "fetch key_id (signing_scopes_for s) = Inr (Some sks)"
        "snd (cached_signing_key now key_id s (remember_signing_keys now key_id sks (fst ?c))) = Some key"
    by (auto simp: admin_signing_key_def Let_def split: prod.splits option.splits sum.splits)
  then show "fresh_sent now (sent_now fetch sent) key_id s key"
  proof cases
    case 1
    with conjunct2 [OF inv] show ?thesis by (rule cached_sound(2))
  next
    case 2
    with found show ?thesis by (rule cached_sound(2))
  next
    case 3
    from replied [OF 3(1)] 3(2) show ?thesis by (rule cached_sound(2))
  qed
qed

section \<open>Properties\<close>

text \<open>With the local credential store the verifier accepts exactly the requests that carry the signature of one
  of their variants (a host and a path the gateway tries) under the key derived from the stored secret of their access
  key id and one of the scopes of their credential; the date of the signed timestamp is the date of the credential, the
  host is signed, and the hash of the payload is that of the body received.\<close>

theorem local_verification_exact:
  "snd (verify_sigv4_request sha256 hmac parse_url (local_signing_key hmac get_secret) req parsed st) = Inr True \<longleftrightarrow>
   (\<exists>secret s. get_secret (access_key_id parsed) = Inr (Some secret) \<and> secret \<noteq> [] \<and>
      signed_under sha256 hmac parse_url req parsed (derive_signing_key hmac secret s) s)"
proof (cases "get_secret (access_key_id parsed)")
  case (Inl e)
  have "snd (try_scopes (local_signing_key hmac get_secret) match (access_key_id parsed) (signing_scopes_for sc) b st) = Inl e" for match sc b
    by (simp add: signing_scopes_for_def local_signing_key_def Inl)
  with Inl show ?thesis
    by (auto simp: verify_sigv4_request_def split: option.splits header.splits sum.splits)
next
  case (Inr secret)
  define f where "f s = (case secret of None \<Rightarrow> None | Some k \<Rightarrow> if k = [] then None else Some (derive_signing_key hmac k s))" for s
  have steady: "local_signing_key hmac get_secret (access_key_id parsed) s st = (st, Inr (f s))" for s st
    by (simp add: local_signing_key_def Inr f_def split: option.split)
  show ?thesis
    unfolding verify_steady [where get_key = "local_signing_key hmac get_secret" and f = f, OF steady] Inr
    by (auto simp: f_def split: option.splits)
qed

text \<open>A sequence of calls of the cache.\<close>

datatype cache_call = Remember int string "aws_signing_key list" | Lookup int string signing_scope

fun cache_step :: "cache_call \<Rightarrow> key_cache \<Rightarrow> key_cache" where
  "cache_step (Remember now key_id sks) keys = remember_signing_keys now key_id sks keys"
| "cache_step (Lookup now key_id s) keys = fst (cached_signing_key now key_id s keys)"

definition cache_run :: "cache_call list \<Rightarrow> key_cache" where
  "cache_run calls = fold cache_step calls []"

text \<open>The cache of signing keys stays within its bound: whatever is remembered and looked up, in any order and at
  any times, it has at most \<open>MAX_SIGNING_KEYS\<close> entries, one for each access key id and scope.\<close>

theorem signing_key_cache_bounded:
  "length (cache_run calls) \<le> MAX_SIGNING_KEYS \<and> distinct (map fst (cache_run calls))"
proof -
  have "cache_wf keys \<Longrightarrow> cache_wf (fold cache_step calls keys)" for keys
  proof (induction calls arbitrary: keys)
    case (Cons c calls)
    then show ?case by (cases c) (simp_all add: remember_wf cached_wf)
  qed simp
  then show ?thesis by (simp add: cache_run_def cache_wf_def)
qed

text \<open>A key the cache gives out was sent by the admin service for exactly that access key id and scope, in an
  earlier call, and the day of the scope is at most one day old. The access key id and the scope have no line feed,
  as those of a header.\<close>

theorem cached_key_was_sent:
  assumes "snd (cached_signing_key now key_id s (cache_run calls)) = Some key" and "no_feed key_id s"
  shows "(\<exists>now' sks. Remember now' key_id sks \<in> set calls \<and> sends sks s key) \<and>
    (\<exists>day. scope_day (sc_date s) = Some day \<and> now div DAY - day \<le> MAX_AGE_DAYS)"
proof -
  define sent where "sent key_id s key = (\<exists>now' sks. Remember now' key_id sks \<in> set calls \<and> sends sks s key)" for key_id s key
  have "cache_sound sent keys \<Longrightarrow> set cs \<subseteq> set calls \<Longrightarrow> cache_sound sent (fold cache_step cs keys)" for keys cs
  proof (induction cs arbitrary: keys)
    case (Cons c cs)
    have "cache_sound sent (cache_step c keys)"
    proof (cases c)
      case (Remember now' key_id' sks)
      with Cons.prems have "sent key_id' s key" if "sends sks s key" for s key using that by (auto simp: sent_def)
      with Cons.prems Remember show ?thesis by (simp add: remember_sound)
    next
      case (Lookup now' key_id' s')
      with Cons.prems show ?thesis by (simp add: cached_sound(1))
    qed
    with Cons show ?case by simp
  qed simp
  from this [of "[]" calls] have "cache_sound sent (cache_run calls)" by (simp add: cache_run_def cache_sound_def)
  from cached_sound(2) [OF this assms(1)] have fresh: "fresh_sent now sent key_id s key" .
  from fresh_sent_same [OF this assms(2)] have "sent key_id s key" .
  moreover from fresh assms(2) have "\<exists>day. scope_day (sc_date s) = Some day \<and> now div DAY - day \<le> MAX_AGE_DAYS"
    by (auto simp: fresh_sent_def dest: entry_key_inj)
  ultimately show ?thesis by (simp add: sent_def)
qed

lemma cached_key_was_sent_witness:
  "let s = \<lparr>sc_date = ''19700102'', sc_region = ''r'', sc_service = ''bedrock''\<rparr>;
       sk = \<lparr>sk_date = JStr ''19700102'', sk_region = ''r'', sk_service = ''bedrock'', sk_key = JStr (replicate 64 CHR ''a'')\<rparr>;
       calls = [Remember DAY ''AK'' [sk]]
   in snd (cached_signing_key DAY ''AK'' s (cache_run calls)) = Some (replicate 32 CHR 0xAA) \<and> no_feed ''AK'' s \<and>
      (\<exists>now' sks. Remember now' ''AK'' sks \<in> set calls \<and> sends sks s (replicate 32 CHR 0xAA))"
proof -
  let ?s = "\<lparr>sc_date = ''19700102'', sc_region = ''r'', sc_service = ''bedrock''\<rparr>"
  let ?sk = "\<lparr>sk_date = JStr ''19700102'', sk_region = ''r'', sk_service = ''bedrock'', sk_key = JStr (replicate 64 CHR ''a'')\<rparr>"
  have 1: "snd (cached_signing_key DAY ''AK'' ?s (cache_run [Remember DAY ''AK'' [?sk]])) = Some (replicate 32 CHR 0xAA)"
    by code_simp
  have 2: "no_feed ''AK'' ?s" by (simp add: no_feed_def)
  from cached_key_was_sent [OF 1 2] 1 2 show ?thesis by (simp add: Let_def)
qed

end
