(* ===== verification/Aws_Auth.thy ===== *)
theory Aws_Auth
  imports Signing_Keys
begin

text \<open>
  The authentication of AWS requests: the local credential store (\<open>services/awsCredentialsService.ts\<close>), the
  validation of an access key id (\<open>services/unifiedAwsCredentialValidationService.ts\<close>), the cache of validations
  (\<open>ValidationCache\<close> of \<open>libs/aws-token-validation/validation-token.ts\<close>) and the middleware
  (\<open>middlewares/tokenBasedAwsAuth.ts\<close>), with every early return.

  One clock stands for all reads of the time in one request. The replies of the admin service and of the shared
  validation cache are arguments (\<open>Inl\<close> is an error they throw); so is the error of loading the validation service.
  Log lines, request ids and the asynchronous usage update are not modelled.
\<close>

definition or_else :: "js \<Rightarrow> js \<Rightarrow> js" where
  "or_else a b = (if truthy a then a else b)"

section \<open>The local credential store\<close>

record aws_credential =
  cr_id :: string
  cr_access_key_id :: string
  cr_secret :: string
  cr_user_id :: string
  cr_active :: bool

definition find_aws_credential :: "aws_credential list \<Rightarrow> string \<Rightarrow> aws_credential option" where
  "find_aws_credential store key_id = List.find (\<lambda>c. cr_access_key_id c = key_id \<and> cr_active c) store"

definition get_secret_for_signature :: "aws_credential list \<Rightarrow> string \<Rightarrow> string option" where
  "get_secret_for_signature store key_id =
     (case List.find (\<lambda>c. cr_access_key_id c = key_id \<and> cr_active c) store of
        None \<Rightarrow> None
      | Some c \<Rightarrow> if cr_secret c = [] then None else Some (cr_secret c))"

fun revoke_aws_credentials :: "string \<Rightarrow> aws_credential list \<Rightarrow> aws_credential list \<times> bool" where
  "revoke_aws_credentials key_id [] = ([], False)"
| "revoke_aws_credentials key_id (c # cs) =
     (if cr_access_key_id c = key_id then (c\<lparr>cr_active := False\<rparr> # cs, True)
      else let (cs', found) = revoke_aws_credentials key_id cs in (c # cs', found))"

section \<open>The cache of validations\<close>

datatype key_source = From_Admin | From_Local

text \<open>A valid response with its source, its credential metadata, and the time it expires.\<close>

type_synonym validation_cache = "(string \<times> (key_source \<times> js) \<times> int) list"

definition VALIDATION_TTL :: int where
  "VALIDATION_TTL = 300000"

definition vc_set :: "int \<Rightarrow> string \<Rightarrow> key_source \<times> js \<Rightarrow> validation_cache \<Rightarrow> validation_cache" where
  "vc_set now k v cache = AList.update k (v, now + VALIDATION_TTL) cache"

definition vc_get :: "int \<Rightarrow> string \<Rightarrow> validation_cache \<Rightarrow> validation_cache \<times> (key_source \<times> js) option" where
  "vc_get now k cache =
     (case map_of cache k of
        None \<Rightarrow> (AList.delete k cache, None)
      | Some (v, expires) \<Rightarrow> if expires < now then (AList.delete k cache, None) else (cache, Some v))"

definition vc_cleanup :: "int \<Rightarrow> validation_cache \<Rightarrow> validation_cache" where
  "vc_cleanup now cache = filter (\<lambda>(k, v, expires). \<not> expires < now) cache"

definition create_cache_key :: "string \<Rightarrow> string \<Rightarrow> string" where
  "create_cache_key key_id hash = ''aws_validation:'' @ key_id @ '':'' @ take 16 hash"

section \<open>The validation of an access key id\<close>

datatype admin_reply = Granted js "aws_signing_key list" | Refused "string option"

record aws_env =
  standalone :: bool
  unified_enabled :: bool
  unified_fallback :: bool
  auth_fallback :: bool
  unified_load_error :: "string option"
  local_store :: "aws_credential list"
  clock_text :: string
  shared_lookup :: "string \<Rightarrow> string + js"
  admin_validate :: "string \<Rightarrow> signing_scope list option \<Rightarrow> string + admin_reply"

datatype unified_result = Validated key_source js | Unvalidated string string "string option"

text \<open>\<open>validateWithAdminService\<close>: the keys of a granted reply go to the key cache, its data to the caller.\<close>

definition validate_with_admin ::
  "aws_env \<Rightarrow> int \<Rightarrow> string \<Rightarrow> signing_scope list option \<Rightarrow> key_cache \<Rightarrow> key_cache \<times> (string + js + string option)" where
  "validate_with_admin env now key_id scopes keys =
     (case admin_validate env key_id scopes of
        Inl e \<Rightarrow> (keys, Inl e)
      | Inr (Granted data sks) \<Rightarrow> (remember_signing_keys now key_id sks keys, Inr (Inl data))
      | Inr (Refused cid) \<Rightarrow> (keys, Inr (Inr cid)))"

definition fetch_keys :: "aws_env \<Rightarrow> string \<Rightarrow> signing_scope list \<Rightarrow> string + aws_signing_key list option" where
  "fetch_keys env key_id scopes =
     (case admin_validate env key_id (Some scopes) of
        Inl e \<Rightarrow> Inl e
      | Inr (Granted data sks) \<Rightarrow> Inr (Some sks)
      | Inr (Refused cid) \<Rightarrow> Inr None)"

definition validate_with_local :: "aws_env \<Rightarrow> string \<Rightarrow> js option" where
  "validate_with_local env key_id =
     (case find_aws_credential (local_store env) key_id of
        None \<Rightarrow> None
      | Some c \<Rightarrow> Some (JObj
          [(''credentialId'', or_else (JStr (cr_id c)) (JStr (''local-'' @ key_id))),
           (''permissions'', JArr [JStr ''bedrock:InvokeModel'']),
           (''region'', JStr ''us-east-1''),
           (''sapAiRegion'', JStr ''us-east-1''),
           (''userId'', or_else (JStr (cr_user_id c)) (JStr ''local-user'')),
           (''rateLimits'', JObj [(''requestsPerMinute'', JNum 100), (''requestsPerHour'', JNum 1000), (''requestsPerDay'', JNum 10000)]),
           (''metadata'', JObj [(''lastUsed'', JStr (clock_text env)), (''isActive'', JBool True)])]))"

definition cached_validation :: "aws_env \<Rightarrow> string \<Rightarrow> (js \<times> key_source) option" where
  "cached_validation env key_id =
     (case shared_lookup env key_id of
        Inl e \<Rightarrow> None
      | Inr r \<Rightarrow>
          if truthy (jget r ''valid'') \<and> jget r ''authType'' = JStr ''aws_credential''
          then Some (jget r ''data'', if jget r ''keySource'' = JStr ''local'' then From_Local else From_Admin)
          else None)"

text \<open>\<open>validateAwsCredential\<close>. The last component is what \<open>cacheValidationResult\<close> stores in the shared cache.\<close>

definition validate_aws_credential ::
  "aws_env \<Rightarrow> int \<Rightarrow> string \<Rightarrow> signing_scope list option \<Rightarrow> key_cache \<Rightarrow>
   key_cache \<times> unified_result \<times> (js \<times> key_source \<times> string) option" where
  "validate_aws_credential env now key_id scopes keys =
     (let failed = (\<lambda>cid. Unvalidated ''validation_failed'' ''AWS credential validation failed'' cid) in
      if standalone env
      then (keys,
            case validate_with_local env key_id of
              Some data \<Rightarrow> Validated From_Local data
            | None \<Rightarrow> Unvalidated ''invalid_aws_credential'' ''AWS credential validation failed'' None,
            None)
      else case (if unified_enabled env then cached_validation env key_id else None) of
        Some (data, source) \<Rightarrow> (keys, Validated source data, None)
      | None \<Rightarrow>
          if \<not> unified_enabled env then (keys, failed None, None)
          else (case validate_with_admin env now key_id scopes keys of
            (keys', Inr (Inl data)) \<Rightarrow> (keys', Validated From_Admin data, Some (data, From_Admin, ''admin_service''))
          | (keys', Inr (Inr cid)) \<Rightarrow> (keys', failed cid, None)
          | (keys', Inl e) \<Rightarrow>
              (case (if unified_fallback env then validate_with_local env key_id else None) of
                 Some data \<Rightarrow> (keys', Validated From_Local data, Some (data, From_Local, ''fallback''))
               | None \<Rightarrow> (keys', failed None, None))))"

text \<open>\<open>resolveCredentialId\<close>, for the event of a request refused before its signature is checked.\<close>

definition resolve_credential_id :: "aws_env \<Rightarrow> int \<Rightarrow> string \<Rightarrow> key_cache \<Rightarrow> key_cache \<times> js" where
  "resolve_credential_id env now key_id keys =
     (case validate_aws_credential env now key_id None keys of
        (keys', Validated source data, stored) \<Rightarrow> (keys', jget data ''credentialId'')
      | (keys', Unvalidated code message cid, stored) \<Rightarrow> (keys', case cid of None \<Rightarrow> JUndef | Some i \<Rightarrow> JStr i))"

section \<open>The middleware\<close>

record aws_state =
  as_validations :: validation_cache
  as_keys :: key_cache

text \<open>\<open>next()\<close> without and with an identity (\<open>req.awsAuth\<close>, and whether the validation was cached), or a refusal.\<close>

datatype auth_outcome = Pass_Through | Authenticated js bool | Refuse nat string string

record failed_auth =
  fa_access_key :: string
  fa_reason :: string
  fa_status :: nat
  fa_credential :: js

definition METADATA_FIELDS :: "string list" where
  "METADATA_FIELDS = [''region'', ''sapAiRegion'', ''userId'', ''rateLimits'', ''entitlement'', ''user'', ''team'', ''teamToolPolicy'']"

text \<open>The credential metadata of a unified result and of the local fallback.\<close>

definition metadata_of :: "js \<Rightarrow> js" where
  "metadata_of data =
     JObj ((''credentialId'', jget data ''credentialId'') # (''permissions'', or_else (jget data ''permissions'') (JArr [])) #
       map (\<lambda>k. (k, jget data k)) METADATA_FIELDS)"

datatype local_fallback = Fallback_Valid js | Fallback_Error string string

definition fallback_local_validation :: "aws_env \<Rightarrow> string \<Rightarrow> local_fallback" where
  "fallback_local_validation env key_id =
     (case find_aws_credential (local_store env) key_id of
        None \<Rightarrow> Fallback_Error ''CREDENTIAL_NOT_FOUND'' ''AWS credential not found''
      | Some c \<Rightarrow> Fallback_Valid (JObj
          [(''credentialId'', JStr (cr_id c)),
           (''permissions'', JArr [JObj [(''service'', JStr ''bedrock''), (''action'', JStr ''bedrock:InvokeModel''),
                                      (''resource'', JStr ''*''), (''effect'', JStr ''Allow'')]]),
           (''region'', JStr ''us-east-1''), (''sapAiRegion'', JStr ''us-east-1''),
           (''userId'', or_else (JStr (cr_user_id c)) (JStr ''local-fallback'')),
           (''rateLimits'', JObj [(''requestsPerMinute'', JNum 60), (''requestsPerHour'', JNum 1000), (''requestsPerDay'', JNum 10000)])]))"

definition aws_auth_of :: "string \<Rightarrow> js \<Rightarrow> js" where
  "aws_auth_of key_id meta =
     JObj ([(''valid'', JBool True), (''accessKeyId'', JStr key_id),
            (''userId'', or_else (jget meta ''userId'') (JStr ''unknown'')),
            (''permissions'', or_else (jget meta ''permissions'') (JArr [])),
            (''region'', jget meta ''region''), (''credentialId'', jget meta ''credentialId'')] @
           map (\<lambda>k. (k, jget meta k)) [''entitlement'', ''user'', ''team'', ''teamToolPolicy'', ''rateLimits''])"

text \<open>The step of \<open>authenticate\<close> that validates the credential: a cached validation, the unified service, or, when that
  service cannot be loaded, the local fallback or 503. \<open>Inl\<close> is an error to answer, with the credential the admin
  service names for the event when one is emitted.\<close>

definition validate_credential ::
  "(string \<Rightarrow> string) \<Rightarrow> aws_env \<Rightarrow> int \<Rightarrow> sigv4_header \<Rightarrow> aws_state \<Rightarrow>
   aws_state \<times> ((nat \<times> string \<times> string \<times> js option) + (key_source \<times> js \<times> bool))" where
  "validate_credential sha256 env now parsed st =
     (let key_id = access_key_id parsed;
          k = create_cache_key key_id (hex (sha256 (signature parsed)));
          (validations, found) = vc_get now k (as_validations st);
          st = st\<lparr>as_validations := validations\<rparr>
      in case found of
           Some (source, meta) \<Rightarrow> (st, Inr (source, meta, True))
         | None \<Rightarrow>
             (case unified_load_error env of
                None \<Rightarrow>
                  (case validate_aws_credential env now key_id (Some (signing_scopes_for (hd_scope parsed))) (as_keys st) of
                     (keys, Validated source data, stored) \<Rightarrow>
                       if truthy data
                       then (st\<lparr>as_keys := keys, as_validations := vc_set now k (source, metadata_of data) (as_validations st)\<rparr>,
                             Inr (source, metadata_of data, False))
                       else (st\<lparr>as_keys := keys\<rparr>, Inl (403, ''VALIDATION_FAILED'', ''AWS credential validation failed'', Some JUndef))
                   | (keys, Unvalidated code message cid, stored) \<Rightarrow>
                       (st\<lparr>as_keys := keys\<rparr>,
                        Inl (403, code, message, Some (case cid of None \<Rightarrow> JUndef | Some i \<Rightarrow> JStr i))))
              | Some e \<Rightarrow>
                  if auth_fallback env
                  then (st, case fallback_local_validation env key_id of
                              Fallback_Valid meta \<Rightarrow> Inr (From_Local, meta, False)
                            | Fallback_Error code message \<Rightarrow> Inl (403, code, message, Some JUndef))
                  else (st, Inl (503, ''VALIDATION_SERVICE_UNAVAILABLE'', ''Credential validation service unavailable'', None))))"

definition local_secret :: "aws_env \<Rightarrow> string \<Rightarrow> string + string option" where
  "local_secret env key_id = Inr (get_secret_for_signature (local_store env) key_id)"

text \<open>\<open>signingKeyProviders[validationResult.keySource]\<close>.\<close>

definition key_provider_of ::
  "(string \<Rightarrow> string \<Rightarrow> string) \<Rightarrow> aws_env \<Rightarrow> int \<Rightarrow> key_source \<Rightarrow> string \<Rightarrow> signing_scope \<Rightarrow> key_cache \<Rightarrow>
   key_cache \<times> (string + string option)" where
  "key_provider_of hmac env now source =
     (case source of
        From_Local \<Rightarrow> local_signing_key hmac (local_secret env)
      | From_Admin \<Rightarrow> admin_signing_key now (fetch_keys env))"

definition header_text :: "header option \<Rightarrow> string option" where
  "header_text h = (case h of Some (One s) \<Rightarrow> Some s | _ \<Rightarrow> None)"

definition authenticate ::
  "(string \<Rightarrow> string) \<Rightarrow> (string \<Rightarrow> string \<Rightarrow> string) \<Rightarrow> (string \<Rightarrow> string + string \<times> string) \<Rightarrow> aws_env \<Rightarrow> int \<Rightarrow>
   sigv4_request \<Rightarrow> aws_state \<Rightarrow> aws_state \<times> auth_outcome \<times> failed_auth list" where
  "authenticate sha256 hmac parse_url env now req st =
     (let authorization = header_text (rq_headers req ''authorization'');
          event = (\<lambda>parsed reason status cid. \<lparr>fa_access_key = access_key_id parsed, fa_reason = reason, fa_status = status, fa_credential = cid\<rparr>)
      in if \<not> is_aws_sigv4_request authorization then (st, Pass_Through, [])
      else case parse_sigv4_auth_header authorization of
        None \<Rightarrow> (st, Refuse 401 ''INVALID_AUTH_HEADER'' ''Invalid authorization header format'', [])
      | Some parsed \<Rightarrow>
          if \<not> is_amz_date_fresh (rq_headers req ''x-amz-date'') now
          then (let reason = ''Request date missing or outside the allowed clock skew'';
                    (keys, cid) = (if unified_load_error env = None
                                  then resolve_credential_id env now (access_key_id parsed) (as_keys st) else (as_keys st, JUndef))
                in (st\<lparr>as_keys := keys\<rparr>, Refuse 401 ''INVALID_REQUEST_DATE'' reason, [event parsed reason 401 cid]))
          else (case validate_credential sha256 env now parsed st of
            (st', Inl (status, code, message, cid)) \<Rightarrow>
              (st', Refuse status code message, (case cid of None \<Rightarrow> [] | Some i \<Rightarrow> [event parsed message status i]))
          | (st', Inr (source, meta, hit)) \<Rightarrow>
              (case verify_sigv4_request sha256 hmac parse_url (key_provider_of hmac env now source) req parsed (as_keys st') of
                 (keys, Inl e) \<Rightarrow> (st'\<lparr>as_keys := keys\<rparr>, Refuse 500 ''INTERNAL_ERROR'' ''Internal authentication error'', [])
               | (keys, Inr False) \<Rightarrow>
                   (st'\<lparr>as_keys := keys\<rparr>, Refuse 403 ''INVALID_SIGNATURE'' ''Invalid AWS signature'',
                    [event parsed ''Invalid AWS signature'' 403 (jget meta ''credentialId'')])
               | (keys, Inr True) \<Rightarrow>
                   (st'\<lparr>as_keys := keys\<rparr>, Authenticated (aws_auth_of (access_key_id parsed) meta) hit, []))))"

section \<open>Where the keys of accepted requests come from\<close>

text \<open>The keys of the cache, sound for the keys a relation says were sent; the relation has all replies of an
  environment.\<close>

definition keys_ok :: "(string \<Rightarrow> signing_scope \<Rightarrow> string \<Rightarrow> bool) \<Rightarrow> key_cache \<Rightarrow> bool" where
  "keys_ok sent keys = (cache_wf keys \<and> cache_sound sent keys)"

definition has_replies :: "aws_env \<Rightarrow> (string \<Rightarrow> signing_scope \<Rightarrow> string \<Rightarrow> bool) \<Rightarrow> bool" where
  "has_replies env sent \<longleftrightarrow>
     (\<forall>key_id scopes data sks s key. admin_validate env key_id scopes = Inr (Granted data sks) \<longrightarrow> sends sks s key \<longrightarrow> sent key_id s key)"

lemma remember_ok:
  assumes "has_replies env sent" "keys_ok sent keys" "admin_validate env key_id scopes = Inr (Granted data sks)"
  shows "keys_ok sent (remember_signing_keys now key_id sks keys)"
  using assms by (auto simp: keys_ok_def has_replies_def intro: remember_wf remember_sound)

lemma validate_ok:
  assumes "has_replies env sent" "keys_ok sent keys"
  shows "keys_ok sent (fst (validate_aws_credential env now key_id scopes keys))"
  using assms remember_ok [OF assms, of key_id scopes]
  by (auto simp: validate_aws_credential_def validate_with_admin_def Let_def
      split: prod.splits sum.splits option.splits admin_reply.splits)

lemma resolve_ok:
  assumes "has_replies env sent" "keys_ok sent keys"
  shows "keys_ok sent (fst (resolve_credential_id env now key_id keys))"
  using validate_ok [OF assms, of now key_id None]
  by (auto simp: resolve_credential_id_def split: prod.split unified_result.split)

lemma validate_credential_ok:
  assumes "has_replies env sent" "keys_ok sent (as_keys st)"
  shows "keys_ok sent (as_keys (fst (validate_credential sha256 env now parsed st)))"
  using assms(2) validate_ok [OF assms, of now "access_key_id parsed" "Some (signing_scopes_for (hd_scope parsed))"]
  by (auto simp: validate_credential_def Let_def split: prod.splits option.splits unified_result.splits)

lemma fetch_keys_granted:
  "fetch_keys env key_id scopes = Inr (Some sks) \<Longrightarrow> \<exists>data. admin_validate env key_id (Some scopes) = Inr (Granted data sks)"
  by (auto simp: fetch_keys_def split: sum.splits admin_reply.splits)

lemma sent_now_absorb: "has_replies env sent \<Longrightarrow> sent_now (fetch_keys env) sent = sent"
  by (auto simp: sent_now_def has_replies_def fun_eq_iff dest!: fetch_keys_granted)

lemma verify_ok:
  assumes "has_replies env sent" "keys_ok sent keys"
  shows "keys_ok sent (fst (verify_sigv4_request sha256 hmac parse_url (key_provider_of hmac env now source) req parsed keys))"
proof (cases source)
  case From_Admin
  with assms admin_keys.verify_inv [where fetch = "fetch_keys env" and sent = sent and now = now] show ?thesis
    by (simp add: key_provider_of_def keys_ok_def sent_now_absorb)
next
  case From_Local
  with assms local_keys.verify_inv [where P = "keys_ok sent"] show ?thesis by (simp add: key_provider_of_def)
qed

lemma authenticate_ok:
  assumes "has_replies env sent" "keys_ok sent (as_keys st)"
  shows "keys_ok sent (as_keys (fst (authenticate sha256 hmac parse_url env now req st)))"
proof -
  note validated = validate_credential_ok [OF assms, of sha256 now]
  note resolved = resolve_ok [OF assms, of now]
  show ?thesis
  proof (cases "is_amz_date_fresh (rq_headers req ''x-amz-date'') now")
    case False
    with assms(2) resolved show ?thesis
      by (auto simp: authenticate_def Let_def split: option.split prod.split) (metis fst_conv)
  next
    case True
    have "keys_ok sent (fst (verify_sigv4_request sha256 hmac parse_url (key_provider_of hmac env now source) req parsed (as_keys st')))"
      if "validate_credential sha256 env now parsed st = (st', r)" for st' r source parsed
      using verify_ok [OF assms(1)] validated [of parsed] that by simp
    with True assms(2) validated show ?thesis
      by (auto simp: authenticate_def Let_def split: option.split prod.split sum.split bool.split) (metis fst_conv)+
  qed
qed

text \<open>What an accepted request has.\<close>

definition genuine_key :: "aws_env \<Rightarrow> (string \<Rightarrow> string \<Rightarrow> string) \<Rightarrow> (string \<Rightarrow> signing_scope \<Rightarrow> string \<Rightarrow> bool) \<Rightarrow>
    string \<Rightarrow> signing_scope \<Rightarrow> string \<Rightarrow> bool" where
  "genuine_key env hmac sent key_id s key \<longleftrightarrow>
     (\<exists>secret. get_secret_for_signature (local_store env) key_id = Some secret \<and> key = derive_signing_key hmac secret s) \<or>
     sent key_id s key"

lemma authenticated_signed:
  assumes env: "has_replies env sent" and keys: "keys_ok sent (as_keys st)"
    and acc: "authenticate sha256 hmac parse_url env now req st = (st', Authenticated auth hit, events)"
  obtains parsed s key where "parse_sigv4_auth_header (header_text (rq_headers req ''authorization'')) = Some parsed"
    "is_amz_date_fresh (rq_headers req ''x-amz-date'') now" "jget auth ''accessKeyId'' = JStr (access_key_id parsed)"
    "signed_under sha256 hmac parse_url req parsed key s" 
    "no_feed (access_key_id parsed) s \<longrightarrow> genuine_key env hmac sent (access_key_id parsed) s key"
proof -
  obtain parsed st1 source meta where p: "parse_sigv4_auth_header (header_text (rq_headers req ''authorization'')) = Some parsed"
      "is_amz_date_fresh (rq_headers req ''x-amz-date'') now"
      "validate_credential sha256 env now parsed st = (st1, Inr (source, meta, hit))"
      "snd (verify_sigv4_request sha256 hmac parse_url (key_provider_of hmac env now source) req parsed (as_keys st1)) = Inr True"
      "auth = aws_auth_of (access_key_id parsed) meta"
    using acc by (auto simp: authenticate_def Let_def split: if_splits option.splits prod.splits sum.splits bool.splits)
  have ok: "keys_ok sent (as_keys st1)"
    using validate_credential_ok [OF env keys, of sha256 now parsed] p(3) by simp
  have "\<exists>s key. signed_under sha256 hmac parse_url req parsed key s \<and>
      (no_feed (access_key_id parsed) s \<longrightarrow> genuine_key env hmac sent (access_key_id parsed) s key)"
  proof (cases source)
    case From_Local
    with p(4) local_keys.verified_signed [where P = "\<lambda>_. True", OF TrueI] show ?thesis
      by (fastforce simp: key_provider_of_def genuine_key_def local_secret_def)
  next
    case From_Admin
    with p(4) ok env have "\<exists>s key. fresh_sent now sent (access_key_id parsed) s key \<and> signed_under sha256 hmac parse_url req parsed key s"
      using admin_keys.verified_signed [where fetch = "fetch_keys env" and sent = sent and now = now]
      by (simp add: key_provider_of_def keys_ok_def sent_now_absorb)
    then show ?thesis by (auto simp: genuine_key_def dest: fresh_sent_same)
  qed
  with p that show ?thesis by (auto simp: aws_auth_of_def)
qed

section \<open>The parts of a header are parts of its text\<close>

lemma split_char_subset: "w \<in> set (split_char c s) \<Longrightarrow> set w \<subseteq> set s"
proof (induction s arbitrary: w)
  case (Cons x xs)
  then show ?case by (auto split: if_splits list.splits) (metis insertE list.set(2) set_ConsD subsetD)+
qed simp

lemma dropWhile_subset: "set (dropWhile P s) \<subseteq> set s" and takeWhile_subset: "set (takeWhile P s) \<subseteq> set s"
  by (auto dest: set_dropWhileD set_takeWhileD)

lemma trim_subset: "set (trim s) \<subseteq> set s"
  using dropWhile_subset [of is_space "rev (dropWhile is_space s)"] dropWhile_subset [of is_space s]
  by (auto simp: trim_def trim_left_def)

lemma key_values_subset: "(k, v) \<in> set (key_values s) \<Longrightarrow> set v \<subseteq> set s"
proof (induction s rule: key_values.induct)
  case (1 s)
  show ?case
  proof (cases "dropWhile (\<lambda>c. \<not> is_word c) s")
    case Nil
    with "1.prems" show ?thesis by (simp add: key_values.simps [of s])
  next
    case (Cons c cs)
    let ?rest = "dropWhile is_word (c # cs)" and ?v = "takeWhile (\<lambda>c. c \<noteq> CHR '','') (drop 1 (dropWhile is_word (c # cs)))"
    have rest: "set ?rest \<subseteq> set s"
      using dropWhile_subset [of is_word "c # cs"] dropWhile_subset [of "\<lambda>c. \<not> is_word c" s] unfolding Cons by (rule order_trans)
    have "set (trim ?v) \<subseteq> set ?v" by (rule trim_subset)
    also have "\<dots> \<subseteq> set (drop 1 ?rest)" by (rule takeWhile_subset)
    also have "\<dots> \<subseteq> set ?rest" by (rule set_drop_subset)
    also note rest
    finally have v: "set (trim ?v) \<subseteq> set s" .
    show ?thesis
    proof (cases "prefix ''='' ?rest \<and> ?v \<noteq> []")
      case True
      then have "key_values s = (takeWhile is_word (c # cs), trim ?v) # key_values (drop (length ?v) (drop 1 ?rest))"
        using Cons by (simp add: key_values.simps [of s] Let_def)
      with "1.prems" consider "v = trim ?v" | "(k, v) \<in> set (key_values (drop (length ?v) (drop 1 ?rest)))"
        by (metis Pair_inject set_ConsD)
      then show ?thesis
      proof cases
        case 1
        with v show ?thesis by (simp only:)
      next
        case 2
        have "set (drop (length ?v) (drop 1 ?rest)) \<subseteq> set ?rest"
          using set_drop_subset set_drop_subset by (rule order_trans)
        with "1.IH"(1) [OF Cons refl refl True 2] rest show ?thesis by (meson order_trans)
      qed
    next
      case False
      then have "key_values s = key_values ?rest"
        unfolding key_values.simps [of s] Cons list.case Let_def by (rule if_not_P)
      with "1.prems" "1.IH"(2) [OF Cons refl refl False] rest show ?thesis by auto
    qed
  qed
qed

lemma part_subset: "part k (key_values s) = Some v \<Longrightarrow> set v \<subseteq> set s"
  by (auto simp: part_def split: option.splits if_splits dest!: map_of_SomeD key_values_subset)

lemma five_parts:
  "(case xs of [a, b, c, d, e] \<Rightarrow> if e = x then Some (f a b c d) else None | _ \<Rightarrow> None) = Some y \<Longrightarrow>
   \<exists>a b c d. xs = [a, b, c, d, x] \<and> y = f a b c d"
  by (auto split: list.splits if_splits)

lemma parsed_no_feed:
  assumes p: "parse_sigv4_auth_header (Some h) = Some parsed" and h: "CHR 0x0A \<notin> set h" and s: "s \<in> set (signing_scopes_for (hd_scope parsed))"
  shows "no_feed (access_key_id parsed) s"
proof -
  obtain credential key date region service where c: "part ''Credential'' (key_values (drop (length ALGORITHM + 1) h)) = Some credential"
      "split_char CHR ''/'' credential = [key, date, region, service, ''aws4_request'']"
      "access_key_id parsed = key" "hd_scope parsed = \<lparr>sc_date = date, sc_region = region, sc_service = service\<rparr>"
    using p unfolding parse_sigv4_auth_header_def Let_def
    by (simp split: if_split_asm option.split_asm) (drule five_parts, auto)
  have "set credential \<subseteq> set h"
    using part_subset [OF c(1)] set_drop_subset [of "length ALGORITHM + 1" h] by blast
  with h have nf: "CHR 0x0A \<notin> set w" if "w \<in> set [key, date, region, service, ''aws4_request'']" for w
    using split_char_subset [of w "CHR ''/''" credential] c(2) that by auto
  have "sc_date s = date" "sc_region s = region" "sc_service s = service \<or> sc_service s = ''bedrock'' \<or> sc_service s = ''bedrock-runtime''"
    using s c(4) by (auto simp: signing_scopes_for_def split: if_splits)
  moreover have "CHR 0x0A \<notin> set ''bedrock''" "CHR 0x0A \<notin> set ''bedrock-runtime''" by simp_all
  ultimately show ?thesis
    using nf [of key] nf [of date] nf [of region] nf [of service] c(3) unfolding no_feed_def by (metis list.pred_inject(1,2) list.set_intros)
qed

section \<open>Properties\<close>

text \<open>A sequence of requests, each under its own environment and clock.\<close>

type_synonym auth_run = "(aws_env \<times> int \<times> sigv4_request) list"

definition auth_state ::
  "(string \<Rightarrow> string) \<Rightarrow> (string \<Rightarrow> string \<Rightarrow> string) \<Rightarrow> (string \<Rightarrow> string + string \<times> string) \<Rightarrow> auth_run \<Rightarrow> aws_state" where
  "auth_state sha256 hmac parse_url run =
     foldl (\<lambda>st (env, now, req). fst (authenticate sha256 hmac parse_url env now req st)) \<lparr>as_validations = [], as_keys = []\<rparr> run"

text \<open>The keys the admin service sent in any of the requests.\<close>

definition sent_in :: "auth_run \<Rightarrow> string \<Rightarrow> signing_scope \<Rightarrow> string \<Rightarrow> bool" where
  "sent_in run key_id s key \<longleftrightarrow>
     (\<exists>(env, now, req) \<in> set run. \<exists>scopes data sks. admin_validate env key_id scopes = Inr (Granted data sks) \<and> sends sks s key)"

lemma has_replies_sent_in: "(env, now, req) \<in> set run \<Longrightarrow> has_replies env (sent_in run)"
  unfolding has_replies_def sent_in_def by blast

lemma auth_state_ok: "set run \<subseteq> set run' \<Longrightarrow> keys_ok (sent_in run') (as_keys (auth_state sha256 hmac parse_url run))"
proof (induction run rule: rev_induct)
  case Nil
  show ?case by (simp add: auth_state_def keys_ok_def cache_wf_def cache_sound_def MAX_SIGNING_KEYS_def)
next
  case (snoc r run)
  obtain env now req where r: "r = (env, now, req)" by (cases r)
  with snoc.prems have "has_replies env (sent_in run')" by (intro has_replies_sent_in) auto
  with snoc r show ?case by (simp add: auth_state_def authenticate_ok)
qed

lemma run_authenticated_signed:
  assumes acc: "authenticate sha256 hmac parse_url env now req (auth_state sha256 hmac parse_url before) = (st, Authenticated auth hit, events)"
    and h: "rq_headers req ''authorization'' = Some (One h)" "CHR 0x0A \<notin> set h"
  shows "\<exists>parsed s key. parse_sigv4_auth_header (Some h) = Some parsed \<and>
    jget auth ''accessKeyId'' = JStr (access_key_id parsed) \<and> is_amz_date_fresh (rq_headers req ''x-amz-date'') now \<and>
    signed_under sha256 hmac parse_url req parsed key s \<and>
    genuine_key env hmac (sent_in (before @ [(env, now, req)])) (access_key_id parsed) s key"
proof -
  let ?run = "before @ [(env, now, req)]"
  have ht: "header_text (rq_headers req ''authorization'') = Some h" by (simp add: header_text_def h)
  have env: "has_replies env (sent_in ?run)" by (rule has_replies_sent_in [of env now req]) simp
  have keys: "keys_ok (sent_in ?run) (as_keys (auth_state sha256 hmac parse_url before))" by (rule auth_state_ok) auto
  obtain parsed s key where p: "parse_sigv4_auth_header (Some h) = Some parsed"
      "is_amz_date_fresh (rq_headers req ''x-amz-date'') now" "jget auth ''accessKeyId'' = JStr (access_key_id parsed)"
      "signed_under sha256 hmac parse_url req parsed key s"
      "no_feed (access_key_id parsed) s \<longrightarrow> genuine_key env hmac (sent_in ?run) (access_key_id parsed) s key"
    using authenticated_signed [OF env keys acc, unfolded ht] by blast
  moreover have "no_feed (access_key_id parsed) s"
    using p(4) by (intro parsed_no_feed [OF p(1) h(2)]) (auto simp: signed_under_def)
  ultimately show ?thesis by blast
qed

text \<open>A request under the local store of one credential.\<close>

definition EXAMPLE_NOW :: int where
  "EXAMPLE_NOW = 1767225600000"

definition example_env :: "bool \<Rightarrow> aws_credential list \<Rightarrow> aws_env" where
  "example_env alone store =
     \<lparr>standalone = alone, unified_enabled = True, unified_fallback = False, auth_fallback = True, unified_load_error = None,
      local_store = store, clock_text = [], shared_lookup = (\<lambda>_. Inr JNull), admin_validate = (\<lambda>_ _. Inl ''connect ECONNREFUSED'')\<rparr>"

definition example_credential :: aws_credential where
  "example_credential = \<lparr>cr_id = ''1'', cr_access_key_id = ''AK'', cr_secret = ''s'', cr_user_id = ''u'', cr_active = True\<rparr>"

definition signed_example :: "(string \<times> header) list \<Rightarrow> sigv4_request" where
  "signed_example more_headers = example_request ((''authorization'', One example_authorization) # more_headers)"

lemma signed_example_headers [simp]:
  "rq_headers (signed_example more_headers) ''authorization'' = Some (One example_authorization)"
  "rq_headers (signed_example more_headers) ''x-amz-date'' = Some (One EXAMPLE_DATE)"
  "rq_method (signed_example more_headers) = ''POST''"
  by (simp_all add: signed_example_def example_request_def)

lemma example_fresh: "is_amz_date_fresh (Some (One EXAMPLE_DATE)) EXAMPLE_NOW"
  by code_simp

lemma example_authorization_plain: "CHR 0x0A \<notin> set example_authorization" "is_aws_sigv4_request (Some example_authorization)"
  by (simp_all add: example_authorization_def ALGORITHM_def scope_line_def example_scope_def example_signature_def is_aws_sigv4_request_def)

lemma example_authenticates:
  assumes "map_of more_headers ''x-amz-content-sha256'' = None"
  shows "\<exists>st auth. authenticate id (\<lambda>k m. m) example_url (example_env True [example_credential]) EXAMPLE_NOW (signed_example more_headers)
    (auth_state id (\<lambda>k m. m) example_url []) = (st, Authenticated auth False, [])"
proof -
  let ?env = "example_env True [example_credential]" and ?req = "signed_example more_headers"
  let ?st = "auth_state id (\<lambda>k m. m) example_url []"
  have "find_aws_credential (local_store ?env) ''AK'' = Some example_credential"
    by (simp add: find_aws_credential_def example_env_def example_credential_def)
  then obtain data where data: "validate_with_local ?env ''AK'' = Some (JObj data)" by (simp add: validate_with_local_def)
  have "validate_aws_credential ?env EXAMPLE_NOW ''AK'' scopes keys = (keys, Validated From_Local (JObj data), None)" for scopes keys
    using data by (simp add: validate_aws_credential_def example_env_def)
  then obtain st' meta where v: "validate_credential id ?env EXAMPLE_NOW example_header ?st = (st', Inr (From_Local, meta, False))"
    by (simp add: validate_credential_def auth_state_def vc_get_def example_header_def example_env_def)
  have f: "key_provider_of (\<lambda>k m. m) ?env EXAMPLE_NOW From_Local (access_key_id example_header) s keys = (keys, Inr (Some ''aws4_request''))" for s keys
    by (simp add: key_provider_of_def local_signing_key_def local_secret_def get_secret_for_signature_def example_env_def
        example_credential_def example_header_def derive_signing_key_def)
  have "snd (verify_sigv4_request id (\<lambda>k m. m) example_url (key_provider_of (\<lambda>k m. m) ?env EXAMPLE_NOW From_Local) ?req example_header (as_keys st')) = Inr True"
    unfolding verify_steady [where get_key = "key_provider_of (\<lambda>k m. m) ?env EXAMPLE_NOW From_Local", OF f] signed_example_def
    using example_signed [of "(''authorization'', One example_authorization) # more_headers"] assms by auto
  then obtain keys where "verify_sigv4_request id (\<lambda>k m. m) example_url (key_provider_of (\<lambda>k m. m) ?env EXAMPLE_NOW From_Local) ?req example_header (as_keys st') = (keys, Inr True)"
    by (metis prod.collapse)
  with v example_fresh example_parsed example_authorization_plain(2) show ?thesis
    by (simp add: authenticate_def header_text_def Let_def)
qed

text \<open>C29. Only signed requests are authenticated. After any sequence of requests, a request that passes with an
  identity has a well-formed header, a date at most 15 minutes off, and the signature of one of its variants, under the
  key of the access key id and the scope: derived from the secret of an active credential of the local store, or sent
  by the admin service for that access key id, now or in an earlier request. A cached validation never replaces the
  signature. The header has no line feed, as HTTP guarantees.\<close>

theorem authenticated_requests_signed:
  assumes "authenticate sha256 hmac parse_url env now req (auth_state sha256 hmac parse_url before) = (st, Authenticated auth hit, events)"
    and "rq_headers req ''authorization'' = Some (One h)" "CHR 0x0A \<notin> set h"
  shows "\<exists>parsed s key. parse_sigv4_auth_header (Some h) = Some parsed \<and>
    jget auth ''accessKeyId'' = JStr (access_key_id parsed) \<and> is_amz_date_fresh (rq_headers req ''x-amz-date'') now \<and>
    signed_under sha256 hmac parse_url req parsed key s \<and>
    ((\<exists>secret. get_secret_for_signature (local_store env) (access_key_id parsed) = Some secret \<and>
        key = derive_signing_key hmac secret s) \<or>
     (\<exists>(env', now', req') \<in> set (before @ [(env, now, req)]). \<exists>scopes data sks.
        admin_validate env' (access_key_id parsed) scopes = Inr (Granted data sks) \<and> sends sks s key))"
  using run_authenticated_signed [OF assms] unfolding genuine_key_def sent_in_def by blast

lemma authenticated_requests_signed_witness:
  "\<exists>st auth. authenticate id (\<lambda>k m. m) example_url (example_env True [example_credential]) EXAMPLE_NOW (signed_example [])
      (auth_state id (\<lambda>k m. m) example_url []) = (st, Authenticated auth False, []) \<and>
    jget auth ''accessKeyId'' = JStr ''AK'' \<and>
    (\<exists>key s. signed_under id (\<lambda>k m. m) example_url (signed_example []) example_header key s)"
proof -
  obtain st auth where acc: "authenticate id (\<lambda>k m. m) example_url (example_env True [example_credential]) EXAMPLE_NOW (signed_example [])
      (auth_state id (\<lambda>k m. m) example_url []) = (st, Authenticated auth False, [])"
    using example_authenticates [of "[]"] by auto
  have "\<exists>parsed s key. parse_sigv4_auth_header (Some example_authorization) = Some parsed \<and> jget auth ''accessKeyId'' = JStr (access_key_id parsed) \<and>
      signed_under id (\<lambda>k m. m) example_url (signed_example []) parsed key s"
    using authenticated_requests_signed [OF acc signed_example_headers(1) example_authorization_plain(1)] by blast
  then show ?thesis using acc by (auto simp: example_parsed) (simp add: example_header_def)
qed

text \<open>Two authenticated requests with one header, and what they share.\<close>

lemma authenticated_twice:
  assumes "inj sha256" "\<And>k m k' m'. hmac k m = hmac k' m' \<Longrightarrow> m = m'"
    and "authenticate sha256 hmac parse_url env now req (auth_state sha256 hmac parse_url before) = (st, Authenticated auth hit, events)"
    and "authenticate sha256 hmac parse_url env' now' req' (auth_state sha256 hmac parse_url before') = (st', Authenticated auth' hit', events')"
    and "rq_headers req ''authorization'' = Some (One h)" "rq_headers req' ''authorization'' = Some (One h)" "CHR 0x0A \<notin> set h"
    and "CHR 0x0A \<notin> set (rq_method req)" "CHR 0x0A \<notin> set (rq_method req')"
  shows "upper (rq_method req) = upper (rq_method req') \<and> body_of req = body_of req' \<and>
    is_amz_date_fresh (rq_headers req ''x-amz-date'') now \<and> is_amz_date_fresh (rq_headers req ''x-amz-date'') now'"
proof -
  obtain parsed s key where 1: "parse_sigv4_auth_header (Some h) = Some parsed" "signed_under sha256 hmac parse_url req parsed key s"
      "is_amz_date_fresh (rq_headers req ''x-amz-date'') now"
    using run_authenticated_signed [OF assms(3,5,7)] by blast
  obtain s' key' where 2: "signed_under sha256 hmac parse_url req' parsed key' s'" "is_amz_date_fresh (rq_headers req' ''x-amz-date'') now'"
    using run_authenticated_signed [OF assms(4,6,7)] 1(1) by auto
  have "upper (rq_method req) = upper (rq_method req') \<and> body_of req = body_of req' \<and>
      rq_headers req ''x-amz-date'' = rq_headers req' ''x-amz-date''"
    using signed_under_binds [OF assms(1) _ 1(2) 2(1) assms(8,9)] assms(2) by blast
  with 1(3) 2(2) show ?thesis by simp
qed

lemma fresh_window: "is_amz_date_fresh d now \<Longrightarrow> is_amz_date_fresh d now' \<Longrightarrow> \<bar>now - now'\<bar> \<le> 2 * MAX_CLOCK_SKEW_MS"
  by (auto simp: is_amz_date_fresh_def split: option.splits header.splits)

text \<open>C30. A captured header serves at most to repeat the same request, and only for half an hour: two requests that
  are authenticated with one \<open>Authorization\<close> header, at any points of any two sequences of requests, have the same
  method and the same body, and the gateway's clock moved by at most twice the allowed skew between them.\<close>

theorem replay_repeats_the_request:
  assumes "inj sha256" "\<And>k m k' m'. hmac k m = hmac k' m' \<Longrightarrow> m = m'"
    and "authenticate sha256 hmac parse_url env now req (auth_state sha256 hmac parse_url before) = (st, Authenticated auth hit, events)"
    and "authenticate sha256 hmac parse_url env' now' req' (auth_state sha256 hmac parse_url before') = (st', Authenticated auth' hit', events')"
    and "rq_headers req ''authorization'' = Some (One h)" "rq_headers req' ''authorization'' = Some (One h)" "CHR 0x0A \<notin> set h"
    and "CHR 0x0A \<notin> set (rq_method req)" "CHR 0x0A \<notin> set (rq_method req')"
  shows "upper (rq_method req) = upper (rq_method req') \<and> body_of req = body_of req' \<and> \<bar>now - now'\<bar> \<le> 2 * MAX_CLOCK_SKEW_MS"
  using authenticated_twice [OF assms(1) _ assms(3-9)] assms(2) fresh_window by blast

lemma replay_repeats_the_request_witness:
  "\<exists>st st' auth auth'.
     authenticate id (\<lambda>k m. m) example_url (example_env True [example_credential]) EXAMPLE_NOW (signed_example [])
       (auth_state id (\<lambda>k m. m) example_url []) = (st, Authenticated auth False, []) \<and>
     authenticate id (\<lambda>k m. m) example_url (example_env True [example_credential]) EXAMPLE_NOW (signed_example [(''accept'', One ''x'')])
       (auth_state id (\<lambda>k m. m) example_url []) = (st', Authenticated auth' False, []) \<and>
     body_of (signed_example []) = body_of (signed_example [(''accept'', One ''x'')])"
proof -
  obtain st auth st' auth' where 1: "authenticate id (\<lambda>k m. m) example_url (example_env True [example_credential]) EXAMPLE_NOW (signed_example [])
      (auth_state id (\<lambda>k m. m) example_url []) = (st, Authenticated auth False, [])"
    and 2: "authenticate id (\<lambda>k m. m) example_url (example_env True [example_credential]) EXAMPLE_NOW (signed_example [(''accept'', One ''x'')])
       (auth_state id (\<lambda>k m. m) example_url []) = (st', Authenticated auth' False, [])"
    using example_authenticates [of "[]"] example_authenticates [of "[(''accept'', One ''x'')]"] by auto
  have "body_of (signed_example []) = body_of (signed_example [(''accept'', One ''x'')])"
    using replay_repeats_the_request [OF inj_on_id _ 1 2 signed_example_headers(1) signed_example_headers(1) example_authorization_plain(1)] by simp
  with 1 2 show ?thesis by blast
qed

text \<open>The secret of a revoked key.\<close>

lemma revoked_secret:
  "distinct (map cr_access_key_id store) \<Longrightarrow> get_secret_for_signature (fst (revoke_aws_credentials key_id store)) key_id = None"
proof (induction store)
  case (Cons c cs)
  have "List.find (\<lambda>d. cr_access_key_id d = cr_access_key_id c \<and> cr_active d) cs = None"
    using Cons.prems by (auto simp: find_None_iff image_iff)
  with Cons show ?case
    by (auto simp: get_secret_for_signature_def split: prod.split)
qed (simp add: get_secret_for_signature_def)

text \<open>Revocation of a local credential takes effect at once: when an access key id is revoked in the store and
  the admin service grants nothing for it, no request that names it is authenticated, whatever validations and keys
  were cached before.\<close>

theorem revoked_key_refused:
  assumes "local_store env = fst (revoke_aws_credentials key_id store)" "distinct (map cr_access_key_id store)"
    and "\<And>env' now' req' scopes data sks. (env', now', req') \<in> set (before @ [(env, now, req)]) \<Longrightarrow>
      admin_validate env' key_id scopes \<noteq> Inr (Granted data sks)"
    and "rq_headers req ''authorization'' = Some (One h)" "CHR 0x0A \<notin> set h"
    and "parse_sigv4_auth_header (Some h) = Some parsed" "access_key_id parsed = key_id"
  shows "fst (snd (authenticate sha256 hmac parse_url env now req (auth_state sha256 hmac parse_url before))) \<noteq> Authenticated auth hit"
proof
  assume "fst (snd (authenticate sha256 hmac parse_url env now req (auth_state sha256 hmac parse_url before))) = Authenticated auth hit"
  then obtain st events where "authenticate sha256 hmac parse_url env now req (auth_state sha256 hmac parse_url before) =
      (st, Authenticated auth hit, events)" by (metis prod.collapse)
  from run_authenticated_signed [OF this assms(4,5)] obtain s key where
      "genuine_key env hmac (sent_in (before @ [(env, now, req)])) key_id s key"
    using assms(6,7) by auto
  moreover have "\<not> sent_in (before @ [(env, now, req)]) key_id s key" using assms(3) unfolding sent_in_def by blast
  ultimately show False using assms(1) revoked_secret [OF assms(2)] by (simp add: genuine_key_def)
qed

lemma revoked_key_refused_witness:
  "\<forall>auth hit. fst (snd (authenticate id (\<lambda>k m. m) example_url
      (example_env True (fst (revoke_aws_credentials ''AK'' [example_credential]))) EXAMPLE_NOW (signed_example [])
      (auth_state id (\<lambda>k m. m) example_url [(example_env True [example_credential], EXAMPLE_NOW, signed_example [])]))) \<noteq> Authenticated auth hit"
proof (intro allI, rule revoked_key_refused [where key_id = "''AK''" and store = "[example_credential]" and h = example_authorization
      and parsed = example_header])
  show "CHR 0x0A \<notin> set example_authorization" by (rule example_authorization_plain(1))
  show "parse_sigv4_auth_header (Some example_authorization) = Some example_header" by (rule example_parsed)
qed (auto simp: example_env_def example_header_def)

lemma never_503:
  "unified_load_error env = None \<Longrightarrow>
   fst (snd (authenticate sha256 hmac parse_url env now req st)) \<noteq> Refuse 503 code message"
  by (auto simp: authenticate_def validate_credential_def Let_def
      split: option.splits prod.splits sum.splits bool.splits unified_result.splits if_splits)

text \<open>An outage of the admin service is answered as a refused credential. With the validation service loaded,
  the answer 503 that the middleware has for this case is never given, for any request and state; when the admin
  service throws, nothing is cached and the key is not in the local store, a fresh request is refused with 403 and
  \<open>validation_failed\<close>.\<close>

theorem outage_answered_403:
  assumes "unified_load_error env = None" "\<not> standalone env"
    and "rq_headers req ''authorization'' = Some (One h)" "parse_sigv4_auth_header (Some h) = Some parsed"
    and "is_amz_date_fresh (rq_headers req ''x-amz-date'') now"
    and "as_validations st = []" "cached_validation env (access_key_id parsed) = None"
    and "admin_validate env (access_key_id parsed) (Some (signing_scopes_for (hd_scope parsed))) = Inl e"
    and "find_aws_credential (local_store env) (access_key_id parsed) = None"
  shows "fst (snd (authenticate sha256 hmac parse_url env now req st)) =
      Refuse 403 ''validation_failed'' ''AWS credential validation failed'' \<and>
    (\<forall>req' st' code message. fst (snd (authenticate sha256 hmac parse_url env now req' st')) \<noteq> Refuse 503 code message)"
proof -
  have sig: "is_aws_sigv4_request (Some h)" using assms(4) by (auto simp: parse_sigv4_auth_header_def split: if_splits)
  have "validate_aws_credential env now (access_key_id parsed) (Some (signing_scopes_for (hd_scope parsed))) (as_keys st) =
      (as_keys st, Unvalidated ''validation_failed'' ''AWS credential validation failed'' None, None)"
    using assms by (simp add: validate_aws_credential_def validate_with_admin_def validate_with_local_def Let_def)
  with sig assms never_503 [OF assms(1)] show ?thesis
    by (simp add: authenticate_def validate_credential_def vc_get_def header_text_def Let_def)
qed

lemma outage_answered_403_witness:
  "fst (snd (authenticate id (\<lambda>k m. m) example_url (example_env False []) EXAMPLE_NOW (signed_example []) \<lparr>as_validations = [], as_keys = []\<rparr>)) =
     Refuse 403 ''validation_failed'' ''AWS credential validation failed''"
  using outage_answered_403 [of "example_env False []" "signed_example []" example_authorization example_header EXAMPLE_NOW
      "\<lparr>as_validations = [], as_keys = []\<rparr>" "''connect ECONNREFUSED''"] example_parsed example_fresh
  by (simp add: example_env_def cached_validation_def find_aws_credential_def)

end
