(* ===== verification/Model_Catalogs.thy ===== *)
theory Model_Catalogs
  imports Prelude
begin

text \<open>
  The entitlement catalogs of the administration service (\<open>admin services/modelEntitlementService.ts\<close>): the
  tables, the effective set of a catalog, and the walk that prunes removed models from every descendant of a
  catalog. The parent chain is data, so the graph of catalogs is arbitrary here: it may have cycles.

  A table is the list of its rows. The generated keys of member and exclusion rows are left out (no operation
  reads them); a nullable column is an option. The walk carries fuel for its depth; the theorem below shows that
  the fuel the callers give is enough on every database, and what the walk deletes.
\<close>

section \<open>The tables\<close>

record catalog =
  ca_id :: string
  ca_name :: string
  ca_default :: bool
  ca_owner :: "string option"
  ca_parent :: "string option"

record library_model =
  lm_id :: string
  lm_display :: "string option"
  lm_external :: bool
  lm_absent :: bool

record catalog_member =
  cm_catalog :: string
  cm_model :: string
  cm_display :: string

record catalog_exclusion =
  cx_catalog :: string
  cx_model :: string
  cx_reason :: "string option"

record team_row =
  tr_id :: string
  tr_name :: string
  tr_catalog :: "string option"
  tr_members :: "string list"

record cat_db =
  db_library :: "library_model list"
  db_catalogs :: "catalog list"
  db_members :: "catalog_member list"
  db_exclusions :: "catalog_exclusion list"
  db_users :: "(string \<times> string option) list"
  db_teams :: "team_row list"

text \<open>The address of a platform service key (\<open>services/usersService.ts\<close>).\<close>

definition is_service_key_email :: "string \<Rightarrow> bool" where
  "is_service_key_email email = suffix ''.service.key'' email"

text \<open>Truthiness of a nullable text column.\<close>

definition filled :: "string option \<Rightarrow> bool" where
  "filled t = (t \<noteq> None \<and> t \<noteq> Some [])"

definition DEEP_CONTEXT_SUFFIX :: string where
  "DEEP_CONTEXT_SUFFIX = ''--deep-context''"

text \<open>\<open>uniq\<close>: the ids of a request that are not blank, each once, and the same on texts.\<close>

definition uniq_texts :: "string list \<Rightarrow> string list" where
  "uniq_texts ids = uniq (filter (\<lambda>i. trim i \<noteq> []) ids)"

definition uniq_ids :: "js list \<Rightarrow> string list" where
  "uniq_ids ids = uniq_texts (collect_some jstring ids)"

section \<open>Queries\<close>

definition get_default_catalog :: "cat_db \<Rightarrow> catalog option" where
  "get_default_catalog db = find ca_default (db_catalogs db)"

definition get_catalog :: "cat_db \<Rightarrow> string \<Rightarrow> catalog option" where
  "get_catalog db i = find (\<lambda>c. ca_id c = i) (db_catalogs db)"

definition get_assigned_catalog :: "cat_db \<Rightarrow> string \<Rightarrow> catalog option" where
  "get_assigned_catalog db email =
     (case map_of (db_users db) email of
        Some (Some i) \<Rightarrow> if i = [] then None else get_catalog db i
      | _ \<Rightarrow> None)"

definition member_ids :: "cat_db \<Rightarrow> string \<Rightarrow> string list" where
  "member_ids db c = map cm_model (filter (\<lambda>r. cm_catalog r = c) (db_members db))"

definition exclusion_ids :: "cat_db \<Rightarrow> string \<Rightarrow> string list" where
  "exclusion_ids db c = map cx_model (filter (\<lambda>r. cx_catalog r = c) (db_exclusions db))"

text \<open>The rows of the library the default catalog offers before its exclusions: present, not a pricing twin
  (\<open>not like '%--deep-context'\<close>) and not a model of a connection.\<close>

definition offered :: "library_model \<Rightarrow> bool" where
  "offered r = (\<not> lm_absent r \<and> \<not> suffix DEEP_CONTEXT_SUFFIX (lm_id r) \<and> \<not> lm_external r)"

definition effective_model_ids :: "cat_db \<Rightarrow> catalog \<Rightarrow> string list" where
  "effective_model_ids db c =
     (if ca_default c
      then filter (\<lambda>i. i \<notin> set (exclusion_ids db (ca_id c))) (uniq (map lm_id (filter offered (db_library db))))
      else uniq (member_ids db (ca_id c)))"

definition child_ids :: "cat_db \<Rightarrow> string \<Rightarrow> string list" where
  "child_ids db p = map ca_id (filter (\<lambda>c. ca_parent c = Some p) (db_catalogs db))"

section \<open>Pruning\<close>

text \<open>\<open>DELETE.from(MEM).where({ catalog_ID, modelId: { in: ids } })\<close> and the number of rows it deletes.\<close>

definition delete_members :: "string \<Rightarrow> string list \<Rightarrow> cat_db \<Rightarrow> nat \<times> cat_db" where
  "delete_members c ids db =
     (let hit = (\<lambda>r. cm_catalog r = c \<and> cm_model r \<in> set ids) in
      (length (filter hit (db_members db)), db\<lparr>db_members := filter (\<lambda>r. \<not> hit r) (db_members db)\<rparr>))"

text \<open>\<open>pruneChildren\<close> and its loop over the children. The visited set and the database are threaded.\<close>

fun prune_children ::
  "nat \<Rightarrow> string list \<Rightarrow> string \<Rightarrow> string list \<times> cat_db \<Rightarrow> (nat \<times> string list \<times> cat_db) option"
and prune_each ::
  "nat \<Rightarrow> string list \<Rightarrow> string list \<Rightarrow> string list \<times> cat_db \<Rightarrow> (nat \<times> string list \<times> cat_db) option" where
  "prune_children fuel removed parent (visited, db) =
     (let ids = uniq_texts removed in
      if ids = [] then Some (0, visited, db)
      else if parent \<in> set visited then Some (0, visited, db)
      else case fuel of 0 \<Rightarrow> None
           | Suc n \<Rightarrow> prune_each n ids (child_ids db parent) (parent # visited, db))"
| "prune_each fuel ids [] (visited, db) = Some (0, visited, db)"
| "prune_each fuel ids (c # cs) (visited, db) =
     (if c \<in> set visited then prune_each fuel ids cs (visited, db)
      else let (k1, db1) = delete_members c ids db in
        case prune_children fuel ids c (visited, db1) of None \<Rightarrow> None
        | Some (k2, s2) \<Rightarrow> (case prune_each fuel ids cs s2 of None \<Rightarrow> None
            | Some (k3, s3) \<Rightarrow> Some (k1 + k2 + k3, s3)))"

declare prune_children.simps [simp del]

text \<open>The call of the operations, with the fuel of its depth: one more than the number of catalogs.\<close>

definition prune :: "cat_db \<Rightarrow> string \<Rightarrow> string list \<Rightarrow> (nat \<times> cat_db) option" where
  "prune db parent removed =
     map_option (\<lambda>(k, _, db'). (k, db')) (prune_children (Suc (length (db_catalogs db))) removed parent ([], db))"

section \<open>What a walk deletes\<close>

text \<open>The descendants of a catalog: its children, their children, and so on, along any cycle.\<close>

inductive descends :: "cat_db \<Rightarrow> string \<Rightarrow> string \<Rightarrow> bool" for db where
  child: "c \<in> set (child_ids db p) \<Longrightarrow> descends db p c"
| further: "descends db p c \<Longrightarrow> d \<in> set (child_ids db c) \<Longrightarrow> descends db p d"

text \<open>The rows of some models gone from a set of catalogs.\<close>

definition without :: "string list \<Rightarrow> string set \<Rightarrow> cat_db \<Rightarrow> cat_db" where
  "without ids cs db =
     db\<lparr>db_members := filter (\<lambda>r. \<not> (cm_model r \<in> set ids \<and> cm_catalog r \<in> cs)) (db_members db)\<rparr>"

named_theorems left_simps \<open>what a deletion leaves as it is, and how deletions compose\<close>

lemma without_fields [simp, left_simps]:
  "db_catalogs (without ids cs db) = db_catalogs db" "db_library (without ids cs db) = db_library db"
  "db_exclusions (without ids cs db) = db_exclusions db" "db_users (without ids cs db) = db_users db"
  "db_teams (without ids cs db) = db_teams db"
  by (simp_all add: without_def)

lemma without_without [left_simps]: "without ids b (without ids a db) = without ids (a \<union> b) db"
  by (auto simp: without_def intro!: arg_cong[where f = "\<lambda>ms. db_members_update (\<lambda>_. ms) db"] filter_cong)

lemma without_empty [simp, left_simps]: "without ids {} db = db" "without [] cs db = db"
  by (simp_all add: without_def)

lemma child_ids_without [simp, left_simps]: "child_ids (without ids cs db) p = child_ids db p"
  by (simp add: child_ids_def)

lemma descends_cong: "descends db p c \<Longrightarrow> db_catalogs db = db_catalogs db' \<Longrightarrow> descends db' p c"
  by (induction rule: descends.induct) (auto simp: child_ids_def intro: descends.intros)

lemma descends_without [simp, left_simps]: "descends (without ids cs db) p c = descends db p c"
  using descends_cong[of db p c "without ids cs db"] descends_cong[of "without ids cs db" p c db] by auto

lemma descends_trans: "descends db b c \<Longrightarrow> descends db a b \<Longrightarrow> descends db a c"
  by (induction rule: descends.induct) (auto intro: descends.intros)

lemma member_ids_without [left_simps]:
  "member_ids (without ids cs db) c = (if c \<in> cs then filter (\<lambda>m. m \<notin> set ids) (member_ids db c) else member_ids db c)"
  by (auto simp: member_ids_def without_def filter_map o_def conj_commute intro!: arg_cong[where f = "map cm_model"] filter_cong)

lemma without_shorter: "length (db_members (without ids cs db)) \<le> length (db_members db)"
  by (simp add: without_def)

lemma delete_members_without:
  obtains k where "delete_members c ids db = (k, without ids {c} db)"
    "k + length (db_members (without ids {c} db)) = length (db_members db)"
proof
  let ?hit = "\<lambda>r. cm_catalog r = c \<and> cm_model r \<in> set ids"
  show "delete_members c ids db = (length (filter ?hit (db_members db)), without ids {c} db)"
    by (simp add: delete_members_def without_def Let_def conj_commute)
  have "filter (\<lambda>r. \<not> (cm_model r \<in> set ids \<and> cm_catalog r \<in> {c})) (db_members db) =
      filter (\<lambda>r. \<not> ?hit r) (db_members db)"
    by (rule filter_cong) auto
  then show "length (filter ?hit (db_members db)) + length (db_members (without ids {c} db)) = length (db_members db)"
    using sum_length_filter_compl[of ?hit "db_members db"] by (simp add: without_def)
qed

lemma uniq_texts_again [simp]: "uniq_texts (uniq_texts ids) = uniq_texts ids"
proof -
  have "filter (\<lambda>i. trim i \<noteq> []) (uniq (filter (\<lambda>i. trim i \<noteq> []) ids)) = uniq (filter (\<lambda>i. trim i \<noteq> []) ids)"
    by (rule filter_True) auto
  then show ?thesis by (simp add: uniq_texts_def uniq_distinct)
qed

definition catalog_ids :: "cat_db \<Rightarrow> string set" where
  "catalog_ids db = ca_id ` set (db_catalogs db)"

lemma child_ids_catalogs: "set (child_ids db p) \<subseteq> catalog_ids db"
  by (auto simp: child_ids_def catalog_ids_def)

lemma catalog_ids_without [simp, left_simps]: "catalog_ids (without ids cs db) = catalog_ids db"
  by (simp add: catalog_ids_def)

lemma finite_catalog_ids [simp]: "finite (catalog_ids db)"
  by (simp add: catalog_ids_def)

text \<open>The ids a walk from some catalogs has visited: these catalogs, only descendants of them, and every
  child of a newly visited one.\<close>

definition trail :: "cat_db \<Rightarrow> string list \<Rightarrow> string list \<Rightarrow> string list \<Rightarrow> bool" where
  "trail db visited cs visited' \<longleftrightarrow>
     set visited \<union> set cs \<subseteq> set visited' \<and>
     (\<forall>x \<in> set visited' - set visited.
        (\<exists>c \<in> set cs. x = c \<or> descends db c x) \<and> set (child_ids db x) \<subseteq> set visited')"

lemma trail_down:
  assumes "trail db (c # visited) (child_ids db c) visited'" and "c \<notin> set visited"
  shows "trail db visited [c] visited'"
proof -
  have sub: "set (c # visited) \<subseteq> set visited'" and kids: "set (child_ids db c) \<subseteq> set visited'"
    using assms(1) by (auto simp: trail_def)
  have "(x = c \<or> descends db c x) \<and> set (child_ids db x) \<subseteq> set visited'"
    if x: "x \<in> set visited' - set visited" for x
  proof (cases "x = c")
    case True
    then show ?thesis using kids by simp
  next
    case False
    then have "x \<in> set visited' - set (c # visited)" using x by simp
    then obtain d where "d \<in> set (child_ids db c)" "x = d \<or> descends db d x" "set (child_ids db x) \<subseteq> set visited'"
      using assms(1) unfolding trail_def by blast
    then show ?thesis using descends.child descends_trans by metis
  qed
  then show ?thesis using sub by (simp add: trail_def)
qed

lemma trail_next:
  assumes "trail db visited [c] v2" and "trail db v2 cs v3"
  shows "trail db visited (c # cs) v3"
proof -
  have sub: "set visited \<subseteq> set v2" "c \<in> set v2" "set v2 \<subseteq> set v3" "set cs \<subseteq> set v3"
    using assms by (auto simp: trail_def)
  have "(\<exists>d \<in> set (c # cs). x = d \<or> descends db d x) \<and> set (child_ids db x) \<subseteq> set v3"
    if x: "x \<in> set v3 - set visited" for x
  proof (cases "x \<in> set v2")
    case True
    then have "(x = c \<or> descends db c x) \<and> set (child_ids db x) \<subseteq> set v2"
      using assms(1) x unfolding trail_def by simp
    then show ?thesis using sub(3) by auto
  next
    case False
    then have "(\<exists>d \<in> set cs. x = d \<or> descends db d x) \<and> set (child_ids db x) \<subseteq> set v3"
      using assms(2) x unfolding trail_def by simp
    then show ?thesis by auto
  qed
  moreover have "set visited \<union> set (c # cs) \<subseteq> set v3" using sub by auto
  ultimately show ?thesis unfolding trail_def by blast
qed

lemma trail_without [simp, left_simps]:
  "trail (without ids cs db) visited start visited' = trail db visited start visited'"
  by (simp add: trail_def)

lemma prune_each_walks:
  "uniq_texts removed = removed \<and> removed \<noteq> [] \<and> c \<in> catalog_ids db \<and> c \<notin> set visited \<and>
     card (catalog_ids db - set visited) \<le> fuel \<longrightarrow>
     (\<exists>k visited'. prune_children fuel removed c (visited, db) =
        Some (k, visited', without removed (set visited' - set visited - {c}) db) \<and>
        k + length (db_members (without removed (set visited' - set visited - {c}) db)) = length (db_members db) \<and>
        trail db visited [c] visited')"
  "uniq_texts ids = ids \<and> ids \<noteq> [] \<and> set cs \<subseteq> catalog_ids db \<and> card (catalog_ids db - set visited) \<le> fuel \<longrightarrow>
     (\<exists>k visited'. prune_each fuel ids cs (visited, db) =
        Some (k, visited', without ids (set visited' - set visited) db) \<and>
        k + length (db_members (without ids (set visited' - set visited) db)) = length (db_members db) \<and>
        trail db visited cs visited')"
proof (induction fuel removed c "(visited, db)" and fuel ids cs "(visited, db)"
    arbitrary: visited db and visited db rule: prune_children_prune_each.induct)
  case (1 fuel removed parent visited db)
  show ?case
  proof
    assume a: "uniq_texts removed = removed \<and> removed \<noteq> [] \<and> parent \<in> catalog_ids db \<and> parent \<notin> set visited \<and>
      card (catalog_ids db - set visited) \<le> fuel"
    have smaller: "card (catalog_ids db - set (parent # visited)) < card (catalog_ids db - set visited)"
      by (rule psubset_card_mono) (use a in auto)
    then obtain n where n: "fuel = Suc n" using a by (cases fuel) auto
    have "card (catalog_ids db - set (parent # visited)) \<le> n" using smaller a n by linarith
    then obtain k visited' where w: "prune_each n removed (child_ids db parent) (parent # visited, db) =
        Some (k, visited', without removed (set visited' - set (parent # visited)) db)"
      "k + length (db_members (without removed (set visited' - set (parent # visited)) db)) = length (db_members db)"
      "trail db (parent # visited) (child_ids db parent) visited'"
      using 1[of removed n] a n child_ids_catalogs[of db parent] by auto
    have "set visited' - set (parent # visited) = set visited' - set visited - {parent}" by auto
    then show "\<exists>k visited'. prune_children fuel removed parent (visited, db) =
        Some (k, visited', without removed (set visited' - set visited - {parent}) db) \<and>
        k + length (db_members (without removed (set visited' - set visited - {parent}) db)) = length (db_members db) \<and>
        trail db visited [parent] visited'"
      using w a n trail_down[OF w(3)] by (auto simp: prune_children.simps)
  qed
next
  case (2 fuel ids visited db)
  then show ?case by (auto simp: trail_def)
next
  case (3 fuel ids c cs visited db)
  show ?case
  proof
    assume a: "uniq_texts ids = ids \<and> ids \<noteq> [] \<and> set (c # cs) \<subseteq> catalog_ids db \<and>
      card (catalog_ids db - set visited) \<le> fuel"
    show "\<exists>k visited'. prune_each fuel ids (c # cs) (visited, db) =
        Some (k, visited', without ids (set visited' - set visited) db) \<and>
        k + length (db_members (without ids (set visited' - set visited) db)) = length (db_members db) \<and>
        trail db visited (c # cs) visited'"
    proof (cases "c \<in> set visited")
      case True
      then show ?thesis using 3(1) a by (auto simp: trail_def)
    next
      case False
      obtain k1 where d: "delete_members c ids db = (k1, without ids {c} db)"
        "k1 + length (db_members (without ids {c} db)) = length (db_members db)" by (rule delete_members_without)
      obtain k2 v2 where p2: "prune_children fuel ids c (visited, without ids {c} db) =
          Some (k2, v2, without ids (set v2 - set visited - {c}) (without ids {c} db))"
        "k2 + length (db_members (without ids (set v2 - set visited - {c}) (without ids {c} db))) =
           length (db_members (without ids {c} db))"
        "trail db visited [c] v2"
        using 3(2)[OF False d(1)[symmetric] refl] a False by auto
      have sub: "set visited \<subseteq> set v2" and cv: "c \<in> set v2" using p2(3) by (auto simp: trail_def)
      have v2: "{c} \<union> (set v2 - set visited - {c}) = set v2 - set visited" using cv False by auto
      let ?db2 = "without ids (set v2 - set visited) db"
      have same: "insert c (set v2 - set visited) = set v2 - set visited" using cv False by auto
      have p2': "prune_children fuel ids c (visited, without ids {c} db) = Some (k2, v2, ?db2)"
        using p2(1) by (simp only: without_without v2)
      have "card (catalog_ids db - set v2) \<le> card (catalog_ids db - set visited)"
        by (rule card_mono) (use sub in auto)
      then obtain k3 v3 where p3: "prune_each fuel ids cs (v2, ?db2) = Some (k3, v3, without ids (set v3 - set v2) ?db2)"
        "k3 + length (db_members (without ids (set v3 - set v2) ?db2)) = length (db_members ?db2)"
        "trail db v2 cs v3"
        using 3(3)[OF False d(1)[symmetric] refl p2' refl] a by auto
      have "set v2 \<subseteq> set v3" using p3(3) by (auto simp: trail_def)
      then have v3: "(set v2 - set visited) \<union> (set v3 - set v2) = set v3 - set visited" using sub by auto
      show ?thesis
        using False d p2' p2(2) p3(1,2) trail_next[OF p2(3) p3(3)]
        by (simp add: without_without v2 v3 same Let_def)
    qed
  qed
qed

lemma prune_walks:
  "let db' = without (uniq_texts removed) {c. c \<noteq> p \<and> descends db p c} db in
   prune db p removed = Some (length (db_members db) - length (db_members db'), db')"
proof (cases "uniq_texts removed = []")
  case True
  then show ?thesis by (simp add: prune_def prune_children.simps)
next
  case False
  let ?ids = "uniq_texts removed"
  have "card (catalog_ids db - set [p]) \<le> card (catalog_ids db)" by (rule card_mono) auto
  also have "\<dots> \<le> length (db_catalogs db)"
    by (metis card_image_le card_length catalog_ids_def le_trans List.finite_set)
  finally obtain k v where w: "prune_each (length (db_catalogs db)) ?ids (child_ids db p) ([p], db) =
      Some (k, v, without ?ids (set v - set [p]) db)"
    "k + length (db_members (without ?ids (set v - set [p]) db)) = length (db_members db)"
    "trail db [p] (child_ids db p) v"
    using prune_each_walks(2)[of ?ids "child_ids db p" db "[p]" "length (db_catalogs db)"] False
      child_ids_catalogs[of db p] by auto
  have "a = p \<longrightarrow> c \<in> set v" if "descends db a c" for a c
    using that
  proof (induction rule: descends.induct)
    case (child c a) then show ?case using w(3) by (auto simp: trail_def)
  next
    case (further a c d)
    then show ?case using w(3) by (cases "c = p") (auto simp: trail_def)
  qed
  moreover have "descends db p c" if "c \<in> set v" "c \<noteq> p" for c
  proof -
    have "c \<in> set v - set [p]" using that by simp
    then obtain d where "d \<in> set (child_ids db p)" "c = d \<or> descends db d c"
      using w(3) unfolding trail_def by blast
    then show ?thesis using descends.child descends_trans by metis
  qed
  ultimately have "set v - set [p] = {c. c \<noteq> p \<and> descends db p c}" by auto
  then show ?thesis using w False by (simp add: prune_def prune_children.simps Let_def)
qed

text \<open>C12. On every database, with cycles in the parent chain too, \<open>pruneChildren\<close> returns, deletes exactly the
  rows of the removed models in the descendants of the catalog other than itself, and counts them.\<close>

theorem prune_exact:
  "\<exists>k db'. prune db p removed = Some (k, db') \<and>
     db' = without (uniq_texts removed) {c. c \<noteq> p \<and> descends db p c} db \<and>
     k + length (db_members db') = length (db_members db)"
  using prune_walks[where db = db and p = p and removed = removed] without_shorter by (auto simp: Let_def)

end
