(* ===== verification/Model_Entitlement.thy ===== *)
theory Model_Entitlement
  imports Quota_Enforcement
begin

text \<open>
  Model entitlement on the wire (\<open>utils/modelEntitlement.ts\<close>): the block the admin service attaches to a
  validated credential, its normalisation, the decision for a model, and the guard every inference
  controller calls.

  Parameters of the model: \<open>num_text\<close> (\<open>String(n)\<close> of a number) and \<open>external\<close>
  (\<open>connectionRegistry.isExternalModelId\<close>, the ids of the live registry's snapshot). The security event is
  modelled without the client's address, agent and URL.
\<close>

section \<open>Blocks\<close>

datatype ent_mode = Mode_All | Mode_List

record ent_block =
  en_catalog_id :: string
  en_catalog_name :: string
  en_team_catalog_id :: "string option"
  en_team_catalog_name :: "string option"
  en_mode :: ent_mode
  en_exclude :: "string list option"
  en_include :: "string list option"

definition is_ent_block :: "js \<Rightarrow> bool" where
  "is_ent_block x = (is_objectish x \<and> (jget x ''mode'' = JStr ''all'' \<or> jget x ''mode'' = JStr ''list''))"

text \<open>\<open>String(v)\<close>\<close>

fun js_text :: "(rat \<Rightarrow> string) \<Rightarrow> js \<Rightarrow> string" where
  "js_text nt JUndef = ''undefined''"
| "js_text nt JNull = ''null''"
| "js_text nt (JBool b) = (if b then ''true'' else ''false'')"
| "js_text nt (JNum n) = nt n"
| "js_text nt (JStr s) = s"
| "js_text nt (JArr xs) = join '','' (map (\<lambda>v. if v = JUndef \<or> v = JNull then [] else js_text nt v) xs)"
| "js_text nt (JObj _) = ''[object Object]''"

definition null_or_text :: "(rat \<Rightarrow> string) \<Rightarrow> js \<Rightarrow> string" where
  "null_or_text nt v = (if v = JUndef \<or> v = JNull then [] else js_text nt v)"

definition normalize_block :: "(rat \<Rightarrow> string) \<Rightarrow> js \<Rightarrow> ent_block" where
  "normalize_block nt x =
     (let listed = (jget x ''mode'' = JStr ''list'') in
      \<lparr> en_catalog_id = null_or_text nt (jget x ''catalogId''),
        en_catalog_name = null_or_text nt (jget x ''catalogName''),
        en_team_catalog_id = jstring (jget x ''teamCatalogId''),
        en_team_catalog_name = jstring (jget x ''teamCatalogName''),
        en_mode = (if listed then Mode_List else Mode_All),
        en_exclude = (if \<not> listed \<and> is_arr (jget x ''exclude'') then Some (strings_in (jget x ''exclude'')) else None),
        en_include = (if listed then Some (strings_in (jget x ''include'')) else None) \<rparr>)"

definition entitlement_from_request :: "(rat \<Rightarrow> string) \<Rightarrow> js \<Rightarrow> ent_block option" where
  "entitlement_from_request nt req =
     (if is_admin_user (user_from_request req) then None
      else map_option (normalize_block nt) (find is_ent_block
        [jpath req [''unifiedAuth'', ''data'', ''entitlement''], jpath req [''apiKeyInfo'', ''entitlement''],
         jpath req [''apiKeyInfo'', ''metadata'', ''entitlement''], jpath req [''awsAuth'', ''entitlement'']]))"

section \<open>The decision\<close>

definition is_model_entitled :: "(string \<Rightarrow> bool) \<Rightarrow> ent_block option \<Rightarrow> string \<Rightarrow> bool" where
  "is_model_entitled external b m =
     (case b of None \<Rightarrow> True
      | Some e \<Rightarrow>
          if en_mode e = Mode_All
          then \<not> external m \<and> m \<notin> set (case en_exclude e of None \<Rightarrow> [] | Some xs \<Rightarrow> xs)
          else m \<in> set (case en_include e of None \<Rightarrow> [] | Some xs \<Rightarrow> xs))"

definition filter_models :: "(string \<Rightarrow> bool) \<Rightarrow> ent_block option \<Rightarrow> js list \<Rightarrow> js list" where
  "filter_models external b models =
     (if b = None then models
      else filter (\<lambda>md. is_model_entitled external b (text_or_empty (jget md ''id''))) models)"

section \<open>The guard of the inference controllers\<close>

definition not_entitled_body :: "string \<Rightarrow> ent_block \<Rightarrow> js" where
  "not_entitled_body model b =
     (let team = (case en_team_catalog_name b of None \<Rightarrow> [] | Some t \<Rightarrow> t);
          where_text = ''your entitlement catalog \"'' @ en_catalog_name b @ ''\"'' @
            (if team \<noteq> [] then '' or your team's catalog \"'' @ team @ ''\"'' else [])
      in JObj [(''error'', JObj ([(''type'', JStr ''model_not_entitled''),
           (''message'', JStr (''Model '' @ model @ '' is not in '' @ where_text)),
           (''model'', JStr model), (''catalog'', JStr (en_catalog_name b))] @
           (if team \<noteq> [] then [(''teamCatalog'', JStr team)] else [])))])"

datatype auth_type = Api_Key | Aws_Credential

text \<open>\<open>a || b || \<dots> || 'unknown'\<close> over credential ids (strings or absent).\<close>

definition credential_of :: "js \<Rightarrow> string \<times> auth_type" where
  "credential_of req =
     (let aws = first_text [jpath req [''awsAuth'', ''credentialId'']] in
      if aws \<noteq> None \<or> jpath req [''unifiedAuth'', ''authType''] = JStr ''aws_credential''
      then (or_unknown (first_text [jpath req [''awsAuth'', ''credentialId''],
              jpath req [''unifiedAuth'', ''data'', ''credentialId'']]), Aws_Credential)
      else (or_unknown (first_text [jpath req [''unifiedAuth'', ''data'', ''keyId''], jpath req [''apiKeyInfo'', ''keyId''],
              jpath req [''apiKey'', ''keyId''], jpath req [''apiKeyInfo'', ''id'']]), Api_Key))"

record refusal_event =
  re_credential :: "string \<times> auth_type"
  re_model :: string
  re_catalog :: string
  re_catalog_id :: string

definition refusal_of :: "js \<Rightarrow> string \<Rightarrow> ent_block \<Rightarrow> refusal_event" where
  "refusal_of req model b =
     \<lparr> re_credential = credential_of req, re_model = model, re_catalog = en_catalog_name b,
       re_catalog_id = en_catalog_id b \<rparr>"

text \<open>What the guard does: the controller proceeds, or a status, a body and a security event.\<close>

datatype guard_outcome = Proceed | Refuse nat js refusal_event

definition enforce_entitlement :: "(rat \<Rightarrow> string) \<Rightarrow> (string \<Rightarrow> bool) \<Rightarrow> js \<Rightarrow> string \<Rightarrow> guard_outcome" where
  "enforce_entitlement nt external req model =
     (case entitlement_from_request nt req of
        None \<Rightarrow> Proceed
      | Some b \<Rightarrow>
          if is_model_entitled external (Some b) model then Proceed
          else Refuse 403 (not_entitled_body model b) (refusal_of req model b))"

section \<open>What the guard admits\<close>

text \<open>The block a request carries, before normalisation.\<close>

definition carried_block :: "js \<Rightarrow> js option" where
  "carried_block req = find is_ent_block
     [jpath req [''unifiedAuth'', ''data'', ''entitlement''], jpath req [''apiKeyInfo'', ''entitlement''],
      jpath req [''apiKeyInfo'', ''metadata'', ''entitlement''], jpath req [''awsAuth'', ''entitlement'']]"

lemma enforce_proceeds_iff:
  "enforce_entitlement nt external req m = Proceed \<longleftrightarrow>
     is_model_entitled external (entitlement_from_request nt req) m"
  by (auto simp: enforce_entitlement_def is_model_entitled_def split: option.splits)

lemma entitlement_from_carried:
  "\<not> is_admin_user (user_from_request req) \<Longrightarrow>
     entitlement_from_request nt req = map_option (normalize_block nt) (carried_block req)"
  by (simp add: entitlement_from_request_def carried_block_def)

lemma strings_in_not_arr: "\<not> is_arr v \<Longrightarrow> strings_in v = []"
  by (cases v) (simp_all add: strings_in_def)

lemma entitled_by_list:
  "jget x ''mode'' = JStr ''list'' \<Longrightarrow>
     is_model_entitled external (Some (normalize_block nt x)) m \<longleftrightarrow> m \<in> set (strings_in (jget x ''include''))"
  by (simp add: is_model_entitled_def normalize_block_def Let_def)

lemma strings_in_JStr: "strings_in (JArr (map JStr xs)) = xs"
  by (induction xs) (simp_all add: strings_in_def)

lemma entitled_by_exclusion:
  assumes "jget x ''mode'' = JStr ''all''"
  shows "is_model_entitled external (Some (normalize_block nt x)) m \<longleftrightarrow>
     \<not> external m \<and> m \<notin> set (strings_in (jget x ''exclude''))"
  using assms by (simp add: is_model_entitled_def normalize_block_def Let_def strings_in_not_arr)

text \<open>The list the model endpoint shows and the guard of the inference routes agree.\<close>

lemma listed_iff_usable:
  "md \<in> set (filter_models external (entitlement_from_request nt req) models) \<longleftrightarrow>
     md \<in> set models \<and> enforce_entitlement nt external req (text_or_empty (jget md ''id'')) = Proceed"
  by (cases "entitlement_from_request nt req")
     (auto simp: filter_models_def enforce_proceeds_iff is_model_entitled_def)

text \<open>A list block whose list is not an array entitles nothing.\<close>

lemma broken_list_entitles_nothing:
  assumes "\<not> is_admin_user (user_from_request req)" and "carried_block req = Some x"
    and "jget x ''mode'' = JStr ''list''" and "\<not> is_arr (jget x ''include'')"
  shows "enforce_entitlement nt external req m \<noteq> Proceed"
  using assms(3,4)
  by (simp add: enforce_proceeds_iff entitlement_from_carried[OF assms(1)] assms(2) entitled_by_list strings_in_not_arr)

end
