(* ===== verification/Catalog_Operations.thy ===== *)
theory Catalog_Operations
  imports Model_Catalogs Model_Entitlement
begin

text \<open>
  The operations on the entitlement catalogs (\<open>admin services/modelEntitlementService.ts\<close>) and the handlers that
  map requests to them (\<open>admin srv/admin-service-library.ts\<close>): members, exclusions, assignment with the
  re-parenting of the user's own catalogs, creation, update and deletion, the block of a validation response and
  the e-mails whose cached validations an operation invalidates.

  A handler runs in one transaction, so an error discards the state: an operation returns an error or a result
  with the new state. New keys are arguments (\<open>uuid\<close>); audit events and log lines are not modelled.
\<close>

section \<open>Errors\<close>

record ent_error =
  ee_status :: nat
  ee_code :: string
  ee_details :: "string list list"

abbreviation ent_failure :: "nat \<Rightarrow> string \<Rightarrow> string list list \<Rightarrow> ent_error" where
  "ent_failure st c d \<equiv> \<lparr> ee_status = st, ee_code = c, ee_details = d \<rparr>"

definition is_admin_role :: "string list \<Rightarrow> bool" where
  "is_admin_role roles = list_ex (\<lambda>r. r = ''admin'' \<or> r = ''Admin'' \<or> suffix ''.admin'' r) roles"

section \<open>The default catalog\<close>

definition require_default :: "cat_db \<Rightarrow> ent_error + catalog" where
  "require_default db =
     (case get_default_catalog db of None \<Rightarrow> Inl (ent_failure 500 ''no_default'' []) | Some c \<Rightarrow> Inr c)"

definition ensure_default_catalog :: "string \<Rightarrow> cat_db \<Rightarrow> catalog \<times> cat_db" where
  "ensure_default_catalog uuid db =
     (case get_default_catalog db of
        Some c \<Rightarrow> (c, db)
      | None \<Rightarrow>
          let row = \<lparr> ca_id = uuid, ca_name = ''Default'', ca_default = True, ca_owner = None, ca_parent = None \<rparr>
          in (row, db\<lparr>db_catalogs := db_catalogs db @ [row]\<rparr>))"

section \<open>Members and exclusions\<close>

definition parent_effective_set :: "cat_db \<Rightarrow> catalog \<Rightarrow> ent_error + string list option" where
  "parent_effective_set db c =
     (if \<not> filled (ca_parent c) then Inr None
      else case get_catalog db (the (ca_parent c)) of
             None \<Rightarrow> Inl (ent_failure 500 ''parent_missing'' [])
           | Some p \<Rightarrow> Inr (Some (effective_model_ids db p)))"

definition display_of :: "cat_db \<Rightarrow> string \<Rightarrow> string" where
  "display_of db i = (case find (\<lambda>r. lm_id r = i) (rev (db_library db)) of None \<Rightarrow> i
     | Some r \<Rightarrow> (case lm_display r of None \<Rightarrow> i | Some d \<Rightarrow> d))"

definition add_members :: "cat_db \<Rightarrow> catalog \<Rightarrow> js list \<Rightarrow> ent_error + nat \<times> cat_db" where
  "add_members db c models =
     (let ids = uniq_ids models in
      if ca_default c then Inl (ent_failure 400 ''default_has_no_members'' [])
      else case parent_effective_set db c of
        Inl e \<Rightarrow> Inl e
      | Inr allowed \<Rightarrow>
          let outside = (case allowed of None \<Rightarrow> [] | Some ok \<Rightarrow> filter (\<lambda>i. i \<notin> set ok) ids) in
          if outside \<noteq> [] then Inl (ent_failure 400 ''not_in_parent'' [outside])
          else let new_ids = filter (\<lambda>i. i \<notin> set (member_ids db (ca_id c))) ids in
            Inr (length new_ids, db\<lparr>db_members := db_members db @
              map (\<lambda>i. \<lparr> cm_catalog = ca_id c, cm_model = i, cm_display = display_of db i \<rparr>) new_ids\<rparr>))"

text \<open>The prune of an operation: \<open>prune_exact\<close> shows that the walk always returns.\<close>

definition prune_now :: "cat_db \<Rightarrow> string \<Rightarrow> string list \<Rightarrow> nat \<times> cat_db" where
  "prune_now db p ids = (case prune db p ids of None \<Rightarrow> (0, db) | Some r \<Rightarrow> r)"

definition remove_members :: "cat_db \<Rightarrow> catalog \<Rightarrow> string list \<Rightarrow> (nat \<times> nat) \<times> cat_db" where
  "remove_members db c models =
     (let ids = uniq_texts models in
      if ids = [] then ((0, 0), db)
      else let (removed, db1) = delete_members (ca_id c) ids db;
               (pruned, db2) = prune_now db1 (ca_id c) ids
           in ((removed, pruned), db2))"

definition exclude_models :: "cat_db \<Rightarrow> catalog \<Rightarrow> js list \<Rightarrow> string option \<Rightarrow> ent_error + (nat \<times> nat) \<times> cat_db" where
  "exclude_models db c models reason =
     (if \<not> ca_default c then Inl (ent_failure 400 ''not_default'' [])
      else let ids = uniq_ids models;
               new_ids = filter (\<lambda>i. i \<notin> set (exclusion_ids db (ca_id c))) ids;
               db1 = db\<lparr>db_exclusions := db_exclusions db @
                 map (\<lambda>i. \<lparr> cx_catalog = ca_id c, cx_model = i, cx_reason = reason \<rparr>) new_ids\<rparr>;
               (pruned, db2) = prune_now db1 (ca_id c) ids
           in Inr ((length new_ids, pruned), db2))"

definition include_models :: "cat_db \<Rightarrow> catalog \<Rightarrow> js list \<Rightarrow> ent_error + nat \<times> cat_db" where
  "include_models db c models =
     (if \<not> ca_default c then Inl (ent_failure 400 ''not_default'' [])
      else let ids = uniq_ids models;
               hit = (\<lambda>r. cx_catalog r = ca_id c \<and> cx_model r \<in> set ids)
           in Inr (length (filter hit (db_exclusions db)),
                   db\<lparr>db_exclusions := filter (\<lambda>r. \<not> hit r) (db_exclusions db)\<rparr>))"

section \<open>Assignment\<close>

definition set_parent :: "string \<Rightarrow> string option \<Rightarrow> cat_db \<Rightarrow> cat_db" where
  "set_parent i p db =
     db\<lparr>db_catalogs := map (\<lambda>c. if ca_id c = i then c\<lparr>ca_parent := p\<rparr> else c) (db_catalogs db)\<rparr>"

text \<open>One round of the loop of \<open>reparentUserCatalogs\<close>, and the loop.\<close>

definition reparent_one :: "catalog \<Rightarrow> string list \<Rightarrow> catalog \<Rightarrow> nat \<times> cat_db \<Rightarrow> nat \<times> cat_db" where
  "reparent_one p allowed c st =
     (let (pruned, db) = st;
          db1 = set_parent (ca_id c) (Some (ca_id p)) db;
          gone = filter (\<lambda>i. i \<notin> set allowed) (member_ids db1 (ca_id c))
      in if gone = [] then (pruned, db1)
         else let ((removed, below), db2) = remove_members db1 (c\<lparr>ca_parent := Some (ca_id p)\<rparr>) gone
              in (pruned + (removed + below), db2))"

definition reparent_user_catalogs :: "cat_db \<Rightarrow> string \<Rightarrow> catalog \<Rightarrow> nat \<times> cat_db" where
  "reparent_user_catalogs db email p =
     fold (reparent_one p (effective_model_ids db p))
       (filter (\<lambda>c. ca_owner c = Some email) (db_catalogs db)) (0, db)"

definition touch_user :: "string \<Rightarrow> cat_db \<Rightarrow> cat_db" where
  "touch_user email db =
     (if email = [] \<or> is_service_key_email email \<or> map_of (db_users db) email \<noteq> None then db
      else db\<lparr>db_users := db_users db @ [(email, None)]\<rparr>)"

definition set_assignment :: "string \<Rightarrow> string option \<Rightarrow> cat_db \<Rightarrow> cat_db" where
  "set_assignment email i db =
     db\<lparr>db_users := map (\<lambda>(e, a). if e = email then (e, i) else (e, a)) (db_users db)\<rparr>"

definition assign_catalog :: "cat_db \<Rightarrow> string \<Rightarrow> string \<Rightarrow> ent_error + nat \<times> cat_db" where
  "assign_catalog db email i =
     (case get_catalog db i of
        None \<Rightarrow> Inl (ent_failure 404 ''catalog_not_found'' [])
      | Some c \<Rightarrow>
          if filled (ca_owner c) then Inl (ent_failure 400 ''not_assignable'' [])
          else if is_service_key_email email then Inl (ent_failure 400 ''not_a_user'' [])
          else Inr (reparent_user_catalogs (set_assignment email (Some (ca_id c)) (touch_user email db)) email c))"

definition unassign_catalog :: "cat_db \<Rightarrow> string \<Rightarrow> ent_error + nat \<times> cat_db" where
  "unassign_catalog db email =
     (let db1 = set_assignment email None db in
      case require_default db1 of
        Inl e \<Rightarrow> Inl e
      | Inr def_cat \<Rightarrow> Inr (reparent_user_catalogs db1 email def_cat))"

definition assert_deletable :: "cat_db \<Rightarrow> catalog \<Rightarrow> ent_error option" where
  "assert_deletable db c =
     (if ca_default c then Some (ent_failure 403 ''default_catalog'' [])
      else let assignments = map fst (filter (\<lambda>(e, a). a = Some (ca_id c)) (db_users db));
               children = child_ids db (ca_id c);
               teams = map tr_name (sort_key tr_name (filter (\<lambda>t. tr_catalog t = Some (ca_id c)) (db_teams db)))
           in if assignments \<noteq> [] \<or> children \<noteq> [] \<or> teams \<noteq> []
              then Some (ent_failure 409 ''has_dependants'' [assignments, children, teams]) else None)"

datatype affected = Everyone | Emails "string list"

definition affected_emails :: "cat_db \<Rightarrow> string \<Rightarrow> affected" where
  "affected_emails db i =
     (if (case get_catalog db i of None \<Rightarrow> False | Some c \<Rightarrow> ca_default c) then Everyone
      else Emails (sort (uniq (map fst (filter (\<lambda>(e, a). a = Some i) (db_users db)) @
             concat (map tr_members (filter (\<lambda>t. tr_catalog t = Some i) (db_teams db)))))))"

section \<open>The block of a validation response\<close>

definition team_catalog_of :: "cat_db \<Rightarrow> string \<Rightarrow> catalog option" where
  "team_catalog_of db team_id =
     (case find (\<lambda>t. tr_id t = team_id) (db_teams db) of
        None \<Rightarrow> None
      | Some t \<Rightarrow>
          if \<not> filled (tr_catalog t) then None
          else case get_catalog db (the (tr_catalog t)) of
                 Some c \<Rightarrow> if ca_default c then None else Some c
               | None \<Rightarrow> None)"

definition entitlement_block_for :: "string \<Rightarrow> cat_db \<Rightarrow> string \<Rightarrow> string option \<Rightarrow> ent_block \<times> cat_db" where
  "entitlement_block_for uuid db email team =
     (let assigned = get_assigned_catalog db email;
          owner = (case assigned of Some c \<Rightarrow> if ca_default c then None else Some c | None \<Rightarrow> None);
          (def_cat, db1) = (case assigned of
             Some c \<Rightarrow> if ca_default c then (c, db) else ensure_default_catalog uuid db
           | None \<Rightarrow> ensure_default_catalog uuid db);
          excluded = exclusion_ids db1 (ca_id def_cat);
          shown = (case owner of Some c \<Rightarrow> c | None \<Rightarrow> def_cat);
          team_cat = (case team of None \<Rightarrow> None | Some t \<Rightarrow> team_catalog_of db1 t);
          base = \<lparr> en_catalog_id = ca_id shown, en_catalog_name = ca_name shown,
                   en_team_catalog_id = map_option ca_id team_cat, en_team_catalog_name = map_option ca_name team_cat,
                   en_mode = Mode_All, en_exclude = None, en_include = None \<rparr>;
          all_but = (if excluded = [] then base else base\<lparr>en_exclude := Some excluded\<rparr>);
          listed = (\<lambda>ids. base\<lparr>en_mode := Mode_List, en_include := Some ids\<rparr>);
          owner_list = map_option (\<lambda>c. member_ids db1 (ca_id c)) owner;
          team_list = map_option (\<lambda>c. member_ids db1 (ca_id c)) team_cat
      in (if team = None
          then (case owner_list of Some ids \<Rightarrow> listed ids | None \<Rightarrow> all_but)
          else (case (owner_list, team_list) of
                  (None, None) \<Rightarrow> all_but
                | (Some os, Some ts) \<Rightarrow> listed (filter (\<lambda>i. i \<in> set ts) os)
                | (Some os, None) \<Rightarrow> listed (filter (\<lambda>i. i \<notin> set excluded) os)
                | (None, Some ts) \<Rightarrow> listed (filter (\<lambda>i. i \<notin> set excluded) ts)), db1))"

text \<open>The block as the JSON of the response.\<close>

definition block_json :: "ent_block \<Rightarrow> js" where
  "block_json b = JObj (
     [(''catalogId'', JStr (en_catalog_id b)), (''catalogName'', JStr (en_catalog_name b)),
      (''mode'', JStr (if en_mode b = Mode_All then ''all'' else ''list''))] @
     (case en_team_catalog_id b of None \<Rightarrow> [] | Some t \<Rightarrow> [(''teamCatalogId'', JStr t)]) @
     (case en_team_catalog_name b of None \<Rightarrow> [] | Some t \<Rightarrow> [(''teamCatalogName'', JStr t)]) @
     (case en_exclude b of None \<Rightarrow> [] | Some xs \<Rightarrow> [(''exclude'', JArr (map JStr xs))]) @
     (case en_include b of None \<Rightarrow> [] | Some xs \<Rightarrow> [(''include'', JArr (map JStr xs))]))"

section \<open>The handlers\<close>

record catalog_actor =
  ac_email :: string
  ac_roles :: "string list"

record create_request =
  cr_id :: "string option"
  cr_name :: string
  cr_owner :: "string option"
  cr_nested :: bool

text \<open>A field of an update is absent (\<open>None\<close>), or present with its value.\<close>

record update_request =
  ur_name :: "string option"
  ur_default :: "bool option"
  ur_owner :: "string option option"
  ur_parent :: "string option option"
  ur_nested :: bool

datatype catalog_action =
    Create create_request
  | Update string update_request
  | Delete_Catalog string
  | Add_Models string "js list"
  | Remove_Models string "js list"
  | Exclude_Models string "js list" "string option"
  | Include_Models string "js list"
  | Assign string string
  | Unassign string
  | Assign_Team string "string option"

datatype catalog_reply =
    Created catalog
  | Updated
  | Deleted
  | Added nat
  | Removed nat nat
  | Excluded nat nat
  | Included nat
  | Reassigned nat
  | Team_Assigned

type_synonym handled = "ent_error + catalog_reply \<times> affected \<times> cat_db"

definition actor_is_admin :: "catalog_actor \<Rightarrow> bool" where
  "actor_is_admin a = is_admin_role (ac_roles a)"

definition catalog_from_req :: "cat_db \<Rightarrow> string \<Rightarrow> ent_error + catalog" where
  "catalog_from_req db i =
     (case get_catalog db i of None \<Rightarrow> Inl (ent_failure 404 ''catalog_not_found'' []) | Some c \<Rightarrow> Inr c)"

definition owner_or_admin :: "catalog_actor \<Rightarrow> catalog \<Rightarrow> bool" where
  "owner_or_admin a c = (actor_is_admin a \<or> ca_owner c = Some (ac_email a))"

text \<open>\<open>CREATE\<close>: the checks of the before-handler, the parent of a user's catalog, and the insert, which the key
  constraint of the table refuses for an id in use.\<close>

definition user_parent :: "cat_db \<Rightarrow> string \<Rightarrow> ent_error + string option" where
  "user_parent db email =
     (case get_assigned_catalog db email of
        Some c \<Rightarrow> Inr (Some (ca_id c))
      | None \<Rightarrow> (case require_default db of Inl e \<Rightarrow> Inl e | Inr d \<Rightarrow> Inr (Some (ca_id d))))"

definition create_owner :: "catalog_actor \<Rightarrow> create_request \<Rightarrow> string option" where
  "create_owner a r = (if actor_is_admin a then cr_owner r else Some (ac_email a))"

definition create_parent :: "catalog_actor \<Rightarrow> create_request \<Rightarrow> cat_db \<Rightarrow> ent_error + string option" where
  "create_parent a r db =
     (if actor_is_admin a
      then if filled (cr_owner r) then user_parent db (the (cr_owner r)) else Inr None
      else user_parent db (ac_email a))"

definition create_catalog :: "string \<Rightarrow> catalog_actor \<Rightarrow> create_request \<Rightarrow> cat_db \<Rightarrow> handled" where
  "create_catalog uuid a r db =
     (if cr_nested r then Inl (ent_failure 400 ''nested'' [])
      else case create_parent a r db of
        Inl e \<Rightarrow> Inl e
      | Inr parent \<Rightarrow>
          let i = (case cr_id r of None \<Rightarrow> uuid | Some i \<Rightarrow> i);
              row = \<lparr> ca_id = i, ca_name = cr_name r, ca_default = False, ca_owner = create_owner a r,
                      ca_parent = parent \<rparr>
          in if get_catalog db i \<noteq> None then Inl (ent_failure 500 ''key_in_use'' [])
             else Inr (Created row, Emails [], db\<lparr>db_catalogs := db_catalogs db @ [row]\<rparr>))"

text \<open>\<open>UPDATE\<close>: the checks in the order of the before-handler, and the row.\<close>

definition parent_refused :: "cat_db \<Rightarrow> catalog \<Rightarrow> update_request \<Rightarrow> bool" where
  "parent_refused db c r =
     (case ur_parent r of
        Some (Some p) \<Rightarrow>
          \<not> filled (ca_owner c) \<or> p = ca_id c \<or>
          (case get_catalog db p of None \<Rightarrow> True | Some pc \<Rightarrow> filled (ca_owner pc))
      | _ \<Rightarrow> False)"

definition changes :: "'a option \<Rightarrow> 'a \<Rightarrow> bool" where
  "changes new old = (new \<noteq> None \<and> new \<noteq> Some old)"

definition update_refused :: "catalog_actor \<Rightarrow> cat_db \<Rightarrow> catalog \<Rightarrow> update_request \<Rightarrow> ent_error option" where
  "update_refused a db c r =
     (if ur_nested r then Some (ent_failure 400 ''nested'' [])
      else if changes (ur_default r) (ca_default c) then Some (ent_failure 400 ''default_fixed'' [])
      else if parent_refused db c r then Some (ent_failure 400 ''parent'' [])
      else if actor_is_admin a then None
      else if ca_owner c \<noteq> Some (ac_email a) then Some (ent_failure 403 ''forbidden'' [])
      else if changes (ur_owner r) (ca_owner c) \<or> changes (ur_parent r) (ca_parent c)
           then Some (ent_failure 400 ''field_fixed'' []) else None)"

definition updated_row :: "update_request \<Rightarrow> catalog \<Rightarrow> catalog" where
  "updated_row r c = c\<lparr> ca_name := (case ur_name r of None \<Rightarrow> ca_name c | Some n \<Rightarrow> n),
     ca_owner := (case ur_owner r of None \<Rightarrow> ca_owner c | Some v \<Rightarrow> v),
     ca_parent := (case ur_parent r of None \<Rightarrow> ca_parent c | Some v \<Rightarrow> v) \<rparr>"

definition update_catalog :: "catalog_actor \<Rightarrow> string \<Rightarrow> update_request \<Rightarrow> cat_db \<Rightarrow> handled" where
  "update_catalog a i r db =
     (case catalog_from_req db i of Inl e \<Rightarrow> Inl e
      | Inr c \<Rightarrow>
          (case update_refused a db c r of Some e \<Rightarrow> Inl e
           | None \<Rightarrow>
               let db' = db\<lparr>db_catalogs := map (\<lambda>x. if ca_id x = i then updated_row r x else x) (db_catalogs db)\<rparr>
               in Inr (Updated,
                    (if changes (ur_parent r) (ca_parent c) then affected_emails db' i else Emails []), db')))"

text \<open>\<open>DELETE\<close>: the checks, and the row with its members and exclusions (compositions).\<close>

definition delete_catalog :: "catalog_actor \<Rightarrow> string \<Rightarrow> cat_db \<Rightarrow> handled" where
  "delete_catalog a i db =
     (case catalog_from_req db i of Inl e \<Rightarrow> Inl e
      | Inr c \<Rightarrow>
          if \<not> owner_or_admin a c then Inl (ent_failure 403 ''forbidden'' [])
          else case assert_deletable db c of Some e \<Rightarrow> Inl e
            | None \<Rightarrow> Inr (Deleted, Emails [],
                db\<lparr> db_catalogs := filter (\<lambda>x. ca_id x \<noteq> i) (db_catalogs db),
                    db_members := filter (\<lambda>r. cm_catalog r \<noteq> i) (db_members db),
                    db_exclusions := filter (\<lambda>r. cx_catalog r \<noteq> i) (db_exclusions db) \<rparr>))"

definition add_models :: "catalog_actor \<Rightarrow> string \<Rightarrow> js list \<Rightarrow> cat_db \<Rightarrow> handled" where
  "add_models a i models db =
     (case catalog_from_req db i of Inl e \<Rightarrow> Inl e
      | Inr c \<Rightarrow>
          if \<not> owner_or_admin a c then Inl (ent_failure 403 ''forbidden'' [])
          else case add_members db c models of Inl e \<Rightarrow> Inl e
            | Inr (k, db') \<Rightarrow> Inr (Added k, affected_emails db' i, db'))"

definition remove_models :: "catalog_actor \<Rightarrow> string \<Rightarrow> js list \<Rightarrow> cat_db \<Rightarrow> handled" where
  "remove_models a i models db =
     (case catalog_from_req db i of Inl e \<Rightarrow> Inl e
      | Inr c \<Rightarrow>
          if \<not> owner_or_admin a c then Inl (ent_failure 403 ''forbidden'' [])
          else let ((k, p), db') = remove_members db c (collect_some jstring models)
               in Inr (Removed k p, affected_emails db' i, db'))"

definition exclude_models_on :: "string \<Rightarrow> js list \<Rightarrow> string option \<Rightarrow> cat_db \<Rightarrow> handled" where
  "exclude_models_on i models reason db =
     (case catalog_from_req db i of Inl e \<Rightarrow> Inl e
      | Inr c \<Rightarrow> (case exclude_models db c models reason of Inl e \<Rightarrow> Inl e
            | Inr ((k, p), db') \<Rightarrow> Inr (Excluded k p, Everyone, db')))"

definition include_models_on :: "string \<Rightarrow> js list \<Rightarrow> cat_db \<Rightarrow> handled" where
  "include_models_on i models db =
     (case catalog_from_req db i of Inl e \<Rightarrow> Inl e
      | Inr c \<Rightarrow> (case include_models db c models of Inl e \<Rightarrow> Inl e
            | Inr (k, db') \<Rightarrow> Inr (Included k, Everyone, db')))"

definition reassigned :: "string \<Rightarrow> ent_error + nat \<times> cat_db \<Rightarrow> handled" where
  "reassigned email r = (case r of Inl e \<Rightarrow> Inl e | Inr (k, db') \<Rightarrow> Inr (Reassigned k, Emails [email], db'))"

text \<open>The team's catalog (\<open>assignTeamCatalog\<close>): its checks and the column; the members are invalidated.\<close>

definition assign_team_catalog :: "string \<Rightarrow> string option \<Rightarrow> cat_db \<Rightarrow> handled" where
  "assign_team_catalog t i db =
     (let checked = (if \<not> filled i then Inr None
            else case get_catalog db (the i) of
              None \<Rightarrow> Inl (ent_failure 404 ''catalog_not_found'' [])
            | Some c \<Rightarrow> if filled (ca_owner c) then Inl (ent_failure 400 ''not_assignable'' []) else Inr i)
      in case checked of Inl e \<Rightarrow> Inl e
         | Inr v \<Rightarrow> (case find (\<lambda>x. tr_id x = t) (db_teams db) of
               None \<Rightarrow> Inl (ent_failure 404 ''team_not_found'' [])
             | Some team \<Rightarrow> Inr (Team_Assigned, Emails (if tr_catalog team = v then [] else tr_members team),
                 db\<lparr>db_teams := map (\<lambda>x. if tr_id x = t then x\<lparr>tr_catalog := v\<rparr> else x) (db_teams db)\<rparr>)))"

fun handle_catalog :: "string \<Rightarrow> catalog_actor \<Rightarrow> catalog_action \<Rightarrow> cat_db \<Rightarrow> handled" where
  "handle_catalog uuid a (Create r) db = create_catalog uuid a r db"
| "handle_catalog uuid a (Update i r) db = update_catalog a i r db"
| "handle_catalog uuid a (Delete_Catalog i) db = delete_catalog a i db"
| "handle_catalog uuid a (Add_Models i ms) db = add_models a i ms db"
| "handle_catalog uuid a (Remove_Models i ms) db = remove_models a i ms db"
| "handle_catalog uuid a (Exclude_Models i ms r) db = exclude_models_on i ms r db"
| "handle_catalog uuid a (Include_Models i ms) db = include_models_on i ms db"
| "handle_catalog uuid a (Assign e i) db = reassigned e (assign_catalog db e i)"
| "handle_catalog uuid a (Unassign e) db = reassigned e (unassign_catalog db e)"
| "handle_catalog uuid a (Assign_Team t i) db = assign_team_catalog t i db"

end
