(* ===== verification/Catalog_Invariant.thy ===== *)
theory Catalog_Invariant
  imports Catalog_Operations
begin

text \<open>
  What every operation on the entitlement catalogs keeps: the catalogs form a tree of depth one (the default and
  the admin catalogs are roots, a user's catalog hangs under a root), and a catalog's members stay inside the
  effective set of its parent. The exception is an administrator's change of a catalog's parent or owner by
  \<open>UPDATE\<close>, which prunes nothing.
\<close>

section \<open>The invariant\<close>

definition catalog_keys_ok :: "cat_db \<Rightarrow> bool" where
  "catalog_keys_ok db \<longleftrightarrow> distinct (map ca_id (db_catalogs db)) \<and>
     (\<forall>c \<in> set (db_catalogs db). ca_id c \<noteq> []) \<and>
     (\<forall>c \<in> set (db_catalogs db). \<forall>d \<in> set (db_catalogs db). ca_default c \<and> ca_default d \<longrightarrow> c = d)"

definition members_ok :: "cat_db \<Rightarrow> bool" where
  "members_ok db \<longleftrightarrow>
     (\<forall>r \<in> set (db_members db). trim (cm_model r) \<noteq> [] \<and>
        (\<exists>c \<in> set (db_catalogs db). ca_id c = cm_catalog r \<and> \<not> ca_default c))"

definition tree_ok :: "cat_db \<Rightarrow> bool" where
  "tree_ok db \<longleftrightarrow>
     (\<forall>c \<in> set (db_catalogs db).
        (ca_default c \<longrightarrow> \<not> filled (ca_owner c)) \<and>
        (\<not> filled (ca_owner c) \<longrightarrow> ca_parent c = None) \<and>
        (\<forall>i. ca_parent c = Some i \<longrightarrow> (\<exists>p \<in> set (db_catalogs db). ca_id p = i \<and> \<not> filled (ca_owner p))))"

definition assignable :: "cat_db \<Rightarrow> string option \<Rightarrow> bool" where
  "assignable db a \<longleftrightarrow> (filled a \<longrightarrow> (\<exists>c \<in> set (db_catalogs db). Some (ca_id c) = a \<and> \<not> filled (ca_owner c)))"

definition assignments_ok :: "cat_db \<Rightarrow> bool" where
  "assignments_ok db \<longleftrightarrow>
     (\<forall>(e, a) \<in> set (db_users db). assignable db a) \<and> (\<forall>t \<in> set (db_teams db). assignable db (tr_catalog t))"

text \<open>A catalog's members are inside the effective set of its parent.\<close>

definition within_parents :: "cat_db \<Rightarrow> bool" where
  "within_parents db \<longleftrightarrow>
     (\<forall>c \<in> set (db_catalogs db). \<forall>p \<in> set (db_catalogs db). ca_parent c = Some (ca_id p) \<longrightarrow>
        set (member_ids db (ca_id c)) \<subseteq> set (effective_model_ids db p))"

definition catalogs_ok :: "cat_db \<Rightarrow> bool" where
  "catalogs_ok db \<longleftrightarrow>
     catalog_keys_ok db \<and> members_ok db \<and> tree_ok db \<and> assignments_ok db \<and> within_parents db"

lemma set_effective:
  "set (effective_model_ids db c) =
     (if ca_default c then lm_id ` {r \<in> set (db_library db). offered r} - set (exclusion_ids db (ca_id c))
      else set (member_ids db (ca_id c)))"
  by (auto simp: effective_model_ids_def)

lemma get_catalog_Some: "get_catalog db i = Some c \<Longrightarrow> c \<in> set (db_catalogs db) \<and> ca_id c = i"
  by (auto simp: get_catalog_def find_Some_iff)

lemma get_catalog_None: "get_catalog db i = None \<longleftrightarrow> i \<notin> catalog_ids db"
  by (auto simp: get_catalog_def find_None_iff catalog_ids_def)

lemma same_key: "catalog_keys_ok db \<Longrightarrow> c \<in> set (db_catalogs db) \<Longrightarrow> d \<in> set (db_catalogs db) \<Longrightarrow>
    ca_id c = ca_id d \<Longrightarrow> c = d"
  by (auto simp: catalog_keys_ok_def distinct_map inj_on_def)

lemma get_catalog_known: "catalog_keys_ok db \<Longrightarrow> c \<in> set (db_catalogs db) \<Longrightarrow> get_catalog db (ca_id c) = Some c"
  by (metis get_catalog_None get_catalog_Some catalog_ids_def image_eqI not_Some_eq same_key)

lemma set_member_ids: "set (member_ids db c) = {cm_model r | r. r \<in> set (db_members db) \<and> cm_catalog r = c}"
  by (auto simp: member_ids_def)

lemma default_no_members:
  assumes "catalog_keys_ok db" and "members_ok db" and "c \<in> set (db_catalogs db)" and "ca_default c"
  shows "member_ids db (ca_id c) = []"
  using assms same_key[OF assms(1)] by (force simp: member_ids_def members_ok_def filter_empty_conv)

section \<open>Deletions of member rows\<close>

lemma prune_now_without:
  "prune_now db p ids = (length (db_members db) - length (db_members (without (uniq_texts ids) {c. c \<noteq> p \<and> descends db p c} db)),
     without (uniq_texts ids) {c. c \<noteq> p \<and> descends db p c} db)"
  using prune_walks[where db = db and p = p and removed = ids] by (simp add: prune_now_def Let_def)

text \<open>The catalogs a removal from \<open>c\<close> touches.\<close>

definition below :: "cat_db \<Rightarrow> string \<Rightarrow> string set" where
  "below db c = insert c {d. descends db c d}"

lemma remove_members_without: "snd (remove_members db c ids) = without (uniq_texts ids) (below db (ca_id c)) db"
proof -
  have "insert (ca_id c) {d. d \<noteq> ca_id c \<and> descends db (ca_id c) d} = below db (ca_id c)"
    by (auto simp: below_def)
  then show ?thesis
    by (rule_tac c = "ca_id c" and ids = "uniq_texts ids" and db = db in delete_members_without)
       (simp add: remove_members_def prune_now_without Let_def without_without split: prod.splits)
qed

lemma without_keeps:
  "catalog_keys_ok (without ids V db) = catalog_keys_ok db" "tree_ok (without ids V db) = tree_ok db"
  "assignments_ok (without ids V db) = assignments_ok db" "members_ok db \<Longrightarrow> members_ok (without ids V db)"
  by (auto simp: catalog_keys_ok_def tree_ok_def assignments_ok_def assignable_def members_ok_def without_def)

lemma exclusion_ids_without [simp, left_simps]: "exclusion_ids (without ids V db) = exclusion_ids db"
  by (simp add: exclusion_ids_def fun_eq_iff)

lemma withinD:
  "within_parents db \<Longrightarrow> c \<in> set (db_catalogs db) \<Longrightarrow> p \<in> set (db_catalogs db) \<Longrightarrow> ca_parent c = Some (ca_id p) \<Longrightarrow>
     set (member_ids db (ca_id c)) \<subseteq> set (effective_model_ids db p)"
  by (simp add: within_parents_def)

lemma within_without:
  assumes "within_parents db"
    and closed: "\<And>c p. c \<in> set (db_catalogs db) \<Longrightarrow> p \<in> set (db_catalogs db) \<Longrightarrow> ca_parent c = Some (ca_id p) \<Longrightarrow>
      ca_id p \<in> V \<Longrightarrow> ca_id c \<in> V"
  shows "within_parents (without ids V db)"
proof -
  have "set (member_ids (without ids V db) (ca_id c)) \<subseteq> set (effective_model_ids (without ids V db) p)"
    if "c \<in> set (db_catalogs db)" "p \<in> set (db_catalogs db)" "ca_parent c = Some (ca_id p)" for c p
    using withinD[OF assms(1) that] closed[OF that]
    by (cases "ca_default p") (auto simp: set_effective member_ids_without split: if_splits)
  then show ?thesis by (simp add: within_parents_def)
qed

lemma below_closed:
  "c \<in> set (db_catalogs db) \<Longrightarrow> ca_parent c = Some p \<Longrightarrow> p \<in> below db q \<Longrightarrow> ca_id c \<in> below db q"
  by (auto simp: below_def child_ids_def intro: descends.intros)

lemma remove_keeps: "catalogs_ok db \<Longrightarrow> catalogs_ok (snd (remove_members db c ids))"
  unfolding remove_members_without catalogs_ok_def
  by (auto simp: without_keeps intro!: within_without dest: below_closed)

section \<open>Members and exclusions\<close>

lemma member_ids_append:
  "member_ids (db\<lparr>db_members := db_members db @ map f ids\<rparr>) c =
     member_ids db c @ map cm_model (filter (\<lambda>r. cm_catalog r = c) (map f ids))"
  by (simp add: member_ids_def)

lemma set_uniq_ids: "i \<in> set (uniq_ids ids) \<Longrightarrow> trim i \<noteq> []"
  by (simp add: uniq_ids_def uniq_texts_def)

lemma add_keeps:
  assumes ok: "catalogs_ok db" and c: "c \<in> set (db_catalogs db)" and r: "add_members db c models = Inr (k, db')"
  shows "catalogs_ok db'"
proof -
  note parts = ok[unfolded catalogs_ok_def]
  let ?ids = "filter (\<lambda>i. i \<notin> set (member_ids db (ca_id c))) (uniq_ids models)"
  have nd: "\<not> ca_default c"
    and db': "db' = db\<lparr>db_members := db_members db @
      map (\<lambda>i. \<lparr> cm_catalog = ca_id c, cm_model = i, cm_display = display_of db i \<rparr>) ?ids\<rparr>"
    using r by (auto simp: add_members_def Let_def split: if_splits sum.splits option.splits)
  have checked: "set (uniq_ids models) \<subseteq> set xs" if "parent_effective_set db c = Inr (Some xs)" for xs
    using r that nd by (auto simp: add_members_def Let_def filter_empty_conv split: if_splits)
  have mem: "member_ids db' d = member_ids db d @ (if d = ca_id c then ?ids else [])" for d
    by (simp add: db' member_ids_def o_def)
  have same: "db_catalogs db' = db_catalogs db" "db_users db' = db_users db" "db_teams db' = db_teams db"
    "db_library db' = db_library db" "exclusion_ids db' = exclusion_ids db"
    by (simp_all add: db' exclusion_ids_def fun_eq_iff)
  have "members_ok db'"
    using parts c nd set_uniq_ids by (auto simp: members_ok_def db' image_iff)
  moreover have "set (member_ids db' (ca_id d)) \<subseteq> set (effective_model_ids db' p)"
    if d: "d \<in> set (db_catalogs db)" "p \<in> set (db_catalogs db)" "ca_parent d = Some (ca_id p)" for d p
  proof -
    have grown: "set (effective_model_ids db p) \<subseteq> set (effective_model_ids db' p)"
      by (auto simp: set_effective mem same)
    have "set ?ids \<subseteq> set (effective_model_ids db p)" if "d = c"
      using checked d that get_catalog_known[of db p] parts
      by (auto simp: parent_effective_set_def filled_def catalog_keys_ok_def)
    then show ?thesis
      using grown withinD[OF _ d] parts same_key[of db d c] c d by (auto simp: mem)
  qed
  ultimately show ?thesis
    using parts by (simp add: catalogs_ok_def catalog_keys_ok_def tree_ok_def assignments_ok_def assignable_def within_parents_def same)
qed

lemma uniq_texts_ids [simp]: "uniq_texts (uniq_ids ids) = uniq_ids ids"
  by (simp add: uniq_ids_def)

lemma exclude_keeps:
  assumes ok: "catalogs_ok db" and c: "c \<in> set (db_catalogs db)" and r: "exclude_models db c models reason = Inr (ks, db')"
  shows "catalogs_ok db'"
proof -
  note parts = ok[unfolded catalogs_ok_def]
  let ?ids = "uniq_ids models" and ?V = "{d. d \<noteq> ca_id c \<and> descends db (ca_id c) d}"
  define db1 where "db1 = db\<lparr>db_exclusions := db_exclusions db @
      map (\<lambda>i. \<lparr> cx_catalog = ca_id c, cx_model = i, cx_reason = reason \<rparr>)
        (filter (\<lambda>i. i \<notin> set (exclusion_ids db (ca_id c))) ?ids)\<rparr>"
  have V: "{d. d \<noteq> ca_id c \<and> descends db1 (ca_id c) d} = ?V"
    using descends_cong[of db _ _ db1] descends_cong[of db1 _ _ db] by (auto simp: db1_def)
  have def_c: "ca_default c" and db': "db' = without ?ids ?V db1"
    using r by (auto simp: exclude_models_def prune_now_without Let_def V db1_def[symmetric] split: if_splits)
  have same: "db_catalogs db' = db_catalogs db" "db_users db' = db_users db" "db_teams db' = db_teams db"
    "db_library db' = db_library db"
    by (simp_all add: db' db1_def)
  have mem: "member_ids db' d = (if d \<in> ?V then filter (\<lambda>m. m \<notin> set ?ids) (member_ids db d) else member_ids db d)" for d
    by (simp add: db' db1_def member_ids_def without_def filter_map o_def cong: filter_cong conj_cong)
       (auto intro!: arg_cong[where f = "map cm_model"] filter_cong)
  have exc: "set (exclusion_ids db' (ca_id c)) = set (exclusion_ids db (ca_id c)) \<union> set ?ids"
    by (auto simp: db' db1_def exclusion_ids_def)
  have "members_ok db'"
    using parts by (auto simp: members_ok_def db' db1_def without_def)
  moreover have "set (member_ids db' (ca_id d)) \<subseteq> set (effective_model_ids db' p)"
    if d: "d \<in> set (db_catalogs db)" "p \<in> set (db_catalogs db)" "ca_parent d = Some (ca_id p)" for d p
  proof -
    have "ca_id d \<noteq> ca_id c"
      using parts c d(1,3) def_c same_key[of db d c] by (auto simp: tree_ok_def)
    moreover have "ca_id d \<in> set (child_ids db (ca_id p))" using d by (auto simp: child_ids_def)
    ultimately have down: "ca_id p \<in> insert (ca_id c) ?V \<Longrightarrow> ca_id d \<in> ?V"
      by (auto intro: descends.intros)
    show ?thesis
    proof (cases "ca_default p")
      case True
      then have "p = c" using parts c d def_c by (simp add: catalog_keys_ok_def)
      then show ?thesis using withinD[OF _ d] parts down def_c by (auto simp: mem set_effective exc same)
    next
      case False
      then show ?thesis using withinD[OF _ d] parts down by (auto simp: mem set_effective split: if_splits)
    qed
  qed
  ultimately show ?thesis
    using parts by (simp add: catalogs_ok_def catalog_keys_ok_def tree_ok_def assignments_ok_def assignable_def within_parents_def same)
qed

lemma include_keeps:
  assumes ok: "catalogs_ok db" and r: "include_models db c models = Inr (k, db')"
  shows "catalogs_ok db'"
proof -
  have db': "db' = db\<lparr>db_exclusions := filter (\<lambda>r. \<not> (cx_catalog r = ca_id c \<and> cx_model r \<in> set (uniq_ids models)))
      (db_exclusions db)\<rparr>"
    using r by (auto simp: include_models_def Let_def split: if_splits)
  have same: "db_catalogs db' = db_catalogs db" "db_users db' = db_users db" "db_teams db' = db_teams db"
    "db_members db' = db_members db" "member_ids db' = member_ids db"
    by (simp_all add: db' member_ids_def fun_eq_iff)
  have grown: "set (effective_model_ids db p) \<subseteq> set (effective_model_ids db' p)" for p
    by (auto simp: db' set_effective exclusion_ids_def member_ids_def)
  have "within_parents db'"
    using ok subset_trans[OF _ grown] by (simp add: catalogs_ok_def within_parents_def same)
  then show ?thesis
    using ok by (simp add: catalogs_ok_def catalog_keys_ok_def members_ok_def tree_ok_def assignments_ok_def assignable_def same)
qed

section \<open>Creation, update and deletion\<close>

lemma sort_key_Nil [simp]: "sort_key f xs = [] \<longleftrightarrow> xs = []"
  by (metis set_empty set_sort)

lemma parent_known: "tree_ok db \<Longrightarrow> c \<in> set (db_catalogs db) \<Longrightarrow> ca_parent c = Some i \<Longrightarrow> i \<in> catalog_ids db"
  by (force simp: tree_ok_def catalog_ids_def)

lemma assigned_root:
  assumes "catalogs_ok db" and "get_assigned_catalog db e = Some c"
  shows "c \<in> set (db_catalogs db) \<and> \<not> filled (ca_owner c)"
proof -
  obtain i where i: "map_of (db_users db) e = Some (Some i)" "i \<noteq> []" "get_catalog db i = Some c"
    using assms(2) by (auto simp: get_assigned_catalog_def split: option.splits if_splits)
  then have "assignable db (Some i)"
    using assms(1) map_of_SomeD[OF i(1)] by (auto simp: catalogs_ok_def assignments_ok_def)
  then obtain d where "d \<in> set (db_catalogs db)" "ca_id d = i" "\<not> filled (ca_owner d)"
    using i(2) by (auto simp: assignable_def filled_def)
  then show ?thesis
    using assms(1) get_catalog_known[of db d] i(3) by (auto simp: catalogs_ok_def)
qed

lemma default_root: "catalogs_ok db \<Longrightarrow> get_default_catalog db = Some c \<Longrightarrow>
    c \<in> set (db_catalogs db) \<and> ca_default c \<and> \<not> filled (ca_owner c)"
  by (auto simp: get_default_catalog_def find_Some_iff catalogs_ok_def tree_ok_def)

lemma user_parent_root:
  "catalogs_ok db \<Longrightarrow> user_parent db e = Inr p \<Longrightarrow>
     \<exists>c \<in> set (db_catalogs db). p = Some (ca_id c) \<and> \<not> filled (ca_owner c)"
  using assigned_root[of db e] default_root[of db]
  by (auto simp: user_parent_def require_default_def split: option.splits)

text \<open>A new row with an unused id, which is a root or hangs under one.\<close>

definition add_row :: "catalog \<Rightarrow> cat_db \<Rightarrow> cat_db" where
  "add_row row db = db\<lparr>db_catalogs := db_catalogs db @ [row]\<rparr>"

lemma add_row_keeps:
  assumes ok: "catalogs_ok db" and new_id: "ca_id row \<notin> catalog_ids db" "ca_id row \<noteq> []"
    and sole: "ca_default row \<Longrightarrow> get_default_catalog db = None" and free: "ca_default row \<Longrightarrow> \<not> filled (ca_owner row)"
    and root: "\<not> filled (ca_owner row) \<Longrightarrow> ca_parent row = None"
    and parent: "\<And>i. ca_parent row = Some i \<Longrightarrow> \<exists>p \<in> set (db_catalogs db). ca_id p = i \<and> \<not> filled (ca_owner p)"
  shows "catalogs_ok (add_row row db)"
proof -
  note parts = ok[unfolded catalogs_ok_def]
  have none: "member_ids db (ca_id row) = []"
    using parts new_id by (force simp: member_ids_def filter_empty_conv members_ok_def catalog_ids_def image_iff)
  have same: "db_catalogs (add_row row db) = db_catalogs db @ [row]" "db_users (add_row row db) = db_users db"
    "db_teams (add_row row db) = db_teams db" "db_members (add_row row db) = db_members db"
    "member_ids (add_row row db) = member_ids db" "effective_model_ids (add_row row db) = effective_model_ids db"
    by (simp_all add: add_row_def member_ids_def exclusion_ids_def effective_model_ids_def fun_eq_iff)
  have "catalog_keys_ok (add_row row db)"
    using parts new_id sole
    by (auto simp: catalog_keys_ok_def same catalog_ids_def get_default_catalog_def find_None_iff)
  moreover have "members_ok (add_row row db)" using parts by (auto simp: members_ok_def same)
  moreover have "tree_ok (add_row row db)" using parts free root parent by (fastforce simp: tree_ok_def same)
  moreover have "assignments_ok (add_row row db)"
    using parts by (fastforce simp: assignments_ok_def assignable_def same)
  moreover have "within_parents (add_row row db)"
  proof -
    have "ca_parent c \<noteq> Some (ca_id row)" if "c \<in> set (db_catalogs db)" for c
      using parent_known[of db c "ca_id row"] parts that new_id(1) by auto
    moreover have "ca_parent row \<noteq> Some (ca_id row)" by (metis catalog_ids_def image_eqI new_id(1) parent)
    ultimately show ?thesis using parts none by (auto simp: within_parents_def same)
  qed
  ultimately show ?thesis by (simp add: catalogs_ok_def)
qed

lemma create_keeps:
  assumes ok: "catalogs_ok db" and r: "create_catalog uuid a req db = Inr (rep, aff, db')"
    and ids: "uuid \<noteq> []" "cr_id req \<noteq> Some []" "ac_email a \<noteq> []"
  shows "catalogs_ok db'"
proof -
  let ?i = "case cr_id req of None \<Rightarrow> uuid | Some i \<Rightarrow> i"
  obtain parent where p: "create_parent a req db = Inr parent" and i: "get_catalog db ?i = None"
    and db': "db' = add_row \<lparr> ca_id = ?i, ca_name = cr_name req, ca_default = False, ca_owner = create_owner a req,
        ca_parent = parent \<rparr> db"
    using r by (auto simp: create_catalog_def add_row_def Let_def split: if_splits sum.splits)
  have "?i \<noteq> []" using ids by (auto split: option.splits)
  moreover have "\<not> filled (create_owner a req) \<Longrightarrow> parent = None"
    using p ids(3) by (auto simp: create_owner_def create_parent_def filled_def split: if_splits)
  moreover have "\<exists>q \<in> set (db_catalogs db). ca_id q = j \<and> \<not> filled (ca_owner q)" if "parent = Some j" for j
    using p that user_parent_root[OF ok] by (fastforce simp: create_parent_def split: if_splits)
  ultimately show ?thesis
    unfolding db' using i by (intro add_row_keeps[OF ok]) (auto simp: get_catalog_None)
qed

lemma ensure_default_keeps:
  assumes "catalogs_ok db" and "uuid \<noteq> []" and "uuid \<notin> catalog_ids db"
  shows "catalogs_ok (snd (ensure_default_catalog uuid db))"
  using assms add_row_keeps[of db "\<lparr> ca_id = uuid, ca_name = ''Default'', ca_default = True, ca_owner = None, ca_parent = None \<rparr>"]
  by (auto simp: ensure_default_catalog_def add_row_def filled_def Let_def split: option.splits)

lemma renamed_keeps:
  assumes ok: "catalogs_ok db"
    and f: "\<And>x. ca_id (f x) = ca_id x" "\<And>x. ca_default (f x) = ca_default x"
      "\<And>x. ca_owner (f x) = ca_owner x" "\<And>x. ca_parent (f x) = ca_parent x"
  shows "catalogs_ok (db\<lparr>db_catalogs := map f (db_catalogs db)\<rparr>)"
proof -
  let ?db = "db\<lparr>db_catalogs := map f (db_catalogs db)\<rparr>"
  note parts = ok[unfolded catalogs_ok_def]
  have mem: "member_ids ?db = member_ids db" by (simp add: member_ids_def fun_eq_iff)
  have eff: "effective_model_ids ?db (f x) = effective_model_ids db x" for x
    by (simp add: effective_model_ids_def f mem exclusion_ids_def)
  have "catalog_keys_ok ?db" using parts by (auto simp: catalog_keys_ok_def f o_def)
  moreover have "members_ok ?db" using parts by (simp add: members_ok_def f)
  moreover have "tree_ok ?db" using parts by (simp add: tree_ok_def f)
  moreover have "assignments_ok ?db" using parts by (simp add: assignments_ok_def assignable_def f)
  moreover have "within_parents ?db" using parts by (simp add: within_parents_def f mem eff)
  ultimately show ?thesis by (simp add: catalogs_ok_def)
qed

lemma update_keeps:
  assumes ok: "catalogs_ok db" and r: "update_catalog a i req db = Inr (rep, aff, db')"
    and plain: "ur_owner req = None" "ur_parent req = None"
  shows "catalogs_ok db'"
proof -
  define f where "f = (\<lambda>x. if ca_id x = i then updated_row req x else x)"
  have db': "db' = db\<lparr>db_catalogs := map f (db_catalogs db)\<rparr>"
    using r by (auto simp: update_catalog_def Let_def f_def split: sum.splits option.splits)
  show ?thesis
    unfolding db' by (rule renamed_keeps[OF ok]) (simp_all add: f_def updated_row_def plain)
qed

lemma delete_keeps:
  assumes ok: "catalogs_ok db" and r: "delete_catalog a i db = Inr (rep, aff, db')"
  shows "catalogs_ok db'"
proof -
  note parts = ok[unfolded catalogs_ok_def]
  obtain c where c: "get_catalog db i = Some c" and free: "assert_deletable db c = None"
    and db': "db' = db\<lparr> db_catalogs := filter (\<lambda>x. ca_id x \<noteq> i) (db_catalogs db),
        db_members := filter (\<lambda>r. cm_catalog r \<noteq> i) (db_members db),
        db_exclusions := filter (\<lambda>r. cx_catalog r \<noteq> i) (db_exclusions db) \<rparr>"
    using r by (auto simp: delete_catalog_def catalog_from_req_def split: sum.splits option.splits if_splits)
  have ci: "c \<in> set (db_catalogs db)" "ca_id c = i" using get_catalog_Some[OF c] by auto
  have nd: "\<not> ca_default c" and kids: "child_ids db i = []"
    and users: "\<And>e. (e, Some i) \<notin> set (db_users db)" and teams: "\<And>t. t \<in> set (db_teams db) \<Longrightarrow> tr_catalog t \<noteq> Some i"
    using free ci by (auto simp: assert_deletable_def Let_def filter_empty_conv split: if_splits)
  have mem: "member_ids db' d = (if d = i then [] else member_ids db d)" for d
    by (auto simp: db' member_ids_def intro!: arg_cong[where f = "map cm_model"] filter_cong)
  have "ca_id p \<noteq> i" if "p \<in> set (db_catalogs db)" "ca_default p" for p
    using parts ci nd that same_key[of db p c] by auto
  then have eff: "effective_model_ids db' p = effective_model_ids db p" if "p \<in> set (db_catalogs db)" "ca_id p \<noteq> i" for p
  proof -
    have "exclusion_ids db' (ca_id p) = exclusion_ids db (ca_id p)"
      using that by (auto simp: db' exclusion_ids_def intro!: arg_cong[where f = "map cx_model"] filter_cong)
    then show ?thesis using that by (simp add: effective_model_ids_def mem) (simp add: db')
  qed
  have kept: "q \<in> set (db_catalogs db')" if "q \<in> set (db_catalogs db)" "ca_id q \<noteq> i" for q
    using that by (simp add: db')
  have parent: "ca_parent q \<noteq> Some i" if "q \<in> set (db_catalogs db)" for q
    using kids that by (auto simp: child_ids_def filter_empty_conv)
  have "catalog_keys_ok db'" using parts by (auto simp: catalog_keys_ok_def db' distinct_map_filter)
  moreover have "members_ok db'" using parts kept by (fastforce simp: members_ok_def db')
  moreover have "tree_ok db'" using parts parent by (fastforce simp: tree_ok_def db')
  moreover have "assignable db' x" if "assignable db x" "x \<noteq> Some i" for x
    using that kept by (fastforce simp: assignable_def)
  then have "assignments_ok db'"
    using parts users teams by (fastforce simp: assignments_ok_def db')
  moreover have "within_parents db'"
  proof -
    have cats: "db_catalogs db' = filter (\<lambda>x. ca_id x \<noteq> i) (db_catalogs db)" by (simp add: db')
    show ?thesis using parts eff by (auto simp: within_parents_def mem cats subset_eq)
  qed
  ultimately show ?thesis by (simp add: catalogs_ok_def)
qed

section \<open>Assignment\<close>

lemma users_keep:
  assumes ok: "catalogs_ok db" and "\<And>e a. (e, a) \<in> set us \<Longrightarrow> assignable db a"
  shows "catalogs_ok (db\<lparr>db_users := us\<rparr>)"
proof -
  have "member_ids (db\<lparr>db_users := us\<rparr>) = member_ids db"
    "effective_model_ids (db\<lparr>db_users := us\<rparr>) = effective_model_ids db"
    by (simp_all add: member_ids_def effective_model_ids_def exclusion_ids_def fun_eq_iff)
  then show ?thesis
    using assms by (auto simp: catalogs_ok_def catalog_keys_ok_def members_ok_def tree_ok_def assignments_ok_def assignable_def
        within_parents_def)
qed

lemma user_assignable: "catalogs_ok db \<Longrightarrow> (e, a) \<in> set (db_users db) \<Longrightarrow> assignable db a"
  by (auto simp: catalogs_ok_def assignments_ok_def)

lemma assignable_None [simp]: "assignable db None"
  by (simp add: assignable_def filled_def)

lemma touch_keeps: "catalogs_ok db \<Longrightarrow> catalogs_ok (touch_user e db)"
proof -
  assume ok: "catalogs_ok db"
  have "catalogs_ok (db\<lparr>db_users := db_users db @ [(e, None)]\<rparr>)"
    by (rule users_keep[OF ok]) (use user_assignable[OF ok] in auto)
  then show ?thesis using ok by (simp add: touch_user_def)
qed

lemma touch_fields [simp]:
  "db_catalogs (touch_user e db) = db_catalogs db" "db_members (touch_user e db) = db_members db"
  "db_exclusions (touch_user e db) = db_exclusions db" "db_library (touch_user e db) = db_library db"
  "db_teams (touch_user e db) = db_teams db"
  by (simp_all add: touch_user_def)

lemma set_assignment_keeps: "catalogs_ok db \<Longrightarrow> assignable db i \<Longrightarrow> catalogs_ok (set_assignment e i db)"
  unfolding set_assignment_def by (rule users_keep) (auto split: if_splits dest: user_assignable)

lemma set_assignment_fields [simp]:
  "db_catalogs (set_assignment e i db) = db_catalogs db" "db_members (set_assignment e i db) = db_members db"
  "db_exclusions (set_assignment e i db) = db_exclusions db" "db_library (set_assignment e i db) = db_library db"
  "db_teams (set_assignment e i db) = db_teams db"
  by (simp_all add: set_assignment_def)

lemma descends_children: "descends db a d \<Longrightarrow> child_ids db a \<noteq> []"
  by (induction rule: descends.induct) auto

text \<open>Putting a user's catalog under another root and deleting the members the root lacks.\<close>

definition moved :: "catalog \<Rightarrow> catalog \<Rightarrow> cat_db \<Rightarrow> cat_db" where
  "moved p c db =
     without (filter (\<lambda>i. i \<notin> set (effective_model_ids db p)) (member_ids db (ca_id c))) {ca_id c}
       (set_parent (ca_id c) (Some (ca_id p)) db)"

lemma set_parent_fields [simp, left_simps]:
  "member_ids (set_parent i p db) = member_ids db" "exclusion_ids (set_parent i p db) = exclusion_ids db"
  "db_library (set_parent i p db) = db_library db" "db_users (set_parent i p db) = db_users db"
  "db_teams (set_parent i p db) = db_teams db" "effective_model_ids (set_parent i p db) = effective_model_ids db"
  "db_members (set_parent i p db) = db_members db"
  by (simp_all add: set_parent_def member_ids_def exclusion_ids_def effective_model_ids_def fun_eq_iff)

lemma set_set_parent:
  "set (db_catalogs (set_parent i p db)) = (\<lambda>c. if ca_id c = i then c\<lparr>ca_parent := p\<rparr> else c) ` set (db_catalogs db)"
  by (simp add: set_parent_def)

lemma set_parent_ids [simp]: "map ca_id (db_catalogs (set_parent i p db)) = map ca_id (db_catalogs db)"
  by (simp add: set_parent_def)

lemma moved_fields [simp, left_simps]:
  "db_catalogs (moved p c db) = db_catalogs (set_parent (ca_id c) (Some (ca_id p)) db)"
  "exclusion_ids (moved p c db) = exclusion_ids db" "db_library (moved p c db) = db_library db"
  "db_users (moved p c db) = db_users db" "db_teams (moved p c db) = db_teams db"
  by (simp_all add: moved_def)

lemma member_ids_moved:
  "member_ids (moved p c db) d =
     (if d = ca_id c then filter (\<lambda>i. i \<in> set (effective_model_ids db p)) (member_ids db d) else member_ids db d)"
  by (auto simp: moved_def member_ids_without intro!: filter_cong)

lemma moved_members: "set (db_members (moved p c db)) \<subseteq> set (db_members db)"
  by (auto simp: moved_def without_def)

lemma effective_moved: "ca_id q \<noteq> ca_id c \<Longrightarrow> effective_model_ids (moved p c db) q = effective_model_ids db q"
  by (simp add: effective_model_ids_def member_ids_moved)

text \<open>The catalog that moves is a user's, the new parent is a root.\<close>

definition movable :: "cat_db \<Rightarrow> catalog \<Rightarrow> catalog \<Rightarrow> bool" where
  "movable db p c \<longleftrightarrow> catalogs_ok db \<and> filled (ca_owner c) \<and> p \<in> set (db_catalogs db) \<and> \<not> filled (ca_owner p) \<and>
     (\<exists>c' \<in> set (db_catalogs db). ca_id c' = ca_id c \<and> filled (ca_owner c'))"

lemma moved_keeps:
  assumes m: "movable db p c"
  shows "catalogs_ok (moved p c db)"
proof -
  note parts = m[unfolded movable_def catalogs_ok_def]
  define f :: "catalog \<Rightarrow> catalog" where "f = (\<lambda>x. if ca_id x = ca_id c then x\<lparr>ca_parent := Some (ca_id p)\<rparr> else x)"
  have f: "ca_id (f x) = ca_id x" "ca_owner (f x) = ca_owner x" "ca_default (f x) = ca_default x"
    "ca_parent (f x) = (if ca_id x = ca_id c then Some (ca_id p) else ca_parent x)" for x by (simp_all add: f_def)
  have rows: "set (db_catalogs (moved p c db)) = f ` set (db_catalogs db)" by (simp add: set_set_parent f_def)
  have user: "filled (ca_owner x)" if "x \<in> set (db_catalogs db)" "ca_id x = ca_id c" for x
    using parts that same_key[of db x] by metis
  have eff: "effective_model_ids (moved p c db) (f x) = effective_model_ids db x"
    if "x \<in> set (db_catalogs db)" "\<not> filled (ca_owner x)" for x
  proof -
    have "ca_id x \<noteq> ca_id c" using user that by auto
    then have "f x = x" by (simp add: f_def)
    then show ?thesis using effective_moved[OF \<open>ca_id x \<noteq> ca_id c\<close>] by simp
  qed
  have "distinct (map ca_id (db_catalogs (moved p c db)))" using parts by (simp add: catalog_keys_ok_def)
  then have "catalog_keys_ok (moved p c db)" using parts unfolding catalog_keys_ok_def rows by (auto simp: f)
  moreover have "members_ok (moved p c db)"
    using parts moved_members[of p c db] unfolding members_ok_def rows by (fastforce simp: f)
  moreover have "tree_ok (moved p c db)"
  proof -
    have "(ca_default x \<longrightarrow> \<not> filled (ca_owner x)) \<and> (\<not> filled (ca_owner x) \<longrightarrow> ca_parent (f x) = None) \<and>
        (\<forall>i. ca_parent (f x) = Some i \<longrightarrow> (\<exists>q \<in> set (db_catalogs db). ca_id q = i \<and> \<not> filled (ca_owner q)))"
      if x: "x \<in> set (db_catalogs db)" for x
    proof (cases "ca_id x = ca_id c")
      case True
      then show ?thesis using user[OF x True] parts x by (auto simp: f tree_ok_def)
    next
      case False
      then show ?thesis using parts x by (simp add: f tree_ok_def)
    qed
    then show ?thesis unfolding tree_ok_def rows by (simp add: f)
  qed
  moreover have "assignments_ok (moved p c db)"
    using parts unfolding assignments_ok_def assignable_def rows by (simp add: f)
  moreover have "set (member_ids (moved p c db) (ca_id x)) \<subseteq> set (effective_model_ids (moved p c db) (f q))"
    if x: "x \<in> set (db_catalogs db)" "q \<in> set (db_catalogs db)" "ca_parent (f x) = Some (ca_id q)" for x q
  proof (cases "ca_id x = ca_id c")
    case True
    then have "q = p" using x(2,3) parts same_key[of db q p] by (simp add: f)
    then show ?thesis using True eff[OF x(2)] parts by (auto simp: member_ids_moved)
  next
    case False
    then have up: "ca_parent x = Some (ca_id q)" using x(3) by (simp add: f)
    then have "\<not> filled (ca_owner q)" using x(1,2) parts same_key[of db q] unfolding tree_ok_def by metis
    then show ?thesis using False eff[OF x(2)] withinD[OF _ x(1,2) up] parts by (simp add: member_ids_moved)
  qed
  then have "within_parents (moved p c db)" unfolding within_parents_def rows by (simp add: f)
  ultimately show ?thesis by (simp add: catalogs_ok_def)
qed

lemma reparent_one_moved:
  assumes m: "movable db p c"
  shows "snd (reparent_one p (effective_model_ids db p) c (k, db)) = moved p c db"
proof -
  let ?db1 = "set_parent (ca_id c) (Some (ca_id p)) db"
  let ?gone = "filter (\<lambda>i. i \<notin> set (effective_model_ids db p)) (member_ids db (ca_id c))"
  note parts = m[unfolded movable_def catalogs_ok_def]
  obtain c' where c': "c' \<in> set (db_catalogs db)" "ca_id c' = ca_id c" "filled (ca_owner c')" using parts by blast
  have "child_ids ?db1 (ca_id c) = []"
  proof -
    have "ca_parent x \<noteq> Some (ca_id c)" if "x \<in> set (db_catalogs db)" for x
      using parts c' that same_key[of db _ c'] unfolding tree_ok_def by metis
    moreover have "ca_id p \<noteq> ca_id c" using parts c' same_key[of db p c'] by auto
    ultimately show ?thesis by (auto simp: child_ids_def set_set_parent filter_empty_conv)
  qed
  then have alone: "below ?db1 (ca_id c) = {ca_id c}" by (auto simp: below_def dest: descends_children)
  have "trim i \<noteq> []" if "i \<in> set (member_ids db (ca_id c))" for i
    using that parts by (auto simp: set_member_ids members_ok_def)
  then have "set (uniq_texts ?gone) = set ?gone" by (auto simp: uniq_texts_def)
  then have "without (uniq_texts ?gone) {ca_id c} ?db1 = moved p c db" by (simp add: moved_def without_def)
  moreover have "?gone = [] \<Longrightarrow> moved p c db = ?db1" by (simp add: moved_def)
  moreover obtain k1 k2 d where r: "remove_members ?db1 (c\<lparr>ca_parent := Some (ca_id p)\<rparr>) ?gone = ((k1, k2), d)"
    by (metis surj_pair)
  moreover have "d = without (uniq_texts ?gone) {ca_id c} ?db1"
    using remove_members_without[of ?db1 "c\<lparr>ca_parent := Some (ca_id p)\<rparr>" ?gone] alone r by simp
  ultimately show ?thesis by (cases "?gone = []") (simp_all add: reparent_one_def Let_def)
qed

text \<open>The loop: every catalog of the user moves in turn. The root's effective set stays as it was.\<close>

lemma reparent_loop:
  assumes "catalogs_ok db" and "p \<in> set (db_catalogs db)" and "\<not> filled (ca_owner p)"
    and "\<forall>c \<in> set cs. filled (ca_owner c) \<and> (\<exists>c' \<in> set (db_catalogs db). ca_id c' = ca_id c \<and> filled (ca_owner c'))"
  shows "catalogs_ok (snd (fold (reparent_one p (effective_model_ids db p)) cs (k, db)))"
    and "snd (fold (reparent_one p (effective_model_ids db p)) cs (k, db)) = fold (moved p) cs db"
proof -
  have "catalogs_ok (snd (fold (reparent_one p (effective_model_ids db p)) cs (k, db))) \<and>
     snd (fold (reparent_one p (effective_model_ids db p)) cs (k, db)) = fold (moved p) cs db"
    using assms
  proof (induction cs arbitrary: k db)
    case Nil
    then show ?case by simp
  next
    case (Cons c cs)
    have m: "movable db p c" using Cons.prems by (simp add: movable_def)
    obtain k1 where r: "reparent_one p (effective_model_ids db p) c (k, db) = (k1, moved p c db)"
      using reparent_one_moved[OF m, of k] by (metis prod.collapse)
    obtain c' where "c' \<in> set (db_catalogs db)" "ca_id c' = ca_id c" "filled (ca_owner c')"
      using Cons.prems(4) by auto
    then have cp: "ca_id c \<noteq> ca_id p"
      using Cons.prems(1-3) same_key[of db c' p] by (auto simp: catalogs_ok_def)
    have "p \<in> set (db_catalogs (moved p c db))" using Cons.prems(2) cp by (force simp: set_set_parent)
    moreover have "\<forall>d \<in> set cs. filled (ca_owner d) \<and>
        (\<exists>c' \<in> set (db_catalogs (moved p c db)). ca_id c' = ca_id d \<and> filled (ca_owner c'))"
    proof
      fix d assume d: "d \<in> set cs"
      then obtain e where e: "e \<in> set (db_catalogs db)" "ca_id e = ca_id d" "filled (ca_owner e)"
        using Cons.prems(4) by auto
      let ?e = "if ca_id e = ca_id c then e\<lparr>ca_parent := Some (ca_id p)\<rparr> else e"
      have "?e \<in> set (db_catalogs (moved p c db))" using e(1) by (simp add: set_set_parent)
      moreover have "ca_id ?e = ca_id d" "filled (ca_owner ?e)" using e by simp_all
      ultimately show "filled (ca_owner d) \<and>
          (\<exists>c' \<in> set (db_catalogs (moved p c db)). ca_id c' = ca_id d \<and> filled (ca_owner c'))"
        using d Cons.prems(4) by auto
    qed
    ultimately show ?case
      using Cons.IH[OF moved_keeps[OF m], of k1] Cons.prems(3) r effective_moved[of p c p db] cp by auto
  qed
  then show "catalogs_ok (snd (fold (reparent_one p (effective_model_ids db p)) cs (k, db)))"
    "snd (fold (reparent_one p (effective_model_ids db p)) cs (k, db)) = fold (moved p) cs db" by auto
qed

lemma reparent_keeps:
  assumes "catalogs_ok db" and "p \<in> set (db_catalogs db)" and "\<not> filled (ca_owner p)" and "email \<noteq> []"
  shows "catalogs_ok (snd (reparent_user_catalogs db email p))"
    and "snd (reparent_user_catalogs db email p) =
      fold (moved p) (filter (\<lambda>c. ca_owner c = Some email) (db_catalogs db)) db"
  unfolding reparent_user_catalogs_def using assms by (auto simp: filled_def intro!: reparent_loop)

lemma assign_keeps:
  assumes ok: "catalogs_ok db" and r: "assign_catalog db email i = Inr (k, db')" and e: "email \<noteq> []"
  shows "catalogs_ok db'"
proof -
  obtain c where c: "get_catalog db i = Some c" "\<not> filled (ca_owner c)"
    and db': "(k, db') = reparent_user_catalogs (set_assignment email (Some (ca_id c)) (touch_user email db)) email c"
    using r by (auto simp: assign_catalog_def split: option.splits if_splits)
  have ci: "c \<in> set (db_catalogs db)" using get_catalog_Some[OF c(1)] by simp
  have "assignable (touch_user email db) (Some (ca_id c))" using ci c(2) by (auto simp: assignable_def)
  then have "catalogs_ok (set_assignment email (Some (ca_id c)) (touch_user email db))"
    by (intro set_assignment_keeps touch_keeps[OF ok])
  then show ?thesis using reparent_keeps(1)[of _ c email] ci c(2) e db' by (metis set_assignment_fields(1) snd_conv touch_fields(1))
qed

lemma unassign_keeps:
  assumes ok: "catalogs_ok db" and r: "unassign_catalog db email = Inr (k, db')" and e: "email \<noteq> []"
  shows "catalogs_ok db'"
proof -
  let ?db1 = "set_assignment email None db"
  obtain d where d: "get_default_catalog ?db1 = Some d" and db': "(k, db') = reparent_user_catalogs ?db1 email d"
    using r by (auto simp: unassign_catalog_def require_default_def Let_def split: option.splits sum.splits)
  have ok1: "catalogs_ok ?db1" using set_assignment_keeps[OF ok] by simp
  show ?thesis using reparent_keeps(1)[OF ok1, of d email] default_root[OF ok1 d] e db' by (metis snd_conv)
qed

lemma assign_team_keeps:
  assumes ok: "catalogs_ok db" and r: "assign_team_catalog t i db = Inr (rep, aff, db')"
  shows "catalogs_ok db'"
proof -
  define v where "v = (if filled i then i else None)"
  have checked: "\<exists>c. get_catalog db (the i) = Some c \<and> \<not> filled (ca_owner c)" if "filled i"
    using r that by (auto simp: assign_team_catalog_def Let_def split: option.splits if_splits)
  then have v: "assignable db v"
    using get_catalog_Some[of db "the i"] by (fastforce simp: v_def assignable_def filled_def)
  have db': "db' = db\<lparr>db_teams := map (\<lambda>x. if tr_id x = t then x\<lparr>tr_catalog := v\<rparr> else x) (db_teams db)\<rparr>"
    using r checked by (auto simp: assign_team_catalog_def Let_def v_def split: option.splits if_splits)
  have "member_ids db' = member_ids db" "effective_model_ids db' = effective_model_ids db"
    by (simp_all add: db' member_ids_def effective_model_ids_def exclusion_ids_def fun_eq_iff)
  then show ?thesis
    using ok v by (auto simp: catalogs_ok_def catalog_keys_ok_def members_ok_def tree_ok_def assignments_ok_def assignable_def
        within_parents_def db')
qed

section \<open>Every reachable state\<close>

text \<open>The requests the invariant is about: an \<open>UPDATE\<close> that leaves the owner and the parent alone, and texts of
  keys and e-mails that are not empty (the ids are UUIDs, the e-mail of a caller is the id of its user).\<close>

fun regular :: "catalog_actor \<Rightarrow> catalog_action \<Rightarrow> bool" where
  "regular a (Create r) = (ac_email a \<noteq> [] \<and> cr_id r \<noteq> Some [])"
| "regular a (Update i r) = (ur_owner r = None \<and> ur_parent r = None)"
| "regular a (Assign e i) = (e \<noteq> [])"
| "regular a (Unassign e) = (e \<noteq> [])"
| "regular a _ = True"

inductive catalog_reachable :: "library_model list \<Rightarrow> cat_db \<Rightarrow> bool" for library where
  empty: "catalog_reachable library \<lparr> db_library = library, db_catalogs = [], db_members = [], db_exclusions = [],
      db_users = [], db_teams = [] \<rparr>"
| new_team: "catalog_reachable library db \<Longrightarrow>
    catalog_reachable library (db\<lparr>db_teams := db_teams db @ [\<lparr> tr_id = t, tr_name = n, tr_catalog = None, tr_members = ms \<rparr>]\<rparr>)"
| new_user: "catalog_reachable library db \<Longrightarrow> catalog_reachable library (touch_user e db)"
| seed: "catalog_reachable library db \<Longrightarrow> uuid \<noteq> [] \<Longrightarrow> uuid \<notin> catalog_ids db \<Longrightarrow>
    catalog_reachable library (snd (entitlement_block_for uuid db email team))"
| request: "catalog_reachable library db \<Longrightarrow> regular a act \<Longrightarrow> uuid \<noteq> [] \<Longrightarrow>
    handle_catalog uuid a act db = Inr (rep, aff, db') \<Longrightarrow> catalog_reachable library db'"

lemma teams_keep:
  assumes ok: "catalogs_ok db"
  shows "catalogs_ok (db\<lparr>db_teams := db_teams db @ [\<lparr> tr_id = t, tr_name = n, tr_catalog = None, tr_members = ms \<rparr>]\<rparr>)"
    (is "catalogs_ok ?db")
proof -
  have "member_ids ?db = member_ids db" "effective_model_ids ?db = effective_model_ids db"
    by (simp_all add: member_ids_def effective_model_ids_def exclusion_ids_def fun_eq_iff)
  then show ?thesis
    using ok by (auto simp: catalogs_ok_def catalog_keys_ok_def members_ok_def tree_ok_def assignments_ok_def assignable_def
        within_parents_def filled_def)
qed

lemma block_state:
  "snd (entitlement_block_for uuid db email team) = db \<or>
   snd (entitlement_block_for uuid db email team) = snd (ensure_default_catalog uuid db)"
  by (auto simp: entitlement_block_for_def Let_def split: option.splits prod.splits)

lemma handle_keeps:
  assumes ok: "catalogs_ok db" and "regular a act" and "uuid \<noteq> []"
    and r: "handle_catalog uuid a act db = Inr (rep, aff, db')"
  shows "catalogs_ok db'"
proof (cases act)
  case (Create x)
  then show ?thesis using create_keeps[OF ok] assms by simp
next
  case (Update i x)
  then show ?thesis using update_keeps[OF ok] assms by simp
next
  case (Delete_Catalog i)
  then show ?thesis using delete_keeps[OF ok] assms by simp
next
  case (Add_Models i ms)
  then show ?thesis
    using r add_keeps[OF ok] get_catalog_Some[of db i]
    by (auto simp: add_models_def catalog_from_req_def split: sum.splits option.splits if_splits)
next
  case (Remove_Models i ms)
  then show ?thesis
    using r remove_keeps[OF ok]
    by (auto simp: remove_models_def catalog_from_req_def split: sum.splits option.splits if_splits prod.splits) (metis snd_conv)
next
  case (Exclude_Models i ms reason)
  then show ?thesis
    using r exclude_keeps[OF ok] get_catalog_Some[of db i]
    by (auto simp: exclude_models_on_def catalog_from_req_def split: sum.splits option.splits if_splits)
next
  case (Include_Models i ms)
  then show ?thesis
    using r include_keeps[OF ok] by (auto simp: include_models_on_def catalog_from_req_def split: sum.splits option.splits)
next
  case (Assign e i)
  then show ?thesis using assign_keeps[OF ok] assms by (auto simp: reassigned_def split: sum.splits prod.splits)
next
  case (Unassign e)
  then show ?thesis using unassign_keeps[OF ok] assms by (auto simp: reassigned_def split: sum.splits prod.splits)
next
  case (Assign_Team t i)
  then show ?thesis using assign_team_keeps[OF ok] assms by simp
qed

lemma reachable_ok: "catalog_reachable library db \<Longrightarrow> catalogs_ok db"
proof (induction rule: catalog_reachable.induct)
  case empty
  then show ?case
    by (simp add: catalogs_ok_def catalog_keys_ok_def members_ok_def tree_ok_def assignments_ok_def within_parents_def)
next
  case (seed db uuid email team)
  then show ?case using block_state[of uuid db email team] ensure_default_keeps by metis
next
  case (request db a act uuid rep aff db')
  then show ?case using handle_keeps by blast
qed (auto intro: teams_keep touch_keeps)

end
