(* ===== verification/Entitlement_Agreement.thy ===== *)
theory Entitlement_Agreement
  imports Catalog_Invariant
begin

text \<open>
  The two services together: what the gateway decides from the block the administration service computes is what
  the catalogs grant, and an operation that changes the decision for a caller invalidates the caller's cached
  validations.
\<close>

section \<open>What the catalogs grant\<close>

text \<open>The member list of the caller's own catalog, of the team's catalog (none for the default), and the
  exclusions of the default.\<close>

definition own_list :: "cat_db \<Rightarrow> string \<Rightarrow> string list option" where
  "own_list db email =
     (case get_assigned_catalog db email of
        None \<Rightarrow> None
      | Some c \<Rightarrow> if ca_default c then None else Some (member_ids db (ca_id c)))"

definition team_list :: "cat_db \<Rightarrow> string option \<Rightarrow> string list option" where
  "team_list db team =
     (case team of None \<Rightarrow> None | Some t \<Rightarrow> map_option (\<lambda>c. member_ids db (ca_id c)) (team_catalog_of db t))"

definition default_exclusions :: "cat_db \<Rightarrow> string list" where
  "default_exclusions db = (case get_default_catalog db of None \<Rightarrow> [] | Some d \<Rightarrow> exclusion_ids db (ca_id d))"

text \<open>One side grants a model: its list holds the model, or it has no list and the default does not exclude it.\<close>

definition side :: "string list option \<Rightarrow> string list \<Rightarrow> string \<Rightarrow> bool" where
  "side l excluded m = (case l of None \<Rightarrow> m \<notin> set excluded | Some ids \<Rightarrow> m \<in> set ids)"

text \<open>The owner's side and, for a request of a team, the team's side; a model of a connection only by a list.\<close>

definition grants :: "(string \<Rightarrow> bool) \<Rightarrow> cat_db \<Rightarrow> string \<Rightarrow> string option \<Rightarrow> string \<Rightarrow> bool" where
  "grants external db email team m \<longleftrightarrow>
     side (own_list db email) (default_exclusions db) m \<and>
     (team \<noteq> None \<longrightarrow> side (team_list db team) (default_exclusions db) m) \<and>
     (own_list db email = None \<and> team_list db team = None \<longrightarrow> \<not> external m)"

section \<open>The wire\<close>

lemma block_json_fields:
  "jget (block_json b) ''mode'' = JStr (if en_mode b = Mode_All then ''all'' else ''list'')"
  "jget (block_json b) ''include'' = (case en_include b of None \<Rightarrow> JUndef | Some xs \<Rightarrow> JArr (map JStr xs))"
  "jget (block_json b) ''exclude'' = (case en_exclude b of None \<Rightarrow> JUndef | Some xs \<Rightarrow> JArr (map JStr xs))"
  "jget (block_json b) ''catalogId'' = JStr (en_catalog_id b)"
  "jget (block_json b) ''catalogName'' = JStr (en_catalog_name b)"
  "jget (block_json b) ''teamCatalogId'' = (case en_team_catalog_id b of None \<Rightarrow> JUndef | Some t \<Rightarrow> JStr t)"
  "jget (block_json b) ''teamCatalogName'' = (case en_team_catalog_name b of None \<Rightarrow> JUndef | Some t \<Rightarrow> JStr t)"
  by (simp_all add: block_json_def map_of_append map_add_def split: option.splits)

text \<open>Only the list of the block's mode travels.\<close>

definition wire_shaped :: "ent_block \<Rightarrow> bool" where
  "wire_shaped b \<longleftrightarrow>
     (if en_mode b = Mode_All then en_include b = None else en_exclude b = None \<and> en_include b \<noteq> None)"

lemma block_roundtrip: "wire_shaped b \<Longrightarrow> normalize_block nt (block_json b) = b"
  unfolding normalize_block_def block_json_fields wire_shaped_def
  by (cases b) (auto simp: null_or_text_def strings_in_JStr Let_def split: option.splits if_splits, (case_tac en_mode, auto)+)

lemma ent_block_json: "is_ent_block (block_json b)"
  unfolding is_ent_block_def block_json_fields by (simp add: block_json_def)

lemma block_wire_shaped: "wire_shaped (fst (entitlement_block_for uuid db email team))"
  by (auto simp: entitlement_block_for_def wire_shaped_def Let_def split: option.splits prod.splits)

section \<open>The decision is what the catalogs grant\<close>

lemma find_append: "find P (xs @ ys) = (case find P xs of None \<Rightarrow> find P ys | Some x \<Rightarrow> Some x)"
  by (induction xs) auto

definition no_rows_for :: "string \<Rightarrow> cat_db \<Rightarrow> bool" where
  "no_rows_for uuid db \<longleftrightarrow> (\<forall>r \<in> set (db_exclusions db). cx_catalog r \<noteq> uuid)"

lemma sole_default:
  "catalogs_ok db \<Longrightarrow> c \<in> set (db_catalogs db) \<Longrightarrow> ca_default c \<Longrightarrow> get_default_catalog db = Some c"
  by (cases "get_default_catalog db")
     (auto simp: get_default_catalog_def find_None_iff catalogs_ok_def catalog_keys_ok_def dest!: find_Some_iff[THEN iffD1] nth_mem)

text \<open>The exclusions the block is computed with are the default's, whether it exists, is assigned or is seeded.\<close>

lemma block_exclusions:
  fixes email t :: string
  assumes ok: "catalogs_ok db" and new_rows: "no_rows_for uuid db"
  defines "r \<equiv> (case get_assigned_catalog db email of
      Some c \<Rightarrow> if ca_default c then (c, db) else ensure_default_catalog uuid db
    | None \<Rightarrow> ensure_default_catalog uuid db)"
  shows "exclusion_ids (snd r) (ca_id (fst r)) = default_exclusions db" and "member_ids (snd r) = member_ids db"
    and "team_catalog_of (snd r) t = team_catalog_of db t"
proof -
  have fresh: "get_default_catalog db = None \<Longrightarrow> exclusion_ids db uuid = []"
    using new_rows by (simp add: exclusion_ids_def no_rows_for_def filter_empty_conv)
  have ensured: "exclusion_ids (snd (ensure_default_catalog uuid db)) (ca_id (fst (ensure_default_catalog uuid db))) = default_exclusions db"
    using fresh by (auto simp: ensure_default_catalog_def default_exclusions_def exclusion_ids_def Let_def split: option.splits)
  have "exclusion_ids db (ca_id c) = default_exclusions db" if "get_assigned_catalog db email = Some c" "ca_default c" for c
    using sole_default[OF ok _ that(2)] assigned_root[OF ok that(1)] by (simp add: default_exclusions_def)
  then show "exclusion_ids (snd r) (ca_id (fst r)) = default_exclusions db"
    using ensured by (auto simp: r_def split: option.splits)
  show "member_ids (snd r) = member_ids db"
    by (auto simp: r_def ensure_default_catalog_def member_ids_def Let_def fun_eq_iff split: option.splits)
  show "team_catalog_of (snd r) t = team_catalog_of db t"
  proof -
    have "team_catalog_of (snd (ensure_default_catalog uuid db)) t = team_catalog_of db t"
    proof (cases "get_default_catalog db")
      case None
      have known: "get_catalog db i \<noteq> None" if "find (\<lambda>t'. tr_id t' = t) (db_teams db) = Some row" "tr_catalog row = Some i" "i \<noteq> []" for row i
        using ok that get_catalog_None[of db i]
        by (fastforce simp: catalogs_ok_def assignments_ok_def assignable_def filled_def catalog_ids_def dest!: find_Some_iff[THEN iffD1] nth_mem)
      show ?thesis
        using None known
        by (fastforce simp: team_catalog_of_def ensure_default_catalog_def get_catalog_def filled_def Let_def find_append split: option.splits)
    next
      case (Some d)
      then show ?thesis by (simp add: ensure_default_catalog_def)
    qed
    then show ?thesis by (auto simp: r_def split: option.splits)
  qed
qed

lemma block_grants:
  assumes ok: "catalogs_ok db" and new_rows: "no_rows_for uuid db"
  shows "is_model_entitled external (Some (fst (entitlement_block_for uuid db email team))) m \<longleftrightarrow>
    grants external db email team m"
proof -
  note b = block_exclusions[OF ok new_rows, of email]
  let ?r = "case get_assigned_catalog db email of
      Some c \<Rightarrow> if ca_default c then (c, db) else ensure_default_catalog uuid db
    | None \<Rightarrow> ensure_default_catalog uuid db"
  obtain d db1 where r: "?r = (d, db1)" by (cases ?r)
  have facts: "exclusion_ids db1 (ca_id d) = default_exclusions db" "member_ids db1 = member_ids db"
    "\<And>t. team_catalog_of db1 t = team_catalog_of db t"
    using b unfolding r by simp_all
  show ?thesis
    unfolding entitlement_block_for_def Let_def r prod.case
    by (cases "get_assigned_catalog db email"; cases team)
      (auto simp: facts grants_def own_list_def team_list_def side_def is_model_entitled_def split: option.splits)
qed


section \<open>Invalidation\<close>

definition reaches :: "affected \<Rightarrow> string \<Rightarrow> bool" where
  "reaches aff email = (case aff of Everyone \<Rightarrow> True | Emails es \<Rightarrow> email \<in> set es)"

text \<open>The team of a request is one of its owner's teams.\<close>

definition of_team :: "cat_db \<Rightarrow> string \<Rightarrow> string option \<Rightarrow> bool" where
  "of_team db email team =
     (case team of None \<Rightarrow> True
      | Some t \<Rightarrow> (case find (\<lambda>r. tr_id r = t) (db_teams db) of None \<Rightarrow> True | Some r \<Rightarrow> email \<in> set (tr_members r)))"

text \<open>What a decision reads.\<close>

definition same_grants :: "cat_db \<Rightarrow> cat_db \<Rightarrow> string \<Rightarrow> string option \<Rightarrow> bool" where
  "same_grants db db' email team \<longleftrightarrow>
     own_list db' email = own_list db email \<and> team_list db' team = team_list db team \<and>
     default_exclusions db' = default_exclusions db"

text \<open>The kind of the catalog behind an id: absent, the default or a list.\<close>

definition kind :: "cat_db \<Rightarrow> string \<Rightarrow> bool option" where
  "kind db i = map_option ca_default (get_catalog db i)"

lemma own_list_by_kind:
  "own_list db email =
     (case map_of (db_users db) email of
        Some (Some i) \<Rightarrow> if i \<noteq> [] \<and> kind db i = Some False then Some (member_ids db i) else None
      | _ \<Rightarrow> None)"
  using get_catalog_Some[of db]
  by (auto simp: own_list_def get_assigned_catalog_def kind_def split: option.splits)

lemma team_list_by_kind:
  "team_list db team =
     (case team of None \<Rightarrow> None
      | Some t \<Rightarrow> (case find (\<lambda>r. tr_id r = t) (db_teams db) of None \<Rightarrow> None
          | Some r \<Rightarrow> (case tr_catalog r of None \<Rightarrow> None
              | Some i \<Rightarrow> if i \<noteq> [] \<and> kind db i = Some False then Some (member_ids db i) else None)))"
  using get_catalog_Some[of db]
  by (auto simp: team_list_def team_catalog_of_def kind_def filled_def split: option.splits)

text \<open>The ids behind the caller's decision.\<close>

definition read_ids :: "cat_db \<Rightarrow> string \<Rightarrow> string option \<Rightarrow> string set" where
  "read_ids db email team =
     {i. i \<noteq> [] \<and> (map_of (db_users db) email = Some (Some i) \<or>
        (\<exists>t r. team = Some t \<and> find (\<lambda>r. tr_id r = t) (db_teams db) = Some r \<and> tr_catalog r = Some i))}"

lemma same_grants_if:
  assumes "map_of (db_users db') email = map_of (db_users db) email" and "db_teams db' = db_teams db"
    and "\<And>i. i \<in> read_ids db email team \<Longrightarrow> kind db' i = kind db i \<and> (kind db i = Some False \<longrightarrow> member_ids db' i = member_ids db i)"
    and "default_exclusions db' = default_exclusions db"
  shows "same_grants db db' email team"
  using assms unfolding same_grants_def own_list_by_kind team_list_by_kind read_ids_def
  by (auto split: option.splits)

lemma find_map: "(\<And>x. P (f x) = P x) \<Longrightarrow> find P (map f xs) = map_option f (find P xs)"
  by (induction xs) auto

lemma find_filter: "(\<And>x. P x \<Longrightarrow> Q x) \<Longrightarrow> find P (filter Q xs) = find P xs"
  by (induction xs) auto

lemma kind_map:
  assumes "\<And>x. ca_id (f x) = ca_id x" and "\<And>x. ca_default (f x) = ca_default x"
    and "db_catalogs db' = map f (db_catalogs db)"
  shows "kind db' i = kind db i"
    and "exclusion_ids db' = exclusion_ids db \<Longrightarrow> default_exclusions db' = default_exclusions db"
  using assms by (auto simp: kind_def get_catalog_def default_exclusions_def get_default_catalog_def find_map
      option.map_comp o_def split: option.splits)

lemma kind_same:
  assumes "db_catalogs db' = db_catalogs db"
  shows "kind db' i = kind db i" and "exclusion_ids db' = exclusion_ids db \<Longrightarrow> default_exclusions db' = default_exclusions db"
  using assms by (auto simp: kind_def get_catalog_def default_exclusions_def get_default_catalog_def split: option.splits)

lemma read_root:
  assumes ok: "catalogs_ok db" and i: "i \<in> read_ids db email team"
  shows "\<exists>c \<in> set (db_catalogs db). ca_id c = i \<and> \<not> filled (ca_owner c)"
proof -
  have "assignable db (Some i)"
  proof -
    from i consider "map_of (db_users db) email = Some (Some i)"
      | r t where "find (\<lambda>r. tr_id r = t) (db_teams db) = Some r" "tr_catalog r = Some i"
      by (auto simp: read_ids_def)
    then show ?thesis
    proof cases
      case 1
      then show ?thesis using user_assignable[OF ok] map_of_SomeD by metis
    next
      case 2
      then have "r \<in> set (db_teams db)" by (auto simp: find_Some_iff)
      then show ?thesis using ok 2(2) by (auto simp: catalogs_ok_def assignments_ok_def)
    qed
  qed
  then show ?thesis using i by (auto simp: assignable_def filled_def read_ids_def)
qed

text \<open>Whoever reads a catalog is among the e-mails its changes affect.\<close>

lemma affected_covers:
  assumes "i \<in> read_ids db email team" and "of_team db email team"
    and "db_users db' = db_users db" and "db_teams db' = db_teams db"
  shows "reaches (affected_emails db' i) email"
proof -
  from assms(1) consider "map_of (db_users db) email = Some (Some i)"
    | r t where "team = Some t" "find (\<lambda>r. tr_id r = t) (db_teams db) = Some r" "tr_catalog r = Some i"
    by (auto simp: read_ids_def)
  then show ?thesis
  proof cases
    case 1
    then have "(email, Some i) \<in> set (db_users db)" by (rule map_of_SomeD)
    then show ?thesis using assms(3) by (force simp: reaches_def affected_emails_def)
  next
    case 2
    then have "r \<in> set (db_teams db)" by (auto simp: find_Some_iff)
    moreover have "email \<in> set (tr_members r)" using 2 assms(2) by (simp add: of_team_def)
    ultimately
    show ?thesis using 2(3) assms(4) by (force simp: reaches_def affected_emails_def)
  qed
qed

lemma create_same:
  assumes ok: "catalogs_ok db" and r: "create_catalog uuid a req db = Inr (rep, aff, db')"
  shows "same_grants db db' email team"
proof -
  let ?i = "case cr_id req of None \<Rightarrow> uuid | Some i \<Rightarrow> i"
  obtain parent where "get_catalog db ?i = None" "db' = add_row \<lparr> ca_id = ?i, ca_name = cr_name req, ca_default = False,
      ca_owner = create_owner a req, ca_parent = parent \<rparr> db"
    using r by (auto simp: create_catalog_def add_row_def Let_def split: if_splits sum.splits)
  then obtain row where i: "get_catalog db (ca_id row) = None" and db': "db' = add_row row db" and nd: "\<not> ca_default row"
    by (metis catalog.select_convs(1,3))
  show ?thesis
  proof (rule same_grants_if)
    show "kind db' i = kind db i \<and> (kind db i = Some False \<longrightarrow> member_ids db' i = member_ids db i)"
      if "i \<in> read_ids db email team" for i
      using read_root[OF ok that] i
      by (auto simp: db' add_row_def kind_def get_catalog_def find_append member_ids_def find_None_iff split: option.splits)
    show "default_exclusions db' = default_exclusions db"
      using nd by (simp add: db' add_row_def default_exclusions_def get_default_catalog_def find_append exclusion_ids_def
          split: option.splits)
  qed (simp_all add: db' add_row_def)
qed

lemma update_same:
  assumes r: "update_catalog a i req db = Inr (rep, aff, db')"
  shows "same_grants db db' email team"
proof -
  have db': "db' = db\<lparr>db_catalogs := map (\<lambda>x. if ca_id x = i then updated_row req x else x) (db_catalogs db)\<rparr>"
    using r by (auto simp: update_catalog_def Let_def split: sum.splits option.splits)
  have k: "kind db' j = kind db j" "default_exclusions db' = default_exclusions db" for j
    by (rule kind_map[where f = "\<lambda>x. if ca_id x = i then updated_row req x else x"];
        simp add: db' updated_row_def exclusion_ids_def fun_eq_iff)+
  show ?thesis by (rule same_grants_if) (simp_all add: k, simp_all add: db' member_ids_def)
qed

lemma delete_same:
  assumes ok: "catalogs_ok db" and r: "delete_catalog a i db = Inr (rep, aff, db')"
  shows "same_grants db db' email team"
proof -
  obtain c where c: "get_catalog db i = Some c" and free: "assert_deletable db c = None"
    and db': "db' = db\<lparr> db_catalogs := filter (\<lambda>x. ca_id x \<noteq> i) (db_catalogs db),
        db_members := filter (\<lambda>r. cm_catalog r \<noteq> i) (db_members db),
        db_exclusions := filter (\<lambda>r. cx_catalog r \<noteq> i) (db_exclusions db) \<rparr>"
    using r by (auto simp: delete_catalog_def catalog_from_req_def split: sum.splits option.splits if_splits)
  have ci: "c \<in> set (db_catalogs db)" "ca_id c = i" using get_catalog_Some[OF c] by auto
  have nd: "\<not> ca_default c" and users: "\<And>e. (e, Some i) \<notin> set (db_users db)"
    and teams: "\<And>t. t \<in> set (db_teams db) \<Longrightarrow> tr_catalog t \<noteq> Some i"
    using free ci by (auto simp: assert_deletable_def Let_def filter_empty_conv split: if_splits)
  have unread: "j \<noteq> i" if "j \<in> read_ids db email team" for j
    using that users teams by (auto simp: read_ids_def find_Some_iff dest!: map_of_SomeD)
  have kept: "ca_id d \<noteq> i" if "d \<in> set (db_catalogs db)" "ca_default d" for d
    using ok ci nd that same_key[of db d c] by (auto simp: catalogs_ok_def)
  have "get_default_catalog db' = get_default_catalog db"
  proof -
    have "find ca_default (filter (\<lambda>x. ca_id x \<noteq> i) xs) = find ca_default xs" if "set xs \<subseteq> set (db_catalogs db)" for xs
      using that by (induction xs) (use kept in auto)
    then show ?thesis by (simp add: get_default_catalog_def db')
  qed
  moreover have "exclusion_ids db' (ca_id d) = exclusion_ids db (ca_id d)" if "get_default_catalog db = Some d" for d
    using kept[of d] that
    by (auto simp: get_default_catalog_def find_Some_iff db' exclusion_ids_def intro!: arg_cong[where f = "map cx_model"] filter_cong)
  ultimately have "default_exclusions db' = default_exclusions db"
    by (auto simp: default_exclusions_def split: option.splits)
  moreover have "kind db' j = kind db j \<and> (kind db j = Some False \<longrightarrow> member_ids db' j = member_ids db j)" if "j \<noteq> i" for j
    using that by (auto simp: kind_def get_catalog_def db' find_filter member_ids_def intro!: arg_cong[where f = "map cm_model"] filter_cong)
  ultimately show ?thesis using unread by (intro same_grants_if) (simp_all add: db')
qed

text \<open>Deletions of member rows below a root reach no catalog that is assigned but the root itself.\<close>

lemma without_below_same:
  assumes ok: "catalogs_ok db" and "of_team db email team" and "\<not> reaches (affected_emails db' c) email"
    and fields: "db_catalogs db' = db_catalogs db" "db_users db' = db_users db" "db_teams db' = db_teams db"
      "exclusion_ids db' = exclusion_ids db"
    and mem: "\<And>i. i \<notin> below db c \<Longrightarrow> member_ids db' i = member_ids db i"
  shows "same_grants db db' email team"
proof (rule same_grants_if)
  show "kind db' i = kind db i \<and> (kind db i = Some False \<longrightarrow> member_ids db' i = member_ids db i)"
    if i: "i \<in> read_ids db email team" for i
  proof -
    have "i \<noteq> c" using affected_covers[OF i assms(2)] assms(3) fields by auto
    moreover obtain d where d: "d \<in> set (db_catalogs db)" "ca_id d = i" "\<not> filled (ca_owner d)"
      using read_root[OF ok i] by auto
    then have up: "ca_parent d = None" using ok by (simp add: catalogs_ok_def tree_ok_def)
    have "\<not> descends db b i" for b
    proof
      assume "descends db b i"
      then obtain q where "i \<in> set (child_ids db q)" by (cases rule: descends.cases) auto
      then obtain e where "e \<in> set (db_catalogs db)" "ca_id e = i" "ca_parent e = Some q"
        by (auto simp: child_ids_def)
      moreover have "e = d" using d(1,2) calculation ok same_key[of db e d] by (simp add: catalogs_ok_def)
      ultimately show False using up by simp
    qed
    ultimately show ?thesis using mem kind_same(1)[OF fields(1)] by (simp add: below_def)
  qed
  show "default_exclusions db' = default_exclusions db" by (rule kind_same(2)[OF fields(1) fields(4)])
qed (simp_all add: fields)

lemma remove_same:
  assumes "catalogs_ok db" and "of_team db email team"
    and r: "remove_models a i ms db = Inr (rep, aff, db')" and "\<not> reaches aff email"
  shows "same_grants db db' email team"
proof -
  obtain c where c: "get_catalog db i = Some c" and db': "db' = snd (remove_members db c (collect_some jstring ms))"
    and aff: "aff = affected_emails db' i"
    using r by (auto simp: remove_models_def catalog_from_req_def split: sum.splits option.splits if_splits prod.splits)
  have ci: "ca_id c = i" using get_catalog_Some[OF c] by simp
  have w: "db' = without (uniq_texts (collect_some jstring ms)) (below db i) db"
    unfolding db' remove_members_without ci ..
  show ?thesis
    by (rule without_below_same[OF assms(1,2) assms(4)[unfolded aff]]) (simp_all add: w member_ids_without)
qed

lemma add_same:
  assumes "catalogs_ok db" and "of_team db email team"
    and r: "add_models a i ms db = Inr (rep, aff, db')" and "\<not> reaches aff email"
  shows "same_grants db db' email team"
proof -
  obtain c k where c: "get_catalog db i = Some c" and add: "add_members db c ms = Inr (k, db')"
    and aff: "aff = affected_emails db' i"
    using r by (auto simp: add_models_def catalog_from_req_def split: sum.splits option.splits if_splits)
  have ci: "ca_id c = i" using get_catalog_Some[OF c] by simp
  have db': "db' = db\<lparr>db_members := db_members db @ map (\<lambda>j. \<lparr> cm_catalog = i, cm_model = j, cm_display = display_of db j \<rparr>)
      (filter (\<lambda>j. j \<notin> set (member_ids db i)) (uniq_ids ms))\<rparr>"
    using add ci by (auto simp: add_members_def Let_def split: if_splits sum.splits option.splits)
  show ?thesis
    by (rule without_below_same[OF assms(1,2) assms(4)[unfolded aff]])
       (auto simp: db' member_ids_def exclusion_ids_def below_def filter_empty_conv)
qed

text \<open>Re-parenting a user's catalogs touches no catalog that is assigned.\<close>

lemma moved_loop:
  "kind (fold (moved p) cs db) i = kind db i" "default_exclusions (fold (moved p) cs db) = default_exclusions db"
  "db_users (fold (moved p) cs db) = db_users db" "db_teams (fold (moved p) cs db) = db_teams db"
  "i \<notin> ca_id ` set cs \<Longrightarrow> member_ids (fold (moved p) cs db) i = member_ids db i"
proof (induction cs arbitrary: db)
  case (Cons c cs)
  have k: "kind (moved p c db) j = kind db j" "default_exclusions (moved p c db) = default_exclusions db" for j db
    by (rule kind_map[where f = "\<lambda>x. if ca_id x = ca_id c then x\<lparr>ca_parent := Some (ca_id p)\<rparr> else x"];
        simp add: set_parent_def)+
  case 1 show ?case by (simp only: fold_simps Cons.IH(1) k(1))
  case 2 show ?case by (simp only: fold_simps Cons.IH(2) k(2))
  case 3 show ?case using Cons.IH(3) by simp
  case 4 show ?case using Cons.IH(4) by simp
  case 5 then show ?case using Cons.IH(5) by (simp add: member_ids_moved)
qed simp_all

lemma reparent_same:
  assumes ok: "catalogs_ok db" and p: "p \<in> set (db_catalogs db)" "\<not> filled (ca_owner p)" and e: "e \<noteq> []"
  shows "same_grants db (snd (reparent_user_catalogs db e p)) email team"
  unfolding reparent_keeps(2)[OF ok p e]
proof (rule same_grants_if)
  let ?cs = "filter (\<lambda>c. ca_owner c = Some e) (db_catalogs db)"
  show "kind (fold (moved p) ?cs db) i = kind db i \<and>
      (kind db i = Some False \<longrightarrow> member_ids (fold (moved p) ?cs db) i = member_ids db i)"
    if i: "i \<in> read_ids db email team" for i
  proof -
    obtain d where d: "d \<in> set (db_catalogs db)" "ca_id d = i" "\<not> filled (ca_owner d)" using read_root[OF ok i] by auto
    have "i \<notin> ca_id ` set ?cs"
    proof
      assume "i \<in> ca_id ` set ?cs"
      then obtain c where c: "c \<in> set (db_catalogs db)" "ca_owner c = Some e" "ca_id c = i" by auto
      then have "c = d" using d(1,2) ok same_key[of db c d] by (simp add: catalogs_ok_def)
      then show False using d(3) c(2) e by (simp add: filled_def)
    qed
    then show ?thesis using moved_loop by metis
  qed
qed (simp_all add: moved_loop)

lemma same_grants_trans: "same_grants a b e t \<Longrightarrow> same_grants b c e t \<Longrightarrow> same_grants a c e t"
  by (simp add: same_grants_def)

lemma map_of_set_assignment:
  "e \<noteq> email \<Longrightarrow> map_of (map (\<lambda>(e', a). if e' = e then (e', i) else (e', a)) us) email = map_of us email"
  by (induction us) auto

lemma assignment_same:
  assumes "e \<noteq> email"
  shows "same_grants db (set_assignment e i db) email team" and "same_grants db (touch_user e db) email team"
proof -
  have "kind (set_assignment e i db) = kind db" "kind (touch_user e db) = kind db"
    "default_exclusions (set_assignment e i db) = default_exclusions db"
    "default_exclusions (touch_user e db) = default_exclusions db"
    "member_ids (set_assignment e i db) = member_ids db" "member_ids (touch_user e db) = member_ids db"
    by (auto simp: kind_def get_catalog_def default_exclusions_def get_default_catalog_def exclusion_ids_def
        member_ids_def fun_eq_iff split: option.splits)
  moreover have "map_of (db_users (set_assignment e i db)) email = map_of (db_users db) email"
    using map_of_set_assignment[OF assms] by (simp add: set_assignment_def)
  moreover have "map_of (db_users (touch_user e db)) email = map_of (db_users db) email"
    using assms by (simp add: touch_user_def map_add_def split: option.splits)
  ultimately show "same_grants db (set_assignment e i db) email team" "same_grants db (touch_user e db) email team"
    by (auto intro: same_grants_if)
qed

lemma assign_same:
  assumes ok: "catalogs_ok db" and e: "e \<noteq> []" "e \<noteq> email" and r: "assign_catalog db e i = Inr (k, db')"
  shows "same_grants db db' email team"
proof -
  obtain c where c: "get_catalog db i = Some c" "\<not> filled (ca_owner c)"
    and db': "(k, db') = reparent_user_catalogs (set_assignment e (Some (ca_id c)) (touch_user e db)) e c"
    using r by (auto simp: assign_catalog_def split: option.splits if_splits)
  let ?db1 = "set_assignment e (Some (ca_id c)) (touch_user e db)"
  have ci: "c \<in> set (db_catalogs ?db1)" using get_catalog_Some[OF c(1)] by simp
  have "assignable (touch_user e db) (Some (ca_id c))" using ci c(2) by (auto simp: assignable_def)
  then have ok1: "catalogs_ok ?db1" by (intro set_assignment_keeps touch_keeps[OF ok])
  have "same_grants db ?db1 email team"
    using assignment_same[OF e(2)] same_grants_trans by blast
  moreover have "same_grants ?db1 db' email team"
    using reparent_same[OF ok1 ci c(2) e(1)] db' by (metis snd_conv)
  ultimately show ?thesis by (rule same_grants_trans)
qed

lemma unassign_same:
  assumes ok: "catalogs_ok db" and e: "e \<noteq> []" "e \<noteq> email" and r: "unassign_catalog db e = Inr (k, db')"
  shows "same_grants db db' email team"
proof -
  let ?db1 = "set_assignment e None db"
  obtain d where d: "get_default_catalog ?db1 = Some d" and db': "(k, db') = reparent_user_catalogs ?db1 e d"
    using r by (auto simp: unassign_catalog_def require_default_def Let_def split: option.splits sum.splits)
  have ok1: "catalogs_ok ?db1" using set_assignment_keeps[OF ok] by simp
  have "same_grants ?db1 db' email team"
    using reparent_same[OF ok1 _ _ e(1), of d] default_root[OF ok1 d] db' by (metis snd_conv)
  then show ?thesis using assignment_same(1)[OF e(2)] same_grants_trans by blast
qed

lemma team_same:
  assumes "of_team db email team" and r: "assign_team_catalog t i db = Inr (rep, aff, db')" and nc: "\<not> reaches aff email"
  shows "same_grants db db' email team"
proof -
  define v where "v = (if filled i then i else None)"
  define f :: "team_row \<Rightarrow> team_row" where "f = (\<lambda>x. if tr_id x = t then x\<lparr>tr_catalog := v\<rparr> else x)"
  obtain row where row: "find (\<lambda>x. tr_id x = t) (db_teams db) = Some row"
    and aff: "aff = Emails (if tr_catalog row = v then [] else tr_members row)"
    and db': "db' = db\<lparr>db_teams := map f (db_teams db)\<rparr>"
    using r by (auto simp: assign_team_catalog_def Let_def v_def f_def split: option.splits if_splits)
  have rows: "find (\<lambda>r. tr_id r = t') (map f (db_teams db)) = map_option f (find (\<lambda>r. tr_id r = t') (db_teams db))" for t'
    by (rule find_map) (simp add: f_def)
  have teams': "db_teams db' = map f (db_teams db)" by (simp add: db')
  have same: "kind db' = kind db" "member_ids db' = member_ids db" "db_users db' = db_users db"
    "default_exclusions db' = default_exclusions db"
    by (auto simp: db' kind_def get_catalog_def member_ids_def default_exclusions_def get_default_catalog_def
        exclusion_ids_def fun_eq_iff split: option.splits)
  have "tr_catalog (f r) = tr_catalog r"
    if "team = Some t'" "find (\<lambda>r. tr_id r = t') (db_teams db) = Some r" for t' r
  proof (cases "t' = t")
    case True
    then have "r = row" "tr_id row = t" using that(2) row by (auto simp: find_Some_iff)
    then show ?thesis using nc assms(1) that True by (auto simp: f_def aff reaches_def of_team_def split: if_splits)
  next
    case False
    then show ?thesis using that(2) by (auto simp: f_def find_Some_iff)
  qed
  then have "team_list db' team = team_list db team"
    using teams' by (auto simp: team_list_by_kind same rows split: option.splits)
  moreover have "own_list db' email = own_list db email" by (simp only: own_list_by_kind same)
  ultimately show ?thesis by (simp add: same_grants_def same)
qed

lemma change_covered:
  assumes ok: "catalogs_ok db" and reg: "regular a act" and t: "of_team db email team"
    and r: "handle_catalog uuid a act db = Inr (rep, aff, db')" and nc: "\<not> reaches aff email"
  shows "same_grants db db' email team"
proof (cases act)
  case (Exclude_Models i ms reason)
  then show ?thesis using r nc by (auto simp: exclude_models_on_def reaches_def split: sum.splits prod.splits)
next
  case (Include_Models i ms)
  then show ?thesis using r nc by (auto simp: include_models_on_def reaches_def split: sum.splits prod.splits)
next
  case (Assign e i)
  then show ?thesis using r nc reg assign_same[OF ok] by (auto simp: reassigned_def reaches_def split: sum.splits prod.splits)
next
  case (Unassign e)
  then show ?thesis using r nc reg unassign_same[OF ok] by (auto simp: reassigned_def reaches_def split: sum.splits prod.splits)
qed (use r nc t create_same[OF ok] update_same delete_same[OF ok] add_same[OF ok] remove_same[OF ok] team_same in auto)



section \<open>A small installation\<close>

text \<open>Two models, the seeded default, a user's catalog under it with one member, and a team.\<close>

definition small_library :: "library_model list" where
  "small_library =
     [\<lparr> lm_id = ''m'', lm_display = None, lm_external = False, lm_absent = False \<rparr>,
      \<lparr> lm_id = ''n'', lm_display = None, lm_external = False, lm_absent = False \<rparr>]"

definition small_user :: catalog_actor where
  "small_user = \<lparr> ac_email = ''u'', ac_roles = [] \<rparr>"

definition small_db :: cat_db where
  "small_db = \<lparr> db_library = small_library,
     db_catalogs = [\<lparr> ca_id = ''d'', ca_name = ''Default'', ca_default = True, ca_owner = None, ca_parent = None \<rparr>,
       \<lparr> ca_id = ''c'', ca_name = ''mine'', ca_default = False, ca_owner = Some ''u'', ca_parent = Some ''d'' \<rparr>],
     db_members = [\<lparr> cm_catalog = ''c'', cm_model = ''m'', cm_display = ''m'' \<rparr>],
     db_exclusions = [], db_users = [], db_teams = [] \<rparr>"

lemma small_steps:
  "snd (entitlement_block_for ''d'' \<lparr> db_library = small_library, db_catalogs = [], db_members = [], db_exclusions = [],
      db_users = [], db_teams = [] \<rparr> ''u'' None) =
     small_db\<lparr>db_catalogs := take 1 (db_catalogs small_db), db_members := []\<rparr>"
  "handle_catalog ''c'' small_user (Create \<lparr> cr_id = None, cr_name = ''mine'', cr_owner = None, cr_nested = False \<rparr>)
     (small_db\<lparr>db_catalogs := take 1 (db_catalogs small_db), db_members := []\<rparr>) =
     Inr (Created (db_catalogs small_db ! 1), Emails [], small_db\<lparr>db_members := []\<rparr>)"
  "handle_catalog ''c'' small_user (Add_Models ''c'' [JStr ''m'']) (small_db\<lparr>db_members := []\<rparr>) =
     Inr (Added 1, Emails [], small_db)"
  by code_simp+

lemma small_reachable: "catalog_reachable small_library small_db"
proof -
  have 1: "catalog_reachable small_library (small_db\<lparr>db_catalogs := take 1 (db_catalogs small_db), db_members := []\<rparr>)"
    unfolding small_steps(1)[symmetric] by (intro catalog_reachable.intros) (simp_all add: catalog_ids_def)
  have 2: "catalog_reachable small_library (small_db\<lparr>db_members := []\<rparr>)"
    by (rule catalog_reachable.request[OF 1 _ _ small_steps(2)]) (simp_all add: small_user_def)
  show ?thesis by (rule catalog_reachable.request[OF 2 _ _ small_steps(3)]) simp_all
qed

definition small_request :: js where
  "small_request = JObj [(''unifiedAuth'', JObj [(''data'', JObj
     [(''entitlement'', block_json (fst (entitlement_block_for ''x'' small_db ''u'' None)))])])]"


lemma small_exclusion:
  "handle_catalog ''x'' small_user (Exclude_Models ''d'' [JStr ''m''] None) small_db =
     Inr (Excluded 1 1, Everyone, small_db\<lparr>db_members := [], db_exclusions := [\<lparr> cx_catalog = ''d'', cx_model = ''m'', cx_reason = None \<rparr>]\<rparr>)"
  by code_simp



section \<open>What an update of the parent leaves\<close>

text \<open>An administrator moves the user's catalog, with the member \<open>m\<close>, under an admin catalog without members
  (\<open>PATCH\<close> of its parent). The update is accepted, and the member stays.\<close>

definition other_root :: catalog where
  "other_root = \<lparr> ca_id = ''r'', ca_name = ''restricted'', ca_default = False, ca_owner = None, ca_parent = None \<rparr>"

lemma update_keeps_outsiders:
  "case handle_catalog ''x'' \<lparr> ac_email = ''a'', ac_roles = [''admin''] \<rparr>
     (Update ''c'' \<lparr> ur_name = None, ur_default = None, ur_owner = None, ur_parent = Some (Some ''r''), ur_nested = False \<rparr>)
     (add_row other_root small_db) of
     Inl _ \<Rightarrow> False
   | Inr (_, _, db') \<Rightarrow>
       map_option ca_parent (get_catalog db' ''c'') = Some (Some ''r'') \<and>
       member_ids db' ''c'' = [''m''] \<and> effective_model_ids db' other_root = []"
  by code_simp

end
