(* ===== verification/Siem_Event.thy ===== *)
theory Siem_Event
  imports Prelude
begin

text \<open>
  The normalized event of the SIEM export (\<open>admin siem/siemEvent.ts\<close>): the conversion of security, audit and
  usage events, and the redaction of an event for one sink.

  An event is the \<open>js\<close> object the code builds, with \<open>undefined\<close> members. \<open>now\<close> is the text of the current
  time. The texts of an input are strings or absent, as its interfaces declare.
\<close>

section \<open>Normalization\<close>

definition MAX_USER_AGENT_LENGTH :: nat where "MAX_USER_AGENT_LENGTH = 256"
definition MAX_DESCRIPTION_LENGTH :: nat where "MAX_DESCRIPTION_LENGTH = 500"
definition MAX_PSEUDONYMIZATION_CATEGORIES :: nat where "MAX_PSEUDONYMIZATION_CATEGORIES = 64"
definition MAX_CATEGORY_KEY_LENGTH :: nat where "MAX_CATEGORY_KEY_LENGTH = 64"

definition truncate_text :: "js \<Rightarrow> nat \<Rightarrow> js" where
  "truncate_text v n = (case v of JStr s \<Rightarrow> JStr (take n s) | _ \<Rightarrow> v)"

definition strip_query_string :: "js \<Rightarrow> js" where
  "strip_query_string v = (case v of JStr s \<Rightarrow> JStr (takeWhile (\<lambda>c. c \<noteq> CHR ''?'') s) | _ \<Rightarrow> v)"

definition is_audit_event :: "js \<Rightarrow> bool" where
  "is_audit_event e = (is_str (jget e ''action'') \<and> is_str (jget e ''ID''))"

definition is_usage_event :: "js \<Rightarrow> bool" where
  "is_usage_event e = (jget e ''category'' = JStr ''usage'' \<and> is_str (jget e ''eventId''))"

definition OMISSION_REASONS :: "string list" where
  "OMISSION_REASONS = [''not-masked'', ''not-requested'', ''stream-incomplete'']"

definition text_member :: "js \<Rightarrow> string \<Rightarrow> js" where
  "text_member v k = (if is_str (jget v k) then jget v k else JUndef)"

definition content_of :: "js \<Rightarrow> js" where
  "content_of c =
     (if \<not> is_objectish c then JUndef
      else JObj [(''prompt'', text_member c ''prompt''), (''response'', text_member c ''response''),
        (''truncated'', JBool (jget c ''truncated'' = JBool True)), (''masked'', JBool (jget c ''masked'' = JBool True)),
        (''omitted'', if jget c ''omitted'' \<in> JStr ` set OMISSION_REASONS then jget c ''omitted'' else JUndef)])"

text \<open>\<open>Object.entries\<close>\<close>

fun js_entries :: "js \<Rightarrow> (string \<times> js) list" where
  "js_entries (JObj kvs) = kvs"
| "js_entries (JArr vs) = map (\<lambda>(i, v). (show_nat i, v)) (enumerate 0 vs)"
| "js_entries _ = []"

definition is_count :: "js \<Rightarrow> bool" where
  "is_count v = (case v of JNum n \<Rightarrow> 0 \<le> n | _ \<Rightarrow> False)"

fun count_categories :: "(string \<times> js) list \<Rightarrow> (string \<times> js) list \<Rightarrow> (string \<times> js) list" where
  "count_categories [] acc = acc"
| "count_categories ((k, n) # es) acc =
     (if MAX_PSEUDONYMIZATION_CATEGORIES \<le> length acc then acc
      else if MAX_CATEGORY_KEY_LENGTH < length k \<or> \<not> is_count n then count_categories es acc
      else count_categories es (AList.update k n acc))"

definition pseudonymization_of :: "js \<Rightarrow> js" where
  "pseudonymization_of b =
     (if \<not> is_objectish b then JUndef
      else case jget b ''masked_values'' of
        JNum n \<Rightarrow> JObj [(''masked_values'', JNum n),
          (''categories'', JObj (if is_objectish (jget b ''categories'')
             then count_categories (js_entries (jget b ''categories'')) [] else [])),
          (''saturated'', JBool (jget b ''saturated'' = JBool True))]
      | _ \<Rightarrow> JUndef)"

definition severity_of :: "js \<Rightarrow> js" where
  "severity_of v = (if v \<in> JStr ` {''low'', ''medium'', ''high'', ''critical''} then v else JStr ''low'')"

definition or_now :: "string \<Rightarrow> js \<Rightarrow> js" where
  "or_now now v = (if truthy v then v else JStr now)"

definition request_outcome :: "js \<Rightarrow> js" where
  "request_outcome status =
     (case status of JNum n \<Rightarrow> JStr (if 400 \<le> n then ''failure'' else ''success'') | _ \<Rightarrow> JStr ''unknown'')"

definition usage_event :: "string \<Rightarrow> js \<Rightarrow> js" where
  "usage_event now s = JObj
     [(''schema_version'', JStr ''1.0''), (''event_id'', jget s ''eventId''),
      (''timestamp'', or_now now (jget s ''timestamp'')), (''category'', JStr ''usage''),
      (''type'', nullish (jget s ''eventType'') (JStr ''request_completed'')), (''severity'', severity_of (jget s ''severity'')),
      (''outcome'', request_outcome (jget s ''statusCode'')),
      (''actor'', JObj [(''credential_id'', jget s ''credentialId''), (''auth_type'', jget s ''authType''),
         (''client_ip'', jget s ''clientIP''), (''user_agent'', truncate_text (jget s ''userAgent'') MAX_USER_AGENT_LENGTH)]),
      (''resource'', JObj [(''model'', jget s ''model''), (''endpoint'', strip_query_string (jget s ''endpoint''))]),
      (''request'', JObj [(''request_id'', jget s ''requestId''), (''status'', jget s ''statusCode'')]),
      (''description'', truncate_text (jget s ''description'') MAX_DESCRIPTION_LENGTH),
      (''content'', content_of (jget s ''content'')),
      (''pseudonymization'', pseudonymization_of (jget s ''pseudonymization''))]"

definition audit_event :: "string \<Rightarrow> js \<Rightarrow> js" where
  "audit_event now s = JObj
     [(''schema_version'', JStr ''1.0''), (''event_id'', jget s ''ID''),
      (''timestamp'', or_now now (jget s ''createdAt'')), (''category'', JStr ''audit''),
      (''type'', jget s ''action''), (''severity'', severity_of (jget s ''severity'')),
      (''outcome'', JStr (if jget s ''outcome'' = JStr ''failure'' then ''failure'' else ''success'')),
      (''actor'', JObj [(''credential_id'', jget s ''actorId''), (''auth_type'', jget s ''actorType''),
         (''client_ip'', jget s ''clientIP''), (''user_agent'', truncate_text (jget s ''userAgent'') MAX_USER_AGENT_LENGTH)]),
      (''resource'', JObj [(''resource_type'', jget s ''resourceType''), (''resource_id'', jget s ''resourceId'')]),
      (''request'', JObj []),
      (''description'', truncate_text (jget s ''details'') MAX_DESCRIPTION_LENGTH)]"

definition security_event :: "string \<Rightarrow> js \<Rightarrow> js" where
  "security_event now s = JObj
     [(''schema_version'', JStr ''1.0''), (''event_id'', nullish (jget s ''eventId'') (JStr [])),
      (''timestamp'', or_now now (jget s ''timestamp'')), (''category'', JStr ''security''),
      (''type'', nullish (jget s ''eventType'') (JStr ''unknown'')), (''severity'', severity_of (jget s ''severity'')),
      (''outcome'', JStr ''failure''),
      (''actor'', JObj [(''credential_id'', jget s ''credentialId''), (''credential_hint'', jget s ''credentialHint''),
         (''credential_material'', jget s ''credentialMaterial''), (''auth_type'', jget s ''authType''),
         (''client_ip'', jget s ''clientIP''), (''user_agent'', truncate_text (jget s ''userAgent'') MAX_USER_AGENT_LENGTH)]),
      (''resource'', JObj [(''endpoint'', strip_query_string (jget s ''endpoint''))]),
      (''request'', JObj [(''request_id'', jget s ''requestId''), (''status'', jget s ''statusCode'')]),
      (''description'', truncate_text (jget s ''description'') MAX_DESCRIPTION_LENGTH)]"

definition to_siem_event :: "string \<Rightarrow> js \<Rightarrow> js" where
  "to_siem_event now input =
     (let s = nullish input (JObj []) in
      if is_usage_event s then usage_event now s
      else if is_audit_event s then audit_event now s
      else security_event now s)"

section \<open>Redaction for a sink\<close>

record sink_policy =
  sp_material :: bool
  sp_content :: bool
  sp_unmasked :: bool

definition without_credential_material :: "js \<Rightarrow> js" where
  "without_credential_material e =
     (if jpath e [''actor'', ''credential_material''] = JUndef then e
      else jset ''actor'' (jdel ''credential_material'' (jget e ''actor'')) e)"

definition content_for_sink :: "js \<Rightarrow> sink_policy \<Rightarrow> js" where
  "content_for_sink e p =
     (if jget e ''content'' = JUndef then e
      else if \<not> sp_content p then jdel ''content'' e
      else if jpath e [''content'', ''masked''] \<noteq> JBool True \<and> \<not> sp_unmasked p
           then jset ''content'' (JObj [(''omitted'', JStr ''not-masked'')]) e
      else e)"

definition redact_for_sink :: "js \<Rightarrow> sink_policy \<Rightarrow> js" where
  "redact_for_sink e p =
     (let with_content = content_for_sink e p in
      if sp_material p then with_content else without_credential_material with_content)"

section \<open>What a sink may receive\<close>

text \<open>The three gates, on the event a sink receives.\<close>

definition permitted :: "sink_policy \<Rightarrow> js \<Rightarrow> bool" where
  "permitted p e \<longleftrightarrow>
     (\<not> sp_material p \<longrightarrow> jpath e [''actor'', ''credential_material''] = JUndef) \<and>
     (\<not> sp_content p \<longrightarrow> jget e ''content'' = JUndef) \<and>
     (\<not> sp_unmasked p \<longrightarrow> jpath e [''content'', ''masked''] = JBool True \<or>
        jpath e [''content'', ''prompt''] = JUndef \<and> jpath e [''content'', ''response''] = JUndef)"

lemma redacted_permitted: "permitted p (redact_for_sink e p)"
  by (auto simp: permitted_def redact_for_sink_def content_for_sink_def without_credential_material_def Let_def)

text \<open>Nothing else of an event changes, and a sink that opted into everything gets it whole.\<close>

lemma redaction_keeps:
  "k \<noteq> ''content'' \<Longrightarrow> k \<noteq> ''actor'' \<Longrightarrow> jget (redact_for_sink e p) k = jget e k"
  "a \<noteq> ''credential_material'' \<Longrightarrow> jpath (redact_for_sink e p) [''actor'', a] = jpath e [''actor'', a]"
  "sp_material p \<Longrightarrow> sp_content p \<Longrightarrow> sp_unmasked p \<Longrightarrow> redact_for_sink e p = e"
  by (auto simp: redact_for_sink_def content_for_sink_def without_credential_material_def Let_def)

text \<open>Only a usage event carries content, only a security event carries the presented credential.\<close>

lemma content_only_of_usage:
  "\<not> is_usage_event (nullish s (JObj [])) \<Longrightarrow> jget (to_siem_event now s) ''content'' = JUndef"
  by (simp add: to_siem_event_def audit_event_def security_event_def Let_def)

lemma material_only_of_security:
  "is_usage_event s \<or> is_audit_event s \<Longrightarrow> jpath (to_siem_event now s) [''actor'', ''credential_material''] = JUndef"
  by (auto simp: to_siem_event_def audit_event_def usage_event_def nullish_def is_usage_event_def is_audit_event_def Let_def)

lemma count_categories_bounded:
  "length acc \<le> MAX_PSEUDONYMIZATION_CATEGORIES \<Longrightarrow>
     length (count_categories es acc) \<le> MAX_PSEUDONYMIZATION_CATEGORIES"
proof (induction es acc rule: count_categories.induct)
  case (2 k n es acc)
  have "length (AList.update k n acc) \<le> Suc (length acc)" by (induction acc) auto
  then show ?case using 2 by (auto simp: Suc_le_eq)
qed simp

end
