(* ===== verification/Siem_Outbox.thy ===== *)
theory Siem_Outbox
  imports Siem_Event
begin

text \<open>
  The durable outbox of the SIEM export (\<open>admin siem/outbox.ts\<close>): one row per event, one delivery row per event
  and sink, the read of a batch, the repair of missing delivery rows in chunks, and the settling of a delivery.

  A table is the list of its rows; a payload is kept as the event, where an undefined member reads as the absent one
  its JSON has. Times are milliseconds; the keys of delivery rows are left out, since an event
  and a sink name identify them. A database error is modelled where the code catches one: here in a chunk of the
  repair, and in a dispatch as a reply that failed.
\<close>

section \<open>The tables\<close>

datatype delivery_status = Pending | Delivered | Expired

record outbox_row =
  ob_id :: string
  ob_payload :: js
  ob_occurred :: int
  ob_created :: int

record delivery =
  dl_event :: string
  dl_sink :: string
  dl_status :: delivery_status
  dl_attempts :: nat
  dl_error :: "string option"
  dl_created :: int

record siem_db =
  sd_outbox :: "outbox_row list"
  sd_deliveries :: "delivery list"

definition new_delivery :: "int \<Rightarrow> string \<Rightarrow> string \<Rightarrow> delivery" where
  "new_delivery now ev sink =
     \<lparr> dl_event = ev, dl_sink = sink, dl_status = Pending, dl_attempts = 0, dl_error = None, dl_created = now \<rparr>"

definition write_to_outbox :: "string \<Rightarrow> int \<Rightarrow> int \<Rightarrow> js \<Rightarrow> string list \<Rightarrow> siem_db \<Rightarrow> siem_db" where
  "write_to_outbox uuid now occurred e sinks db =
     db\<lparr> sd_outbox := sd_outbox db @ [\<lparr> ob_id = uuid, ob_payload = e, ob_occurred = occurred, ob_created = now \<rparr>],
         sd_deliveries := sd_deliveries db @ map (new_delivery now uuid) sinks \<rparr>"

section \<open>Reading a batch\<close>

definition pending_rows :: "string \<Rightarrow> siem_db \<Rightarrow> delivery list" where
  "pending_rows sink db = filter (\<lambda>d. dl_status d = Pending \<and> dl_sink d = sink) (sd_deliveries db)"

definition read_undelivered :: "string \<Rightarrow> nat \<Rightarrow> siem_db \<Rightarrow> (string \<times> js) list" where
  "read_undelivered sink limit db =
     (let events = uniq (map dl_event (take limit (sort_key dl_created (pending_rows sink db)))) in
      map (\<lambda>r. (ob_id r, ob_payload r))
        (sort_key ob_occurred (filter (\<lambda>r. ob_id r \<in> set events) (sd_outbox db))))"

section \<open>The repair\<close>

definition RECONCILE_CHUNK_SIZE :: nat where
  "RECONCILE_CHUNK_SIZE = 500"

definition DEFAULT_RECONCILE_LOOKBACK_MS :: int where
  "DEFAULT_RECONCILE_LOOKBACK_MS = 24 * 60 * 60 * 1000"

text \<open>The ids of the rows that landed since the cutoff, in the order of the cursor.\<close>

definition recent_ids :: "int \<Rightarrow> siem_db \<Rightarrow> string list" where
  "recent_ids cutoff db =
     map ob_id (sort_key ob_created (sort_key ob_id (filter (\<lambda>r. cutoff \<le> ob_created r) (sd_outbox db))))"

text \<open>One chunk: a delivery row for every event of the chunk and every sink that has none.\<close>

definition has_delivery :: "siem_db \<Rightarrow> string \<Rightarrow> string \<Rightarrow> bool" where
  "has_delivery db i s = list_ex (\<lambda>d. dl_event d = i \<and> dl_sink d = s) (sd_deliveries db)"

definition missing_deliveries :: "int \<Rightarrow> string list \<Rightarrow> string list \<Rightarrow> siem_db \<Rightarrow> delivery list" where
  "missing_deliveries now sinks ids db =
     concat (map (\<lambda>i. map (new_delivery now i) (filter (\<lambda>s. \<not> has_delivery db i s) sinks)) ids)"

text \<open>The loop over the chunks: \<open>fails\<close> says at which offsets the database fails, which skips the chunk.\<close>

function reconcile_from :: "(nat \<Rightarrow> bool) \<Rightarrow> int \<Rightarrow> string list \<Rightarrow> string list \<Rightarrow> nat \<Rightarrow> nat \<times> siem_db \<Rightarrow> nat \<times> siem_db" where
  "reconcile_from fails now sinks ids offset (created, db) =
     (let chunk = take RECONCILE_CHUNK_SIZE (drop offset ids) in
      if chunk = [] then (created, db)
      else let new_rows = missing_deliveries now sinks chunk db;
               st = (if fails offset then (created, db)
                     else (created + length new_rows, db\<lparr>sd_deliveries := sd_deliveries db @ new_rows\<rparr>))
           in if length chunk < RECONCILE_CHUNK_SIZE then st
              else reconcile_from fails now sinks ids (offset + RECONCILE_CHUNK_SIZE) st)"
  by pat_completeness auto

termination
  by (relation "measure (\<lambda>(_, _, _, ids, offset, _). length ids - offset)") (auto simp: RECONCILE_CHUNK_SIZE_def)

declare reconcile_from.simps [simp del]

definition reconcile_outbox :: "(nat \<Rightarrow> bool) \<Rightarrow> int \<Rightarrow> string list \<Rightarrow> int option \<Rightarrow> siem_db \<Rightarrow> nat \<times> siem_db" where
  "reconcile_outbox fails now sinks lookback db =
     (if sinks = [] then (0, db)
      else let back = (case lookback of None \<Rightarrow> DEFAULT_RECONCILE_LOOKBACK_MS | Some ms \<Rightarrow> ms) in
        reconcile_from fails now sinks (recent_ids (now - back) db) 0 (0, db))"

section \<open>Settling\<close>

definition mark_delivered :: "string list \<Rightarrow> string \<Rightarrow> siem_db \<Rightarrow> siem_db" where
  "mark_delivered ids sink db =
     db\<lparr>sd_deliveries := map (\<lambda>d. if dl_event d \<in> set ids \<and> dl_sink d = sink then d\<lparr>dl_status := Delivered\<rparr> else d)
       (sd_deliveries db)\<rparr>"

definition DEFAULT_MAX_ATTEMPTS :: nat where
  "DEFAULT_MAX_ATTEMPTS = 10"

text \<open>A failed attempt of one delivery row.\<close>

definition failed_delivery :: "nat \<Rightarrow> string \<Rightarrow> delivery \<Rightarrow> delivery" where
  "failed_delivery max_attempts msg d =
     (let n = dl_attempts d + 1 in
      d\<lparr> dl_attempts := n, dl_error := Some msg, dl_status := (if max_attempts \<le> n then Expired else dl_status d) \<rparr>)"

definition mark_failed :: "string list \<Rightarrow> string \<Rightarrow> string \<Rightarrow> nat \<Rightarrow> siem_db \<Rightarrow> (string \<times> nat) list \<times> siem_db" where
  "mark_failed ids sink msg max_attempts db =
     (let hit = (\<lambda>d. dl_event d \<in> set ids \<and> dl_sink d = sink);
          tried = map (failed_delivery max_attempts msg) (filter hit (sd_deliveries db)) in
      (map (\<lambda>d. (dl_event d, dl_attempts d)) (filter (\<lambda>d. max_attempts \<le> dl_attempts d) tried),
       db\<lparr>sd_deliveries := map (\<lambda>d. if hit d then failed_delivery max_attempts msg d else d) (sd_deliveries db)\<rparr>))"

section \<open>The chunked repair is one pass\<close>

text \<open>The ids of the chunks in which the database does not fail.\<close>

definition spared :: "(nat \<Rightarrow> bool) \<Rightarrow> nat \<Rightarrow> string list \<Rightarrow> string list" where
  "spared fails offset ids =
     map snd (filter (\<lambda>(j, i). \<not> fails (offset + j div RECONCILE_CHUNK_SIZE * RECONCILE_CHUNK_SIZE)) (enumerate 0 ids))"

lemma enumerate_shift: "enumerate n xs = map (\<lambda>(j, x). (n + j, x)) (enumerate 0 xs)"
proof (induction xs arbitrary: n)
  case (Cons x xs)
  show ?case by (simp add: Cons[of "Suc n"] Cons[of "Suc 0"] o_def case_prod_unfold)
qed simp

lemma set_spared: "set (spared fails offset ids) \<subseteq> set ids"
  by (auto simp: spared_def enumerate_eq_zip dest: set_zip_rightD)

lemma spared_chunk:
  assumes "length chunk \<le> RECONCILE_CHUNK_SIZE"
  shows "spared fails offset chunk = (if fails offset then [] else chunk)"
proof -
  have "j div RECONCILE_CHUNK_SIZE = 0" if "(j, i) \<in> set (enumerate 0 chunk)" for j i
    using that assms by (simp add: in_set_enumerate_eq)
  then have "filter (\<lambda>(j, i). \<not> fails (offset + j div RECONCILE_CHUNK_SIZE * RECONCILE_CHUNK_SIZE)) (enumerate 0 chunk) =
      filter (\<lambda>_. \<not> fails offset) (enumerate 0 chunk)"
    by (intro filter_cong) auto
  then show ?thesis by (simp add: spared_def)
qed

lemma spared_append:
  assumes "length chunk = RECONCILE_CHUNK_SIZE"
  shows "spared fails offset (chunk @ rest) =
    (if fails offset then [] else chunk) @ spared fails (offset + RECONCILE_CHUNK_SIZE) rest"
proof -
  have c: "0 < RECONCILE_CHUNK_SIZE" by (simp add: RECONCILE_CHUNK_SIZE_def)
  have "filter (\<lambda>(j, i). \<not> fails (offset + j div RECONCILE_CHUNK_SIZE * RECONCILE_CHUNK_SIZE)) (enumerate RECONCILE_CHUNK_SIZE rest) =
      map (\<lambda>(j, x). (RECONCILE_CHUNK_SIZE + j, x))
        (filter (\<lambda>(j, i). \<not> fails (offset + RECONCILE_CHUNK_SIZE + j div RECONCILE_CHUNK_SIZE * RECONCILE_CHUNK_SIZE)) (enumerate 0 rest))"
    using c by (subst enumerate_shift) (auto simp: filter_map o_def case_prod_unfold add.assoc intro!: arg_cong[where f = "map _"] filter_cong)
  then have "map snd (filter (\<lambda>(j, i). \<not> fails (offset + j div RECONCILE_CHUNK_SIZE * RECONCILE_CHUNK_SIZE)) (enumerate RECONCILE_CHUNK_SIZE rest)) =
      spared fails (offset + RECONCILE_CHUNK_SIZE) rest"
    by (simp add: spared_def o_def case_prod_unfold)
  then show ?thesis
    using spared_chunk[of chunk fails offset] assms by (simp add: spared_def enumerate_append_eq)
qed

lemma missing_append:
  "missing_deliveries now sinks (a @ b) db = missing_deliveries now sinks a db @ missing_deliveries now sinks b db"
  by (simp add: missing_deliveries_def)

lemma missing_events: "d \<in> set (missing_deliveries now sinks ids db) \<Longrightarrow> dl_event d \<in> set ids"
  by (auto simp: missing_deliveries_def new_delivery_def)

lemma missing_later:
  assumes "set a \<inter> set b = {}"
  shows "missing_deliveries now sinks b (db\<lparr>sd_deliveries := sd_deliveries db @ missing_deliveries now sinks a db\<rparr>) =
    missing_deliveries now sinks b db"
proof -
  let ?db = "db\<lparr>sd_deliveries := sd_deliveries db @ missing_deliveries now sinks a db\<rparr>"
  have "has_delivery ?db i s = has_delivery db i s" if "i \<in> set b" for i s
  proof -
    have "dl_event d \<noteq> i" if "d \<in> set (missing_deliveries now sinks a db)" for d
      using missing_events[OF that] \<open>i \<in> set b\<close> assms by auto
    then show ?thesis by (auto simp: has_delivery_def list_ex_iff)
  qed
  then show ?thesis
    unfolding missing_deliveries_def by (intro arg_cong[where f = concat] map_cong refl arg_cong[where f = "map _"] filter_cong) auto
qed

lemma missing_Nil [simp]: "missing_deliveries now sinks [] db = []"
  by (simp add: missing_deliveries_def)

lemma reconcile_from_exact:
  assumes "distinct ids"
  shows "reconcile_from fails now sinks ids offset (k, db) =
    (let m = missing_deliveries now sinks (spared fails offset (drop offset ids)) db in
     (k + length m, db\<lparr>sd_deliveries := sd_deliveries db @ m\<rparr>))"
  using assms
proof (induction fails now sinks ids offset "(k, db)" arbitrary: k db rule: reconcile_from.induct)
  case (1 fails now sinks ids offset k db)
  let ?chunk = "take RECONCILE_CHUNK_SIZE (drop offset ids)" and ?rest = "drop (offset + RECONCILE_CHUNK_SIZE) ids"
  let ?new = "missing_deliveries now sinks ?chunk db"
  have parts: "drop offset ids = ?chunk @ ?rest" by (metis add.commute append_take_drop_id drop_drop)
  show ?case
  proof (cases "length ?chunk < RECONCILE_CHUNK_SIZE")
    case True
    then have "?rest = []" by (simp add: min_def split: if_splits)
    then have "drop offset ids = ?chunk" using parts by simp
    then show ?thesis
      using spared_chunk[of ?chunk fails offset] True
      by (subst reconcile_from.simps) (auto simp: Let_def)
  next
    case False
    then have len: "length ?chunk = RECONCILE_CHUNK_SIZE" by simp
    then have ne: "?chunk \<noteq> []" by (auto simp: RECONCILE_CHUNK_SIZE_def)
    let ?st = "if fails offset then (k, db) else (k + length ?new, db\<lparr>sd_deliveries := sd_deliveries db @ ?new\<rparr>)"
    obtain k1 db1 where st: "?st = (k1, db1)" by (cases ?st)
    have "set ?chunk \<inter> set ?rest = {}" using 1(2) parts by (metis distinct_append distinct_drop)
    moreover have "set (spared fails (offset + RECONCILE_CHUNK_SIZE) ?rest) \<subseteq> set ?rest" by (rule set_spared)
    ultimately have later: "missing_deliveries now sinks (spared fails (offset + RECONCILE_CHUNK_SIZE) ?rest)
        (db\<lparr>sd_deliveries := sd_deliveries db @ ?new\<rparr>) =
      missing_deliveries now sinks (spared fails (offset + RECONCILE_CHUNK_SIZE) ?rest) db"
      by (intro missing_later) auto
    have "reconcile_from fails now sinks ids offset (k, db) =
        reconcile_from fails now sinks ids (offset + RECONCILE_CHUNK_SIZE) (k1, db1)"
      using ne False st by (subst reconcile_from.simps) (simp add: Let_def)
    also have "\<dots> = (let m = missing_deliveries now sinks (spared fails (offset + RECONCILE_CHUNK_SIZE) ?rest) db1 in
        (k1 + length m, db1\<lparr>sd_deliveries := sd_deliveries db1 @ m\<rparr>))"
      by (rule 1(1)[OF refl ne refl _ False]) (use st 1(2) in auto)
    finally show ?thesis
      using st later spared_append[OF len, of fails offset ?rest] parts
      by (auto simp: missing_append Let_def split: if_splits)
  qed
qed

text \<open>C20. The repair in chunks is one pass: it adds exactly the missing delivery rows, each once and pending with no
  attempt, of the recent events whose chunk the database read, and a failing chunk costs no other chunk.\<close>

theorem reconcile_exact:
  assumes "distinct (map ob_id (sd_outbox db))" and "sinks \<noteq> []"
  shows "reconcile_outbox fails now sinks lookback db =
    (let back = (case lookback of None \<Rightarrow> DEFAULT_RECONCILE_LOOKBACK_MS | Some ms \<Rightarrow> ms);
         new_rows = missing_deliveries now sinks (spared fails 0 (recent_ids (now - back) db)) db
     in (length new_rows, db\<lparr>sd_deliveries := sd_deliveries db @ new_rows\<rparr>))"
proof -
  have "distinct (recent_ids c db)" for c
    using assms(1) by (simp add: recent_ids_def distinct_map_filter distinct_map inj_on_def)
  then show ?thesis using assms(2) by (simp add: reconcile_outbox_def reconcile_from_exact Let_def)
qed

text \<open>After a repair without failures every recent event has a delivery row for every sink.\<close>

lemma repaired_complete:
  assumes "distinct (map ob_id (sd_outbox db))" and "i \<in> set (recent_ids (now - back) db)" and "s \<in> set sinks"
  shows "has_delivery (snd (reconcile_outbox (\<lambda>_. False) now sinks (Some back) db)) i s"
proof -
  have "sinks \<noteq> []" using assms(3) by auto
  moreover have "distinct (recent_ids c db)" for c
    using assms(1) by (simp add: recent_ids_def distinct_map_filter distinct_map inj_on_def)
  moreover have "spared (\<lambda>_. False) 0 ids = ids" for ids by (simp add: spared_def enumerate_eq_zip)
  ultimately have "snd (reconcile_outbox (\<lambda>_. False) now sinks (Some back) db) =
      db\<lparr>sd_deliveries := sd_deliveries db @ missing_deliveries now sinks (recent_ids (now - back) db) db\<rparr>"
    by (simp add: reconcile_outbox_def reconcile_from_exact Let_def)
  moreover have "new_delivery now i s \<in> set (missing_deliveries now sinks (recent_ids (now - back) db) db)"
    if "\<not> has_delivery db i s"
    using that assms(2,3) by (auto simp: missing_deliveries_def)
  moreover have "dl_event (new_delivery now i s) = i \<and> dl_sink (new_delivery now i s) = s"
    by (simp add: new_delivery_def)
  ultimately show ?thesis by (cases "has_delivery db i s") (auto simp: has_delivery_def list_ex_iff)
qed

definition two_events :: siem_db where
  "two_events = \<lparr> sd_outbox = [\<lparr> ob_id = ''a'', ob_payload = JObj [], ob_occurred = 5, ob_created = 10 \<rparr>,
       \<lparr> ob_id = ''b'', ob_payload = JObj [], ob_occurred = 6, ob_created = 20 \<rparr>],
     sd_deliveries = [new_delivery 10 ''a'' ''s''] \<rparr>"

theorem reconcile_exact_witness:
  "reconcile_outbox (\<lambda>_. False) 25 [''s''] (Some 15) two_events =
     (1, two_events\<lparr>sd_deliveries := [new_delivery 10 ''a'' ''s'', new_delivery 25 ''b'' ''s'']\<rparr>)"
proof -
  have "distinct (map ob_id (sd_outbox two_events))" "[''s''] \<noteq> []" by (simp_all add: two_events_def)
  note r = reconcile_exact[OF this, of "\<lambda>_. False" 25 "Some 15"]
  show ?thesis unfolding r by code_simp
qed

end
