(* ===== verification/Siem_Dispatcher.thy ===== *)
theory Siem_Dispatcher
  imports Siem_Outbox
begin

text \<open>
  The delivery dispatcher of the SIEM export (\<open>admin siem/dispatcher.ts\<close>): ticks, the batch of a sink, the
  settlement of a batch or of its rows one by one, and the backoff of a sink.

  A send ends in a later step, so a dispatch is a sequence of steps: a tick starts the dispatch of every sink that
  is due and not in flight, and each reply of a sink settles what was sent and sends the next row. Sinks are
  interleaved freely. Two fields only record what happened: the batches handed to a sink and the events a sink
  accepted. The timers are the ticks of the step relation, the log is not modelled.
\<close>

section \<open>State\<close>

record siem_sink =
  sk_name :: string
  sk_policy :: sink_policy

record dispatch_config =
  dc_batch :: nat
  dc_interval :: int
  dc_per_sink :: "(string \<times> (nat option \<times> int option)) list"
  dc_lookback :: "int option"

text \<open>
  What the \<open>try\<close> block of a send comes to: the sink accepted and that was noted, or one of the two threw. An error
  that is no \<open>SinkError\<close>, as one of the database, is retryable.
\<close>

datatype send_reply = Accepted | Refused string bool

record backoff_state =
  bo_delay :: int
  bo_next :: int

text \<open>The whole batch was sent; or a row, the first of those left, with what the rows before it saw.\<close>

datatype dispatch_phase =
    Batch_Sent "(string \<times> js) list"
  | Row_Sent "(string \<times> js) list" bool bool

record dispatcher =
  dp_backoff :: "(string \<times> backoff_state) list"
  dp_last_run :: "(string \<times> int) list"
  dp_in_flight :: "(string \<times> dispatch_phase) list"
  dp_db :: siem_db
  dp_sent :: "(string \<times> js list) list"
  dp_accepted :: "(string \<times> string) list"

definition BASE_BACKOFF_MS :: int where "BASE_BACKOFF_MS = 1000"
definition MAX_BACKOFF_MS :: int where "MAX_BACKOFF_MS = 5 * 60 * 1000"
definition RETRYABLE_BACKOFF_MULTIPLIER :: int where "RETRYABLE_BACKOFF_MULTIPLIER = 2"
definition NON_RETRYABLE_BACKOFF_MULTIPLIER :: int where "NON_RETRYABLE_BACKOFF_MULTIPLIER = 4"

section \<open>Sending\<close>

definition hand_over :: "siem_sink \<Rightarrow> js list \<Rightarrow> dispatch_phase \<Rightarrow> dispatcher \<Rightarrow> dispatcher" where
  "hand_over sink payloads phase st =
     st\<lparr> dp_in_flight := AList.update (sk_name sink) phase (dp_in_flight st),
         dp_sent := dp_sent st @ [(sk_name sink, map (\<lambda>e. redact_for_sink e (sk_policy sink)) payloads)] \<rparr>"

text \<open>\<open>dispatchOne\<close> up to its send.\<close>

definition dispatch_one :: "siem_sink \<Rightarrow> nat \<Rightarrow> int \<Rightarrow> dispatcher \<Rightarrow> dispatcher" where
  "dispatch_one sink batch_size now st =
     (if (case map_of (dp_backoff st) (sk_name sink) of None \<Rightarrow> False | Some b \<Rightarrow> now < bo_next b) then st
      else let rows = read_undelivered (sk_name sink) batch_size (dp_db st) in
        if rows = [] then st else hand_over sink (map snd rows) (Batch_Sent rows) st)"

text \<open>A sink on a tick: its interval and its own dispatch in flight are its only guards.\<close>

definition tick_sink :: "dispatch_config \<Rightarrow> int \<Rightarrow> siem_sink \<Rightarrow> dispatcher \<Rightarrow> dispatcher" where
  "tick_sink cfg now sink st =
     (let override = map_of (dc_per_sink cfg) (sk_name sink);
          interval = (case override of Some (_, Some ms) \<Rightarrow> ms | _ \<Rightarrow> dc_interval cfg);
          batch_size = (case override of Some (Some n, _) \<Rightarrow> n | _ \<Rightarrow> dc_batch cfg);
          last_run = (case map_of (dp_last_run st) (sk_name sink) of None \<Rightarrow> 0 | Some t \<Rightarrow> t)
      in if now - last_run < interval then st
         else if map_of (dp_in_flight st) (sk_name sink) \<noteq> None then st
         else dispatch_one sink batch_size now (st\<lparr>dp_last_run := AList.update (sk_name sink) now (dp_last_run st)\<rparr>))"

definition tick :: "siem_sink list \<Rightarrow> dispatch_config \<Rightarrow> int \<Rightarrow> dispatcher \<Rightarrow> dispatcher" where
  "tick sinks cfg now st = fold (tick_sink cfg now) sinks st"

section \<open>Settling\<close>

definition grow_backoff :: "string \<Rightarrow> bool \<Rightarrow> int \<Rightarrow> dispatcher \<Rightarrow> dispatcher" where
  "grow_backoff name retryable now st =
     (let multiplier = (if retryable then RETRYABLE_BACKOFF_MULTIPLIER else NON_RETRYABLE_BACKOFF_MULTIPLIER);
          delay = min ((case map_of (dp_backoff st) name of None \<Rightarrow> BASE_BACKOFF_MS | Some b \<Rightarrow> bo_delay b) * multiplier)
            MAX_BACKOFF_MS
      in st\<lparr>dp_backoff := AList.update name \<lparr> bo_delay = delay, bo_next = now + delay \<rparr> (dp_backoff st)\<rparr>)"

definition clear_backoff :: "string \<Rightarrow> dispatcher \<Rightarrow> dispatcher" where
  "clear_backoff name st = st\<lparr>dp_backoff := AList.delete name (dp_backoff st)\<rparr>"

text \<open>The end of a dispatch: the sink is no longer in flight.\<close>

definition finish :: "string \<Rightarrow> dispatcher \<Rightarrow> dispatcher" where
  "finish name st = st\<lparr>dp_in_flight := AList.delete name (dp_in_flight st)\<rparr>"

definition settle_delivered :: "string list \<Rightarrow> string \<Rightarrow> dispatcher \<Rightarrow> dispatcher" where
  "settle_delivered ids name st =
     st\<lparr> dp_db := mark_delivered ids name (dp_db st), dp_accepted := dp_accepted st @ map (Pair name) ids \<rparr>"

definition settle_failed :: "string list \<Rightarrow> string \<Rightarrow> string \<Rightarrow> dispatcher \<Rightarrow> dispatcher" where
  "settle_failed ids name msg st = st\<lparr>dp_db := snd (mark_failed ids name msg DEFAULT_MAX_ATTEMPTS (dp_db st))\<rparr>"

definition settle_whole_batch :: "string list \<Rightarrow> string \<Rightarrow> string \<Rightarrow> bool \<Rightarrow> int \<Rightarrow> dispatcher \<Rightarrow> dispatcher" where
  "settle_whole_batch ids name msg retryable now st =
     finish name (grow_backoff name retryable now (settle_failed ids name msg st))"

text \<open>The reply to a row, and what follows: the next row, or the backoff of the sink.\<close>

definition settle_row :: "siem_sink \<Rightarrow> (string \<times> js) \<Rightarrow> (string \<times> js) list \<Rightarrow> bool \<Rightarrow> bool \<Rightarrow> send_reply \<Rightarrow> int \<Rightarrow>
    dispatcher \<Rightarrow> dispatcher" where
  "settle_row sink row rest failed retryable r now st =
     (let name = sk_name sink;
          st1 = (case r of Accepted \<Rightarrow> settle_delivered [fst row] name st | Refused msg _ \<Rightarrow> settle_failed [fst row] name msg st);
          failed1 = (failed \<or> r \<noteq> Accepted);
          retryable1 = (retryable \<or> (case r of Refused _ again \<Rightarrow> again | Accepted \<Rightarrow> False))
      in case rest of
           next_row # _ \<Rightarrow> hand_over sink [snd next_row] (Row_Sent rest failed1 retryable1) st1
         | [] \<Rightarrow> finish name (if failed1 then grow_backoff name retryable1 now st1 else clear_backoff name st1))"

definition on_reply :: "siem_sink \<Rightarrow> send_reply \<Rightarrow> int \<Rightarrow> dispatcher \<Rightarrow> dispatcher" where
  "on_reply sink r now st =
     (let name = sk_name sink in
      case map_of (dp_in_flight st) name of
        None \<Rightarrow> st
      | Some (Batch_Sent rows) \<Rightarrow>
          (case r of
             Accepted \<Rightarrow> finish name (clear_backoff name (settle_delivered (map fst rows) name st))
           | Refused msg retryable \<Rightarrow>
               if \<not> retryable \<and> 1 < length rows
               then hand_over sink [snd (hd rows)] (Row_Sent rows False False) st
               else settle_whole_batch (map fst rows) name msg retryable now st)
      | Some (Row_Sent (row # rest) failed retryable) \<Rightarrow> settle_row sink row rest failed retryable r now st
      | Some (Row_Sent [] failed retryable) \<Rightarrow> finish name st)"

section \<open>Steps\<close>

datatype siem_action =
    Ingest string int int string js
  | Reconcile "nat \<Rightarrow> bool" int
  | Tick int
  | Reply siem_sink send_reply int
  | Broken siem_sink

text \<open>
  \<open>Ingest\<close> is the write of the stream's subscriber: a key, the time, the event's time, its text and the event.
  \<open>Broken\<close> is an error of the database that nobody in the dispatch catches: the tick swallows it.
\<close>

fun siem_step :: "siem_sink list \<Rightarrow> dispatch_config \<Rightarrow> siem_action \<Rightarrow> dispatcher \<Rightarrow> dispatcher" where
  "siem_step sinks cfg (Ingest uuid now occurred text_now e) st =
     st\<lparr>dp_db := write_to_outbox uuid now occurred (to_siem_event text_now e) (map sk_name sinks) (dp_db st)\<rparr>"
| "siem_step sinks cfg (Reconcile fails now) st =
     st\<lparr>dp_db := snd (reconcile_outbox fails now (map sk_name sinks) (dc_lookback cfg) (dp_db st))\<rparr>"
| "siem_step sinks cfg (Tick now) st = tick sinks cfg now st"
| "siem_step sinks cfg (Reply sink r now) st = on_reply sink r now st"
| "siem_step sinks cfg (Broken sink) st = finish (sk_name sink) st"

definition start_state :: dispatcher where
  "start_state = \<lparr> dp_backoff = [], dp_last_run = [], dp_in_flight = [],
     dp_db = \<lparr> sd_outbox = [], sd_deliveries = [] \<rparr>, dp_sent = [], dp_accepted = [] \<rparr>"

text \<open>The reachable states: the key of an ingested event is new, and a reply is one of a configured sink.\<close>

inductive siem_reachable :: "siem_sink list \<Rightarrow> dispatch_config \<Rightarrow> dispatcher \<Rightarrow> bool" for sinks cfg where
  start: "siem_reachable sinks cfg start_state"
| step: "siem_reachable sinks cfg st \<Longrightarrow>
    (case act of Ingest uuid _ _ _ _ \<Rightarrow> uuid \<notin> ob_id ` set (sd_outbox (dp_db st)) | Reply sink _ _ \<Rightarrow> sink \<in> set sinks | _ \<Rightarrow> True) \<Longrightarrow>
    siem_reachable sinks cfg (siem_step sinks cfg act st)"

end
