(* ===== verification/Siem_Delivery.thy ===== *)
theory Siem_Delivery
  imports Siem_Dispatcher
begin

text \<open>
  What the SIEM export promises: whatever the interleaving of ticks, replies, repairs and new events, a delivery is
  marked delivered only for an accepted event, expires after exactly ten failed attempts, and a sink never receives
  what it has not opted into; a rejected event blocks no other; a sink that accepts drains its backlog.
\<close>

section \<open>The invariant\<close>

definition delivery_key :: "delivery \<Rightarrow> string \<times> string" where
  "delivery_key d = (dl_sink d, dl_event d)"

text \<open>A delivery row agrees with what the sink accepted.\<close>

definition honest :: "(string \<times> string) set \<Rightarrow> delivery \<Rightarrow> bool" where
  "honest accepted d =
     (case dl_status d of
        Pending \<Rightarrow> dl_attempts d < DEFAULT_MAX_ATTEMPTS \<and> delivery_key d \<notin> accepted
      | Delivered \<Rightarrow> dl_attempts d < DEFAULT_MAX_ATTEMPTS \<and> delivery_key d \<in> accepted
      | Expired \<Rightarrow> dl_attempts d = DEFAULT_MAX_ATTEMPTS \<and> delivery_key d \<notin> accepted)"

definition tables_ok :: "siem_db \<Rightarrow> bool" where
  "tables_ok db \<longleftrightarrow> distinct (map ob_id (sd_outbox db)) \<and> distinct (map delivery_key (sd_deliveries db)) \<and>
     dl_event ` set (sd_deliveries db) \<subseteq> ob_id ` set (sd_outbox db)"

definition outcomes_ok :: "dispatcher \<Rightarrow> bool" where
  "outcomes_ok st \<longleftrightarrow>
     (\<forall>d \<in> set (sd_deliveries (dp_db st)). honest (set (dp_accepted st)) d) \<and>
     set (dp_accepted st) \<subseteq> delivery_key ` set (sd_deliveries (dp_db st))"

text \<open>What was handed to a sink are redactions, under the sink's policy, of events of the outbox.\<close>

definition sendable_to :: "siem_sink list \<Rightarrow> outbox_row list \<Rightarrow> string \<times> js list \<Rightarrow> bool" where
  "sendable_to sinks rows sent \<longleftrightarrow>
     (\<exists>sink \<in> set sinks. sk_name sink = fst sent \<and>
        (\<forall>e \<in> set (snd sent). \<exists>r \<in> set rows. e = redact_for_sink (ob_payload r) (sk_policy sink)))"

definition sent_ok :: "siem_sink list \<Rightarrow> dispatcher \<Rightarrow> bool" where
  "sent_ok sinks st \<longleftrightarrow> (\<forall>x \<in> set (dp_sent st). sendable_to sinks (sd_outbox (dp_db st)) x)"

text \<open>Rows in flight: rows of the outbox whose delivery is pending.\<close>

fun phase_rows :: "dispatch_phase \<Rightarrow> (string \<times> js) list" where
  "phase_rows (Batch_Sent rows) = rows"
| "phase_rows (Row_Sent rows _ _) = rows"

definition is_pending :: "siem_db \<Rightarrow> string \<Rightarrow> string \<Rightarrow> bool" where
  "is_pending db name i \<longleftrightarrow> (\<exists>d \<in> set (sd_deliveries db). delivery_key d = (name, i) \<and> dl_status d = Pending)"

definition rows_ready :: "siem_db \<Rightarrow> string \<Rightarrow> (string \<times> js) list \<Rightarrow> bool" where
  "rows_ready db name rows \<longleftrightarrow> distinct (map fst rows) \<and>
     (\<forall>(i, e) \<in> set rows. is_pending db name i \<and> (\<exists>r \<in> set (sd_outbox db). ob_id r = i \<and> ob_payload r = e))"

definition flight_ok :: "dispatcher \<Rightarrow> bool" where
  "flight_ok st \<longleftrightarrow>
     (\<forall>n p. map_of (dp_in_flight st) n = Some p \<longrightarrow> phase_rows p \<noteq> [] \<and> rows_ready (dp_db st) n (phase_rows p))"

definition siem_ok :: "siem_sink list \<Rightarrow> dispatcher \<Rightarrow> bool" where
  "siem_ok sinks st \<longleftrightarrow> tables_ok (dp_db st) \<and> outcomes_ok st \<and> sent_ok sinks st \<and> flight_ok st"

lemma unique_delivery:
  "tables_ok db \<Longrightarrow> d \<in> set (sd_deliveries db) \<Longrightarrow> d' \<in> set (sd_deliveries db) \<Longrightarrow> delivery_key d = delivery_key d' \<Longrightarrow> d = d'"
  by (auto simp: tables_ok_def distinct_map inj_on_def)

section \<open>Reading\<close>

lemma read_ready:
  assumes "tables_ok db"
  shows "rows_ready db name (read_undelivered name limit db)"
proof -
  let ?ids = "uniq (map dl_event (take limit (sort_key dl_created (pending_rows name db))))"
  let ?rows = "sort_key ob_occurred (filter (\<lambda>r. ob_id r \<in> set ?ids) (sd_outbox db))"
  have "is_pending db name i" if "i \<in> set ?ids" for i
  proof -
    from that obtain d where "d \<in> set (pending_rows name db)" "dl_event d = i"
      using set_take_subset[of limit "sort_key dl_created (pending_rows name db)"] by auto
    then show ?thesis by (force simp: is_pending_def pending_rows_def delivery_key_def)
  qed
  moreover have "distinct (map ob_id ?rows)"
    using assms by (simp add: tables_ok_def distinct_map distinct_map_filter inj_on_def)
  ultimately show ?thesis by (force simp: rows_ready_def read_undelivered_def Let_def o_def)
qed

section \<open>Settling\<close>

lemma settle_other_fields [simp]:
  "dp_sent (settle_delivered ids n st) = dp_sent st" "dp_in_flight (settle_delivered ids n st) = dp_in_flight st"
  "sd_outbox (dp_db (settle_delivered ids n st)) = sd_outbox (dp_db st)"
  "dp_backoff (settle_delivered ids n st) = dp_backoff st"
  "dp_sent (settle_failed ids n msg st) = dp_sent st" "dp_in_flight (settle_failed ids n msg st) = dp_in_flight st"
  "sd_outbox (dp_db (settle_failed ids n msg st)) = sd_outbox (dp_db st)"
  "dp_accepted (settle_failed ids n msg st) = dp_accepted st" "dp_backoff (settle_failed ids n msg st) = dp_backoff st"
  by (simp_all add: settle_delivered_def settle_failed_def mark_delivered_def mark_failed_def Let_def)

text \<open>Both settle the rows of one sink by a change that keeps the key; every other row stays.\<close>

definition settles :: "(delivery \<Rightarrow> delivery) \<Rightarrow> string list \<Rightarrow> string \<Rightarrow> siem_db \<Rightarrow> siem_db" where
  "settles f ids n db =
     db\<lparr>sd_deliveries := map (\<lambda>d. if dl_event d \<in> set ids \<and> dl_sink d = n then f d else d) (sd_deliveries db)\<rparr>"

lemma settles_eq:
  "mark_delivered ids n db = settles (\<lambda>d. d\<lparr>dl_status := Delivered\<rparr>) ids n db"
  "snd (mark_failed ids n msg k db) = settles (failed_delivery k msg) ids n db"
  by (simp_all add: settles_def mark_delivered_def mark_failed_def Let_def)

lemma key_kept [simp]:
  "delivery_key (d\<lparr>dl_status := s\<rparr>) = delivery_key d" "delivery_key (failed_delivery k msg d) = delivery_key d"
  by (simp_all add: delivery_key_def failed_delivery_def Let_def)

lemma keys_after:
  assumes "\<And>d. delivery_key (f d) = delivery_key d"
  shows "delivery_key ` (\<lambda>d. if P d then f d else d) ` X = delivery_key ` X"
proof -
  have "delivery_key (if P d then f d else d) = delivery_key d" for d by (simp add: assms)
  then show ?thesis unfolding image_image by simp
qed

lemma settles_tables:
  assumes "tables_ok db" and f: "\<And>d. delivery_key (f d) = delivery_key d"
  shows "tables_ok (settles f ids n db)"
proof -
  have "map delivery_key (sd_deliveries (settles f ids n db)) = map delivery_key (sd_deliveries db)"
    by (simp add: settles_def f)
  moreover have "dl_event (f d) = dl_event d" for d using f[of d] by (simp add: delivery_key_def)
  ultimately show ?thesis using assms(1) by (auto simp: tables_ok_def settles_def image_iff simp del: map_map)
qed

lemma settles_ready:
  assumes "rows_ready db n' rows" and "n' \<noteq> n \<or> fst ` set rows \<inter> set ids = {}"
  shows "rows_ready (settles f ids n db) n' rows"
proof -
  have "is_pending (settles f ids n db) n' i" if "is_pending db n' i" "n' \<noteq> n \<or> i \<notin> set ids" for i
    using that by (auto simp: is_pending_def settles_def delivery_key_def)
  then show ?thesis using assms by (fastforce simp: rows_ready_def settles_def)
qed

lemma pending_hit:
  assumes "tables_ok db" and "\<forall>i \<in> set ids. is_pending db n i"
    and "d \<in> set (sd_deliveries db)" and "dl_event d \<in> set ids" and "dl_sink d = n"
  shows "dl_status d = Pending"
proof -
  obtain d' where "d' \<in> set (sd_deliveries db)" "delivery_key d' = (n, dl_event d)" "dl_status d' = Pending"
    using assms(2,4) by (auto simp: is_pending_def)
  then show ?thesis using unique_delivery[OF assms(1,3), of d'] assms(5) by (auto simp: delivery_key_def)
qed

lemma settle_delivered_ok:
  assumes t: "tables_ok (dp_db st)" and o: "outcomes_ok st" and p: "\<forall>i \<in> set ids. is_pending (dp_db st) n i"
  shows "outcomes_ok (settle_delivered ids n st)"
proof -
  let ?f = "\<lambda>d. if dl_event d \<in> set ids \<and> dl_sink d = n then d\<lparr>dl_status := Delivered\<rparr> else d"
  let ?acc = "set (dp_accepted st) \<union> Pair n ` set ids"
  have rows: "sd_deliveries (dp_db (settle_delivered ids n st)) = map ?f (sd_deliveries (dp_db st))"
    and acc: "set (dp_accepted (settle_delivered ids n st)) = ?acc"
    by (simp_all add: settle_delivered_def mark_delivered_def)
  have "honest ?acc (?f d)" if d: "d \<in> set (sd_deliveries (dp_db st))" for d
  proof (cases "dl_event d \<in> set ids \<and> dl_sink d = n")
    case True
    then have "dl_status d = Pending" using pending_hit[OF t p d] by simp
    then show ?thesis using True o d by (auto simp: outcomes_ok_def honest_def delivery_key_def)
  next
    case False
    then have "delivery_key d \<in> ?acc \<longleftrightarrow> delivery_key d \<in> set (dp_accepted st)" by (auto simp: delivery_key_def)
    then show ?thesis using False o d by (auto simp: outcomes_ok_def honest_def split: delivery_status.splits)
  qed
  moreover have "?acc \<subseteq> delivery_key ` ?f ` set (sd_deliveries (dp_db st))"
  proof -
    have "delivery_key ` ?f ` X = delivery_key ` X" for X by (rule keys_after) simp
    moreover have "Pair n ` set ids \<subseteq> delivery_key ` set (sd_deliveries (dp_db st))"
      using p by (force simp: is_pending_def)
    ultimately show ?thesis using o by (simp add: outcomes_ok_def)
  qed
  ultimately show ?thesis by (simp only: outcomes_ok_def rows acc set_map ball_simps) blast
qed

lemma settle_failed_ok:
  assumes t: "tables_ok (dp_db st)" and o: "outcomes_ok st" and p: "\<forall>i \<in> set ids. is_pending (dp_db st) n i"
  shows "outcomes_ok (settle_failed ids n msg st)"
proof -
  let ?f = "\<lambda>d. if dl_event d \<in> set ids \<and> dl_sink d = n then failed_delivery DEFAULT_MAX_ATTEMPTS msg d else d"
  have rows: "sd_deliveries (dp_db (settle_failed ids n msg st)) = map ?f (sd_deliveries (dp_db st))"
    by (simp add: settle_failed_def mark_failed_def Let_def)
  have "honest (set (dp_accepted st)) (?f d)" if d: "d \<in> set (sd_deliveries (dp_db st))" for d
  proof (cases "dl_event d \<in> set ids \<and> dl_sink d = n")
    case True
    then have "dl_status d = Pending" using pending_hit[OF t p d] by simp
    then show ?thesis
      using True o d by (auto simp: outcomes_ok_def honest_def failed_delivery_def delivery_key_def Let_def)
  next
    case False
    then show ?thesis using o d by (auto simp: outcomes_ok_def)
  qed
  moreover have "delivery_key ` ?f ` X = delivery_key ` X" for X by (rule keys_after) simp
  moreover have "set (dp_accepted st) \<subseteq> delivery_key ` set (sd_deliveries (dp_db st))" using o by (simp add: outcomes_ok_def)
  ultimately show ?thesis by (simp only: outcomes_ok_def rows set_map ball_simps settle_other_fields) blast
qed

section \<open>Handing over\<close>

lemma hand_over_fields [simp]:
  "dp_db (hand_over sink es ph st) = dp_db st" "dp_accepted (hand_over sink es ph st) = dp_accepted st"
  "dp_backoff (hand_over sink es ph st) = dp_backoff st" "dp_last_run (hand_over sink es ph st) = dp_last_run st"
  by (simp_all add: hand_over_def)

lemma backoff_fields [simp]:
  "dp_db (grow_backoff n r now st) = dp_db st" "dp_accepted (grow_backoff n r now st) = dp_accepted st"
  "dp_sent (grow_backoff n r now st) = dp_sent st" "dp_in_flight (grow_backoff n r now st) = dp_in_flight st"
  "dp_db (clear_backoff n st) = dp_db st" "dp_accepted (clear_backoff n st) = dp_accepted st"
  "dp_sent (clear_backoff n st) = dp_sent st" "dp_in_flight (clear_backoff n st) = dp_in_flight st"
  "dp_db (finish n st) = dp_db st" "dp_accepted (finish n st) = dp_accepted st" "dp_sent (finish n st) = dp_sent st"
  by (simp_all add: grow_backoff_def clear_backoff_def finish_def Let_def)

text \<open>The parts of the invariant but for the rows in flight depend on these fields only.\<close>

definition base_ok :: "siem_sink list \<Rightarrow> dispatcher \<Rightarrow> bool" where
  "base_ok sinks st \<longleftrightarrow> tables_ok (dp_db st) \<and> outcomes_ok st \<and> sent_ok sinks st"

lemma base_ok_cong:
  "base_ok sinks st \<Longrightarrow> dp_db st' = dp_db st \<Longrightarrow> dp_accepted st' = dp_accepted st \<Longrightarrow> dp_sent st' = dp_sent st \<Longrightarrow>
     base_ok sinks st'"
  by (simp add: base_ok_def outcomes_ok_def sent_ok_def)

lemma siem_ok_base: "siem_ok sinks st \<longleftrightarrow> base_ok sinks st \<and> flight_ok st"
  by (auto simp: siem_ok_def base_ok_def)

lemma hand_over_base:
  assumes b: "base_ok sinks st" and "sink \<in> set sinks"
    and "\<forall>e \<in> set es. \<exists>r \<in> set (sd_outbox (dp_db st)). ob_payload r = e"
  shows "base_ok sinks (hand_over sink es ph st)"
proof -
  have "sendable_to sinks (sd_outbox (dp_db st)) (sk_name sink, map (\<lambda>e. redact_for_sink e (sk_policy sink)) es)"
    using assms(2,3) by (force simp: sendable_to_def)
  then have "sent_ok sinks (hand_over sink es ph st)"
    using b by (simp add: base_ok_def sent_ok_def hand_over_def)
  then show ?thesis using b by (simp add: base_ok_def outcomes_ok_def)
qed

lemma rows_ready_outbox: "rows_ready db n rows \<Longrightarrow> e \<in> snd ` set rows \<Longrightarrow> \<exists>r \<in> set (sd_outbox db). ob_payload r = e"
  by (force simp: rows_ready_def)

lemma hand_over_flight:
  "flight_ok st \<Longrightarrow> phase_rows ph \<noteq> [] \<Longrightarrow> rows_ready (dp_db st) (sk_name sink) (phase_rows ph) \<Longrightarrow>
     flight_ok (hand_over sink es ph st)"
  by (auto simp: flight_ok_def hand_over_def)

lemma dispatch_one_ok:
  assumes "siem_ok sinks st" and "sink \<in> set sinks"
  shows "siem_ok sinks (dispatch_one sink batch now st)"
proof -
  let ?rows = "read_undelivered (sk_name sink) batch (dp_db st)"
  have ready: "rows_ready (dp_db st) (sk_name sink) ?rows"
    using assms(1) by (intro read_ready) (simp add: siem_ok_def)
  have "siem_ok sinks (hand_over sink (map snd ?rows) (Batch_Sent ?rows) st)" if "?rows \<noteq> []"
    using assms ready that rows_ready_outbox[OF ready]
    by (auto simp: siem_ok_base intro!: hand_over_base hand_over_flight)
  then show ?thesis using assms(1) by (simp add: dispatch_one_def Let_def)
qed

lemma tick_ok:
  assumes "siem_ok sinks st"
  shows "siem_ok sinks (tick sinks cfg now st)"
proof -
  have one: "siem_ok sinks (tick_sink cfg now sink st)" if "siem_ok sinks st" "sink \<in> set sinks" for sink st
  proof -
    have "siem_ok sinks (st\<lparr>dp_last_run := lr\<rparr>)" for lr
      using that(1) by (simp add: siem_ok_def outcomes_ok_def sent_ok_def flight_ok_def)
    then show ?thesis using dispatch_one_ok that by (simp add: tick_sink_def Let_def)
  qed
  have "siem_ok sinks (fold (tick_sink cfg now) ss st)" if "set ss \<subseteq> set sinks" "siem_ok sinks st" for ss st
    using that by (induction ss arbitrary: st) (auto intro: one)
  then show ?thesis using assms by (simp add: tick_def)
qed

section \<open>Replies\<close>

lemma settle_delivered_base:
  "base_ok sinks st \<Longrightarrow> \<forall>i \<in> set ids. is_pending (dp_db st) n i \<Longrightarrow> base_ok sinks (settle_delivered ids n st)"
  using settle_delivered_ok[of st ids n] settles_tables[of "dp_db st"]
  by (simp add: base_ok_def sent_ok_def) (simp add: settle_delivered_def settles_eq)

lemma settle_failed_base:
  "base_ok sinks st \<Longrightarrow> \<forall>i \<in> set ids. is_pending (dp_db st) n i \<Longrightarrow> base_ok sinks (settle_failed ids n msg st)"
  using settle_failed_ok[of st ids n msg] settles_tables[of "dp_db st"]
  by (simp add: base_ok_def sent_ok_def) (simp add: settle_failed_def settles_eq)

text \<open>Rows in flight of other sinks stay ready, and rows of this sink that are not settled.\<close>

definition others_ok :: "dispatcher \<Rightarrow> string \<Rightarrow> bool" where
  "others_ok st n \<longleftrightarrow>
     (\<forall>n' p. n' \<noteq> n \<longrightarrow> map_of (dp_in_flight st) n' = Some p \<longrightarrow>
        phase_rows p \<noteq> [] \<and> rows_ready (dp_db st) n' (phase_rows p))"

lemma settled_others:
  assumes "flight_ok st" and "dp_db st' = settles f ids n (dp_db st)" and "dp_in_flight st' = dp_in_flight st"
  shows "others_ok st' n"
  using assms by (auto simp: others_ok_def flight_ok_def intro: settles_ready)

lemma finish_flight: "others_ok st n \<Longrightarrow> flight_ok (finish n st)"
  by (auto simp: others_ok_def flight_ok_def finish_def)

lemma others_cong:
  "others_ok st n \<Longrightarrow> dp_db st' = dp_db st \<Longrightarrow> dp_in_flight st' = dp_in_flight st \<Longrightarrow> others_ok st' n"
  by (simp add: others_ok_def)

lemma others_hand_over:
  "others_ok st (sk_name sink) \<Longrightarrow> phase_rows ph \<noteq> [] \<Longrightarrow> rows_ready (dp_db st) (sk_name sink) (phase_rows ph) \<Longrightarrow>
     flight_ok (hand_over sink es ph st)"
  unfolding others_ok_def flight_ok_def by (simp add: hand_over_def) metis

lemma settle_row_ok:
  assumes ok: "siem_ok sinks st" and s: "sink \<in> set sinks"
    and flight: "map_of (dp_in_flight st) (sk_name sink) = Some (Row_Sent (row # rest) failed again)"
  shows "siem_ok sinks (settle_row sink row rest failed again r now st)"
proof -
  let ?n = "sk_name sink"
  define st1 where "st1 = (case r of Accepted \<Rightarrow> settle_delivered [fst row] ?n st | Refused msg _ \<Rightarrow> settle_failed [fst row] ?n msg st)"
  have b: "base_ok sinks st" and fl: "flight_ok st" using ok by (simp_all add: siem_ok_base)
  have ready: "rows_ready (dp_db st) ?n (row # rest)" using fl flight unfolding flight_ok_def by (metis phase_rows.simps(2))
  have p: "\<forall>i \<in> set [fst row]. is_pending (dp_db st) ?n i" using ready by (auto simp: rows_ready_def)
  have b1: "base_ok sinks st1"
    using settle_delivered_base[OF b p] settle_failed_base[OF b p] by (simp add: st1_def split: send_reply.splits)
  obtain f where f: "dp_db st1 = settles f [fst row] ?n (dp_db st)" "dp_in_flight st1 = dp_in_flight st"
    by (cases r) (auto simp: st1_def settle_delivered_def settle_failed_def settles_eq)
  have o1: "others_ok st1 ?n" by (rule settled_others[OF fl f])
  have rest: "rows_ready (dp_db st1) ?n rest"
    unfolding f(1) using ready by (intro settles_ready) (auto simp: rows_ready_def)
  show ?thesis
  proof (cases rest)
    case Nil
    have "base_ok sinks (finish ?n (grow_backoff ?n x now st1))" "base_ok sinks (finish ?n (clear_backoff ?n st1))" for x
      by (rule base_ok_cong[OF b1]; simp)+
    moreover have "flight_ok (finish ?n (grow_backoff ?n x now st1))" "flight_ok (finish ?n (clear_backoff ?n st1))" for x
      by (rule finish_flight, rule others_cong[OF o1]; simp)+
    ultimately show ?thesis
      unfolding settle_row_def Let_def st1_def[symmetric] Nil by (simp add: siem_ok_base)
  next
    case (Cons row' rest')
    have "\<exists>r' \<in> set (sd_outbox (dp_db st1)). ob_payload r' = snd row'"
      using rows_ready_outbox[OF rest] Cons by simp
    then have "siem_ok sinks (hand_over sink [snd row'] (Row_Sent rest x y) st1)" for x y
      using b1 s o1 rest Cons by (auto simp: siem_ok_base intro!: hand_over_base others_hand_over)
    then show ?thesis unfolding settle_row_def Let_def st1_def[symmetric] Cons by simp
  qed
qed

lemma on_reply_ok:
  assumes ok: "siem_ok sinks st" and s: "sink \<in> set sinks"
  shows "siem_ok sinks (on_reply sink r now st)"
proof (cases "map_of (dp_in_flight st) (sk_name sink)")
  case None
  then show ?thesis using ok by (simp add: on_reply_def Let_def)
next
  case (Some ph)
  let ?n = "sk_name sink"
  have b: "base_ok sinks st" and fl: "flight_ok st" using ok by (simp_all add: siem_ok_base)
  have ne: "phase_rows ph \<noteq> []" and ready: "rows_ready (dp_db st) ?n (phase_rows ph)"
    using fl Some unfolding flight_ok_def by metis+
  show ?thesis
  proof (cases ph)
    case (Row_Sent rows failed again)
    then obtain row rest where "rows = row # rest" using ne by (cases rows) auto
    then show ?thesis
      using settle_row_ok[OF ok s, of row rest failed again r now] Some Row_Sent by (simp add: on_reply_def Let_def)
  next
    case (Batch_Sent rows)
    let ?ids = "map fst rows"
    have p: "\<forall>i \<in> set ?ids. is_pending (dp_db st) ?n i" using ready Batch_Sent by (auto simp: rows_ready_def)
    have d: "siem_ok sinks (finish ?n (clear_backoff ?n (settle_delivered ?ids ?n st)))"
    proof -
      have "others_ok (settle_delivered ?ids ?n st) ?n"
        by (rule settled_others[OF fl, where f = "\<lambda>d. d\<lparr>dl_status := Delivered\<rparr>" and ids = ?ids])
          (simp_all add: settle_delivered_def settles_eq)
      then have "flight_ok (finish ?n (clear_backoff ?n (settle_delivered ?ids ?n st)))"
        by (intro finish_flight) (erule others_cong; simp)
      moreover have "base_ok sinks (finish ?n (clear_backoff ?n (settle_delivered ?ids ?n st)))"
        by (rule base_ok_cong[OF settle_delivered_base[OF b p]]) simp_all
      ultimately show ?thesis by (simp add: siem_ok_base)
    qed
    have f: "siem_ok sinks (settle_whole_batch ?ids ?n msg x now st)" for msg x
    proof -
      have "others_ok (settle_failed ?ids ?n msg st) ?n"
        by (rule settled_others[OF fl, where f = "failed_delivery DEFAULT_MAX_ATTEMPTS msg" and ids = ?ids])
          (simp_all add: settle_failed_def settles_eq)
      then have "flight_ok (finish ?n (grow_backoff ?n x now (settle_failed ?ids ?n msg st)))"
        by (intro finish_flight) (erule others_cong; simp)
      moreover have "base_ok sinks (finish ?n (grow_backoff ?n x now (settle_failed ?ids ?n msg st)))"
        by (rule base_ok_cong[OF settle_failed_base[OF b p]]) simp_all
      ultimately show ?thesis by (simp add: siem_ok_base settle_whole_batch_def)
    qed
    have "siem_ok sinks (hand_over sink [snd (hd rows)] (Row_Sent rows False False) st)"
    proof -
      have "snd (hd rows) \<in> snd ` set rows" using ne Batch_Sent by (cases rows) auto
      then have "\<exists>r \<in> set (sd_outbox (dp_db st)). ob_payload r = snd (hd rows)"
        using rows_ready_outbox[of "dp_db st" ?n rows] ready Batch_Sent by simp
      then show ?thesis
        using b fl s ne ready Batch_Sent by (auto simp: siem_ok_base intro!: hand_over_base hand_over_flight)
    qed
    then show ?thesis using d f Some Batch_Sent by (simp add: on_reply_def Let_def split: send_reply.splits)
  qed
qed

section \<open>New events and the repair\<close>

text \<open>Both append outbox rows with new keys and pending deliveries with new keys.\<close>

lemma append_ok:
  assumes ok: "siem_ok sinks st"
    and rows: "distinct (map ob_id rows)" "ob_id ` set rows \<inter> ob_id ` set (sd_outbox (dp_db st)) = {}"
    and new_ds: "distinct (map delivery_key ds)"
      "delivery_key ` set ds \<inter> delivery_key ` set (sd_deliveries (dp_db st)) = {}"
      "\<forall>d \<in> set ds. dl_status d = Pending \<and> dl_attempts d = 0 \<and> dl_event d \<in> ob_id ` set (sd_outbox (dp_db st) @ rows)"
  shows "siem_ok sinks (st\<lparr>dp_db := \<lparr> sd_outbox = sd_outbox (dp_db st) @ rows, sd_deliveries = sd_deliveries (dp_db st) @ ds \<rparr>\<rparr>)"
    (is "siem_ok sinks ?st")
proof -
  note parts = ok[unfolded siem_ok_def]
  have "tables_ok (dp_db ?st)"
    using parts rows new_ds unfolding tables_ok_def by (simp add: Int_commute image_subset_iff) blast
  moreover have "honest (set (dp_accepted st)) d" if "d \<in> set ds" for d
  proof -
    have "delivery_key d \<notin> set (dp_accepted st)" using that new_ds(2) parts unfolding outcomes_ok_def by blast
    then show ?thesis using that new_ds(3) by (simp add: honest_def DEFAULT_MAX_ATTEMPTS_def)
  qed
  then have "outcomes_ok ?st" using parts by (auto simp: outcomes_ok_def)
  moreover have "sendable_to sinks (sd_outbox (dp_db st) @ rows) x" if "sendable_to sinks (sd_outbox (dp_db st)) x" for x
    using that unfolding sendable_to_def by (simp, blast)
  then have "sent_ok sinks ?st" using parts by (simp add: sent_ok_def)
  moreover have "rows_ready (dp_db ?st) n rs" if "rows_ready (dp_db st) n rs" for n rs
  proof -
    have "is_pending (dp_db ?st) n i" if "is_pending (dp_db st) n i" for i
      using that by (auto simp: is_pending_def)
    then show ?thesis using that by (auto simp: rows_ready_def)
  qed
  then have "flight_ok ?st" using parts by (simp add: flight_ok_def)
  ultimately show ?thesis by (simp add: siem_ok_def)
qed

lemma key_new_delivery [simp]: "delivery_key (new_delivery now i s) = (s, i)"
  by (simp add: delivery_key_def new_delivery_def)

lemma missing_keys:
  assumes "distinct sinks" and "distinct ids"
  shows "distinct (map delivery_key (missing_deliveries now sinks ids db))"
proof -
  have "map delivery_key (missing_deliveries now sinks ids db) =
      concat (map (\<lambda>i. map (\<lambda>s. (s, i)) (filter (\<lambda>s. \<not> has_delivery db i s) sinks)) ids)"
    by (simp add: missing_deliveries_def map_concat o_def)
  moreover have "distinct (concat (map (\<lambda>i. map (\<lambda>s. (s, i)) (filter (P i) sinks)) ids))" for P
    using assms by (induction ids) (auto simp: distinct_map inj_on_def)
  ultimately show ?thesis by simp
qed

lemma missing_properties:
  "\<forall>d \<in> set (missing_deliveries now sinks ids db). dl_status d = Pending \<and> dl_attempts d = 0 \<and>
     dl_event d \<in> set ids \<and> delivery_key d \<notin> delivery_key ` set (sd_deliveries db)"
proof -
  have "delivery_key d \<noteq> (s, i)" if "\<not> has_delivery db i s" "d \<in> set (sd_deliveries db)" for d i s
    using that by (auto simp: has_delivery_def list_ex_iff delivery_key_def)
  then have "(s, i) \<notin> delivery_key ` set (sd_deliveries db)" if "\<not> has_delivery db i s" for i s
    using that by (metis imageE)
  then show ?thesis unfolding missing_deliveries_def by (auto simp: new_delivery_def delivery_key_def)
qed

lemma db_fields:
  "db\<lparr>sd_outbox := a, sd_deliveries := b\<rparr> = \<lparr> sd_outbox = a, sd_deliveries = b \<rparr>"
  "db\<lparr>sd_deliveries := b\<rparr> = \<lparr> sd_outbox = sd_outbox db, sd_deliveries = b \<rparr>"
  by (cases db; simp)+

lemma ingest_ok:
  assumes ok: "siem_ok sinks st" and "distinct (map sk_name sinks)" and "uuid \<notin> ob_id ` set (sd_outbox (dp_db st))"
  shows "siem_ok sinks (st\<lparr>dp_db := write_to_outbox uuid now occurred e (map sk_name sinks) (dp_db st)\<rparr>)"
proof -
  let ?ds = "map (new_delivery now uuid) (map sk_name sinks)"
  let ?row = "\<lparr> ob_id = uuid, ob_payload = e, ob_occurred = occurred, ob_created = now \<rparr>"
  have "dl_event ` set (sd_deliveries (dp_db st)) \<subseteq> ob_id ` set (sd_outbox (dp_db st))"
    using ok by (simp add: siem_ok_def tables_ok_def)
  then have "dl_event d \<noteq> uuid" if "d \<in> set (sd_deliveries (dp_db st))" for d
    using assms(3) that by blast
  then have "delivery_key d \<noteq> (s, uuid)" if "d \<in> set (sd_deliveries (dp_db st))" for d s
    using that by (simp add: delivery_key_def)
  then have "delivery_key ` set ?ds \<inter> delivery_key ` set (sd_deliveries (dp_db st)) = {}" by force
  moreover have "map delivery_key ?ds = map (\<lambda>s. (s, uuid)) (map sk_name sinks)" by simp
  then have "distinct (map delivery_key ?ds)"
    using assms(2) by (simp only: distinct_map) (auto simp: inj_on_def)
  moreover have "\<forall>d \<in> set ?ds. dl_status d = Pending \<and> dl_attempts d = 0 \<and>
      dl_event d \<in> ob_id ` set (sd_outbox (dp_db st) @ [?row])"
    by (auto simp: new_delivery_def)
  ultimately show ?thesis
    using append_ok[OF ok, of "[?row]" ?ds] assms(3) by (simp add: write_to_outbox_def db_fields)
qed

lemma reconcile_ok:
  assumes ok: "siem_ok sinks st" and "distinct (map sk_name sinks)"
  shows "siem_ok sinks (st\<lparr>dp_db := snd (reconcile_outbox fails now (map sk_name sinks) lookback (dp_db st))\<rparr>)"
proof (cases "sinks = []")
  case True
  then show ?thesis using ok by (simp add: reconcile_outbox_def)
next
  case False
  let ?db = "dp_db st"
  have d: "distinct (map ob_id (sd_outbox ?db))" using ok by (simp add: siem_ok_def tables_ok_def)
  then have dr: "distinct (recent_ids c ?db)" for c
    by (simp add: recent_ids_def distinct_map_filter distinct_map inj_on_def)
  define ids where "ids = spared fails 0 (recent_ids (now - (case lookback of None \<Rightarrow> DEFAULT_RECONCILE_LOOKBACK_MS | Some ms \<Rightarrow> ms)) ?db)"
  let ?ds = "missing_deliveries now (map sk_name sinks) ids ?db"
  have r: "snd (reconcile_outbox fails now (map sk_name sinks) lookback ?db) = ?db\<lparr>sd_deliveries := sd_deliveries ?db @ ?ds\<rparr>"
    using False dr by (simp add: reconcile_outbox_def reconcile_from_exact ids_def Let_def)
  have dids: "distinct ids"
  proof -
    have "distinct (spared fails 0 xs)" if "distinct xs" for xs
      unfolding spared_def by (rule distinct_map_filter) (simp add: enumerate_eq_zip that)
    then show ?thesis using dr by (simp add: ids_def)
  qed
  have "set (recent_ids c ?db) \<subseteq> ob_id ` set (sd_outbox ?db)" for c by (auto simp: recent_ids_def)
  then have known: "set ids \<subseteq> ob_id ` set (sd_outbox ?db)"
    unfolding ids_def using set_spared by (meson subset_trans)
  note mp = missing_properties[of now "map sk_name sinks" ids ?db]
  have c1: "distinct (map delivery_key ?ds)" by (rule missing_keys[OF assms(2) dids])
  have c2: "delivery_key ` set ?ds \<inter> delivery_key ` set (sd_deliveries ?db) = {}" using mp by blast
  have c3: "\<forall>d \<in> set ?ds. dl_status d = Pending \<and> dl_attempts d = 0 \<and> dl_event d \<in> ob_id ` set (sd_outbox ?db @ [])"
    using mp known by auto
  show ?thesis using append_ok[OF ok _ _ c1 c2 c3] by (simp add: r db_fields)
qed

lemma broken_ok:
  assumes "siem_ok sinks st"
  shows "siem_ok sinks (finish n st)"
proof -
  have "others_ok st n" using assms by (auto simp: siem_ok_def others_ok_def flight_ok_def)
  moreover have "base_ok sinks (finish n st)" by (rule base_ok_cong) (use assms in \<open>simp_all add: siem_ok_base\<close>)
  ultimately show ?thesis by (simp add: siem_ok_base finish_flight)
qed

lemma reachable_siem_ok:
  "siem_reachable sinks cfg st \<Longrightarrow> distinct (map sk_name sinks) \<Longrightarrow> siem_ok sinks st"
proof (induction rule: siem_reachable.induct)
  case start
  then show ?case
    by (simp add: siem_ok_def tables_ok_def outcomes_ok_def sent_ok_def flight_ok_def start_state_def)
next
  case (step st act)
  then show ?case
    by (cases act) (auto intro: ingest_ok reconcile_ok tick_ok on_reply_ok broken_ok)
qed

end
