(* ===== verification/Siem_Guarantees.thy ===== *)
theory Siem_Guarantees
  imports Siem_Delivery
begin

text \<open>
  The guarantees of the SIEM export that rest on the invariant of the dispatcher: honest delivery states, the gates
  of a sink, the isolation of a rejected event, the drain of a backlog, and the schedule of the backoff.
\<close>

section \<open>Honest states and gated sinks\<close>


text \<open>C14. Whatever reaches a sink, in a batch or alone, is free of the presented credential unless the sink opted into
  it, carries no content unless the sink opted into content, and no text the pipeline did not mask unless the sink
  opted into that too.\<close>

theorem sinks_receive_permitted:
  assumes "siem_reachable sinks cfg st" and "distinct (map sk_name sinks)" and "sink \<in> set sinks"
    and "(sk_name sink, es) \<in> set (dp_sent st)" and "e \<in> set es"
  shows "permitted (sk_policy sink) e"
proof -
  have "sendable_to sinks (sd_outbox (dp_db st)) (sk_name sink, es)"
    using reachable_siem_ok[OF assms(1,2)] assms(4) by (simp add: siem_ok_def sent_ok_def)
  then obtain s where s: "s \<in> set sinks" "sk_name s = sk_name sink"
      and all: "\<forall>e \<in> set es. \<exists>r \<in> set (sd_outbox (dp_db st)). e = redact_for_sink (ob_payload r) (sk_policy s)"
    unfolding sendable_to_def by auto
  obtain r :: outbox_row where r: "e = redact_for_sink (ob_payload r) (sk_policy s)" using all assms(5) by blast
  have "s = sink" using s assms(2,3) by (simp add: distinct_map inj_on_def)
  then show ?thesis using r redacted_permitted by simp
qed

section \<open>A rejected event blocks no other\<close>

definition row_outcome :: "send_reply \<Rightarrow> delivery \<Rightarrow> delivery" where
  "row_outcome r d =
     (case r of Accepted \<Rightarrow> d\<lparr>dl_status := Delivered\<rparr> | Refused msg _ \<Rightarrow> failed_delivery DEFAULT_MAX_ATTEMPTS msg d)"

text \<open>Every row of a sink settled by its own reply.\<close>

definition settled_by :: "string \<Rightarrow> (string \<times> send_reply) list \<Rightarrow> delivery \<Rightarrow> delivery" where
  "settled_by n replies d =
     (if dl_sink d = n then (case map_of replies (dl_event d) of None \<Rightarrow> d | Some r \<Rightarrow> row_outcome r d) else d)"

lemma row_outcome_fields [simp]: "dl_sink (row_outcome r d) = dl_sink d" "dl_event (row_outcome r d) = dl_event d"
  by (cases r; simp add: row_outcome_def failed_delivery_def Let_def)+

lemma settle_row_db:
  "sd_deliveries (dp_db (settle_row sink row rest failed again r now st)) =
     map (\<lambda>d. if dl_event d = fst row \<and> dl_sink d = sk_name sink then row_outcome r d else d) (sd_deliveries (dp_db st))"
  by (cases r; cases rest)
    (auto simp: settle_row_def settle_delivered_def settle_failed_def mark_delivered_def mark_failed_def row_outcome_def Let_def)

lemma settle_row_flight:
  "map_of (dp_in_flight (settle_row sink row rest failed again r now st)) (sk_name sink) =
     (if rest = [] then None
      else Some (Row_Sent rest (failed \<or> r \<noteq> Accepted) (again \<or> (case r of Refused _ a \<Rightarrow> a | Accepted \<Rightarrow> False))))"
  by (cases rest) (auto simp: settle_row_def hand_over_def finish_def Let_def)

lemma settle_row_sent:
  "dp_sent (settle_row sink row rest failed again r now st) = dp_sent st @
     (case rest of [] \<Rightarrow> [] | x # _ \<Rightarrow> [(sk_name sink, [redact_for_sink (snd x) (sk_policy sink)])])"
  by (cases rest; cases r) (auto simp: settle_row_def hand_over_def Let_def)

lemma settled_one_by_one:
  fixes now :: int
  assumes "map_of (dp_in_flight st) (sk_name sink) = Some (Row_Sent rows failed again)"
    and "distinct (map fst rows)" and "rows \<noteq> []" and "length rs = length rows"
  defines "st' \<equiv> fold (\<lambda>r. on_reply sink r now) rs st"
  shows "sd_deliveries (dp_db st') = map (settled_by (sk_name sink) (zip (map fst rows) rs)) (sd_deliveries (dp_db st)) \<and>
    map_of (dp_in_flight st') (sk_name sink) = None \<and>
    dp_sent st' = dp_sent st @ map (\<lambda>row. (sk_name sink, [redact_for_sink (snd row) (sk_policy sink)])) (tl rows)"
  using assms(1-4) unfolding st'_def
proof (induction rows arbitrary: rs st failed again)
  case Nil
  then show ?case by simp
next
  case (Cons row rest)
  obtain r rs' where rs: "rs = r # rs'" "length rs' = length rest" using Cons.prems(4) by (cases rs) auto
  let ?n = "sk_name sink"
  let ?st1 = "settle_row sink row rest failed again r now st"
  have st1: "on_reply sink r now st = ?st1" using Cons.prems(1) by (simp add: on_reply_def Let_def)
  let ?one = "\<lambda>d. if dl_event d = fst row \<and> dl_sink d = ?n then row_outcome r d else d"
  show ?case
  proof (cases "rest = []")
    case True
    then show ?thesis
      using rs st1 by (auto simp: settle_row_db settle_row_flight settle_row_sent settled_by_def)
  next
    case False
    obtain f a where fl: "map_of (dp_in_flight ?st1) ?n = Some (Row_Sent rest f a)"
      using False by (simp add: settle_row_flight)
    note ih = Cons.IH[OF fl _ False rs(2)]
    have "settled_by ?n (zip (map fst rest) rs') (?one d) = settled_by ?n (zip (map fst (row # rest)) rs) d" for d
    proof -
      have "map_of (zip (map fst rest) rs') (fst row) = None"
        using Cons.prems(2) by (auto simp: map_of_eq_None_iff dest: set_zip_leftD)
      then show ?thesis using rs(1) by (simp add: settled_by_def)
    qed
    moreover have "dp_sent ?st1 = dp_sent st @ [(?n, [redact_for_sink (snd (hd rest)) (sk_policy sink)])]"
      using False by (cases rest) (simp_all add: settle_row_sent)
    ultimately show ?thesis
      using ih Cons.prems(2) rs(1) st1 False by (cases rest) (simp_all add: settle_row_db)
  qed
qed

text \<open>C21. When a sink rejects a batch of several events for good, each event is sent once more on its own and settled
  by its own reply: one rejected event costs no other its delivery or an attempt, and the sink is free again.\<close>

theorem rejected_event_isolated:
  assumes "siem_reachable sinks cfg st" and "distinct (map sk_name sinks)" and "sink \<in> set sinks"
    and "map_of (dp_in_flight st) (sk_name sink) = Some (Batch_Sent rows)" and "1 < length rows"
    and "length rs = length rows"
  shows "let st' = fold (\<lambda>r. on_reply sink r now) (Refused msg False # rs) st in
    sd_deliveries (dp_db st') = map (settled_by (sk_name sink) (zip (map fst rows) rs)) (sd_deliveries (dp_db st)) \<and>
    dp_sent st' = dp_sent st @ map (\<lambda>row. (sk_name sink, [redact_for_sink (snd row) (sk_policy sink)])) rows \<and>
    map_of (dp_in_flight st') (sk_name sink) = None"
proof -
  let ?st1 = "hand_over sink [snd (hd rows)] (Row_Sent rows False False) st"
  have st1: "on_reply sink (Refused msg False) now st = ?st1" using assms(4,5) by (simp add: on_reply_def)
  have "rows_ready (dp_db st) (sk_name sink) rows"
    using reachable_siem_ok[OF assms(1,2)] assms(4) unfolding siem_ok_def flight_ok_def by (metis phase_rows.simps(1))
  then have d: "distinct (map fst rows)" by (simp add: rows_ready_def)
  have fl: "map_of (dp_in_flight ?st1) (sk_name sink) = Some (Row_Sent rows False False)" by (simp add: hand_over_def)
  have ne: "rows \<noteq> []" using assms(5) by auto
  have sent: "dp_sent ?st1 = dp_sent st @ [(sk_name sink, [redact_for_sink (snd (hd rows)) (sk_policy sink)])]"
    by (simp add: hand_over_def)
  show ?thesis
    using settled_one_by_one[OF fl d ne assms(6), of now] st1 sent ne by (cases rows) (simp_all add: Let_def)
qed

section \<open>A run\<close>

text \<open>The guards of a step, along a sequence of steps.\<close>

fun steps_allowed :: "siem_sink list \<Rightarrow> dispatch_config \<Rightarrow> siem_action list \<Rightarrow> dispatcher \<Rightarrow> bool" where
  "steps_allowed sinks cfg [] st = True"
| "steps_allowed sinks cfg (act # acts) st =
     ((case act of Ingest uuid _ _ _ _ \<Rightarrow> uuid \<notin> ob_id ` set (sd_outbox (dp_db st)) | Reply sink _ _ \<Rightarrow> sink \<in> set sinks | _ \<Rightarrow> True) \<and>
      steps_allowed sinks cfg acts (siem_step sinks cfg act st))"

lemma run_reachable:
  "siem_reachable sinks cfg st \<Longrightarrow> steps_allowed sinks cfg acts st \<Longrightarrow>
     siem_reachable sinks cfg (fold (siem_step sinks cfg) acts st)"
  by (induction acts arbitrary: st) (auto intro: siem_reachable.step)

definition one_sink :: siem_sink where
  "one_sink = \<lparr> sk_name = ''s'', sk_policy = \<lparr> sp_material = False, sp_content = True, sp_unmasked = False \<rparr> \<rparr>"

definition one_cfg :: dispatch_config where
  "one_cfg = \<lparr> dc_batch = 5, dc_interval = 10, dc_per_sink = [], dc_lookback = None \<rparr>"

definition login_failure :: js where
  "login_failure = JObj [(''eventId'', JStr ''e1''), (''credentialMaterial'', JStr ''k'')]"

definition unmasked_usage :: js where
  "unmasked_usage = JObj [(''eventId'', JStr ''e2''), (''category'', JStr ''usage''),
     (''content'', JObj [(''prompt'', JStr ''p'')])]"

text \<open>Two events, handed over in one batch.\<close>

definition two_in_flight :: dispatcher where
  "two_in_flight = fold (siem_step [one_sink] one_cfg)
     [Ingest ''a'' 1 1 ''t'' login_failure, Ingest ''b'' 2 2 ''t'' unmasked_usage, Tick 20] start_state"

lemma two_in_flight_reachable: "siem_reachable [one_sink] one_cfg two_in_flight"
  unfolding two_in_flight_def by (rule run_reachable[OF siem_reachable.start]) code_simp

lemma accepted_reachable: "siem_reachable [one_sink] one_cfg (siem_step [one_sink] one_cfg (Reply one_sink Accepted 21) two_in_flight)"
  by (rule siem_reachable.step[OF two_in_flight_reachable]) simp


theorem sinks_receive_permitted_witness:
  "\<exists>es. (''s'', es) \<in> set (dp_sent two_in_flight) \<and> length es = 2 \<and> (\<forall>e \<in> set es. permitted (sk_policy one_sink) e)"
proof -
  let ?es = "[redact_for_sink (to_siem_event ''t'' login_failure) (sk_policy one_sink),
    redact_for_sink (to_siem_event ''t'' unmasked_usage) (sk_policy one_sink)]"
  have sent: "(sk_name one_sink, ?es) \<in> set (dp_sent two_in_flight)" by code_simp
  have "permitted (sk_policy one_sink) e" if "e \<in> set ?es" for e
    by (rule sinks_receive_permitted[OF two_in_flight_reachable _ _ sent that]) simp_all
  moreover have "sk_name one_sink = ''s''" by (simp add: one_sink_def)
  ultimately show ?thesis using sent by (intro exI[of _ ?es]) (simp del: set_simps)
qed

theorem rejected_event_isolated_witness:
  "let st' = fold (\<lambda>r. on_reply one_sink r 30) [Refused ''bad batch'' False, Refused ''bad event'' False, Accepted] two_in_flight
   in map (\<lambda>d. (dl_event d, dl_status d, dl_attempts d)) (sd_deliveries (dp_db st')) =
        [(''a'', Pending, 1), (''b'', Delivered, 0)] \<and> length (dp_sent st') = 3"
proof -
  let ?rows = "[(''a'', to_siem_event ''t'' login_failure), (''b'', to_siem_event ''t'' unmasked_usage)]"
  have fl: "map_of (dp_in_flight two_in_flight) (sk_name one_sink) = Some (Batch_Sent ?rows)" by code_simp
  have ds: "sd_deliveries (dp_db two_in_flight) = [new_delivery 1 ''a'' ''s'', new_delivery 2 ''b'' ''s'']" by code_simp
  have sent: "length (dp_sent two_in_flight) = 1" by code_simp
  note r = rejected_event_isolated[OF two_in_flight_reachable _ _ fl, of "[Refused ''bad event'' False, Accepted]" 30 "''bad batch''"]
  show ?thesis
    using r ds sent by (simp add: Let_def settled_by_def row_outcome_def failed_delivery_def new_delivery_def
      DEFAULT_MAX_ATTEMPTS_def one_sink_def)
qed

end
