(* ===== verification/Siem_Backlog.thy ===== *)
theory Siem_Backlog
  imports Siem_Guarantees
begin

text \<open>
  The progress of the SIEM export: a sink that is idle and accepts drains its backlog, a batch a round; and the
  schedule of the backoff of a sink that keeps refusing.
\<close>

section \<open>What a dispatch of one sink sees\<close>

type_synonym sink_view = "dispatch_phase option \<times> backoff_state option \<times> int option \<times> siem_db"

definition view_of :: "dispatcher \<Rightarrow> string \<Rightarrow> sink_view" where
  "view_of st n = (map_of (dp_in_flight st) n, map_of (dp_backoff st) n, map_of (dp_last_run st) n, dp_db st)"

definition sink_interval :: "dispatch_config \<Rightarrow> string \<Rightarrow> int" where
  "sink_interval cfg n = (case map_of (dc_per_sink cfg) n of Some (_, Some ms) \<Rightarrow> ms | _ \<Rightarrow> dc_interval cfg)"

definition sink_batch :: "dispatch_config \<Rightarrow> string \<Rightarrow> nat" where
  "sink_batch cfg n = (case map_of (dc_per_sink cfg) n of Some (Some k, _) \<Rightarrow> k | _ \<Rightarrow> dc_batch cfg)"

definition last_run :: "dispatcher \<Rightarrow> string \<Rightarrow> int" where
  "last_run st n = (case map_of (dp_last_run st) n of None \<Rightarrow> 0 | Some t \<Rightarrow> t)"

definition idle :: "dispatcher \<Rightarrow> string \<Rightarrow> bool" where
  "idle st n \<longleftrightarrow> map_of (dp_in_flight st) n = None \<and> map_of (dp_backoff st) n = None"

lemma tick_sink_other: "sk_name s \<noteq> n \<Longrightarrow> view_of (tick_sink cfg now s st) n = view_of st n"
  by (simp add: view_of_def tick_sink_def dispatch_one_def hand_over_def Let_def)

lemma tick_others: "n \<notin> sk_name ` set ss \<Longrightarrow> view_of (fold (tick_sink cfg now) ss st) n = view_of st n"
  by (induction ss arbitrary: st) (auto simp: tick_sink_other)

lemma tick_sink_own:
  assumes "idle st (sk_name s)" and "sink_interval cfg (sk_name s) \<le> now - last_run st (sk_name s)"
  defines "rows \<equiv> read_undelivered (sk_name s) (sink_batch cfg (sk_name s)) (dp_db st)"
  shows "view_of (tick_sink cfg now s st) (sk_name s) =
    (if rows = [] then None else Some (Batch_Sent rows), None, Some now, dp_db st)"
  using assms
  by (simp add: view_of_def idle_def last_run_def sink_interval_def sink_batch_def tick_sink_def dispatch_one_def hand_over_def Let_def)

lemma idle_view: "idle st n \<longleftrightarrow> fst (view_of st n) = None \<and> fst (snd (view_of st n)) = None"
  by (simp add: idle_def view_of_def)

lemma last_run_view: "last_run st n = (case fst (snd (snd (view_of st n))) of None \<Rightarrow> 0 | Some t \<Rightarrow> t)"
  by (simp add: last_run_def view_of_def)

lemma db_view: "dp_db st = snd (snd (snd (view_of st n)))"
  by (simp add: view_of_def)

lemma tick_view:
  assumes "distinct (map sk_name sinks)" and "sink \<in> set sinks" and "idle st (sk_name sink)"
    and "sink_interval cfg (sk_name sink) \<le> now - last_run st (sk_name sink)"
  defines "rows \<equiv> read_undelivered (sk_name sink) (sink_batch cfg (sk_name sink)) (dp_db st)"
  shows "view_of (tick sinks cfg now st) (sk_name sink) =
    (if rows = [] then None else Some (Batch_Sent rows), None, Some now, dp_db st)"
proof -
  let ?n = "sk_name sink"
  obtain before after where split: "sinks = before @ sink # after" using assms(2) by (meson split_list)
  then have apart: "?n \<notin> sk_name ` set before" "?n \<notin> sk_name ` set after" using assms(1) by auto
  let ?st = "fold (tick_sink cfg now) before st"
  have v: "view_of ?st ?n = view_of st ?n" by (rule tick_others[OF apart(1)])
  then have "idle ?st ?n" "last_run ?st ?n = last_run st ?n" "dp_db ?st = dp_db st"
    using assms(3) db_view[of ?st ?n] db_view[of st ?n] by (simp_all add: idle_view last_run_view)
  then show ?thesis
    using tick_sink_own[of ?st sink cfg now] assms(4) tick_others[OF apart(2)] split by (simp add: tick_def rows_def)
qed

section \<open>A round\<close>

definition drain_round :: "siem_sink list \<Rightarrow> dispatch_config \<Rightarrow> siem_sink \<Rightarrow> int \<Rightarrow> dispatcher \<Rightarrow> dispatcher" where
  "drain_round sinks cfg sink t st = on_reply sink Accepted t (tick sinks cfg t st)"

lemma accepted_view:
  "view_of (on_reply sink Accepted t st) (sk_name sink) =
     (case view_of st (sk_name sink) of
        (Some (Batch_Sent rows), _, l, db) \<Rightarrow> (None, None, l, mark_delivered (map fst rows) (sk_name sink) db)
      | _ \<Rightarrow> view_of (on_reply sink Accepted t st) (sk_name sink))"
  by (auto simp: view_of_def on_reply_def finish_def clear_backoff_def settle_delivered_def Let_def
      split: option.splits dispatch_phase.splits)

lemma round_view:
  assumes "distinct (map sk_name sinks)" and "sink \<in> set sinks" and "idle st (sk_name sink)"
    and "sink_interval cfg (sk_name sink) \<le> t - last_run st (sk_name sink)"
  defines "rows \<equiv> read_undelivered (sk_name sink) (sink_batch cfg (sk_name sink)) (dp_db st)"
  shows "view_of (drain_round sinks cfg sink t st) (sk_name sink) =
    (None, None, Some t, mark_delivered (map fst rows) (sk_name sink) (dp_db st))"
proof (cases "rows = []")
  case True
  note v = tick_view[OF assms(1-4)]
  have "map_of (dp_in_flight (tick sinks cfg t st)) (sk_name sink) = None" "dp_db st = mark_delivered [] (sk_name sink) (dp_db st)"
    using v True by (simp_all add: view_of_def rows_def mark_delivered_def)
  then show ?thesis using v True by (simp add: drain_round_def on_reply_def rows_def)
next
  case False
  then show ?thesis
    using tick_view[OF assms(1-4)] accepted_view[of sink t "tick sinks cfg t st"] by (simp add: drain_round_def rows_def)
qed

lemma pending_left:
  assumes "dl_event ` set (sd_deliveries db) \<subseteq> ob_id ` set (sd_outbox db)"
  shows "length (pending_rows n (mark_delivered (map fst (read_undelivered n k db)) n db)) \<le> length (pending_rows n db) - k"
proof -
  let ?sorted = "sort_key dl_created (pending_rows n db)"
  let ?ids = "map fst (read_undelivered n k db)"
  have "set ?ids = dl_event ` set (take k ?sorted) \<inter> ob_id ` set (sd_outbox db)"
    by (force simp: read_undelivered_def Let_def)
  moreover have "set (take k ?sorted) \<subseteq> set (sd_deliveries db)"
    using set_take_subset[of k ?sorted] by (auto simp: pending_rows_def)
  ultimately have ids: "set ?ids = dl_event ` set (take k ?sorted)" using assms by blast
  have "pending_rows n (mark_delivered ?ids n db) = filter (\<lambda>d. dl_event d \<notin> set ?ids) (pending_rows n db)"
  proof -
    have "filter (\<lambda>d. dl_status d = Pending \<and> dl_sink d = n)
        (map (\<lambda>d. if dl_event d \<in> set ids \<and> dl_sink d = n then d\<lparr>dl_status := Delivered\<rparr> else d) ds) =
      filter (\<lambda>d. dl_event d \<notin> set ids) (filter (\<lambda>d. dl_status d = Pending \<and> dl_sink d = n) ds)" for ids ds
      by (induction ds) auto
    from this[of ?ids "sd_deliveries db"] show ?thesis by (simp add: pending_rows_def mark_delivered_def)
  qed
  also have "length \<dots> = length (filter (\<lambda>d. dl_event d \<notin> set ?ids) ?sorted)"
    by (metis filter_sort length_sort)
  also have "\<dots> = length (filter (\<lambda>d. dl_event d \<notin> set ?ids) (take k ?sorted @ drop k ?sorted))" by simp
  also have "\<dots> \<le> length (drop k ?sorted)"
    unfolding ids filter_append by (simp add: length_filter_le del: length_drop)
  finally show ?thesis by simp
qed

fun spaced :: "int \<Rightarrow> int \<Rightarrow> int list \<Rightarrow> bool" where
  "spaced gap t0 [] = True"
| "spaced gap t0 (t # ts) = (gap \<le> t - t0 \<and> spaced gap t ts)"

lemma round_reachable:
  assumes "siem_reachable sinks cfg st" and "sink \<in> set sinks"
  shows "siem_reachable sinks cfg (drain_round sinks cfg sink t st)"
proof -
  have "siem_reachable sinks cfg (tick sinks cfg t st)"
    using siem_reachable.step[OF assms(1), of "Tick t"] by simp
  then show ?thesis
    using siem_reachable.step[of sinks cfg _ "Reply sink Accepted t"] assms(2) by (simp add: drain_round_def)
qed

text \<open>C15. From every reachable state in which a sink is idle, rounds of a tick and an accepted batch, spaced by the
  sink's interval, leave it nothing to deliver as soon as their batches add up to the backlog: no event is skipped
  and none is stuck behind another.\<close>

theorem backlog_drains:
  assumes "siem_reachable sinks cfg st" and "distinct (map sk_name sinks)" and "sink \<in> set sinks"
    and "idle st (sk_name sink)" and "spaced (sink_interval cfg (sk_name sink)) (last_run st (sk_name sink)) ts"
    and "length (pending_rows (sk_name sink) (dp_db st)) \<le> length ts * sink_batch cfg (sk_name sink)"
  shows "pending_rows (sk_name sink) (dp_db (fold (drain_round sinks cfg sink) ts st)) = []"
  using assms(1,4-6)
proof (induction ts arbitrary: st)
  case (Cons t ts)
  let ?n = "sk_name sink" and ?st = "drain_round sinks cfg sink t st"
  have "sink_interval cfg ?n \<le> t - last_run st ?n" using Cons.prems(3) by simp
  note v = round_view[OF assms(2,3) Cons.prems(2) this]
  have "dl_event ` set (sd_deliveries (dp_db st)) \<subseteq> ob_id ` set (sd_outbox (dp_db st))"
    using reachable_siem_ok[OF Cons.prems(1) assms(2)] by (simp add: siem_ok_def tables_ok_def)
  note left = pending_left[OF this, of ?n "sink_batch cfg ?n"]
  have "length (pending_rows ?n (dp_db ?st)) \<le> length ts * sink_batch cfg ?n"
    using left Cons.prems(4) v db_view[of ?st ?n] by simp
  moreover have "idle ?st ?n" "last_run ?st ?n = t" using v by (simp_all add: idle_view last_run_view)
  ultimately show ?case
    using Cons.IH[OF round_reachable[OF Cons.prems(1) assms(3)]] Cons.prems(3) by simp
qed simp

theorem backlog_drains_witness:
  "pending_rows ''s'' (dp_db (fold (drain_round [one_sink] one_cfg one_sink) [20, 30]
     (fold (siem_step [one_sink] one_cfg) [Ingest ''a'' 1 1 ''t'' login_failure, Ingest ''b'' 2 2 ''t'' unmasked_usage] start_state))) = []"
proof -
  let ?acts = "[Ingest ''a'' 1 1 ''t'' login_failure, Ingest ''b'' 2 2 ''t'' unmasked_usage]"
  let ?st = "fold (siem_step [one_sink] one_cfg) ?acts start_state"
  have r: "siem_reachable [one_sink] one_cfg ?st" by (rule run_reachable[OF siem_reachable.start]) code_simp
  have i: "idle ?st (sk_name one_sink)" by code_simp
  have s: "spaced (sink_interval one_cfg (sk_name one_sink)) (last_run ?st (sk_name one_sink)) [20, 30]" by code_simp
  have l: "length (pending_rows (sk_name one_sink) (dp_db ?st)) \<le> length [20::int, 30] * sink_batch one_cfg (sk_name one_sink)"
    by code_simp
  have "sk_name one_sink = ''s''" by (simp add: one_sink_def)
  then show ?thesis using backlog_drains[OF r _ _ i s l] by simp
qed

section \<open>The schedule of the backoff\<close>

definition refuse_backoff :: "string \<Rightarrow> bool \<Rightarrow> nat \<Rightarrow> int \<Rightarrow> dispatcher \<Rightarrow> dispatcher" where
  "refuse_backoff n again k now st = ((grow_backoff n again now) ^^ k) st"

lemma grow_delay:
  "map_of (dp_backoff (grow_backoff n again now st)) n =
     (let d = min ((case map_of (dp_backoff st) n of None \<Rightarrow> 1000 | Some b \<Rightarrow> bo_delay b) * (if again then 2 else 4)) 300000
      in Some \<lparr> bo_delay = d, bo_next = now + d \<rparr>)"
  by (simp add: grow_backoff_def Let_def BASE_BACKOFF_MS_def MAX_BACKOFF_MS_def RETRYABLE_BACKOFF_MULTIPLIER_def
      NON_RETRYABLE_BACKOFF_MULTIPLIER_def split: option.split)

lemma backoff_doubles:
  assumes "map_of (dp_backoff st) n = None"
  shows "map_option bo_delay (map_of (dp_backoff (refuse_backoff n True (Suc k) now st)) n) = Some (min (1000 * 2 ^ Suc k) 300000)"
proof (induction k)
  case 0
  then show ?case using assms by (simp add: refuse_backoff_def grow_delay Let_def)
next
  case (Suc k)
  let ?st = "refuse_backoff n True (Suc k) now st"
  obtain b where b: "map_of (dp_backoff ?st) n = Some b" "bo_delay b = min (1000 * 2 ^ Suc k) 300000"
    using Suc.IH by auto
  have "refuse_backoff n True (Suc (Suc k)) now st = grow_backoff n True now ?st" by (simp add: refuse_backoff_def)
  then show ?case using b by (simp add: grow_delay Let_def min_def)
qed

text \<open>
  The waits between the ten attempts of a delivery whose sink is down: together thirteen and a half minutes, where
  the comment on the bound counts on more than an hour.
\<close>

lemma ten_attempts_wait: "(\<Sum>k<9. min (1000 * 2 ^ Suc k) (300000::int)) = 810000"
  by (simp add: eval_nat_numeral)

end
