(* ===== verification/Siem_Schema.thy ===== *)
theory Siem_Schema
  imports Siem_Event
begin

text \<open>
  The schema of a normalized event (\<open>interface SiemEvent\<close> of \<open>admin siem/siemEvent.ts\<close>): its members, their types and
  the bounds the normalizer puts on them. Whatever arrives with members of the declared types leaves with the schema.
\<close>

section \<open>The schema\<close>

definition opt_text :: "js \<Rightarrow> bool" where
  "opt_text v \<longleftrightarrow> v = JUndef \<or> is_str v"

definition opt_num :: "js \<Rightarrow> bool" where
  "opt_num v = (case v of JUndef \<Rightarrow> True | JNum _ \<Rightarrow> True | _ \<Rightarrow> False)"

definition is_flag :: "js \<Rightarrow> bool" where
  "is_flag v = (case v of JBool _ \<Rightarrow> True | _ \<Rightarrow> False)"

definition short_text :: "nat \<Rightarrow> js \<Rightarrow> bool" where
  "short_text n v = (case v of JUndef \<Rightarrow> True | JStr s \<Rightarrow> length s \<le> n | _ \<Rightarrow> False)"

definition keys_within :: "string list \<Rightarrow> js \<Rightarrow> bool" where
  "keys_within ks v = (case v of JObj kvs \<Rightarrow> set (map fst kvs) \<subseteq> set ks | _ \<Rightarrow> False)"

text \<open>The texts of the three kinds of input.\<close>

definition SOURCE_TEXTS :: "string list" where
  "SOURCE_TEXTS = [''eventId'', ''eventType'', ''severity'', ''description'', ''timestamp'', ''credentialId'', ''credentialHint'',
     ''credentialMaterial'', ''authType'', ''clientIP'', ''userAgent'', ''endpoint'', ''requestId'', ''model'', ''ID'', ''createdAt'',
     ''actorId'', ''actorType'', ''action'', ''resourceType'', ''resourceId'', ''outcome'', ''details'']"

definition typed_source :: "js \<Rightarrow> bool" where
  "typed_source s \<longleftrightarrow> list_all (\<lambda>k. opt_text (jget s k)) SOURCE_TEXTS \<and> opt_num (jget s ''statusCode'')"

definition ACTOR_KEYS :: "string list" where
  "ACTOR_KEYS = [''credential_id'', ''credential_hint'', ''credential_material'', ''auth_type'', ''client_ip'', ''user_agent'']"

definition typed_actor :: "js \<Rightarrow> bool" where
  "typed_actor a \<longleftrightarrow> keys_within ACTOR_KEYS a \<and> list_all (\<lambda>k. opt_text (jget a k)) ACTOR_KEYS \<and>
     short_text MAX_USER_AGENT_LENGTH (jget a ''user_agent'')"

definition without_query :: "js \<Rightarrow> bool" where
  "without_query v = (case v of JStr s \<Rightarrow> CHR ''?'' \<notin> set s | _ \<Rightarrow> True)"

definition RESOURCE_KEYS :: "string list" where
  "RESOURCE_KEYS = [''resource_type'', ''resource_id'', ''model'', ''endpoint'']"

definition typed_resource :: "js \<Rightarrow> bool" where
  "typed_resource r \<longleftrightarrow> keys_within RESOURCE_KEYS r \<and> list_all (\<lambda>k. opt_text (jget r k)) RESOURCE_KEYS \<and>
     without_query (jget r ''endpoint'')"

definition typed_request :: "js \<Rightarrow> bool" where
  "typed_request r \<longleftrightarrow> keys_within [''request_id'', ''status''] r \<and> opt_text (jget r ''request_id'') \<and> opt_num (jget r ''status'')"

definition typed_content :: "js \<Rightarrow> bool" where
  "typed_content c \<longleftrightarrow> c = JUndef \<or>
     keys_within [''prompt'', ''response'', ''truncated'', ''masked'', ''omitted''] c \<and>
     opt_text (jget c ''prompt'') \<and> opt_text (jget c ''response'') \<and>
     (jget c ''truncated'' = JUndef \<or> is_flag (jget c ''truncated'')) \<and> (jget c ''masked'' = JUndef \<or> is_flag (jget c ''masked'')) \<and>
     jget c ''omitted'' \<in> insert JUndef (JStr ` set OMISSION_REASONS)"

definition counted :: "(string \<times> js) list \<Rightarrow> bool" where
  "counted kvs \<longleftrightarrow> (\<forall>(k, n) \<in> set kvs. length k \<le> MAX_CATEGORY_KEY_LENGTH \<and> is_count n)"

definition typed_pseudonymization :: "js \<Rightarrow> bool" where
  "typed_pseudonymization b \<longleftrightarrow> b = JUndef \<or>
     keys_within [''masked_values'', ''categories'', ''saturated''] b \<and>
     opt_num (jget b ''masked_values'') \<and> jget b ''masked_values'' \<noteq> JUndef \<and> is_flag (jget b ''saturated'') \<and>
     (case jget b ''categories'' of
        JObj kvs \<Rightarrow> length kvs \<le> MAX_PSEUDONYMIZATION_CATEGORIES \<and> counted kvs
      | _ \<Rightarrow> False)"

definition EVENT_KEYS :: "string list" where
  "EVENT_KEYS = [''schema_version'', ''event_id'', ''timestamp'', ''category'', ''type'', ''severity'', ''outcome'', ''actor'',
     ''resource'', ''request'', ''description'', ''content'', ''pseudonymization'']"

definition typed_head :: "js \<Rightarrow> bool" where
  "typed_head e \<longleftrightarrow> keys_within EVENT_KEYS e \<and> jget e ''schema_version'' = JStr ''1.0'' \<and>
     is_str (jget e ''event_id'') \<and> is_str (jget e ''timestamp'') \<and> is_str (jget e ''type'') \<and>
     jget e ''category'' \<in> JStr ` {''security'', ''audit'', ''usage''} \<and>
     jget e ''severity'' \<in> JStr ` {''low'', ''medium'', ''high'', ''critical''} \<and>
     jget e ''outcome'' \<in> JStr ` {''success'', ''failure'', ''unknown''} \<and>
     short_text MAX_DESCRIPTION_LENGTH (jget e ''description'')"

definition typed_event :: "js \<Rightarrow> bool" where
  "typed_event e \<longleftrightarrow> typed_head e \<and> typed_actor (jget e ''actor'') \<and> typed_resource (jget e ''resource'') \<and>
     typed_request (jget e ''request'') \<and> typed_content (jget e ''content'') \<and>
     typed_pseudonymization (jget e ''pseudonymization'')"

section \<open>Members\<close>

lemma truncated_short: "opt_text v \<Longrightarrow> short_text n (truncate_text v n)" "opt_text v \<Longrightarrow> opt_text (truncate_text v n)"
  by (cases v; simp add: opt_text_def truncate_text_def short_text_def)+

lemma stripped_text: "opt_text v \<Longrightarrow> opt_text (strip_query_string v)"
  by (cases v) (simp_all add: opt_text_def strip_query_string_def)

lemma stripped_endpoint:
  "without_query (strip_query_string v)"
  by (cases v) (auto simp: without_query_def strip_query_string_def dest: set_takeWhileD)

lemma severity_typed: "severity_of v \<in> JStr ` {''low'', ''medium'', ''high'', ''critical''}"
  by (simp add: severity_of_def)

lemma outcome_typed: "request_outcome v \<in> JStr ` {''success'', ''failure'', ''unknown''}"
  by (cases v) (simp_all add: request_outcome_def)

lemma or_now_text: "opt_text v \<Longrightarrow> is_str (or_now now v)"
  by (cases v) (simp_all add: or_now_def opt_text_def)

lemma nullish_text: "opt_text v \<Longrightarrow> is_str (nullish v (JStr d))"
  by (cases v) (simp_all add: nullish_def opt_text_def)

lemma content_typed: "typed_content (content_of c)"
  by (simp add: content_of_def typed_content_def keys_within_def text_member_def opt_text_def is_flag_def OMISSION_REASONS_def)

lemma no_counts: "counted []"
  by (simp add: counted_def)

lemma counted_update:
  "counted acc \<Longrightarrow> length k \<le> MAX_CATEGORY_KEY_LENGTH \<Longrightarrow> is_count n \<Longrightarrow> counted (AList.update k n acc)"
  by (induction acc) (auto simp: counted_def)

lemma count_categories_typed: "counted acc \<Longrightarrow> counted (count_categories es acc)"
proof (induction es acc rule: count_categories.induct)
  case (2 k n es acc)
  then show ?case by (cases "MAX_PSEUDONYMIZATION_CATEGORIES \<le> length acc") (simp_all add: counted_update)
qed simp

lemma pseudonymization_typed: "typed_pseudonymization (pseudonymization_of b)"
proof (cases "is_objectish b \<and> (\<exists>n. jget b ''masked_values'' = JNum n)")
  case True
  then obtain n where n: "jget b ''masked_values'' = JNum n" by auto
  define cs where "cs = (if is_objectish (jget b ''categories'') then count_categories (js_entries (jget b ''categories'')) [] else [])"
  have "length cs \<le> MAX_PSEUDONYMIZATION_CATEGORIES" "counted cs"
    using count_categories_bounded[of "[]"] count_categories_typed[of "[]"] by (simp_all add: cs_def no_counts)
  moreover have "pseudonymization_of b = JObj [(''masked_values'', JNum n), (''categories'', JObj cs),
      (''saturated'', JBool (jget b ''saturated'' = JBool True))]"
    using True n by (simp add: pseudonymization_of_def cs_def)
  ultimately show ?thesis by (simp add: typed_pseudonymization_def keys_within_def opt_num_def is_flag_def)
next
  case False
  then have "pseudonymization_of b = JUndef" by (auto simp: pseudonymization_of_def split: js.split)
  then show ?thesis by (simp add: typed_pseudonymization_def)
qed

section \<open>Events\<close>

lemma source_text: "typed_source s \<Longrightarrow> k \<in> set SOURCE_TEXTS \<Longrightarrow> opt_text (jget s k)"
  by (simp add: typed_source_def list_all_iff)

lemma source_texts:
  assumes "typed_source s"
  shows "opt_text (jget s ''eventId'')" "opt_text (jget s ''eventType'')" "opt_text (jget s ''description'')"
    "opt_text (jget s ''timestamp'')" "opt_text (jget s ''credentialId'')" "opt_text (jget s ''credentialHint'')"
    "opt_text (jget s ''credentialMaterial'')" "opt_text (jget s ''authType'')" "opt_text (jget s ''clientIP'')"
    "opt_text (jget s ''userAgent'')" "opt_text (jget s ''endpoint'')" "opt_text (jget s ''requestId'')"
    "opt_text (jget s ''model'')" "opt_text (jget s ''createdAt'')" "opt_text (jget s ''actorId'')" "opt_text (jget s ''actorType'')"
    "opt_text (jget s ''resourceType'')" "opt_text (jget s ''resourceId'')" "opt_text (jget s ''details'')"
    "opt_num (jget s ''statusCode'')"
  using assms by (simp_all add: source_text SOURCE_TEXTS_def) (simp add: typed_source_def)

lemmas schema_defs = typed_event_def typed_head_def typed_actor_def typed_resource_def typed_request_def keys_within_def
  EVENT_KEYS_def ACTOR_KEYS_def RESOURCE_KEYS_def

lemma undef_text [simp]: "opt_text JUndef" "without_query JUndef" "opt_num JUndef" "short_text n JUndef" "typed_content JUndef" "typed_pseudonymization JUndef"
  by (simp_all add: opt_text_def without_query_def opt_num_def short_text_def typed_content_def typed_pseudonymization_def)

lemma usage_typed:
  assumes "typed_source s" and "is_usage_event s"
  shows "typed_event (usage_event now s)"
  using source_texts[OF assms(1)] assms(2) severity_typed outcome_typed
  by (simp add: usage_event_def schema_defs truncated_short stripped_text stripped_endpoint or_now_text nullish_text
      content_typed pseudonymization_typed is_usage_event_def)

lemma audit_typed:
  assumes "typed_source s" and "is_audit_event s"
  shows "typed_event (audit_event now s)"
  using source_texts[OF assms(1)] assms(2) severity_typed
  by (simp add: audit_event_def schema_defs truncated_short or_now_text is_audit_event_def nullish_def)

lemma security_typed:
  assumes "typed_source s"
  shows "typed_event (security_event now s)"
  using source_texts[OF assms] severity_typed
  by (simp add: security_event_def schema_defs truncated_short stripped_text stripped_endpoint or_now_text nullish_text)

lemma keys_set: "keys_within ks e \<Longrightarrow> k \<in> set ks \<Longrightarrow> keys_within ks (jset k v e)"
  by (cases e) (auto simp: keys_within_def jset_def dom_update[simplified dom_def])

lemma keys_del: "keys_within ks e \<Longrightarrow> keys_within ks (jdel k e)"
  by (cases e) (auto simp: keys_within_def jdel_def AList.delete_eq)

lemma actor_without_material: "typed_actor a \<Longrightarrow> typed_actor (jdel ''credential_material'' a)"
  by (simp add: typed_actor_def keys_del ACTOR_KEYS_def)

lemma event_changed:
  assumes "typed_event e"
  shows "typed_event (jdel ''content'' e)"
    and "typed_content c \<Longrightarrow> typed_event (jset ''content'' c e)"
    and "typed_actor a \<Longrightarrow> typed_event (jset ''actor'' a e)"
  using assms by (simp_all add: typed_event_def typed_head_def keys_del keys_set EVENT_KEYS_def)

lemma omitted_typed: "typed_content (JObj [(''omitted'', JStr ''not-masked'')])"
  by (simp add: typed_content_def keys_within_def OMISSION_REASONS_def)

lemma redacted_typed:
  assumes "typed_event e"
  shows "typed_event (redact_for_sink e p)"
proof -
  have c: "typed_event (content_for_sink e p)"
    using event_changed[OF assms] omitted_typed assms by (simp add: content_for_sink_def)
  then have "typed_actor (jget (content_for_sink e p) ''actor'')" by (simp add: typed_event_def)
  then have "typed_event (without_credential_material (content_for_sink e p))"
    using event_changed(3)[OF c] actor_without_material c by (simp add: without_credential_material_def)
  then show ?thesis using c by (simp add: redact_for_sink_def Let_def)
qed

text \<open>C22. Whatever event arrives with texts where its interface declares texts, what a sink receives has the schema:
  only declared members, each of its declared type, the free texts within their bounds, no query string, and counts
  only in the one open map.\<close>

theorem received_event_conforms:
  assumes "typed_source (nullish s (JObj []))"
  shows "typed_event (redact_for_sink (to_siem_event now s) p)"
proof (rule redacted_typed)
  show "typed_event (to_siem_event now s)"
    using usage_typed[OF assms] audit_typed[OF assms] security_typed[OF assms] by (simp add: to_siem_event_def Let_def)
qed

definition noisy_usage :: js where
  "noisy_usage = JObj [(''eventId'', JStr ''e''), (''category'', JStr ''usage''), (''endpoint'', JStr ''/v1?key=x''),
     (''extra'', JStr ''y''), (''content'', JObj [(''prompt'', JStr ''p''), (''masked'', JNull)])]"

theorem received_event_conforms_witness:
  "typed_event (redact_for_sink (to_siem_event ''t'' noisy_usage) \<lparr> sp_material = False, sp_content = True, sp_unmasked = False \<rparr>) \<and>
     jpath (to_siem_event ''t'' noisy_usage) [''resource'', ''endpoint''] = JStr ''/v1''"
proof -
  have "typed_source (nullish noisy_usage (JObj []))" by code_simp
  note received_event_conforms[OF this]
  moreover have "jpath (to_siem_event ''t'' noisy_usage) [''resource'', ''endpoint''] = JStr ''/v1''" by code_simp
  ultimately show ?thesis by blast
qed

end
