(* ===== verification/Key_Sources.thy ===== *)
theory Key_Sources
  imports Aws_Signature Query_Params
begin

text \<open>
  Where a request carries its credential and who sent it: the key of a request (\<open>utils/extractApiKey.ts\<close>), the masking
  of keys in URLs (\<open>utils/redactUrl.ts\<close>), the address of the client (\<open>utils/clientIp.ts\<close>) and what an event may say of a credential (\<open>utils/credentialIdentity.ts\<close>).

  Headers and query values are \<open>js\<close>: a text, an array or the object of a bracketed parameter. A decoded name is the list
  of its UTF-8 bytes, which agrees with the text on the ASCII names it is compared with.
\<close>

section \<open>The key of a request\<close>

definition API_KEY_HEADERS :: "string list" where
  "API_KEY_HEADERS = [''x-api-key'', ''x-stainless-key'', ''x-goog-api-key'']"

record key_request =
  kr_method :: string
  kr_url :: string
  kr_headers :: js
  kr_query :: js

text \<open>\<open>a || b\<close> on texts that may be missing.\<close>

definition or_text :: "string option \<Rightarrow> string option \<Rightarrow> string option" where
  "or_text a b = (case a of Some (c # s) \<Rightarrow> Some (c # s) | _ \<Rightarrow> b)"

definition bearer_key :: "js \<Rightarrow> string option" where
  "bearer_key authorization =
     (case authorization of
        JStr h \<Rightarrow>
          (if prefix ''Bearer '' h
           then let token = trim (drop 7 h) in if prefix ''sk-'' token then Some token else None
           else None)
      | _ \<Rightarrow> None)"

definition extract_api_key :: "key_request \<Rightarrow> string option" where
  "extract_api_key req =
     (let from_header = (case collect_some (\<lambda>h. query_string (jget (kr_headers req) h)) API_KEY_HEADERS of [] \<Rightarrow> None | k # _ \<Rightarrow> Some k);
          key = or_text from_header (or_text (query_string (jget (kr_query req) ''api_key'')) (query_string (jget (kr_query req) ''key'')))
      in case key of Some k \<Rightarrow> Some k | None \<Rightarrow> bearer_key (jget (kr_headers req) ''authorization''))"

text \<open>A key is never empty.\<close>

lemma extracted_key_nonempty:
  assumes "extract_api_key req = Some k"
  shows "k \<noteq> []"
proof -
  have "k \<noteq> []" if "bearer_key v = Some k" for v
    using that by (auto simp: bearer_key_def Let_def prefix_def split: js.splits if_splits)
  moreover have "k \<noteq> []" if "collect_some (\<lambda>h. query_string (f h)) hs = k # ks" for f hs ks
  proof -
    have "k \<in> set (collect_some (\<lambda>h. query_string (f h)) hs)" using that by simp
    then show ?thesis using query_string_text by (auto simp: set_collect_some)
  qed
  ultimately show ?thesis
    using assms query_string_text
    by (auto simp: extract_api_key_def or_text_def Let_def split: option.splits list.splits)
qed

section \<open>Keys in URLs\<close>

definition KEY_PARAMS :: "string list" where
  "KEY_PARAMS = [''key'', ''api_key'']"

definition MASK :: string where
  "MASK = ''***''"

text \<open>\<open>.replace(/\[.*\]$/, '')\<close>\<close>

fun strip_index :: "string \<Rightarrow> string" where
  "strip_index [] = []"
| "strip_index (c # s) =
     (if c = CHR ''['' \<and> s \<noteq> [] \<and> last s = CHR '']'' \<and> list_all (\<lambda>x. \<not> is_newline x) s then [] else c # strip_index s)"

definition decoded_name :: "string \<Rightarrow> string" where
  "decoded_name raw =
     (case percent_decode (map (\<lambda>c. if c = CHR ''+'' then CHR '' '' else c) raw) of
        Some bs \<Rightarrow> if utf8_ok 0 128 191 bs then bs else raw
      | None \<Rightarrow> raw)"

definition is_key_param :: "string \<Rightarrow> bool" where
  "is_key_param raw = (lower (strip_index (decoded_name raw)) \<in> set KEY_PARAMS)"

definition mask_pair :: "string \<Rightarrow> string" where
  "mask_pair pair =
     (let name = takeWhile (\<lambda>c. c \<noteq> CHR ''='') pair in
      if name = pair \<or> \<not> is_key_param name then pair else name @ ''='' @ MASK)"

definition redact_url :: "string \<Rightarrow> string" where
  "redact_url url =
     (case dropWhile (\<lambda>c. c \<noteq> CHR ''?'') url of
        [] \<Rightarrow> url
      | m # rest \<Rightarrow>
          let query = takeWhile (\<lambda>c. c \<noteq> CHR ''#'') rest in
          takeWhile (\<lambda>c. c \<noteq> CHR ''?'') url @ [m] @ join ''&'' (map mask_pair (split_char CHR ''&'' query)) @
          dropWhile (\<lambda>c. c \<noteq> CHR ''#'') rest)"

definition redact_query :: "(string \<times> js) list \<Rightarrow> (string \<times> js) list" where
  "redact_query kvs = map (\<lambda>(k, v). (k, if is_key_param k then JStr MASK else v)) kvs"

text \<open>Two pairs that differ at most in the value of a key.\<close>

definition same_but_key :: "string \<Rightarrow> string \<Rightarrow> bool" where
  "same_but_key a b \<longleftrightarrow> a = b \<or>
     (\<exists>name u v. a = name @ ''='' @ u \<and> b = name @ ''='' @ v \<and> CHR ''='' \<notin> set name \<and> is_key_param name)"

lemma mask_key_pair: "CHR ''='' \<notin> set name \<Longrightarrow> is_key_param name \<Longrightarrow> mask_pair (name @ ''='' @ u) = name @ ''='' @ MASK"
proof -
  assume name: "CHR ''='' \<notin> set name" "is_key_param name"
  then have "\<forall>x \<in> set name. x \<noteq> CHR ''=''" by auto
  then have "takeWhile (\<lambda>c. c \<noteq> CHR ''='') (name @ ''='' @ u) = name" by (simp add: takeWhile_append)
  then show ?thesis using name by (simp add: mask_pair_def Let_def)
qed

lemma mask_same: "same_but_key a b \<Longrightarrow> mask_pair a = mask_pair b"
  unfolding same_but_key_def using mask_key_pair by metis

lemma redact_url_pairs:
  assumes "CHR ''?'' \<notin> set path" and "pairs \<noteq> []" and "\<forall>p \<in> set pairs. CHR ''&'' \<notin> set p \<and> CHR ''#'' \<notin> set p"
    and "fragment = [] \<or> hd fragment = CHR ''#''"
  shows "redact_url (path @ ''?'' @ join ''&'' pairs @ fragment) = path @ ''?'' @ join ''&'' (map mask_pair pairs) @ fragment"
proof -
  let ?q = "join ''&'' pairs"
  have q: "CHR ''#'' \<notin> set ?q" using set_join[of "''&''" pairs] assms(3) by auto
  then have "\<forall>x \<in> set ?q. x \<noteq> CHR ''#''" by auto
  then have t: "takeWhile (\<lambda>c. c \<noteq> CHR ''#'') (?q @ fragment) = ?q" "dropWhile (\<lambda>c. c \<noteq> CHR ''#'') (?q @ fragment) = fragment"
    using assms(4) by (cases fragment; simp add: takeWhile_append dropWhile_append)+
  have p: "\<forall>x \<in> set path. x \<noteq> CHR ''?''" using assms(1) by auto
  then have "dropWhile (\<lambda>c. c \<noteq> CHR ''?'') (path @ ''?'' @ ?q @ fragment) = ''?'' @ ?q @ fragment"
    "takeWhile (\<lambda>c. c \<noteq> CHR ''?'') (path @ ''?'' @ ?q @ fragment) = path"
    by (simp_all add: dropWhile_append takeWhile_append)
  then show ?thesis using t split_char_join[of pairs "CHR ''&''"] assms(2,3) by (simp add: redact_url_def Let_def list_all_iff)
qed



section \<open>The address of the client\<close>

record peer_request =
  pr_socket :: "string option"
  pr_connection :: "string option"
  pr_ip :: "string option"
  pr_real_ip :: "string option"
  pr_forwarded :: js

text \<open>\<open>(\d{1,3}(?:\.\d{1,3}){3})\<close>\<close>

definition is_quad :: "string \<Rightarrow> bool" where
  "is_quad s = (let parts = split_char CHR ''.'' s in
     length parts = 4 \<and> list_all (\<lambda>p. p \<noteq> [] \<and> length p \<le> 3 \<and> list_all is_digit p) parts)"

definition normalize_ip :: "string \<Rightarrow> string" where
  "normalize_ip ip =
     (let t = trim ip in if lower (take 7 t) = ''::ffff:'' \<and> is_quad (drop 7 t) then drop 7 t else t)"

definition address_or_unknown :: "string \<Rightarrow> string" where
  "address_or_unknown s = (if s = [] then ''unknown'' else s)"

definition address_or_empty :: "string option \<Rightarrow> string" where
  "address_or_empty t = (case t of None \<Rightarrow> [] | Some s \<Rightarrow> s)"

definition forwarded_chain :: "js \<Rightarrow> string" where
  "forwarded_chain v =
     (case v of
        JStr s \<Rightarrow> s
      | JArr vs \<Rightarrow> join '','' (map (\<lambda>x. address_or_empty (jstring x)) vs)
      | _ \<Rightarrow> [])"

definition get_client_ip :: "peer_request \<Rightarrow> bool \<Rightarrow> string" where
  "get_client_ip req trust =
     (if \<not> trust then address_or_unknown (normalize_ip (address_or_empty (or_text (pr_socket req) (pr_connection req))))
      else
        let peer = address_or_empty (or_text (pr_ip req) (or_text (pr_connection req) (pr_socket req)));
            real_ip = trim (address_or_empty (pr_real_ip req));
            parts = filter (\<lambda>p. p \<noteq> []) (map trim (split_char CHR '','' (forwarded_chain (pr_forwarded req))))
        in if real_ip \<noteq> [] then normalize_ip real_ip
           else if parts \<noteq> [] then normalize_ip (last parts)
           else address_or_unknown (normalize_ip peer))"

text \<open>No client chooses its address: without trust in the headers only the socket counts, and with it whatever a
  client claims in front of the entry its nearest proxy appended is ignored.\<close>

theorem client_address_not_claimed:
  assumes "pr_real_ip req = None" and "CHR '','' \<notin> set peer" and "trim peer \<noteq> []"
  shows "get_client_ip (req\<lparr>pr_forwarded := JStr (claim @ '','' @ peer)\<rparr>) True = normalize_ip (trim peer) \<and>
    get_client_ip (req\<lparr>pr_forwarded := v, pr_real_ip := r, pr_ip := i\<rparr>) False = get_client_ip req False"
proof -
  have "map trim (split_char CHR '','' (claim @ '','' @ peer)) = map trim (split_char CHR '','' claim) @ [trim peer]"
    using split_char_append[of "CHR '',''" claim peer] split_char_plain[OF assms(2)] by simp
  then show ?thesis using assms by (simp add: get_client_ip_def forwarded_chain_def address_or_empty_def trim_def trim_left_def)
qed

theorem client_address_not_claimed_witness:
  "get_client_ip \<lparr> pr_socket = Some ''10.0.0.1'', pr_connection = None, pr_ip = None, pr_real_ip = None,
     pr_forwarded = JStr ''1.1.1.1, ::ffff:9.9.9.9'' \<rparr> True = ''9.9.9.9''"
proof -
  let ?req = "\<lparr> pr_socket = Some ''10.0.0.1'', pr_connection = None, pr_ip = None, pr_real_ip = None, pr_forwarded = JUndef \<rparr>"
  have "trim '' ::ffff:9.9.9.9'' \<noteq> []" by code_simp
  moreover have "normalize_ip (trim '' ::ffff:9.9.9.9'') = ''9.9.9.9''" by code_simp
  ultimately show ?thesis using client_address_not_claimed[of ?req "'' ::ffff:9.9.9.9''" "''1.1.1.1''"] by simp
qed

section \<open>What an event says of a credential\<close>

record credential_identity =
  ci_id :: string
  ci_hint :: "string option"
  ci_material :: "string option"

definition SENTINELS :: "string list" where
  "SENTINELS = [''missing'', ''unknown'']"

definition HINT_LENGTH :: nat where
  "HINT_LENGTH = 8"

definition identity_of :: "(string \<Rightarrow> string) \<Rightarrow> string \<Rightarrow> credential_identity" where
  "identity_of sha256 presented =
     (if presented \<in> set SENTINELS then \<lparr> ci_id = presented, ci_hint = None, ci_material = None \<rparr>
      else \<lparr> ci_id = sha256 presented, ci_hint = Some (take HINT_LENGTH presented), ci_material = Some presented \<rparr>)"

definition resolved_identity :: "(string \<Rightarrow> string) \<Rightarrow> string \<Rightarrow> string \<Rightarrow> credential_identity" where
  "resolved_identity sha256 presented cid = \<lparr> ci_id = cid, ci_hint = ci_hint (identity_of sha256 presented), ci_material = None \<rparr>"

end
