(* ===== verification/Unified_Cache.thy ===== *)
theory Unified_Cache
  imports Prelude "HOL-Library.Log_Nat"
begin

text \<open>
  The cache of validated credentials (\<open>services/unifiedValidationCache.ts\<close>) in its two tiers: the map of a gateway
  process and the entries all gateways share in Valkey (\<open>services/valkeyDistributedCacheAdapter.ts\<close>), and the
  invalidation that reaches both (\<open>libs/cache-invalidation/cacheInvalidationService.ts\<close>).

  Hashing, key derivation, AES-GCM with its base64 texts and JSON are a parameter (\<open>cipher\<close>); so is whether Valkey
  answers. An entry in Valkey whose text does not parse is \<open>None\<close>. Metrics, analytics and log lines are not modelled. A
  pattern has no metacharacter of regular expressions but the dot.
\<close>

section \<open>Entries\<close>

record cipher =
  cp_hash :: "string \<Rightarrow> string"
  cp_derive :: "string \<Rightarrow> string"
  cp_seal :: "string \<Rightarrow> string \<Rightarrow> string \<Rightarrow> string \<times> string"
  cp_open :: "string \<Rightarrow> js \<Rightarrow> js \<Rightarrow> js \<Rightarrow> string option"
  cp_stringify :: "js \<Rightarrow> string"
  cp_parse :: "string \<Rightarrow> js option"

record cache_config =
  uc_enabled :: bool
  uc_token_ttl :: int
  uc_fallback_ttl :: int
  uc_encrypt :: bool
  uc_max_size :: nat

text \<open>An entry from Valkey may lack its time; a comparison with it is false then.\<close>

record cache_entry =
  ue_data :: js
  ue_expires :: "int option"
  ue_accesses :: nat
  ue_accessed :: int

type_synonym local_tier = "(string \<times> cache_entry) list"
type_synonym shared_tier = "(string \<times> cache_entry option \<times> int) list"

definition VALKEY_CACHE_KEY_PREFIX :: string where
  "VALKEY_CACHE_KEY_PREFIX = ''unified-cache:''"

definition unified_key :: "cipher \<Rightarrow> string \<Rightarrow> string \<Rightarrow> string" where
  "unified_key cp cred auth =
     ''unified:'' @ (if auth = ''api_key'' then ''apikey'' else ''token'') @ '':'' @ cp_hash cp cred"

definition without_secrets :: "js \<Rightarrow> js" where
  "without_secrets r =
     (let data = jget r ''data'' in
      if \<not> truthy data \<or> jget data ''secretAccessKey'' = JUndef \<and> jget data ''signingKeys'' = JUndef then r
      else jset ''data'' (jdel ''signingKeys'' (jdel ''secretAccessKey'' (jcopy data))) (jcopy r))"

definition seal_data :: "cipher \<Rightarrow> string \<Rightarrow> string \<Rightarrow> js \<Rightarrow> js" where
  "seal_data cp cred iv data =
     (let (tag, text) = cp_seal cp (cp_derive cp cred) iv (cp_stringify cp data) in
      JObj [(''__encrypted'', JBool True),
        (''__encryptedData'', JObj [(''iv'', JStr iv), (''tag'', JStr tag), (''ciphertext'', JStr text)])])"

definition is_sealed :: "js \<Rightarrow> bool" where
  "is_sealed d = (is_objectish d \<and> jget d ''__encrypted'' = JBool True \<and> truthy (jget d ''__encryptedData''))"

definition open_data :: "cipher \<Rightarrow> string \<Rightarrow> js \<Rightarrow> js option" where
  "open_data cp cred d =
     (let b = jget d ''__encryptedData'' in
      Option.bind (cp_open cp (cp_derive cp cred) (jget b ''iv'') (jget b ''tag'') (jget b ''ciphertext'')) (cp_parse cp))"

definition is_expired :: "int \<Rightarrow> cache_entry \<Rightarrow> bool" where
  "is_expired now e = (case ue_expires e of None \<Rightarrow> False | Some t \<Rightarrow> t < now)"

section \<open>Valkey\<close>

definition valkey_key :: "string \<Rightarrow> string" where
  "valkey_key k = VALKEY_CACHE_KEY_PREFIX @ k"

text \<open>\<open>set\<close> with a time to live in seconds, at least one.\<close>

definition vk_set :: "cache_config \<Rightarrow> bool \<Rightarrow> int \<Rightarrow> string \<Rightarrow> cache_entry \<Rightarrow> int \<Rightarrow> shared_tier \<Rightarrow> shared_tier" where
  "vk_set cfg up now k e seconds shared =
     (let ttl = (if seconds = 0 then uc_token_ttl cfg div 1000 else seconds) in
      if up \<and> 0 < ttl then AList.update (valkey_key k) (Some e, now + ttl * 1000) shared else shared)"

definition vk_delete :: "bool \<Rightarrow> string \<Rightarrow> shared_tier \<Rightarrow> shared_tier" where
  "vk_delete up k shared = (if up then AList.delete (valkey_key k) shared else shared)"

definition vk_get :: "bool \<Rightarrow> int \<Rightarrow> string \<Rightarrow> shared_tier \<Rightarrow> shared_tier \<times> cache_entry option" where
  "vk_get up now k shared =
     (if \<not> up then (shared, None)
      else case map_of shared (valkey_key k) of
        Some (Some e, deadline) \<Rightarrow>
          if deadline \<le> now then (shared, None)
          else if is_expired now e then (vk_delete up k shared, None)
          else (shared, Some e)
      | _ \<Rightarrow> (shared, None))"

section \<open>Eviction\<close>

text \<open>\<open>Math.ceil(n * 0.1)\<close> in binary floating point: the product with the double next to a tenth, rounded to 53 bits.\<close>

definition round_bits :: "nat \<Rightarrow> nat" where
  "round_bits p =
     (let e = floorlog 2 p - 53; q = p div 2 ^ e; r = p mod 2 ^ e in
      (if 2 ^ e < 2 * r \<or> (2 ^ e = 2 * r \<and> odd q) then q + 1 else q) * 2 ^ e)"

definition ceil_tenth :: "nat \<Rightarrow> nat" where
  "ceil_tenth n = (round_bits (n * 3602879701896397) + (2 ^ 55 - 1)) div 2 ^ 55"

definition evict_lru :: "local_tier \<Rightarrow> local_tier" where
  "evict_lru cache =
     (let gone = map fst (take (ceil_tenth (length cache)) (sort_key (\<lambda>(k, e). ue_accessed e) cache)) in
      fold AList.delete gone cache)"

section \<open>Storing and reading\<close>

definition token_ttl :: "cache_config \<Rightarrow> string \<Rightarrow> int" where
  "token_ttl cfg source = (if source = ''fallback'' then uc_fallback_ttl cfg else uc_token_ttl cfg)"

definition set_unified_token :: "cipher \<Rightarrow> cache_config \<Rightarrow> bool \<Rightarrow> int \<Rightarrow> string \<Rightarrow> string \<Rightarrow> js \<Rightarrow> string \<Rightarrow>
    local_tier \<times> shared_tier \<Rightarrow> local_tier \<times> shared_tier" where
  "set_unified_token cp cfg up now iv cred r source tiers =
     (let (cache, shared) = tiers in
      if \<not> uc_enabled cfg then tiers
      else if jget r ''auditInfo'' = JUndef \<or> jget r ''auditInfo'' = JNull then tiers
      else
        let auth = (case jget r ''authType'' of JStr a \<Rightarrow> a | _ \<Rightarrow> []);
            key = unified_key cp cred auth;
            ttl = token_ttl cfg source;
            data = without_secrets r;
            entry = \<lparr> ue_data = (if uc_encrypt cfg then seal_data cp cred iv data else data), ue_expires = Some (now + ttl),
                      ue_accesses = 0, ue_accessed = now \<rparr>;
            cache1 = AList.update key entry cache;
            shared1 = vk_set cfg up now key entry (ttl div 1000) shared
        in (if uc_max_size cfg < length cache1 then evict_lru cache1 else cache1, shared1))"

text \<open>\<open>data.auditInfo.cacheHit = true\<close>, which throws on \<open>null\<close> and on a primitive value.\<close>

definition mark_hit :: "js \<Rightarrow> js option" where
  "mark_hit d =
     (if d = JUndef \<or> d = JNull then None
      else case jget d ''auditInfo'' of
        JObj a \<Rightarrow> Some (jset ''auditInfo'' (jset ''cacheHit'' (JBool True) (JObj a)) d)
      | JArr a \<Rightarrow> Some d
      | v \<Rightarrow> if truthy v then None else Some d)"

text \<open>The entry of a key: of the process, or of Valkey and then kept in the process too.\<close>

definition find_entry :: "bool \<Rightarrow> int \<Rightarrow> string \<Rightarrow> local_tier \<times> shared_tier \<Rightarrow> (local_tier \<times> shared_tier) \<times> cache_entry option" where
  "find_entry up now key tiers =
     (let (cache, shared) = tiers in
      case map_of cache key of
        Some e \<Rightarrow> (tiers, Some e)
      | None \<Rightarrow>
          (case vk_get up now key shared of
             (shared', Some e) \<Rightarrow> ((AList.update key e cache, shared'), Some e)
           | (shared', None) \<Rightarrow> ((cache, shared'), None)))"

text \<open>What a found entry gives.\<close>

definition use_entry :: "cipher \<Rightarrow> cache_config \<Rightarrow> bool \<Rightarrow> int \<Rightarrow> string \<Rightarrow> string \<Rightarrow> cache_entry \<Rightarrow>
    local_tier \<times> shared_tier \<Rightarrow> (local_tier \<times> shared_tier) \<times> js option" where
  "use_entry cp cfg up now cred key e tiers =
     (let (cache, shared) = tiers; e1 = e\<lparr>ue_accesses := ue_accesses e + 1, ue_accessed := now\<rparr> in
      if is_expired now e then ((AList.delete key cache, vk_delete up key shared), None)
      else if is_sealed (ue_data e)
      then ((AList.update key e1 cache, shared), Option.bind (open_data cp cred (ue_data e)) mark_hit)
      else if uc_encrypt cfg then ((AList.update key e1 cache, shared), None)
      else (case mark_hit (ue_data e) of
              None \<Rightarrow> ((AList.update key e1 cache, shared), None)
            | Some d \<Rightarrow> ((AList.update key (e1\<lparr>ue_data := d\<rparr>) cache, shared), Some d)))"

definition get_unified_token :: "cipher \<Rightarrow> cache_config \<Rightarrow> bool \<Rightarrow> int \<Rightarrow> string \<Rightarrow> string \<Rightarrow>
    local_tier \<times> shared_tier \<Rightarrow> (local_tier \<times> shared_tier) \<times> js option" where
  "get_unified_token cp cfg up now cred auth tiers =
     (if \<not> uc_enabled cfg then (tiers, None)
      else
        let key = unified_key cp cred auth in
        case find_entry up now key tiers of
          (tiers1, None) \<Rightarrow> (tiers1, None)
        | (tiers1, Some e) \<Rightarrow> use_entry cp cfg up now cred key e tiers1)"

definition delete_unified_token :: "cipher \<Rightarrow> bool \<Rightarrow> string \<Rightarrow> string \<Rightarrow> local_tier \<times> shared_tier \<Rightarrow> local_tier \<times> shared_tier" where
  "delete_unified_token cp up cred auth tiers =
     (let (cache, shared) = tiers; key = unified_key cp cred auth in (AList.delete key cache, vk_delete up key shared))"

section \<open>Invalidation\<close>

definition clear_by_credential_id :: "cipher \<Rightarrow> bool \<Rightarrow> string \<Rightarrow> string \<Rightarrow> local_tier \<times> shared_tier \<Rightarrow> local_tier \<times> shared_tier" where
  "clear_by_credential_id cp up cred auth tiers =
     (let (cache, shared) = tiers; key = unified_key cp cred auth in (AList.delete key cache, vk_delete up key shared))"

text \<open>A pattern against a whole text: \<open>*\<close> for any characters, \<open>?\<close> (and in a regular expression the dot) for one.\<close>

fun pattern_match :: "(char \<Rightarrow> bool) \<Rightarrow> (char \<Rightarrow> bool) \<Rightarrow> string \<Rightarrow> string \<Rightarrow> bool" where
  "pattern_match wild ok [] s = (s = [])"
| "pattern_match wild ok (p # ps) s =
     (if p = CHR ''*'' then pattern_match wild ok ps s \<or> (case s of [] \<Rightarrow> False | c # cs \<Rightarrow> ok c \<and> pattern_match wild ok (p # ps) cs)
      else case s of [] \<Rightarrow> False | c # cs \<Rightarrow> (if wild p then ok c else c = p) \<and> pattern_match wild ok ps cs)"

definition matches_pattern :: "string \<Rightarrow> string \<Rightarrow> bool" where
  "matches_pattern key pat = pattern_match (\<lambda>p. p = CHR ''?'' \<or> p = CHR ''.'') (\<lambda>c. \<not> is_newline c) pat key"

definition valkey_matches :: "string \<Rightarrow> string \<Rightarrow> bool" where
  "valkey_matches key pat = pattern_match (\<lambda>p. p = CHR ''?'') (\<lambda>_. True) pat key"

definition matches_local_key :: "string \<Rightarrow> string \<Rightarrow> bool" where
  "matches_local_key key pat =
     (matches_pattern key pat \<or>
      (prefix VALKEY_CACHE_KEY_PREFIX pat \<and> matches_pattern key (drop (length VALKEY_CACHE_KEY_PREFIX) pat)))"

definition vk_clear_pattern :: "bool \<Rightarrow> string \<Rightarrow> shared_tier \<Rightarrow> shared_tier" where
  "vk_clear_pattern up pat shared = (if up then filter (\<lambda>(k, _). \<not> valkey_matches k pat) shared else shared)"

definition clear_by_pattern :: "bool \<Rightarrow> string \<Rightarrow> local_tier \<times> shared_tier \<Rightarrow> local_tier \<times> shared_tier" where
  "clear_by_pattern up pat tiers =
     (let (cache, shared) = tiers in (filter (\<lambda>(k, _). \<not> matches_local_key k pat) cache, vk_clear_pattern up pat shared))"

text \<open>An event of the invalidation channel, and what a gateway does with it.\<close>

datatype invalidation = Clear_Credential string string | Clear_Pattern string

definition process_invalidation :: "cipher \<Rightarrow> bool \<Rightarrow> invalidation \<Rightarrow> local_tier \<times> shared_tier \<Rightarrow> local_tier \<times> shared_tier" where
  "process_invalidation cp up ev tiers =
     (case ev of
        Clear_Credential cred auth \<Rightarrow>
          if cred = [] \<or> auth = [] then tiers
          else clear_by_credential_id cp up cred auth tiers
      | Clear_Pattern pat \<Rightarrow> if pat = [] then tiers else clear_by_pattern up pat tiers)"

end
