(* ===== verification/Api_Key_Auth.thy ===== *)
theory Api_Key_Auth
  imports Key_Sources Unified_Cache
begin

text \<open>
  The authentication of API keys: the local store (\<open>services/apiKeyService.ts\<close>), the validation with its cache and
  fallbacks (\<open>services/unifiedApiKeyValidationService.ts\<close>), the two middlewares (\<open>middlewares/apiKeyAuth.ts\<close>,
  \<open>middlewares/unifiedTokenAuth.ts\<close>) and the check in front of a service (\<open>services/unifiedAuthProxyService.ts\<close>).

  The replies of the administration service and random values are arguments. Timings, request ids and log lines are not
  modelled. A request with an AWS signature is handed to the middleware of \<open>Aws_Auth\<close>.
\<close>

section \<open>The local store\<close>

record api_key_row =
  ak_id :: string
  ak_key :: string
  ak_created_by :: string
  ak_email :: string
  ak_active :: bool

definition verify_api_key :: "api_key_row list \<Rightarrow> string \<Rightarrow> api_key_row option" where
  "verify_api_key rows k = List.find (\<lambda>r. ak_key r = k \<and> ak_active r) rows"

text \<open>The random part of a key and the id of its row are arguments.\<close>

definition create_api_key :: "string \<Rightarrow> string \<Rightarrow> string \<Rightarrow> string \<Rightarrow> api_key_row list \<Rightarrow> api_key_row list" where
  "create_api_key random uuid created_by email rows =
     rows @ [\<lparr> ak_id = uuid, ak_key = ''sk-'' @ random, ak_created_by = created_by, ak_email = email, ak_active = True \<rparr>]"

fun change_first_row :: "('a \<Rightarrow> bool) \<Rightarrow> ('a \<Rightarrow> 'a) \<Rightarrow> 'a list \<Rightarrow> 'a list" where
  "change_first_row P f [] = []"
| "change_first_row P f (x # xs) = (if P x then f x # xs else x # change_first_row P f xs)"

definition revoke_api_key :: "string \<Rightarrow> api_key_row list \<Rightarrow> api_key_row list" where
  "revoke_api_key k rows = change_first_row (\<lambda>r. ak_key r = k) (\<lambda>r. r\<lparr>ak_active := False\<rparr>) rows"

definition revoke_api_keys_by_email :: "string \<Rightarrow> api_key_row list \<Rightarrow> string + api_key_row list" where
  "revoke_api_keys_by_email email rows =
     (if email = [] then Inl ''Email is required for revoking API keys''
      else Inr (map (\<lambda>r. if ak_email r = email \<and> ak_active r then r\<lparr>ak_active := False\<rparr> else r) rows))"

definition get_api_key_by_id :: "api_key_row list \<Rightarrow> string \<Rightarrow> api_key_row option" where
  "get_api_key_by_id rows i = List.find (\<lambda>r. ak_id r = i) rows"

definition set_api_key :: "string \<Rightarrow> string option \<Rightarrow> bool option \<Rightarrow> api_key_row list \<Rightarrow> api_key_row list" where
  "set_api_key i new_key active rows =
     change_first_row (\<lambda>r. ak_id r = i)
       (\<lambda>r. let r1 = (case new_key of Some (c # s) \<Rightarrow> r\<lparr>ak_key := c # s\<rparr> | _ \<Rightarrow> r) in
            (case active of None \<Rightarrow> r1 | Some b \<Rightarrow> r1\<lparr>ak_active := b\<rparr>)) rows"

definition valid_local_key :: "api_key_row list \<Rightarrow> string \<Rightarrow> js option" where
  "valid_local_key rows k =
     (if k = [] then None
      else map_option (\<lambda>r. JObj [(''id'', JStr (ak_id r)), (''name'', JStr (if ak_created_by r = [] then ''API Key'' else ak_created_by r)),
             (''active'', JBool (ak_active r))])
           (List.find (\<lambda>r. ak_key r = k \<and> ak_active r) rows))"

definition find_inactive_api_key_id :: "api_key_row list \<Rightarrow> string \<Rightarrow> string option" where
  "find_inactive_api_key_id rows k =
     (if k = [] then None else map_option ak_id (List.find (\<lambda>r. ak_key r = k \<and> \<not> ak_active r) rows))"

section \<open>Validation\<close>

definition STANDALONE_OWNER_EMAIL :: string where
  "STANDALONE_OWNER_EMAIL = ''local@fallback.com''"

text \<open>
  \<open>an_create_token\<close> is \<open>None\<close> when there is no client or it fails; an error of \<open>an_validate_token\<close> is its left side.
\<close>

record key_env =
  an_standalone :: bool
  an_gateway_standalone :: bool
  an_enabled :: bool
  an_fallback :: bool
  an_create_token :: "string \<Rightarrow> string option"
  an_validate_token :: "string \<Rightarrow> string + js"
  an_rows :: "api_key_row list"
  an_clock_text :: string
  an_up :: bool
  an_iv :: string

definition validate_key_with_admin :: "key_env \<Rightarrow> string \<Rightarrow> string + js option" where
  "validate_key_with_admin env k =
     (case (if an_enabled env then an_create_token env k else None) of
        Some (c # s) \<Rightarrow>
          (case an_validate_token env (c # s) of
             Inl e \<Rightarrow> Inl e
           | Inr r \<Rightarrow> Inr (if jget r ''authType'' = JStr ''api_key'' then Some r else None))
      | _ \<Rightarrow> Inl ''Failed to create unified validation token'')"

definition validate_key_with_local :: "key_env \<Rightarrow> string \<Rightarrow> js option" where
  "validate_key_with_local env k =
     map_option (\<lambda>v. JObj
       [(''valid'', JBool True), (''authType'', JStr ''api_key''),
        (''data'', JObj [(''keyId'', jget v ''id''), (''name'', jget v ''name''), (''email'', JStr STANDALONE_OWNER_EMAIL),
           (''permissions'', JArr [JStr ''gateway:access'']),
           (''rateLimits'', JObj [(''requestsPerMinute'', JNum 100), (''requestsPerHour'', JNum 1000), (''requestsPerDay'', JNum 10000)]),
           (''metadata'', JObj [(''isActive'', jget v ''active''), (''lastUsed'', JStr (an_clock_text env))])]),
        (''auditInfo'', JObj [(''cacheHit'', JBool False)])])
     (valid_local_key (an_rows env) k)"

datatype key_result = Key_Valid js string | Key_Invalid string string "string option"

text \<open>What a request stored in the cache: the response and its source.\<close>

type_synonym stored = "(js \<times> string) option"

definition validate_api_key ::
  "cipher \<Rightarrow> cache_config \<Rightarrow> key_env \<Rightarrow> int \<Rightarrow> string \<Rightarrow> local_tier \<times> shared_tier \<Rightarrow>
   (local_tier \<times> shared_tier) \<times> key_result \<times> stored" where
  "validate_api_key cp cfg env now k tiers =
     (let failed = Key_Invalid ''invalid_api_key'' ''API key validation failed'' in
      if an_standalone env
      then (tiers,
            case validate_key_with_local env k of
              Some r \<Rightarrow> Key_Valid (jget r ''data'') ''local_fallback''
            | None \<Rightarrow> failed None,
            None)
      else
        let (tiers1, cached) =
              (if an_enabled env then get_unified_token cp cfg (an_up env) now k ''api_key'' tiers else (tiers, None))
        in case (case cached of Some r \<Rightarrow> if truthy r then Some r else None | None \<Rightarrow> None) of
             Some r \<Rightarrow> (tiers1, Key_Valid (jget r ''data'') ''cache'', None)
           | None \<Rightarrow>
               let admin = (if an_enabled env then validate_key_with_admin env k else Inr None);
                   refused = (case admin of
                       Inr (Some r) \<Rightarrow> if truthy (jget r ''valid'') then None else jstring (jpath r [''error'', ''credentialId''])
                     | _ \<Rightarrow> None)
               in case (case admin of Inr (Some r) \<Rightarrow> if truthy (jget r ''valid'') then Some r else None | _ \<Rightarrow> None) of
                    Some r \<Rightarrow>
                      (set_unified_token cp cfg (an_up env) now (an_iv env) k r ''admin_service'' tiers1,
                       Key_Valid (jget r ''data'') ''admin_service'', Some (r, ''admin_service''))
                  | None \<Rightarrow>
                      (case (if an_fallback env then validate_key_with_local env k else None) of
                         Some r \<Rightarrow>
                           (if an_enabled env
                            then (set_unified_token cp cfg (an_up env) now (an_iv env) k r ''fallback'' tiers1,
                                  Key_Valid (jget r ''data'') ''local_fallback'', Some (r, ''fallback''))
                            else (tiers1, Key_Valid (jget r ''data'') ''local_fallback'', None))
                       | None \<Rightarrow> (tiers1, failed refused, None)))"

section \<open>The middlewares\<close>

text \<open>What a passing request carries on: \<open>unifiedAuth.valid\<close>, \<open>apiKey\<close> and \<open>apiKeyInfo\<close>.\<close>

record request_auth =
  ra_unified :: "bool option"
  ra_key :: js
  ra_info :: js

datatype key_outcome = Passed request_auth | To_Aws | Denied nat string string

record key_event =
  kv_identity :: credential_identity
  kv_auth :: string
  kv_reason :: string

definition public_access :: "string \<Rightarrow> string \<Rightarrow> request_auth" where
  "public_access key name =
     \<lparr> ra_unified = None, ra_key = JObj [(''key'', JStr key), (''name'', JStr name), (''active'', JBool True)],
       ra_info = JObj [(''active'', JBool True)] \<rparr>"

text \<open>The requests that pass without a key.\<close>

definition keyless_access :: "key_request \<Rightarrow> request_auth option" where
  "keyless_access req =
     (if kr_method req = ''GET'' \<and> prefix ''/openrouter/api/v1/models'' (kr_url req)
      then Some (public_access ''public-models-access'' ''Public Models Access'')
      else if prefix ''/openrouter/'' (kr_url req) \<and>
          (case jget (kr_headers req) ''user-agent'' of JStr ua \<Rightarrow> sublist ''GitHubCopilot'' ua | _ \<Rightarrow> False) \<and>
          kr_method req = ''GET'' \<and> sublist ''/endpoints'' (kr_url req)
      then Some (public_access ''github-copilot'' ''GitHub Copilot Chat'')
      else None)"

text \<open>\<open>{...fields}\<close> into an object.\<close>

definition spread :: "js \<Rightarrow> (string \<times> js) list \<Rightarrow> js" where
  "spread v kvs = JObj (fold (\<lambda>(k, x). AList.update k x) (jfields v) kvs)"

definition api_key_auth :: "(string \<Rightarrow> string) \<Rightarrow> key_env \<Rightarrow> bool \<Rightarrow> key_request \<Rightarrow> key_outcome \<times> key_event list" where
  "api_key_auth sha256 env attempted req =
     (case extract_api_key req of
        None \<Rightarrow>
          (case keyless_access req of
             Some a \<Rightarrow> (Passed a, [])
           | None \<Rightarrow>
               (Denied 401 ''authentication_error'' ''API key is required. Please provide it in the x-api-key header.'',
                [\<lparr> kv_identity = \<lparr> ci_id = ''missing'', ci_hint = None, ci_material = None \<rparr>, kv_auth = ''api_key'',
                   kv_reason = ''No API key provided'' \<rparr>]))
      | Some k \<Rightarrow>
          (case valid_local_key (an_rows env) k of
             None \<Rightarrow>
               (Denied 401 ''authentication_error'' ''Invalid API key'',
                if attempted then []
                else [\<lparr> kv_identity = (case (if an_standalone env then find_inactive_api_key_id (an_rows env) k else None) of
                           Some (c # i) \<Rightarrow> resolved_identity sha256 k (c # i) | _ \<Rightarrow> identity_of sha256 k),
                        kv_auth = ''api_key'', kv_reason = ''Invalid API key provided'' \<rparr>])
           | Some v \<Rightarrow>
               let info = (if an_gateway_standalone env then jset ''email'' (JStr STANDALONE_OWNER_EMAIL) v else v) in
               (Passed \<lparr> ra_unified = None, ra_key = spread info [(''key'', JStr k)], ra_info = info \<rparr>, [])))"

definition detect_auth_type :: "key_request \<Rightarrow> string" where
  "detect_auth_type req =
     (if extract_api_key req \<noteq> None then ''api_key''
      else if truthy (jget (kr_headers req) ''x-amz-date'') \<and> truthy (jget (kr_headers req) ''authorization'') \<and>
          is_aws_sigv4_request (jstring (jget (kr_headers req) ''authorization''))
      then ''aws_credential'' else ''unknown'')"

definition handle_legacy_auth :: "(string \<Rightarrow> string) \<Rightarrow> key_env \<Rightarrow> bool \<Rightarrow> key_request \<Rightarrow> key_outcome \<times> key_event list" where
  "handle_legacy_auth sha256 env attempted req =
     (if detect_auth_type req = ''aws_credential'' then (To_Aws, []) else api_key_auth sha256 env attempted req)"

text \<open>\<open>/Credential=([^/]+)\/([^/]+)\/([^/]+)/\<close>: some occurrence is followed by three non-empty parts.\<close>

fun after_all :: "string \<Rightarrow> string \<Rightarrow> string list" where
  "after_all needle [] = []"
| "after_all needle (c # s) =
     (if prefix needle (c # s) then [drop (length needle) (c # s)] else []) @ after_all needle s"

definition three_parts :: "string \<Rightarrow> bool" where
  "three_parts s = (case split_char CHR ''/'' s of a # b # c # _ \<Rightarrow> a \<noteq> [] \<and> b \<noteq> [] \<and> c \<noteq> [] | _ \<Rightarrow> False)"

definition has_aws_credentials :: "key_request \<Rightarrow> bool" where
  "has_aws_credentials req =
     (case jget (kr_headers req) ''authorization'' of
        JStr h \<Rightarrow> is_aws_sigv4_request (Some h) \<and> list_ex three_parts (after_all ''Credential='' h)
      | _ \<Rightarrow> False)"

text \<open>\<open>/Credential=([^\/]+)/\<close>\<close>

definition credential_of_header :: "string \<Rightarrow> string option" where
  "credential_of_header h =
     (case filter (\<lambda>s. s \<noteq> [] \<and> hd s \<noteq> CHR ''/'') (after_all ''Credential='' h) of
        [] \<Rightarrow> None
      | s # _ \<Rightarrow> Some (takeWhile (\<lambda>c. c \<noteq> CHR ''/'') s))"

definition extract_credential_id :: "(string \<Rightarrow> string) \<Rightarrow> key_request \<Rightarrow> string \<Rightarrow> string option \<Rightarrow> credential_identity" where
  "extract_credential_id sha256 req auth refused =
     (if auth = ''api_key'' then
        (case (extract_api_key req, refused) of
           (Some k, Some (c # i)) \<Rightarrow> resolved_identity sha256 k (c # i)
         | (Some k, _) \<Rightarrow> identity_of sha256 k
         | (None, _) \<Rightarrow> identity_of sha256 ''unknown'')
      else if auth = ''aws_credential'' then
        (case jget (kr_headers req) ''authorization'' of
           JStr h \<Rightarrow>
             (if is_aws_sigv4_request (Some h)
              then identity_of sha256 (case credential_of_header h of Some a \<Rightarrow> a | None \<Rightarrow> ''unknown'')
              else identity_of sha256 ''unknown'')
         | _ \<Rightarrow> identity_of sha256 ''unknown'')
      else identity_of sha256 ''unknown'')"

definition unified_token_auth ::
  "cipher \<Rightarrow> (string \<Rightarrow> string) \<Rightarrow> cache_config \<Rightarrow> key_env \<Rightarrow> int \<Rightarrow> key_request \<Rightarrow> local_tier \<times> shared_tier \<Rightarrow>
   (local_tier \<times> shared_tier) \<times> (key_outcome \<times> key_event list) \<times> stored" where
  "unified_token_auth cp sha256 cfg env now req tiers =
     (if \<not> an_enabled env then (tiers, handle_legacy_auth sha256 env False req, None)
      else
        let auth = detect_auth_type req;
            (tiers1, result, stored) =
              (case extract_api_key req of
                 Some k \<Rightarrow> (let (t, r, s) = validate_api_key cp cfg env now k tiers in (t, Some r, s))
               | None \<Rightarrow> (tiers, None, None))
        in if auth = ''aws_credential'' \<and> has_aws_credentials req then (tiers, (To_Aws, []), None)
           else case result of
             Some (Key_Valid data source) \<Rightarrow>
               (tiers1,
                (Passed \<lparr> ra_unified = Some True,
                   ra_key = spread data [(''key'', case extract_api_key req of Some k \<Rightarrow> JStr k | None \<Rightarrow> JNull)],
                   ra_info = spread data [(''active'', JBool True)] \<rparr>, []), stored)
           | _ \<Rightarrow>
               let (code, message, refused) =
                     (case result of Some (Key_Invalid c m i) \<Rightarrow> (c, m, i) | _ \<Rightarrow> (''auth_failed'', ''Authentication failed'', None));
                   events = (if auth = ''unknown'' then []
                     else [\<lparr> kv_identity = extract_credential_id sha256 req auth refused, kv_auth = auth, kv_reason = message \<rparr>])
               in if an_fallback env
                  then let (outcome, more_events) = handle_legacy_auth sha256 env (auth \<noteq> ''unknown'') req
                       in (tiers1, (outcome, events @ more_events), stored)
                  else (tiers1, (Denied 401 code message, events), stored))"

section \<open>In front of a service\<close>

record service_options =
  so_require :: bool
  so_unified :: bool
  so_legacy :: bool

definition service_auth :: "service_options \<Rightarrow> bool \<Rightarrow> request_auth \<Rightarrow> bool" where
  "service_auth opts aws_auth a =
     (if \<not> so_require opts then True
      else case (if so_unified opts then ra_unified a else None) of
        Some v \<Rightarrow> v
      | None \<Rightarrow> so_legacy opts \<and> (truthy (ra_key a) \<and> truthy (jget (ra_info a) ''active'') \<or> aws_auth))"

end
