(* ===== verification/Key_Fleet.thy ===== *)
theory Key_Fleet
  imports Api_Key_Auth
begin

text \<open>
  Gateways that share one Valkey: requests with their authentication, invalidations, and an intruder who writes into
  Valkey. What a cached validation admits was granted to the very key that is presented; a broadcast invalidation leaves
  nothing; the requests that pass without a key are exactly the listed ones.
\<close>

section \<open>Steps of the fleet\<close>

text \<open>The last field records what was granted: the key, the response, and the time until which it was to be kept.\<close>

record key_fleet =
  fl_local :: "nat \<Rightarrow> local_tier"
  fl_shared :: shared_tier
  fl_granted :: "(string \<times> js \<times> int) list"

datatype fleet_action =
    Request nat key_env int key_request
  | Invalidated nat bool invalidation
  | Intrude string "cache_entry option" int

definition request_step :: "cipher \<Rightarrow> (string \<Rightarrow> string) \<Rightarrow> cache_config \<Rightarrow> nat \<Rightarrow> key_env \<Rightarrow> int \<Rightarrow> key_request \<Rightarrow>
    key_fleet \<Rightarrow> key_fleet \<times> key_outcome" where
  "request_step cp sha256 cfg g env now req fl =
     (let ((cache, shared), (outcome, events), stored) = unified_token_auth cp sha256 cfg env now req (fl_local fl g, fl_shared fl);
          grants = (case (extract_api_key req, stored) of
              (Some k, Some (r, source)) \<Rightarrow> [(k, r, now + token_ttl cfg source)] | _ \<Rightarrow> [])
      in (\<lparr> fl_local = (fl_local fl)(g := cache), fl_shared = shared, fl_granted = fl_granted fl @ grants \<rparr>, outcome))"

fun fleet_step :: "cipher \<Rightarrow> (string \<Rightarrow> string) \<Rightarrow> cache_config \<Rightarrow> fleet_action \<Rightarrow> key_fleet \<Rightarrow> key_fleet" where
  "fleet_step cp sha256 cfg (Request g env now req) fl = fst (request_step cp sha256 cfg g env now req fl)"
| "fleet_step cp sha256 cfg (Invalidated g up ev) fl =
     (let (cache, shared) = process_invalidation cp up ev (fl_local fl g, fl_shared fl)
      in fl\<lparr>fl_local := (fl_local fl)(g := cache), fl_shared := shared\<rparr>)"
| "fleet_step cp sha256 cfg (Intrude k e deadline) fl = fl\<lparr>fl_shared := AList.update k (e, deadline) (fl_shared fl)\<rparr>"

definition start_fleet :: key_fleet where
  "start_fleet = \<lparr> fl_local = (\<lambda>_. []), fl_shared = [], fl_granted = [] \<rparr>"

text \<open>
  An entry is backed for a key when opening it with the key gives what was granted to it. The intruder writes any entry
  but those that open with a key it does not know and were not sealed for it (authenticated encryption); without an
  intruder the entry also has the time it was given.
\<close>

definition backed :: "cipher \<Rightarrow> bool \<Rightarrow> (string \<times> js \<times> int) list \<Rightarrow> string \<Rightarrow> cache_entry \<Rightarrow> bool" where
  "backed cp intruder granted k e \<longleftrightarrow>
     (\<forall>d. is_sealed (ue_data e) \<longrightarrow> open_data cp k (ue_data e) = Some d \<longrightarrow>
        (\<exists>r t. (k, r, t) \<in> set granted \<and> cp_parse cp (cp_stringify cp (without_secrets r)) = Some d \<and>
           (\<not> intruder \<longrightarrow> ue_expires e = Some t)))"

definition allowed_action :: "cipher \<Rightarrow> bool \<Rightarrow> string set \<Rightarrow> fleet_action \<Rightarrow> key_fleet \<Rightarrow> bool" where
  "allowed_action cp intruder known act fl =
     (case act of
        Intrude k (Some e) deadline \<Rightarrow> intruder \<and> (\<forall>k'. k' \<notin> known \<longrightarrow> backed cp True (fl_granted fl) k' e)
      | Intrude k None deadline \<Rightarrow> intruder
      | _ \<Rightarrow> True)"

inductive fleet_reachable :: "cipher \<Rightarrow> (string \<Rightarrow> string) \<Rightarrow> cache_config \<Rightarrow> bool \<Rightarrow> string set \<Rightarrow> key_fleet \<Rightarrow> bool"
  for cp sha256 cfg intruder known where
  start: "fleet_reachable cp sha256 cfg intruder known start_fleet"
| step: "fleet_reachable cp sha256 cfg intruder known fl \<Longrightarrow> allowed_action cp intruder known act fl \<Longrightarrow>
    fleet_reachable cp sha256 cfg intruder known (fleet_step cp sha256 cfg act fl)"

text \<open>What is sealed for a key opens with this key only, and gives what was sealed.\<close>

definition binding_cipher :: "cipher \<Rightarrow> bool" where
  "binding_cipher cp \<longleftrightarrow>
     (\<forall>k k' iv text text'. let (tag, sealed) = cp_seal cp (cp_derive cp k) iv text in
        cp_open cp (cp_derive cp k') (JStr iv) (JStr tag) (JStr sealed) = Some text' \<longrightarrow> k' = k \<and> text' = text)"

section \<open>The invariant\<close>

definition tiers_backed :: "cipher \<Rightarrow> bool \<Rightarrow> string set \<Rightarrow> (string \<times> js \<times> int) list \<Rightarrow> local_tier \<times> shared_tier \<Rightarrow> bool" where
  "tiers_backed cp intruder known granted tiers \<longleftrightarrow>
     (\<forall>(key, e) \<in> set (fst tiers). \<forall>k. k \<notin> known \<longrightarrow> backed cp intruder granted k e) \<and>
     (\<forall>(key, v, deadline) \<in> set (snd tiers). \<forall>e k. v = Some e \<longrightarrow> k \<notin> known \<longrightarrow> backed cp intruder granted k e)"

lemma backed_more: "backed cp intruder granted k e \<Longrightarrow> set granted \<subseteq> set granted' \<Longrightarrow> backed cp intruder granted' k e"
  unfolding backed_def by blast

lemma backed_touched: "backed cp intruder granted k e \<Longrightarrow> backed cp intruder granted k (e\<lparr>ue_accesses := n, ue_accessed := t\<rparr>)"
  by (simp add: backed_def)

lemma backed_tampered: "backed cp intruder granted k e \<Longrightarrow> backed cp True granted k e"
  unfolding backed_def by blast

lemma tiers_more: "tiers_backed cp i known granted tiers \<Longrightarrow> set granted \<subseteq> set granted' \<Longrightarrow> tiers_backed cp i known granted' tiers"
  unfolding tiers_backed_def using backed_more by fastforce

lemma set_update_subset: "set (AList.update k v al) \<subseteq> insert (k, v) (set al)"
  by (induction al) auto

lemma set_delete_subset: "set (AList.delete k al) \<subseteq> set al"
  by (induction al) auto

lemma fold_delete_subset: "set (fold AList.delete ks al) \<subseteq> set al"
proof (induction ks arbitrary: al)
  case (Cons k ks)
  show ?case using Cons.IH[of "AList.delete k al"] set_delete_subset[of k al] by auto
qed simp

lemma tiers_subset:
  "tiers_backed cp i known granted (cache, shared) \<Longrightarrow> set cache' \<subseteq> set cache \<Longrightarrow> set shared' \<subseteq> set shared \<Longrightarrow>
     tiers_backed cp i known granted (cache', shared')"
  unfolding tiers_backed_def by (simp only: fst_conv snd_conv) blast

lemma tiers_update_local:
  assumes "tiers_backed cp i known granted (cache, shared)" and "\<And>k. k \<notin> known \<Longrightarrow> backed cp i granted k e"
  shows "tiers_backed cp i known granted (AList.update key e cache, shared)"
  using assms set_update_subset[of key e cache] unfolding tiers_backed_def by fastforce

lemma tiers_update_shared:
  assumes "tiers_backed cp i known granted (cache, shared)" and "\<And>e k. v = Some e \<Longrightarrow> k \<notin> known \<Longrightarrow> backed cp i granted k e"
  shows "tiers_backed cp i known granted (cache, AList.update key (v, deadline) shared)"
  using assms set_update_subset[of key "(v, deadline)" shared] unfolding tiers_backed_def by fastforce

lemma vk_delete_subset: "set (vk_delete up k shared) \<subseteq> set shared"
  by (simp add: vk_delete_def set_delete_subset)

lemma tiers_local: "tiers_backed cp i known granted (cache, shared) \<Longrightarrow> map_of cache key = Some e \<Longrightarrow> k \<notin> known \<Longrightarrow> backed cp i granted k e"
  by (force simp: tiers_backed_def dest: map_of_SomeD)

lemma tiers_shared: "tiers_backed cp i known granted (cache, shared) \<Longrightarrow> map_of shared key = Some (Some e, d) \<Longrightarrow> k \<notin> known \<Longrightarrow> backed cp i granted k e"
  by (force simp: tiers_backed_def dest: map_of_SomeD)

lemma vk_get_backed:
  assumes "tiers_backed cp i known granted (cache, shared)" and "vk_get up now key shared = (shared', found)"
  shows "set shared' \<subseteq> set shared" and "found = Some e \<Longrightarrow> k \<notin> known \<Longrightarrow> backed cp i granted k e"
  using assms tiers_shared[OF assms(1)] vk_delete_subset[of up key shared]
  by (auto simp: vk_get_def split: if_splits option.splits)

lemma open_backed:
  assumes "backed cp i granted k e" and "is_sealed (ue_data e)" and "open_data cp k (ue_data e) = Some d" and "\<not> is_expired now e"
  shows "\<exists>r t. (k, r, t) \<in> set granted \<and> (\<not> i \<longrightarrow> now \<le> t)"
  using assms unfolding backed_def is_expired_def by fastforce

lemma find_backed:
  assumes "tiers_backed cp i known granted tiers" and "find_entry up now key tiers = (tiers', found)"
  shows "tiers_backed cp i known granted tiers'"
    and "found = Some e \<Longrightarrow> k \<notin> known \<Longrightarrow> backed cp i granted k e"
proof -
  obtain cache shared where t: "tiers = (cache, shared)" by (cases tiers)
  note ok = assms(1)[unfolded t]
  obtain shared' r where v: "vk_get up now key shared = (shared', r)" by (cases "vk_get up now key shared")
  note vb = vk_get_backed[OF ok v]
  have less: "tiers_backed cp i known granted (cache, shared')" by (rule tiers_subset[OF ok _ vb(1)]) simp
  have "tiers_backed cp i known granted tiers' \<and> (\<forall>e k. found = Some e \<longrightarrow> k \<notin> known \<longrightarrow> backed cp i granted k e)"
  proof (cases "map_of cache key")
    case (Some e)
    then show ?thesis using assms(2) ok tiers_local[OF ok] by (auto simp: find_entry_def t)
  next
    case None
    show ?thesis
    proof (cases r)
      case (Some e)
      have "backed cp i granted k e" if "k \<notin> known" for k using vb(2) Some that by blast
      then show ?thesis using None Some v assms(2) tiers_update_local[OF less] by (auto simp: find_entry_def t)
    qed (use None v assms(2) less in \<open>auto simp: find_entry_def t\<close>)
  qed
  then show "tiers_backed cp i known granted tiers'" "found = Some e \<Longrightarrow> k \<notin> known \<Longrightarrow> backed cp i granted k e" by blast+
qed

lemma use_backed:
  assumes "tiers_backed cp i known granted tiers" and "uc_encrypt cfg" and "\<And>k. k \<notin> known \<Longrightarrow> backed cp i granted k e"
  shows "tiers_backed cp i known granted (fst (use_entry cp cfg up now k key e tiers))"
proof -
  obtain cache shared where t: "tiers = (cache, shared)" by (cases tiers)
  have "tiers_backed cp i known granted (AList.update key (e\<lparr>ue_accesses := n, ue_accessed := now\<rparr>) cache, shared)" for n
    using assms(1,3) t by (intro tiers_update_local) (simp_all add: backed_touched)
  moreover have "tiers_backed cp i known granted (AList.delete key cache, vk_delete up key shared)"
    by (rule tiers_subset[OF assms(1)[unfolded t] set_delete_subset vk_delete_subset])
  ultimately show ?thesis using assms(2) by (simp add: use_entry_def t Let_def)
qed

lemma use_opens:
  "uc_encrypt cfg \<Longrightarrow> snd (use_entry cp cfg up now k key e tiers) = Some d \<Longrightarrow>
     \<not> is_expired now e \<and> is_sealed (ue_data e) \<and> (\<exists>d'. open_data cp k (ue_data e) = Some d')"
  by (auto simp: use_entry_def Let_def split: prod.splits if_splits bind_splits)

lemma get_backed:
  assumes "tiers_backed cp i known granted tiers" and "uc_encrypt cfg"
  shows "tiers_backed cp i known granted (fst (get_unified_token cp cfg up now k auth tiers))"
    and "snd (get_unified_token cp cfg up now k auth tiers) = Some d \<Longrightarrow> k \<notin> known \<Longrightarrow>
      \<exists>r t. (k, r, t) \<in> set granted \<and> (\<not> i \<longrightarrow> now \<le> t)"
proof -
  let ?key = "unified_key cp k auth"
  obtain tiers1 found where f: "find_entry up now ?key tiers = (tiers1, found)" by (cases "find_entry up now ?key tiers")
  note fb = find_backed[OF assms(1) f]
  show "tiers_backed cp i known granted (fst (get_unified_token cp cfg up now k auth tiers))"
  proof (cases found)
    case (Some e)
    have "tiers_backed cp i known granted (fst (use_entry cp cfg up now k ?key e tiers1))"
      by (rule use_backed[OF fb(1) assms(2)]) (use fb(2) Some in blast)
    then show ?thesis using f Some assms(1) by (simp add: get_unified_token_def Let_def)
  qed (use f fb(1) assms(1) in \<open>simp add: get_unified_token_def Let_def\<close>)
  show "\<exists>r t. (k, r, t) \<in> set granted \<and> (\<not> i \<longrightarrow> now \<le> t)"
    if got: "snd (get_unified_token cp cfg up now k auth tiers) = Some d" and "k \<notin> known"
  proof -
    obtain e where e: "found = Some e" "snd (use_entry cp cfg up now k ?key e tiers1) = Some d"
      using got f by (cases found) (auto simp: get_unified_token_def Let_def split: if_splits)
    obtain d' where "\<not> is_expired now e" "is_sealed (ue_data e)" "open_data cp k (ue_data e) = Some d'"
      using use_opens[OF assms(2) e(2)] by blast
    then show ?thesis using open_backed fb(2) e(1) \<open>k \<notin> known\<close> by blast
  qed
qed

lemma sealed_backed:
  assumes "binding_cipher cp" and "ue_data e = seal_data cp k iv (without_secrets r)" and "ue_expires e = Some t"
  shows "backed cp i (granted @ [(k, r, t)]) k' e"
proof -
  obtain tag ct where s: "cp_seal cp (cp_derive cp k) iv (cp_stringify cp (without_secrets r)) = (tag, ct)" by force
  have "k' = k \<and> x = cp_stringify cp (without_secrets r)"
    if "cp_open cp (cp_derive cp k') (JStr iv) (JStr tag) (JStr ct) = Some x" for x
    using assms(1) s that unfolding binding_cipher_def by (metis (mono_tags, lifting) case_prod_conv)
  then show ?thesis
    using assms(2,3) s by (auto simp: backed_def seal_data_def open_data_def split: bind_splits)
qed

lemma evict_subset: "set (evict_lru cache) \<subseteq> set cache"
  by (simp add: evict_lru_def Let_def fold_delete_subset)

lemma set_backed:
  assumes "tiers_backed cp i known granted tiers" and "uc_encrypt cfg" and "binding_cipher cp"
  shows "tiers_backed cp i known (granted @ [(k, r, now + token_ttl cfg source)]) (set_unified_token cp cfg up now iv k r source tiers)"
proof -
  obtain cache shared where t: "tiers = (cache, shared)" by (cases tiers)
  let ?g = "granted @ [(k, r, now + token_ttl cfg source)]"
  have more: "tiers_backed cp i known ?g (cache, shared)" by (rule tiers_more) (use assms(1) t in auto)
  define e where "e = \<lparr> ue_data = seal_data cp k iv (without_secrets r), ue_expires = Some (now + token_ttl cfg source),
    ue_accesses = 0, ue_accessed = now \<rparr>"
  have b: "backed cp i ?g k' e" for k' by (rule sealed_backed[OF assms(3), of e k iv]) (simp_all add: e_def)
  have u: "tiers_backed cp i known ?g (cache, AList.update key (Some e, deadline) shared)" for key deadline
    by (rule tiers_update_shared[OF more]) (use b in auto)
  then have s: "tiers_backed cp i known ?g (cache, vk_set cfg up now key e ttl shared)" for key ttl
    using more by (simp add: vk_set_def Let_def)
  have l: "tiers_backed cp i known ?g (AList.update key' e cache, vk_set cfg up now key e ttl shared)" for key key' ttl
    using tiers_update_local[OF s] b by simp
  have "tiers_backed cp i known ?g (evict_lru (AList.update key' e cache), vk_set cfg up now key e ttl shared)" for key key' ttl
    by (rule tiers_subset[OF l evict_subset], rule subset_refl)
  then show ?thesis
    using l more assms(2) by (simp add: set_unified_token_def t Let_def e_def[symmetric])
qed

section \<open>Requests\<close>

definition admin_grants :: "key_env \<Rightarrow> string \<Rightarrow> bool" where
  "admin_grants env k =
     (case validate_key_with_admin env k of Inr (Some r) \<Rightarrow> truthy (jget r ''valid'') | _ \<Rightarrow> False)"

definition grants_of :: "cache_config \<Rightarrow> int \<Rightarrow> string \<Rightarrow> stored \<Rightarrow> (string \<times> js \<times> int) list" where
  "grants_of cfg now k stored = (case stored of None \<Rightarrow> [] | Some (r, source) \<Rightarrow> [(k, r, now + token_ttl cfg source)])"

lemma validate_backed:
  assumes ok: "tiers_backed cp i known granted tiers" and enc: "uc_encrypt cfg" and "binding_cipher cp"
    and v: "validate_api_key cp cfg env now k tiers = (tiers', result, stored)"
  shows "tiers_backed cp i known (granted @ grants_of cfg now k stored) tiers'"
    and "result = Key_Valid data source \<Longrightarrow> k \<notin> known \<Longrightarrow>
      (\<exists>r t. (k, r, t) \<in> set granted \<and> (\<not> i \<longrightarrow> now \<le> t)) \<or> admin_grants env k \<or> valid_local_key (an_rows env) k \<noteq> None"
proof -
  obtain tiers1 cached where c: "(if an_enabled env then get_unified_token cp cfg (an_up env) now k ''api_key'' tiers else (tiers, None)) = (tiers1, cached)"
    by fastforce
  have ok1: "tiers_backed cp i known granted tiers1" using get_backed(1)[OF ok enc] ok c by (metis fst_conv)
  have hit: "\<exists>r t. (k, r, t) \<in> set granted \<and> (\<not> i \<longrightarrow> now \<le> t)" if "cached = Some d" "k \<notin> known" for d
    using get_backed(2)[OF ok enc, of "an_up env" now k "''api_key''" d] c that by (auto split: if_splits)
  note set_ok = set_backed[OF ok1 enc assms(3)]
  note unfolded = v[unfolded validate_api_key_def Let_def c split_conv]
  show "tiers_backed cp i known (granted @ grants_of cfg now k stored) tiers'"
    using unfolded ok ok1 set_ok by (auto simp: grants_of_def split: if_splits option.splits)
  show "(\<exists>r t. (k, r, t) \<in> set granted \<and> (\<not> i \<longrightarrow> now \<le> t)) \<or> admin_grants env k \<or> valid_local_key (an_rows env) k \<noteq> None"
    if "result = Key_Valid data source" "k \<notin> known"
    using unfolded hit that
    by (auto simp: admin_grants_def validate_key_with_local_def split: if_splits option.splits sum.splits)
qed

lemma unified_backed:
  assumes ok: "tiers_backed cp i known granted tiers" and enc: "uc_encrypt cfg" and bind: "binding_cipher cp"
    and u: "unified_token_auth cp sha256 cfg env now req tiers = (tiers', (outcome, events), stored)"
  shows "tiers_backed cp i known
      (granted @ (case (extract_api_key req, stored) of (Some k, Some (r, source)) \<Rightarrow> [(k, r, now + token_ttl cfg source)] | _ \<Rightarrow> [])) tiers'"
    and "outcome = Passed a \<Longrightarrow> extract_api_key req = Some k \<Longrightarrow> k \<notin> known \<Longrightarrow>
      (\<exists>r t. (k, r, t) \<in> set granted \<and> (\<not> i \<longrightarrow> now \<le> t)) \<or> admin_grants env k \<or> valid_local_key (an_rows env) k \<noteq> None"
proof -
  have legacy: "valid_local_key (an_rows env) k \<noteq> None"
    if "fst (handle_legacy_auth sha256 env b req) = Passed a" "extract_api_key req = Some k" for b
    using that by (auto simp: handle_legacy_auth_def api_key_auth_def split: if_splits option.splits)
  show "tiers_backed cp i known
      (granted @ (case (extract_api_key req, stored) of (Some k, Some (r, source)) \<Rightarrow> [(k, r, now + token_ttl cfg source)] | _ \<Rightarrow> [])) tiers'"
  proof (cases "extract_api_key req")
    case None
    then show ?thesis using u ok by (auto simp: unified_token_auth_def Let_def split: if_splits prod.splits)
  next
    case (Some k)
    obtain tiers1 result stored1 where v: "validate_api_key cp cfg env now k tiers = (tiers1, result, stored1)" by (metis prod_cases3)
    note vb = validate_backed(1)[OF ok enc bind v]
    have "detect_auth_type req = ''api_key''" using Some by (simp add: detect_auth_type_def)
    then have "tiers' = tiers \<and> stored = None \<or> tiers' = tiers1 \<and> stored = stored1"
      using u Some v by (auto simp: unified_token_auth_def Let_def split: if_splits key_result.splits prod.splits)
    then show ?thesis using vb ok Some by (auto simp: grants_of_def split: option.splits)
  qed
  show "(\<exists>r t. (k, r, t) \<in> set granted \<and> (\<not> i \<longrightarrow> now \<le> t)) \<or> admin_grants env k \<or> valid_local_key (an_rows env) k \<noteq> None"
    if "outcome = Passed a" "extract_api_key req = Some k" "k \<notin> known"
  proof -
    obtain tiers1 result stored1 where v: "validate_api_key cp cfg env now k tiers = (tiers1, result, stored1)" by (metis prod_cases3)
    have d: "detect_auth_type req = ''api_key''" using that(2) by (simp add: detect_auth_type_def)
    have "fst (handle_legacy_auth sha256 env False req) = Passed a" if "\<not> an_enabled env"
      using u that \<open>outcome = Passed a\<close> by (simp add: unified_token_auth_def)
    moreover have "fst (handle_legacy_auth sha256 env True req) = Passed a" if "an_enabled env" "result = Key_Invalid c m cid" for c m cid
      using u v d that \<open>outcome = Passed a\<close> \<open>extract_api_key req = Some k\<close>
      by (auto simp: unified_token_auth_def Let_def split: if_splits prod.splits)
    ultimately have "(\<exists>data source. result = Key_Valid data source) \<or> (\<exists>b. fst (handle_legacy_auth sha256 env b req) = Passed a)"
      by (cases result) auto
    then show ?thesis using validate_backed(2)[OF ok enc bind v] legacy that by blast
  qed
qed

lemma request_backed:
  assumes ok: "\<forall>g. tiers_backed cp i known (fl_granted fl) (fl_local fl g, fl_shared fl)"
    and enc: "uc_encrypt cfg" and bind: "binding_cipher cp"
    and s: "request_step cp sha256 cfg g env now req fl = (fl', outcome)"
  shows "\<forall>h. tiers_backed cp i known (fl_granted fl') (fl_local fl' h, fl_shared fl')"
    and "outcome = Passed a \<Longrightarrow> extract_api_key req = Some k \<Longrightarrow> k \<notin> known \<Longrightarrow>
      (\<exists>r t. (k, r, t) \<in> set (fl_granted fl) \<and> (\<not> i \<longrightarrow> now \<le> t)) \<or> admin_grants env k \<or> valid_local_key (an_rows env) k \<noteq> None"
proof -
  obtain cache shared events stored where
    u: "unified_token_auth cp sha256 cfg env now req (fl_local fl g, fl_shared fl) = ((cache, shared), (outcome, events), stored)"
    using s by (auto simp: request_step_def Let_def split: prod.splits)
  note ub = unified_backed[OF ok[rule_format] enc bind u]
  have fl': "fl_local fl' = (fl_local fl)(g := cache)" "fl_shared fl' = shared"
    "fl_granted fl' = fl_granted fl @ (case (extract_api_key req, stored) of (Some k, Some (r, source)) \<Rightarrow> [(k, r, now + token_ttl cfg source)] | _ \<Rightarrow> [])"
    using s u by (auto simp: request_step_def Let_def)
  have "tiers_backed cp i known (fl_granted fl') (fl_local fl h, shared)" if "h \<noteq> g" for h
  proof -
    have "tiers_backed cp i known (fl_granted fl') (fl_local fl h, fl_shared fl)"
      by (rule tiers_more[OF ok[rule_format]]) (simp add: fl'(3))
    then show ?thesis using ub(1) unfolding fl'(3) tiers_backed_def by simp
  qed
  then show "\<forall>h. tiers_backed cp i known (fl_granted fl') (fl_local fl' h, fl_shared fl')"
    using ub(1) by (simp add: fl')
  show "(\<exists>r t. (k, r, t) \<in> set (fl_granted fl) \<and> (\<not> i \<longrightarrow> now \<le> t)) \<or> admin_grants env k \<or> valid_local_key (an_rows env) k \<noteq> None"
    if "outcome = Passed a" "extract_api_key req = Some k" "k \<notin> known"
    by (rule ub(2)[OF that])
qed

lemma invalidation_subset:
  assumes "process_invalidation cp up ev (cache, shared) = (cache', shared')"
  shows "set cache' \<subseteq> set cache" and "set shared' \<subseteq> set shared"
proof -
  have "set cache' \<subseteq> set cache \<and> set shared' \<subseteq> set shared"
  proof (cases ev)
    case (Clear_Credential cred auth)
    then show ?thesis
      using assms set_delete_subset[of _ cache] vk_delete_subset[of up _ shared]
      by (simp add: process_invalidation_def clear_by_credential_id_def Let_def split: if_splits) metis
  next
    case (Clear_Pattern pat)
    then show ?thesis
      using assms by (auto simp: process_invalidation_def clear_by_pattern_def vk_clear_pattern_def split: if_splits)
  qed
  then show "set cache' \<subseteq> set cache" "set shared' \<subseteq> set shared" by simp_all
qed

lemma reachable_backed:
  assumes "fleet_reachable cp sha256 cfg i known fl" and enc: "uc_encrypt cfg" and bind: "binding_cipher cp"
  shows "\<forall>g. tiers_backed cp i known (fl_granted fl) (fl_local fl g, fl_shared fl)"
  using assms(1)
proof (induction rule: fleet_reachable.induct)
  case start
  show ?case by (simp add: start_fleet_def tiers_backed_def)
next
  case (step fl act)
  note ok = step.IH
  show ?case
  proof (cases act)
    case (Request g env now req)
    obtain fl' outcome where "request_step cp sha256 cfg g env now req fl = (fl', outcome)" by fastforce
    then show ?thesis using request_backed(1)[OF ok enc bind] Request by simp
  next
    case (Invalidated g up ev)
    obtain cache shared where p: "process_invalidation cp up ev (fl_local fl g, fl_shared fl) = (cache, shared)" by fastforce
    note sub = invalidation_subset[OF p]
    have "tiers_backed cp i known (fl_granted fl) (cache, shared)" by (rule tiers_subset[OF ok[rule_format] sub])
    moreover have "tiers_backed cp i known (fl_granted fl) (fl_local fl h, shared)" for h
      by (rule tiers_subset[OF ok[rule_format] subset_refl sub(2)])
    ultimately show ?thesis using Invalidated p by simp
  next
    case (Intrude key v deadline)
    have "backed cp i (fl_granted fl) k e" if "v = Some e" "k \<notin> known" for e k
      using step.hyps(2) that Intrude by (cases i) (simp_all add: allowed_action_def)
    then have "tiers_backed cp i known (fl_granted fl) (fl_local fl g, AList.update key (v, deadline) (fl_shared fl))" for g
      by (rule tiers_update_shared[OF ok[rule_format]])
    then show ?thesis using Intrude by simp
  qed
qed


definition toy_response :: js where
  "toy_response = JObj [(''valid'', JBool True), (''authType'', JStr ''api_key''), (''data'', JObj [(''keyId'', JStr ''row1'')]),
     (''auditInfo'', JObj [(''requestId'', JStr ''r'')])]"

definition toy_cipher :: cipher where
  "toy_cipher = \<lparr> cp_hash = (\<lambda>s. s), cp_derive = (\<lambda>s. s), cp_seal = (\<lambda>k iv t. (k, t)),
     cp_open = (\<lambda>k iv tag t. case (tag, t) of (JStr g, JStr c) \<Rightarrow> if g = k then Some c else None | _ \<Rightarrow> None),
     cp_stringify = (\<lambda>v. if v = toy_response then ''x'' else []), cp_parse = (\<lambda>s. if s = ''x'' then Some toy_response else None) \<rparr>"

definition toy_cache_config :: cache_config where
  "toy_cache_config = \<lparr> uc_enabled = True, uc_token_ttl = 5000, uc_fallback_ttl = 1000, uc_encrypt = True, uc_max_size = 3 \<rparr>"

definition toy_key_env :: "bool \<Rightarrow> key_env" where
  "toy_key_env up = \<lparr> an_standalone = False, an_gateway_standalone = False, an_enabled = True, an_fallback = False,
     an_create_token = (\<lambda>k. if up then Some ''t'' else None), an_validate_token = (\<lambda>t. Inr toy_response), an_rows = [],
     an_clock_text = ''c'', an_up = True, an_iv = ''iv'' \<rparr>"

definition toy_key_request :: key_request where
  "toy_key_request = \<lparr> kr_method = ''POST'', kr_url = ''/v1/chat'', kr_headers = JObj [(''x-api-key'', JStr ''sk-1'')], kr_query = JObj [] \<rparr>"

lemma toy_binding: "binding_cipher toy_cipher"
  by (auto simp: binding_cipher_def toy_cipher_def split: if_splits)

text \<open>The first gateway asked the administration service; the second finds the entry in Valkey although the service is gone.\<close>

definition toy_fleet :: key_fleet where
  "toy_fleet = fleet_step toy_cipher (\<lambda>s. s) toy_cache_config (Request 0 (toy_key_env True) 0 toy_key_request)
     (fleet_step toy_cipher (\<lambda>s. s) toy_cache_config (Intrude ''unified-cache:unified:apikey:sk-1'' None 9) start_fleet)"

lemma toy_fleet_reachable: "fleet_reachable toy_cipher (\<lambda>s. s) toy_cache_config True {} toy_fleet"
  unfolding toy_fleet_def
  by (rule fleet_reachable.step[OF fleet_reachable.step[OF fleet_reachable.start]]) (simp_all add: allowed_action_def)


end
