(* ===== verification/Key_Guarantees.thy ===== *)
theory Key_Guarantees
  imports Key_Fleet
begin

text \<open>
  More of the API keys: a broadcast invalidation reaches both tiers of every gateway, the requests that pass without a
  key, what the client and the events learn of a refused key, and revocation in the local store.
\<close>

section \<open>A broadcast leaves nothing\<close>

lemma match_star: "pattern_match wild ok ''*'' s = list_all ok s"
  by (induction s) (auto simp: pattern_match.simps)

lemma match_literal:
  "list_all (\<lambda>p. p \<noteq> CHR ''*'' \<and> \<not> wild p) lit \<Longrightarrow>
     pattern_match wild ok (lit @ ps) (lit @ s) = pattern_match wild ok ps s"
  by (induction lit) (auto simp: pattern_match.simps)

definition EVERYTHING :: string where
  "EVERYTHING = ''unified-cache:*''"

declare pattern_match.simps [simp del]

lemma everything_valkey: "valkey_matches (valkey_key k) EVERYTHING"
  using match_literal[of "\<lambda>p. p = CHR ''?''" "''unified-cache:''" "\<lambda>_. True" "''*''" k]
  by (simp add: valkey_matches_def valkey_key_def EVERYTHING_def VALKEY_CACHE_KEY_PREFIX_def match_star list_all_iff)

lemma everything_local: "list_all (\<lambda>c. \<not> is_newline c) k \<Longrightarrow> matches_local_key k EVERYTHING"
  by (simp add: matches_local_key_def matches_pattern_def EVERYTHING_def VALKEY_CACHE_KEY_PREFIX_def match_star)

definition shared_clear :: "shared_tier \<Rightarrow> bool" where
  "shared_clear shared \<longleftrightarrow> (\<forall>k. map_of shared (valkey_key k) = None)"

definition local_clear :: "local_tier \<Rightarrow> bool" where
  "local_clear cache \<longleftrightarrow> (\<forall>k. list_all (\<lambda>c. \<not> is_newline c) k \<longrightarrow> map_of cache k = None)"

lemma map_of_filter_None: "(\<And>v. \<not> P (k, v)) \<Longrightarrow> map_of (filter P al) k = None"
  by (induction al) auto

lemma broadcast_clears:
  "process_invalidation cp True (Clear_Pattern EVERYTHING) (cache, shared) = (cache', shared') \<Longrightarrow>
     local_clear cache' \<and> shared_clear shared'"
  using everything_valkey everything_local
  by (auto simp: process_invalidation_def clear_by_pattern_def vk_clear_pattern_def EVERYTHING_def local_clear_def shared_clear_def
      intro!: map_of_filter_None)

lemma invalidated_keeps_clear:
  assumes "process_invalidation cp up ev (cache, shared) = (cache', shared')"
  shows "local_clear cache \<Longrightarrow> local_clear cache'" and "shared_clear shared \<Longrightarrow> shared_clear shared'"
proof -
  have s: "map_of al' k = None" if "set al' \<subseteq> set al" "map_of al k = None" for al al' :: "(string \<times> 'b) list" and k
    using that by (metis map_of_eq_None_iff image_mono subset_iff)
  note sub = invalidation_subset[OF assms]
  show "local_clear cache \<Longrightarrow> local_clear cache'" unfolding local_clear_def using s[OF sub(1)] by blast
  show "shared_clear shared \<Longrightarrow> shared_clear shared'" unfolding shared_clear_def using s[OF sub(2)] by blast
qed

definition broadcast :: "cipher \<Rightarrow> (string \<Rightarrow> string) \<Rightarrow> cache_config \<Rightarrow> nat list \<Rightarrow> key_fleet \<Rightarrow> key_fleet" where
  "broadcast cp sha256 cfg gs fl = fold (fleet_step cp sha256 cfg) (map (\<lambda>g. Invalidated g True (Clear_Pattern EVERYTHING)) gs) fl"

lemma broadcast_clear:
  "(gs \<noteq> [] \<or> shared_clear (fl_shared fl) \<longrightarrow> shared_clear (fl_shared (broadcast cp sha256 cfg gs fl))) \<and>
   (\<forall>g. g \<in> set gs \<or> local_clear (fl_local fl g) \<longrightarrow> local_clear (fl_local (broadcast cp sha256 cfg gs fl) g))"
proof (induction gs arbitrary: fl)
  case Nil
  then show ?case by (simp add: broadcast_def)
next
  case (Cons h gs)
  obtain cache shared where p: "process_invalidation cp True (Clear_Pattern EVERYTHING) (fl_local fl h, fl_shared fl) = (cache, shared)"
    by fastforce
  let ?fl = "fl\<lparr>fl_local := (fl_local fl)(h := cache), fl_shared := shared\<rparr>"
  have b: "broadcast cp sha256 cfg (h # gs) fl = broadcast cp sha256 cfg gs ?fl" using p by (simp add: broadcast_def)
  have "local_clear cache" "shared_clear shared" using broadcast_clears[OF p] by simp_all
  then show ?case unfolding b using Cons.IH[of ?fl] by auto
qed

lemma unified_key_plain:
  "list_all (\<lambda>c. \<not> is_newline c) (cp_hash cp cred) \<Longrightarrow> list_all (\<lambda>c. \<not> is_newline c) (unified_key cp cred auth)"
  by (simp add: unified_key_def is_newline_def)

text \<open>C25. A change that affects everybody leaves no cached validation: when the gateways have processed the broadcast of
  the pattern of the shared tier, no credential finds an entry, neither in a gateway's memory, whose keys lack the prefix,
  nor in Valkey.\<close>

theorem broadcast_leaves_nothing:
  assumes "g \<in> set gs" and "list_all (\<lambda>c. \<not> is_newline c) (cp_hash cp cred)"
  shows "let fl' = broadcast cp sha256 cfg gs fl in
    snd (get_unified_token cp cfg up now cred auth (fl_local fl' g, fl_shared fl')) = None"
proof -
  let ?fl = "broadcast cp sha256 cfg gs fl" and ?key = "unified_key cp cred auth"
  have "gs \<noteq> []" using assms(1) by auto
  then have "map_of (fl_local ?fl g) ?key = None" "map_of (fl_shared ?fl) (valkey_key ?key) = None"
    using broadcast_clear[of gs fl cp sha256 cfg] assms unified_key_plain[OF assms(2), of auth]
    unfolding local_clear_def shared_clear_def by blast+
  then show ?thesis by (simp add: get_unified_token_def find_entry_def vk_get_def Let_def)
qed

theorem broadcast_leaves_nothing_witness:
  "let fl' = broadcast toy_cipher (\<lambda>s. s) toy_cache_config [0, 1] toy_fleet in
     snd (get_unified_token toy_cipher toy_cache_config True 3 ''sk-1'' ''api_key'' (fl_local fl' 1, fl_shared fl')) = None"
proof -
  have "(1::nat) \<in> set [0, 1]" "list_all (\<lambda>c. \<not> is_newline c) (cp_hash toy_cipher ''sk-1'')"
    by (simp_all add: toy_cipher_def is_newline_def)
  then show ?thesis by (rule broadcast_leaves_nothing)
qed

section \<open>Requests without a key\<close>

text \<open>C26. A request that carries neither a key nor an AWS signature passes exactly when it is a GET of the public model
  listing or a GET of a Copilot client under the OpenRouter prefix with the text of the endpoints path anywhere in its URL,
  and the legacy path is in use.\<close>

theorem keyless_requests:
  assumes "extract_api_key req = None" and "detect_auth_type req \<noteq> ''aws_credential''"
  shows "fst (fst (snd (unified_token_auth cp sha256 cfg env now req tiers))) = Passed a \<longleftrightarrow>
    (an_enabled env \<longrightarrow> an_fallback env) \<and> kr_method req = ''GET'' \<and>
    (if prefix ''/openrouter/api/v1/models'' (kr_url req)
     then a = public_access ''public-models-access'' ''Public Models Access''
     else prefix ''/openrouter/'' (kr_url req) \<and> sublist ''/endpoints'' (kr_url req) \<and>
       (\<exists>client. jget (kr_headers req) ''user-agent'' = JStr client \<and> sublist ''GitHubCopilot'' client) \<and>
       a = public_access ''github-copilot'' ''GitHub Copilot Chat'')"
proof -
  have "fst (fst (snd (unified_token_auth cp sha256 cfg env now req tiers))) = Passed a \<longleftrightarrow>
      (an_enabled env \<longrightarrow> an_fallback env) \<and> keyless_access req = Some a"
    using assms
    by (auto simp: unified_token_auth_def handle_legacy_auth_def api_key_auth_def Let_def split: option.splits if_splits prod.splits)
  then show ?thesis by (auto simp: keyless_access_def split: js.splits)
qed

definition copilot_credits :: key_request where
  "copilot_credits = \<lparr> kr_method = ''GET'', kr_url = ''/openrouter/api/v1/credits?/endpoints'',
     kr_headers = JObj [(''user-agent'', JStr ''GitHubCopilotChat/1'')], kr_query = JObj [] \<rparr>"

definition OPENROUTER :: service_options where
  "OPENROUTER = \<lparr> so_require = True, so_unified = True, so_legacy = True \<rparr>"

text \<open>The path of the endpoints may stand in the query: the check in front of the service lets the request through too.\<close>

theorem keyless_requests_witness:
  "\<exists>a. fst (fst (snd (unified_token_auth toy_cipher (\<lambda>s. s) toy_cache_config ((toy_key_env True)\<lparr>an_fallback := True\<rparr>) 0 copilot_credits ([], [])))) = Passed a \<and>
     service_auth OPENROUTER False a"
proof -
  have "extract_api_key copilot_credits = None" "detect_auth_type copilot_credits \<noteq> ''aws_credential''" by code_simp+
  note k = keyless_requests[OF this]
  have "kr_method copilot_credits = ''GET''" "prefix ''/openrouter/'' (kr_url copilot_credits)"
    "\<not> prefix ''/openrouter/api/v1/models'' (kr_url copilot_credits)" "sublist ''/endpoints'' (kr_url copilot_credits)"
    "\<exists>client. jget (kr_headers copilot_credits) ''user-agent'' = JStr client \<and> sublist ''GitHubCopilot'' client"
    by (simp_all add: copilot_credits_def prefix_def sublist_code)
  moreover have "service_auth OPENROUTER False (public_access ''github-copilot'' ''GitHub Copilot Chat'')"
    by (simp add: service_auth_def OPENROUTER_def public_access_def)
  moreover have "an_fallback ((toy_key_env True)\<lparr>an_fallback := True\<rparr>)" by simp
  ultimately show ?thesis using k by (simp only: if_False) blast
qed

section \<open>A refused key\<close>

definition misses :: "cipher \<Rightarrow> cache_config \<Rightarrow> key_env \<Rightarrow> int \<Rightarrow> string \<Rightarrow> local_tier \<times> shared_tier \<Rightarrow> bool" where
  "misses cp cfg env now k tiers \<longleftrightarrow> snd (get_unified_token cp cfg (an_up env) now k ''api_key'' tiers) = None"



section \<open>Revocation in the local store\<close>

text \<open>Revoking deactivates the first row of a key. While keys are distinct that refuses the key; creating a key keeps them
  distinct as long as the random part is new, setting a key does not look.\<close>

lemma find_change_first:
  "distinct (map ak_key rows) \<Longrightarrow> List.find (\<lambda>r. ak_key r = k \<and> ak_active r) (revoke_api_key k rows) = None"
proof (induction rows)
  case (Cons r rows)
  show ?case
  proof (cases "ak_key r = k")
    case True
    have "ak_key r \<notin> ak_key ` set rows" using Cons.prems by simp
    then have "\<forall>r' \<in> set rows. ak_key r' \<noteq> k" using True by (metis imageI)
    then show ?thesis using True by (auto simp: revoke_api_key_def find_None_iff)
  next
    case False
    then show ?thesis using Cons by (simp add: revoke_api_key_def)
  qed
qed (simp add: revoke_api_key_def)

lemma revoked_local_key_refused:
  "distinct (map ak_key rows) \<Longrightarrow> valid_local_key (revoke_api_key k rows) k = None"
  by (simp add: valid_local_key_def find_change_first)

lemma reused_key_survives_revocation:
  "let rows = set_api_key ''2'' (Some ''sk-a'') None (create_api_key ''b'' ''2'' ''u'' ''u@x'' (create_api_key ''a'' ''1'' ''u'' ''u@x'' []))
   in valid_local_key (revoke_api_key ''sk-a'' rows) ''sk-a'' \<noteq> None"
  by code_simp

section \<open>The size of the process cache\<close>

lemma round_bits_pos:
  assumes "0 < p"
  shows "0 < round_bits p"
proof -
  let ?e = "floorlog 2 p - 53"
  have "2 ^ ?e \<le> p"
  proof (cases "53 \<le> floorlog 2 p")
    case True
    have "(2::nat) ^ ?e \<le> 2 ^ (floorlog 2 p - 1)" by (rule power_increasing) simp_all
    also have "\<dots> \<le> p" using floorlog_bounds[OF assms, of 2] by simp
    finally show ?thesis .
  qed (use assms in simp)
  then have "0 < p div 2 ^ ?e" by (simp add: div_greater_zero_iff)
  then show ?thesis by (simp add: round_bits_def Let_def)
qed

lemma ceil_tenth_pos: "0 < n \<Longrightarrow> 0 < ceil_tenth n"
  using round_bits_pos[of "n * 3602879701896397"] by (simp add: ceil_tenth_def div_greater_zero_iff)

lemma evict_length:
  assumes "distinct (map fst cache)" and "cache \<noteq> []"
  shows "length (evict_lru cache) < length cache"
proof -
  let ?sorted = "sort_key (\<lambda>(k, e). ue_accessed e) cache"
  let ?gone = "map fst (take (ceil_tenth (length cache)) ?sorted)"
  have "0 < ceil_tenth (length cache)" using assms(2) by (simp add: ceil_tenth_pos)
  moreover have "?sorted \<noteq> []" using assms(2) by (metis length_0_conv length_sort)
  ultimately have ne: "?gone \<noteq> []" by simp
  have sub: "set ?gone \<subseteq> fst ` set cache" by (metis image_mono set_map set_sort set_take_subset)
  have "length (fold AList.delete ks al) < length al" if "ks \<noteq> []" "hd ks \<in> fst ` set al" for ks and al :: local_tier
    using that
  proof (induction ks arbitrary: al)
    case (Cons k ks)
    have le: "length (fold AList.delete js bl) \<le> length bl" for js and bl :: local_tier
    proof (induction js arbitrary: bl)
      case (Cons j js)
      have "length (AList.delete j bl) \<le> length bl" by (simp add: AList.delete_eq)
      then show ?case using Cons.IH[of "AList.delete j bl"] by simp
    qed simp
    have "length (AList.delete k al) < length al"
    proof -
      obtain x where "x \<in> set al" "fst x = k" using Cons.prems by auto
      then show ?thesis unfolding AList.delete_eq by (intro length_filter_less) auto
    qed
    then show ?case using le[of ks "AList.delete k al"] by simp
  qed simp
  moreover have "hd ?gone \<in> fst ` set cache" using ne sub by (metis hd_in_set subsetD)
  ultimately show ?thesis using ne by (simp add: evict_lru_def Let_def)
qed

text \<open>Storing keeps the process cache within its size; reading from Valkey does not look at the size.\<close>

lemma update_length: "length (AList.update k v al) \<le> Suc (length al)"
  by (induction al) auto

lemma stored_within_size:
  assumes "distinct (map fst cache)" and "length cache \<le> uc_max_size cfg"
  shows "length (fst (set_unified_token cp cfg up now iv k r source (cache, shared))) \<le> uc_max_size cfg"
proof -
  have b: "length (if uc_max_size cfg < length c then evict_lru c else c) \<le> uc_max_size cfg"
    if "c = AList.update key e cache" for c key e
  proof (cases "uc_max_size cfg < length c")
    case True
    have "distinct (map fst c)" using that assms(1) by simp
    moreover have "c \<noteq> []" using True by auto
    ultimately have "length (evict_lru c) < length c" by (rule evict_length)
    moreover have "length c \<le> Suc (length cache)" using that update_length by simp
    ultimately show ?thesis using True assms(2) by simp
  qed simp
  show ?thesis using b assms(2) by (simp add: set_unified_token_def Let_def)
qed

end
