(* ===== verification/Model_Cost.thy ===== *)
theory Model_Cost
  imports Model_Catalogs Aws_Signature Js_Number
begin

text \<open>
  What usage costs (administration service): the price of a model in force at an instant and the costs of its tokens, with
  tiers (\<open>services/modelCostService.ts\<close>), the SAP-native figures (\<open>sapCapacityService.ts\<close>), the terms of a tenant
  (\<open>sapTenants.ts\<close>), the list price of a Connection model (\<open>externalUsagePricing.ts\<close>) and the ids a price may stand
  under (\<open>pricingTwins.ts\<close>).

  Amounts are rationals; an instant is the milliseconds since the epoch. A table is the list of its rows, the
  environment and the configuration file are arguments, and so is \<open>JSON.parse\<close>. Of rows with one start the first counts. The queries
  are those of PostgreSQL, which compares whole instants; SQLite's \<open>datetime\<close> drops the milliseconds.
\<close>

section \<open>Numbers\<close>

definition amount_or_zero :: "rat option \<Rightarrow> rat" where
  "amount_or_zero n = (case n of None \<Rightarrow> 0 | Some x \<Rightarrow> x)"

text \<open>\<open>Number(x.toFixed(6))\<close> and \<open>Math.round(n * 1000000) / 1000000\<close>, which differ on negative halves.\<close>

definition fixed6 :: "rat \<Rightarrow> rat" where
  "fixed6 x = (if x < 0 then - (of_int \<lfloor>- x * 1000000 + 1 / 2\<rfloor> / 1000000) else of_int \<lfloor>x * 1000000 + 1 / 2\<rfloor> / 1000000)"

definition micro_round :: "rat \<Rightarrow> rat" where
  "micro_round n = of_int \<lfloor>n * 1000000 + 1 / 2\<rfloor> / 1000000"

text \<open>\<open>parseFloat\<close>: the longest decimal literal the text begins with.\<close>

definition parse_float :: "string \<Rightarrow> rat option" where
  "parse_float s =
     (let t = trim_left s;
          number = (\<lambda>p. let (negative, u) = signed p in map_option (\<lambda>n. if negative then - n else n) (decimal_number u))
      in case collect_some number (rev (map (\<lambda>n. take n t) [0 ..< Suc (length t)])) of [] \<Rightarrow> None | n # _ \<Rightarrow> Some n)"

definition parse_rate :: "js \<Rightarrow> rat option" where
  "parse_rate v = (case v of JNum n \<Rightarrow> Some n | JStr s \<Rightarrow> parse_float s | _ \<Rightarrow> None)"

section \<open>Ids of a price\<close>

text \<open>\<open>id.slice(0, -suffix.length)\<close>\<close>

definition cut_suffix :: "string \<Rightarrow> string \<Rightarrow> string" where
  "cut_suffix suf s = take (length s - length suf) s"

definition pricing_twins :: "string \<Rightarrow> string list" where
  "pricing_twins i =
     (let ids = [i] @ (if suffix DEEP_CONTEXT_SUFFIX i then [cut_suffix DEEP_CONTEXT_SUFFIX i] else []) in
      uniq (ids @ map (\<lambda>j. if suffix ''--deployed'' j then cut_suffix ''--deployed'' j else j @ ''--deployed'') ids))"

section \<open>The price of a model\<close>

record cost_row =
  mc_model :: string
  mc_kind :: "string option"
  mc_from :: int
  mc_to :: int
  mc_input :: "rat option"
  mc_output :: "rat option"
  mc_cache_read :: "rat option"
  mc_cache_creation :: "rat option"
  mc_image_output :: "rat option"
  mc_audio_input :: "rat option"
  mc_audio_output :: "rat option"
  mc_provider :: "string option"
  mc_complex :: "string option"
  mc_currency :: "string option"

record pricing =
  pc_input :: rat
  pc_output :: rat
  pc_cache_read :: "rat option"
  pc_cache_creation :: "rat option"
  pc_image_output :: "rat option"
  pc_audio_input :: "rat option"
  pc_audio_output :: "rat option"
  pc_provider :: "string option"
  pc_complex :: "string option"

text \<open>The newest of the rows of a query.\<close>

definition newest :: "('a \<Rightarrow> int) \<Rightarrow> 'a list \<Rightarrow> 'a list" where
  "newest from rows = sort_key (\<lambda>r. - from r) rows"

definition genai_rows :: "cost_row list \<Rightarrow> string \<Rightarrow> int \<Rightarrow> cost_row list" where
  "genai_rows rows i t =
     newest mc_from (filter (\<lambda>r. mc_model r = i \<and> mc_kind r \<noteq> Some ''list_price'' \<and> mc_from r \<le> t \<and> t \<le> mc_to r) rows)"

definition pricing_of :: "cost_row \<Rightarrow> pricing" where
  "pricing_of r =
     \<lparr> pc_input = amount_or_zero (mc_input r), pc_output = amount_or_zero (mc_output r),
       pc_cache_read = mc_cache_read r, pc_cache_creation = mc_cache_creation r, pc_image_output = mc_image_output r,
       pc_audio_input = mc_audio_input r, pc_audio_output = mc_audio_output r, pc_provider = mc_provider r,
       pc_complex = mc_complex r \<rparr>"

definition get_cached_pricing :: "cost_row list \<Rightarrow> string \<Rightarrow> int \<Rightarrow> pricing option" where
  "get_cached_pricing rows i t = (case genai_rows rows i t of [] \<Rightarrow> None | r # _ \<Rightarrow> Some (pricing_of r))"

text \<open>\<open>id.split('--')\<close>, and the model of a deployed id with a provider: \<open>parts.slice(1, -1).join('-')\<close>.\<close>

fun split_dashes :: "string \<Rightarrow> string list" where
  "split_dashes (c # d # s) =
     (if c = CHR ''-'' \<and> d = CHR ''-'' then [] # split_dashes s
      else case split_dashes (d # s) of [] \<Rightarrow> [[c]] | w # ws \<Rightarrow> (c # w) # ws)"
| "split_dashes s = [s]"

definition deployed_base :: "string \<Rightarrow> string option" where
  "deployed_base i =
     (let parts = split_dashes i in
      if suffix ''--deployed'' i \<and> 3 \<le> length parts \<and> last parts = ''deployed'' then Some (join ''-'' (butlast (tl parts))) else None)"

definition similar_id :: "string \<Rightarrow> string \<Rightarrow> bool" where
  "similar_id i cached = (case deployed_base cached of None \<Rightarrow> False | Some b \<Rightarrow> sublist b i \<or> sublist i b)"

definition get_model_provider :: "(string \<times> string) list \<Rightarrow> string \<Rightarrow> string" where
  "get_model_provider providers i =
     (let bare = (if suffix DEEP_CONTEXT_SUFFIX i then cut_suffix DEEP_CONTEXT_SUFFIX i else i);
          known = (\<lambda>j. case map_of providers j of Some (c # s) \<Rightarrow> Some (c # s) | _ \<Rightarrow> None)
      in case known bare of
           Some p \<Rightarrow> p
         | None \<Rightarrow>
             (case known (bare @ ''--deployed'') of
                Some p \<Rightarrow> p
              | None \<Rightarrow> (case List.find (\<lambda>(j, p). similar_id bare j) providers of Some (j, p) \<Rightarrow> p | None \<Rightarrow> ''unknown'')))"

text \<open>\<open>refreshed\<close> are the rows after a refresh from the gateway, \<open>None\<close> when it fails.\<close>

definition get_model_pricing ::
  "(string \<times> string) list \<Rightarrow> cost_row list option \<Rightarrow> cost_row list \<Rightarrow> string \<Rightarrow> int \<Rightarrow> pricing option" where
  "get_model_pricing providers refreshed rows i t =
     (let ids = pricing_twins i @ filter (similar_id i) (map fst providers) in
      case collect_some (\<lambda>j. get_cached_pricing rows j t) ids of
        p # _ \<Rightarrow> Some p
      | [] \<Rightarrow> (case refreshed of None \<Rightarrow> None | Some rows' \<Rightarrow> get_cached_pricing rows' i t))"

definition fallback_price :: "rat \<Rightarrow> rat \<Rightarrow> string \<Rightarrow> pricing" where
  "fallback_price input output provider =
     \<lparr> pc_input = input, pc_output = output, pc_cache_read = None, pc_cache_creation = None, pc_image_output = None,
       pc_audio_input = None, pc_audio_output = None, pc_provider = Some provider, pc_complex = None \<rparr>"

definition get_fallback_pricing :: "string \<Rightarrow> pricing" where
  "get_fallback_pricing i =
     (if sublist ''claude'' i then fallback_price (3 / 1000) (15 / 1000) ''Anthropic''
      else if sublist ''gpt-4'' i then fallback_price (30 / 1000) (60 / 1000) ''OpenAI''
      else if sublist ''gpt'' i then fallback_price (1 / 1000) (2 / 1000) ''OpenAI''
      else fallback_price (1 / 1000) (2 / 1000) ''unknown'')"

section \<open>Tiers\<close>

text \<open>The number of \<open>/(\d+)k?\s*tokens/\<close>.\<close>

fun tokens_number :: "string \<Rightarrow> nat option" where
  "tokens_number [] = None"
| "tokens_number (c # s) =
     (let ds = takeWhile is_digit (c # s);
          rest = dropWhile is_digit (c # s);
          unit = (case rest of k # r \<Rightarrow> if k = CHR ''k'' then r else rest | [] \<Rightarrow> [])
      in if ds \<noteq> [] \<and> prefix ''tokens'' (dropWhile is_space unit) then digits_value 10 ds 0 else tokens_number s)"

text \<open>The limit a description names, and whether it is a lower bound.\<close>

definition tier_limit :: "string \<Rightarrow> nat option \<times> bool" where
  "tier_limit d =
     (let limit = map_option (\<lambda>n. n * (if sublist ''k'' d then 1000 else 1)) (tokens_number d) in
      if sublist ''less than or equals to'' d \<or> sublist ''<='' d then (limit, False)
      else if sublist ''greater than'' d \<or> sublist ''>'' d then (limit, limit \<noteq> None)
      else (None, False))"

definition tier_matches :: "rat \<Rightarrow> string \<Rightarrow> bool" where
  "tier_matches tokens d =
     (case tier_limit d of
        (None, _) \<Rightarrow> True
      | (Some l, is_lower_bound) \<Rightarrow> if is_lower_bound then of_nat l < tokens else tokens \<le> of_nat l)"

text \<open>The last tier that sets a cost and fits.\<close>

definition tier_for :: "string \<Rightarrow> rat \<Rightarrow> js list \<Rightarrow> js option" where
  "tier_for column tokens tiers =
     List.find (\<lambda>t. (case jget t ''tierDescription'' of JStr (c # s) \<Rightarrow> tier_matches tokens (lower (c # s)) | _ \<Rightarrow> False) \<and>
       jget t column \<noteq> JUndef) (rev tiers)"

record cost_parts =
  ct_input :: rat
  ct_output :: rat
  ct_cache_creation :: rat
  ct_cache_read :: rat
  ct_image_output :: rat
  ct_audio_input :: rat
  ct_audio_output :: rat

definition per_thousand :: "rat \<Rightarrow> rat \<Rightarrow> rat" where
  "per_thousand tokens rate = tokens / 1000 * rate"

record token_counts =
  tk_input :: rat
  tk_output :: rat
  tk_cache_creation :: rat
  tk_cache_read :: rat
  tk_image_output :: rat
  tk_audio_input :: rat
  tk_audio_output :: rat

definition safe_audio_input :: "token_counts \<Rightarrow> rat" where
  "safe_audio_input t = min (max 0 (tk_audio_input t)) (tk_input t)"

definition text_input :: "token_counts \<Rightarrow> rat" where
  "text_input t = max 0 (tk_input t - safe_audio_input t)"

definition text_output :: "token_counts \<Rightarrow> rat" where
  "text_output t = max 0 (tk_output t - max 0 (tk_image_output t) - max 0 (tk_audio_output t))"

definition or_rate :: "rat option \<Rightarrow> rat \<Rightarrow> rat" where
  "or_rate r d = (case r of None \<Rightarrow> d | Some x \<Rightarrow> x)"

text \<open>The parts at the rates; both calculations have them.\<close>

definition priced_parts :: "token_counts \<Rightarrow> rat \<Rightarrow> rat \<Rightarrow> rat \<Rightarrow> rat \<Rightarrow> pricing \<Rightarrow> cost_parts" where
  "priced_parts t input output creation read p =
     \<lparr> ct_input = per_thousand (text_input t) input, ct_output = per_thousand (text_output t) output,
       ct_cache_creation = per_thousand (tk_cache_creation t) creation, ct_cache_read = per_thousand (tk_cache_read t) read,
       ct_image_output = per_thousand (max 0 (tk_image_output t)) (or_rate (pc_image_output p) output),
       ct_audio_input = per_thousand (safe_audio_input t) (or_rate (pc_audio_input p) input),
       ct_audio_output = per_thousand (max 0 (tk_audio_output t)) (or_rate (pc_audio_output p) output) \<rparr>"

definition tiered_costs :: "(string \<Rightarrow> js option) \<Rightarrow> string \<Rightarrow> token_counts \<Rightarrow> pricing \<Rightarrow> cost_parts option" where
  "tiered_costs parse complex t p =
     (case parse complex of
        Some (JArr tiers) \<Rightarrow>
          if list_ex (\<lambda>v. v = JNull \<or> v = JUndef) tiers then None
          else (case (tier_for ''inputCost'' (tk_input t + tk_cache_creation t + tk_cache_read t) tiers,
                      tier_for ''outputCost'' (tk_output t) tiers) of
                  (Some ti, Some to) \<Rightarrow>
                    (case (parse_rate (jget ti ''inputCost''), parse_rate (jget to ''outputCost'')) of
                       (Some input, Some output) \<Rightarrow>
                         Some (priced_parts t input output (or_rate (parse_rate (jget ti ''cacheCreationInputCost'')) input)
                           (or_rate (parse_rate (jget ti ''cacheReadInputCost'')) input) p)
                     | _ \<Rightarrow> None)
                | _ \<Rightarrow> None)
      | _ \<Rightarrow> None)"

section \<open>The costs of a request\<close>

definition sum_parts :: "cost_parts \<Rightarrow> rat" where
  "sum_parts c = ct_input c + ct_output c + ct_cache_creation c + ct_cache_read c + ct_image_output c + ct_audio_input c + ct_audio_output c"

record token_costs =
  tc_parts :: cost_parts
  tc_total :: rat
  tc_provider :: "string option"

definition rounded_costs :: "cost_parts \<Rightarrow> string option \<Rightarrow> token_costs" where
  "rounded_costs c provider =
     \<lparr> tc_parts = \<lparr> ct_input = fixed6 (ct_input c), ct_output = fixed6 (ct_output c), ct_cache_creation = fixed6 (ct_cache_creation c),
         ct_cache_read = fixed6 (ct_cache_read c), ct_image_output = fixed6 (ct_image_output c),
         ct_audio_input = fixed6 (ct_audio_input c), ct_audio_output = fixed6 (ct_audio_output c) \<rparr>,
       tc_total = fixed6 (sum_parts c), tc_provider = provider \<rparr>"

definition NO_PARTS :: cost_parts where
  "NO_PARTS = \<lparr> ct_input = 0, ct_output = 0, ct_cache_creation = 0, ct_cache_read = 0, ct_image_output = 0, ct_audio_input = 0, ct_audio_output = 0 \<rparr>"

definition no_costs :: "string option \<Rightarrow> token_costs" where
  "no_costs provider = \<lparr> tc_parts = NO_PARTS, tc_total = 0, tc_provider = provider \<rparr>"

definition simple_costs :: "token_counts \<Rightarrow> pricing \<Rightarrow> cost_parts" where
  "simple_costs t p =
     priced_parts t (pc_input p) (pc_output p) (or_rate (pc_cache_creation p) (pc_input p)) (or_rate (pc_cache_read p) (pc_input p)) p"

definition price_tokens :: "(string \<Rightarrow> js option) \<Rightarrow> token_counts \<Rightarrow> pricing \<Rightarrow> token_costs" where
  "price_tokens parse t p =
     rounded_costs
       (case (case pc_complex p of Some (c # s) \<Rightarrow> tiered_costs parse (c # s) t p | _ \<Rightarrow> None) of
          Some c \<Rightarrow> c
        | None \<Rightarrow> simple_costs t p)
       (pc_provider p)"

definition calculate_costs :: "(string \<Rightarrow> js option) \<Rightarrow> pricing option \<Rightarrow> string \<Rightarrow> token_counts \<Rightarrow> bool \<Rightarrow> token_costs" where
  "calculate_costs parse priced i t zero_when_unpriced =
     (if tk_input t = 0 \<and> tk_output t = 0 \<and> tk_cache_creation t = 0 \<and> tk_cache_read t = 0 then no_costs None
      else case priced of
        None \<Rightarrow> if zero_when_unpriced then no_costs None else price_tokens parse t (get_fallback_pricing i)
      | Some p \<Rightarrow> price_tokens parse t p)"

section \<open>SAP-native figures\<close>

definition explicit_billing_currency :: "string option \<Rightarrow> string option" where
  "explicit_billing_currency env =
     (let v = upper (trim (case env of None \<Rightarrow> [] | Some s \<Rightarrow> s)) in
      if length v = 3 \<and> list_all is_upper v then Some v else None)"

definition billing_currency :: "string option \<Rightarrow> string" where
  "billing_currency env = (case explicit_billing_currency env of None \<Rightarrow> ''USD'' | Some c \<Rightarrow> c)"

definition is_productive :: "js \<Rightarrow> bool" where
  "is_productive config = (jpath config [''platform'', ''billing'', ''productive''] = JBool True)"

definition factor_of :: "js \<Rightarrow> rat" where
  "factor_of v = (case v of JNum n \<Rightarrow> if 0 \<le> n then n else 1 | _ \<Rightarrow> 1)"

text \<open>The read and write factors of a provider: of the first configuration key that is the provider but for case.\<close>

definition get_cache_billing_factors :: "js \<Rightarrow> string \<Rightarrow> rat \<times> rat" where
  "get_cache_billing_factors config provider =
     (case List.find (\<lambda>(k, v). lower k = lower provider) (jfields (jget config ''providers'')) of
        None \<Rightarrow> (1, 1)
      | Some (k, v) \<Rightarrow> (factor_of (jget v ''sap_cache_read_token_billing_factor''), factor_of (jget v ''sap_cache_write_token_billing_factor'')))"

definition SAP_CU_FACTOR :: rat where
  "SAP_CU_FACTOR = 190385 / 100000"

definition cu_factor :: "js \<Rightarrow> rat" where
  "cu_factor config = (case jpath config [''platform'', ''billing'', ''cuFactor''] of JNum n \<Rightarrow> if 0 < n then n else SAP_CU_FACTOR | _ \<Rightarrow> SAP_CU_FACTOR)"

definition lookup_rate :: "cost_row list \<Rightarrow> string \<Rightarrow> int \<Rightarrow> cost_row option" where
  "lookup_rate rows i t =
     (case collect_some (\<lambda>j. case genai_rows rows j t of [] \<Rightarrow> None | r # _ \<Rightarrow> Some r) (pricing_twins i) of [] \<Rightarrow> None | r # _ \<Rightarrow> Some r)"

record unit_price =
  up_usage_type :: string
  up_from :: int
  up_to :: int
  up_currency :: "string option"
  up_region :: "string option"
  up_price :: rat

definition lookup_price :: "string option \<Rightarrow> unit_price list \<Rightarrow> string \<Rightarrow> int \<Rightarrow> string option \<Rightarrow> unit_price option" where
  "lookup_price env prices usage_type t region =
     (let rows = newest up_from (filter (\<lambda>r. up_usage_type r = usage_type \<and> up_from r \<le> t \<and> t \<le> up_to r \<and>
            (case explicit_billing_currency env of None \<Rightarrow> True | Some c \<Rightarrow> up_currency r = Some c)) prices);
          regional = (case region of Some (c # s) \<Rightarrow> List.find (\<lambda>r. up_region r = Some (c # s)) rows | _ \<Rightarrow> None)
      in case regional of Some r \<Rightarrow> Some r | None \<Rightarrow> (case rows of [] \<Rightarrow> None | r # _ \<Rightarrow> Some r))"

record tenant_row =
  tn_zone :: string
  tn_productive :: "bool option"
  tn_region :: "string option"

definition billing_for_tenant :: "js \<Rightarrow> tenant_row list \<Rightarrow> string option \<Rightarrow> bool \<times> string option" where
  "billing_for_tenant config tenants zone =
     (let row = (case zone of Some (c # s) \<Rightarrow> List.find (\<lambda>r. tn_zone r = c # s) (rev tenants) | _ \<Rightarrow> None) in
      (case Option.bind row tn_productive of None \<Rightarrow> is_productive config | Some b \<Rightarrow> b, Option.bind row tn_region))"

text \<open>The rates of a row per single token; a rate that is not set is that of its direction.\<close>

definition input_rate :: "cost_row \<Rightarrow> rat" where
  "input_rate r = amount_or_zero (mc_input r) / 1000"

definition output_rate :: "cost_row \<Rightarrow> rat" where
  "output_rate r = (case mc_output r of Some x \<Rightarrow> x / 1000 | None \<Rightarrow> input_rate r)"

definition rate_or :: "rat option \<Rightarrow> rat \<Rightarrow> rat" where
  "rate_or v d = (case v of Some x \<Rightarrow> x / 1000 | None \<Rightarrow> d)"

definition genai_tokens :: "cost_row \<Rightarrow> rat \<times> rat \<Rightarrow> token_counts \<Rightarrow> rat \<Rightarrow> rat" where
  "genai_tokens r factors t image_input =
     text_input t * input_rate r + safe_audio_input t * rate_or (mc_audio_input r) (input_rate r) +
     text_output t * output_rate r + max 0 (tk_image_output t) * rate_or (mc_image_output r) (output_rate r) +
     max 0 (tk_audio_output t) * rate_or (mc_audio_output r) (output_rate r) +
     tk_cache_read t * fst factors * rate_or (mc_cache_read r) (input_rate r) +
     tk_cache_creation t * snd factors * rate_or (mc_cache_creation r) (input_rate r) +
     image_input * input_rate r"

record sap_native =
  sn_genai :: rat
  sn_units :: rat
  sn_cost :: "rat option"
  sn_currency :: "string option"

definition compute_sap_native ::
  "js \<Rightarrow> string option \<Rightarrow> cost_row list \<Rightarrow> unit_price list \<Rightarrow> string \<Rightarrow> string \<Rightarrow> token_counts \<Rightarrow> rat \<Rightarrow> int \<Rightarrow>
   bool \<times> string option \<Rightarrow> sap_native option" where
  "compute_sap_native config env rows prices i provider t image_input now terms =
     map_option (\<lambda>r.
       let tokens = genai_tokens r (get_cache_billing_factors config provider) t image_input;
           units = tokens * cu_factor config
       in case lookup_price env prices (if fst terms then ''productive'' else ''non-productive'') now (snd terms) of
            None \<Rightarrow> \<lparr> sn_genai = tokens, sn_units = units, sn_cost = None, sn_currency = None \<rparr>
          | Some p \<Rightarrow> \<lparr> sn_genai = tokens, sn_units = units, sn_cost = Some (units * up_price p),
              sn_currency = Some (case up_currency p of None \<Rightarrow> ''USD'' | Some c \<Rightarrow> c) \<rparr>)
     (lookup_rate rows i now)"

section \<open>Connection models\<close>

definition list_price_at :: "cost_row list \<Rightarrow> string \<Rightarrow> int \<Rightarrow> cost_row option" where
  "list_price_at rows i t =
     (case newest mc_from (filter (\<lambda>r. mc_model r = i \<and> mc_kind r = Some ''list_price'' \<and> mc_from r \<le> t \<and> t < mc_to r) rows) of
        [] \<Rightarrow> None | r # _ \<Rightarrow> Some r)"

definition list_cost_of :: "cost_row \<Rightarrow> token_counts \<Rightarrow> rat" where
  "list_cost_of r t =
     (let input = amount_or_zero (mc_input r) in
      micro_round ((tk_input t * input + tk_output t * amount_or_zero (mc_output r) + tk_cache_read t * or_rate (mc_cache_read r) input +
        tk_cache_creation t * or_rate (mc_cache_creation r) input) / 1000))"

text \<open>The three columns: \<open>listCost\<close>, \<open>listCostCurrency\<close>, \<open>pricingMissing\<close>.\<close>

definition price_external_event :: "cost_row list \<Rightarrow> string \<Rightarrow> int \<Rightarrow> token_counts \<Rightarrow> rat option \<times> string option \<times> bool" where
  "price_external_event rows i t tokens =
     (case list_price_at rows i t of
        None \<Rightarrow> (None, None, True)
      | Some r \<Rightarrow> (Some (list_cost_of r tokens), mc_currency r, False))"

end
