(* ===== verification/Cost_Guarantees.thy ===== *)
theory Cost_Guarantees
  imports Model_Cost
begin

text \<open>
  What the pricing of \<open>Model_Cost\<close> guarantees: usage is priced at the row in force, the two lookups agree, the split into
  modalities and the rounding change nothing they should not, and a limit in a tier is always read in thousands.
\<close>

section \<open>The row in force\<close>

definition in_force :: "string \<Rightarrow> int \<Rightarrow> cost_row \<Rightarrow> bool" where
  "in_force i t r \<longleftrightarrow> mc_model r = i \<and> mc_kind r \<noteq> Some ''list_price'' \<and> mc_from r \<le> t \<and> t \<le> mc_to r"

lemma set_newest [simp]: "set (newest f rows) = set rows"
  by (simp add: newest_def)

lemma newest_first: "newest f rows = r # rs \<Longrightarrow> r' \<in> set rows \<Longrightarrow> f r' \<le> f r"
proof -
  assume n: "newest f rows = r # rs" and r': "r' \<in> set rows"
  have "sorted (map (\<lambda>x. - f x) (newest f rows))" unfolding newest_def by (rule sorted_sort_key)
  moreover have "r' \<in> set (r # rs)" using r' n by (metis set_newest)
  ultimately show ?thesis unfolding n by auto
qed

lemma genai_rows_eq: "genai_rows rows i t = newest mc_from (filter (in_force i t) rows)"
  unfolding genai_rows_def in_force_def[abs_def] ..

lemma genai_rows_first:
  assumes "genai_rows rows i t = r # rs"
  shows "r \<in> set rows \<and> in_force i t r \<and> (\<forall>r' \<in> set rows. in_force i t r' \<longrightarrow> mc_from r' \<le> mc_from r)"
proof -
  let ?f = "filter (in_force i t) rows"
  have n: "newest mc_from ?f = r # rs" using assms by (simp add: genai_rows_eq)
  then have "r \<in> set ?f" by (metis list.set_intros(1) set_newest)
  then show ?thesis using newest_first[OF n] by auto
qed

lemma genai_rows_none: "genai_rows rows i t = [] \<longleftrightarrow> (\<forall>r \<in> set rows. \<not> in_force i t r)"
proof -
  have "genai_rows rows i t = [] \<longleftrightarrow> set (newest mc_from (filter (in_force i t) rows)) = {}"
    unfolding genai_rows_eq by (simp only: set_empty)
  then show ?thesis unfolding set_newest by auto
qed

text \<open>A cached price is that of the newest row in force, which is no list price.\<close>

lemma cached_price_in_force:
  assumes "get_cached_pricing rows i t = Some p"
  shows "\<exists>r \<in> set rows. in_force i t r \<and> p = pricing_of r \<and> (\<forall>r' \<in> set rows. in_force i t r' \<longrightarrow> mc_from r' \<le> mc_from r)"
  using assms genai_rows_first[of rows i t] by (auto simp: get_cached_pricing_def split: list.splits)

section \<open>Both lookups agree\<close>

lemma collect_some_map: "collect_some (\<lambda>x. map_option g (f x)) xs = map g (collect_some f xs)"
  by (induction xs) (auto split: option.splits)

text \<open>The costs and the SAP-native figures of a request are taken from one row: when the lookup of the rates finds a row,
  the lookup of the price gives the price of this row.\<close>

theorem lookups_agree:
  assumes "lookup_rate rows i t = Some r"
  shows "get_model_pricing providers refreshed rows i t = Some (pricing_of r) \<and>
    (\<exists>j \<in> set (pricing_twins i). in_force j t r \<and> (\<forall>r' \<in> set rows. in_force j t r' \<longrightarrow> mc_from r' \<le> mc_from r))"
proof -
  let ?first = "\<lambda>j. case genai_rows rows j t of [] \<Rightarrow> None | r # _ \<Rightarrow> Some r"
  obtain rs where c: "collect_some ?first (pricing_twins i) = r # rs"
    using assms by (auto simp: lookup_rate_def split: list.splits)
  have g: "(\<lambda>j. get_cached_pricing rows j t) = (\<lambda>j. map_option pricing_of (?first j))"
    by (rule ext) (simp add: get_cached_pricing_def split: list.split)
  have "get_model_pricing providers refreshed rows i t = Some (pricing_of r)"
    by (simp add: get_model_pricing_def g collect_some_append collect_some_map c)
  moreover have "r \<in> set (collect_some ?first (pricing_twins i))" using c by simp
  then obtain j where "j \<in> set (pricing_twins i)" "?first j = Some r" by (auto simp: set_collect_some)
  moreover from this(2) have "in_force j t r \<and> (\<forall>r' \<in> set rows. in_force j t r' \<longrightarrow> mc_from r' \<le> mc_from r)"
    using genai_rows_first[of rows j t] by (auto split: list.splits)
  ultimately show ?thesis by blast
qed

definition toy_cost :: cost_row where
  "toy_cost = \<lparr> mc_model = ''m--deployed'', mc_kind = None, mc_from = 0, mc_to = 10, mc_input = Some 2, mc_output = Some 4,
     mc_cache_read = None, mc_cache_creation = None, mc_image_output = None, mc_audio_input = None, mc_audio_output = None,
     mc_provider = None, mc_complex = None, mc_currency = None \<rparr>"

theorem lookups_agree_witness: "get_model_pricing [] None [toy_cost] ''m'' 5 = Some (pricing_of toy_cost)"
proof -
  have "lookup_rate [toy_cost] ''m'' 5 = Some toy_cost"
    by (simp add: lookup_rate_def pricing_twins_def genai_rows_def newest_def toy_cost_def suffix_def DEEP_CONTEXT_SUFFIX_def)
  then show ?thesis using lookups_agree by blast
qed

section \<open>Modalities\<close>

definition shares_within :: "token_counts \<Rightarrow> bool" where
  "shares_within t \<longleftrightarrow> 0 \<le> tk_image_output t \<and> 0 \<le> tk_audio_output t \<and> tk_image_output t + tk_audio_output t \<le> tk_output t \<and>
     0 \<le> tk_audio_input t \<and> tk_audio_input t \<le> tk_input t"

definition text_only :: "token_counts \<Rightarrow> token_counts" where
  "text_only t = t\<lparr>tk_image_output := 0, tk_audio_input := 0, tk_audio_output := 0\<rparr>"

lemma shares_text:
  assumes "shares_within t"
  shows "safe_audio_input t = tk_audio_input t" and "text_input t = tk_input t - tk_audio_input t"
    and "text_output t = tk_output t - tk_image_output t - tk_audio_output t"
    and "safe_audio_input (text_only t) = 0" and "text_input (text_only t) = tk_input t" and "text_output (text_only t) = tk_output t"
  using assms by (auto simp: shares_within_def safe_audio_input_def text_input_def text_output_def text_only_def)

text \<open>Image and audio tokens are shares of the totals: where a model maintains no rate of its own for them, a request costs
  what it would cost as text, with and without tiers, and so do its GenAI tokens.\<close>

theorem modality_split_neutral:
  assumes "shares_within t"
  shows "(pc_image_output p = None \<longrightarrow> pc_audio_input p = None \<longrightarrow> pc_audio_output p = None \<longrightarrow>
      sum_parts (simple_costs t p) = sum_parts (simple_costs (text_only t) p) \<and>
      map_option sum_parts (tiered_costs parse complex t p) = map_option sum_parts (tiered_costs parse complex (text_only t) p)) \<and>
    (mc_image_output r = None \<longrightarrow> mc_audio_input r = None \<longrightarrow> mc_audio_output r = None \<longrightarrow>
      genai_tokens r factors t images = genai_tokens r factors (text_only t) images)"
proof -
  note shares = shares_text[OF assms] and within = assms[unfolded shares_within_def]
  have parts: "sum_parts (priced_parts t a b c d p) = sum_parts (priced_parts (text_only t) a b c d p)"
    if "pc_image_output p = None" "pc_audio_input p = None" "pc_audio_output p = None" for a b c d
    using within that by (simp add: sum_parts_def priced_parts_def shares per_thousand_def or_rate_def) (simp add: text_only_def field_simps)
  have keep: "tk_input (text_only t) = tk_input t" "tk_output (text_only t) = tk_output t"
    "tk_cache_creation (text_only t) = tk_cache_creation t" "tk_cache_read (text_only t) = tk_cache_read t" by (simp_all add: text_only_def)
  have "map_option sum_parts (tiered_costs parse complex t p) = map_option sum_parts (tiered_costs parse complex (text_only t) p)"
    if "pc_image_output p = None" "pc_audio_input p = None" "pc_audio_output p = None"
    unfolding tiered_costs_def keep using parts[OF that] by (simp split: option.split js.split)
  moreover have "genai_tokens r factors t images = genai_tokens r factors (text_only t) images"
    if "mc_image_output r = None" "mc_audio_input r = None" "mc_audio_output r = None"
    using within that by (simp add: genai_tokens_def shares keep rate_or_def) (simp add: text_only_def algebra_simps)
  ultimately show ?thesis using parts by (simp add: simple_costs_def)
qed

definition toy_counts :: token_counts where
  "toy_counts = \<lparr> tk_input = 10, tk_output = 20, tk_cache_creation = 0, tk_cache_read = 0, tk_image_output = 5, tk_audio_input = 3, tk_audio_output = 2 \<rparr>"

theorem modality_split_neutral_witness:
  "sum_parts (simple_costs toy_counts (pricing_of toy_cost)) = sum_parts (simple_costs (text_only toy_counts) (pricing_of toy_cost))"
proof -
  have "shares_within toy_counts" by (simp add: shares_within_def toy_counts_def)
  moreover have "pc_image_output (pricing_of toy_cost) = None" "pc_audio_input (pricing_of toy_cost) = None"
    "pc_audio_output (pricing_of toy_cost) = None" by (simp_all add: pricing_of_def toy_cost_def)
  ultimately show ?thesis using modality_split_neutral by blast
qed

section \<open>Rounding\<close>

lemma floor_half: "\<bar>of_int \<lfloor>x + 1 / 2\<rfloor> - x\<bar> \<le> (1 / 2 :: rat)"
  by linarith

lemma fixed6_near: "\<bar>fixed6 x - x\<bar> \<le> 1 / 2000000"
proof -
  have near: "\<bar>of_int \<lfloor>y * 1000000 + 1 / 2\<rfloor> / 1000000 - y\<bar> \<le> 1 / 2000000" for y :: rat
    using floor_half[of "y * 1000000"] by linarith
  show ?thesis using near[of x] near[of "- x"] by (cases "x < 0") (simp_all add: fixed6_def abs_minus_commute add.commute)
qed

lemma micro_round_near: "\<bar>micro_round x - x\<bar> \<le> 1 / 2000000"
  using floor_half[of "x * 1000000"] unfolding micro_round_def by linarith

text \<open>The seven rounded parts and the rounded total differ by at most four millionths.\<close>

lemma total_near_parts: "\<bar>tc_total (rounded_costs c provider) - sum_parts (tc_parts (rounded_costs c provider))\<bar> \<le> 4 / 1000000"
proof -
  note near = fixed6_near[unfolded abs_le_iff]
  show ?thesis
    using near[of "sum_parts c"] near[of "ct_input c"] near[of "ct_output c"] near[of "ct_cache_creation c"]
      near[of "ct_cache_read c"] near[of "ct_image_output c"] near[of "ct_audio_input c"] near[of "ct_audio_output c"]
    unfolding abs_le_iff rounded_costs_def sum_parts_def token_costs.simps cost_parts.simps by linarith
qed

section \<open>Limits in thousands\<close>

text \<open>The unit of a limit is looked for in the whole description, and the word \<open>tokens\<close> holds a \<open>k\<close>.\<close>

lemma sublist_single: "sublist [x] xs \<longleftrightarrow> x \<in> set xs"
  by (simp add: in_set_conv_decomp sublist_def)

lemma tokens_number_step:
  "tokens_number (c # s) = Some n \<Longrightarrow>
     tokens_number s = Some n \<or>
     (\<exists>unit. set unit \<subseteq> set (dropWhile is_digit (c # s)) \<and> prefix ''tokens'' (dropWhile is_space unit))"
proof -
  let ?rest = "dropWhile is_digit (c # s)"
  let ?unit = "case ?rest of k # r \<Rightarrow> if k = CHR ''k'' then r else ?rest | [] \<Rightarrow> []"
  have "set ?unit \<subseteq> set ?rest" by (cases ?rest) auto
  then show "tokens_number (c # s) = Some n \<Longrightarrow> ?thesis"
    unfolding tokens_number.simps(2) Let_def by (metis (no_types, lifting))
qed

lemma tokens_number_k: "tokens_number d = Some n \<Longrightarrow> CHR ''k'' \<in> set d"
proof (induction d)
  case (Cons c s)
  show ?case
  proof (cases "tokens_number s = Some n")
    case False
    then obtain unit where u: "set unit \<subseteq> set (dropWhile is_digit (c # s))" "prefix ''tokens'' (dropWhile is_space unit)"
      using tokens_number_step[OF Cons.prems] by blast
    then have "CHR ''k'' \<in> set (dropWhile is_space unit)" by (auto simp: prefix_def)
    then show ?thesis using u(1) set_dropWhileD by (metis subsetD)
  qed (use Cons.IH in simp)
qed simp

lemma tier_limit_in_thousands: "tier_limit d = (Some l, b) \<Longrightarrow> 1000 dvd l"
  using tokens_number_k[of d] by (auto simp: tier_limit_def Let_def sublist_single split: if_splits)

lemma plain_limit_misread: "tier_matches 300000 ''<= 200000 tokens'' \<and> tier_limit ''<= 200k tokens'' = (Some 200000, False)"
  by (simp add: tier_matches_def tier_limit_def Let_def tokens_number.simps is_digit_def is_space_def prefix_def sublist_code
      digit_in_def lower_char_def)

end
