(* ===== verification/Usage_Counters.thy ===== *)
theory Usage_Counters
  imports Utc_Calendar Model_Cost
begin

text \<open>
  The usage rows and the counters derived from them (administration service, \<open>services/usageCounters.ts\<close>): one bucket per
  owner, UTC day and currency, added to with every batch, read for the windows of the quotas, and rebuilt from the rows;
  the same per team. A reset deletes the buckets of a user or team and sets a watermark (\<open>srv/admin-service-users.ts\<close>,
  \<open>services/teamQuotaService.ts\<close>).

  A day is its number since the epoch. The text \<open>email|day|currency\<close> is the triple of its parts. The two SQL dialects and
  the case of returned columns are not modelled; a grouped query lists its groups in the order of their first row.
\<close>

section \<open>Rows\<close>

record usage_row =
  rw_signature :: "string option"
  rw_request_id :: "string option"
  rw_credential :: string
  rw_owner :: string
  rw_name :: string
  rw_team :: "string option"
  rw_team_name :: "string option"
  rw_endpoint :: string
  rw_provider :: string
  rw_model :: string
  rw_status :: rat
  rw_response_time :: rat
  rw_valid_from :: int
  rw_tokens :: token_counts
  rw_image_input :: rat
  rw_costs :: "(cost_parts \<times> rat) option"
  rw_native :: "sap_native option"
  rw_sap_cost :: "rat option"
  rw_list_cost :: "rat option"
  rw_list_currency :: "string option"
  rw_pricing_missing :: "bool option"
  rw_unit :: string
  rw_estimated :: "bool option"
  rw_origin :: string
  rw_connection :: "string option"
  rw_upstream :: "string option"
  rw_tenant :: "string option"

definition row_currency :: "usage_row \<Rightarrow> string" where
  "row_currency r =
     (case Option.bind (rw_native r) sn_currency of
        Some c \<Rightarrow> c
      | None \<Rightarrow> (case rw_list_currency r of Some c \<Rightarrow> c | None \<Rightarrow> []))"

definition row_tokens :: "usage_row \<Rightarrow> rat" where
  "row_tokens r = tk_input (rw_tokens r) + tk_output (rw_tokens r) + tk_cache_creation (rw_tokens r)"

definition row_day :: "usage_row \<Rightarrow> int" where
  "row_day r = day_number (rw_valid_from r)"

section \<open>Buckets\<close>

definition OWNER_EMAIL_FALLBACKS :: "string list" where
  "OWNER_EMAIL_FALLBACKS = [''unknown@example.com'', ''unknown-user'']"

definition RETENTION_DAYS :: int where
  "RETENTION_DAYS = 62"

record bucket =
  bk_requests :: rat
  bk_tokens :: rat
  bk_sap :: rat
  bk_external :: rat

type_synonym buckets = "((string \<times> int \<times> string) \<times> bucket) list"

text \<open>What a record adds: a row counts one request, a group of rows its sums.\<close>

record counted_usage =
  cn_day :: int
  cn_currency :: string
  cn_usage :: bucket

definition count_row :: "usage_row \<Rightarrow> counted_usage" where
  "count_row r =
     \<lparr> cn_day = row_day r, cn_currency = row_currency r,
       cn_usage = \<lparr> bk_requests = 1, bk_tokens = row_tokens r, bk_sap = amount_or_zero (rw_sap_cost r),
         bk_external = amount_or_zero (rw_list_cost r) \<rparr> \<rparr>"

fun upsert :: "('b option \<Rightarrow> 'b) \<Rightarrow> 'k \<Rightarrow> ('k \<times> 'b) list \<Rightarrow> ('k \<times> 'b) list" where
  "upsert f k [] = [(k, f None)]"
| "upsert f k ((k', b) # xs) = (if k = k' then (k, f (Some b)) # xs else (k', b) # upsert f k xs)"

definition empty_bucket :: bucket where
  "empty_bucket = \<lparr> bk_requests = 0, bk_tokens = 0, bk_sap = 0, bk_external = 0 \<rparr>"

definition add_counted :: "bucket \<Rightarrow> bucket option \<Rightarrow> bucket" where
  "add_counted u old =
     (let b = (case old of None \<Rightarrow> empty_bucket | Some b \<Rightarrow> b) in
      \<lparr> bk_requests = bk_requests b + bk_requests u, bk_tokens = bk_tokens b + bk_tokens u,
        bk_sap = micro_round (bk_sap b + bk_sap u), bk_external = micro_round (bk_external b + bk_external u) \<rparr>)"

definition fold_counted :: "('a \<Rightarrow> counted_usage) \<Rightarrow> ('a \<Rightarrow> string option) \<Rightarrow> 'a list \<Rightarrow> buckets" where
  "fold_counted count owner xs =
     fold (\<lambda>r acc. case owner r of
         None \<Rightarrow> acc
       | Some e \<Rightarrow> upsert (add_counted (cn_usage (count r))) (e, cn_day (count r), cn_currency (count r)) acc) xs []"

text \<open>An owner that is missing, empty or a fallback folds into nothing; a team only when missing or empty.\<close>

definition real_owner :: "string option \<Rightarrow> string option" where
  "real_owner e = (case e of Some (c # s) \<Rightarrow> if c # s \<in> set OWNER_EMAIL_FALLBACKS then None else Some (c # s) | _ \<Rightarrow> None)"

definition fold_increments :: "('a \<Rightarrow> counted_usage) \<Rightarrow> ('a \<Rightarrow> string option) \<Rightarrow> 'a list \<Rightarrow> buckets" where
  "fold_increments count owner xs = fold_counted count (\<lambda>r. real_owner (owner r)) xs"

definition fold_team_increments :: "('a \<Rightarrow> counted_usage) \<Rightarrow> ('a \<Rightarrow> string option) \<Rightarrow> 'a list \<Rightarrow> buckets" where
  "fold_team_increments count team xs = fold_counted count (\<lambda>r. case team r of Some (c # s) \<Rightarrow> Some (c # s) | _ \<Rightarrow> None) xs"

definition add_bucket :: "bucket \<Rightarrow> bucket option \<Rightarrow> bucket" where
  "add_bucket i old =
     (case old of
        None \<Rightarrow> i
      | Some b \<Rightarrow> \<lparr> bk_requests = bk_requests b + bk_requests i, bk_tokens = bk_tokens b + bk_tokens i,
          bk_sap = bk_sap b + bk_sap i, bk_external = bk_external b + bk_external i \<rparr>)"

definition apply_increments :: "buckets \<Rightarrow> buckets \<Rightarrow> buckets" where
  "apply_increments incs table = fold (\<lambda>(k, i). upsert (add_bucket i) k) incs table"

definition read_buckets :: "string list \<Rightarrow> int \<Rightarrow> buckets \<Rightarrow> buckets" where
  "read_buckets emails since table = filter (\<lambda>((e, d, c), b). e \<in> set emails \<and> day_number since \<le> d) table"

section \<open>Windows\<close>

definition window_horizon :: "int \<Rightarrow> int" where
  "window_horizon now = min (window_start Week now) (window_start Month now)"

record window_usage =
  wu_requests :: rat
  wu_tokens :: rat
  wu_cost :: rat
  wu_by_currency :: "(string \<times> rat) list"

definition window_from_buckets :: "buckets \<Rightarrow> int \<Rightarrow> string \<Rightarrow> window \<Rightarrow> window_usage" where
  "window_from_buckets rows now currency w =
     (let since = day_number (window_start w now);
          inside = filter (\<lambda>((e, d, c), b). since \<le> d) rows;
          costs = fold (\<lambda>((e, d, c), b) acc.
              if c = [] then acc else upsert (\<lambda>old. micro_round (amount_or_zero old + bk_sap b + bk_external b)) c acc) inside []
      in \<lparr> wu_requests = sum_list (map (\<lambda>(k, b). bk_requests b) inside), wu_tokens = sum_list (map (\<lambda>(k, b). bk_tokens b) inside),
           wu_cost = micro_round (amount_or_zero (map_of costs currency)), wu_by_currency = costs \<rparr>)"

definition compute_usage :: "buckets \<Rightarrow> string \<Rightarrow> int \<Rightarrow> string \<Rightarrow> window \<Rightarrow> window_usage" where
  "compute_usage table email now currency w =
     window_from_buckets (read_buckets [email] (window_horizon now) table) now currency w"

section \<open>Rebuilding\<close>

record usage_group =
  ug_owner :: string
  ug_credential :: string
  ug_counted :: counted_usage

definition sum_usage :: "usage_row list \<Rightarrow> bucket" where
  "sum_usage rows =
     \<lparr> bk_requests = of_nat (length rows), bk_tokens = sum_list (map row_tokens rows),
       bk_sap = sum_list (map (\<lambda>r. amount_or_zero (rw_sap_cost r)) rows),
       bk_external = sum_list (map (\<lambda>r. amount_or_zero (rw_list_cost r)) rows) \<rparr>"

text \<open>\<open>GROUP BY\<close>: one group per value of the key, and the groups of rows per owner, credential, day and currency.\<close>

definition group_by :: "('a \<Rightarrow> 'k) \<Rightarrow> 'a list \<Rightarrow> ('k \<times> 'a list) list" where
  "group_by key xs = map (\<lambda>k. (k, filter (\<lambda>x. key x = k) xs)) (uniq (map key xs))"

definition grouped_rows :: "(usage_row \<Rightarrow> string) \<Rightarrow> (usage_row \<Rightarrow> string) \<Rightarrow> usage_row list \<Rightarrow> usage_group list" where
  "grouped_rows owner credential rows =
     map (\<lambda>((e, c, d, cur), rs). \<lparr> ug_owner = e, ug_credential = c, ug_counted = \<lparr> cn_day = d, cn_currency = cur, cn_usage = sum_usage rs \<rparr> \<rparr>)
       (group_by (\<lambda>r. (owner r, credential r, row_day r, row_currency r)) rows)"

definition grouped_usage :: "bool \<Rightarrow> int \<Rightarrow> string list option \<Rightarrow> string list \<Rightarrow> usage_row list \<Rightarrow> usage_group list" where
  "grouped_usage aws since emails credentials rows =
     (case emails of
        Some [] \<Rightarrow> []
      | _ \<Rightarrow> grouped_rows rw_owner (\<lambda>r. if aws then rw_credential r else [])
          (filter (\<lambda>r. since \<le> rw_valid_from r \<and> rw_signature r \<noteq> None \<and>
             (case emails of None \<Rightarrow> True | Some es \<Rightarrow> rw_owner r \<in> set es \<or> rw_credential r \<in> set credentials)) rows))"

definition grouped_team_usage :: "int \<Rightarrow> string list option \<Rightarrow> usage_row list \<Rightarrow> usage_group list" where
  "grouped_team_usage since teams rows =
     grouped_rows (\<lambda>r. case rw_team r of None \<Rightarrow> [] | Some t \<Rightarrow> t) (\<lambda>r. [])
       (filter (\<lambda>r. since \<le> rw_valid_from r \<and> rw_signature r \<noteq> None \<and>
          (case rw_team r of None \<Rightarrow> False | Some t \<Rightarrow> (case teams of None \<Rightarrow> True | Some ts \<Rightarrow> t \<in> set ts))) rows)"

definition is_email :: "string \<Rightarrow> bool" where
  "is_email s = (CHR ''@'' \<in> set s)"

record usage_store =
  st_key_rows :: "usage_row list"
  st_aws_rows :: "usage_row list"
  st_key_counts :: "(string \<times> nat) list"
  st_aws_counts :: "(string \<times> nat) list"
  st_buckets :: buckets
  st_team_buckets :: buckets
  st_resets :: "(string \<times> int) list"
  st_team_resets :: "(string \<times> int) list"

text \<open>\<open>credentials\<close> are the AWS credentials with their e-mail addresses.\<close>

definition attributed :: "(string \<times> string) list \<Rightarrow> usage_group \<Rightarrow> string option" where
  "attributed credentials g = (if is_email (ug_owner g) then Some (ug_owner g) else map_of credentials (ug_credential g))"

definition buckets_from_rows :: "(string \<times> string) list \<Rightarrow> int \<Rightarrow> string list option \<Rightarrow> usage_store \<Rightarrow> buckets" where
  "buckets_from_rows credentials since emails st =
     (let mine = (case emails of None \<Rightarrow> credentials | Some es \<Rightarrow> filter (\<lambda>(i, e). e \<in> set es) credentials);
          key_groups = map (\<lambda>g. (Some (ug_owner g), g)) (grouped_usage False since emails [] (st_key_rows st));
          aws_groups = filter (\<lambda>(e, g). case e of Some (c # s) \<Rightarrow> (case emails of None \<Rightarrow> True | Some es \<Rightarrow> c # s \<in> set es) | _ \<Rightarrow> False)
            (map (\<lambda>g. (attributed mine g, g)) (grouped_usage True since emails (map fst mine) (st_aws_rows st)))
      in fold_increments (ug_counted \<circ> snd) fst (key_groups @ aws_groups))"

definition team_buckets_from_rows :: "int \<Rightarrow> string list option \<Rightarrow> usage_store \<Rightarrow> buckets" where
  "team_buckets_from_rows since teams st =
     fold_team_increments ug_counted (\<lambda>g. Some (ug_owner g))
       (grouped_team_usage since teams (st_key_rows st) @ grouped_team_usage since teams (st_aws_rows st))"

definition in_scope :: "string list option \<Rightarrow> string \<Rightarrow> bool" where
  "in_scope scope e = (case scope of None \<Rightarrow> True | Some es \<Rightarrow> e \<in> set es)"

text \<open>One side of a rebuild: delete from the horizon on, insert what the rows give, for a watermark inside the range what
  they give from it on; a full rebuild drops what is past the retention.\<close>

definition rebuild_side :: "(int \<Rightarrow> string list option \<Rightarrow> buckets) \<Rightarrow> int \<Rightarrow> string list option \<Rightarrow> (string \<times> int) list \<Rightarrow> buckets \<Rightarrow> buckets" where
  "rebuild_side from_rows now scope resets table =
     (let horizon = window_horizon now;
          rest = filter (\<lambda>((e, d, c), b). \<not> (day_number horizon \<le> d \<and> in_scope scope e)) table;
          recent = filter (\<lambda>(e, t). horizon \<le> t \<and> t \<le> now \<and> in_scope scope e) resets;
          kept = filter (\<lambda>((e, d, c), b). e \<notin> fst ` set recent) (from_rows horizon scope) @
            concat (map (\<lambda>(e, t). from_rows t (Some [e])) recent);
          full = rest @ kept
      in if scope = None
         then filter (\<lambda>((e, d, c), b). \<not> d < day_number (window_start Day now - RETENTION_DAYS * DAY)) full
         else full)"

definition clean_scope :: "string list option \<Rightarrow> string list option" where
  "clean_scope scope = map_option (\<lambda>es. uniq (filter (\<lambda>e. e \<noteq> []) es)) scope"

definition rebuild :: "(string \<times> string) list \<Rightarrow> int \<Rightarrow> string list option \<Rightarrow> string list option \<Rightarrow> usage_store \<Rightarrow> usage_store" where
  "rebuild credentials now emails teams st =
     (let scope = clean_scope emails; team_scope = clean_scope teams;
          users = ((emails \<noteq> None \<or> teams = None) \<and> scope \<noteq> Some []);
          pools = ((teams \<noteq> None \<or> emails = None) \<and> team_scope \<noteq> Some [])
      in st\<lparr>st_buckets := (if users then rebuild_side (\<lambda>t es. buckets_from_rows credentials t es st) now scope (st_resets st) (st_buckets st)
                          else st_buckets st),
            st_team_buckets := (if pools then rebuild_side (\<lambda>t ts. team_buckets_from_rows t ts st) now team_scope (st_team_resets st) (st_team_buckets st)
                               else st_team_buckets st)\<rparr>)"

definition rebuild_if_empty :: "(string \<times> string) list \<Rightarrow> int \<Rightarrow> usage_store \<Rightarrow> usage_store" where
  "rebuild_if_empty credentials now st =
     (if st_buckets st \<noteq> [] \<or> (st_key_rows st = [] \<and> st_aws_rows st = []) then st else rebuild credentials now None None st)"

definition rebuild_teams_if_empty :: "(string \<times> string) list \<Rightarrow> int \<Rightarrow> usage_store \<Rightarrow> usage_store" where
  "rebuild_teams_if_empty credentials now st =
     (let ids = uniq (filter (\<lambda>t. t \<noteq> []) (collect_some rw_team
            (filter (\<lambda>r. window_horizon now \<le> rw_valid_from r) (st_key_rows st @ st_aws_rows st))))
      in if st_team_buckets st \<noteq> [] \<or> ids = [] then st else rebuild credentials now None (Some ids) st)"

section \<open>Resets\<close>

definition reset_user_quota :: "string \<Rightarrow> int \<Rightarrow> usage_store \<Rightarrow> usage_store" where
  "reset_user_quota email now st =
     st\<lparr>st_resets := AList.update email now (st_resets st), st_buckets := filter (\<lambda>((e, d, c), b). e \<noteq> email) (st_buckets st)\<rparr>"

definition reset_team_quota :: "string \<Rightarrow> int \<Rightarrow> usage_store \<Rightarrow> usage_store" where
  "reset_team_quota team now st =
     st\<lparr>st_team_resets := AList.update team now (st_team_resets st),
        st_team_buckets := filter (\<lambda>((e, d, c), b). e \<noteq> team) (st_team_buckets st)\<rparr>"

end
