(* ===== verification/Usage_Events.thy ===== *)
theory Usage_Events
  imports Usage_Counters Key_Sources
begin

text \<open>
  The recording of usage events (administration service, \<open>services/usageEventProcessor.ts\<close>): the queue of a process with its
  batches and retries, the owner and team a row is booked to, the priced row, the insert that ignores duplicates, and the
  counters that move with it in one transaction per table. Several processes may record into one database.

  What stays fixed during a run is the record \<open>usage_base\<close>: hashing and number formatting (parameters) and the tables of
  credentials, teams and memberships. The pricing data is an argument of each batch. A transaction happens whole or not at
  all; where a batch fails is an argument. Refreshing users, publishing quota documents, tool usage and the recording of
  tenants come after or beside the rows and are not modelled, nor are random row ids and constant columns.
\<close>

section \<open>Events\<close>

record recorded_event =
  us_request_id :: "string option"
  us_timestamp :: rat
  us_auth :: string
  us_credential :: string
  us_provider :: string
  us_model :: string
  us_input :: rat
  us_output :: rat
  us_cache_creation :: "rat option"
  us_cache_read :: "rat option"
  us_image_input :: "rat option"
  us_image_output :: "rat option"
  us_audio_input :: "rat option"
  us_audio_output :: "rat option"
  us_response_time :: rat
  us_status :: rat
  us_endpoint :: "string option"
  us_on_behalf :: "string option"
  us_team :: "string option"
  us_unit :: "string option"
  us_estimated :: "bool option"
  us_upstream :: "string option"
  us_origin :: "string option"
  us_tenant :: "string option"

record usage_credential =
  uk_id :: string
  uk_email :: "string option"
  uk_user :: "string option"
  uk_name :: "string option"
  uk_team :: "string option"

record usage_base =
  ub_hash :: "string \<Rightarrow> string"
  ub_number :: "rat \<Rightarrow> string"
  ub_keys :: "usage_credential list"
  ub_aws :: "usage_credential list"
  ub_primary :: "(string \<times> string) list"
  ub_teams :: "(string \<times> string) list"

record pricing_env =
  ne_calculate :: bool
  ne_config :: js
  ne_currency :: "string option"
  ne_costs :: "cost_row list"
  ne_refreshed :: "cost_row list option"
  ne_providers :: "(string \<times> string) list"
  ne_prices :: "unit_price list"
  ne_tenants :: "tenant_row list"
  ne_parse :: "string \<Rightarrow> js option"
  ne_now :: int

definition compute_usage_signature :: "(rat \<Rightarrow> string) \<Rightarrow> recorded_event \<Rightarrow> string" where
  "compute_usage_signature number e =
     (let opt = (\<lambda>v. case v of None \<Rightarrow> [] | Some n \<Rightarrow> number n) in
      join ''|'' [case us_request_id e of None \<Rightarrow> [] | Some i \<Rightarrow> i, us_auth e, us_credential e, us_model e, number (us_status e),
        number (us_input e), number (us_output e), opt (us_cache_creation e), opt (us_cache_read e), number (us_response_time e),
        number (us_timestamp e)])"

definition hash_usage_signature :: "usage_base \<Rightarrow> recorded_event \<Rightarrow> string" where
  "hash_usage_signature base e = ub_hash base (compute_usage_signature (ub_number base) e)"

section \<open>Who a row is booked to\<close>

definition well_formed_email :: "string \<Rightarrow> bool" where
  "well_formed_email s =
     (let ok = (\<lambda>c. \<not> is_space c \<and> (32 :: nat) \<le> of_char c \<and> of_char c \<noteq> (127 :: nat)) in
      case split_char CHR ''@'' s of [a, b] \<Rightarrow> a \<noteq> [] \<and> b \<noteq> [] \<and> list_all ok a \<and> list_all ok b | _ \<Rightarrow> False)"

definition MAX_EMAIL_LENGTH :: nat where
  "MAX_EMAIL_LENGTH = 255"

definition row_owner_email :: "recorded_event \<Rightarrow> string option \<Rightarrow> string option" where
  "row_owner_email e key_email =
     (case (key_email, us_on_behalf e) of
        (Some k, Some actor) \<Rightarrow>
          if is_service_key_email k \<and> length actor \<le> MAX_EMAIL_LENGTH \<and> well_formed_email actor then Some actor else Some k
      | _ \<Rightarrow> key_email)"

definition row_team_id :: "(string \<times> string) list \<Rightarrow> recorded_event \<Rightarrow> usage_credential option \<Rightarrow> string option \<Rightarrow> string option" where
  "row_team_id primary e cred owner =
     (let own = or_text (case owner of Some (c # s) \<Rightarrow> map_of primary (c # s) | _ \<Rightarrow> None) None in
      case Option.bind cred uk_email of
        Some k \<Rightarrow> if is_service_key_email k then own else or_text (us_team e) (or_text (Option.bind cred uk_team) own)
      | None \<Rightarrow> or_text (us_team e) (or_text (Option.bind cred uk_team) own))"

definition is_file_search_endpoint :: "string option \<Rightarrow> bool" where
  "is_file_search_endpoint t = (case t of None \<Rightarrow> False | Some s \<Rightarrow> prefix ''file_search/'' s)"

definition is_external :: "recorded_event \<Rightarrow> bool" where
  "is_external e = (us_origin e = Some ''external'')"

text \<open>The connection of an external model: what follows the last \<open>--\<close> of its id.\<close>

definition connection_of :: "string \<Rightarrow> string" where
  "connection_of model =
     (case filter (prefix ''--'') (map (\<lambda>n. drop n model) [0 ..< length model]) of [] \<Rightarrow> [] | ts \<Rightarrow> drop 2 (last ts))"

definition find_credential :: "usage_credential list \<Rightarrow> string \<Rightarrow> usage_credential option" where
  "find_credential creds i = List.find (\<lambda>c. uk_id c = i) creds"

section \<open>The row of an event\<close>

definition event_tokens :: "recorded_event \<Rightarrow> token_counts" where
  "event_tokens e =
     \<lparr> tk_input = us_input e, tk_output = us_output e, tk_cache_creation = amount_or_zero (us_cache_creation e),
       tk_cache_read = amount_or_zero (us_cache_read e), tk_image_output = amount_or_zero (us_image_output e),
       tk_audio_input = amount_or_zero (us_audio_input e), tk_audio_output = amount_or_zero (us_audio_output e) \<rparr>"

definition instant_of :: "recorded_event \<Rightarrow> int" where
  "instant_of e = \<lfloor>us_timestamp e * 1000\<rfloor>"

definition event_costs :: "pricing_env \<Rightarrow> bool \<Rightarrow> recorded_event \<Rightarrow> token_costs" where
  "event_costs env zero_when_unpriced e =
     (if is_external e then no_costs (Some (us_provider e))
      else if ne_calculate env
      then calculate_costs (ne_parse env) (get_model_pricing (ne_providers env) (ne_refreshed env) (ne_costs env) (us_model e) (instant_of e))
             (us_model e) (event_tokens e) zero_when_unpriced
      else no_costs (Some (get_model_provider (ne_providers env) (us_model e))))"

definition event_provider :: "pricing_env \<Rightarrow> token_costs \<Rightarrow> recorded_event \<Rightarrow> string" where
  "event_provider env costs e =
     (case tc_provider costs of Some (c # s) \<Rightarrow> c # s | _ \<Rightarrow> get_model_provider (ne_providers env) (us_model e))"

definition pricing_instant :: "pricing_env \<Rightarrow> recorded_event \<Rightarrow> int" where
  "pricing_instant env e = (if us_timestamp e = 0 then ne_now env else instant_of e)"

definition event_native :: "pricing_env \<Rightarrow> string \<Rightarrow> recorded_event \<Rightarrow> sap_native option" where
  "event_native env provider e =
     (if is_external e then None
      else compute_sap_native (ne_config env) (ne_currency env) (ne_costs env) (ne_prices env) (us_model e) provider (event_tokens e)
             (amount_or_zero (us_image_input e)) (pricing_instant env e)
             (billing_for_tenant (ne_config env) (ne_tenants env) (us_tenant e)))"

definition unit_of :: "bool \<Rightarrow> recorded_event \<Rightarrow> string" where
  "unit_of aws e =
     (case us_unit e of
        Some u \<Rightarrow> if u = ''cells'' \<or> (u = ''units'' \<and> \<not> aws) then u else ''tokens''
      | None \<Rightarrow> ''tokens'')"

definition event_credential :: "usage_base \<Rightarrow> bool \<Rightarrow> recorded_event \<Rightarrow> usage_credential option" where
  "event_credential base aws e = find_credential (if aws then ub_aws base else ub_keys base) (us_credential e)"

text \<open>The owner of the event, and the text of the owner column: the user id of an AWS credential, else the e-mail.\<close>

definition event_owner :: "usage_base \<Rightarrow> bool \<Rightarrow> recorded_event \<Rightarrow> string option" where
  "event_owner base aws e =
     (let email = Option.bind (event_credential base aws e) uk_email in if aws then email else row_owner_email e email)"

definition owner_column :: "usage_base \<Rightarrow> bool \<Rightarrow> recorded_event \<Rightarrow> string" where
  "owner_column base aws e =
     (let t = (if aws then or_text (Option.bind (event_credential base aws e) uk_user) (or_text (event_owner base aws e) (Some ''unknown-user''))
               else or_text (event_owner base aws e) (Some ''unknown@example.com''))
      in case t of None \<Rightarrow> [] | Some s \<Rightarrow> s)"

definition usage_row_of :: "usage_base \<Rightarrow> pricing_env \<Rightarrow> bool \<Rightarrow> recorded_event \<Rightarrow> usage_row" where
  "usage_row_of base env aws e =
     (let cred = event_credential base aws e;
          file_search = (\<not> aws \<and> is_file_search_endpoint (us_endpoint e));
          costs = event_costs env file_search e;
          provider = event_provider env costs e;
          native = event_native env provider e;
          team = row_team_id (ub_primary base) e cred (event_owner base aws e);
          (list_cost, list_currency, missing) = price_external_event (ne_costs env) (us_model e) (pricing_instant env e) (event_tokens e)
      in \<lparr> rw_signature = Some (hash_usage_signature base e), rw_request_id = us_request_id e, rw_credential = us_credential e,
           rw_owner = owner_column base aws e,
           rw_name = (case or_text (Option.bind cred uk_name) (Some (if aws then ''Unknown Credential'' else ''Unknown Key'')) of Some n \<Rightarrow> n | None \<Rightarrow> []),
           rw_team = team, rw_team_name = Option.bind team (map_of (ub_teams base)),
           rw_endpoint = (case us_endpoint e of Some (c # s) \<Rightarrow> c # s | _ \<Rightarrow> ''/'' @ lower provider @ ''/api/v1/chat/completions''),
           rw_provider = provider, rw_model = us_model e, rw_status = us_status e, rw_response_time = us_response_time e,
           rw_valid_from = instant_of e, rw_tokens = event_tokens e, rw_image_input = amount_or_zero (us_image_input e),
           rw_costs = (if is_external e then None else Some (tc_parts costs, tc_total costs)), rw_native = native,
           rw_sap_cost = (case Option.bind native sn_cost of Some c \<Rightarrow> Some c | None \<Rightarrow> if file_search \<and> \<not> is_external e then Some 0 else None),
           rw_list_cost = (if is_external e then list_cost else None), rw_list_currency = (if is_external e then list_currency else None),
           rw_pricing_missing = (if is_external e then Some missing else None),
           rw_unit = unit_of aws e, rw_estimated = us_estimated e, rw_origin = (if is_external e then ''external'' else ''sap''),
           rw_connection = (if is_external e then Some (connection_of (us_model e)) else None),
           rw_upstream = (if is_external e then us_upstream e else None),
           rw_tenant = (if is_external e then None else or_text (us_tenant e) None) \<rparr>)"

section \<open>Persisting\<close>

text \<open>The columns of the statement are those of the first record; only external records have the list cost columns.\<close>

definition stored_row :: "usage_row list \<Rightarrow> usage_row \<Rightarrow> usage_row" where
  "stored_row records r =
     (case records of
        f # _ \<Rightarrow> if rw_origin f = ''external'' then r else r\<lparr>rw_list_cost := None, rw_list_currency := None, rw_pricing_missing := None\<rparr>
      | [] \<Rightarrow> r)"

fun insert_rows :: "usage_row list \<Rightarrow> usage_row list \<Rightarrow> bool list \<times> usage_row list" where
  "insert_rows [] table = ([], table)"
| "insert_rows (r # rs) table =
     (let fresh = (rw_signature r \<notin> set (map rw_signature table));
          (flags, table') = insert_rows rs (if fresh then table @ [r] else table)
      in (fresh # flags, table'))"

definition insert_ignoring_duplicates :: "usage_row list \<Rightarrow> usage_row list \<Rightarrow> bool list \<times> usage_row list" where
  "insert_ignoring_duplicates records table = insert_rows (map (stored_row records) records) table"

definition landed :: "bool list \<Rightarrow> 'a list \<Rightarrow> 'a list" where
  "landed flags xs = map snd (filter fst (zip flags xs))"

definition bump_usage_count :: "recorded_event list \<Rightarrow> (string \<times> nat) list \<Rightarrow> (string \<times> nat) list" where
  "bump_usage_count events counts =
     map (\<lambda>(i, n). (i, n + length (filter (\<lambda>e. us_credential e = i) events))) counts"

definition persist_api_key_usage :: "usage_base \<Rightarrow> pricing_env \<Rightarrow> recorded_event list \<Rightarrow> usage_store \<Rightarrow> usage_store" where
  "persist_api_key_usage base env events st =
     (let records = map (usage_row_of base env False) events;
          (flags, table) = insert_ignoring_duplicates records (st_key_rows st);
          rows = landed flags records
      in st\<lparr>st_key_rows := table, st_key_counts := bump_usage_count (landed flags events) (st_key_counts st),
            st_buckets := apply_increments (fold_increments count_row (\<lambda>r. Some (rw_owner r)) rows) (st_buckets st),
            st_team_buckets := apply_increments (fold_team_increments count_row rw_team rows) (st_team_buckets st)\<rparr>)"

definition persist_aws_credential_usage :: "usage_base \<Rightarrow> pricing_env \<Rightarrow> recorded_event list \<Rightarrow> usage_store \<Rightarrow> usage_store" where
  "persist_aws_credential_usage base env events st =
     (let records = map (usage_row_of base env True) events;
          (flags, table) = insert_ignoring_duplicates records (st_aws_rows st);
          rows = landed flags records
      in st\<lparr>st_aws_rows := table, st_aws_counts := bump_usage_count (landed flags events) (st_aws_counts st),
            st_buckets := apply_increments
              (fold_increments count_row (\<lambda>r. Option.bind (find_credential (ub_aws base) (rw_credential r)) uk_email) rows) (st_buckets st),
            st_team_buckets := apply_increments (fold_team_increments count_row rw_team rows) (st_team_buckets st)\<rparr>)"

fun keep_first :: "('a \<Rightarrow> 'k) \<Rightarrow> 'k list \<Rightarrow> 'a list \<Rightarrow> 'a list" where
  "keep_first key seen [] = []"
| "keep_first key seen (x # xs) =
     (if key x \<in> set seen then keep_first key seen xs else x # keep_first key (key x # seen) xs)"

text \<open>Where a batch fails: before or in the first transaction, in the second, or after both.\<close>

datatype batch_failure = No_Failure | Key_Failure | Aws_Failure | Late_Failure

definition persist_usage_events :: "usage_base \<Rightarrow> pricing_env \<Rightarrow> batch_failure \<Rightarrow> recorded_event list \<Rightarrow> usage_store \<Rightarrow> usage_store \<times> bool" where
  "persist_usage_events base env failure events st =
     (let deduped = keep_first (compute_usage_signature (ub_number base)) [] events;
          key_events = filter (\<lambda>e. us_auth e = ''api_key'') deduped;
          aws_events = filter (\<lambda>e. us_auth e = ''aws_credential'') deduped;
          st1 = (if key_events \<noteq> [] then persist_api_key_usage base env key_events st else st);
          st2 = (if aws_events \<noteq> [] then persist_aws_credential_usage base env aws_events st1 else st1)
      in case failure of
           Key_Failure \<Rightarrow> (st, False)
         | Aws_Failure \<Rightarrow> (st1, False)
         | Late_Failure \<Rightarrow> (st2, False)
         | No_Failure \<Rightarrow> (st2, True))"

section \<open>The processor\<close>

record processor =
  pr_buffer :: "recorded_event list"
  pr_flight :: "recorded_event list option"
  pr_processed :: "string list"

definition max_processed_ids :: nat where
  "max_processed_ids = 10000"

text \<open>A missing or unknown id is no key of duplicates.\<close>

definition dedup_id :: "recorded_event \<Rightarrow> string option" where
  "dedup_id e = (case us_request_id e of Some (c # s) \<Rightarrow> if c # s = ''unknown'' then None else Some (c # s) | _ \<Rightarrow> None)"

definition already_processed :: "processor \<Rightarrow> recorded_event \<Rightarrow> bool" where
  "already_processed p e = (case dedup_id e of None \<Rightarrow> False | Some i \<Rightarrow> i \<in> set (pr_processed p))"

definition mark_processed :: "recorded_event list \<Rightarrow> processor \<Rightarrow> processor" where
  "mark_processed events p =
     (let ids = push_all_new (collect_some dedup_id events) (pr_processed p) in
      p\<lparr>pr_processed := drop (length ids - max_processed_ids) ids\<rparr>)"

definition start_batch :: "bool \<Rightarrow> processor \<Rightarrow> processor" where
  "start_batch has_model_data p =
     (let batch = (if has_model_data then pr_buffer p else filter is_external (pr_buffer p));
          held = (if has_model_data then [] else filter (\<lambda>e. \<not> is_external e) (pr_buffer p))
      in if pr_flight p \<noteq> None \<or> batch = [] then p else p\<lparr>pr_flight := Some batch, pr_buffer := held\<rparr>)"

definition queue_event :: "nat \<Rightarrow> bool \<Rightarrow> recorded_event \<Rightarrow> processor \<Rightarrow> processor" where
  "queue_event batch_size has_model_data e p =
     (if already_processed p e then p
      else let p1 = p\<lparr>pr_buffer := pr_buffer p @ [e]\<rparr> in
        if batch_size \<le> length (pr_buffer p1) then start_batch has_model_data p1 else p1)"

definition finish_batch :: "usage_base \<Rightarrow> pricing_env \<Rightarrow> batch_failure \<Rightarrow> processor \<Rightarrow> usage_store \<Rightarrow> processor \<times> usage_store" where
  "finish_batch base env failure p st =
     (case pr_flight p of
        None \<Rightarrow> (p, st)
      | Some batch \<Rightarrow>
          (let (st', ok) = persist_usage_events base env failure batch st; p1 = p\<lparr>pr_flight := None\<rparr>
           in if ok then (mark_processed batch p1, st') else (p1\<lparr>pr_buffer := batch @ pr_buffer p1\<rparr>, st')))"

definition process_memory_queue ::
  "usage_base \<Rightarrow> pricing_env \<Rightarrow> bool \<Rightarrow> batch_failure \<Rightarrow> recorded_event list \<Rightarrow> processor \<Rightarrow> usage_store \<Rightarrow> processor \<times> usage_store" where
  "process_memory_queue base env has_model_data failure events p st =
     (let mine = (if has_model_data then events else filter is_external events);
          p1 = (if has_model_data then p else p\<lparr>pr_buffer := pr_buffer p @ filter (\<lambda>e. \<not> is_external e) events\<rparr>);
          fresh = filter (\<lambda>e. \<not> already_processed p1 e) mine
      in if fresh = [] then (p1, st)
         else let (st', ok) = persist_usage_events base env failure fresh st in (if ok then mark_processed fresh p1 else p1, st'))"

end
