(* ===== verification/Usage_Sums.thy ===== *)
theory Usage_Sums
  imports Usage_Events
begin

text \<open>
  Sums over buckets and rows: what folding, applying, grouping and rebuilding do to the requests and tokens of owners
  and days. A figure that adds up is the locale \<open>usage_measure\<close>, with the requests and the fresh tokens as its instances;
  the costs are no instance, because every fold rounds them.
\<close>

section \<open>Sums\<close>

definition bucket_sum :: "(bucket \<Rightarrow> rat) \<Rightarrow> (string \<Rightarrow> int \<Rightarrow> bool) \<Rightarrow> buckets \<Rightarrow> rat" where
  "bucket_sum f P table = sum_list (map (\<lambda>((e, d, c), b). if P e d then f b else 0) table)"

definition owned_sum :: "('a \<Rightarrow> string option) \<Rightarrow> ('a \<Rightarrow> int) \<Rightarrow> ('a \<Rightarrow> rat) \<Rightarrow> (string \<Rightarrow> int \<Rightarrow> bool) \<Rightarrow> 'a list \<Rightarrow> rat" where
  "owned_sum owner day g P xs = sum_list (map (\<lambda>x. case owner x of None \<Rightarrow> 0 | Some e \<Rightarrow> if P e (day x) then g x else 0) xs)"

lemma bucket_sum_simps [simp]:
  "bucket_sum f P [] = 0"
  "bucket_sum f P (((e, d, c), b) # t) = (if P e d then f b else 0) + bucket_sum f P t"
  "bucket_sum f P (s @ t) = bucket_sum f P s + bucket_sum f P t"
  by (simp_all add: bucket_sum_def)

lemma owned_sum_simps [simp]:
  "owned_sum owner day g P [] = 0"
  "owned_sum owner day g P (x # xs) = (case owner x of None \<Rightarrow> 0 | Some e \<Rightarrow> if P e (day x) then g x else 0) + owned_sum owner day g P xs"
  "owned_sum owner day g P (xs @ ys) = owned_sum owner day g P xs + owned_sum owner day g P ys"
  by (simp_all add: owned_sum_def)

lemma owned_sum_cong:
  "(\<And>x. x \<in> set xs \<Longrightarrow> owner x = owner' (h x) \<and> day x = day' (h x) \<and> g x = g' (h x)) \<Longrightarrow>
     owned_sum owner day g P xs = owned_sum owner' day' g' P (map h xs)"
  by (induction xs) (auto split: option.splits)

lemma bucket_sum_filter:
  "(\<And>e d c b. ((e, d, c), b) \<in> set t \<Longrightarrow> P e d \<Longrightarrow> Q ((e, d, c), b)) \<Longrightarrow> bucket_sum f P (filter Q t) = bucket_sum f P t"
  by (induction t) (auto simp: split_paired_all)

lemma bucket_sum_none:
  "(\<And>e d c b. ((e, d, c), b) \<in> set t \<Longrightarrow> \<not> P e d) \<Longrightarrow> bucket_sum f P t = 0"
  by (induction t) (auto simp: split_paired_all)

lemma bucket_sum_upsert:
  assumes "\<And>b. f (h (Some b)) = f b + v" and "f (h None) = v"
  shows "bucket_sum f P (upsert h (e, d, c) t) = bucket_sum f P t + (if P e d then v else 0)"
  using assms by (induction t) (auto simp: split_paired_all)

lemma sum_list_once:
  fixes s :: "'k \<Rightarrow> rat"
  shows "distinct ks \<Longrightarrow> k \<in> set ks \<Longrightarrow> sum_list (map (\<lambda>j. if k = j then v + s j else s j) ks) = v + sum_list (map s ks)"
proof (induction ks)
  case (Cons j ks)
  show ?case
  proof (cases "k = j")
    case True
    then have "k \<notin> set ks" using Cons.prems(1) by simp
    then have "sum_list (map (\<lambda>j. if k = j then v + s j else s j) ks) = sum_list (map s ks)"
      by (intro arg_cong[where f = sum_list] map_cong) auto
    then show ?thesis using True by simp
  qed (use Cons in simp)
qed simp

lemma sum_by_key:
  fixes h :: "'a \<Rightarrow> rat"
  assumes "distinct ks" and "set (map key xs) \<subseteq> set ks"
  shows "sum_list (map (\<lambda>k. sum_list (map h (filter (\<lambda>x. key x = k) xs))) ks) = sum_list (map h xs)"
  using assms(2)
proof (induction xs)
  case (Cons x xs)
  have "sum_list (map (\<lambda>k. sum_list (map h (filter (\<lambda>y. key y = k) (x # xs)))) ks) =
      sum_list (map (\<lambda>k. if key x = k then h x + sum_list (map h (filter (\<lambda>y. key y = k) xs)) else sum_list (map h (filter (\<lambda>y. key y = k) xs))) ks)"
    by (intro arg_cong[where f = sum_list] map_cong) auto
  also have "\<dots> = h x + sum_list (map (\<lambda>k. sum_list (map h (filter (\<lambda>y. key y = k) xs))) ks)"
    using assms(1) Cons.prems by (intro sum_list_once) auto
  finally show ?case using Cons by simp
qed simp

lemma set_uniq_eq: "set (uniq xs) = set xs \<and> distinct (uniq xs)"
  by (induction xs) auto

lemma sum_by_group:
  fixes h :: "'a \<Rightarrow> rat"
  shows "sum_list (map (\<lambda>(k, rs). sum_list (map h rs)) (group_by key xs)) = sum_list (map h xs)"
proof -
  have "sum_list (map (\<lambda>(k, rs). sum_list (map h rs)) (group_by key xs)) =
      sum_list (map (\<lambda>k. sum_list (map h (filter (\<lambda>x. key x = k) xs))) (uniq (map key xs)))"
    by (simp add: group_by_def o_def)
  also have "\<dots> = sum_list (map h xs)" using set_uniq_eq[of "map key xs"] by (intro sum_by_key) auto
  finally show ?thesis .
qed

section \<open>Figures that add up\<close>

locale usage_measure =
  fixes f :: "bucket \<Rightarrow> rat" and g :: "usage_row \<Rightarrow> rat"
  assumes counted: "f (add_counted u (Some b)) = f b + f u" "f (add_counted u None) = f u"
    and added: "f (add_bucket i (Some b)) = f b + f i" "f (add_bucket i None) = f i"
    and of_row: "f (cn_usage (count_row r)) = g r"
    and of_rows: "f (sum_usage rows) = sum_list (map g rows)"
    and stored: "g (r\<lparr>rw_list_cost := a, rw_list_currency := b', rw_pricing_missing := c\<rparr>) = g r"
begin

lemma folded_onto:
  "bucket_sum f P (fold (\<lambda>r acc. case owner r of None \<Rightarrow> acc
       | Some e \<Rightarrow> upsert (add_counted (cn_usage (count r))) (e, cn_day (count r), cn_currency (count r)) acc) xs acc) =
     bucket_sum f P acc + owned_sum owner (cn_day \<circ> count) (f \<circ> cn_usage \<circ> count) P xs"
proof (induction xs arbitrary: acc)
  case (Cons x xs)
  then show ?case by (auto simp: bucket_sum_upsert[of f, OF counted] split: option.splits)
qed simp

lemma folded: "bucket_sum f P (fold_counted count owner xs) = owned_sum owner (cn_day \<circ> count) (f \<circ> cn_usage \<circ> count) P xs"
  unfolding fold_counted_def folded_onto by simp

lemma applied: "bucket_sum f P (apply_increments incs table) = bucket_sum f P incs + bucket_sum f P table"
proof (induction incs arbitrary: table)
  case (Cons x incs)
  obtain e d c i where x: "x = ((e, d, c), i)" by (metis prod.collapse)
  have "apply_increments (x # incs) table = apply_increments incs (upsert (add_bucket i) (e, d, c) table)"
    by (simp add: apply_increments_def x)
  then show ?case using Cons by (simp add: x bucket_sum_upsert[of f, OF added])
qed (simp add: apply_increments_def)

lemma folded_rows:
  "bucket_sum f P (fold_increments count_row owner rows) = owned_sum (\<lambda>r. real_owner (owner r)) row_day g P rows"
  unfolding fold_increments_def folded by (simp add: o_def of_row count_row_def[THEN arg_cong[where f = cn_day]])

lemma grouped:
  "owned_sum who (cn_day \<circ> ug_counted) (f \<circ> cn_usage \<circ> ug_counted) P (grouped_rows owner credential rows) =
     owned_sum (\<lambda>r. who \<lparr> ug_owner = owner r, ug_credential = credential r, ug_counted = undefined \<rparr>) row_day g P rows"
  if who: "\<And>e c u u'. who \<lparr> ug_owner = e, ug_credential = c, ug_counted = u \<rparr> = who \<lparr> ug_owner = e, ug_credential = c, ug_counted = u' \<rparr>"
proof -
  let ?key = "\<lambda>r. (owner r, credential r, row_day r, row_currency r)"
  let ?h = "\<lambda>r. case who \<lparr> ug_owner = owner r, ug_credential = credential r, ug_counted = undefined \<rparr> of
      None \<Rightarrow> 0 | Some e \<Rightarrow> if P e (row_day r) then g r else 0"
  have group: "(case who \<lparr> ug_owner = e, ug_credential = c, ug_counted = \<lparr> cn_day = d, cn_currency = cur, cn_usage = sum_usage rs \<rparr> \<rparr> of
        None \<Rightarrow> 0 | Some w \<Rightarrow> if P w d then f (sum_usage rs) else 0) = sum_list (map ?h rs)"
    if "\<forall>r \<in> set rs. ?key r = (e, c, d, cur)" for e c d cur rs
  proof -
    note same = who[of e c "\<lparr> cn_day = d, cn_currency = cur, cn_usage = sum_usage rs \<rparr>" undefined]
    have "sum_list (map ?h rs) = (case who \<lparr> ug_owner = e, ug_credential = c, ug_counted = undefined \<rparr> of
        None \<Rightarrow> 0 | Some w \<Rightarrow> if P w d then sum_list (map g rs) else 0)"
      using that by (induction rs) (auto split: option.splits)
    then show ?thesis by (simp only: same of_rows)
  qed
  have lhs: "owned_sum who (cn_day \<circ> ug_counted) (f \<circ> cn_usage \<circ> ug_counted) P (grouped_rows owner credential rows) =
      sum_list (map (\<lambda>(k, rs). case k of (e, c, d, cur) \<Rightarrow>
        (case who \<lparr> ug_owner = e, ug_credential = c, ug_counted = \<lparr> cn_day = d, cn_currency = cur, cn_usage = sum_usage rs \<rparr> \<rparr> of
          None \<Rightarrow> 0 | Some w \<Rightarrow> if P w d then f (sum_usage rs) else 0)) (group_by ?key rows))"
    unfolding owned_sum_def grouped_rows_def map_map
    by (intro arg_cong[where f = sum_list] map_cong refl) (simp add: split_paired_all split: option.split)
  have "sum_list (map (\<lambda>(k, rs). case k of (e, c, d, cur) \<Rightarrow>
        (case who \<lparr> ug_owner = e, ug_credential = c, ug_counted = \<lparr> cn_day = d, cn_currency = cur, cn_usage = sum_usage rs \<rparr> \<rparr> of
          None \<Rightarrow> 0 | Some w \<Rightarrow> if P w d then f (sum_usage rs) else 0)) (group_by ?key rows)) =
      sum_list (map (\<lambda>(k, rs). sum_list (map ?h rs)) (group_by ?key rows))"
  proof (intro arg_cong[where f = sum_list] map_cong refl)
    fix x assume "x \<in> set (group_by ?key rows)"
    then obtain k where k: "x = (k, filter (\<lambda>r. ?key r = k) rows)" unfolding group_by_def set_map by blast
    obtain e c d cur where e: "k = (e, c, d, cur)" by (cases k)
    define rs where "rs = filter (\<lambda>r. ?key r = k) rows"
    have x: "x = ((e, c, d, cur), rs)" "\<forall>r \<in> set rs. ?key r = (e, c, d, cur)" using k e by (simp_all add: rs_def)
    show "(case x of (k, rs) \<Rightarrow> case k of (e, c, d, cur) \<Rightarrow>
        (case who \<lparr> ug_owner = e, ug_credential = c, ug_counted = \<lparr> cn_day = d, cn_currency = cur, cn_usage = sum_usage rs \<rparr> \<rparr> of
          None \<Rightarrow> 0 | Some w \<Rightarrow> if P w d then f (sum_usage rs) else 0)) = (case x of (k, rs) \<Rightarrow> sum_list (map ?h rs))"
      unfolding x(1) prod.case by (rule group[OF x(2)])
  qed
  also have "\<dots> = sum_list (map ?h rows)" by (rule sum_by_group[of ?h ?key rows])
  also have "\<dots> = owned_sum (\<lambda>r. who \<lparr> ug_owner = owner r, ug_credential = credential r, ug_counted = undefined \<rparr>) row_day g P rows"
    unfolding owned_sum_def ..
  finally show ?thesis unfolding lhs .
qed

end

interpretation requests: usage_measure bk_requests "\<lambda>_. 1"
  by unfold_locales (simp_all add: add_counted_def add_bucket_def count_row_def sum_usage_def empty_bucket_def sum_list_triv)

interpretation tokens: usage_measure bk_tokens row_tokens
  by unfold_locales (simp_all add: add_counted_def add_bucket_def count_row_def sum_usage_def empty_bucket_def row_tokens_def)

end
