(* ===== verification/Usage_Guarantees.thy ===== *)
theory Usage_Guarantees
  imports Usage_Sums
begin

text \<open>
  Several admin processes record into one database: the steps, and what holds in every state they reach. Every distinct
  event is one row and counted once, however often it is delivered or retried, and no accepted event is lost.
\<close>

section \<open>Processes at one database\<close>

text \<open>The last field records the events that were accepted.\<close>

record usage_fleet =
  uf_proc :: "nat \<Rightarrow> processor"
  uf_store :: usage_store
  uf_taken :: "recorded_event list"

datatype usage_action =
    Queue nat bool recorded_event
  | Timer nat bool
  | Finish nat batch_failure pricing_env
  | Memory nat bool batch_failure pricing_env "recorded_event list"

text \<open>What the memory queue of a process accepts: what it holds for want of model data, and what it persists.\<close>

definition memory_taken :: "usage_base \<Rightarrow> pricing_env \<Rightarrow> bool \<Rightarrow> batch_failure \<Rightarrow> recorded_event list \<Rightarrow> processor \<Rightarrow> usage_store \<Rightarrow> recorded_event list" where
  "memory_taken base env has_model_data failure events p st =
     (if has_model_data then [] else filter (\<lambda>e. \<not> is_external e) events) @
     (if failure = No_Failure then filter (\<lambda>e. \<not> already_processed p e) (if has_model_data then events else filter is_external events) else [])"

fun usage_step :: "usage_base \<Rightarrow> nat \<Rightarrow> usage_action \<Rightarrow> usage_fleet \<Rightarrow> usage_fleet" where
  "usage_step base limit (Queue n has_data e) fl =
     fl\<lparr>uf_proc := (uf_proc fl)(n := queue_event limit has_data e (uf_proc fl n)),
        uf_taken := (if already_processed (uf_proc fl n) e then uf_taken fl else uf_taken fl @ [e])\<rparr>"
| "usage_step base limit (Timer n has_data) fl =
     fl\<lparr>uf_proc := (uf_proc fl)(n := start_batch has_data (uf_proc fl n))\<rparr>"
| "usage_step base limit (Finish n failure env) fl =
     (let (p, st) = finish_batch base env failure (uf_proc fl n) (uf_store fl)
      in fl\<lparr>uf_proc := (uf_proc fl)(n := p), uf_store := st\<rparr>)"
| "usage_step base limit (Memory n has_data failure env events) fl =
     (let (p, st) = process_memory_queue base env has_data failure events (uf_proc fl n) (uf_store fl)
      in fl\<lparr>uf_proc := (uf_proc fl)(n := p), uf_store := st,
           uf_taken := uf_taken fl @ memory_taken base env has_data failure events (uf_proc fl n) (uf_store fl)\<rparr>)"

definition fresh_processor :: processor where
  "fresh_processor = \<lparr> pr_buffer = [], pr_flight = None, pr_processed = [] \<rparr>"

definition start_usage :: "usage_base \<Rightarrow> usage_fleet" where
  "start_usage base =
     \<lparr> uf_proc = (\<lambda>_. fresh_processor),
       uf_store = \<lparr> st_key_rows = [], st_aws_rows = [], st_key_counts = map (\<lambda>c. (uk_id c, 0)) (ub_keys base),
         st_aws_counts = map (\<lambda>c. (uk_id c, 0)) (ub_aws base), st_buckets = [], st_team_buckets = [], st_resets = [], st_team_resets = [] \<rparr>,
       uf_taken = [] \<rparr>"

inductive usage_reachable :: "usage_base \<Rightarrow> nat \<Rightarrow> usage_fleet \<Rightarrow> bool" for base limit where
  start: "usage_reachable base limit (start_usage base)"
| step: "usage_reachable base limit fl \<Longrightarrow> usage_reachable base limit (usage_step base limit act fl)"

section \<open>Inserting\<close>

lemma landed_simps [simp]:
  "landed [] xs = []"
  "landed (b # bs) (x # xs) = (if b then x # landed bs xs else landed bs xs)"
  by (simp_all add: landed_def)

lemma landed_map: "landed flags (map h xs) = map h (landed flags xs)"
proof (induction flags arbitrary: xs)
  case (Cons b flags)
  then show ?case by (cases xs) (simp_all add: landed_def)
qed simp

lemma inserted_table: "insert_rows rs table = (flags, table') \<Longrightarrow> table' = table @ landed flags rs"
proof (induction rs arbitrary: table flags)
  case (Cons r rs)
  let ?fresh = "rw_signature r \<notin> set (map rw_signature table)"
  obtain fs where fs: "insert_rows rs (if ?fresh then table @ [r] else table) = (fs, table')" "flags = ?fresh # fs"
    using Cons.prems by (auto simp: Let_def split: prod.splits)
  show ?case using Cons.IH[OF fs(1)] fs(2) by (cases ?fresh) simp_all
qed simp

lemma inserted_signatures:
  "insert_rows rs table = (flags, table') \<Longrightarrow> set (map rw_signature table') = set (map rw_signature table) \<union> set (map rw_signature rs)"
  by (induction rs arbitrary: table flags) (auto simp: Let_def split: prod.splits if_splits)

lemma inserted_distinct:
  "insert_rows rs table = (flags, table') \<Longrightarrow> distinct (map rw_signature table) \<Longrightarrow> distinct (map rw_signature table')"
  by (induction rs arbitrary: table flags) (auto simp: Let_def split: prod.splits if_splits)

lemma stored_same [simp]:
  "rw_signature (stored_row rs r) = rw_signature r" "rw_credential (stored_row rs r) = rw_credential r"
  "rw_owner (stored_row rs r) = rw_owner r" "row_day (stored_row rs r) = row_day r" "rw_team (stored_row rs r) = rw_team r"
  by (simp_all add: stored_row_def row_day_def split: list.split)

lemma row_of_same [simp]:
  "rw_signature (usage_row_of base env aws e) = Some (hash_usage_signature base e)"
  "rw_credential (usage_row_of base env aws e) = us_credential e"
  "rw_owner (usage_row_of base env aws e) = owner_column base aws e"
  by (simp_all add: usage_row_of_def Let_def split: prod.split)

section \<open>One batch\<close>

text \<open>The owner a row counts for: the text of its column, or for an AWS row the e-mail of its credential.\<close>

definition key_owner :: "usage_row \<Rightarrow> string option" where
  "key_owner r = real_owner (Some (rw_owner r))"

definition aws_owner :: "usage_base \<Rightarrow> usage_row \<Rightarrow> string option" where
  "aws_owner base r = real_owner (Option.bind (find_credential (ub_aws base) (rw_credential r)) uk_email)"

definition row_usage :: "usage_base \<Rightarrow> (usage_row \<Rightarrow> rat) \<Rightarrow> (string \<Rightarrow> int \<Rightarrow> bool) \<Rightarrow> usage_store \<Rightarrow> rat" where
  "row_usage base g P st = owned_sum key_owner row_day g P (st_key_rows st) + owned_sum (aws_owner base) row_day g P (st_aws_rows st)"

context usage_measure
begin

lemma stored_sum:
  assumes "\<And>r. owner (stored_row rs r) = owner r"
  shows "owned_sum owner row_day g P (map (stored_row rs) xs) = owned_sum owner row_day g P xs"
proof -
  have "g (stored_row rs r) = g r" for r by (simp add: stored_row_def stored split: list.split)
  then show ?thesis by (induction xs) (simp_all add: assms split: option.split)
qed

lemma persisted_keys:
  "bucket_sum f P (st_buckets (persist_api_key_usage base env events st)) + row_usage base g P st =
     bucket_sum f P (st_buckets st) + row_usage base g P (persist_api_key_usage base env events st)"
proof -
  let ?rs = "map (usage_row_of base env False) events"
  obtain flags table where i: "insert_ignoring_duplicates ?rs (st_key_rows st) = (flags, table)" by fastforce
  have t: "table = st_key_rows st @ map (stored_row ?rs) (landed flags ?rs)"
    using inserted_table[OF i[unfolded insert_ignoring_duplicates_def]] by (simp only: landed_map)
  have "key_owner (stored_row ?rs r) = key_owner r" for r by (simp add: key_owner_def)
  then show ?thesis
    unfolding persist_api_key_usage_def Let_def i prod.case row_usage_def
    by (simp add: applied folded_rows t stored_sum) (simp add: key_owner_def[abs_def])
qed

lemma persisted_aws:
  "bucket_sum f P (st_buckets (persist_aws_credential_usage base env events st)) + row_usage base g P st =
     bucket_sum f P (st_buckets st) + row_usage base g P (persist_aws_credential_usage base env events st)"
proof -
  let ?rs = "map (usage_row_of base env True) events"
  obtain flags table where i: "insert_ignoring_duplicates ?rs (st_aws_rows st) = (flags, table)" by fastforce
  have t: "table = st_aws_rows st @ map (stored_row ?rs) (landed flags ?rs)"
    using inserted_table[OF i[unfolded insert_ignoring_duplicates_def]] by (simp only: landed_map)
  have "aws_owner base (stored_row ?rs r) = aws_owner base r" for r by (simp add: aws_owner_def)
  then show ?thesis
    unfolding persist_aws_credential_usage_def Let_def i prod.case row_usage_def
    by (simp add: applied folded_rows t stored_sum) (simp add: aws_owner_def[abs_def])
qed

end

section \<open>The rows of a batch\<close>

definition signatures :: "bool \<Rightarrow> usage_store \<Rightarrow> string option set" where
  "signatures aws st = set (map rw_signature (if aws then st_aws_rows st else st_key_rows st))"

text \<open>Each table has a signature once, the count of a credential is its number of rows, and the owner column of an AWS row
  is that of its credential.\<close>

definition counts_ok :: "(string \<times> nat) list \<Rightarrow> usage_row list \<Rightarrow> bool" where
  "counts_ok counts rows \<longleftrightarrow> (\<forall>(i, n) \<in> set counts. n = length (filter (\<lambda>r. rw_credential r = i) rows))"

definition aws_column :: "usage_base \<Rightarrow> string \<Rightarrow> string" where
  "aws_column base i =
     (let cred = find_credential (ub_aws base) i; t = or_text (Option.bind cred uk_user) (or_text (Option.bind cred uk_email) (Some ''unknown-user''))
      in case t of None \<Rightarrow> [] | Some s \<Rightarrow> s)"

definition rows_ok :: "usage_base \<Rightarrow> usage_store \<Rightarrow> bool" where
  "rows_ok base st \<longleftrightarrow>
     distinct (map rw_signature (st_key_rows st)) \<and> distinct (map rw_signature (st_aws_rows st)) \<and>
     None \<notin> signatures False st \<union> signatures True st \<and>
     counts_ok (st_key_counts st) (st_key_rows st) \<and> counts_ok (st_aws_counts st) (st_aws_rows st) \<and>
     (\<forall>r \<in> set (st_aws_rows st). rw_owner r = aws_column base (rw_credential r))"

definition sums_ok :: "usage_base \<Rightarrow> usage_store \<Rightarrow> bool" where
  "sums_ok base st \<longleftrightarrow>
     (\<forall>P. bucket_sum bk_requests P (st_buckets st) = row_usage base (\<lambda>_. 1) P st \<and>
          bucket_sum bk_tokens P (st_buckets st) = row_usage base row_tokens P st)"

lemma counts_bumped:
  assumes "counts_ok counts table" and "table' = table @ map (stored_row rs) (landed flags (map (usage_row_of base env aws) events))"
  shows "counts_ok (bump_usage_count (landed flags events) counts) table'"
proof -
  have "length (filter (\<lambda>r. rw_credential r = i) (map (stored_row rs) (map (usage_row_of base env aws) es))) =
      length (filter (\<lambda>e. us_credential e = i) es)" for i es
    by (induction es) simp_all
  then show ?thesis using assms(1) unfolding assms(2) landed_map
    by (fastforce simp: counts_ok_def bump_usage_count_def)
qed

lemma persist_keys_ok:
  assumes "rows_ok base st"
  shows "rows_ok base (persist_api_key_usage base env events st)"
    and "signatures False (persist_api_key_usage base env events st) = signatures False st \<union> (Some \<circ> hash_usage_signature base) ` set events"
    and "signatures True (persist_api_key_usage base env events st) = signatures True st"
proof -
  let ?rs = "map (usage_row_of base env False) events"
  obtain flags table where i: "insert_ignoring_duplicates ?rs (st_key_rows st) = (flags, table)" by fastforce
  note ins = i[unfolded insert_ignoring_duplicates_def]
  have t: "table = st_key_rows st @ map (stored_row ?rs) (landed flags ?rs)"
    using inserted_table[OF ins] by (simp only: landed_map)
  have sg: "set (map rw_signature table) = set (map rw_signature (st_key_rows st)) \<union> (Some \<circ> hash_usage_signature base) ` set events"
    using inserted_signatures[OF ins] by (simp add: image_image)
  have p: "st_key_rows (persist_api_key_usage base env events st) = table"
    "st_aws_rows (persist_api_key_usage base env events st) = st_aws_rows st"
    "st_key_counts (persist_api_key_usage base env events st) = bump_usage_count (landed flags events) (st_key_counts st)"
    "st_aws_counts (persist_api_key_usage base env events st) = st_aws_counts st"
    unfolding persist_api_key_usage_def Let_def i by simp_all
  show "signatures False (persist_api_key_usage base env events st) = signatures False st \<union> (Some \<circ> hash_usage_signature base) ` set events"
    "signatures True (persist_api_key_usage base env events st) = signatures True st"
    using sg unfolding signatures_def p by simp_all
  then show "rows_ok base (persist_api_key_usage base env events st)"
    using assms inserted_distinct[OF ins] counts_bumped[OF _ t, of "st_key_counts st"] unfolding rows_ok_def p by auto
qed

lemma aws_column_of [simp]: "owner_column base True e = aws_column base (us_credential e)"
  by (simp add: owner_column_def event_owner_def event_credential_def aws_column_def Let_def)

lemma persist_aws_ok:
  assumes "rows_ok base st"
  shows "rows_ok base (persist_aws_credential_usage base env events st)"
    and "signatures True (persist_aws_credential_usage base env events st) = signatures True st \<union> (Some \<circ> hash_usage_signature base) ` set events"
    and "signatures False (persist_aws_credential_usage base env events st) = signatures False st"
proof -
  let ?rs = "map (usage_row_of base env True) events"
  obtain flags table where i: "insert_ignoring_duplicates ?rs (st_aws_rows st) = (flags, table)" by fastforce
  note ins = i[unfolded insert_ignoring_duplicates_def]
  have t: "table = st_aws_rows st @ map (stored_row ?rs) (landed flags ?rs)"
    using inserted_table[OF ins] by (simp only: landed_map)
  have sg: "set (map rw_signature table) = set (map rw_signature (st_aws_rows st)) \<union> (Some \<circ> hash_usage_signature base) ` set events"
    using inserted_signatures[OF ins] by (simp add: image_image)
  have p: "st_aws_rows (persist_aws_credential_usage base env events st) = table"
    "st_key_rows (persist_aws_credential_usage base env events st) = st_key_rows st"
    "st_aws_counts (persist_aws_credential_usage base env events st) = bump_usage_count (landed flags events) (st_aws_counts st)"
    "st_key_counts (persist_aws_credential_usage base env events st) = st_key_counts st"
    unfolding persist_aws_credential_usage_def Let_def i by simp_all
  show "signatures True (persist_aws_credential_usage base env events st) = signatures True st \<union> (Some \<circ> hash_usage_signature base) ` set events"
    "signatures False (persist_aws_credential_usage base env events st) = signatures False st"
    using sg unfolding signatures_def p by simp_all
  moreover have "\<forall>r \<in> set (map (stored_row ?rs) (landed flags ?rs)). rw_owner r = aws_column base (rw_credential r)"
    unfolding landed_map by auto
  ultimately show "rows_ok base (persist_aws_credential_usage base env events st)"
    using assms inserted_distinct[OF ins] counts_bumped[OF _ t, of "st_aws_counts st"] t unfolding rows_ok_def p by auto
qed

lemma persist_sums_ok:
  assumes "sums_ok base st"
  shows "sums_ok base (persist_api_key_usage base env events st)" and "sums_ok base (persist_aws_credential_usage base env events st)"
  using assms requests.persisted_keys[of _ base env events st] tokens.persisted_keys[of _ base env events st]
    requests.persisted_aws[of _ base env events st] tokens.persisted_aws[of _ base env events st]
  unfolding sums_ok_def by (metis add_left_imp_eq add.commute)+

section \<open>Nothing is counted twice\<close>

definition recorded :: "usage_base \<Rightarrow> usage_store \<Rightarrow> recorded_event \<Rightarrow> bool" where
  "recorded base st e \<longleftrightarrow> Some (hash_usage_signature base e) \<in> signatures False st \<union> signatures True st"

definition known_auth :: "recorded_event \<Rightarrow> bool" where
  "known_auth e \<longleftrightarrow> us_auth e = ''api_key'' \<or> us_auth e = ''aws_credential''"

lemma keep_first_covers: "x \<in> set xs \<Longrightarrow> key x \<in> set seen \<or> (\<exists>y \<in> set (keep_first key seen xs). key y = key x)"
  by (induction key seen xs rule: keep_first.induct) auto

lemma keep_first_subset: "set (keep_first key seen xs) \<subseteq> set xs"
  by (induction key seen xs rule: keep_first.induct) auto

lemma persisted_ok:
  assumes "persist_usage_events base env failure events st = (st', ok)" and "rows_ok base st" and "sums_ok base st"
  shows "rows_ok base st' \<and> sums_ok base st'" and "recorded base st e \<Longrightarrow> recorded base st' e"
    and "ok \<longleftrightarrow> failure = No_Failure"
    and "ok \<Longrightarrow> e \<in> set events \<Longrightarrow> \<forall>d \<in> set events. known_auth d \<Longrightarrow> recorded base st' e"
proof -
  let ?dd = "keep_first (compute_usage_signature (ub_number base)) [] events"
  define ks where "ks = filter (\<lambda>e. us_auth e = ''api_key'') ?dd"
  define as where "as = filter (\<lambda>e. us_auth e = ''aws_credential'') ?dd"
  define st1 where "st1 = (if ks \<noteq> [] then persist_api_key_usage base env ks st else st)"
  define st2 where "st2 = (if as \<noteq> [] then persist_aws_credential_usage base env as st1 else st1)"
  have out: "(st', ok) = (case failure of Key_Failure \<Rightarrow> (st, False) | Aws_Failure \<Rightarrow> (st1, False) | Late_Failure \<Rightarrow> (st2, False) | No_Failure \<Rightarrow> (st2, True))"
    using assms(1) unfolding persist_usage_events_def Let_def ks_def as_def st1_def st2_def by metis
  note k = persist_keys_ok[OF assms(2), of env ks] persist_sums_ok(1)[OF assms(3), of env ks]
  have one: "rows_ok base st1 \<and> sums_ok base st1" "signatures True st1 = signatures True st"
    "signatures False st1 = signatures False st \<union> (Some \<circ> hash_usage_signature base) ` set ks"
    using k assms(2,3) by (simp_all add: st1_def)
  note a = persist_aws_ok[OF one(1)[THEN conjunct1], of env as] persist_sums_ok(2)[OF one(1)[THEN conjunct2], of env as]
  have two: "rows_ok base st2 \<and> sums_ok base st2" "signatures False st2 = signatures False st1"
    "signatures True st2 = signatures True st1 \<union> (Some \<circ> hash_usage_signature base) ` set as"
    using a one by (simp_all add: st2_def)
  show "rows_ok base st' \<and> sums_ok base st'" using out one(1) two(1) assms(2,3) by (cases failure) simp_all
  show "recorded base st e \<Longrightarrow> recorded base st' e"
    using out one(2,3) two(2,3) by (cases failure) (auto simp: recorded_def)
  show "ok \<longleftrightarrow> failure = No_Failure" using out by (cases failure) simp_all
  show "recorded base st' e" if "ok" and mem: "e \<in> set events" and known: "\<forall>d \<in> set events. known_auth d"
  proof -
    have st': "st' = st2" using out \<open>ok\<close> by (cases failure) simp_all
    obtain d where d: "d \<in> set ?dd" "compute_usage_signature (ub_number base) d = compute_usage_signature (ub_number base) e"
      using keep_first_covers[OF mem, of "compute_usage_signature (ub_number base)" "[]"] by auto
    have "known_auth d" using known keep_first_subset[THEN subsetD, OF d(1)] by simp
    then have "d \<in> set ks \<union> set as" using d(1) by (auto simp: ks_def as_def known_auth_def)
    moreover have "hash_usage_signature base d = hash_usage_signature base e" using d(2) by (simp add: hash_usage_signature_def)
    ultimately show ?thesis using two(2,3) one(2,3) unfolding recorded_def st' by (force simp: image_iff)
  qed
qed

definition waiting :: "processor \<Rightarrow> recorded_event set" where
  "waiting p = set (pr_buffer p) \<union> (case pr_flight p of None \<Rightarrow> {} | Some b \<Rightarrow> set b)"

lemma start_batch_waiting [simp]: "waiting (start_batch has_data p) = waiting p"
  by (auto simp: waiting_def start_batch_def Let_def split: option.splits)

lemma queue_event_waiting: "waiting (queue_event n has_data e p) = (if already_processed p e then waiting p else insert e (waiting p))"
  by (auto simp: queue_event_def Let_def) (auto simp: waiting_def split: option.splits)

lemma mark_processed_waiting [simp]: "waiting (mark_processed es p) = waiting p"
  by (simp add: waiting_def mark_processed_def Let_def)

definition fleet_ok :: "usage_base \<Rightarrow> usage_fleet \<Rightarrow> bool" where
  "fleet_ok base fl \<longleftrightarrow>
     rows_ok base (uf_store fl) \<and> sums_ok base (uf_store fl) \<and>
     (\<forall>n. waiting (uf_proc fl n) \<subseteq> set (uf_taken fl)) \<and>
     ((\<forall>e \<in> set (uf_taken fl). known_auth e) \<longrightarrow>
       (\<forall>e \<in> set (uf_taken fl). recorded base (uf_store fl) e \<or> (\<exists>n. e \<in> waiting (uf_proc fl n))))"

lemma start_ok: "fleet_ok base (start_usage base)"
  by (simp add: fleet_ok_def start_usage_def fresh_processor_def waiting_def rows_ok_def sums_ok_def signatures_def counts_ok_def
      row_usage_def)

text \<open>A step of one process: its new state and store, and what it takes.\<close>

lemma proc_step_ok:
  assumes "fleet_ok base fl" and "rows_ok base st'" and "sums_ok base st'"
    and "\<And>e. recorded base (uf_store fl) e \<Longrightarrow> recorded base st' e"
    and "waiting p \<subseteq> set (uf_taken fl) \<union> set new"
    and "\<forall>e \<in> set (uf_taken fl) \<union> set new. known_auth e \<Longrightarrow>
      \<forall>e \<in> waiting (uf_proc fl n) \<union> set new. e \<in> waiting p \<or> recorded base st' e"
  shows "fleet_ok base (fl\<lparr>uf_proc := (uf_proc fl)(n := p), uf_store := st', uf_taken := uf_taken fl @ new\<rparr>)"
proof -
  let ?fl = "fl\<lparr>uf_proc := (uf_proc fl)(n := p), uf_store := st', uf_taken := uf_taken fl @ new\<rparr>"
  note ok = assms(1)[unfolded fleet_ok_def]
  have "recorded base st' e \<or> (\<exists>m. e \<in> waiting (uf_proc ?fl m))"
    if known: "\<forall>e \<in> set (uf_taken fl) \<union> set new. known_auth e" and e: "e \<in> set (uf_taken fl) \<union> set new" for e
  proof (cases "e \<in> waiting (uf_proc fl n) \<union> set new")
    case True
    then have "e \<in> waiting p \<or> recorded base st' e" using assms(6)[OF known] by blast
    then show ?thesis by (metis fun_upd_same usage_fleet.select_convs(1) usage_fleet.surjective usage_fleet.update_convs)
  next
    case False
    then have "recorded base (uf_store fl) e \<or> (\<exists>m. m \<noteq> n \<and> e \<in> waiting (uf_proc fl m))"
      using ok e known by (metis UnCI UnE)
    then show ?thesis using assms(4) by auto
  qed
  moreover have "waiting (uf_proc ?fl m) \<subseteq> set (uf_taken ?fl)" for m using ok assms(5) by (cases "m = n") auto
  ultimately show ?thesis using assms(2,3) unfolding fleet_ok_def by simp
qed

lemma fleet_eq:
  "fl\<lparr>uf_proc := a, uf_taken := uf_taken fl @ b\<rparr> = fl\<lparr>uf_proc := a, uf_store := uf_store fl, uf_taken := uf_taken fl @ b\<rparr>"
  "fl\<lparr>uf_proc := a, uf_store := c\<rparr> = fl\<lparr>uf_proc := a, uf_store := c, uf_taken := uf_taken fl @ []\<rparr>"
  "fl\<lparr>uf_proc := a\<rparr> = fl\<lparr>uf_proc := a, uf_store := uf_store fl, uf_taken := uf_taken fl @ []\<rparr>"
  by simp_all

lemma finish_batch_ok:
  assumes "fleet_ok base fl" and "finish_batch base env failure (uf_proc fl n) (uf_store fl) = (p, st')"
  shows "fleet_ok base (fl\<lparr>uf_proc := (uf_proc fl)(n := p), uf_store := st'\<rparr>)"
    and "failure = No_Failure \<Longrightarrow> pr_flight p = None \<and> pr_buffer p = pr_buffer (uf_proc fl n)"
proof -
  note ok = assms(1)[unfolded fleet_ok_def]
  have "fleet_ok base (fl\<lparr>uf_proc := (uf_proc fl)(n := p), uf_store := st'\<rparr>) \<and>
      (failure = No_Failure \<longrightarrow> pr_flight p = None \<and> pr_buffer p = pr_buffer (uf_proc fl n))"
  proof (cases "pr_flight (uf_proc fl n)")
    case None
    then have "p = uf_proc fl n" "st' = uf_store fl" using assms(2) by (simp_all add: finish_batch_def)
    then show ?thesis using assms(1) None by simp
  next
    case (Some batch)
    obtain st'' fine where q: "persist_usage_events base env failure batch (uf_store fl) = (st'', fine)" by fastforce
    note per = persisted_ok[OF q] and p = assms(2)[unfolded finish_batch_def Some option.case q Let_def prod.case]
    have st: "st' = st''" using p by (simp split: if_splits)
    have w: "waiting (uf_proc fl n) = set (pr_buffer (uf_proc fl n)) \<union> set batch" by (simp add: waiting_def Some)
    have wp: "waiting p = set (pr_buffer (uf_proc fl n)) \<union> (if fine then {} else set batch)"
      using p by (auto simp: waiting_def mark_processed_def Let_def split: if_splits)
    have sub: "waiting (uf_proc fl n) \<subseteq> set (uf_taken fl)" using ok by blast
    have "fleet_ok base (fl\<lparr>uf_proc := (uf_proc fl)(n := p), uf_store := st', uf_taken := uf_taken fl @ []\<rparr>)"
    proof (rule proc_step_ok[OF assms(1)])
      show "rows_ok base st'" "sums_ok base st'" using per(1) ok st by simp_all
      show "recorded base st' e" if "recorded base (uf_store fl) e" for e using per(2) ok st that by simp
      show "waiting p \<subseteq> set (uf_taken fl) \<union> set []" using sub w wp by auto
      show "\<forall>e \<in> waiting (uf_proc fl n) \<union> set []. e \<in> waiting p \<or> recorded base st' e"
        if "\<forall>e \<in> set (uf_taken fl) \<union> set []. known_auth e"
      proof -
        have "\<forall>d \<in> set batch. known_auth d" using that sub w by auto
        then have "fine \<Longrightarrow> \<forall>e \<in> set batch. recorded base st' e" using per(4) ok st by blast
        then show ?thesis using w wp by auto
      qed
    qed
    moreover have "failure = No_Failure \<longrightarrow> pr_flight p = None \<and> pr_buffer p = pr_buffer (uf_proc fl n)"
      using p per(3) ok by (auto simp: mark_processed_def Let_def split: if_splits)
    ultimately show ?thesis by simp
  qed
  then show "fleet_ok base (fl\<lparr>uf_proc := (uf_proc fl)(n := p), uf_store := st'\<rparr>)"
    "failure = No_Failure \<Longrightarrow> pr_flight p = None \<and> pr_buffer p = pr_buffer (uf_proc fl n)" by simp_all
qed

lemma memory_queue_ok:
  assumes "fleet_ok base fl" and "process_memory_queue base env has_data failure events (uf_proc fl n) (uf_store fl) = (p, st')"
  shows "fleet_ok base (fl\<lparr>uf_proc := (uf_proc fl)(n := p), uf_store := st',
    uf_taken := uf_taken fl @ memory_taken base env has_data failure events (uf_proc fl n) (uf_store fl)\<rparr>)"
proof -
  note ok = assms(1)[unfolded fleet_ok_def]
  let ?p0 = "uf_proc fl n"
  define held where "held = (if has_data then [] else filter (\<lambda>e. \<not> is_external e) events)"
  define p1 where "p1 = (if has_data then ?p0 else ?p0\<lparr>pr_buffer := pr_buffer ?p0 @ held\<rparr>)"
  define fresh where "fresh = filter (\<lambda>e. \<not> already_processed ?p0 e) (if has_data then events else filter is_external events)"
  have same: "already_processed p1 e = already_processed ?p0 e" for e by (simp add: already_processed_def p1_def split: option.split)
  have wait1: "waiting p1 = waiting ?p0 \<union> set held" by (auto simp: waiting_def p1_def held_def)
  have taken: "memory_taken base env has_data failure events ?p0 (uf_store fl) = held @ (if failure = No_Failure then fresh else [])"
    by (simp add: memory_taken_def held_def fresh_def)
  obtain st'' fine where q: "persist_usage_events base env failure fresh (uf_store fl) = (st'', fine)" by fastforce
  note per = persisted_ok[OF q]
  have out: "(p, st') = (if fresh = [] then (p1, uf_store fl) else (if fine then mark_processed fresh p1 else p1, st''))"
  proof -
    have "filter (\<lambda>e. \<not> already_processed p1 e) (if has_data then events else filter is_external events) = fresh"
      by (simp add: fresh_def same)
    moreover have "(if has_data then ?p0 else ?p0\<lparr>pr_buffer := pr_buffer ?p0 @ filter (\<lambda>e. \<not> is_external e) events\<rparr>) = p1"
      by (simp add: p1_def held_def)
    ultimately show ?thesis using assms(2) q unfolding process_memory_queue_def Let_def by (simp split: if_splits)
  qed
  have wp: "waiting p = waiting ?p0 \<union> set held" using out wait1 by (simp split: if_splits)
  show ?thesis unfolding taken
  proof (rule proc_step_ok[OF assms(1)])
    show "rows_ok base st'" "sums_ok base st'" using out per(1) ok by (auto split: if_splits)
    show "recorded base st' e" if "recorded base (uf_store fl) e" for e using out per(2) ok that by (auto split: if_splits)
    show "waiting p \<subseteq> set (uf_taken fl) \<union> set (held @ (if failure = No_Failure then fresh else []))"
      using wp ok by auto
    show "\<forall>e \<in> waiting ?p0 \<union> set (held @ (if failure = No_Failure then fresh else [])). e \<in> waiting p \<or> recorded base st' e"
      if "\<forall>e \<in> set (uf_taken fl) \<union> set (held @ (if failure = No_Failure then fresh else [])). known_auth e"
      using wp out per(3,4) ok that by (auto split: if_splits)
  qed
qed

lemma reachable_fleet_ok: "usage_reachable base limit fl \<Longrightarrow> fleet_ok base fl"
proof (induction rule: usage_reachable.induct)
  case start
  show ?case by (rule start_ok)
next
  case (step fl act)
  note ok = step.IH[unfolded fleet_ok_def]
  show ?case
  proof (cases act)
    case (Queue n has_data e)
    let ?p = "queue_event limit has_data e (uf_proc fl n)" and ?new = "if already_processed (uf_proc fl n) e then [] else [e]"
    have "fleet_ok base (fl\<lparr>uf_proc := (uf_proc fl)(n := ?p), uf_store := uf_store fl, uf_taken := uf_taken fl @ ?new\<rparr>)"
      using ok by (intro proc_step_ok[OF step.IH]) (auto simp: queue_event_waiting split: if_splits)
    then show ?thesis unfolding Queue by (cases "already_processed (uf_proc fl n) e") simp_all
  next
    case (Timer n has_data)
    have "fleet_ok base (fl\<lparr>uf_proc := (uf_proc fl)(n := start_batch has_data (uf_proc fl n)), uf_store := uf_store fl, uf_taken := uf_taken fl @ []\<rparr>)"
      using ok by (intro proc_step_ok[OF step.IH]) auto
    then show ?thesis unfolding Timer by simp
  next
    case (Finish n failure env)
    obtain p st' where f: "finish_batch base env failure (uf_proc fl n) (uf_store fl) = (p, st')" by fastforce
    then show ?thesis using finish_batch_ok(1)[OF step.IH f] unfolding Finish by simp
  next
    case (Memory n has_data failure env events)
    obtain p st' where f: "process_memory_queue base env has_data failure events (uf_proc fl n) (uf_store fl) = (p, st')" by fastforce
    then show ?thesis using memory_queue_ok[OF step.IH f] unfolding Memory by simp
  qed
qed

lemma owned_sum_count:
  "owned_sum owner day (\<lambda>_. 1) (\<lambda>e' d'. e' = e \<and> d' = d) xs = of_nat (length (filter (\<lambda>x. owner x = Some e \<and> day x = d) xs))"
  by (induction xs) (auto split: option.splits)

text \<open>C16. Every event is counted once: in every state the processes reach, however events are repeated, batches fail and are
  retried and processes share the database, a signature has one row in its table, the count of a credential is the number of
  its rows, and the requests in the buckets of an owner and day are the number of rows the owner has on that day.\<close>

theorem usage_counted_once:
  assumes "usage_reachable base limit fl"
  shows "let st = uf_store fl in
    distinct (map rw_signature (st_key_rows st)) \<and> distinct (map rw_signature (st_aws_rows st)) \<and>
    (\<forall>(i, n) \<in> set (st_key_counts st). n = length (filter (\<lambda>r. rw_credential r = i) (st_key_rows st))) \<and>
    (\<forall>(i, n) \<in> set (st_aws_counts st). n = length (filter (\<lambda>r. rw_credential r = i) (st_aws_rows st))) \<and>
    bucket_sum bk_requests (\<lambda>e' d'. e' = e \<and> d' = d) (st_buckets st) =
      of_nat (length (filter (\<lambda>r. key_owner r = Some e \<and> row_day r = d) (st_key_rows st)) +
        length (filter (\<lambda>r. aws_owner base r = Some e \<and> row_day r = d) (st_aws_rows st)))"
proof -
  note ok = reachable_fleet_ok[OF assms, unfolded fleet_ok_def]
  have "bucket_sum bk_requests (\<lambda>e' d'. e' = e \<and> d' = d) (st_buckets (uf_store fl)) =
      row_usage base (\<lambda>_. 1) (\<lambda>e' d'. e' = e \<and> d' = d) (uf_store fl)"
    using ok unfolding sums_ok_def by blast
  then show ?thesis using ok unfolding row_usage_def owned_sum_count rows_ok_def counts_ok_def Let_def by simp
qed

lemma finish_records:
  assumes "fleet_ok base fl" and "finish_batch base env No_Failure (uf_proc fl n) (uf_store fl) = (p, st')"
    and "\<forall>e \<in> set (uf_taken fl). known_auth e"
  shows "pr_flight (uf_proc fl n) = Some batch \<Longrightarrow> e \<in> set batch \<Longrightarrow> recorded base st' e"
    and "recorded base (uf_store fl) e \<Longrightarrow> recorded base st' e"
proof -
  note ok = assms(1)[unfolded fleet_ok_def]
  show "recorded base st' e" if b: "pr_flight (uf_proc fl n) = Some batch" "e \<in> set batch"
  proof -
    obtain st'' fine where q: "persist_usage_events base env No_Failure batch (uf_store fl) = (st'', fine)" by fastforce
    have "waiting (uf_proc fl n) \<subseteq> set (uf_taken fl)" using ok by blast
    moreover have "set batch \<subseteq> waiting (uf_proc fl n)" using b(1) by (simp add: waiting_def)
    ultimately have "\<forall>d \<in> set batch. known_auth d" using assms(3) by blast
    then have "recorded base st'' e" using persisted_ok(3,4)[OF q] ok b(2) by blast
    then show ?thesis using assms(2) q b(1) by (simp add: finish_batch_def Let_def split: if_splits)
  qed
  show "recorded base (uf_store fl) e \<Longrightarrow> recorded base st' e"
    using assms(2) persisted_ok(2) ok by (auto simp: finish_batch_def Let_def split: option.splits prod.splits if_splits)
qed

text \<open>C18. No accepted event is lost: it is recorded, or one of the processes holds it and records it as soon as its batch in
  flight and the next one succeed, with model data at hand.\<close>

theorem accepted_event_recorded:
  assumes "usage_reachable base limit fl" and "\<forall>e \<in> set (uf_taken fl). known_auth e" and "e \<in> set (uf_taken fl)"
  shows "\<exists>n. recorded base (uf_store (fold (usage_step base limit) [Finish n No_Failure env, Timer n True, Finish n No_Failure env'] fl)) e"
proof -
  note fl = reachable_fleet_ok[OF assms(1)]
  then obtain n where n: "recorded base (uf_store fl) e \<or> e \<in> waiting (uf_proc fl n)" using assms(2,3) unfolding fleet_ok_def by metis
  obtain p st1 where f1: "finish_batch base env No_Failure (uf_proc fl n) (uf_store fl) = (p, st1)" by fastforce
  let ?fl1 = "fl\<lparr>uf_proc := (uf_proc fl)(n := p), uf_store := st1\<rparr>"
  have fl1: "fleet_ok base ?fl1" "pr_flight p = None" "pr_buffer p = pr_buffer (uf_proc fl n)" using finish_batch_ok[OF fl f1] by simp_all
  let ?fl2 = "usage_step base limit (Timer n True) ?fl1"
  have fl2: "fleet_ok base ?fl2" "uf_store ?fl2 = st1" "uf_taken ?fl2 = uf_taken fl" "uf_proc ?fl2 n = start_batch True p"
  proof -
    have "usage_reachable base limit ?fl2"
      using usage_reachable.step[OF usage_reachable.step[OF assms(1), of "Finish n No_Failure env"], of "Timer n True"] f1 by simp
    then show "fleet_ok base ?fl2" by (rule reachable_fleet_ok)
  qed simp_all
  obtain p' st2 where f2: "finish_batch base env' No_Failure (uf_proc ?fl2 n) (uf_store ?fl2) = (p', st2)" by fastforce
  have known: "\<forall>e \<in> set (uf_taken ?fl2). known_auth e" using assms(2) by simp
  have final: "uf_store (fold (usage_step base limit) [Finish n No_Failure env, Timer n True, Finish n No_Failure env'] fl) = st2"
    using f1 f2 by simp
  have "recorded base st1 e \<or> e \<in> set (pr_buffer p)"
    using n finish_records[OF fl f1 assms(2)] fl1(3) by (auto simp: waiting_def split: option.splits)
  then have "recorded base st2 e"
  proof
    assume "recorded base st1 e"
    then show ?thesis using finish_records(2)[OF fl2(1) f2 known] fl2(2) by simp
  next
    assume b: "e \<in> set (pr_buffer p)"
    then have "pr_flight (uf_proc ?fl2 n) = Some (pr_buffer p)" using fl1(2) fl2(4) by (cases "pr_buffer p") (simp_all add: start_batch_def Let_def)
    then show ?thesis using finish_records(1)[OF fl2(1) f2 known] b by blast
  qed
  then show ?thesis using final by blast
qed

section \<open>A run\<close>

text \<open>One event, delivered to two processes: both record it, the second insert is ignored.\<close>

definition toy_usage_base :: usage_base where
  "toy_usage_base = \<lparr> ub_hash = (\<lambda>s. s), ub_number = (\<lambda>n. if n = 0 then ''0'' else if n = 3 then ''3'' else ''1''),
     ub_keys = [\<lparr> uk_id = ''k'', uk_email = Some ''a@x'', uk_user = None, uk_name = None, uk_team = None \<rparr>], ub_aws = [], ub_primary = [], ub_teams = [] \<rparr>"

definition toy_pricing_env :: pricing_env where
  "toy_pricing_env = \<lparr> ne_calculate = False, ne_config = JObj [], ne_currency = None, ne_costs = [], ne_refreshed = None, ne_providers = [],
     ne_prices = [], ne_tenants = [], ne_parse = (\<lambda>_. None), ne_now = 0 \<rparr>"

definition toy_event :: recorded_event where
  "toy_event = \<lparr> us_request_id = Some ''r'', us_timestamp = 1, us_auth = ''api_key'', us_credential = ''k'', us_provider = ''p'', us_model = ''m'',
     us_input = 3, us_output = 1, us_cache_creation = None, us_cache_read = None, us_image_input = None, us_image_output = None,
     us_audio_input = None, us_audio_output = None, us_response_time = 1, us_status = 1, us_endpoint = None, us_on_behalf = None,
     us_team = None, us_unit = None, us_estimated = None, us_upstream = None, us_origin = None, us_tenant = None \<rparr>"

definition toy_deliveries :: "usage_action list" where
  "toy_deliveries = [Queue 0 True toy_event, Queue 1 True toy_event, Timer 0 True, Finish 0 Late_Failure toy_pricing_env, Timer 1 True,
     Finish 1 No_Failure toy_pricing_env]"

definition toy_usage :: usage_fleet where
  "toy_usage = fold (usage_step toy_usage_base 100) toy_deliveries (start_usage toy_usage_base)"

lemma usage_run_reachable: "usage_reachable base limit fl \<Longrightarrow> usage_reachable base limit (fold (usage_step base limit) acts fl)"
  by (induction acts arbitrary: fl) (simp_all add: usage_reachable.step)

lemma toy_usage_reachable: "usage_reachable toy_usage_base 100 toy_usage"
  unfolding toy_usage_def by (rule usage_run_reachable, rule usage_reachable.start)

lemma toy_usage_taken: "uf_taken toy_usage = [toy_event, toy_event]"
  by code_simp

theorem usage_counted_once_witness:
  "length (st_key_rows (uf_store toy_usage)) = 1 \<and> distinct (map rw_signature (st_key_rows (uf_store toy_usage)))"
proof -
  have "length (st_key_rows (uf_store toy_usage)) = 1" by code_simp
  then show ?thesis using usage_counted_once[OF toy_usage_reachable] unfolding Let_def by blast
qed

theorem accepted_event_recorded_witness:
  "\<exists>n. recorded toy_usage_base (uf_store (fold (usage_step toy_usage_base 100)
     [Finish n No_Failure toy_pricing_env, Timer n True, Finish n No_Failure toy_pricing_env] toy_usage)) toy_event"
proof (rule accepted_event_recorded[OF toy_usage_reachable])
  have "known_auth toy_event" by code_simp
  then show "\<forall>e \<in> set (uf_taken toy_usage). known_auth e" unfolding toy_usage_taken by simp
qed (simp add: toy_usage_taken)

end
