(* ===== verification/Usage_Rebuild.thy ===== *)
theory Usage_Rebuild
  imports Usage_Guarantees
begin

text \<open>
  What a rebuild of the buckets gives: the windows of a user count the user's rows from the later of the start of the window
  and the watermark of the last reset, and on what the processes recorded a rebuild changes no window.
\<close>

section \<open>Windows\<close>

lemma horizon_bounds:
  "window_horizon now \<le> window_start w now" "(day_number now - RETENTION_DAYS) * DAY \<le> window_horizon now"
  "day_number (window_horizon now) * DAY = window_horizon now"
proof -
  let ?d = "day_number now"
  have month: "utc_day (year_of ?d) (month_of ?d) 1 \<le> ?d" "?d < utc_day (year_of ?d) (month_of ?d) 1 + month_lengths (year_of ?d) ! month_of ?d"
    using month_of_bounds[of ?d] by (simp_all add: utc_day_next_month)
  have "\<forall>l \<in> set (month_lengths y). l \<le> 31" for y by (simp add: month_lengths_def)
  then have "month_lengths (year_of ?d) ! month_of ?d \<le> 31"
    using month_of_bounds(1)[of ?d] nth_mem[of "month_of ?d" "month_lengths (year_of ?d)"] by (metis length_month_lengths)
  then have low: "?d - RETENTION_DAYS \<le> utc_day (year_of ?d) (month_of ?d) 1" using month(2) by (simp add: RETENTION_DAYS_def)
  have week: "?d - 6 \<le> ?d - (?d + 3) mod 7" "?d - (?d + 3) mod 7 \<le> ?d"
    using pos_mod_bound[of 7 "?d + 3"] pos_mod_sign[of 7 "?d + 3"] by linarith+
  have h: "window_horizon now = min (?d - (?d + 3) mod 7) (utc_day (year_of ?d) (month_of ?d) 1) * DAY"
    unfolding window_horizon_def week_start_of month_start_of by (simp add: DAY_def min_mult_distrib_right)
  have pos: "0 \<le> DAY" by (simp add: DAY_def)
  show "day_number (window_horizon now) * DAY = window_horizon now" unfolding h by simp
  show "(?d - RETENTION_DAYS) * DAY \<le> window_horizon now" unfolding h
    by (rule mult_right_mono[OF _ pos]) (use low week in \<open>simp add: RETENTION_DAYS_def\<close>)
  show "window_horizon now \<le> window_start w now"
  proof (cases w)
    case Day
    then show ?thesis unfolding h by (simp add: mult_right_mono[OF _ pos] min_le_iff_disj week(2))
  qed (simp_all only: window_horizon_def min.cobounded1 min.cobounded2)
qed

lemma start_of_day: "day_number (window_start w now) * DAY = window_start w now"
  by (cases w) (simp_all add: Let_def)

lemma window_counts:
  "wu_requests (compute_usage table email now currency w) =
     bucket_sum bk_requests (\<lambda>e d. e = email \<and> day_number (window_start w now) \<le> d) table"
  "wu_tokens (compute_usage table email now currency w) =
     bucket_sum bk_tokens (\<lambda>e d. e = email \<and> day_number (window_start w now) \<le> d) table"
proof -
  have "day_number (window_horizon now) \<le> day_number (window_start w now)"
    unfolding day_number_def using horizon_bounds(1) by (intro zdiv_mono1) (simp_all add: DAY_def)
  then have "sum_list (map (\<lambda>(k, b). f b) (filter (\<lambda>((e, d, c), b). day_number (window_start w now) \<le> d) (read_buckets [email] (window_horizon now) table))) =
      bucket_sum f (\<lambda>e d. e = email \<and> day_number (window_start w now) \<le> d) table" for f :: "bucket \<Rightarrow> rat"
    by (induction table) (auto simp: read_buckets_def split: if_splits)
  then show "wu_requests (compute_usage table email now currency w) =
     bucket_sum bk_requests (\<lambda>e d. e = email \<and> day_number (window_start w now) \<le> d) table"
  "wu_tokens (compute_usage table email now currency w) =
     bucket_sum bk_tokens (\<lambda>e d. e = email \<and> day_number (window_start w now) \<le> d) table"
    unfolding compute_usage_def window_from_buckets_def Let_def by simp_all
qed

section \<open>The buckets of a set of rows\<close>

text \<open>Whom a rebuild gives an AWS row: the owner column when it is an e-mail, else the credential's e-mail.\<close>

definition rebuilt_owner :: "(string \<times> string) list \<Rightarrow> usage_row \<Rightarrow> string option" where
  "rebuilt_owner credentials r =
     real_owner (if is_email (rw_owner r) then Some (rw_owner r) else map_of credentials (rw_credential r))"

definition live :: "int \<Rightarrow> usage_row \<Rightarrow> bool" where
  "live since r \<longleftrightarrow> since \<le> rw_valid_from r \<and> rw_signature r \<noteq> None"

lemma owned_sum_filter:
  "owned_sum owner day g P (filter Q xs) = owned_sum (\<lambda>x. if Q x then owner x else None) day g P xs"
  by (induction xs) auto

lemma owned_sum_map: "owned_sum owner day g P (map h xs) = owned_sum (owner \<circ> h) (day \<circ> h) (g \<circ> h) P xs"
  by (induction xs) simp_all

lemma owned_sum_only:
  assumes "\<And>e d. P e d \<Longrightarrow> e = email" and "\<And>x. x \<in> set xs \<Longrightarrow> owner x = Some email \<longleftrightarrow> owner' x = Some email"
  shows "owned_sum owner day g P xs = owned_sum owner' day g P xs"
  using assms(2)
proof (induction xs)
  case (Cons x xs)
  have "(case owner x of None \<Rightarrow> 0 | Some e \<Rightarrow> if P e (day x) then g x else 0) = (case owner' x of None \<Rightarrow> 0 | Some e \<Rightarrow> if P e (day x) then g x else 0)"
    using Cons.prems[of x] assms(1) by (auto split: option.splits)
  then show ?case using Cons by simp
qed simp

lemma real_owner_same: "real_owner e = Some email \<Longrightarrow> e = Some email"
  by (auto simp: real_owner_def split: option.splits list.splits if_splits)

lemma real_owner_text: "real_owner e = Some email \<Longrightarrow> \<exists>c s. email = c # s"
  by (auto simp: real_owner_def split: option.splits list.splits if_splits)

lemma map_of_mine:
  "distinct (map fst creds) \<Longrightarrow> map_of (filter (\<lambda>(i, e). e \<in> E) creds) i = (case map_of creds i of Some e \<Rightarrow> if e \<in> E then Some e else None | None \<Rightarrow> None)"
proof (induction creds)
  case (Cons c creds)
  have "map_of creds (fst c) = None" using Cons.prems by (simp add: map_of_eq_None_iff)
  then show ?case using Cons by (cases c) (auto split: option.splits)
qed simp

context usage_measure
begin

lemma grouped_scope:
  assumes "\<And>e c u u'. who \<lparr> ug_owner = e, ug_credential = c, ug_counted = u \<rparr> = who \<lparr> ug_owner = e, ug_credential = c, ug_counted = u' \<rparr>"
    and only: "\<And>e d. P e d \<Longrightarrow> e = email"
    and scoped: "\<And>r. in_scope scope email \<Longrightarrow>
      who \<lparr> ug_owner = rw_owner r, ug_credential = (if aws then rw_credential r else []), ug_counted = undefined \<rparr> = Some email \<longleftrightarrow> owner r = Some email"
    and unscoped: "\<And>e c u. \<not> in_scope scope email \<Longrightarrow> who \<lparr> ug_owner = e, ug_credential = c, ug_counted = u \<rparr> \<noteq> Some email \<or> \<not> aws \<and> e = email"
    and within: "\<And>r es. scope = Some es \<Longrightarrow> owner r = Some email \<Longrightarrow> in_scope scope email \<Longrightarrow> rw_owner r \<in> set es \<or> rw_credential r \<in> set ids"
    and keys: "\<not> aws \<Longrightarrow> ids = []"
  shows "owned_sum who (cn_day \<circ> ug_counted) (f \<circ> cn_usage \<circ> ug_counted) P (grouped_usage aws since scope ids rows) =
    owned_sum (\<lambda>r. if in_scope scope email then owner r else None) row_day g P (filter (live since) rows)"
proof (cases "scope = Some []")
  case True
  then have "owned_sum (\<lambda>r. if in_scope scope email then owner r else None) row_day g P xs = 0" for xs
    by (induction xs) (simp_all add: in_scope_def)
  then show ?thesis using True by (simp add: grouped_usage_def)
next
  case False
  let ?in = "\<lambda>r. case scope of None \<Rightarrow> True | Some es \<Rightarrow> rw_owner r \<in> set es \<or> rw_credential r \<in> set ids"
  let ?who = "\<lambda>r. who \<lparr> ug_owner = rw_owner r, ug_credential = (if aws then rw_credential r else []), ug_counted = undefined \<rparr>"
  have "grouped_usage aws since scope ids rows =
      grouped_rows rw_owner (\<lambda>r. if aws then rw_credential r else []) (filter ?in (filter (live since) rows))"
    using False unfolding grouped_usage_def live_def filter_filter by (cases scope) (auto split: list.splits intro!: arg_cong[where f = "grouped_rows _ _"] filter_cong)
  then have "owned_sum who (cn_day \<circ> ug_counted) (f \<circ> cn_usage \<circ> ug_counted) P (grouped_usage aws since scope ids rows) =
      owned_sum (\<lambda>r. if ?in r then ?who r else None) row_day g P (filter (live since) rows)"
    by (simp only: grouped[where who = who, OF assms(1)] owned_sum_filter[of _ _ _ _ ?in])
  also have "\<dots> = owned_sum (\<lambda>r. if in_scope scope email then owner r else None) row_day g P (filter (live since) rows)"
  proof (rule owned_sum_only[OF only])
    fix r
    show "((if ?in r then ?who r else None) = Some email) = ((if in_scope scope email then owner r else None) = Some email)"
    proof (cases "in_scope scope email")
      case True
      then show ?thesis using scoped[of r] within[OF _ _ True, of _ r] by (cases scope) auto
    next
      case out: False
      then obtain es where "scope = Some es" "email \<notin> set es" by (cases scope) (auto simp: in_scope_def)
      then show ?thesis using out unscoped[OF out, of "rw_owner r"] keys by auto
    qed
  qed
  finally show ?thesis .
qed

lemma from_rows_sum:
  assumes creds: "distinct (map fst creds)" and only: "\<And>e d. P e d \<Longrightarrow> e = email"
  shows "bucket_sum f P (buckets_from_rows creds since scope st) =
    (if in_scope scope email then owned_sum key_owner row_day g P (filter (live since) (st_key_rows st)) +
       owned_sum (rebuilt_owner creds) row_day g P (filter (live since) (st_aws_rows st)) else 0)"
proof -
  define mine where "mine = (case scope of None \<Rightarrow> creds | Some es \<Rightarrow> filter (\<lambda>(i, e). e \<in> set es) creds)"
  let ?Q = "\<lambda>g. case attributed mine g of Some (c # s) \<Rightarrow> (case scope of None \<Rightarrow> True | Some es \<Rightarrow> c # s \<in> set es) | _ \<Rightarrow> False"
  let ?kw = "\<lambda>g. real_owner (Some (ug_owner g))" and ?aw = "\<lambda>g. if ?Q g then real_owner (attributed mine g) else None"
  let ?sum = "\<lambda>who gs. owned_sum who (cn_day \<circ> ug_counted) (f \<circ> cn_usage \<circ> ug_counted) P gs"
  let ?ks = "grouped_usage False since scope [] (st_key_rows st)" and ?as = "grouped_usage True since scope (map fst mine) (st_aws_rows st)"
  have mine: "map_of mine i = (case map_of creds i of Some e \<Rightarrow> if in_scope scope e then Some e else None | None \<Rightarrow> None)" for i
    by (cases scope) (auto simp: mine_def in_scope_def map_of_mine[OF creds] split: option.splits)
  have "buckets_from_rows creds since scope st = fold_increments (ug_counted \<circ> snd) fst
      (map (\<lambda>g. (Some (ug_owner g), g)) ?ks @ map (\<lambda>g. (attributed mine g, g)) (filter ?Q ?as))"
    unfolding buckets_from_rows_def Let_def mine_def[symmetric] filter_map by (simp add: o_def)
  then have split: "bucket_sum f P (buckets_from_rows creds since scope st) = ?sum ?kw ?ks + ?sum ?aw ?as"
    unfolding fold_increments_def folded by (simp add: folded owned_sum_map o_def owned_sum_filter)
  have k: "?sum ?kw ?ks = owned_sum (\<lambda>r. if in_scope scope email then key_owner r else None) row_day g P (filter (live since) (st_key_rows st))"
    by (rule grouped_scope[OF _ only]) (auto simp: key_owner_def in_scope_def dest: real_owner_same)
  have aw: "?aw g = Some email \<longleftrightarrow> in_scope scope email \<and> real_owner (attributed creds g) = Some email" for g
  proof
    assume l: "?aw g = Some email"
    then have e: "attributed mine g = Some email" "?Q g" by (auto dest: real_owner_same split: if_splits)
    then have "in_scope scope email" by (auto simp: in_scope_def split: list.splits option.splits)
    moreover have "attributed creds g = Some email" using e(1) by (auto simp: attributed_def mine split: if_splits option.splits)
    ultimately show "in_scope scope email \<and> real_owner (attributed creds g) = Some email" using l e by simp
  next
    assume r: "in_scope scope email \<and> real_owner (attributed creds g) = Some email"
    then have e: "attributed creds g = Some email" using real_owner_same by blast
    have m: "attributed mine g = Some email" using e r by (auto simp: attributed_def mine split: if_splits)
    obtain c s where "email = c # s" using r real_owner_text by blast
    then have "?Q g" using m r by (auto simp: in_scope_def split: option.splits)
    then show "?aw g = Some email" using m e r by simp
  qed
  have a: "?sum ?aw ?as = owned_sum (\<lambda>r. if in_scope scope email then rebuilt_owner creds r else None) row_day g P (filter (live since) (st_aws_rows st))"
  proof (rule grouped_scope[OF _ only])
    fix r es assume s: "scope = Some es" "rebuilt_owner creds r = Some email" "in_scope scope email"
    have e: "(if is_email (rw_owner r) then Some (rw_owner r) else map_of creds (rw_credential r)) = Some email"
      using s(2) real_owner_same unfolding rebuilt_owner_def by blast
    show "rw_owner r \<in> set es \<or> rw_credential r \<in> set (map fst mine)"
    proof (cases "is_email (rw_owner r)")
      case False
      then have "map_of mine (rw_credential r) = Some email" using e s(3) by (simp add: mine)
      then show ?thesis by (metis domI dom_map_of_conv_image_fst set_map)
    qed (use e s in \<open>auto simp: in_scope_def\<close>)
  next
    fix r assume "in_scope scope email"
    then show "(?aw \<lparr> ug_owner = rw_owner r, ug_credential = (if True then rw_credential r else []), ug_counted = undefined \<rparr> = Some email) =
        (rebuilt_owner creds r = Some email)"
      unfolding aw by (simp add: attributed_def rebuilt_owner_def)
  qed (simp_all only: aw, simp_all add: attributed_def)
  show ?thesis unfolding split k a by (simp add: owned_sum_filter[symmetric])
qed

end

section \<open>Rebuilding\<close>

text \<open>The instant from which the rows of an owner count: a watermark between the horizon and now, else the horizon.\<close>

definition counted_from :: "int \<Rightarrow> (string \<times> int) list \<Rightarrow> string \<Rightarrow> int" where
  "counted_from now resets email =
     (case map_of resets email of
        Some t \<Rightarrow> if window_horizon now \<le> t \<and> t \<le> now then t else window_horizon now
      | None \<Rightarrow> window_horizon now)"

lemma bucket_sum_concat: "bucket_sum f P (concat xs) = sum_list (map (bucket_sum f P) xs)"
  by (induction xs) simp_all

lemma sum_of_owner:
  fixes R :: "int \<Rightarrow> rat"
  shows "distinct (map fst xs) \<Longrightarrow> sum_list (map (\<lambda>(e, t). if e = email then R t else 0) xs) = (case map_of xs email of None \<Rightarrow> 0 | Some t \<Rightarrow> R t)"
proof (induction xs)
  case (Cons x xs)
  have "map_of xs (fst x) = None" using Cons.prems by (simp add: map_of_eq_None_iff)
  then show ?case using Cons by (cases x) (auto split: option.splits)
qed simp

lemma map_of_recent:
  "distinct (map fst xs) \<Longrightarrow> map_of (filter (\<lambda>(e, t). Q e t) xs) email = (case map_of xs email of Some t \<Rightarrow> if Q email t then Some t else None | None \<Rightarrow> None)"
proof (induction xs)
  case (Cons x xs)
  have "map_of xs (fst x) = None" using Cons.prems by (simp add: map_of_eq_None_iff)
  then show ?case using Cons by (cases x) (auto split: option.splits)
qed simp

lemma distinct_recent: "distinct (map fst xs) \<Longrightarrow> distinct (map fst (filter Q xs))"
  by (induction xs) auto

lemma side_sum:
  fixes R :: "int \<Rightarrow> rat"
  assumes from_rows: "\<And>t sc. bucket_sum f P (from_rows t sc) = (if in_scope sc email then R t else 0)"
    and resets: "distinct (map fst resets)"
    and only: "\<And>e d. P e d \<Longrightarrow> e = email \<and> day_number (window_horizon now) \<le> d"
  shows "bucket_sum f P (rebuild_side from_rows now scope resets table) =
    (if in_scope scope email then R (counted_from now resets email) else bucket_sum f P table)"
proof -
  define recent where "recent = filter (\<lambda>(e, t). window_horizon now \<le> t \<and> t \<le> now \<and> in_scope scope e) resets"
  define rest where "rest = filter (\<lambda>((e, d, c), b). \<not> (day_number (window_horizon now) \<le> d \<and> in_scope scope e)) table"
  define kept where "kept = filter (\<lambda>((e, d, c), b). e \<notin> fst ` set recent) (from_rows (window_horizon now) scope) @
    concat (map (\<lambda>(e, t). from_rows t (Some [e])) recent)"
  have recent: "map_of recent email = (case map_of resets email of
      Some t \<Rightarrow> if window_horizon now \<le> t \<and> t \<le> now \<and> in_scope scope email then Some t else None | None \<Rightarrow> None)"
    unfolding recent_def by (rule map_of_recent[OF resets])
  have again: "bucket_sum f P (concat (map (\<lambda>(e, t). from_rows t (Some [e])) recent)) = (case map_of recent email of None \<Rightarrow> 0 | Some t \<Rightarrow> R t)"
  proof -
    have "map (bucket_sum f P) (map (\<lambda>(e, t). from_rows t (Some [e])) recent) = map (\<lambda>(e, t). if e = email then R t else 0) recent"
      by (auto simp: from_rows in_scope_def)
    moreover have "distinct (map fst recent)" unfolding recent_def by (rule distinct_recent[OF resets])
    ultimately show ?thesis unfolding bucket_sum_concat by (simp only: sum_of_owner)
  qed
  have first: "bucket_sum f P (filter (\<lambda>((e, d, c), b). e \<notin> fst ` set recent) (from_rows (window_horizon now) scope)) =
      (if in_scope scope email \<and> map_of recent email = None then R (window_horizon now) else 0)"
  proof (cases "map_of recent email")
    case None
    then have "email \<notin> fst ` set recent" by (simp add: map_of_eq_None_iff)
    then have "bucket_sum f P (filter (\<lambda>((e, d, c), b). e \<notin> fst ` set recent) (from_rows (window_horizon now) scope)) =
        bucket_sum f P (from_rows (window_horizon now) scope)"
      using only by (intro bucket_sum_filter) auto
    then show ?thesis using None by (simp add: from_rows)
  next
    case (Some t)
    then have "email \<in> fst ` set recent" by (force dest: map_of_SomeD)
    then have "\<not> P e d" if "e \<notin> fst ` set recent" for e d using that only by blast
    then have "bucket_sum f P (filter (\<lambda>((e, d, c), b). e \<notin> fst ` set recent) t) = 0" for t
      by (intro bucket_sum_none) simp
    then show ?thesis using Some by simp
  qed
  have kept: "bucket_sum f P kept = (if in_scope scope email then R (counted_from now resets email) else 0)"
    unfolding kept_def bucket_sum_simps first again counted_from_def recent by (auto split: option.split)
  have rest: "bucket_sum f P rest = (if in_scope scope email then 0 else bucket_sum f P table)"
    unfolding rest_def using only by (auto intro!: bucket_sum_none bucket_sum_filter)
  have old: "bucket_sum f P (filter (\<lambda>((e, d, c), b). \<not> d < day_number (window_start Day now - RETENTION_DAYS * DAY)) t) = bucket_sum f P t" for t
  proof -
    have "window_start Day now - RETENTION_DAYS * DAY = (day_number now - RETENTION_DAYS) * DAY" by (simp add: left_diff_distrib)
    then have "day_number (window_start Day now - RETENTION_DAYS * DAY) = day_number now - RETENTION_DAYS" by (simp only: day_number_mult)
    moreover have "day_number now - RETENTION_DAYS \<le> day_number (window_horizon now)"
    proof -
      have "(day_number now - RETENTION_DAYS) * DAY \<le> day_number (window_horizon now) * DAY" using horizon_bounds(2,3)[of now] by simp
      moreover have "0 < DAY" by (simp add: DAY_def)
      ultimately show ?thesis by (simp only: mult_le_cancel_right_pos)
    qed
    ultimately have "day_number (window_start Day now - RETENTION_DAYS * DAY) \<le> day_number (window_horizon now)" by simp
    then show ?thesis using only by (intro bucket_sum_filter) fastforce
  qed
  show ?thesis
    unfolding rebuild_side_def Let_def recent_def[symmetric] rest_def[symmetric] kept_def[symmetric]
    using kept rest by (simp add: old del: window_start.simps filter_append)
qed

lemma in_clean_scope: "email \<noteq> [] \<Longrightarrow> in_scope (clean_scope scope) email \<longleftrightarrow> in_scope scope email"
  by (cases scope) (simp_all add: in_scope_def clean_scope_def set_uniq_eq)

lemma resets_side:
  assumes "in_scope emails email" and "email \<noteq> []"
  shows "st_buckets (rebuild creds now emails None st) =
    rebuild_side (\<lambda>t es. buckets_from_rows creds t es st) now (clean_scope emails) (st_resets st) (st_buckets st)"
proof -
  have "in_scope (clean_scope emails) email" using assms by (simp add: in_clean_scope)
  then have "clean_scope emails \<noteq> Some []" by (auto simp: in_scope_def)
  then show ?thesis by (simp add: rebuild_def Let_def)
qed

lemma owned_sum_live:
  assumes "\<And>e d. P e d \<longleftrightarrow> e = email \<and> day_number start \<le> d" and "day_number start * DAY = start"
  shows "owned_sum owner row_day g P (filter (live since) rows) =
    sum_list (map g (filter (\<lambda>r. owner r = Some email \<and> live (max start since) r) rows))"
proof -
  have "day_number start \<le> row_day r \<longleftrightarrow> start \<le> rw_valid_from r" for r
  proof -
    have "0 < DAY" by (simp add: DAY_def)
    then show ?thesis using assms(2) unfolding row_day_def day_number_def
      by (metis day_number_def zdiv_mono1 day_number_bounds(1) mult_right_mono order_less_imp_le order_trans)
  qed
  then show ?thesis by (induction rows) (auto simp: live_def assms(1) split: option.splits)
qed

text \<open>C19. What a rebuild gives: the requests and tokens of each window of a user are those of the user's rows from the later
  of the start of the window and the watermark of the user's last reset, whatever the buckets held before.\<close>

theorem rebuilt_usage:
  assumes "distinct (map fst creds)" and "distinct (map fst (st_resets st))" and "in_scope emails email" and "email \<noteq> []"
  shows "let usage = compute_usage (st_buckets (rebuild creds now emails None st)) email now currency w;
      since = max (window_start w now) (counted_from now (st_resets st) email);
      keys = filter (\<lambda>r. key_owner r = Some email \<and> live since r) (st_key_rows st);
      aws = filter (\<lambda>r. rebuilt_owner creds r = Some email \<and> live since r) (st_aws_rows st)
    in wu_requests usage = of_nat (length keys + length aws) \<and>
      wu_tokens usage = sum_list (map row_tokens keys) + sum_list (map row_tokens aws)"
proof -
  let ?P = "\<lambda>e d. e = email \<and> day_number (window_start w now) \<le> d"
  have horizon: "day_number (window_horizon now) \<le> day_number (window_start w now)"
    unfolding day_number_def using horizon_bounds(1) by (intro zdiv_mono1) (simp_all add: DAY_def)
  have scope: "in_scope (clean_scope emails) email" using assms(3,4) by (simp add: in_clean_scope)
  note side = side_sum[where P = ?P and email = email and now = now and scope = "clean_scope emails" and resets = "st_resets st"
      and from_rows = "\<lambda>t es. buckets_from_rows creds t es st", OF _ assms(2)]
  note live = owned_sum_live[where P = ?P and email = email and start = "window_start w now", OF refl start_of_day]
  show ?thesis
    unfolding Let_def window_counts resets_side[OF assms(3,4)]
    using side[of bk_requests, OF requests.from_rows_sum[OF assms(1)]] side[of bk_tokens, OF tokens.from_rows_sum[OF assms(1)]] horizon
    by (simp add: scope live sum_list_triv)
qed

section \<open>A rebuild of what was recorded\<close>

text \<open>The AWS credentials with their e-mails, and the condition under which the owner column of an AWS row and the e-mail of
  its credential name the same user: a user id that is an e-mail is that e-mail.\<close>

definition aws_emails :: "usage_base \<Rightarrow> (string \<times> string) list" where
  "aws_emails base = collect_some (\<lambda>c. map_option (Pair (uk_id c)) (uk_email c)) (ub_aws base)"

definition users_agree :: "usage_base \<Rightarrow> bool" where
  "users_agree base \<longleftrightarrow> distinct (map uk_id (ub_aws base)) \<and>
     (\<forall>c \<in> set (ub_aws base). \<forall>u \<in> set_option (uk_user c). is_email u \<longrightarrow> uk_email c = Some u)"

lemma aws_emails_of:
  "distinct (map uk_id cs) \<Longrightarrow>
     map_of (collect_some (\<lambda>c. map_option (Pair (uk_id c)) (uk_email c)) cs) i = Option.bind (find_credential cs i) uk_email"
proof (induction cs)
  case (Cons c cs)
  have "map_of (collect_some (\<lambda>c. map_option (Pair (uk_id c)) (uk_email c)) cs) (uk_id c) = None"
    using Cons.prems by (auto simp: map_of_eq_None_iff set_collect_some)
  then show ?case using Cons by (auto simp: find_credential_def split: option.splits)
qed (simp add: find_credential_def)

lemma distinct_emails: "distinct (map uk_id cs) \<Longrightarrow> distinct (map fst (collect_some (\<lambda>c. map_option (Pair (uk_id c)) (uk_email c)) cs))"
  by (induction cs) (auto simp: set_collect_some split: option.splits)

lemma find_credential_mem: "find_credential cs i = Some c \<Longrightarrow> c \<in> set cs"
  by (auto simp: find_credential_def find_Some_iff)

lemma same_owner:
  assumes "users_agree base" and "rw_owner r = aws_column base (rw_credential r)"
  shows "rebuilt_owner (aws_emails base) r = aws_owner base r"
proof -
  let ?cred = "find_credential (ub_aws base) (rw_credential r)"
  have "Option.bind ?cred uk_email = Some (rw_owner r)" if e: "is_email (rw_owner r)"
  proof (cases ?cred)
    case (Some c)
    have "is_email u \<Longrightarrow> uk_email c = Some u" if "uk_user c = Some u" for u
      using assms(1) find_credential_mem[OF Some] that by (auto simp: users_agree_def)
    then show ?thesis using e Some unfolding assms(2)
      by (auto simp: aws_column_def or_text_def is_email_def Let_def split: option.splits list.splits)
  qed (use e in \<open>simp add: assms(2) aws_column_def or_text_def is_email_def\<close>)
  moreover have "map_of (aws_emails base) (rw_credential r) = Option.bind ?cred uk_email"
    using assms(1) unfolding aws_emails_def users_agree_def by (simp add: aws_emails_of)
  ultimately show ?thesis by (simp add: rebuilt_owner_def aws_owner_def)
qed

lemma reachable_resets: "usage_reachable base limit fl \<Longrightarrow> st_resets (uf_store fl) = []"
proof (induction rule: usage_reachable.induct)
  case (step fl act)
  have p: "persist_usage_events base env failure events st = (st', b) \<Longrightarrow> st_resets st' = st_resets st" for env failure events st st' b
    by (cases failure) (auto simp: persist_usage_events_def persist_api_key_usage_def persist_aws_credential_usage_def Let_def split: prod.splits if_splits)
  show ?case using step.IH
    by (cases act) (auto simp: finish_batch_def process_memory_queue_def Let_def p split: prod.splits option.splits if_splits)
qed (simp add: start_usage_def)

lemma signed_rows:
  assumes "rows_ok base st"
  shows "r \<in> set (st_key_rows st) \<Longrightarrow> rw_signature r \<noteq> None"
    and "r \<in> set (st_aws_rows st) \<Longrightarrow> rw_signature r \<noteq> None \<and> rw_owner r = aws_column base (rw_credential r)"
proof -
  have "None \<notin> rw_signature ` set (st_key_rows st)" "None \<notin> rw_signature ` set (st_aws_rows st)"
    "\<forall>r \<in> set (st_aws_rows st). rw_owner r = aws_column base (rw_credential r)"
    using assms by (simp_all add: rows_ok_def signatures_def)
  then show "r \<in> set (st_key_rows st) \<Longrightarrow> rw_signature r \<noteq> None"
    and "r \<in> set (st_aws_rows st) \<Longrightarrow> rw_signature r \<noteq> None \<and> rw_owner r = aws_column base (rw_credential r)"
    by (metis imageI)+
qed

lemma owned_sum_window:
  assumes "\<And>e d. P e d \<longleftrightarrow> e = email \<and> day_number start \<le> d" and "day_number start * DAY = start" and "since \<le> start"
    and "\<And>r. r \<in> set rows \<Longrightarrow> rw_signature r \<noteq> None \<and> (owner r = Some email \<longleftrightarrow> owner' r = Some email)"
  shows "owned_sum owner row_day g P (filter (live since) rows) = owned_sum owner' row_day g P rows"
proof -
  have "live since r" if "r \<in> set rows" "day_number start \<le> row_day r" for r
  proof -
    have "start \<le> row_day r * DAY" using that(2) assms(2) by (metis DAY_def mult_right_mono zero_le_numeral)
    then show ?thesis using assms(3,4) that(1) day_number_bounds(1)[of "rw_valid_from r"] by (simp add: live_def row_day_def)
  qed
  then show ?thesis using assms(4)
  proof (induction rows)
    case (Cons r rows)
    have one: "(case (if live since r then owner r else None) of None \<Rightarrow> 0 | Some e \<Rightarrow> if P e (row_day r) then g r else 0) =
        (case owner' r of None \<Rightarrow> 0 | Some e \<Rightarrow> if P e (row_day r) then g r else 0)"
      using Cons.prems(1)[of r] Cons.prems(2)[of r] by (auto simp: assms(1) split: option.splits)
    have rest: "owned_sum (\<lambda>x. if live since x then owner x else None) row_day g P rows = owned_sum owner' row_day g P rows"
      using Cons by (simp add: owned_sum_filter)
    show ?case unfolding owned_sum_filter owned_sum_simps one rest ..
  qed simp
qed


section \<open>Two batches and a rebuild that differ\<close>

text \<open>When the first record of a batch is a SAP row, no row of the batch keeps its list cost, which its bucket counts.\<close>

lemma mixed_batch_list_cost:
  assumes "\<not> is_external e" and "insert_ignoring_duplicates (map (usage_row_of base env aws) (e # es)) table = (flags, table')"
    and "r \<in> set table'" and "r \<notin> set table"
  shows "rw_list_cost r = None"
proof -
  let ?rs = "map (usage_row_of base env aws) (e # es)"
  have "table' = table @ map (stored_row ?rs) (landed flags ?rs)"
    using inserted_table[OF assms(2)[unfolded insert_ignoring_duplicates_def]] by (simp only: landed_map)
  moreover have "rw_origin (usage_row_of base env aws e) \<noteq> ''external''"
    using assms(1) by (simp add: usage_row_of_def Let_def split: prod.split)
  ultimately show ?thesis using assms(3,4) by (auto simp: stored_row_def)
qed

text \<open>A user id that is another user's e-mail: the running counters use the credential's e-mail, a rebuild the user id.\<close>

lemma user_id_moves:
  assumes "find_credential (ub_aws base) i = Some c" and "uk_user c = Some u" and "is_email u" and "rw_credential r = i"
    and "rw_owner r = aws_column base i"
  shows "rebuilt_owner creds r = real_owner (Some u)" and "aws_owner base r = real_owner (uk_email c)"
proof -
  have "u \<noteq> []" using assms(3) by (auto simp: is_email_def)
  then have "rw_owner r = u" using assms by (cases u) (simp_all add: aws_column_def or_text_def)
  then show "rebuilt_owner creds r = real_owner (Some u)" "aws_owner base r = real_owner (uk_email c)"
    using assms by (simp_all add: rebuilt_owner_def aws_owner_def)
qed

section \<open>Runs\<close>

theorem rebuilt_usage_witness:
  "wu_requests (compute_usage (st_buckets (rebuild [] 2000 None None (uf_store toy_usage))) ''a@x'' 2000 [] Day) = 1"
proof -
  let ?st = "uf_store toy_usage" and ?since = "max (window_start Day 2000) (counted_from 2000 (st_resets (uf_store toy_usage)) ''a@x'')"
  have "length (filter (\<lambda>r. key_owner r = Some ''a@x'' \<and> live ?since r) (st_key_rows ?st)) = 1" by code_simp
  moreover have "length (filter (\<lambda>r. rebuilt_owner [] r = Some ''a@x'' \<and> live ?since r) (st_aws_rows ?st)) = 0" by code_simp
  moreover have "distinct (map fst (st_resets ?st))" by code_simp
  ultimately show ?thesis
    using rebuilt_usage[of "[]" ?st None "''a@x''" 2000 "[]" Day] unfolding Let_def in_scope_def by simp
qed


end
