(* ===== verification/Spec2Isabelle.thy ===== *)
theory Spec2Isabelle
  imports Call_Gate Stream_Tap Unmasker Quota_Limits Rate_Limit_Manager Memory_Budget Rank_Fusion Chunker
    Pagination Filter_Compiler Frame_Writer Responses_Agreement Responses_Payload Prompt_Cache Aws_Auth Entitlement_Agreement
    Siem_Backlog Siem_Schema Key_Guarantees Cost_Guarantees Usage_Rebuild
begin

text \<open>
  SAIL proxy: a gateway in front of language models (\<open>src/services/gateway\<close>) and its administration service
  (\<open>src/services/admin\<close>). This library models the gateway's core logic and the parts of the administration
  service that share its rules, and proves what makes them correct.

  \<^bold>\<open>How the parts interact.\<close> A request comes in with an identity: an API key
  (\<open>middlewares/unifiedTokenAuth.ts\<close>, \<open>apiKeyAuth.ts\<close>; the validation of the administration service is kept sealed in a cache
  all gateways share, until a broadcast of the invalidation channel removes it), an AWS signature
  (\<open>middlewares/tokenBasedAwsAuth.ts\<close>, \<open>utils/sigv4Verifier.ts\<close>, checked with a key the administration service hands out and the gateway
  caches for a day) or an internal user. The administration service adds the models the caller may use, composed from
  catalogs of users and teams; the gateway decides on them (\<open>utils/modelEntitlement.ts\<close>).
  \<open>middlewares/quotaEnforcement.ts\<close> admits the request by request rates (\<open>services/rateLimitStore.ts\<close>) and by the usage
  documents the administration service publishes; the limits in them are resolved by
  \<open>admin services/quotaLimits.ts\<close>. \<open>toolGovernance/middleware.ts\<close> then evaluates the tool policies of the caller
  and forwards the request without the blocked tools, or refuses it; the adapters read and edit the bodies of
  the request families. Pseudonymization replaces sensitive values by placeholders before the request leaves and
  restores them in the answer. The bridge of the Responses API translates a request into an orchestration payload and
  the chunks of the answer into Responses frames, and folds what was used into the billed counts. The answer passes
  \<open>callGate.ts\<close>, which refuses nested tool calls that are not allowed, and \<open>streamTap.ts\<close>, which records the tools that
  were called. A provider that limits the rate makes \<open>rateLimitManager.ts\<close> delay later requests; what it says in an error
  reaches the client through an allow-list. File search cuts files into chunks under a memory budget, searches them
  under an attribute filter and fuses the rankings. What a request used becomes an event; the processes of the administration
  service price it, write one row for it and add it to the daily counters of its owner and team, from which the windows of
  the quotas are read and which a rebuild computes again from the rows. Security, audit and usage events reach the outbox of the
  administration service, from where its dispatcher delivers them to the configured SIEM sinks.

  \<^bold>\<open>Theories.\<close>
  \<^item> \<open>Prelude\<close>, \<open>Js_Number\<close>: JavaScript values, strings, insertion-ordered sets and maps, \<open>Number(s)\<close>.
  \<^item> \<open>Tool_Identity\<close> (\<open>toolGovernance/identity.ts\<close>, \<open>mcpNaming.ts\<close>), \<open>Tool_Policy\<close> (\<open>evaluate.ts\<close>,
    \<open>stripNotice.ts\<close>), \<open>Adapter_Types\<close> and the five \<open>Adapter_*\<close> theories (\<open>adapters/*.ts\<close>; each interprets the
    locale of the adapter contract), \<open>Governance\<close> (\<open>middleware.ts\<close>, \<open>record.ts\<close>), \<open>Call_Gate\<close> (\<open>callGate.ts\<close>,
    with the automaton of one call as its specification and a simulation), \<open>Stream_Tap\<close> (\<open>streamTap.ts\<close>).
  \<^item> \<open>Text_Scan\<close>, \<open>Replacement_Map\<close>, \<open>Fabricated_Data\<close>, \<open>Entity_Replacer\<close>, \<open>Unknown_Placeholders\<close>, \<open>Unmasker\<close>:
    the pseudonymization plugin (\<open>plugins/pseudonymization/*.ts\<close>), from the placeholder of a value to the
    restoration of a stream in pieces.
  \<^item> \<open>Utc_Calendar\<close> (\<open>admin services/quotaWindows.ts\<close>), \<open>Rate_Limit_Store\<close> (\<open>rateLimitStore.ts\<close>; both stores
    under the locale of counter stores), \<open>Quota_Enforcement\<close> (\<open>quotaEnforcement.ts\<close>, \<open>quotaStateReader.ts\<close>,
    \<open>utils/userBlock.ts\<close>), \<open>Quota_Limits\<close> (\<open>admin services/quotaLimits.ts\<close>), \<open>Rate_Limit_Manager\<close>
    (\<open>rateLimitManager.ts\<close>).
  \<^item> \<open>Memory_Budget\<close>, \<open>Rank_Fusion\<close>, \<open>Chunker\<close>, \<open>Query_Params\<close>, \<open>Pagination\<close>, \<open>Filter_Compiler\<close>: file search
    (\<open>fileSearch/memoryBudget.ts\<close>, \<open>rrf.ts\<close>, \<open>chunker.ts\<close> and \<open>pages.ts\<close>, \<open>utils/queryParam.ts\<close>, \<open>pagination.ts\<close>, \<open>filterCompiler.ts\<close>).
  \<^item> \<open>Event_Stream\<close>, \<open>Converse_Frames\<close>, \<open>Frame_Writer\<close>: the binary event stream of AWS (\<open>utils/bedrockEventStream.ts\<close>,
    \<open>eventStreamDecoder.ts\<close>, \<open>converseEventData.ts\<close>).
  \<^item> \<open>Usage_Folding\<close> (token counts of the providers and their folding into the billed ones), \<open>Upstream_Error\<close> (the
    allow-list of error fields), \<open>Sse_Framing\<close>; \<open>Responses_Request\<close>, \<open>Responses_Payload\<close>, \<open>Prompt_Cache\<close> (a request and
    its cache breakpoints), \<open>Responses_Bridge\<close>, \<open>Responses_Turn\<close> (the answer, whole and in chunks),
    \<open>Responses_Agreement\<close> (both agree): \<open>responses/orchestrationBridge/*.ts\<close> and what it calls.
  \<^item> \<open>Aws_Signature\<close>, \<open>Signing_Keys\<close>, \<open>Aws_Auth\<close>: requests signed the AWS way, the cache of derived keys, and the
    authentication of such a request with the validation and revocation of credentials on the other side.
  \<^item> \<open>Key_Sources\<close> (\<open>utils/extractApiKey.ts\<close>, \<open>redactUrl.ts\<close>, \<open>clientIp.ts\<close>, \<open>credentialIdentity.ts\<close>), \<open>Unified_Cache\<close>
    (\<open>services/unifiedValidationCache.ts\<close>, \<open>valkeyDistributedCacheAdapter.ts\<close>, \<open>libs/cache-invalidation\<close>), \<open>Api_Key_Auth\<close>
    (the local key store, the validation and the middlewares), \<open>Key_Fleet\<close> (several gateways, the cache they share and an
    intruder who writes into it), \<open>Key_Guarantees\<close>: requests with an API key.
  \<^item> \<open>Model_Entitlement\<close> (gateway), \<open>Model_Catalogs\<close>, \<open>Catalog_Operations\<close> (\<open>admin services/modelEntitlementService.ts\<close> and
    the handlers on it), \<open>Catalog_Invariant\<close> (what every operation keeps), \<open>Entitlement_Agreement\<close> (both sides).
  \<^item> \<open>Siem_Event\<close>, \<open>Siem_Schema\<close> (\<open>admin siem/siemEvent.ts\<close>), \<open>Siem_Outbox\<close> (\<open>outbox.ts\<close>), \<open>Siem_Dispatcher\<close>
    (\<open>dispatcher.ts\<close>), \<open>Siem_Delivery\<close> (the invariant of its states), \<open>Siem_Guarantees\<close>, \<open>Siem_Backlog\<close> (progress).

  \<^item> \<open>Model_Cost\<close> (\<open>admin services/modelCostService.ts\<close>, \<open>sapCapacityService.ts\<close>, \<open>sapTenants.ts\<close>,
    \<open>externalUsagePricing.ts\<close>, \<open>pricingTwins.ts\<close>), \<open>Cost_Guarantees\<close>; \<open>Usage_Counters\<close> (\<open>usageCounters.ts\<close>),
    \<open>Usage_Events\<close> (\<open>usageEventProcessor.ts\<close>), \<open>Usage_Sums\<close> (sums over buckets and rows, for every figure that adds up),
    \<open>Usage_Guarantees\<close> (several processes at one database), \<open>Usage_Rebuild\<close>: usage, from the event to the windows of the quotas.

  Definitions keep the names of the source in lower case with underscores; constants keep theirs. The operations
  of a component stand in the order of its file.

  \<^bold>\<open>Modelling.\<close> JavaScript values are \<open>js\<close>; numbers are rationals, or integers where the source counts; strings
  are lists of the code units below 256. Mutable state is a record that operations return updated; objects with
  an identity (reservations, placeholders) are entries of an association list in insertion order; a table is the list of
  its rows. An exception is the left injection of a sum. The clock is an argument, read once per operation. Code that
  awaits between steps others may interleave with is a step relation with its reachable states (governance of streams
  by chunks, waiting for memory, the catalogs, the dispatcher of the SIEM export, the gateways at the shared cache, the
  processes that record usage). Regular expressions are written
  out as scanners, with the longest match where the source relies on it. Recursions that are not structural are
  functions with a measure; the only fuel is the depth limit the filter compiler has itself, the number of pages of a
  client's walk, for which one more than the number of rows is proved to be enough, and the pruning of catalogs, for
  which one more than their number is proved to be enough.

  \<^bold>\<open>Parameters\<close> stand for code that is not in the repository: \<open>JSON.parse\<close> and \<open>JSON.stringify\<close>, UTF-8 and base64, SHA-256
  and HMAC, the cipher of cached validations, the URL parser, \<open>Date.parse\<close> and \<open>toISOString\<close>, \<open>Math.random\<close> and random ids, number formatting, the replies
  of the Valkey client, of the sinks and of the administration service, the parser of SSE frames, the rows of the
  database and its failures. What a theorem needs of them is a premise of it.

  \<^bold>\<open>What the lemmas show.\<close> The properties are numbered C1 to C40 where they stand. Tool governance: what is
  allowed, stripped and refused, that more policies never allow more, that a blocked tool is neither declared nor
  forced nor called through the gate, and that gate and tap do not depend on how a stream is cut. Pseudonymization:
  unmasking restores what masking replaced, in whole texts and in streams. Entitlement: what the gateway allows is the
  intersection of the user's and the team's side less the exclusions, every change names everybody it touches, members
  stay within the parent, and pruning ends. SIEM export: delivery states are honest under every interleaving, sinks get
  only what they opted into and always in the schema, the chunked repair is exact, a rejected event costs no other, a
  backlog drains. AWS authentication: what passes was signed with the key of an active credential over this request; a
  replay repeats it; a revoked key is refused. API keys: a key passes only if it was granted, whatever an intruder writes into
  the shared cache; a broadcast leaves no cached validation; which requests pass without a key; a redacted URL hides keys; a
  refused key is answered alike whether it exists or not. Quotas: admission is exact, exhausted users are refused, windows tile
  the time line. Usage: every event is counted once however it is delivered and retried, no accepted event is lost, and a
  rebuild of the counters changes no window. Costs: both ways to a price find the same row, rounding moves a total by at most
  four millionths. Bridge: a turn is well formed whatever the chunks, a streamed answer equals the whole one, usage is
  billed once. File search: the memory budget accounts for every byte and starves nobody; filters reach the SQL text
  by their shape alone; chunks lose no word; fusion returns what it promises. Lemmas outside the properties state
  further behaviour and the defects listed as findings, as a tool declared under two spellings that escapes its
  denial.

  \<^bold>\<open>Not modelled.\<close> Express, HTTP and the transports; logging and events beyond their throttling and normalization; the
  translators of the other provider bridges; the detectors of the pseudonymization cascade; SQL and its execution; the
  configuration services, the refreshing of prices and of the library, the secrets of the sinks, the creation of AWS credentials, row filters and annotations of the
  CAP service; hosted tools and other plugins; the user interfaces, the command line, deployment and build scripts. They
  are input/output, configuration or glue around the modelled core.
\<close>

end
